(* ===== verification/Prelude.thy ===== *)
theory Prelude
  imports Main "HOL-Library.Word"
begin

text \<open>
  Shared vocabulary of the development: the machine integers of the simulator, the
  faults a run can stop with, the page and cache-line arithmetic that every prefetcher
  repeats, the deque operations that the tables of the prefetchers are built from, and
  the contract of a page-bounded prefetcher as a locale.

  Signed C++ integers of width \<open>w\<close> are \<open>w word\<close>s read by \<^const>\<open>sint\<close>; unsigned
  ones are \<open>w word\<close>s read by \<^const>\<open>unat\<close> or \<^const>\<open>uint\<close>. Shifts are
  \<^const>\<open>push_bit\<close> and \<^const>\<open>drop_bit\<close>, conversions \<^const>\<open>ucast\<close>
  (zero extension, truncation) and \<^const>\<open>scast\<close> (sign extension).
\<close>

unbundle bit_operations_syntax

type_synonym u8 = "8 word"
type_synonym u16 = "16 word"
type_synonym u32 = "32 word"
type_synonym u64 = "64 word"
type_synonym i32 = "32 word"
type_synonym i64 = "64 word"

text \<open>
  What stops a run: a failed \<^verbatim>\<open>assert\<close>, an access outside an array or an empty
  container, a use of an iterator that an erase has invalidated, a division by zero, a call
  through a null pointer, a loop that does not end.
\<close>

datatype fault = Assert_failed | Out_of_bounds | Invalid_iterator | Div_by_zero | Null_pointer | Endless_loop

type_synonym 'a res = "fault + 'a"

definition bind_res :: "'a res \<Rightarrow> ('a \<Rightarrow> 'b res) \<Rightarrow> 'b res" where
  "bind_res m f = (case m of Inl e \<Rightarrow> Inl e | Inr x \<Rightarrow> f x)"

lemma bind_res_simps [simp]: "bind_res (Inl e) f = Inl e" "bind_res (Inr x) f = f x"
  by (simp_all add: bind_res_def)

lemma bind_res_Inr_iff: "bind_res m f = Inr y \<longleftrightarrow> (\<exists>x. m = Inr x \<and> f x = Inr y)"
  by (simp add: bind_res_def split: sum.splits)

lemma Inr_Pair_inject: "(Inr (a, b) :: ('a \<times> 'b) res) = Inr (c, d) \<Longrightarrow> a = c \<and> b = d"
  by simp

text \<open>How a computation may end: with a value that satisfies \<open>P\<close>, or with one of the faults \<open>A\<close>.\<close>

definition ends :: "fault set \<Rightarrow> ('a \<Rightarrow> bool) \<Rightarrow> 'a res \<Rightarrow> bool" where
  "ends A P m = (case m of Inl f \<Rightarrow> f \<in> A | Inr x \<Rightarrow> P x)"

lemma ends_simps [simp]: "ends A P (Inl f) \<longleftrightarrow> f \<in> A" "ends A P (Inr x) \<longleftrightarrow> P x"
  by (simp_all add: ends_def)

lemma ends_bind: "ends A P m \<Longrightarrow> (\<And>x. P x \<Longrightarrow> ends A Q (f x)) \<Longrightarrow> ends A Q (bind_res m f)"
  by (cases m) simp_all

lemma ends_bind_total: "ends {} P m \<Longrightarrow> (\<And>x. P x \<Longrightarrow> ends A Q (f x)) \<Longrightarrow> ends A Q (bind_res m f)"
  by (cases m) simp_all

lemma ends_mono: "ends A P m \<Longrightarrow> (\<And>x. P x \<Longrightarrow> Q x) \<Longrightarrow> A \<subseteq> B \<Longrightarrow> ends B Q m"
  by (cases m) auto

lemma ends_conj: "ends A P m \<Longrightarrow> ends B Q m \<Longrightarrow> ends A (\<lambda>x. P x \<and> Q x) m"
  by (cases m) simp_all

lemma ends_total: "ends {} P m \<longleftrightarrow> (\<exists>x. m = Inr x \<and> P x)"
  by (cases m) auto

named_theorems page_simps \<open>page, offset and line-address arithmetic\<close>

section \<open>Bits of bounded words\<close>

lemma word_less_2p_bits: "uint (w::'a::len word) < 2 ^ n \<Longrightarrow> bit w k \<Longrightarrow> k < n"
  by (metis bit_take_bit_iff mask_eq_iff take_bit_eq_mask)

lemma u32_bound: "unat (x::u32) < 4294967296"
  using unsigned_less [of x, where ?'a = nat] by simp

lemma unat_pos: "0 < (w::'a::len word) \<Longrightarrow> 0 < unat w"
  by (simp add: word_less_nat_alt)

lemma less_64_bits: "w < (64::32 word) \<Longrightarrow> bit w k \<Longrightarrow> k < 6"
  using word_less_2p_bits [of w 6 k] by (simp add: word_less_def)

lemma sint_32_eq: "sint (w::32 word) = (if bit w 31 then uint w - 4294967296 else uint w)"
proof -
  have "uint w < 2 ^ 32" using uint_lt2p [of w] by simp
  then have "take_bit 32 (uint w) = uint w" by (simp add: take_bit_int_eq_self)
  moreover have "sint w = take_bit 32 (uint w) - (if bit w 31 then 4294967296 else 0)"
    unfolding sint_uint using signed_take_bit_eq_take_bit_minus [of 31 "uint w"]
    by (simp add: bit_uint_iff)
  ultimately show ?thesis by simp
qed

section \<open>Pages, cache lines and offsets\<close>

text \<open>
  \<^verbatim>\<open>LOG2_PAGE_SIZE\<close> is 12 and \<^verbatim>\<open>LOG2_BLOCK_SIZE\<close> is 6 (\<^verbatim>\<open>inc/commons.h\<close>): a page
  has 64 cache lines. The three expressions below open the \<^verbatim>\<open>invoke_prefetcher\<close> of
  every prefetcher and build every prefetch address.
\<close>

definition page_of :: "u64 \<Rightarrow> u64" where
  "page_of address = drop_bit 12 address"

definition page_offset :: "u64 \<Rightarrow> u32" where
  "page_offset address = ucast (drop_bit 6 address AND (push_bit (12 - 6) 1 - 1))"

definition line_address :: "u64 \<Rightarrow> i32 \<Rightarrow> u64" where
  "line_address page off = push_bit 12 page + scast (push_bit 6 off)"

definition in_page_offset :: "i32 \<Rightarrow> bool" where
  "in_page_offset off \<longleftrightarrow> 0 \<le> sint off \<and> sint off < 64"

definition cache_line :: "u64 \<Rightarrow> u64" where
  "cache_line address = drop_bit 6 address"

text \<open>A line address is the address of the first byte of a cache line.\<close>

definition line_aligned :: "u64 \<Rightarrow> bool" where
  "line_aligned a \<longleftrightarrow> take_bit 6 a = 0"

lemma in_page_offset_iff [page_simps]: "in_page_offset w \<longleftrightarrow> w < 64"
proof -
  have "uint w < 4294967296" using uint_lt2p [of w] by simp
  moreover have "uint w < 64 \<Longrightarrow> \<not> bit w 31"
    using word_less_2p_bits [of w 6 31] by auto
  ultimately show ?thesis by (auto simp: in_page_offset_def sint_32_eq word_less_def)
qed

lemma page_offset_take_bit: "page_offset a = ucast (take_bit 6 (drop_bit 6 a))"
  by (simp add: page_offset_def take_bit_eq_mask mask_eq_decr_exp)

lemma bit_page_offset: "bit (page_offset a) k \<longleftrightarrow> k < 6 \<and> bit a (k + 6)"
  by (auto simp: page_offset_take_bit bit_simps ac_simps)

lemma page_offset_less [page_simps]: "page_offset a < 64"
proof -
  have "take_bit 6 (page_offset a) = page_offset a"
    by (rule bit_word_eqI) (auto simp: bit_page_offset bit_simps)
  then show ?thesis
    using mask_eq_iff [of "page_offset a" 6]
    by (simp add: word_less_def take_bit_eq_mask [symmetric])
qed

lemma bit_line: "w < (64::i32) \<Longrightarrow> bit (scast (push_bit 6 w) :: u64) k \<longleftrightarrow> 6 \<le> k \<and> bit w (k - 6)"
  using less_64_bits [of w "k - 6"] less_64_bits [of w 25]
  by (auto simp: bit_simps min_def not_le)

lemma line_address_or: "w < 64 \<Longrightarrow> line_address p w = push_bit 12 p OR scast (push_bit 6 w)"
  unfolding line_address_def
  by (rule disjunctive_add) (auto simp: bit_line bit_push_bit_iff dest: less_64_bits)

lemma bit_line_address:
  "w < 64 \<Longrightarrow> bit (line_address p w) k \<longleftrightarrow>
     (k < 64 \<and> 12 \<le> k \<and> bit p (k - 12)) \<or> (6 \<le> k \<and> bit w (k - 6))"
  by (auto simp: line_address_or bit_or_iff bit_line bit_push_bit_iff)

lemma page_of_line_address [page_simps]:
  assumes "w < 64"
  shows "page_of (line_address (page_of a) w) = page_of a"
  unfolding page_of_def
proof (rule bit_word_eqI)
  fix n
  have "bit a (12 + n) \<Longrightarrow> 12 + n < 64" using bit_imp_le_length [of a "12 + n"] by simp
  then show "bit (drop_bit 12 (line_address (drop_bit 12 a) w)) n = bit (drop_bit 12 a) n"
    using less_64_bits [OF assms, of "n + 6"]
    by (auto simp: bit_line_address [OF assms] bit_drop_bit_eq ac_simps)
qed

lemma page_offset_line_address [page_simps]: "w < 64 \<Longrightarrow> page_offset (line_address p w) = w"
  by (rule bit_word_eqI) (auto simp: bit_page_offset bit_line_address dest: less_64_bits)

lemma line_aligned_line_address [page_simps]: "w < 64 \<Longrightarrow> line_aligned (line_address p w)"
  unfolding line_aligned_def by (rule bit_word_eqI) (auto simp: bit_line_address bit_simps)

section \<open>Deque operations\<close>

text \<open>
  The tables of the prefetchers are deques searched by \<^verbatim>\<open>find_if\<close>; \<open>erase_first\<close>
  is \<^verbatim>\<open>erase\<close> of the iterator that the search returned, \<open>update_first\<close> a write
  through it.
\<close>

fun erase_first :: "('a \<Rightarrow> bool) \<Rightarrow> 'a list \<Rightarrow> 'a list" where
  "erase_first P [] = []"
| "erase_first P (x # xs) = (if P x then xs else x # erase_first P xs)"

fun update_first :: "('a \<Rightarrow> bool) \<Rightarrow> ('a \<Rightarrow> 'a) \<Rightarrow> 'a list \<Rightarrow> 'a list" where
  "update_first P f [] = []"
| "update_first P f (x # xs) = (if P x then f x # xs else x # update_first P f xs)"

lemma set_erase_first: "set (erase_first P xs) \<subseteq> set xs"
  by (induction xs) auto

lemma length_erase_first:
  "length (erase_first P xs) = (if \<exists>x\<in>set xs. P x then length xs - 1 else length xs)"
  by (induction xs) (auto dest: length_pos_if_in_set)

lemma distinct_map_erase_first: "distinct (map f xs) \<Longrightarrow> distinct (map f (erase_first P xs))"
  by (induction xs) (auto dest!: set_erase_first [THEN subsetD])

lemma set_erase_first_key:
  "distinct (map f xs) \<Longrightarrow> set (erase_first (\<lambda>x. f x = k) xs) = {x \<in> set xs. f x \<noteq> k}"
  by (induction xs) (auto simp: image_iff)

lemma length_update_first [simp]: "length (update_first P f xs) = length xs"
  by (induction xs) auto

lemma map_update_first:
  "(\<And>x. P x \<Longrightarrow> g (f x) = g x) \<Longrightarrow> map g (update_first P f xs) = map g xs"
  by (induction xs) auto

lemma set_update_first:
  "y \<in> set (update_first P f xs) \<Longrightarrow> y \<in> set xs \<or> (\<exists>x\<in>set xs. P x \<and> y = f x)"
  by (induction xs) (auto split: if_splits)

lemma find_SomeD: "find P xs = Some x \<Longrightarrow> x \<in> set xs \<and> P x"
  by (induction xs) (auto split: if_splits)

lemma find_None_key: "find (\<lambda>x. f x = k) xs = None \<longleftrightarrow> k \<notin> f ` set xs"
  by (auto simp: find_None_iff)

lemma find_Some_erase_length:
  "find P xs = Some x \<Longrightarrow> length (erase_first P xs) = length xs - 1 \<and> xs \<noteq> []"
  by (auto simp: length_erase_first dest: find_SomeD)

lemma set_tl_subset: "set (tl xs) \<subseteq> set xs"
  by (cases xs) auto

lemma list_all_erase_first: "list_all Q xs \<Longrightarrow> list_all Q (erase_first P xs)"
  by (induction xs) auto

lemma distinct_move_back:
  "distinct (map f xs) \<Longrightarrow> f y = k \<Longrightarrow> distinct (map f (erase_first (\<lambda>x. f x = k) xs @ [y]))"
  by (auto simp: distinct_map_erase_first set_erase_first_key)

lemma find_append_key:
  "find P (xs @ [y]) = (case find P xs of None \<Rightarrow> if P y then Some y else None | Some x \<Rightarrow> Some x)"
  by (induction xs) auto

lemma find_moved_back:
  "distinct (map f xs) \<Longrightarrow> f y = k \<Longrightarrow> find (\<lambda>x. f x = k) (erase_first (\<lambda>x. f x = k) xs @ [y]) = Some y"
proof -
  assume "distinct (map f xs)" "f y = k"
  moreover from this have "find (\<lambda>x. f x = k) (erase_first (\<lambda>x. f x = k) xs) = None"
    by (auto simp: find_None_iff set_erase_first_key)
  ultimately show ?thesis by (simp add: find_append_key)
qed

section \<open>Counters\<close>

text \<open>\<^verbatim>\<open>t[i][j]++\<close> on a table of counters.\<close>

definition bump2 :: "nat \<Rightarrow> nat \<Rightarrow> u64 list list \<Rightarrow> u64 list list res" where
  "bump2 i j t =
     (if i < length t \<and> j < length (t ! i) then Inr (t[i := (t ! i)[j := t ! i ! j + 1]]) else Inl Out_of_bounds)"

section \<open>The contract of a page-bounded prefetcher\<close>

text \<open>
  \<^verbatim>\<open>invoke_prefetcher(pc, address, ..., pref_addr)\<close> updates the prefetcher and appends
  addresses to \<^verbatim>\<open>pref_addr\<close>. A run feeds it a sequence of demand accesses, each with an
  empty vector as the cache does, and collects the vectors.
\<close>

type_synonym 's prefetcher = "'s \<Rightarrow> u64 \<Rightarrow> u64 \<Rightarrow> ('s \<times> u64 list) res"

fun prefetcher_run :: "'s prefetcher \<Rightarrow> 's \<Rightarrow> (u64 \<times> u64) list \<Rightarrow> ('s \<times> u64 list list) res" where
  "prefetcher_run invoke s [] = Inr (s, [])"
| "prefetcher_run invoke s ((pc, a) # as) =
     bind_res (invoke s pc a) (\<lambda>(s', out).
       bind_res (prefetcher_run invoke s' as) (\<lambda>(s'', outs). Inr (s'', out # outs)))"

definition same_page :: "u64 \<Rightarrow> u64 \<Rightarrow> bool" where
  "same_page a b \<longleftrightarrow> page_of a = page_of b"

definition good_prefetch :: "u64 \<Rightarrow> u64 \<Rightarrow> bool" where
  "good_prefetch demand p \<longleftrightarrow> same_page p demand \<and> line_aligned p"

text \<open>At most \<open>degree\<close> prefetches per access, all of them lines of its page.\<close>

definition bounded_outputs :: "nat \<Rightarrow> (u64 \<times> u64) list \<Rightarrow> u64 list list \<Rightarrow> bool" where
  "bounded_outputs degree as outs \<longleftrightarrow>
     list_all2 (\<lambda>(pc, a) out. list_all (good_prefetch a) out \<and> length out \<le> degree) as outs"

lemma good_prefetch_line_address [page_simps]:
  "w < 64 \<Longrightarrow> good_prefetch a (line_address (page_of a) w)"
  by (simp add: good_prefetch_def same_page_def page_simps)

text \<open>
  The contract: from a well-formed state a call does not fault, keeps the state well
  formed, issues at most \<open>degree\<close> addresses, and each of them is a line of the page of
  the demand access. The lemmas inside lift it to whole runs.
\<close>

locale page_prefetcher =
  fixes invoke :: "'s prefetcher"
    and wf :: "'s \<Rightarrow> bool"
    and degree :: nat
  assumes invoke_total: "wf s \<Longrightarrow> \<exists>s' out. invoke s pc a = Inr (s', out)"
    and invoke_wf: "wf s \<Longrightarrow> invoke s pc a = Inr (s', out) \<Longrightarrow> wf s'"
    and invoke_good: "wf s \<Longrightarrow> invoke s pc a = Inr (s', out) \<Longrightarrow> list_all (good_prefetch a) out"
    and invoke_degree: "wf s \<Longrightarrow> invoke s pc a = Inr (s', out) \<Longrightarrow> length out \<le> degree"
begin

lemma run_ok:
  "wf s \<Longrightarrow> \<exists>s' outs. prefetcher_run invoke s as = Inr (s', outs) \<and> wf s' \<and>
     bounded_outputs degree as outs"
  unfolding bounded_outputs_def
proof (induction as arbitrary: s)
  case Nil
  then show ?case by simp
next
  case (Cons x as)
  obtain pc a where x: "x = (pc, a)" by force
  obtain s' out where step: "invoke s pc a = Inr (s', out)"
    using invoke_total [OF Cons.prems] by blast
  from Cons.IH [OF invoke_wf [OF Cons.prems step]] obtain s'' outs where
    "prefetcher_run invoke s' as = Inr (s'', outs)" "wf s''"
    "list_all2 (\<lambda>(pc, a) out. list_all (good_prefetch a) out \<and> length out \<le> degree) as outs"
    by blast
  then show ?case
    using step invoke_good [OF Cons.prems step] invoke_degree [OF Cons.prems step]
    by (simp add: x)
qed

end

end
