(* ===== verification/HashZoo.thy ===== *)
theory HashZoo
  imports Prelude
begin

text \<open>
  The hash functions of \<^verbatim>\<open>src/util.cc\<close>: \<^verbatim>\<open>folded_xor\<close> and the class \<^verbatim>\<open>HashZoo\<close>,
  with which the features of the learning prefetcher are folded into table indices.
  Every function is the straight-line 32-bit code of the source.

  The lemmas show that each mixing function is a bijection of the 32-bit words, so that
  the only loss of a hashed index is in the final modulo: every line of a mixer either
  determines the low bits of its input from the low bits of its output (additions,
  left shifts, odd multiplications) or the high bits from the high bits (right shifts).
  \<^verbatim>\<open>knuth\<close> is the exception: it drops the low three bits of its key.
\<close>

section \<open>Definitions\<close>

text \<open>
  \<^verbatim>\<open>folded_xor(value, num_folds)\<close>: both assertions first; then the xor of
  \<^verbatim>\<open>num_folds\<close> chunks of \<^verbatim>\<open>64/num_folds\<close> bits. The loop variable and the shift
  distance stay below 64 unless there are more folds than bits, where they are 0.
\<close>

definition folded_xor :: "u64 \<Rightarrow> u32 \<Rightarrow> u32 res" where
  "folded_xor value num_folds =
     (if \<not> num_folds > 1 then Inl Assert_failed
      else if num_folds AND (num_folds - 1) \<noteq> 0 then Inl Assert_failed
      else
        let bits_in_fold = 64 div num_folds;
            mask = (if num_folds = 2 then 0xffffffff
                    else ucast (push_bit (unat bits_in_fold) (1::u64) - 1)) :: u32
        in Inr (fold (\<lambda>i folded_value. ucast (ucast folded_value XOR
                        (drop_bit (i * unat bits_in_fold) value AND ucast mask)))
                 [0..<unat num_folds] 0))"

definition jenkins :: "u32 \<Rightarrow> u32" where
  "jenkins key =
     (let key = key + push_bit 12 key;
          key = key XOR drop_bit 22 key;
          key = key + push_bit 4 key;
          key = key XOR drop_bit 9 key;
          key = key + push_bit 10 key;
          key = key XOR drop_bit 2 key;
          key = key + push_bit 7 key;
          key = key XOR drop_bit 12 key
      in key)"

definition knuth :: "u32 \<Rightarrow> u32" where
  "knuth key = drop_bit 3 key * 2654435761"

text \<open>\<^verbatim>\<open>murmur3\<close> is a stub: its body is \<^verbatim>\<open>assert(false)\<close>.\<close>

definition murmur3 :: "u32 \<Rightarrow> u32 res" where
  "murmur3 key = Inl Assert_failed"

definition jenkins32 :: "u32 \<Rightarrow> u32" where
  "jenkins32 key =
     (let key = (key + 0x7ed55d16) + push_bit 12 key;
          key = (key XOR 0xc761c23c) XOR drop_bit 19 key;
          key = (key + 0x165667b1) + push_bit 5 key;
          key = (key + 0xd3a2646c) XOR push_bit 9 key;
          key = (key + 0xfd7046c5) + push_bit 3 key;
          key = (key XOR 0xb55a4f09) XOR drop_bit 16 key
      in key)"

definition hash32shift :: "u32 \<Rightarrow> u32" where
  "hash32shift key =
     (let key = NOT key + push_bit 15 key;
          key = key XOR drop_bit 12 key;
          key = key + push_bit 2 key;
          key = key XOR drop_bit 4 key;
          key = key * 2057;
          key = key XOR drop_bit 16 key
      in key)"

definition hash32shiftmult :: "u32 \<Rightarrow> u32" where
  "hash32shiftmult key =
     (let key = (key XOR 61) XOR drop_bit 16 key;
          key = key + push_bit 3 key;
          key = key XOR drop_bit 4 key;
          key = key * 0x27d4eb2d;
          key = key XOR drop_bit 15 key
      in key)"

definition hash64shift :: "u32 \<Rightarrow> u32" where
  "hash64shift key =
     (let key = NOT key + push_bit 21 key;
          key = key XOR drop_bit 24 key;
          key = (key + push_bit 3 key) + push_bit 8 key;
          key = key XOR drop_bit 14 key;
          key = (key + push_bit 2 key) + push_bit 4 key;
          key = key XOR drop_bit 28 key;
          key = key + push_bit 31 key
      in key)"

definition hash5shift :: "u32 \<Rightarrow> u32" where
  "hash5shift key =
     (let key = (key XOR 61) XOR drop_bit 16 key;
          key = key + push_bit 3 key;
          key = key XOR drop_bit 4 key;
          key = key * 0x27d4eb2d;
          key = key XOR drop_bit 15 key
      in key)"

definition hash7shift :: "u32 \<Rightarrow> u32" where
  "hash7shift key =
     (let key = key - push_bit 6 key;
          key = key XOR drop_bit 17 key;
          key = key - push_bit 9 key;
          key = key XOR push_bit 4 key;
          key = key - push_bit 3 key;
          key = key XOR push_bit 10 key;
          key = key XOR drop_bit 15 key
      in key)"

definition Wang6shift :: "u32 \<Rightarrow> u32" where
  "Wang6shift key =
     (let key = key + NOT (push_bit 15 key);
          key = key XOR drop_bit 10 key;
          key = key + push_bit 3 key;
          key = key XOR drop_bit 6 key;
          key = key + NOT (push_bit 11 key);
          key = key XOR drop_bit 16 key
      in key)"

definition Wang5shift :: "u32 \<Rightarrow> u32" where
  "Wang5shift key =
     (let key = (key + 0x479ab41d) + push_bit 8 key;
          key = (key XOR 0xe4aa10ce) XOR drop_bit 5 key;
          key = (key + 0x9942f0a6) - push_bit 14 key;
          key = (key XOR 0x5aedd67d) XOR drop_bit 3 key;
          key = (key + 0x17bea992) + push_bit 7 key
      in key)"

definition Wang4shift :: "u32 \<Rightarrow> u32" where
  "Wang4shift key =
     (let key = (key XOR 0xdeadbeef) + push_bit 4 key;
          key = key XOR drop_bit 10 key;
          key = key + push_bit 7 key;
          key = key XOR drop_bit 13 key
      in key)"

definition Wang3shift :: "u32 \<Rightarrow> u32" where
  "Wang3shift key =
     (let key = key XOR drop_bit 4 key;
          key = (key XOR 0xdeadbeef) + push_bit 5 key;
          key = key XOR drop_bit 11 key
      in key)"

definition three_hybrid1 :: "u32 \<Rightarrow> u32" where
  "three_hybrid1 key = knuth (hash64shift (jenkins32 key))"

definition three_hybrid2 :: "u32 \<Rightarrow> u32" where
  "three_hybrid2 key = jenkins32 (Wang5shift (hash5shift key))"

definition three_hybrid3 :: "u32 \<Rightarrow> u32" where
  "three_hybrid3 key = jenkins (hash32shiftmult (Wang3shift key))"

definition three_hybrid4 :: "u32 \<Rightarrow> u32" where
  "three_hybrid4 key = Wang6shift (hash32shift (Wang5shift key))"

definition three_hybrid5 :: "u32 \<Rightarrow> u32" where
  "three_hybrid5 key = hash64shift (hash32shift (knuth key))"

definition three_hybrid6 :: "u32 \<Rightarrow> u32" where
  "three_hybrid6 key = hash5shift (jenkins (Wang6shift key))"

definition three_hybrid7 :: "u32 \<Rightarrow> u32" where
  "three_hybrid7 key = Wang4shift (jenkins32 (hash7shift key))"

definition three_hybrid8 :: "u32 \<Rightarrow> u32" where
  "three_hybrid8 key = Wang3shift (Wang6shift (hash64shift key))"

definition three_hybrid9 :: "u32 \<Rightarrow> u32" where
  "three_hybrid9 key = hash32shift (Wang3shift (jenkins key))"

definition three_hybrid10 :: "u32 \<Rightarrow> u32" where
  "three_hybrid10 key = hash32shiftmult (Wang4shift (hash32shiftmult key))"

definition three_hybrid11 :: "u32 \<Rightarrow> u32" where
  "three_hybrid11 key = hash7shift (hash5shift (Wang4shift key))"

definition three_hybrid12 :: "u32 \<Rightarrow> u32" where
  "three_hybrid12 key = Wang5shift (jenkins32 (hash32shift key))"

definition four_hybrid1 :: "u32 \<Rightarrow> u32" where
  "four_hybrid1 key = Wang6shift (Wang5shift (Wang3shift (Wang4shift key)))"

definition four_hybrid2 :: "u32 \<Rightarrow> u32" where
  "four_hybrid2 key = hash32shiftmult (jenkins (Wang5shift (Wang6shift key)))"

definition four_hybrid3 :: "u32 \<Rightarrow> u32" where
  "four_hybrid3 key = hash64shift (hash7shift (jenkins32 (hash32shift key)))"

definition four_hybrid4 :: "u32 \<Rightarrow> u32" where
  "four_hybrid4 key = knuth (knuth (hash32shiftmult (hash5shift key)))"

definition four_hybrid5 :: "u32 \<Rightarrow> u32" where
  "four_hybrid5 key = jenkins32 (Wang4shift (hash64shift (hash32shiftmult key)))"

definition four_hybrid6 :: "u32 \<Rightarrow> u32" where
  "four_hybrid6 key = jenkins (hash32shift (Wang4shift (Wang3shift key)))"

definition four_hybrid7 :: "u32 \<Rightarrow> u32" where
  "four_hybrid7 key = hash32shift (hash64shift (hash5shift (hash64shift key)))"

definition four_hybrid8 :: "u32 \<Rightarrow> u32" where
  "four_hybrid8 key = hash7shift (hash5shift (hash32shiftmult (Wang6shift key)))"

definition four_hybrid9 :: "u32 \<Rightarrow> u32" where
  "four_hybrid9 key = hash32shiftmult (Wang6shift (jenkins32 (knuth key)))"

definition four_hybrid10 :: "u32 \<Rightarrow> u32" where
  "four_hybrid10 key = Wang3shift (jenkins32 (knuth (jenkins key)))"

definition four_hybrid11 :: "u32 \<Rightarrow> u32" where
  "four_hybrid11 key = hash5shift (hash32shiftmult (hash32shift (jenkins32 key)))"

definition four_hybrid12 :: "u32 \<Rightarrow> u32" where
  "four_hybrid12 key = Wang4shift (Wang3shift (jenkins (hash7shift key)))"

definition getHash :: "u32 \<Rightarrow> u32 \<Rightarrow> u32 res" where
  "getHash selector key =
    (if selector = 1 then Inr key
     else if selector = 2 then Inr (jenkins key)
     else if selector = 3 then Inr (knuth key)
     else if selector = 4 then murmur3 key
     else if selector = 5 then Inr (jenkins32 key)
     else if selector = 6 then Inr (hash32shift key)
     else if selector = 7 then Inr (hash32shiftmult key)
     else if selector = 8 then Inr (hash64shift key)
     else if selector = 9 then Inr (hash5shift key)
     else if selector = 10 then Inr (hash7shift key)
     else if selector = 11 then Inr (Wang6shift key)
     else if selector = 12 then Inr (Wang5shift key)
     else if selector = 13 then Inr (Wang4shift key)
     else if selector = 14 then Inr (Wang3shift key)
     else if selector = 101 then Inr (three_hybrid1 key)
     else if selector = 102 then Inr (three_hybrid2 key)
     else if selector = 103 then Inr (three_hybrid3 key)
     else if selector = 104 then Inr (three_hybrid4 key)
     else if selector = 105 then Inr (three_hybrid5 key)
     else if selector = 106 then Inr (three_hybrid6 key)
     else if selector = 107 then Inr (three_hybrid7 key)
     else if selector = 108 then Inr (three_hybrid8 key)
     else if selector = 109 then Inr (three_hybrid9 key)
     else if selector = 110 then Inr (three_hybrid10 key)
     else if selector = 111 then Inr (three_hybrid11 key)
     else if selector = 112 then Inr (three_hybrid12 key)
     else if selector = 1001 then Inr (four_hybrid1 key)
     else if selector = 1002 then Inr (four_hybrid2 key)
     else if selector = 1003 then Inr (four_hybrid3 key)
     else if selector = 1004 then Inr (four_hybrid4 key)
     else if selector = 1005 then Inr (four_hybrid5 key)
     else if selector = 1006 then Inr (four_hybrid6 key)
     else if selector = 1007 then Inr (four_hybrid7 key)
     else if selector = 1008 then Inr (four_hybrid8 key)
     else if selector = 1009 then Inr (four_hybrid9 key)
     else if selector = 1010 then Inr (four_hybrid10 key)
     else if selector = 1011 then Inr (four_hybrid11 key)
     else if selector = 1012 then Inr (four_hybrid12 key)
     else Inl Assert_failed)"

section \<open>Mixing steps are injective\<close>

text \<open>
  \<open>low_inj f\<close>: the low \<open>m\<close> bits of \<open>f x\<close> determine the low \<open>m\<close> bits of \<open>x\<close>, for
  every \<open>m\<close>; \<open>high_inj f\<close> the same for the bits above \<open>m\<close>.
\<close>

definition low_inj :: "('a::len word \<Rightarrow> 'a word) \<Rightarrow> bool" where
  "low_inj f \<longleftrightarrow> (\<forall>m x y. take_bit m (f x) = take_bit m (f y) \<longrightarrow> take_bit m x = take_bit m y)"

definition high_inj :: "('a::len word \<Rightarrow> 'a word) \<Rightarrow> bool" where
  "high_inj f \<longleftrightarrow> (\<forall>m x y. drop_bit m (f x) = drop_bit m (f y) \<longrightarrow> drop_bit m x = drop_bit m y)"

lemma low_injD: "low_inj f \<Longrightarrow> take_bit m (f x) = take_bit m (f y) \<Longrightarrow> take_bit m x = take_bit m y"
  unfolding low_inj_def by blast

lemma low_injI:
  "(\<And>m x y. take_bit m (f x) = take_bit m (f y) \<Longrightarrow> take_bit m x = take_bit m y) \<Longrightarrow> low_inj f"
  unfolding low_inj_def by blast

lemma high_injD: "high_inj f \<Longrightarrow> drop_bit m (f x) = drop_bit m (f y) \<Longrightarrow> drop_bit m x = drop_bit m y"
  unfolding high_inj_def by blast

lemma high_injI:
  "(\<And>m x y. drop_bit m (f x) = drop_bit m (f y) \<Longrightarrow> drop_bit m x = drop_bit m y) \<Longrightarrow> high_inj f"
  unfolding high_inj_def by blast

named_theorems mixer_intros \<open>steps of the mixing functions are injective\<close>

lemma low_inj_imp_inj:
  assumes "low_inj (f :: 'a::len word \<Rightarrow> 'a word)"
  shows "inj f"
proof (rule injI)
  fix x y assume "f x = f y"
  then have "take_bit LENGTH('a) (f x) = take_bit LENGTH('a) (f y)" by simp
  then have "take_bit LENGTH('a) x = take_bit LENGTH('a) y" by (rule low_injD [OF assms])
  then show "x = y" by simp
qed

lemma high_inj_imp_inj:
  assumes "high_inj (f :: 'a::len word \<Rightarrow> 'a word)"
  shows "inj f"
proof (rule injI)
  fix x y assume "f x = f y"
  then have "drop_bit 0 (f x) = drop_bit 0 (f y)" by simp
  then have "drop_bit 0 x = drop_bit 0 y" by (rule high_injD [OF assms])
  then show "x = y" by simp
qed

lemma low_inj_id [mixer_intros]: "low_inj (\<lambda>x. x)"
  by (simp add: low_inj_def)

lemma high_inj_id [mixer_intros]: "high_inj (\<lambda>x. x)"
  by (simp add: high_inj_def)

lemma take_bit_word_add:
  "take_bit m (take_bit m a + take_bit m b) = take_bit m (a + b :: 'a::len word)"
  by transfer (simp add: take_bit_add)

lemma take_bit_word_mult:
  "take_bit m (take_bit m a * take_bit m b) = take_bit m (a * b :: 'a::len word)"
  by transfer (simp add: take_bit_mult)

lemma take_bit_add_cong:
  fixes a b c d :: "'a::len word"
  assumes "take_bit m a = take_bit m c" "take_bit m b = take_bit m d"
  shows "take_bit m (a + b) = take_bit m (c + d)"
  using take_bit_word_add [of m a b] take_bit_word_add [of m c d] assms by simp

lemma take_bit_mult_cong:
  fixes a b c d :: "'a::len word"
  assumes "take_bit m a = take_bit m c" "take_bit m b = take_bit m d"
  shows "take_bit m (a * b) = take_bit m (c * d)"
  using take_bit_word_mult [of m a b] take_bit_word_mult [of m c d] assms by simp

lemma take_bit_add_cancel:
  fixes a b c d :: "'a::len word"
  assumes sum: "take_bit m (a + b) = take_bit m (c + d)" and b: "take_bit m b = take_bit m d"
  shows "take_bit m a = take_bit m c"
proof -
  have "take_bit m ((-1) * b) = take_bit m ((-1) * d)" using b by (rule take_bit_mult_cong [OF refl])
  then have "take_bit m ((a + b) + (-1) * b) = take_bit m ((c + d) + (-1) * d)"
    by (rule take_bit_add_cong [OF sum])
  then show ?thesis by simp
qed

lemma take_bit_push_cong:
  fixes x y :: "'a::len word"
  assumes "0 < k" "take_bit m x = take_bit m y"
  shows "take_bit (Suc m) (push_bit k x) = take_bit (Suc m) (push_bit k y)"
proof -
  have "take_bit (Suc m - k) x = take_bit (Suc m - k) y"
    using assms take_bit_tightened [of m x y "Suc m - k"] by simp
  then show ?thesis by (simp add: take_bit_push_bit)
qed

text \<open>
  The induction behind every left-shift step: once the low \<open>m\<close> bits agree, the shifted
  copy agrees on \<open>m + 1\<close> bits, and cancels.
\<close>

lemma low_inj_shift:
  fixes p :: "'a::len word \<Rightarrow> 'a word"
  assumes p: "low_inj p" and k: "0 < k"
    and cancel: "\<And>m x y. take_bit m (h x) = take_bit m (h y) \<Longrightarrow>
      take_bit m (push_bit k x) = take_bit m (push_bit k y) \<Longrightarrow> take_bit m (p x) = take_bit m (p y)"
  shows "low_inj h"
  unfolding low_inj_def
proof (intro allI impI)
  fix m x y
  show "take_bit m (h x) = take_bit m (h y) \<Longrightarrow> take_bit m x = take_bit m y"
  proof (induction m)
    case 0
    then show ?case by simp
  next
    case (Suc m)
    have "take_bit m (h x) = take_bit m (h y)"
      using take_bit_tightened [OF Suc.prems, of m] by simp
    then have "take_bit m x = take_bit m y" by (rule Suc.IH)
    then have "take_bit (Suc m) (push_bit k x) = take_bit (Suc m) (push_bit k y)"
      by (rule take_bit_push_cong [OF k])
    then have "take_bit (Suc m) (p x) = take_bit (Suc m) (p y)" by (rule cancel [OF Suc.prems])
    then show ?case by (rule low_injD [OF p])
  qed
qed

lemma take_bit_xor_cancel:
  fixes a b c d :: "'a::len word"
  assumes "take_bit m (a XOR b) = take_bit m (c XOR d)" and "take_bit m b = take_bit m d"
  shows "take_bit m a = take_bit m c"
proof -
  have "take_bit m ((a XOR b) XOR b) = take_bit m ((c XOR d) XOR d)"
    unfolding take_bit_xor [of m "a XOR b"] take_bit_xor [of m "c XOR d"] using assms by metis
  then show ?thesis by (simp add: xor.assoc)
qed

lemma low_inj_add_const [mixer_intros]: "low_inj p \<Longrightarrow> low_inj (\<lambda>x. p x + c)"
  by (rule low_injI) (blast intro: low_injD take_bit_add_cancel)

lemma low_inj_xor_const [mixer_intros]: "low_inj p \<Longrightarrow> low_inj (\<lambda>x. p x XOR c)"
  by (rule low_injI) (blast intro: low_injD take_bit_xor_cancel)

lemma low_inj_not [mixer_intros]: "low_inj (\<lambda>x. NOT x)"
  using low_inj_xor_const [OF low_inj_id, of "- 1"] by simp

lemma low_inj_add_shift [mixer_intros]: "low_inj p \<Longrightarrow> 0 < k \<Longrightarrow> low_inj (\<lambda>x. p x + push_bit k x)"
  by (rule low_inj_shift [where p = p and k = k]) (blast intro: take_bit_add_cancel)+

lemma low_inj_sub_shift [mixer_intros]:
  assumes "low_inj p" "0 < k"
  shows "low_inj (\<lambda>x. p x - push_bit k x)"
proof (rule low_inj_shift [OF assms])
  fix m x y
  assume *: "take_bit m (p x - push_bit k x) = take_bit m (p y - push_bit k y)"
    and **: "take_bit m (push_bit k x) = take_bit m (push_bit k y)"
  show "take_bit m (p x) = take_bit m (p y)" using take_bit_add_cong [OF * **] by simp
qed

lemma low_inj_add_not_shift [mixer_intros]:
  assumes "low_inj p" "0 < k"
  shows "low_inj (\<lambda>x. p x + NOT (push_bit k x))"
proof -
  have "(\<lambda>x. p x + NOT (push_bit k x)) = (\<lambda>x. p x - push_bit k x + (- 1))"
    by (simp add: not_eq_complement algebra_simps)
  then show ?thesis by (simp only: low_inj_add_const [OF low_inj_sub_shift [OF assms]])
qed

lemma low_inj_xor_shift [mixer_intros]: "low_inj p \<Longrightarrow> 0 < k \<Longrightarrow> low_inj (\<lambda>x. p x XOR push_bit k x)"
  by (rule low_inj_shift [where p = p and k = k]) (blast intro: take_bit_xor_cancel)+

text \<open>Multiplication by an odd constant: \<open>2 * d + 1\<close> times \<open>x\<close> is \<open>x\<close> plus a left shift of \<open>d * x\<close>.\<close>

lemma low_inj_mult_odd [mixer_intros]:
  fixes d :: "'a::len word"
  assumes "c = 2 * d + 1"
  shows "low_inj (\<lambda>x. x * c)"
proof (rule low_injI)
  fix m x y
  show "take_bit m (x * c) = take_bit m (y * c) \<Longrightarrow> take_bit m x = take_bit m y"
  proof (induction m)
    case 0
    then show ?case by simp
  next
    case (Suc m)
    have "take_bit m (x * c) = take_bit m (y * c)"
      using take_bit_tightened [OF Suc.prems, of m] by simp
    then have "take_bit m x = take_bit m y" by (rule Suc.IH)
    then have "take_bit m (x * d) = take_bit m (y * d)" by (rule take_bit_mult_cong [OF _ refl])
    then have "take_bit (Suc m) (push_bit 1 (x * d)) = take_bit (Suc m) (push_bit 1 (y * d))"
      by (rule take_bit_push_cong [OF zero_less_one])
    moreover have "z * c = z + push_bit 1 (z * d)" for z :: "'a word"
      by (simp add: assms push_bit_eq_mult algebra_simps)
    ultimately show ?case using Suc.prems by (metis take_bit_add_cancel)
  qed
qed

lemma drop_bit_xor_cancel:
  fixes a b c d :: "'a::len word"
  assumes "drop_bit m (a XOR b) = drop_bit m (c XOR d)" and "drop_bit m b = drop_bit m d"
  shows "drop_bit m a = drop_bit m c"
proof -
  have "drop_bit m ((a XOR b) XOR b) = drop_bit m ((c XOR d) XOR d)"
    unfolding drop_bit_xor [of m "a XOR b"] drop_bit_xor [of m "c XOR d"] using assms by metis
  then show ?thesis by (simp add: xor.assoc)
qed

lemma high_inj_xor_const [mixer_intros]: "high_inj p \<Longrightarrow> high_inj (\<lambda>x. p x XOR c)"
  by (rule high_injI) (blast intro: high_injD drop_bit_xor_cancel)

text \<open>The mirror image for right shifts: from the top bit downwards.\<close>

lemma high_inj_xor_shift [mixer_intros]:
  fixes p :: "'a::len word \<Rightarrow> 'a word"
  assumes p: "high_inj p" and k: "0 < k"
  shows "high_inj (\<lambda>x. p x XOR drop_bit k x)"
proof (rule high_injI)
  fix m x y
  assume h: "drop_bit m (p x XOR drop_bit k x) = drop_bit m (p y XOR drop_bit k y)"
  have "drop_bit (m + j) x = drop_bit (m + j) y" if "LENGTH('a) \<le> m + j + n" for n j
    using that
  proof (induction n arbitrary: j)
    case 0
    then show ?case by (simp add: bit_eq_iff bit_drop_bit_eq)
  next
    case (Suc n)
    have "drop_bit (m + (j + k)) x = drop_bit (m + (j + k)) y"
      using Suc.prems k by (intro Suc.IH) simp
    then have "drop_bit (m + j) (drop_bit k x) = drop_bit (m + j) (drop_bit k y)"
      by (simp add: ac_simps)
    moreover have "drop_bit j (drop_bit m (p x XOR drop_bit k x)) = drop_bit j (drop_bit m (p y XOR drop_bit k y))"
      using h by simp
    then have "drop_bit (m + j) (p x XOR drop_bit k x) = drop_bit (m + j) (p y XOR drop_bit k y)"
      by (simp only: drop_bit_drop_bit ac_simps)
    ultimately show ?case by (blast intro: high_injD [OF p] drop_bit_xor_cancel)
  qed
  from this [of 0 "LENGTH('a)"] show "drop_bit m x = drop_bit m y" by simp
qed

section \<open>The mixing functions are injective\<close>

named_theorems mixer_steps \<open>lines of the mixing functions are injective\<close>

lemma inj_Let [mixer_steps]: "inj f \<Longrightarrow> inj g \<Longrightarrow> inj (\<lambda>x. Let (f x) g)"
  by (simp add: inj_def)

lemma inj_ident [mixer_steps]: "inj (\<lambda>x. x)"
  by (simp add: inj_def)

lemma inj_low_steps [mixer_steps]:
  fixes c :: "'a::len word"
  shows "0 < k \<Longrightarrow> inj (\<lambda>x::'a word. x + push_bit k x)"
    "0 < k \<Longrightarrow> inj (\<lambda>x. x - push_bit k x :: 'a word)"
    "0 < k \<Longrightarrow> inj (\<lambda>x. x XOR push_bit k x :: 'a word)"
    "0 < k \<Longrightarrow> inj (\<lambda>x. x + c + push_bit k x)"
    "0 < k \<Longrightarrow> inj (\<lambda>x. (x XOR c) + push_bit k x)"
    "0 < k \<Longrightarrow> inj (\<lambda>x. x + c - push_bit k x)"
    "0 < k \<Longrightarrow> inj (\<lambda>x. (x + c) XOR push_bit k x)"
    "0 < k \<Longrightarrow> inj (\<lambda>x. NOT x + push_bit k x :: 'a word)"
    "0 < k \<Longrightarrow> inj (\<lambda>x. x + NOT (push_bit k x) :: 'a word)"
    "0 < k \<Longrightarrow> 0 < j \<Longrightarrow> inj (\<lambda>x. x + push_bit k x + push_bit j x :: 'a word)"
  by (rule low_inj_imp_inj, intro mixer_intros; simp)+

lemma inj_high_steps [mixer_steps]:
  fixes c :: "'a::len word"
  shows "0 < k \<Longrightarrow> inj (\<lambda>x. x XOR drop_bit k x :: 'a word)"
    "0 < k \<Longrightarrow> inj (\<lambda>x. (x XOR c) XOR drop_bit k x)"
  by (rule high_inj_imp_inj, intro mixer_intros; simp)+

lemma inj_mult_odd: "c = 2 * d + 1 \<Longrightarrow> inj (\<lambda>x::'a::len word. x * c)"
  by (rule low_inj_imp_inj, rule low_inj_mult_odd)

lemma inj_mult_2057 [mixer_steps]: "inj (\<lambda>x::u32. x * 2057)"
  by (rule inj_mult_odd [where d = 1028]) simp

lemma inj_mult_c2 [mixer_steps]: "inj (\<lambda>x::u32. x * 0x27d4eb2d)"
  by (rule inj_mult_odd [where d = "0x13ea7596"]) simp

lemma inj_jenkins: "inj jenkins"
  unfolding jenkins_def [abs_def] by (intro mixer_steps) simp_all

lemma inj_jenkins32: "inj jenkins32"
  unfolding jenkins32_def [abs_def] by (intro mixer_steps) simp_all

lemma inj_hash32shift: "inj hash32shift"
  unfolding hash32shift_def [abs_def] by (intro mixer_steps) simp_all

lemma inj_hash32shiftmult: "inj hash32shiftmult"
  unfolding hash32shiftmult_def [abs_def] by (intro mixer_steps) simp_all

lemma inj_hash64shift: "inj hash64shift"
  unfolding hash64shift_def [abs_def] by (intro mixer_steps) simp_all

lemma inj_hash5shift: "inj hash5shift"
  unfolding hash5shift_def [abs_def] by (intro mixer_steps) simp_all

lemma inj_hash7shift: "inj hash7shift"
  unfolding hash7shift_def [abs_def] by (intro mixer_steps) simp_all

lemma inj_Wang6shift: "inj Wang6shift"
  unfolding Wang6shift_def [abs_def] by (intro mixer_steps) simp_all

lemma inj_Wang5shift: "inj Wang5shift"
  unfolding Wang5shift_def [abs_def] by (intro mixer_steps) simp_all

lemma inj_Wang4shift: "inj Wang4shift"
  unfolding Wang4shift_def [abs_def] by (intro mixer_steps) simp_all

lemma inj_Wang3shift: "inj Wang3shift"
  unfolding Wang3shift_def [abs_def] by (intro mixer_steps) simp_all

lemmas mixers_inj = inj_jenkins inj_jenkins32 inj_hash32shift inj_hash32shiftmult inj_hash64shift
  inj_hash5shift inj_hash7shift inj_Wang6shift inj_Wang5shift inj_Wang4shift inj_Wang3shift

lemmas mixers_eq = mixers_inj [THEN inj_eq]

lemma hybrids_inj:
  "inj three_hybrid2" "inj three_hybrid3" "inj three_hybrid4" "inj three_hybrid6"
  "inj three_hybrid7" "inj three_hybrid8" "inj three_hybrid9" "inj three_hybrid10"
  "inj three_hybrid11" "inj three_hybrid12" "inj four_hybrid1" "inj four_hybrid2"
  "inj four_hybrid3" "inj four_hybrid5" "inj four_hybrid6" "inj four_hybrid7"
  "inj four_hybrid8" "inj four_hybrid11" "inj four_hybrid12"
  by (rule injI, simp add: mixers_eq
      three_hybrid2_def three_hybrid3_def three_hybrid4_def three_hybrid6_def
      three_hybrid7_def three_hybrid8_def three_hybrid9_def three_hybrid10_def
      three_hybrid11_def three_hybrid12_def four_hybrid1_def four_hybrid2_def
      four_hybrid3_def four_hybrid5_def four_hybrid6_def four_hybrid7_def four_hybrid8_def
      four_hybrid11_def four_hybrid12_def)+

lemma bij_word_inj: "inj (h :: u32 \<Rightarrow> u32) \<Longrightarrow> bij h"
  by (simp add: bij_def finite_UNIV_inj_surj)

text \<open>The selectors of \<^verbatim>\<open>getHash\<close> whose function does not go through \<^verbatim>\<open>knuth\<close> or \<^verbatim>\<open>murmur3\<close>.\<close>

definition mixing_selectors :: "u32 list" where
  "mixing_selectors =
     [1, 2, 5, 6, 7, 8, 9, 10, 11, 12, 13, 14,
      102, 103, 104, 106, 107, 108, 109, 110, 111, 112,
      1001, 1002, 1003, 1005, 1006, 1007, 1008, 1011, 1012]"

lemma getHash_mixing:
  assumes "selector \<in> set mixing_selectors"
  shows "\<exists>h. bij h \<and> (\<forall>key. getHash selector key = Inr (h key))"
proof (intro exI conjI allI)
  let ?h = "\<lambda>key. projr (getHash selector key)"
  show "getHash selector key = Inr (?h key)" for key
    using assms by (auto simp: mixing_selectors_def getHash_def)
  have "inj ?h"
    using assms by (auto simp: mixing_selectors_def getHash_def mixers_inj hybrids_inj)
  then show "bij ?h" by (rule bij_word_inj)
qed

section \<open>The folded xor\<close>

lemma bit_fold_chunks:
  fixes m :: u32
  shows "bit (fold (\<lambda>i acc. ucast (ucast acc XOR (drop_bit (i * b) v AND ucast m)))
          [0..<n] (0::u32)) j \<longleftrightarrow>
     bit m j \<and> odd (card {i. i < n \<and> bit (v::u64) (i * b + j)})"
proof (induction n)
  case 0
  then show ?case by simp
next
  case (Suc n)
  have "{i. i < Suc n \<and> bit v (i * b + j)} =
      (if bit v (n * b + j) then insert n {i. i < n \<and> bit v (i * b + j)}
       else {i. i < n \<and> bit v (i * b + j)})"
    by (auto simp: less_Suc_eq)
  then have card: "card {i. i < Suc n \<and> bit v (i * b + j)} =
      (if bit v (n * b + j) then 1 else 0) + card {i. i < n \<and> bit v (i * b + j)}"
    by simp
  have "bit m j \<Longrightarrow> j < 32" using bit_imp_le_length [of m j] by simp
  then show ?case by (auto simp: Suc.IH card bit_simps)
qed

lemma bit_fold_mask:
  fixes n :: u32
  assumes "1 < n"
  shows "bit ((if n = 2 then 0xffffffff
               else ucast (push_bit (unat (64 div n)) (1::u64) - 1)) :: u32) j \<longleftrightarrow> j < 64 div unat n"
proof (cases "n = 2")
  case True
  have "bit (-1 :: u32) j \<longleftrightarrow> j < 32" by simp
  moreover have "(-1 :: u32) = 0xffffffff" by simp
  ultimately have "bit (0xffffffff :: u32) j \<longleftrightarrow> j < 32" by (simp only:)
  then show ?thesis using True by simp
next
  case False
  then have "unat n \<noteq> unat (2::u32)" by (metis word_unat_eq_iff)
  then have "unat n \<noteq> 2" by simp
  moreover have "1 < unat n" using assms by (simp add: word_less_nat_alt)
  ultimately have n: "3 \<le> unat n" by simp
  then have "64 div unat n \<le> 64 div 3" by (intro div_le_mono2) auto
  then have "64 div unat n < 32" by simp
  then show ?thesis using False
    by (auto simp: bit_simps mask_eq_decr_exp [symmetric] push_bit_eq_mult unat_div_distrib)
qed

lemma folded_xor_Inr:
  assumes "1 < n" "n AND (n - 1) = 0"
  shows "\<exists>r. folded_xor v n = Inr r \<and>
    (\<forall>j. bit r j \<longleftrightarrow> j < 64 div unat n \<and> odd (card {i. i < unat n \<and> bit v (i * (64 div unat n) + j)}))"
  using assms
  by (simp add: folded_xor_def Let_def bit_fold_chunks bit_fold_mask unat_div_distrib)

section \<open>Properties\<close>

text \<open>
  apart from the two stubs, hashing loses nothing. For every selector whose function
  avoids \<^verbatim>\<open>knuth\<close> and \<^verbatim>\<open>murmur3\<close>, \<^verbatim>\<open>HashZoo::getHash\<close> returns normally and is a bijection
  of the 32-bit keys, so two keys collide only through the caller's final modulo.
\<close>

theorem getHash_bijective:
  assumes "selector \<in> set mixing_selectors"
  shows "\<exists>h. bij h \<and> (\<forall>key. getHash selector key = Inr (h key))"
  using assms by (rule getHash_mixing)

theorem getHash_bijective_witness:
  "11 \<in> set mixing_selectors \<and> (\<exists>h. bij h \<and> (\<forall>key. getHash 11 key = Inr (h key)))"
proof -
  have "11 \<in> set mixing_selectors" by (simp add: mixing_selectors_def)
  then show ?thesis using getHash_bijective [of 11] by simp
qed

text \<open>
  \<^verbatim>\<open>HashZoo::knuth\<close> distinguishes two keys exactly when they differ above their three
  low bits: the shift before the multiplication makes it eight-to-one.
\<close>

theorem knuth_collisions: "knuth x = knuth y \<longleftrightarrow> drop_bit 3 x = drop_bit 3 y"
proof -
  have "inj (\<lambda>x::u32. x * 2654435761)" by (rule inj_mult_odd [where d = 1327217880]) simp
  from inj_eq [OF this] show ?thesis by (simp add: knuth_def)
qed

text \<open>
  \<^verbatim>\<open>HashZoo::getHash\<close> stops at an assertion exactly for the \<^verbatim>\<open>murmur3\<close> stub (selector 4)
  and for the selectors that its switch does not list.
\<close>

theorem getHash_fails_iff:
  "getHash selector key = Inl Assert_failed \<longleftrightarrow>
     selector \<notin> set mixing_selectors \<union> {3, 101, 105, 1004, 1009, 1010}"
  by (simp add: getHash_def mixing_selectors_def murmur3_def)

text \<open>
  C27: on a power of two of folds, \<^verbatim>\<open>folded_xor\<close> returns, and bit \<open>j\<close> of its result is the
  parity of bit \<open>j\<close> over the chunks of \<^verbatim>\<open>64 / num_folds\<close> bits; bits beyond the chunk
  width are zero, so the result fits the index it is used as.
\<close>

theorem folded_xor_parity:
  assumes "1 < n" and "n AND (n - 1) = 0"
  shows "\<exists>r. folded_xor v n = Inr r \<and>
    (\<forall>j. bit r j \<longleftrightarrow> j < 64 div unat n \<and> odd (card {i. i < unat n \<and> bit v (i * (64 div unat n) + j)}))"
  using assms by (rule folded_xor_Inr)

theorem folded_xor_parity_witness:
  "\<exists>r. folded_xor 0x123456789abcdef0 8 = Inr r \<and>
     (\<forall>j. bit r j \<longleftrightarrow> j < 8 \<and> odd (card {i. i < 8 \<and> bit (0x123456789abcdef0::u64) (i * 8 + j)}))"
  using folded_xor_parity [of 8 "0x123456789abcdef0"] by simp

end
