(* ===== verification/Bitmaps.thy ===== *)
theory Bitmaps
  imports Prelude
begin

text \<open>
  The page bitmaps of \<^verbatim>\<open>inc/bitmap.h\<close> and \<^verbatim>\<open>src/bitmap.cc\<close>: \<^verbatim>\<open>Bitmap\<close> is
  \<^verbatim>\<open>std::bitset<64>\<close>, modelled by a 64-bit word; \<^verbatim>\<open>bmp[i]\<close> at an index outside the
  bitset is undefined behaviour and stops the model with \<^const>\<open>Out_of_bounds\<close>. Index
  arithmetic is on 32-bit unsigned values, as in the source.

  Shown: rotations are mutually inverse on bitmaps of the given size, the three counters
  add up, and compressing a decompressed bitmap gives it back.
\<close>

section \<open>Bit access and counted loops\<close>

type_synonym Bitmap = u64

definition get_bit :: "Bitmap \<Rightarrow> u32 \<Rightarrow> bool res" where
  "get_bit bmp i = (if i < 64 then Inr (bit bmp (unat i)) else Inl Out_of_bounds)"

definition put_bit :: "u32 \<Rightarrow> bool \<Rightarrow> Bitmap \<Rightarrow> Bitmap res" where
  "put_bit i b bmp =
     (if i < 64 then Inr (if b then set_bit (unat i) bmp else unset_bit (unat i) bmp)
      else Inl Out_of_bounds)"

text \<open>\<^verbatim>\<open>for(index = 0; index < n; ++index)\<close> with a body that may fault.\<close>

primrec for_res :: "nat list \<Rightarrow> (u32 \<Rightarrow> 's \<Rightarrow> 's res) \<Rightarrow> 's \<Rightarrow> 's res" where
  "for_res [] body s = Inr s"
| "for_res (i # is) body s = bind_res (body (of_nat i) s) (for_res is body)"

abbreviation for_upto :: "u32 \<Rightarrow> (u32 \<Rightarrow> 's \<Rightarrow> 's res) \<Rightarrow> 's \<Rightarrow> 's res" where
  "for_upto n \<equiv> for_res [0..<unat n]"

section \<open>BitmapHelper\<close>

definition count_bits_set :: "Bitmap \<Rightarrow> u32 \<Rightarrow> u32 res" where
  "count_bits_set bmp sz =
     for_upto sz (\<lambda>index count.
       bind_res (get_bit bmp index) (\<lambda>b. Inr (if b then count + 1 else count))) 0"

definition count_bits_same :: "Bitmap \<Rightarrow> Bitmap \<Rightarrow> u32 \<Rightarrow> u32 res" where
  "count_bits_same bmp1 bmp2 sz =
     for_upto sz (\<lambda>index count.
       bind_res (get_bit bmp1 index) (\<lambda>b1.
       bind_res (get_bit bmp2 index) (\<lambda>b2.
         Inr (if b1 \<and> b1 = b2 then count + 1 else count)))) 0"

definition count_bits_diff :: "Bitmap \<Rightarrow> Bitmap \<Rightarrow> u32 \<Rightarrow> u32 res" where
  "count_bits_diff bmp1 bmp2 sz =
     for_upto sz (\<lambda>index count.
       bind_res (get_bit bmp1 index) (\<lambda>b1.
       bind_res (get_bit bmp2 index) (\<lambda>b2.
         Inr (if b1 \<and> \<not> b2 then count + 1 else count)))) 0"

text \<open>\<^verbatim>\<open>value\<close> is \<^verbatim>\<open>to_ullong\<close>; its size argument is not used.\<close>

definition bitmap_value :: "Bitmap \<Rightarrow> u32 \<Rightarrow> u64" where
  "bitmap_value bmp sz = bmp"

text \<open>
  \<^verbatim>\<open>to_string\<close> prints the bits from \<^verbatim>\<open>sz-1\<close> (as an \<^verbatim>\<open>int32_t\<close>) down to 0, the most
  significant first.
\<close>

definition bitmap_to_string :: "Bitmap \<Rightarrow> u32 \<Rightarrow> string res" where
  "bitmap_to_string bmp sz =
     for_res (rev [0..<nat (sint (sz - 1) + 1)]) (\<lambda>bit ss.
       bind_res (get_bit bmp bit) (\<lambda>b. Inr (ss @ (if b then ''1'' else ''0'')))) ''''"

definition rotate_left :: "Bitmap \<Rightarrow> u32 \<Rightarrow> u32 \<Rightarrow> Bitmap res" where
  "rotate_left bmp amount sz =
     bind_res (for_upto (sz - amount) (\<lambda>index result.
         bind_res (get_bit bmp index) (\<lambda>b. put_bit (index + amount) b result)) 0)
       (for_upto amount (\<lambda>index result.
         bind_res (get_bit bmp (index + sz - amount)) (\<lambda>b. put_bit index b result)))"

definition rotate_right :: "Bitmap \<Rightarrow> u32 \<Rightarrow> u32 \<Rightarrow> Bitmap res" where
  "rotate_right bmp amount sz =
     bind_res (for_upto (sz - amount) (\<lambda>index result.
         bind_res (get_bit bmp (index + amount)) (\<lambda>b. put_bit index b result)) 0)
       (for_upto amount (\<lambda>index result.
         bind_res (get_bit bmp index) (\<lambda>b. put_bit (sz - amount + index) b result)))"

text \<open>
  \<^verbatim>\<open>compress\<close>: the assertion divides by the granularity; the outer \<^verbatim>\<open>while\<close> advances
  by \<^verbatim>\<open>granularity\<close> bits a turn.
\<close>

function compress_loop ::
    "Bitmap \<Rightarrow> u32 \<Rightarrow> u32 \<Rightarrow> nat \<Rightarrow> u32 \<Rightarrow> Bitmap \<Rightarrow> Bitmap res" where
  "compress_loop bmp granularity sz index ptr result =
     (if index < unat sz \<and> 0 < unat granularity then
        bind_res (for_upto granularity (\<lambda>gran res.
            if of_nat index + gran < sz
            then bind_res (get_bit bmp (of_nat index + gran)) (\<lambda>b. Inr (res \<or> b))
            else Inl Assert_failed) False)
          (\<lambda>res. bind_res (put_bit ptr res result)
            (compress_loop bmp granularity sz (index + unat granularity) (ptr + 1)))
      else Inr result)"
  by pat_completeness auto
termination
  by (relation "measure (\<lambda>(bmp, granularity, sz, index, ptr, result). unat sz - index)") auto

declare compress_loop.simps [simp del]

definition compress :: "Bitmap \<Rightarrow> u32 \<Rightarrow> u32 \<Rightarrow> Bitmap res" where
  "compress bmp granularity sz =
     (if granularity = 0 then Inl Div_by_zero
      else if sz mod granularity \<noteq> 0 then Inl Assert_failed
      else compress_loop bmp granularity sz 0 0 0)"

definition decompress :: "Bitmap \<Rightarrow> u32 \<Rightarrow> u32 \<Rightarrow> Bitmap res" where
  "decompress bmp granularity sz =
     (if \<not> sz * granularity \<le> 64 then Inl Assert_failed
      else for_upto sz (\<lambda>index result.
        bind_res (get_bit bmp index) (\<lambda>b.
          if b then for_upto granularity (\<lambda>count. put_bit (index * granularity + count) True) result
          else Inr result)) 0)"

definition bitwise_or :: "Bitmap \<Rightarrow> Bitmap \<Rightarrow> u32 \<Rightarrow> Bitmap res" where
  "bitwise_or bmp1 bmp2 sz =
     for_upto sz (\<lambda>index result.
       bind_res (get_bit bmp1 index) (\<lambda>b1.
       bind_res (get_bit bmp2 index) (\<lambda>b2.
         if b1 \<or> b2 then put_bit index True result else Inr result))) 0"

definition bitwise_and :: "Bitmap \<Rightarrow> Bitmap \<Rightarrow> u32 \<Rightarrow> Bitmap res" where
  "bitwise_and bmp1 bmp2 sz =
     for_upto sz (\<lambda>index result.
       bind_res (get_bit bmp1 index) (\<lambda>b1.
       bind_res (get_bit bmp2 index) (\<lambda>b2.
         if b1 \<and> b2 then put_bit index True result else Inr result))) 0"

section \<open>Loops that do not fault\<close>

lemma for_res_append: "for_res (is @ js) f s = bind_res (for_res is f s) (for_res js f)"
  by (induction "is" arbitrary: s) (auto simp: bind_res_def split: sum.splits)

text \<open>
  The rule for a counted loop: an invariant \<open>P\<close> that relates the number of turns done to
  the state, kept by each turn, holds after the last one, and the loop does not fault.
\<close>

lemma for_upto_rule:
  assumes "P 0 s"
    and "\<And>i t. i < unat n \<Longrightarrow> P i t \<Longrightarrow> \<exists>t'. body (of_nat i) t = Inr t' \<and> P (Suc i) t'"
  shows "\<exists>t. for_upto n body s = Inr t \<and> P (unat n) t"
proof -
  have "m \<le> unat n \<Longrightarrow> \<exists>t. for_res [0..<m] body s = Inr t \<and> P m t" for m
  proof (induction m)
    case 0
    then show ?case using assms(1) by simp
  next
    case (Suc m)
    then obtain t where "for_res [0..<m] body s = Inr t" "P m t" by auto
    moreover from this(2) obtain t' where "body (of_nat m) t = Inr t'" "P (Suc m) t'"
      using assms(2) Suc.prems by (meson Suc_le_lessD)
    ultimately show ?case by (simp add: for_res_append)
  qed
  then show ?thesis by simp
qed

section \<open>Bit access at small indices\<close>

lemma small_index: "n < 2 ^ 32 \<Longrightarrow> unat (of_nat n :: u32) = n"
  by (simp add: unat_of_nat take_bit_nat_eq_self)

lemma unat_small: "n \<le> 64 \<Longrightarrow> unat (of_nat n :: u32) = n"
  by (rule small_index) simp

lemma small_index_less: "n < 64 \<Longrightarrow> (of_nat n :: u32) < 64"
  by (simp add: word_less_nat_alt small_index)

lemma get_bit_of_nat [simp]: "n < 64 \<Longrightarrow> get_bit bmp (of_nat n) = Inr (bit bmp n)"
  by (simp add: get_bit_def small_index small_index_less)

lemma put_bit_of_nat: "n < 64 \<Longrightarrow>
  \<exists>m'. put_bit (of_nat n) b m = Inr m' \<and> (\<forall>j. bit m' j \<longleftrightarrow> (if j = n then b else bit m j))"
  by (auto simp: put_bit_def small_index small_index_less bit_set_bit_iff bit_unset_bit_iff)

lemma u32_nat_cases:
  fixes w :: u32
  obtains n where "w = of_nat n" "n = unat w" "n < 2 ^ 32"
  using that [of "unat w"] unsigned_less [of w] by simp

text \<open>Three loop shapes: copy bits into consecutive positions, count, and set selected bits.\<close>

lemma copy_loop:
  assumes "\<And>i r. i < unat n \<Longrightarrow> body (of_nat i) r = put_bit (of_nat (c + i)) (b i) r"
    and "c + unat n \<le> 64"
  shows "\<exists>r. for_upto n body t = Inr r \<and>
    (\<forall>j. bit r j \<longleftrightarrow> (if c \<le> j \<and> j < c + unat n then b (j - c) else bit t j))"
proof (rule for_upto_rule [where P = "\<lambda>i r. \<forall>j. bit r j \<longleftrightarrow>
    (if c \<le> j \<and> j < c + i then b (j - c) else bit t j)"])
  fix i and r :: Bitmap
  assume i: "i < unat n" and r: "\<forall>j. bit r j \<longleftrightarrow> (if c \<le> j \<and> j < c + i then b (j - c) else bit t j)"
  with put_bit_of_nat [of "c + i" "b i" r] assms
  show "\<exists>r'. body (of_nat i) r = Inr r' \<and>
      (\<forall>j. bit r' j \<longleftrightarrow> (if c \<le> j \<and> j < c + Suc i then b (j - c) else bit t j))"
    by (auto simp: less_Suc_eq)
qed auto

lemma count_loop:
  assumes "\<And>i c. i < unat n \<Longrightarrow> body (of_nat i) c = Inr (if b i then c + 1 else c :: u32)"
  shows "for_upto n body 0 = Inr (of_nat (card {i. i < unat n \<and> b i}))"
proof -
  have "\<exists>c. for_upto n body 0 = Inr c \<and> c = of_nat (card {i. i < unat n \<and> b i})"
  proof (rule for_upto_rule [where P = "\<lambda>m c. c = of_nat (card {i. i < m \<and> b i})"])
    fix m and c :: u32
    assume m: "m < unat n" and c: "c = of_nat (card {i. i < m \<and> b i})"
    have "{i. i < Suc m \<and> b i} = (if b m then insert m {i. i < m \<and> b i} else {i. i < m \<and> b i})"
      by (auto simp: less_Suc_eq)
    then show "\<exists>c'. body (of_nat m) c = Inr c' \<and> c' = of_nat (card {i. i < Suc m \<and> b i})"
      using assms m c by simp
  qed simp
  then show ?thesis by simp
qed

lemma set_loop:
  assumes "\<And>i r. i < unat n \<Longrightarrow>
      body (of_nat i) r = (if b i then put_bit (of_nat i) True r else Inr r)"
    and "unat n \<le> 64"
  shows "\<exists>r. for_upto n body 0 = Inr r \<and> (\<forall>j. bit r j \<longleftrightarrow> j < unat n \<and> b j)"
proof (rule for_upto_rule [where P = "\<lambda>i r. \<forall>j. bit r j \<longleftrightarrow> j < i \<and> b j"])
  fix i and r :: Bitmap
  assume "i < unat n" and "\<forall>j. bit r j \<longleftrightarrow> j < i \<and> b j"
  with put_bit_of_nat [of i True r] assms
  show "\<exists>r'. body (of_nat i) r = Inr r' \<and> (\<forall>j. bit r' j \<longleftrightarrow> j < Suc i \<and> b j)"
    by (auto simp: less_Suc_eq)
qed simp

section \<open>Rotations\<close>

lemma rotation_sizes:
  assumes "a \<le> s" "s \<le> 64"
  shows "unat (of_nat s - of_nat a :: u32) = s - a" "unat (of_nat a :: u32) = a"
  using assms by (simp_all add: small_index flip: of_nat_diff)

lemma rotate_left_spec:
  assumes "a \<le> s" "s \<le> 64"
  shows "\<exists>r. rotate_left bmp (of_nat a) (of_nat s) = Inr r \<and>
    (\<forall>j. bit r j \<longleftrightarrow> j < s \<and> (if j < a then bit bmp (j + s - a) else bit bmp (j - a)))"
proof -
  note n = rotation_sizes [OF assms]
  obtain t where t: "for_upto (of_nat s - of_nat a) (\<lambda>index result.
         bind_res (get_bit bmp index) (\<lambda>b. put_bit (index + of_nat a) b result)) 0 = Inr t"
    "\<And>j. bit t j \<longleftrightarrow> (if a \<le> j \<and> j < s then bit bmp (j - a) else False)"
    using copy_loop [of "of_nat s - of_nat a" "\<lambda>index result.
         bind_res (get_bit bmp index) (\<lambda>b. put_bit (index + of_nat a) b result)" a "bit bmp" 0]
      assms n by (auto simp: ac_simps)
  have "get_bit bmp (of_nat i + of_nat s - of_nat a) = Inr (bit bmp (i + s - a))" if "i < a" for i
    using get_bit_of_nat [of "i + s - a" bmp] assms that by simp
  then obtain r where "for_upto (of_nat a) (\<lambda>index result.
         bind_res (get_bit bmp (index + of_nat s - of_nat a)) (\<lambda>b. put_bit index b result)) t = Inr r"
    "\<And>j. bit r j \<longleftrightarrow> (if j < a then bit bmp (j + s - a) else bit t j)"
    using copy_loop [of "of_nat a" "\<lambda>index result.
         bind_res (get_bit bmp (index + of_nat s - of_nat a)) (\<lambda>b. put_bit index b result)"
        0 "\<lambda>i. bit bmp (i + s - a)" t] assms n by auto
  then show ?thesis using t assms by (auto simp: rotate_left_def)
qed

lemma rotate_right_spec:
  assumes "a \<le> s" "s \<le> 64"
  shows "\<exists>r. rotate_right bmp (of_nat a) (of_nat s) = Inr r \<and>
    (\<forall>j. bit r j \<longleftrightarrow> j < s \<and> (if j < s - a then bit bmp (j + a) else bit bmp (j + a - s)))"
proof -
  note n = rotation_sizes [OF assms]
  have "s - a \<le> 64" using assms by simp
  have "get_bit bmp (of_nat i + of_nat a) = Inr (bit bmp (i + a))" if "i < s - a" for i
    using get_bit_of_nat [of "i + a" bmp] assms that by simp
  then obtain t where t: "for_upto (of_nat s - of_nat a) (\<lambda>index result.
         bind_res (get_bit bmp (index + of_nat a)) (\<lambda>b. put_bit index b result)) 0 = Inr t"
    "\<And>j. bit t j \<longleftrightarrow> (if j < s - a then bit bmp (j + a) else False)"
    using copy_loop [of "of_nat s - of_nat a" "\<lambda>index result.
         bind_res (get_bit bmp (index + of_nat a)) (\<lambda>b. put_bit index b result)"
        0 "\<lambda>i. bit bmp (i + a)" 0] \<open>s - a \<le> 64\<close> n by auto
  obtain r where "for_upto (of_nat a) (\<lambda>index result.
         bind_res (get_bit bmp index) (\<lambda>b. put_bit (of_nat s - of_nat a + index) b result)) t = Inr r"
    "\<And>j. bit r j \<longleftrightarrow> (if s - a \<le> j \<and> j < s then bit bmp (j - (s - a)) else bit t j)"
    using copy_loop [of "of_nat a" "\<lambda>index result.
         bind_res (get_bit bmp index) (\<lambda>b. put_bit (of_nat s - of_nat a + index) b result)"
        "s - a" "bit bmp" t] assms n by (auto simp: diff_add_eq)
  then show ?thesis using t assms by (auto simp: rotate_right_def)
qed

section \<open>Counters and bitwise operations\<close>

lemma unat_le_64: "sz \<le> (64::u32) \<Longrightarrow> unat sz \<le> 64"
  by (simp add: word_le_nat_alt)

lemma count_specs:
  assumes "sz \<le> 64"
  shows "count_bits_set b1 sz = Inr (of_nat (card {i. i < unat sz \<and> bit b1 i}))"
    "count_bits_same b1 b2 sz = Inr (of_nat (card {i. i < unat sz \<and> bit b1 i \<and> bit b2 i}))"
    "count_bits_diff b1 b2 sz = Inr (of_nat (card {i. i < unat sz \<and> bit b1 i \<and> \<not> bit b2 i}))"
  using unat_le_64 [OF assms]
  unfolding count_bits_set_def count_bits_same_def count_bits_diff_def
  by (subst count_loop; simp; blast?)+

lemma bitwise_specs:
  assumes "sz \<le> 64"
  shows "\<exists>r. bitwise_or b1 b2 sz = Inr r \<and> (\<forall>j. bit r j \<longleftrightarrow> j < unat sz \<and> (bit b1 j \<or> bit b2 j))"
    "\<exists>r. bitwise_and b1 b2 sz = Inr r \<and> (\<forall>j. bit r j \<longleftrightarrow> j < unat sz \<and> bit b1 j \<and> bit b2 j)"
  using unat_le_64 [OF assms] unfolding bitwise_or_def bitwise_and_def
  by (rule set_loop [rotated]; simp)+

section \<open>Compression\<close>

lemma compress_chunk:
  assumes "k * g + g \<le> s" "s \<le> 64"
  shows "for_upto (of_nat g) (\<lambda>gran res.
            if of_nat (k * g) + gran < of_nat s
            then bind_res (get_bit bmp (of_nat (k * g) + gran)) (\<lambda>b. Inr (res \<or> b))
            else Inl Assert_failed) False = Inr (\<exists>i<g. bit bmp (k * g + i))" (is "for_upto _ ?body _ = _")
proof -
  have g: "unat (of_nat g :: u32) = g" using assms by (simp add: small_index)
  have "\<exists>t. for_upto (of_nat g) ?body False = Inr t \<and>
      (t \<longleftrightarrow> (\<exists>i<unat (of_nat g :: u32). bit bmp (k * g + i)))"
  proof (rule for_upto_rule [where P = "\<lambda>m t. t \<longleftrightarrow> (\<exists>i<m. bit bmp (k * g + i))"])
    fix m t
    assume "m < unat (of_nat g :: u32)" and t: "t \<longleftrightarrow> (\<exists>i<m. bit bmp (k * g + i))"
    with g assms have m: "k * g + m < s" "k * g + m < 64" by auto
    have eq: "of_nat (k * g) + of_nat m = (of_nat (k * g + m) :: u32)" by simp
    have "(of_nat (k * g + m) :: u32) < of_nat s"
      using m assms unat_small [of "k * g + m"] unat_small [of s] by (simp only: word_less_nat_alt)
    then show "\<exists>t'. ?body (of_nat m) t = Inr t' \<and> (t' \<longleftrightarrow> (\<exists>i<Suc m. bit bmp (k * g + i)))"
      unfolding eq using m t by (auto simp: less_Suc_eq simp del: of_nat_add of_nat_mult)
  qed simp
  then show ?thesis using g by simp
qed

lemma compress_loop_spec:
  assumes "0 < g" "s = n * g" "s \<le> 64" "k \<le> n"
  shows "\<exists>r'. compress_loop bmp (of_nat g) (of_nat s) (k * g) (of_nat k) r = Inr r' \<and>
    (\<forall>j. bit r' j \<longleftrightarrow> (if k \<le> j \<and> j < n then \<exists>i<g. bit bmp (j * g + i) else bit r j))"
  using assms(4)
proof (induction "n - k" arbitrary: k r)
  case 0
  then have "k = n" by simp
  moreover have "unat (of_nat s :: u32) = s" using assms(3) by (rule unat_small)
  ultimately show ?case
    using assms(2) by (auto simp: compress_loop.simps [of _ _ _ "n * g"])
next
  case (Suc d)
  then have "k < n" by simp
  then have "Suc k * g \<le> n * g" by (intro mult_le_mono1) simp
  then have kg: "k * g + g \<le> s" using assms(2) by simp
  have "g \<le> s" using kg by simp
  have u: "unat (of_nat s :: u32) = s" "unat (of_nat g :: u32) = g"
    using unat_small [of s] unat_small [of g] assms(3) \<open>g \<le> s\<close> by simp_all
  have "n \<le> n * g" using assms(1) by simp
  then have "k < 64" using \<open>k < n\<close> assms(2,3) by linarith
  from put_bit_of_nat [OF this, of "\<exists>i<g. bit bmp (k * g + i)" r] obtain m where
    m: "put_bit (of_nat k) (\<exists>i<g. bit bmp (k * g + i)) r = Inr m"
    "\<And>j. bit m j \<longleftrightarrow> (if j = k then (\<exists>i<g. bit bmp (k * g + i)) else bit r j)" by blast
  have "\<exists>r'. compress_loop bmp (of_nat g) (of_nat s) (Suc k * g) (of_nat (Suc k)) m = Inr r' \<and>
    (\<forall>j. bit r' j \<longleftrightarrow> (if Suc k \<le> j \<and> j < n then \<exists>i<g. bit bmp (j * g + i) else bit m j))"
    using Suc.hyps(1) [of "Suc k" m] Suc.hyps(2) \<open>k < n\<close> by simp
  then obtain r' where r': "compress_loop bmp (of_nat g) (of_nat s) (k * g + g) (of_nat k + 1) m = Inr r'"
    "\<And>j. bit r' j \<longleftrightarrow> (if Suc k \<le> j \<and> j < n then \<exists>i<g. bit bmp (j * g + i) else bit m j)"
    by (auto simp: add.commute)
  have "k * g < s" using kg assms(1) by simp
  then have "compress_loop bmp (of_nat g) (of_nat s) (k * g) (of_nat k) r = Inr r'"
    using compress_chunk [OF kg assms(3), of bmp] m(1) r'(1) assms(1)
    by (subst compress_loop.simps) (simp add: u)
  moreover have "bit r' j \<longleftrightarrow> (if k \<le> j \<and> j < n then \<exists>i<g. bit bmp (j * g + i) else bit r j)" for j
    using \<open>k < n\<close> r'(2) [of j] m(2) [of j] by (cases "j = k") auto
  ultimately show ?case by blast
qed

lemma compress_spec:
  assumes "0 < g" "s = n * g" "s \<le> 64" "0 < n"
  shows "\<exists>r. compress bmp (of_nat g) (of_nat s) = Inr r \<and>
    (\<forall>j. bit r j \<longleftrightarrow> j < n \<and> (\<exists>i<g. bit bmp (j * g + i)))"
proof -
  have "g \<le> s" using assms(2,4) by (cases n) simp_all
  then have u: "unat (of_nat g :: u32) = g" "unat (of_nat s :: u32) = s"
    using assms(3) unat_small [of s] unat_small [of g] by simp_all
  then have "(of_nat g :: u32) \<noteq> 0" using assms(1) by (metis unat_0 less_numeral_extra(3))
  moreover have "(of_nat s :: u32) mod of_nat g = 0"
    using assms u by (intro word_unat_eq_iff [THEN iffD2]) (simp add: unat_mod_distrib)
  ultimately have "compress bmp (of_nat g) (of_nat s) = compress_loop bmp (of_nat g) (of_nat s) 0 0 0"
    by (simp add: compress_def)
  with compress_loop_spec [OF assms(1-3), of 0 bmp 0] show ?thesis by auto
qed

lemma decompress_spec:
  assumes "0 < g" "n * g \<le> 64"
  shows "\<exists>r. decompress bmp (of_nat g) (of_nat n) = Inr r \<and>
    (\<forall>j. bit r j \<longleftrightarrow> j < n * g \<and> bit bmp (j div g))"
proof (cases "n = 0")
  case True
  then show ?thesis by (auto simp: decompress_def)
next
  case False
  then have "g \<le> n * g" by (cases n) simp_all
  moreover have "n \<le> n * g" using assms(1) by simp
  ultimately have le: "g \<le> 64" "n \<le> 64" using assms(2) by linarith+
  note u = unat_small [OF le(1)] unat_small [OF le(2)]
  have "of_nat n * of_nat g \<le> (64::u32)"
    using assms(2) unat_small [OF assms(2)] by (simp add: word_le_nat_alt)
  moreover have "\<exists>r. for_upto (of_nat n) (\<lambda>index result.
        bind_res (get_bit bmp index) (\<lambda>b.
          if b then for_upto (of_nat g) (\<lambda>count. put_bit (index * of_nat g + count) True) result
          else Inr result)) 0 = Inr r \<and>
       (\<forall>j. bit r j \<longleftrightarrow> j < unat (of_nat n :: u32) * g \<and> bit bmp (j div g))"
  proof (rule for_upto_rule [where P = "\<lambda>k r. \<forall>j. bit r j \<longleftrightarrow> j < k * g \<and> bit bmp (j div g)"])
    fix k and r :: Bitmap
    assume "k < unat (of_nat n :: u32)" and r: "\<forall>j. bit r j \<longleftrightarrow> j < k * g \<and> bit bmp (j div g)"
    then have "Suc k * g \<le> n * g" using u by (intro mult_le_mono1) simp
    then have kg: "k * g + g \<le> 64" "k < 64" using assms \<open>k < _\<close> u le by simp_all
    obtain r' where r': "for_upto (of_nat g) (\<lambda>count. put_bit (of_nat k * of_nat g + count) True) r = Inr r'"
      "\<And>j. bit r' j \<longleftrightarrow> (if k * g \<le> j \<and> j < k * g + g then True else bit r j)"
      using copy_loop [of "of_nat g" "\<lambda>count. put_bit (of_nat k * of_nat g + count) True"
          "k * g" "\<lambda>_. True" r] kg u by auto
    have div: "k * g \<le> j \<Longrightarrow> j < k * g + g \<Longrightarrow> j div g = k" for j
      by (simp add: div_nat_eqI mult.commute)
    show "\<exists>t'. bind_res (get_bit bmp (of_nat k)) (\<lambda>b.
          if b then for_upto (of_nat g) (\<lambda>count. put_bit (of_nat k * of_nat g + count) True) r
          else Inr r) = Inr t' \<and> (\<forall>j. bit t' j \<longleftrightarrow> j < Suc k * g \<and> bit bmp (j div g))"
      using r r' kg div by (cases "bit bmp k") (auto simp: not_less)
  qed simp
  ultimately show ?thesis using u by (simp add: decompress_def)
qed

section \<open>Properties\<close>

text \<open>
  C26: \<^verbatim>\<open>BitmapHelper::rotate_left\<close> and \<^verbatim>\<open>rotate_right\<close> by the same amount undo each other on
  the first \<^verbatim>\<open>size\<close> bits, in both orders, without any access outside the bitset, for every
  amount up to the size.
\<close>

theorem rotate_roundtrip:
  assumes "amount \<le> sz" and "sz \<le> 64"
  shows "bind_res (rotate_left bmp amount sz) (\<lambda>r. rotate_right r amount sz) = Inr (take_bit (unat sz) bmp) \<and>
    bind_res (rotate_right bmp amount sz) (\<lambda>r. rotate_left r amount sz) = Inr (take_bit (unat sz) bmp)"
proof -
  obtain a s where as: "amount = of_nat a" "sz = of_nat s" "a = unat amount" "s = unat sz"
    by (metis u32_nat_cases)
  then have le: "a \<le> s" "s \<le> 64" using assms by (simp_all add: word_le_nat_alt)
  note u = unat_small [OF le(2)]
  obtain l where l: "rotate_left bmp (of_nat a) (of_nat s) = Inr l"
    "\<And>j. bit l j \<longleftrightarrow> j < s \<and> (if j < a then bit bmp (j + s - a) else bit bmp (j - a))"
    using rotate_left_spec [OF le] by blast
  obtain lr where lr: "rotate_right l (of_nat a) (of_nat s) = Inr lr"
    "\<And>j. bit lr j \<longleftrightarrow> j < s \<and> (if j < s - a then bit l (j + a) else bit l (j + a - s))"
    using rotate_right_spec [OF le] by blast
  have "lr = take_bit s bmp" using le
    by (intro bit_word_eqI) (auto simp: lr(2) l(2) bit_take_bit_iff)
  with l(1) lr(1) u have 1: "bind_res (rotate_left bmp amount sz) (\<lambda>r. rotate_right r amount sz) =
      Inr (take_bit (unat sz) bmp)"
    by (simp add: as(1,2))
  obtain r where r: "rotate_right bmp (of_nat a) (of_nat s) = Inr r"
    "\<And>j. bit r j \<longleftrightarrow> j < s \<and> (if j < s - a then bit bmp (j + a) else bit bmp (j + a - s))"
    using rotate_right_spec [OF le] by blast
  obtain rl where rl: "rotate_left r (of_nat a) (of_nat s) = Inr rl"
    "\<And>j. bit rl j \<longleftrightarrow> j < s \<and> (if j < a then bit r (j + s - a) else bit r (j - a))"
    using rotate_left_spec [OF le] by blast
  have "rl = take_bit s bmp" using le
    by (intro bit_word_eqI) (auto simp: rl(2) r(2) bit_take_bit_iff)
  with r(1) rl(1) u have 2: "bind_res (rotate_right bmp amount sz) (\<lambda>r. rotate_left r amount sz) =
      Inr (take_bit (unat sz) bmp)"
    by (simp add: as(1,2))
  from 1 2 show ?thesis by blast
qed

theorem rotate_roundtrip_witness:
  "bind_res (rotate_left 0x8001 3 64) (\<lambda>r. rotate_right r 3 64) = Inr 0x8001 \<and>
   bind_res (rotate_right 0x8001 3 64) (\<lambda>r. rotate_left r 3 64) = Inr 0x8001"
  using rotate_roundtrip [of 3 64 "0x8001"] by simp

text \<open>
  the bits of the first bitmap that the second one covers and those it misses add up
  to the bits set: \<^verbatim>\<open>count_bits_same\<close> and \<^verbatim>\<open>count_bits_diff\<close> partition \<^verbatim>\<open>count_bits_set\<close>,
  and no counter exceeds the size.
\<close>

theorem count_bits_partition:
  assumes "sz \<le> 64"
  shows "\<exists>same diff. count_bits_same b1 b2 sz = Inr same \<and> count_bits_diff b1 b2 sz = Inr diff \<and>
    count_bits_set b1 sz = Inr (same + diff) \<and> same + diff \<le> sz"
proof -
  let ?S = "{i. i < unat sz \<and> bit b1 i \<and> bit b2 i}" and ?D = "{i. i < unat sz \<and> bit b1 i \<and> \<not> bit b2 i}"
  let ?A = "{i. i < unat sz \<and> bit b1 i}"
  have "?A = ?S \<union> ?D" "?S \<inter> ?D = {}" by auto
  then have "card ?A = card ?S + card ?D" by (simp add: card_Un_disjoint)
  moreover have "card ?A \<le> card {..<unat sz}" by (intro card_mono) auto
  then have "(of_nat (card ?A) :: u32) \<le> sz"
    using unat_small [of "card ?A"] unat_le_64 [OF assms] by (simp add: word_le_nat_alt)
  ultimately show ?thesis by (simp add: count_specs [OF assms])
qed

theorem count_bits_partition_witness:
  "\<exists>same diff. count_bits_same 0xf0 0x3c 64 = Inr same \<and> count_bits_diff 0xf0 0x3c 64 = Inr diff \<and>
    count_bits_set 0xf0 64 = Inr (same + diff) \<and> same + diff \<le> 64"
  using count_bits_partition [of 64 "0xf0" "0x3c"] by simp

text \<open>
  \<^verbatim>\<open>decompress\<close> followed by \<^verbatim>\<open>compress\<close> with the same granularity returns the bitmap,
  and neither assertion fires, whenever the expanded bitmap fits the 64 bits.
\<close>

theorem compress_decompress:
  assumes "0 < g" and "0 < n" and "unat n * unat g \<le> 64"
  shows "bind_res (decompress bmp g n) (\<lambda>r. compress r g (n * g)) = Inr (take_bit (unat n) bmp)"
proof -
  obtain g' n' where e: "g = of_nat g'" "n = of_nat n'" "g' = unat g" "n' = unat n"
    by (metis u32_nat_cases)
  then have pos: "0 < g'" "0 < n'" "n' * g' \<le> 64" using assms by (simp_all add: word_less_nat_alt)
  obtain d where d: "decompress bmp g n = Inr d" "\<And>j. bit d j \<longleftrightarrow> j < n' * g' \<and> bit bmp (j div g')"
    using decompress_spec [OF pos(1,3)] e(1,2) by metis
  obtain c where c: "compress d g (n * g) = Inr c"
    "\<And>j. bit c j \<longleftrightarrow> j < n' \<and> (\<exists>i<g'. bit d (j * g' + i))"
    using compress_spec [OF pos(1) refl pos(3,2), of d] e(1,2) by (metis of_nat_mult)
  have "(\<exists>i<g'. bit d (j * g' + i)) \<longleftrightarrow> bit bmp j" if "j < n'" for j
  proof -
    have "Suc j * g' \<le> n' * g'" using that by (intro mult_le_mono1) simp
    then show ?thesis using that pos(1) by (auto simp: d(2) intro!: exI [of _ 0])
  qed
  then have "c = take_bit n' bmp"
    by (intro bit_word_eqI) (auto simp: c(2) bit_take_bit_iff)
  then show ?thesis using d(1) c(1) e(4) by simp
qed

theorem compress_decompress_witness:
  "bind_res (decompress 0xa5 4 8) (\<lambda>r. compress r 4 32) = Inr 0xa5"
  using compress_decompress [of 4 8 "0xa5"] by simp

end
