(* ===== verification/FastSet.thy ===== *)
theory FastSet
  imports Prelude
begin

text \<open>
  The small-set-optimised bitset \<^verbatim>\<open>fastset\<close> of \<^verbatim>\<open>inc/set.h\<close>, in which packets keep the
  reorder-buffer and load/store-queue entries that wait for them. Up to 12 values live in
  a sorted array; the 13th converts the set into a bit array of 2048 bits.

  The union of the source is two fields here, of which the code reads only the one its
  cardinality selects. An index outside \<^verbatim>\<open>values[13]\<close> or \<^verbatim>\<open>bits[32]\<close> stops the model with
  \<^const>\<open>Out_of_bounds\<close>. Shown: \<^verbatim>\<open>insert\<close>, \<^verbatim>\<open>search\<close>, \<^verbatim>\<open>join\<close> and \<^verbatim>\<open>expand\<close> implement
  the operations of finite sets, through the conversion and with the binary search.
\<close>

section \<open>State and operations\<close>

text \<open>
  \<open>fs_values\<close> is \<^verbatim>\<open>data.values\<close>, read in small mode, \<open>fs_bits\<close> the array
  \<^verbatim>\<open>data.bits\<close> of 32 words in bit mode, \<open>fs_card\<close> the field \<^verbatim>\<open>card\<close>.
\<close>

record fastset =
  fs_values :: "u16 list"
  fs_bits :: "u64 list"
  fs_card :: nat

definition SMALL_SIZE :: nat where "SMALL_SIZE = 13"
definition SMALLER_SIZE :: nat where "SMALLER_SIZE = 6"
definition MAX_SIZE :: nat where "MAX_SIZE = 2048"

definition fastset_init :: fastset where
  "fastset_init = \<lparr>fs_values = replicate SMALL_SIZE 0, fs_bits = replicate (MAX_SIZE div 64) 0, fs_card = 0\<rparr>"

text \<open>\<^verbatim>\<open>setbit\<close> and \<^verbatim>\<open>getbit\<close>: word \<^verbatim>\<open>x >> 6\<close>, bit \<^verbatim>\<open>x & 63\<close>.\<close>

definition setbit :: "u16 \<Rightarrow> u64 list \<Rightarrow> u64 list res" where
  "setbit x bits =
     (let w = unat (drop_bit 6 x); b = unat (x AND 63)
      in if w < length bits then Inr (bits[w := bits ! w OR push_bit b 1]) else Inl Out_of_bounds)"

definition getbit :: "u16 \<Rightarrow> u64 list \<Rightarrow> bool res" where
  "getbit x bits =
     (let w = unat (drop_bit 6 x); b = unat (x AND 63)
      in if w < length bits then Inr (drop_bit b (bits ! w) AND 1 = 1) else Inl Out_of_bounds)"

text \<open>
  The scan of \<^verbatim>\<open>insert_small\<close>: \<open>None\<close> when \<open>x\<close> is found (the early return), otherwise the
  index where the loop breaks or ends.
\<close>

function insert_scan :: "u16 list \<Rightarrow> nat \<Rightarrow> u16 \<Rightarrow> nat \<Rightarrow> nat option" where
  "insert_scan vs cnt x i =
     (if i < cnt then
        let y = vs ! i in
          if y = x then None else if y > x then Some i else insert_scan vs cnt x (i + 1)
      else Some i)"
  by pat_completeness auto
termination by (relation "measure (\<lambda>(vs, cnt, x, i). cnt - i)") auto

text \<open>The shift \<^verbatim>\<open>for (j = card-1; j >= i; j--) values[j+1] = values[j]\<close>.\<close>

fun shift_up :: "nat \<Rightarrow> nat \<Rightarrow> u16 list \<Rightarrow> u16 list" where
  "shift_up i 0 vs = vs"
| "shift_up i (Suc j) vs = (if i \<le> j then shift_up i j (vs[Suc j := vs ! j]) else vs)"

definition insert_small :: "u16 \<Rightarrow> fastset \<Rightarrow> fastset" where
  "insert_small x s =
     (case insert_scan (fs_values s) (fs_card s) x 0 of
        None \<Rightarrow> s
      | Some i \<Rightarrow> s\<lparr>fs_values := (shift_up i (fs_card s) (fs_values s))[i := x],
                     fs_card := fs_card s + 1\<rparr>)"

function search_small_linear :: "u16 list \<Rightarrow> nat \<Rightarrow> u16 \<Rightarrow> nat \<Rightarrow> bool" where
  "search_small_linear vs cnt x i =
     (if i < cnt then
        let y = vs ! i in
          if y > x then False else if y = x then True else search_small_linear vs cnt x (i + 1)
      else False)"
  by pat_completeness auto
termination by (relation "measure (\<lambda>(vs, cnt, x, i). cnt - i)") auto

text \<open>
  The binary search. \<open>begin\<close>, \<open>end\<close> and \<open>middle\<close> are C \<^verbatim>\<open>int\<close>s, of which \<open>end\<close> can
  become -1. A probe outside the array, which the lemmas exclude, ends the search.
\<close>

function search_binary :: "u16 list \<Rightarrow> u16 \<Rightarrow> int \<Rightarrow> int \<Rightarrow> int \<Rightarrow> bool res" where
  "search_binary vs x lo hi mid =
     (if \<not> (lo \<le> mid \<and> mid \<le> hi \<and> 0 \<le> mid \<and> mid < int (length vs)) then Inl Out_of_bounds
      else
        let y = vs ! nat mid;
            hi' = (if x < y then mid - 1 else hi);
            lo' = (if x < y then lo else mid + 1)
        in if y = x then Inr True
           else if hi' < lo' then Inr False
           else search_binary vs x lo' hi' ((lo' + hi') div 2))"
  by pat_completeness auto
termination
  by (relation "measure (\<lambda>(vs, x, lo, hi, mid). nat (hi - lo + 1))") (auto simp: Let_def)

declare insert_scan.simps [simp del] search_small_linear.simps [simp del] search_binary.simps [simp del]

definition search_small :: "u16 \<Rightarrow> fastset \<Rightarrow> bool res" where
  "search_small x s =
     (if fs_card s = 0 then Inr False
      else if fs_card s < SMALLER_SIZE then Inr (search_small_linear (fs_values s) (fs_card s) x 0)
      else search_binary (fs_values s) x 0 (int (fs_card s) - 1) ((int (fs_card s) - 1) div 2))"

primrec setbits :: "u16 list \<Rightarrow> u64 list \<Rightarrow> u64 list res" where
  "setbits [] bits = Inr bits"
| "setbits (x # xs) bits = bind_res (setbit x bits) (setbits xs)"

definition smalltobit :: "fastset \<Rightarrow> fastset res" where
  "smalltobit s =
     bind_res (setbits (take (fs_card s) (fs_values s)) (replicate (MAX_SIZE div 64) 0))
       (\<lambda>bits. Inr (s\<lparr>fs_bits := bits\<rparr>))"

definition fastset_insert :: "u16 \<Rightarrow> fastset \<Rightarrow> fastset res" where
  "fastset_insert x s =
     (if fs_card s = 0 then
        Inr (s\<lparr>fs_values := (fs_values s)[fs_card s := x], fs_card := fs_card s + 1\<rparr>)
      else if fs_card s < SMALL_SIZE then
        let s' = insert_small x s in
          if fs_card s' = SMALL_SIZE then smalltobit s' else Inr s'
      else bind_res (setbit x (fs_bits s)) (\<lambda>bits. Inr (s\<lparr>fs_bits := bits\<rparr>)))"

definition fastset_search :: "u16 \<Rightarrow> fastset \<Rightarrow> bool res" where
  "fastset_search x s =
     (if fs_card s = 0 then Inr False
      else if fs_card s = 1 then Inr (fs_values s ! 0 = x)
      else if fs_card s < SMALL_SIZE then search_small x s
      else getbit x (fs_bits s))"

primrec insert_all :: "u16 list \<Rightarrow> fastset \<Rightarrow> fastset res" where
  "insert_all [] s = Inr s"
| "insert_all (x # xs) s = bind_res (fastset_insert x s) (insert_all xs)"

text \<open>\<^verbatim>\<open>for (i = 0; i < lim; i++) data.bits[i] |= other.data.bits[i]\<close>\<close>

fun or_words :: "nat \<Rightarrow> u64 list \<Rightarrow> u64 list \<Rightarrow> u64 list res" where
  "or_words 0 bits other = Inr bits"
| "or_words (Suc i) bits other =
     bind_res (or_words i bits other) (\<lambda>bits.
       if i < length bits \<and> i < length other then Inr (bits[i := bits ! i OR other ! i])
       else Inl Out_of_bounds)"

text \<open>\<^verbatim>\<open>join(other, n)\<close>: \<^verbatim>\<open>lim = ((n | 63) + 1) / 64\<close>.\<close>

definition fastset_join :: "fastset \<Rightarrow> nat \<Rightarrow> fastset \<Rightarrow> fastset res" where
  "fastset_join other n s =
     (if fs_card other = 0 then Inr s
      else if fs_card other < SMALL_SIZE then insert_all (take (fs_card other) (fs_values other)) s
      else
        bind_res (if fs_card s < SMALL_SIZE
                  then bind_res (smalltobit s) (\<lambda>s. Inr (s\<lparr>fs_card := SMALL_SIZE\<rparr>)) else Inr s)
          (\<lambda>s. let lim = ((n OR 63) + 1) div 64 in
             bind_res (or_words lim (fs_bits s) (fs_bits other))
               (\<lambda>bits. Inr (s\<lparr>fs_bits := bits\<rparr>))))"

text \<open>
  \<^verbatim>\<open>expand(v, n)\<close> returns the elements written to \<^verbatim>\<open>v\<close>; the bit-mode loop walks the words
  whose first bit is below \<open>n\<close>, skips the empty ones and collects the set bits below \<open>n\<close>.
\<close>

primrec expand_word :: "nat list \<Rightarrow> nat \<Rightarrow> u64 list \<Rightarrow> u16 list res" where
  "expand_word [] n bits = Inr []"
| "expand_word (l # ls) n bits =
     (if l < n then
        bind_res (getbit (of_nat l) bits) (\<lambda>b.
          bind_res (expand_word ls n bits) (\<lambda>v. Inr (if b then of_nat l # v else v)))
      else Inr [])"

primrec expand_words :: "nat list \<Rightarrow> nat \<Rightarrow> u64 list \<Rightarrow> u16 list res" where
  "expand_words [] n bits = Inr []"
| "expand_words (w # ws) n bits =
     (if \<not> w < length bits then Inl Out_of_bounds
      else
        bind_res (if bits ! w \<noteq> 0 then expand_word [64 * w..<64 * w + 64] n bits else Inr [])
          (\<lambda>v. bind_res (expand_words ws n bits) (\<lambda>v'. Inr (v @ v'))))"

definition fastset_expand :: "nat \<Rightarrow> fastset \<Rightarrow> u16 list res" where
  "fastset_expand n s =
     (if fs_card s = 0 then Inr []
      else if fs_card s < SMALL_SIZE then Inr (take (fs_card s) (fs_values s))
      else expand_words [0..<(n + 63) div 64] n (fs_bits s))"

section \<open>Abstraction and invariant\<close>

definition bits_set :: "u64 list \<Rightarrow> u16 set" where
  "bits_set bits = {x. unat (drop_bit 6 x) < length bits \<and> bit (bits ! unat (drop_bit 6 x)) (unat (x AND 63))}"

definition fs_set :: "fastset \<Rightarrow> u16 set" where
  "fs_set s = (if fs_card s < SMALL_SIZE then set (take (fs_card s) (fs_values s)) else bits_set (fs_bits s))"

definition fs_wf :: "fastset \<Rightarrow> bool" where
  "fs_wf s \<longleftrightarrow> length (fs_values s) = SMALL_SIZE \<and> fs_card s \<le> SMALL_SIZE \<and>
     (fs_card s < SMALL_SIZE \<longrightarrow>
        sorted_wrt (<) (take (fs_card s) (fs_values s)) \<and> (\<forall>x\<in>fs_set s. x < 2048)) \<and>
     (fs_card s = SMALL_SIZE \<longrightarrow> length (fs_bits s) = MAX_SIZE div 64)"

lemmas fs_sizes = SMALL_SIZE_def SMALLER_SIZE_def MAX_SIZE_def

lemma SMALL_SIZE_pos: "SMALL_SIZE \<noteq> 0"
  by (simp add: fs_sizes)

section \<open>The bit array\<close>

lemma word_index_bound: "x < (2048::u16) \<Longrightarrow> unat (drop_bit 6 x) < 32"
proof -
  assume "x < 2048"
  then have "unat x < 2048" by (simp add: word_less_nat_alt)
  then have "unat x div 64 < 32" by simp
  then show ?thesis by (simp add: drop_bit_eq_div unat_div_distrib)
qed

lemma word_bit_bound: "unat (x AND (63::u16)) < 64"
proof -
  have "x AND 63 \<le> 63" by (rule word_and_le1)
  then show ?thesis by (simp add: word_le_nat_alt)
qed

lemma index_inj:
  fixes x y :: u16
  assumes "drop_bit 6 x = drop_bit 6 y" "x AND 63 = y AND 63"
  shows "x = y"
proof -
  have "take_bit 6 x = take_bit 6 y" using assms(2) by (simp add: take_bit_eq_mask mask_eq_decr_exp)
  then show ?thesis using assms(1) by (metis bits_ident)
qed

lemma getbit_iff: "unat (drop_bit 6 x) < length bits \<Longrightarrow> getbit x bits = Inr (x \<in> bits_set bits)"
  by (simp add: getbit_def bits_set_def Let_def and_one_eq bit_iff_odd_drop_bit odd_iff_mod_2_eq_one)

lemma setbit_spec:
  assumes "x < 2048" "length bits = 32"
  shows "\<exists>bits'. setbit x bits = Inr bits' \<and> length bits' = 32 \<and> bits_set bits' = insert x (bits_set bits)"
proof -
  let ?w = "unat (drop_bit 6 x)" and ?b = "unat (x AND 63)"
  let ?bits' = "bits[?w := bits ! ?w OR push_bit ?b 1]"
  have w: "?w < 32" using assms(1) by (rule word_index_bound)
  have "y \<in> bits_set ?bits' \<longleftrightarrow> y = x \<or> y \<in> bits_set bits" for y
  proof (cases "drop_bit 6 y = drop_bit 6 x")
    case True
    have "bit (bits ! ?w OR push_bit ?b 1) (unat (y AND 63)) \<longleftrightarrow>
        unat (y AND 63) = ?b \<or> bit (bits ! ?w) (unat (y AND 63))"
      using word_bit_bound [of x] by (auto simp: bit_or_iff bit_exp_iff)
    moreover have "unat (y AND 63) = ?b \<longleftrightarrow> y = x"
      using index_inj [OF True] by (metis word_unat_eq_iff)
    ultimately show ?thesis using True w assms(2) by (auto simp: bits_set_def)
  next
    case False
    then have "unat (drop_bit 6 y) \<noteq> ?w" by (metis word_unat_eq_iff)
    then show ?thesis using False by (auto simp: bits_set_def)
  qed
  then have "bits_set ?bits' = insert x (bits_set bits)" by blast
  moreover have "setbit x bits = Inr ?bits'" using w assms(2) by (simp add: setbit_def Let_def)
  ultimately show ?thesis using assms(2) by simp
qed

lemma setbits_spec:
  assumes "\<forall>x\<in>set xs. x < 2048" "length bits = 32"
  shows "\<exists>bits'. setbits xs bits = Inr bits' \<and> length bits' = 32 \<and> bits_set bits' = set xs \<union> bits_set bits"
  using assms
proof (induction xs arbitrary: bits)
  case Nil
  then show ?case by simp
next
  case (Cons x xs)
  then obtain b1 where "setbit x bits = Inr b1" "length b1 = 32" "bits_set b1 = insert x (bits_set bits)"
    using setbit_spec [of x bits] by auto
  with Cons.IH [of b1] Cons.prems show ?case by auto
qed

lemma bits_set_zero: "bits_set (replicate n 0) = {}"
  by (auto simp: bits_set_def)

section \<open>The sorted array\<close>

lemma insert_scan_spec:
  assumes "c \<le> length vs" "sorted_wrt (<) (take c vs)" "i \<le> c" "\<forall>k<i. vs ! k < x"
  shows "(case insert_scan vs c x i of
            None \<Rightarrow> x \<in> set (take c vs)
          | Some j \<Rightarrow> j \<le> c \<and> (\<forall>k<j. vs ! k < x) \<and> (\<forall>k. j \<le> k \<and> k < c \<longrightarrow> x < vs ! k))"
  using assms
proof (induction vs c x i rule: insert_scan.induct)
  case (1 vs c x i)
  have sorted: "a < b \<Longrightarrow> b < c \<Longrightarrow> vs ! a < vs ! b" for a b
    using "1.prems"(1,2) by (simp add: sorted_wrt_iff_nth_less)
  show ?case
  proof (cases "i < c")
    case False
    then show ?thesis using "1.prems" by (subst insert_scan.simps) auto
  next
    case True
    consider "vs ! i = x" | "x < vs ! i" | "vs ! i < x" by force
    then show ?thesis
    proof cases
      case 1
      then have "x \<in> set (take c vs)" using True "1.prems"(1) by (auto simp: in_set_conv_nth)
      then show ?thesis using True 1 by (subst insert_scan.simps) (auto simp: Let_def)
    next
      case 2
      have "x < vs ! k" if "i \<le> k" "k < c" for k
        using that 2 sorted [of i k] by (cases "i = k") auto
      then show ?thesis using True 2 "1.prems" by (subst insert_scan.simps) (auto simp: Let_def)
    next
      case 3
      then have "\<forall>k<i + 1. vs ! k < x" using "1.prems"(4) by (auto simp: less_Suc_eq)
      then show ?thesis using "1.IH" [OF True refl] True 3 "1.prems"
        by (subst insert_scan.simps) (auto simp: Let_def)
    qed
  qed
qed

lemma length_shift_up [simp]: "length (shift_up i j vs) = length vs"
  by (induction i j vs rule: shift_up.induct) auto

lemma nth_shift_up:
  "c < length vs \<Longrightarrow> k < length vs \<Longrightarrow>
     shift_up i c vs ! k = (if i < k \<and> k \<le> c then vs ! (k - 1) else vs ! k)"
proof (induction i c vs arbitrary: k rule: shift_up.induct)
  case (2 i j vs)
  then show ?case by (cases "k = Suc j") (auto simp: nth_list_update)
qed simp

lemma insert_small_values:
  assumes "c < length vs" "i \<le> c"
  shows "take (Suc c) ((shift_up i c vs)[i := x]) = take i (take c vs) @ x # drop i (take c vs)"
proof (rule nth_equalityI)
  show "length (take (Suc c) ((shift_up i c vs)[i := x])) = length (take i (take c vs) @ x # drop i (take c vs))"
    using assms by (simp add: min_def)
  fix k assume "k < length (take (Suc c) ((shift_up i c vs)[i := x]))"
  then have "k < Suc c" "k < length vs" using assms by auto
  then show "take (Suc c) ((shift_up i c vs)[i := x]) ! k = (take i (take c vs) @ x # drop i (take c vs)) ! k"
    using assms by (auto simp: nth_list_update nth_shift_up nth_append nth_Cons' min_def)
qed

lemma sorted_insert:
  assumes "sorted_wrt (<) xs" "\<forall>k<i. xs ! k < x" "\<forall>k. i \<le> k \<and> k < length xs \<longrightarrow> x < (xs ! k :: u16)"
    "i \<le> length xs"
  shows "sorted_wrt (<) (take i xs @ x # drop i xs)"
proof -
  have "\<forall>y\<in>set (take i xs). y < x" using assms(2,4) by (auto simp: in_set_conv_nth)
  moreover have "\<forall>y\<in>set (drop i xs). x < y"
  proof
    fix y assume "y \<in> set (drop i xs)"
    then obtain k where "k < length xs - i" "y = xs ! (i + k)" by (auto simp: in_set_conv_nth)
    then show "x < y" using assms(3) [rule_format, of "i + k"] by simp
  qed
  ultimately show ?thesis
    using assms(1) by (auto simp: sorted_wrt_append intro: less_trans)
qed

lemma insert_small_spec:
  assumes "length (fs_values s) = SMALL_SIZE" "fs_card s < SMALL_SIZE"
    "sorted_wrt (<) (take (fs_card s) (fs_values s))"
  shows "length (fs_values (insert_small x s)) = SMALL_SIZE \<and>
    fs_card (insert_small x s) \<le> fs_card s + 1 \<and>
    sorted_wrt (<) (take (fs_card (insert_small x s)) (fs_values (insert_small x s))) \<and>
    set (take (fs_card (insert_small x s)) (fs_values (insert_small x s))) =
      insert x (set (take (fs_card s) (fs_values s)))"
proof (cases "insert_scan (fs_values s) (fs_card s) x 0")
  case None
  then show ?thesis using assms insert_scan_spec [of "fs_card s" "fs_values s" 0 x]
    by (auto simp: insert_small_def)
next
  case (Some i)
  let ?p = "take (fs_card s) (fs_values s)"
  from Some assms insert_scan_spec [of "fs_card s" "fs_values s" 0 x]
  have i: "i \<le> fs_card s" "\<forall>k<i. fs_values s ! k < x"
    "\<forall>k. i \<le> k \<and> k < fs_card s \<longrightarrow> x < fs_values s ! k" by auto
  have p: "take (fs_card (insert_small x s)) (fs_values (insert_small x s)) = take i ?p @ x # drop i ?p"
    using Some insert_small_values [of "fs_card s" "fs_values s" i x] i(1) assms(1,2)
    by (simp add: insert_small_def)
  have "sorted_wrt (<) (take i ?p @ x # drop i ?p)"
    using i assms by (intro sorted_insert) auto
  moreover have "set (take i ?p @ x # drop i ?p) = insert x (set ?p)"
    by (metis Un_insert_right append_take_drop_id list.simps(15) set_append)
  ultimately show ?thesis using p Some assms(1) by (simp add: insert_small_def)
qed

section \<open>Searching\<close>

lemma search_small_linear_iff:
  assumes "c \<le> length vs" "sorted_wrt (<) (take c vs)" "i \<le> c"
  shows "search_small_linear vs c x i \<longleftrightarrow> (\<exists>k. i \<le> k \<and> k < c \<and> vs ! k = x)"
  using assms
proof (induction vs c x i rule: search_small_linear.induct)
  case (1 vs c x i)
  have sorted: "a < b \<Longrightarrow> b < c \<Longrightarrow> vs ! a < vs ! b" for a b
    using "1.prems"(1,2) by (simp add: sorted_wrt_iff_nth_less)
  show ?case
  proof (cases "i < c")
    case False
    then show ?thesis by (subst search_small_linear.simps) auto
  next
    case True
    have later: "x < vs ! i \<Longrightarrow> i \<le> k \<Longrightarrow> k < c \<Longrightarrow> vs ! k \<noteq> x" for k
      using sorted [of i k] by (cases "i = k") auto
    have step: "(\<exists>k. i \<le> k \<and> k < c \<and> vs ! k = x) \<longleftrightarrow>
        vs ! i = x \<or> (\<exists>k. i + 1 \<le> k \<and> k < c \<and> vs ! k = x)"
    proof
      assume "\<exists>k. i \<le> k \<and> k < c \<and> vs ! k = x"
      then obtain k where "i \<le> k" "k < c" "vs ! k = x" by blast
      moreover from this have "k = i \<or> i + 1 \<le> k" by auto
      ultimately show "vs ! i = x \<or> (\<exists>k. i + 1 \<le> k \<and> k < c \<and> vs ! k = x)" by blast
    next
      assume "vs ! i = x \<or> (\<exists>k. i + 1 \<le> k \<and> k < c \<and> vs ! k = x)"
      then show "\<exists>k. i \<le> k \<and> k < c \<and> vs ! k = x"
      proof
        assume "vs ! i = x"
        then show ?thesis using True by (intro exI [of _ i]) simp
      next
        assume "\<exists>k. i + 1 \<le> k \<and> k < c \<and> vs ! k = x"
        then obtain k where "i + 1 \<le> k \<and> k < c \<and> vs ! k = x" ..
        then show ?thesis by (intro exI [of _ k]) simp
      qed
    qed
    show ?thesis
      using True later step "1.IH" [OF True refl] "1.prems"
      by (subst search_small_linear.simps) (auto simp: Let_def)
  qed
qed

lemma search_binary_iff:
  assumes "sorted_wrt (<) (take c vs)" "c \<le> length vs" "0 \<le> lo" "lo \<le> mid" "mid \<le> hi" "hi < int c"
    "\<forall>k<c. vs ! k = x \<longrightarrow> lo \<le> int k \<and> int k \<le> hi"
  shows "search_binary vs x lo hi mid = Inr (x \<in> set (take c vs))"
  using assms
proof (induction vs x lo hi mid rule: search_binary.induct)
  case (1 vs x lo hi mid)
  have sorted: "a < b \<Longrightarrow> b < c \<Longrightarrow> vs ! a < vs ! b" for a b
    using "1.prems"(1,2) by (simp add: sorted_wrt_iff_nth_less)
  let ?y = "vs ! nat mid"
  let ?hi = "if x < ?y then mid - 1 else hi" and ?lo = "if x < ?y then lo else mid + 1"
  have range: "lo \<le> mid \<and> mid \<le> hi \<and> 0 \<le> mid \<and> mid < int (length vs)" "nat mid < c"
    using "1.prems" by auto
  have mem: "x \<in> set (take c vs) \<longleftrightarrow> (\<exists>k<c. vs ! k = x)"
    using "1.prems"(2) by (auto simp: in_set_conv_nth)
  show ?case
  proof (cases "?y = x")
    case True
    then show ?thesis using range mem by (subst search_binary.simps) auto
  next
    case False
    have narrowed: "\<forall>k<c. vs ! k = x \<longrightarrow> ?lo \<le> int k \<and> int k \<le> ?hi"
    proof (intro allI impI)
      fix k assume k: "k < c" "vs ! k = x"
      then have "lo \<le> int k" "int k \<le> hi" using "1.prems"(7) by auto
      moreover have "k < nat mid \<longleftrightarrow> x < ?y"
        using sorted [of k "nat mid"] sorted [of "nat mid" k] k range(2) False
        by (cases "k < nat mid"; cases "k = nat mid") auto
      moreover have "k \<noteq> nat mid" using False k by auto
      ultimately show "?lo \<le> int k \<and> int k \<le> ?hi" by auto
    qed
    show ?thesis
    proof (cases "?hi < ?lo")
      case True
      then have "x \<notin> set (take c vs)" using narrowed mem by force
      then show ?thesis using range False True by (subst search_binary.simps) (auto simp: Let_def)
    next
      case ge: False
      have "search_binary vs x ?lo ?hi ((?lo + ?hi) div 2) = Inr (x \<in> set (take c vs))"
        using range False ge narrowed "1.prems" by (intro "1.IH" [OF _ refl refl refl]) auto
      then show ?thesis using range False ge by (subst search_binary.simps) (auto simp: Let_def)
    qed
  qed
qed


lemma search_small_iff:
  assumes "fs_card s \<le> length (fs_values s)" "sorted_wrt (<) (take (fs_card s) (fs_values s))"
  shows "search_small x s = Inr (x \<in> set (take (fs_card s) (fs_values s)))"
proof -
  have mem: "x \<in> set (take (fs_card s) (fs_values s)) \<longleftrightarrow> (\<exists>k<fs_card s. fs_values s ! k = x)"
    using assms(1) by (auto simp: in_set_conv_nth)
  have "search_small_linear (fs_values s) (fs_card s) x 0 \<longleftrightarrow> x \<in> set (take (fs_card s) (fs_values s))"
    using search_small_linear_iff [OF assms, of 0 x] mem by auto
  moreover have "0 < fs_card s \<Longrightarrow>
      search_binary (fs_values s) x 0 (int (fs_card s) - 1) ((int (fs_card s) - 1) div 2) =
      Inr (x \<in> set (take (fs_card s) (fs_values s)))"
    using assms by (intro search_binary_iff) auto
  ultimately show ?thesis by (auto simp: search_small_def)
qed

section \<open>The set operations\<close>

lemma fs_set_init: "fs_set fastset_init = {}" and fs_wf_init: "fs_wf fastset_init"
  by (auto simp: fs_set_def fs_wf_def fastset_init_def fs_sizes)

lemma fs_set_bound:
  assumes "fs_wf s" "x \<in> fs_set s"
  shows "x < 2048"
proof (cases "fs_card s < SMALL_SIZE")
  case True
  then show ?thesis using assms by (simp add: fs_wf_def)
next
  case False
  then have "unat (drop_bit 6 x) < 32"
    using assms by (auto simp: fs_wf_def fs_set_def bits_set_def fs_sizes)
  then have "unat x < 2048" by (simp add: drop_bit_eq_div unat_div_distrib)
  then show ?thesis by (simp add: word_less_nat_alt)
qed

lemma smalltobit_spec:
  assumes "\<forall>x\<in>set (take (fs_card s) (fs_values s)). x < 2048"
  shows "\<exists>bits. smalltobit s = Inr (s\<lparr>fs_bits := bits\<rparr>) \<and> length bits = 32 \<and>
    bits_set bits = set (take (fs_card s) (fs_values s))"
  using setbits_spec [OF assms, of "replicate 32 0"]
  by (auto simp: smalltobit_def fs_sizes bits_set_zero)

lemma insert_spec:
  assumes "fs_wf s" "x < 2048"
  shows "\<exists>s'. fastset_insert x s = Inr s' \<and> fs_wf s' \<and> fs_set s' = insert x (fs_set s)"
proof -
  consider "fs_card s = 0" | "0 < fs_card s" "fs_card s < SMALL_SIZE" | "fs_card s = SMALL_SIZE"
    using assms(1) by (force simp: fs_wf_def)
  then show ?thesis
  proof cases
    case 1
    then obtain v vs where "fs_values s = v # vs" using assms(1)
      by (cases "fs_values s") (auto simp: fs_wf_def fs_sizes)
    then show ?thesis using 1 assms
      by (auto simp: fastset_insert_def fs_wf_def fs_set_def fs_sizes)
  next
    case 2
    let ?s = "insert_small x s"
    have small: "length (fs_values ?s) = SMALL_SIZE" "fs_card ?s \<le> fs_card s + 1"
      "sorted_wrt (<) (take (fs_card ?s) (fs_values ?s))"
      "set (take (fs_card ?s) (fs_values ?s)) = insert x (fs_set s)"
      using insert_small_spec [of s x] 2 assms(1) by (auto simp: fs_wf_def fs_set_def)
    then have bound: "\<forall>y\<in>set (take (fs_card ?s) (fs_values ?s)). y < 2048"
      using assms(2) fs_set_bound [OF assms(1)] by auto
    show ?thesis
    proof (cases "fs_card ?s = SMALL_SIZE")
      case True
      then obtain bits where "smalltobit ?s = Inr (?s\<lparr>fs_bits := bits\<rparr>)" "length bits = 32"
        "bits_set bits = insert x (fs_set s)"
        using smalltobit_spec [OF bound] small(4) by auto
      then show ?thesis using 2 True small(1)
        by (auto simp: fastset_insert_def Let_def fs_wf_def fs_set_def MAX_SIZE_def)
    next
      case False
      then have "fs_card ?s < SMALL_SIZE" using small(2) 2 by simp
      then show ?thesis using 2 False small bound
        by (auto simp: fastset_insert_def Let_def fs_wf_def fs_set_def)
    qed
  next
    case 3
    then have "length (fs_bits s) = 32" using assms(1) by (simp add: fs_wf_def MAX_SIZE_def)
    then obtain bits where "setbit x (fs_bits s) = Inr bits" "length bits = 32"
      "bits_set bits = insert x (bits_set (fs_bits s))"
      using setbit_spec [OF assms(2)] by blast
    then show ?thesis using 3 assms(1)
      by (auto simp: fastset_insert_def fs_wf_def fs_set_def fs_sizes)
  qed
qed

lemma search_spec:
  assumes "fs_wf s" "x < 2048"
  shows "fastset_search x s = Inr (x \<in> fs_set s)"
proof -
  consider "fs_card s = 0" | "fs_card s = 1" | "1 < fs_card s" "fs_card s < SMALL_SIZE" | "fs_card s = SMALL_SIZE"
    using assms(1) by (force simp: fs_wf_def)
  then show ?thesis
  proof cases
    case 2
    then obtain v vs where "fs_values s = v # vs" using assms(1)
      by (cases "fs_values s") (auto simp: fs_wf_def fs_sizes)
    then show ?thesis using 2 by (auto simp: fastset_search_def fs_set_def fs_sizes)
  next
    case 3
    then have "search_small x s = Inr (x \<in> fs_set s)"
      using search_small_iff [of s x] assms(1) by (simp add: fs_wf_def fs_set_def)
    then show ?thesis using 3 by (simp add: fastset_search_def)
  next
    case 4
    then have "getbit x (fs_bits s) = Inr (x \<in> bits_set (fs_bits s))"
      using getbit_iff word_index_bound [OF assms(2)] assms(1) by (simp add: fs_wf_def fs_sizes)
    then show ?thesis using 4 by (simp add: fastset_search_def fs_set_def fs_sizes)
  qed (simp add: fastset_search_def fs_set_def fs_sizes)
qed

section \<open>Union\<close>

lemma join_limit: "((n OR 63) + 1) div 64 = n div 64 + (1::nat)"
proof -
  let ?m = "n OR 63"
  have mask: "(63::nat) = mask 6" by (simp add: mask_eq_exp_minus_1)
  have "drop_bit 6 ?m = drop_bit 6 n" by (rule bit_eqI) (auto simp: mask bit_simps)
  then have "?m div 64 = n div 64" by (simp add: drop_bit_eq_div)
  moreover have "take_bit 6 ?m = mask 6" by (rule bit_eqI) (auto simp: mask bit_simps)
  then have "?m mod 64 = 63" by (simp add: take_bit_eq_mod mask)
  ultimately have "?m + 1 = 64 * (n div 64 + 1)" using mult_div_mod_eq [of 64 ?m] by simp
  then show ?thesis by simp
qed

lemma or_words_spec:
  assumes "k \<le> length bits" "k \<le> length other"
  shows "\<exists>bits'. or_words k bits other = Inr bits' \<and> length bits' = length bits \<and>
    (\<forall>i. bits' ! i = (if i < k then bits ! i OR other ! i else bits ! i))"
  using assms
proof (induction k)
  case 0
  then show ?case by simp
next
  case (Suc k)
  then obtain b where "or_words k bits other = Inr b" "length b = length bits"
    "\<forall>i. b ! i = (if i < k then bits ! i OR other ! i else bits ! i)" by auto
  then show ?case using Suc.prems by (auto simp: nth_list_update less_Suc_eq)
qed

lemma insert_all_spec:
  assumes "fs_wf s" "\<forall>x\<in>set xs. x < 2048"
  shows "\<exists>s'. insert_all xs s = Inr s' \<and> fs_wf s' \<and> fs_set s' = set xs \<union> fs_set s"
  using assms
proof (induction xs arbitrary: s)
  case Nil
  then show ?case by simp
next
  case (Cons x xs)
  then obtain s1 where "fastset_insert x s = Inr s1" "fs_wf s1" "fs_set s1 = insert x (fs_set s)"
    using insert_spec [of s x] by auto
  with Cons.IH [of s1] Cons.prems show ?case by auto
qed

lemma bits_union:
  assumes "length b = 32" "length other = 32" "length bits = 32" "n < 2048"
    and or: "\<forall>i. b ! i = (if i < n div 64 + 1 then bits ! i OR other ! i else bits ! i)"
    and bound: "\<forall>x\<in>bits_set other. unat x \<le> n"
  shows "bits_set b = bits_set bits \<union> bits_set other"
proof (rule set_eqI)
  fix x :: u16
  let ?w = "unat (drop_bit 6 x)" and ?b = "unat (x AND 63)"
  have "?w = unat x div 64" by (simp add: drop_bit_eq_div unat_div_distrib)
  then have "x \<in> bits_set other \<Longrightarrow> ?w < n div 64 + 1"
    using bound by (metis div_le_mono less_Suc_eq_le Suc_eq_plus1)
  then show "x \<in> bits_set b \<longleftrightarrow> x \<in> bits_set bits \<union> bits_set other"
    using or [rule_format, of ?w] assms(1-3) by (auto simp: bits_set_def bit_or_iff split: if_splits)
qed

text \<open>After a conversion to bit mode the set denotes the same elements.\<close>

definition to_bits :: "fastset \<Rightarrow> fastset res" where
  "to_bits s = (if fs_card s < SMALL_SIZE
     then bind_res (smalltobit s) (\<lambda>s. Inr (s\<lparr>fs_card := SMALL_SIZE\<rparr>)) else Inr s)"

lemma to_bits_spec:
  assumes "fs_wf s"
  shows "\<exists>s'. to_bits s = Inr s' \<and> fs_wf s' \<and> fs_card s' = SMALL_SIZE \<and> length (fs_bits s') = 32 \<and>
    bits_set (fs_bits s') = fs_set s"
proof (cases "fs_card s < SMALL_SIZE")
  case True
  then obtain bits where "smalltobit s = Inr (s\<lparr>fs_bits := bits\<rparr>)" "length bits = 32"
    "bits_set bits = fs_set s"
    using smalltobit_spec [of s] fs_set_bound [OF assms] by (auto simp: fs_set_def)
  then show ?thesis using True assms by (auto simp: to_bits_def fs_wf_def MAX_SIZE_def)
next
  case False
  then show ?thesis using assms by (auto simp: to_bits_def fs_wf_def fs_set_def MAX_SIZE_def)
qed

lemma join_spec:
  assumes "fs_wf s" "fs_wf other" "n < 2048" "\<forall>x\<in>fs_set other. unat x \<le> n"
  shows "\<exists>s'. fastset_join other n s = Inr s' \<and> fs_wf s' \<and> fs_set s' = fs_set s \<union> fs_set other"
proof -
  consider "fs_card other = 0" | "0 < fs_card other" "fs_card other < SMALL_SIZE" | "fs_card other = SMALL_SIZE"
    using assms(2) by (force simp: fs_wf_def)
  then show ?thesis
  proof cases
    case 1
    then show ?thesis using assms(1) by (simp add: fastset_join_def fs_set_def fs_sizes)
  next
    case 2
    then show ?thesis
      using insert_all_spec [OF assms(1), of "take (fs_card other) (fs_values other)"] fs_set_bound [OF assms(2)]
      by (auto simp: fastset_join_def fs_set_def)
  next
    case 3
    then have other: "length (fs_bits other) = 32" "bits_set (fs_bits other) = fs_set other"
      using assms(2) by (auto simp: fs_wf_def fs_set_def MAX_SIZE_def)
    obtain s1 where s1: "to_bits s = Inr s1" "fs_wf s1" "fs_card s1 = SMALL_SIZE"
      "length (fs_bits s1) = 32" "bits_set (fs_bits s1) = fs_set s"
      using to_bits_spec [OF assms(1)] by blast
    have "n div 64 + 1 \<le> 32" using assms(3) by simp
    then obtain b where b: "or_words (n div 64 + 1) (fs_bits s1) (fs_bits other) = Inr b"
      "length b = length (fs_bits s1)"
      "\<forall>i. b ! i = (if i < n div 64 + 1 then fs_bits s1 ! i OR fs_bits other ! i else fs_bits s1 ! i)"
      using or_words_spec [of "n div 64 + 1" "fs_bits s1" "fs_bits other"] s1(4) other(1) by auto
    have "bits_set b = fs_set s \<union> fs_set other"
      using bits_union [of b "fs_bits other" "fs_bits s1" n] b s1 other assms(3,4) by simp
    moreover have "fastset_join other n s = Inr (s1\<lparr>fs_bits := b\<rparr>)"
      using 3 s1(1) b(1) join_limit [of n] SMALL_SIZE_pos by (simp add: fastset_join_def to_bits_def [symmetric] Let_def)
    ultimately show ?thesis using s1 b(2) by (auto simp: fs_wf_def fs_set_def MAX_SIZE_def)
  qed
qed

section \<open>Enumeration\<close>

text \<open>The members of a bit array between two indices, in increasing order.\<close>

definition members :: "nat \<Rightarrow> nat \<Rightarrow> u64 list \<Rightarrow> u16 list" where
  "members a b bits = map of_nat (filter (\<lambda>l. of_nat l \<in> bits_set bits) [a..<b])"

lemma members_append: "a \<le> b \<Longrightarrow> b \<le> c \<Longrightarrow> members a b bits @ members b c bits = members a c bits"
  using upt_add_eq_append [of a b "c - b"] by (simp add: members_def flip: filter_append map_append)

lemma unat_of_nat_u16: "l < 2048 \<Longrightarrow> unat (of_nat l :: u16) = l"
  by (simp add: unat_of_nat)

lemma word_of_index: "l < 2048 \<Longrightarrow> unat (drop_bit 6 (of_nat l :: u16)) = l div 64"
  by (simp add: drop_bit_eq_div unat_div_distrib unat_of_nat_u16)

lemma expand_word_spec:
  assumes "length bits = 32" "b \<le> 2048" "a \<le> b"
  shows "expand_word [a..<b] n bits = Inr (members a (min b n) bits)"
  using assms
proof (induction "b - a" arbitrary: a)
  case 0
  then show ?case by (simp add: members_def)
next
  case (Suc d)
  then have ab: "a < b" "[a..<b] = a # [Suc a..<b]" by (auto simp: upt_conv_Cons)
  have "getbit (of_nat a) bits = Inr (of_nat a \<in> bits_set bits)"
    using ab Suc.prems word_of_index [of a] by (intro getbit_iff) auto
  moreover have "expand_word [Suc a..<b] n bits = Inr (members (Suc a) (min b n) bits)"
    using Suc.hyps(2) Suc.prems ab(1) by (intro Suc.hyps(1)) auto
  moreover have "a < n \<Longrightarrow> members a (min b n) bits =
      (if of_nat a \<in> bits_set bits then of_nat a # members (Suc a) (min b n) bits else members (Suc a) (min b n) bits)"
    using ab by (simp add: members_def upt_conv_Cons)
  ultimately show ?case using ab by (simp add: members_def)
qed

lemma empty_word:
  assumes "bits ! w = 0" "w < 32"
  shows "members (64 * w) (min (64 * w + 64) n) bits = []"
proof -
  have "of_nat l \<notin> bits_set bits" if "64 * w \<le> l" "l < 64 * w + 64" for l
  proof -
    have "l div 64 = w" "l < 2048" using that assms(2) by auto
    then show ?thesis using assms(1) word_of_index [of l] by (simp add: bits_set_def)
  qed
  then show ?thesis by (auto simp: members_def filter_empty_conv)
qed

lemma expand_words_spec:
  assumes "length bits = 32" "b \<le> 32" "a \<le> b" "64 * b < n + 64"
  shows "expand_words [a..<b] n bits = Inr (members (64 * a) (min (64 * b) n) bits)"
  using assms
proof (induction "b - a" arbitrary: a)
  case 0
  then show ?case by (simp add: members_def)
next
  case (Suc d)
  then have ab: "a < b" "[a..<b] = a # [Suc a..<b]" by (auto simp: upt_conv_Cons)
  let ?stop = "min (64 * a + 64) n"
  have head: "(if bits ! a \<noteq> 0 then expand_word [64 * a..<64 * a + 64] n bits else Inr []) =
      Inr (members (64 * a) ?stop bits)"
    using ab Suc.prems expand_word_spec [of bits "64 * a + 64" "64 * a" n] empty_word [of bits a n] by auto
  have tail: "expand_words [Suc a..<b] n bits = Inr (members (64 * Suc a) (min (64 * b) n) bits)"
    using Suc.hyps(2) Suc.prems ab(1) by (intro Suc.hyps(1)) auto
  have "members (64 * a) ?stop bits @ members (64 * Suc a) (min (64 * b) n) bits =
      members (64 * a) (min (64 * b) n) bits"
  proof (cases "Suc a = b")
    case True
    then show ?thesis by (auto simp: members_def algebra_simps)
  next
    case False
    then have "64 * a + 64 \<le> n" using ab(1) Suc.prems(4) by simp
    then show ?thesis
      using members_append [of "64 * a" "64 * a + 64" "min (64 * b) n" bits] ab(1)
      by (simp add: min_absorb1 algebra_simps)
  qed
  then show ?case using ab head tail Suc.prems by simp
qed

lemma members_sorted: "b \<le> 2048 \<Longrightarrow> sorted_wrt (<) (members a b bits)"
proof -
  assume b: "b \<le> 2048"
  let ?ls = "filter (\<lambda>l. of_nat l \<in> bits_set bits) [a..<b]"
  have "sorted_wrt (<) ?ls" by (intro sorted_wrt_filter sorted_wrt_upt)
  then have "sorted_wrt (\<lambda>i j. (of_nat i :: u16) < of_nat j) ?ls"
    using b by (rule_tac sorted_wrt_mono_rel [rotated]) (auto simp: word_less_nat_alt unat_of_nat_u16)
  then show ?thesis by (simp add: members_def sorted_wrt_map)
qed

lemma set_members: "b \<le> 2048 \<Longrightarrow> set (members 0 b bits) = {x \<in> bits_set bits. unat x < b}"
  by (auto simp: members_def unat_of_nat_u16 image_iff intro!: exI [of _ "unat _"])

lemma expand_spec:
  assumes "fs_wf s" "n \<le> 2048" "\<forall>x\<in>fs_set s. unat x < n"
  shows "\<exists>v. fastset_expand n s = Inr v \<and> sorted_wrt (<) v \<and> set v = fs_set s"
proof (cases "fs_card s < SMALL_SIZE")
  case True
  then show ?thesis using assms(1) by (auto simp: fastset_expand_def fs_wf_def fs_set_def)
next
  case False
  then have bits: "length (fs_bits s) = 32" "fs_set s = bits_set (fs_bits s)"
    using assms(1) by (auto simp: fs_wf_def fs_set_def MAX_SIZE_def)
  have "expand_words [0..<(n + 63) div 64] n (fs_bits s) = Inr (members 0 n (fs_bits s))"
    using expand_words_spec [of "fs_bits s" "(n + 63) div 64" 0 n] bits(1) assms(2)
    by (simp add: min_absorb2)
  then show ?thesis
    using False SMALL_SIZE_pos members_sorted [OF assms(2)] set_members [OF assms(2)] bits(2) assms(3)
    by (auto simp: fastset_expand_def)
qed

section \<open>The contract of an index set\<close>

text \<open>
  What the queues of the core and the caches rely on: a container of indices below a bound
  that starts empty, takes insertions and answers membership. A history of insertions
  determines every later answer, whatever the order and the repetitions.
\<close>

locale index_set =
  fixes empty :: 's
    and ins :: "'i \<Rightarrow> 's \<Rightarrow> 's res"
    and mem :: "'i \<Rightarrow> 's \<Rightarrow> bool res"
    and wf :: "'s \<Rightarrow> bool"
    and elems :: "'s \<Rightarrow> 'i set"
    and ok :: "'i \<Rightarrow> bool"
  assumes empty_wf: "wf empty" and empty_elems: "elems empty = {}"
    and ins_ok: "wf s \<Longrightarrow> ok x \<Longrightarrow> \<exists>s'. ins x s = Inr s' \<and> wf s' \<and> elems s' = insert x (elems s)"
    and mem_ok: "wf s \<Longrightarrow> ok x \<Longrightarrow> mem x s = Inr (x \<in> elems s)"
begin

primrec fill :: "'i list \<Rightarrow> 's \<Rightarrow> 's res" where
  "fill [] s = Inr s"
| "fill (x # xs) s = bind_res (ins x s) (fill xs)"

lemma fill_ok:
  "wf s \<Longrightarrow> list_all ok xs \<Longrightarrow> \<exists>s'. fill xs s = Inr s' \<and> wf s' \<and> elems s' = set xs \<union> elems s"
proof (induction xs arbitrary: s)
  case (Cons x xs)
  then obtain s1 where "ins x s = Inr s1" "wf s1" "elems s1 = insert x (elems s)"
    using ins_ok by fastforce
  with Cons.IH [of s1] Cons.prems show ?case by auto
qed simp

lemma history_membership:
  "list_all ok xs \<Longrightarrow> ok y \<Longrightarrow> bind_res (fill xs empty) (mem y) = Inr (y \<in> set xs)"
  using fill_ok [OF empty_wf] mem_ok empty_elems by fastforce

lemma history_order_irrelevant:
  "list_all ok xs \<Longrightarrow> set xs = set ys \<Longrightarrow> ok y \<Longrightarrow>
     bind_res (fill xs empty) (mem y) = bind_res (fill ys empty) (mem y)"
  using history_membership [of xs y] history_membership [of ys y] by (simp add: list_all_iff)

end

interpretation fs: index_set fastset_init fastset_insert fastset_search fs_wf fs_set "\<lambda>x. x < 2048"
  by unfold_locales (simp_all add: fs_wf_init fs_set_init insert_spec search_spec)

lemma fs_fill_insert_all: "fs.fill xs s = insert_all xs s"
  by (induction xs arbitrary: s) (simp_all, metis)

section \<open>Properties\<close>

text \<open>
  C24: Starting from an empty set and inserting any sequence of indices below 2048, in any
  order and with repetitions, no operation leaves its array, and \<^verbatim>\<open>search\<close> answers exactly
  whether the index was inserted: through the linear scan, the binary search, the conversion
  at the thirteenth element and the bit array.
\<close>

theorem fastset_membership:
  assumes "\<forall>x\<in>set xs. x < 2048" and "y < 2048"
  shows "bind_res (insert_all xs fastset_init) (fastset_search y) = Inr (y \<in> set xs)"
  using fs.history_membership [of xs y] assms by (simp add: fs_fill_insert_all list_all_iff)

theorem fastset_membership_witness:
  "bind_res (insert_all [5, 3, 900, 3] fastset_init) (fastset_search 900) = Inr ((900::u16) \<in> set [5, 3, 900, 3])"
  by (rule fastset_membership) simp_all

text \<open>
  \<^verbatim>\<open>join(other, n)\<close> with \<^verbatim>\<open>n < 2048\<close> computes the union whichever of the two sets is small or
  a bit array, as long as the elements of the other set are at most \<open>n\<close>; neither it nor the
  conversion it may trigger leaves the arrays, and the invariant is kept.
\<close>

theorem fastset_join_union:
  assumes "fs_wf s" "fs_wf other" "n < 2048" "\<forall>x\<in>fs_set other. unat x \<le> n"
  shows "\<exists>s'. fastset_join other n s = Inr s' \<and> fs_wf s' \<and> fs_set s' = fs_set s \<union> fs_set other"
  using join_spec [OF assms] .

theorem fastset_join_union_witness:
  "\<exists>s'. fastset_join (fastset_init\<lparr>fs_values := [7,0,0,0,0,0,0,0,0,0,0,0,0], fs_card := 1\<rparr>) 576 fastset_init = Inr s'
     \<and> fs_wf s' \<and> fs_set s' = fs_set fastset_init \<union>
         fs_set (fastset_init\<lparr>fs_values := [7,0,0,0,0,0,0,0,0,0,0,0,0], fs_card := 1\<rparr>)"
  by (rule fastset_join_union) (simp_all add: fs_wf_def fs_set_def fastset_init_def fs_sizes)

text \<open>
  \<^verbatim>\<open>expand(v, n)\<close> writes every element of the set once, in increasing order, in both
  representations, when the elements are below \<open>n\<close> and \<open>n\<close> is at most 2048.
\<close>

theorem fastset_expand_enumerates:
  assumes "fs_wf s" "n \<le> 2048" "\<forall>x\<in>fs_set s. unat x < n"
  shows "\<exists>v. fastset_expand n s = Inr v \<and> sorted_wrt (<) v \<and> set v = fs_set s"
  using expand_spec [OF assms] .

theorem fastset_expand_enumerates_witness:
  "\<exists>v. fastset_expand 576 (fastset_init\<lparr>fs_values := [7,9,0,0,0,0,0,0,0,0,0,0,0], fs_card := 2\<rparr>) = Inr v \<and>
     sorted_wrt (<) v \<and> set v = fs_set (fastset_init\<lparr>fs_values := [7,9,0,0,0,0,0,0,0,0,0,0,0], fs_card := 2\<rparr>)"
  by (rule fastset_expand_enumerates) (simp_all add: fs_wf_def fs_set_def fastset_init_def fs_sizes)

end
