(* ===== verification/PacketQueue.thy ===== *)
theory PacketQueue
  imports FastSet
begin

text \<open>
  The request packets of the memory hierarchy and the queues that hold them
  (\<^verbatim>\<open>inc/block.h\<close>, \<^verbatim>\<open>src/block.cc\<close>). A queue is a circular buffer with \<^verbatim>\<open>head\<close>,
  \<^verbatim>\<open>tail\<close> and \<^verbatim>\<open>occupancy\<close>; shown: it refines a bounded FIFO list, and \<^verbatim>\<open>check_queue\<close>
  finds the oldest pending packet for an address.

  Fields a constructor leaves uninitialised keep the value of an argument \<open>raw\<close> of the
  model's constructor, so nothing is assumed of them.
\<close>

section \<open>Records\<close>

record block =
  b_valid :: u8
  b_prefetch :: u8
  b_dirty :: u8
  b_used :: u8
  b_delta :: i32
  b_depth :: i32
  b_signature :: i32
  b_confidence :: i32
  b_address :: u64
  b_full_addr :: u64
  b_tag :: u64
  b_data :: u64
  b_cpu :: u64
  b_instr_id :: u64
  b_lru :: u32

definition BLOCK_init :: block where
  "BLOCK_init = \<lparr>b_valid = 0, b_prefetch = 0, b_dirty = 0, b_used = 0,
     b_delta = 0, b_depth = 0, b_signature = 0, b_confidence = 0,
     b_address = 0, b_full_addr = 0, b_tag = 0, b_data = 0, b_cpu = 0, b_instr_id = 0, b_lru = 0\<rparr>"

record packet =
  p_instruction :: u8
  p_tlb_access :: u8
  p_scheduled :: u8
  p_translated :: u8
  p_fetched :: u8
  p_prefetched :: u8
  p_drc_tag_read :: u8
  p_fill_level :: i32
  p_pf_origin_level :: i32
  p_rob_signal :: i32
  p_rob_index :: i32
  p_producer :: i32
  p_delta :: i32
  p_depth :: i32
  p_signature :: i32
  p_confidence :: i32
  p_pf_metadata :: u32
  p_is_producer :: u8
  p_instr_merged :: u8
  p_load_merged :: u8
  p_store_merged :: u8
  p_returned :: u8
  p_asid0 :: u8
  p_asid1 :: u8
  p_type :: u8
  p_rob_index_depend_on_me :: fastset
  p_lq_index_depend_on_me :: fastset
  p_sq_index_depend_on_me :: fastset
  p_cpu :: u32
  p_data_index :: u32
  p_lq_index :: u32
  p_sq_index :: u32
  p_address :: u64
  p_full_addr :: u64
  p_instruction_pa :: u64
  p_data_pa :: u64
  p_data :: u64
  p_instr_id :: u64
  p_ip :: u64
  p_event_cycle :: u64
  p_cycle_enqueued :: u64

text \<open>\<^verbatim>\<open>NUM_CPUS\<close> is the value of the field \<^verbatim>\<open>cpu\<close> in an empty packet.\<close>

definition NUM_CPUS :: u32 where "NUM_CPUS = 1"

text \<open>The constructor \<^verbatim>\<open>PACKET()\<close> leaves \<^verbatim>\<open>pf_origin_level\<close>, \<^verbatim>\<open>pf_metadata\<close> and \<^verbatim>\<open>data_pa\<close> alone.\<close>

definition PACKET_init :: "packet \<Rightarrow> packet" where
  "PACKET_init raw = \<lparr>p_instruction = 0, p_tlb_access = 0, p_scheduled = 0, p_translated = 0, p_fetched = 0,
     p_prefetched = 0, p_drc_tag_read = 0,
     p_fill_level = - 1, p_pf_origin_level = p_pf_origin_level raw, p_rob_signal = - 1, p_rob_index = - 1,
     p_producer = - 1, p_delta = 0, p_depth = 0, p_signature = 0, p_confidence = 0,
     p_pf_metadata = p_pf_metadata raw,
     p_is_producer = 0, p_instr_merged = 0, p_load_merged = 0, p_store_merged = 0, p_returned = 0,
     p_asid0 = 255, p_asid1 = 255, p_type = 0,
     p_rob_index_depend_on_me = fastset_init, p_lq_index_depend_on_me = fastset_init,
     p_sq_index_depend_on_me = fastset_init,
     p_cpu = NUM_CPUS, p_data_index = 0, p_lq_index = 0, p_sq_index = 0,
     p_address = 0, p_full_addr = 0, p_instruction_pa = 0, p_data_pa = p_data_pa raw, p_data = 0,
     p_instr_id = 0, p_ip = 0, p_event_cycle = - 1, p_cycle_enqueued = 0\<rparr>"

text \<open>An all-zero packet, the concrete value of \<open>raw\<close> in examples.\<close>

definition zero_packet :: packet where
  "zero_packet = PACKET_init \<lparr>p_instruction = 0, p_tlb_access = 0, p_scheduled = 0, p_translated = 0, p_fetched = 0,
     p_prefetched = 0, p_drc_tag_read = 0, p_fill_level = 0, p_pf_origin_level = 0, p_rob_signal = 0, p_rob_index = 0,
     p_producer = 0, p_delta = 0, p_depth = 0, p_signature = 0, p_confidence = 0, p_pf_metadata = 0,
     p_is_producer = 0, p_instr_merged = 0, p_load_merged = 0, p_store_merged = 0, p_returned = 0,
     p_asid0 = 0, p_asid1 = 0, p_type = 0, p_rob_index_depend_on_me = fastset_init,
     p_lq_index_depend_on_me = fastset_init, p_sq_index_depend_on_me = fastset_init,
     p_cpu = 0, p_data_index = 0, p_lq_index = 0, p_sq_index = 0, p_address = 0, p_full_addr = 0,
     p_instruction_pa = 0, p_data_pa = 0, p_data = 0, p_instr_id = 0, p_ip = 0, p_event_cycle = 0, p_cycle_enqueued = 0\<rparr>"

record packet_queue =
  q_NAME :: string
  q_SIZE :: u32
  q_is_RQ :: u8
  q_is_WQ :: u8
  q_write_mode :: u8
  q_cpu :: u32
  q_head :: u32
  q_tail :: u32
  q_occupancy :: u32
  q_num_returned :: u32
  q_next_fill_index :: u32
  q_next_schedule_index :: u32
  q_next_process_index :: u32
  q_next_fill_cycle :: u64
  q_next_schedule_cycle :: u64
  q_next_process_cycle :: u64
  q_ACCESS :: u64
  q_FORWARD :: u64
  q_MERGED :: u64
  q_TO_CACHE :: u64
  q_ROW_BUFFER_HIT :: u64
  q_ROW_BUFFER_MISS :: u64
  q_FULL :: u64
  q_entry :: "packet list"

definition PACKET_QUEUE_init :: "packet \<Rightarrow> string \<Rightarrow> u32 \<Rightarrow> packet_queue" where
  "PACKET_QUEUE_init raw v1 v2 = \<lparr>q_NAME = v1, q_SIZE = v2, q_is_RQ = 0, q_is_WQ = 0, q_write_mode = 0,
     q_cpu = 0, q_head = 0, q_tail = 0, q_occupancy = 0, q_num_returned = 0,
     q_next_fill_index = 0, q_next_schedule_index = 0, q_next_process_index = 0,
     q_next_fill_cycle = - 1, q_next_schedule_cycle = - 1, q_next_process_cycle = - 1,
     q_ACCESS = 0, q_FORWARD = 0, q_MERGED = 0, q_TO_CACHE = 0,
     q_ROW_BUFFER_HIT = 0, q_ROW_BUFFER_MISS = 0, q_FULL = 0,
     q_entry = replicate (unat v2) (PACKET_init raw)\<rparr>"

section \<open>Operations\<close>

text \<open>
  \<^verbatim>\<open>check_queue\<close>: the write queue of the L1D compares byte addresses, the others cache-line
  addresses. \<open>scan_queue\<close> is \<^verbatim>\<open>for (i = lo; i < hi; i++) if (...) return i;\<close>.
\<close>

definition queue_match :: "packet_queue \<Rightarrow> packet \<Rightarrow> packet \<Rightarrow> bool" where
  "queue_match q p e \<longleftrightarrow>
     (if q_NAME q = ''L1D_WQ'' then p_full_addr e = p_full_addr p else p_address e = p_address p)"

definition scan_queue :: "packet_queue \<Rightarrow> packet \<Rightarrow> nat \<Rightarrow> nat \<Rightarrow> nat option" where
  "scan_queue q p lo hi = find (\<lambda>i. queue_match q p (q_entry q ! i)) [lo..<hi]"

definition check_queue :: "packet_queue \<Rightarrow> packet \<Rightarrow> int" where
  "check_queue q p =
     (if q_head q = q_tail q \<and> q_occupancy q = 0 then -1
      else if q_head q < q_tail q then
        (case scan_queue q p (unat (q_head q)) (unat (q_tail q)) of Some i \<Rightarrow> int i | None \<Rightarrow> -1)
      else
        (case scan_queue q p (unat (q_head q)) (unat (q_SIZE q)) of
           Some i \<Rightarrow> int i
         | None \<Rightarrow> (case scan_queue q p 0 (unat (q_tail q)) of Some i \<Rightarrow> int i | None \<Rightarrow> -1)))"

definition add_queue :: "packet \<Rightarrow> packet_queue \<Rightarrow> packet_queue res" where
  "add_queue p q =
     (if q_occupancy q \<noteq> 0 \<and> q_head q = q_tail q then Inl Assert_failed
      else if \<not> unat (q_tail q) < length (q_entry q) then Inl Out_of_bounds
      else
        let q = q\<lparr>q_entry := (q_entry q)[unat (q_tail q) := p], q_occupancy := q_occupancy q + 1,
                   q_tail := q_tail q + 1\<rparr>
        in Inr (if q_tail q \<ge> q_SIZE q then q\<lparr>q_tail := 0\<rparr> else q))"

text \<open>\<^verbatim>\<open>remove_queue(&entry[i])\<close>: the slot is reset, the head advances.\<close>

definition remove_queue :: "packet \<Rightarrow> nat \<Rightarrow> packet_queue \<Rightarrow> packet_queue res" where
  "remove_queue raw i q =
     (if q_occupancy q = 0 \<and> q_head q = q_tail q then Inl Assert_failed
      else if \<not> i < length (q_entry q) then Inl Out_of_bounds
      else
        let q = q\<lparr>q_entry := (q_entry q)[i := PACKET_init raw], q_occupancy := q_occupancy q - 1,
                   q_head := q_head q + 1\<rparr>
        in Inr (if q_head q \<ge> q_SIZE q then q\<lparr>q_head := 0\<rparr> else q))"

text \<open>The callers take the oldest packet with \<^verbatim>\<open>index = head\<close> and then remove it.\<close>

definition dequeue :: "packet \<Rightarrow> packet_queue \<Rightarrow> packet_queue res" where
  "dequeue raw q = remove_queue raw (unat (q_head q)) q"

section \<open>Invariant and abstraction\<close>

definition q_wf :: "packet_queue \<Rightarrow> bool" where
  "q_wf q \<longleftrightarrow> 0 < q_SIZE q \<and> unat (q_SIZE q) < 2 ^ 31 \<and> length (q_entry q) = unat (q_SIZE q) \<and>
     q_head q < q_SIZE q \<and> q_tail q < q_SIZE q \<and> q_occupancy q \<le> q_SIZE q \<and>
     unat (q_tail q) = (unat (q_head q) + unat (q_occupancy q)) mod unat (q_SIZE q)"

definition slot :: "packet_queue \<Rightarrow> nat \<Rightarrow> nat" where
  "slot q k = (unat (q_head q) + k) mod unat (q_SIZE q)"

definition q_list :: "packet_queue \<Rightarrow> packet list" where
  "q_list q = map (\<lambda>k. q_entry q ! slot q k) [0..<unat (q_occupancy q)]"

definition q_full :: "packet_queue \<Rightarrow> bool" where
  "q_full q \<longleftrightarrow> q_occupancy q = q_SIZE q"

lemma length_q_list [simp]: "length (q_list q) = unat (q_occupancy q)"
  by (simp add: q_list_def)

lemma q_wf_init: "0 < v2 \<Longrightarrow> unat v2 < 2 ^ 31 \<Longrightarrow> q_wf (PACKET_QUEUE_init raw v1 v2)"
  and q_list_init: "q_list (PACKET_QUEUE_init raw v1 v2) = []"
  by (simp_all add: q_wf_def q_list_def PACKET_QUEUE_init_def)

section \<open>Circular arithmetic\<close>

lemma mod_less_twice: "(a::nat) < n \<Longrightarrow> k \<le> n \<Longrightarrow> (a + k) mod n = (if a + k < n then a + k else a + k - n)"
  by (auto simp: mod_if)

lemma mod_add_inj: "(a::nat) < n \<Longrightarrow> j < n \<Longrightarrow> k < n \<Longrightarrow> (a + j) mod n = (a + k) mod n \<Longrightarrow> j = k"
  by (auto simp: mod_less_twice split: if_splits)

lemma mod_add_eq_self: "(a::nat) < n \<Longrightarrow> k \<le> n \<Longrightarrow> a = (a + k) mod n \<longleftrightarrow> k = 0 \<or> k = n"
  by (auto simp: mod_less_twice)

lemma mod_succ: "(x::nat) < n \<Longrightarrow> (if x + 1 \<ge> n then 0 else x + 1) = Suc x mod n"
  by (auto simp: mod_if)

lemma unat_succ: "unat (x::u32) + 1 < 2 ^ 32 \<Longrightarrow> unat (x + 1) = unat x + 1"
  by (simp add: unat_word_ariths)

text \<open>\<^verbatim>\<open>x++; if (x >= SIZE) x = 0;\<close> steps around the buffer.\<close>

lemma wrap_succ:
  assumes "x < sz" "unat (sz::u32) < 2 ^ 31"
  shows "unat (if sz \<le> x + 1 then 0 else x + 1) = Suc (unat x) mod unat sz"
proof -
  have "unat x < unat sz" using assms(1) by (simp add: word_less_nat_alt)
  moreover from this have "unat (x + 1) = unat x + 1" using assms(2) by (intro unat_succ) simp
  ultimately show ?thesis using mod_succ [of "unat x" "unat sz"] by (auto simp: word_le_nat_alt)
qed

lemma wrap_less: "x < sz \<Longrightarrow> 0 < sz \<Longrightarrow> (if sz \<le> x + 1 then 0 else x + 1) < (sz::u32)"
  by auto

lemma q_wfD:
  assumes "q_wf q"
  shows "0 < unat (q_SIZE q)" "length (q_entry q) = unat (q_SIZE q)" "unat (q_head q) < unat (q_SIZE q)"
    "unat (q_tail q) < unat (q_SIZE q)" "unat (q_occupancy q) \<le> unat (q_SIZE q)"
    "unat (q_tail q) = (unat (q_head q) + unat (q_occupancy q)) mod unat (q_SIZE q)"
    "unat (q_SIZE q) < 2 ^ 31"
  using assms by (auto simp: q_wf_def word_less_nat_alt word_le_nat_alt)

lemma head_eq_tail_iff:
  assumes "q_wf q"
  shows "q_head q = q_tail q \<longleftrightarrow> q_occupancy q = 0 \<or> q_full q"
proof -
  note wf = q_wfD [OF assms]
  have "q_head q = q_tail q \<longleftrightarrow> unat (q_occupancy q) = 0 \<or> unat (q_occupancy q) = unat (q_SIZE q)"
    unfolding word_unat_eq_iff [of "q_head q"] wf(6) by (rule mod_add_eq_self [OF wf(3,5)])
  then show ?thesis unfolding q_full_def word_unat_eq_iff [of "q_occupancy q"] by simp
qed

lemma slot_bound: "q_wf q \<Longrightarrow> slot q k < length (q_entry q)"
  using q_wfD [of q] by (simp add: slot_def)

lemma slot_inj:
  assumes "q_wf q" "j < unat (q_SIZE q)" "k < unat (q_SIZE q)" "slot q j = slot q k"
  shows "j = k"
  using assms(4) unfolding slot_def by (rule mod_add_inj [OF q_wfD(3) [OF assms(1)] assms(2,3)])

section \<open>The buffer implements a FIFO\<close>

lemma add_queue_spec:
  assumes "q_wf q" "\<not> q_full q"
  shows "\<exists>q'. add_queue p q = Inr q' \<and> q_wf q' \<and> q_list q' = q_list q @ [p] \<and> q_SIZE q' = q_SIZE q"
proof -
  note wf = q_wfD [OF assms(1)]
  let ?t = "if q_SIZE q \<le> q_tail q + 1 then 0 else q_tail q + 1"
  let ?q = "q\<lparr>q_entry := (q_entry q)[unat (q_tail q) := p], q_occupancy := q_occupancy q + 1, q_tail := ?t\<rparr>"
  have occ: "unat (q_occupancy q) < unat (q_SIZE q)"
    using assms(2) wf(5) by (auto simp: q_full_def word_unat_eq_iff)
  then have occ': "unat (q_occupancy q + 1) = unat (q_occupancy q) + 1" using wf(7) by (intro unat_succ) simp
  have add: "add_queue p q = Inr ?q"
    using head_eq_tail_iff [OF assms(1)] assms(2) wf(2,4) by (auto simp: add_queue_def Let_def)
  have t: "unat ?t = Suc (unat (q_tail q)) mod unat (q_SIZE q)"
    using assms(1) by (intro wrap_succ) (auto simp: q_wf_def)
  then have "q_wf ?q"
    using assms(1) occ occ' wf(6) wrap_less [of "q_tail q" "q_SIZE q"]
    by (auto simp: q_wf_def word_less_nat_alt word_le_nat_alt mod_Suc_eq)
  moreover have "q_list ?q = q_list q @ [p]"
  proof -
    have tail: "slot q (unat (q_occupancy q)) = unat (q_tail q)" using wf(6) by (simp add: slot_def)
    have "q_entry ?q ! slot ?q k = q_entry q ! slot q k" if "k < unat (q_occupancy q)" for k
    proof -
      have "slot q k \<noteq> unat (q_tail q)"
        using that occ slot_inj [OF assms(1), of k "unat (q_occupancy q)"] tail by auto
      then show ?thesis by (simp add: slot_def)
    qed
    moreover have "q_entry ?q ! slot ?q (unat (q_occupancy q)) = p" using tail wf(2,4) by (simp add: slot_def)
    ultimately show ?thesis by (simp add: q_list_def occ')
  qed
  ultimately show ?thesis using add by simp
qed

lemma dequeue_spec:
  assumes "q_wf q" "q_occupancy q \<noteq> 0"
  shows "\<exists>q'. dequeue raw q = Inr q' \<and> q_wf q' \<and> q_list q' = tl (q_list q) \<and> q_SIZE q' = q_SIZE q"
proof -
  note wf = q_wfD [OF assms(1)]
  let ?h = "if q_SIZE q \<le> q_head q + 1 then 0 else q_head q + 1"
  let ?q = "q\<lparr>q_entry := (q_entry q)[unat (q_head q) := PACKET_init raw], q_occupancy := q_occupancy q - 1, q_head := ?h\<rparr>"
  have occ: "unat (q_occupancy q - 1) = unat (q_occupancy q) - 1" "0 < unat (q_occupancy q)"
    using assms(2) unat_gt_0 by (auto simp: unat_minus_one)
  have deq: "dequeue raw q = Inr ?q"
    using assms wf(2,3) by (auto simp: dequeue_def remove_queue_def Let_def)
  have h: "unat ?h = Suc (unat (q_head q)) mod unat (q_SIZE q)"
    using assms(1) by (intro wrap_succ) (auto simp: q_wf_def)
  have slot: "slot ?q k = slot q (Suc k)" for k by (simp add: slot_def h mod_add_left_eq)
  have "unat (q_tail q) = slot ?q (unat (q_occupancy q) - 1)"
    using wf(6) occ(2) unfolding slot by (simp add: slot_def)
  then have "q_wf ?q"
    using assms(1) occ wrap_less [of "q_head q" "q_SIZE q"]
    by (auto simp: q_wf_def word_less_nat_alt word_le_nat_alt slot_def)
  moreover have "q_list ?q = tl (q_list q)"
  proof (rule nth_equalityI)
    fix k assume "k < length (q_list ?q)"
    then have k: "Suc k < unat (q_occupancy q)" using occ by simp
    then have "slot q (Suc k) \<noteq> slot q 0" using slot_inj [OF assms(1), of "Suc k" 0] wf(5) by auto
    then have "q_entry ?q ! slot ?q k = q_entry q ! slot q (Suc k)"
      unfolding slot using wf(3) by (simp add: slot_def)
    then show "q_list ?q ! k = tl (q_list q) ! k" using k occ by (simp add: q_list_def nth_tl)
  qed (use occ in simp)
  ultimately show ?thesis using deq by simp
qed

section \<open>Searching the pending packets\<close>

lemma find_map_option: "find P (map f xs) = map_option f (find (P \<circ> f) xs)"
  by (induction xs) auto

lemma find_append_case: "find P (xs @ ys) = (case find P xs of Some x \<Rightarrow> Some x | None \<Rightarrow> find P ys)"
  by (induction xs) auto

lemma slots_upt:
  assumes "(h::nat) < n" "k \<le> n"
  shows "map (\<lambda>j. (h + j) mod n) [0..<k] =
    (if h + k \<le> n then [h..<h + k] else [h..<n] @ [0..<h + k - n])"
  using assms
  by (intro nth_equalityI) (auto simp: nth_append mod_less_twice)

lemma slots_order:
  assumes "q_wf q" "q_occupancy q \<noteq> 0"
  shows "map (slot q) [0..<unat (q_occupancy q)] =
    (if q_head q < q_tail q then [unat (q_head q)..<unat (q_tail q)]
     else [unat (q_head q)..<unat (q_SIZE q)] @ [0..<unat (q_tail q)])"
proof -
  note wf = q_wfD [OF assms(1)]
  let ?h = "unat (q_head q)" and ?o = "unat (q_occupancy q)" and ?n = "unat (q_SIZE q)"
  have o: "0 < ?o" using assms(2) unat_gt_0 by blast
  have t: "unat (q_tail q) = (if ?h + ?o < ?n then ?h + ?o else ?h + ?o - ?n)"
    using wf(6) mod_less_twice [OF wf(3,5)] by simp
  have "map (slot q) [0..<?o] = (if ?h + ?o \<le> ?n then [?h..<?h + ?o] else [?h..<?n] @ [0..<?h + ?o - ?n])"
    unfolding slot_def by (rule slots_upt [OF wf(3,5)])
  then show ?thesis using t o wf(3,5) by (auto simp: word_less_nat_alt)
qed

text \<open>The index the search is specified to return: that of the oldest matching packet.\<close>

definition oldest_match :: "packet_queue \<Rightarrow> packet \<Rightarrow> nat option" where
  "oldest_match q p = find (\<lambda>k. queue_match q p (q_list q ! k)) [0..<unat (q_occupancy q)]"

lemma oldest_match_slot:
  "map_option (slot q) (oldest_match q p) =
     find (\<lambda>i. queue_match q p (q_entry q ! i)) (map (slot q) [0..<unat (q_occupancy q)])"
  unfolding find_map_option oldest_match_def
  by (rule arg_cong [where f = "map_option (slot q)"]) (auto intro!: find_cong simp: q_list_def)

lemma check_queue_spec:
  assumes "q_wf q"
  shows "check_queue q p = (case oldest_match q p of Some k \<Rightarrow> int (slot q k) | None \<Rightarrow> -1)"
proof (cases "q_occupancy q = 0")
  case True
  then show ?thesis using head_eq_tail_iff [OF assms] by (simp add: check_queue_def oldest_match_def)
next
  case False
  have "check_queue q p = (case map_option (slot q) (oldest_match q p) of Some i \<Rightarrow> int i | None \<Rightarrow> -1)"
    unfolding oldest_match_slot slots_order [OF assms False]
    using False by (auto simp: check_queue_def scan_queue_def find_append_case split: option.splits)
  then show ?thesis by (simp split: option.splits)
qed

lemma find_upt_Some:
  "find P [0..<n] = Some k \<longleftrightarrow> k < n \<and> P k \<and> (\<forall>j<k. \<not> P j)"
  by (auto simp: find_Some_iff)

section \<open>The contract of a bounded queue\<close>

text \<open>
  What the caches and the core rely on: \<open>push\<close> appends when there is room and \<open>pop\<close> drops
  the oldest element. Any interleaving of pushes and pops that respects the capacity
  behaves as on a list.
\<close>

datatype 'e qop = Push 'e | Pop

fun fifo_step :: "'e qop \<Rightarrow> 'e list \<Rightarrow> 'e list" where
  "fifo_step (Push e) xs = xs @ [e]"
| "fifo_step Pop xs = tl xs"

fun fifo_fits :: "nat \<Rightarrow> 'e qop list \<Rightarrow> 'e list \<Rightarrow> bool" where
  "fifo_fits cap [] xs \<longleftrightarrow> True"
| "fifo_fits cap (Push e # ops) xs \<longleftrightarrow> length xs < cap \<and> fifo_fits cap ops (xs @ [e])"
| "fifo_fits cap (Pop # ops) xs \<longleftrightarrow> xs \<noteq> [] \<and> fifo_fits cap ops (tl xs)"

fun queue_run :: "('e \<Rightarrow> 'q \<Rightarrow> 'q res) \<Rightarrow> ('q \<Rightarrow> 'q res) \<Rightarrow> 'e qop list \<Rightarrow> 'q \<Rightarrow> 'q res" where
  "queue_run push pop [] q = Inr q"
| "queue_run push pop (Push e # ops) q = bind_res (push e q) (queue_run push pop ops)"
| "queue_run push pop (Pop # ops) q = bind_res (pop q) (queue_run push pop ops)"

locale bounded_queue =
  fixes push :: "'e \<Rightarrow> 'q \<Rightarrow> 'q res"
    and pop :: "'q \<Rightarrow> 'q res"
    and wf :: "'q \<Rightarrow> bool"
    and elems :: "'q \<Rightarrow> 'e list"
    and cap :: "'q \<Rightarrow> nat"
  assumes push_ok: "wf q \<Longrightarrow> length (elems q) < cap q \<Longrightarrow>
      \<exists>q'. push e q = Inr q' \<and> wf q' \<and> elems q' = elems q @ [e] \<and> cap q' = cap q"
    and pop_ok: "wf q \<Longrightarrow> elems q \<noteq> [] \<Longrightarrow>
      \<exists>q'. pop q = Inr q' \<and> wf q' \<and> elems q' = tl (elems q) \<and> cap q' = cap q"
begin

lemma run_refines:
  "wf q \<Longrightarrow> fifo_fits (cap q) ops (elems q) \<Longrightarrow>
     \<exists>q'. queue_run push pop ops q = Inr q' \<and> wf q' \<and> elems q' = fold fifo_step ops (elems q) \<and> cap q' = cap q"
proof (induction ops arbitrary: q)
  case Nil
  then show ?case by simp
next
  case (Cons opn ops)
  show ?case
  proof (cases opn)
    case (Push e)
    then obtain q1 where "push e q = Inr q1" "wf q1" "elems q1 = elems q @ [e]" "cap q1 = cap q"
      using push_ok [of q e] Cons.prems by auto
    then show ?thesis using Cons.IH [of q1] Cons.prems Push by auto
  next
    case Pop
    then obtain q1 where "pop q = Inr q1" "wf q1" "elems q1 = tl (elems q)" "cap q1 = cap q"
      using pop_ok [of q] Cons.prems by auto
    then show ?thesis using Cons.IH [of q1] Cons.prems Pop by auto
  qed
qed

end

interpretation pq: bounded_queue add_queue "dequeue raw" q_wf q_list "\<lambda>q. unat (q_SIZE q)" for raw
proof unfold_locales
  fix q e assume "q_wf q" "length (q_list q) < unat (q_SIZE q)"
  then show "\<exists>q'. add_queue e q = Inr q' \<and> q_wf q' \<and> q_list q' = q_list q @ [e] \<and> unat (q_SIZE q') = unat (q_SIZE q)"
    using add_queue_spec [of q e] by (metis length_q_list less_irrefl q_full_def)
next
  fix raw q assume "q_wf q" "q_list q \<noteq> []"
  then show "\<exists>q'. dequeue raw q = Inr q' \<and> q_wf q' \<and> q_list q' = tl (q_list q) \<and> unat (q_SIZE q') = unat (q_SIZE q)"
    using dequeue_spec [of q raw] by (fastforce simp: q_list_def)
qed

section \<open>Blank slots\<close>

text \<open>
  Pending packets have an address, and the slots outside the window are blank: the invariant
  behind the checks \<^verbatim>\<open>is not empty index\<close> of the callers.
\<close>

definition q_ok :: "packet_queue \<Rightarrow> bool" where
  "q_ok q \<longleftrightarrow> q_wf q \<and> (\<forall>e\<in>set (q_list q). p_address e \<noteq> 0) \<and>
     (\<forall>i<length (q_entry q). (\<forall>k<unat (q_occupancy q). slot q k \<noteq> i) \<longrightarrow> p_address (q_entry q ! i) = 0)"

lemma q_ok_init: "0 < v2 \<Longrightarrow> unat v2 < 2 ^ 31 \<Longrightarrow> q_ok (PACKET_QUEUE_init raw v1 v2)"
  using q_wf_init [of v2 raw v1] by (simp add: q_ok_def q_list_init) (simp add: PACKET_QUEUE_init_def PACKET_init_def)

lemma tail_blank:
  assumes "q_ok q" "\<not> q_full q"
  shows "p_address (q_entry q ! unat (q_tail q)) = 0"
proof -
  have wf: "q_wf q" using assms(1) by (simp add: q_ok_def)
  note q = q_wfD [OF wf]
  have occ: "unat (q_occupancy q) < unat (q_SIZE q)"
    using assms(2) q(5) by (auto simp: q_full_def word_unat_eq_iff)
  have tail: "slot q (unat (q_occupancy q)) = unat (q_tail q)" using q(6) by (simp add: slot_def)
  have "slot q k \<noteq> unat (q_tail q)" if "k < unat (q_occupancy q)" for k
    using slot_inj [OF wf, of k "unat (q_occupancy q)"] that occ tail by auto
  then show ?thesis using assms(1) q(2,4) by (simp add: q_ok_def)
qed

lemma add_queue_fields:
  assumes "add_queue p q = Inr q'"
  shows "q_entry q' = (q_entry q)[unat (q_tail q) := p]" "q_head q' = q_head q" "q_SIZE q' = q_SIZE q"
    "q_occupancy q' = q_occupancy q + 1" "q_NAME q' = q_NAME q"
  using assms by (auto simp: add_queue_def Let_def split: if_splits)

lemma q_ok_add:
  assumes "q_ok q" "\<not> q_full q" "p_address p \<noteq> 0"
  shows "\<exists>q'. add_queue p q = Inr q' \<and> q_ok q' \<and> q_list q' = q_list q @ [p]"
proof -
  have wf: "q_wf q" using assms(1) by (simp add: q_ok_def)
  note q = q_wfD [OF wf]
  obtain q' where q': "add_queue p q = Inr q'" "q_wf q'" "q_list q' = q_list q @ [p]"
    using add_queue_spec [OF wf assms(2)] by blast
  note f = add_queue_fields [OF q'(1)]
  have occ: "unat (q_occupancy q') = Suc (unat (q_occupancy q))"
    using arg_cong [OF q'(3), of length] by simp
  have slot: "slot q' k = slot q k" for k using f by (simp add: slot_def)
  have tail: "slot q (unat (q_occupancy q)) = unat (q_tail q)" using q(6) by (simp add: slot_def)
  have "p_address (q_entry q' ! i) = 0"
    if "i < length (q_entry q')" "\<forall>k<unat (q_occupancy q'). slot q' k \<noteq> i" for i
  proof -
    have "i \<noteq> unat (q_tail q)" "\<forall>k<unat (q_occupancy q). slot q k \<noteq> i"
      using that(2) occ slot tail by (auto simp: less_Suc_eq)
    then show ?thesis using assms(1) that(1) f(1) by (simp add: q_ok_def)
  qed
  then show ?thesis using q' assms(1,3) by (auto simp: q_ok_def)
qed

section \<open>Properties\<close>

text \<open>
  C23: The circular buffer is a FIFO. Starting from a freshly built queue of any size, every
  sequence of \<^verbatim>\<open>add_queue\<close> and \<^verbatim>\<open>remove_queue(&entry[head])\<close> calls that never adds to a full
  and never removes from an empty queue runs without an assertion or an access outside the
  array, and the packets between head and tail are those of the list run: wrap-around of
  both indices included.
\<close>

theorem packet_queue_refines_fifo:
  assumes "0 < v2" "unat v2 < 2 ^ 31" "fifo_fits (unat v2) ops []"
  shows "\<exists>q. queue_run add_queue (dequeue raw) ops (PACKET_QUEUE_init raw v1 v2) = Inr q \<and> q_wf q \<and>
           q_list q = fold fifo_step ops []"
proof -
  have "q_SIZE (PACKET_QUEUE_init raw v1 v2) = v2" by (simp add: PACKET_QUEUE_init_def)
  then show ?thesis
    using pq.run_refines [OF q_wf_init [OF assms(1,2), of raw v1], of ops raw] assms(3) q_list_init [of raw v1 v2]
    by metis
qed

theorem packet_queue_refines_fifo_witness:
  "\<exists>q. queue_run add_queue (dequeue zero_packet)
         [Push zero_packet, Pop, Push zero_packet, Push zero_packet, Pop]
         (PACKET_QUEUE_init zero_packet ''LLC_RQ'' 2) = Inr q \<and> q_wf q \<and>
       q_list q = fold fifo_step
         [Push zero_packet, Pop, Push zero_packet, Push zero_packet, Pop] []"
  by (rule packet_queue_refines_fifo) simp_all

text \<open>
  \<^verbatim>\<open>check_queue\<close> on a well-formed queue returns the slot of the oldest pending packet with
  the address of the argument (the byte address for the L1D write queue), and -1 exactly
  when no pending packet has it; stale slots outside the window are never reported.
\<close>

theorem check_queue_finds_oldest:
  assumes "q_wf q"
  shows "(check_queue q p = -1 \<longleftrightarrow> (\<forall>e\<in>set (q_list q). \<not> queue_match q p e)) \<and>
    (check_queue q p \<noteq> -1 \<longrightarrow> (\<exists>k<length (q_list q). check_queue q p = int (slot q k) \<and>
       queue_match q p (q_list q ! k) \<and> (\<forall>j<k. \<not> queue_match q p (q_list q ! j))))"
proof (cases "oldest_match q p")
  case None
  then have "\<forall>k<unat (q_occupancy q). \<not> queue_match q p (q_list q ! k)"
    by (simp add: oldest_match_def find_None_iff)
  then show ?thesis using check_queue_spec [OF assms, of p] None by (auto simp: in_set_conv_nth)
next
  case (Some k)
  then have k: "k < length (q_list q)" "queue_match q p (q_list q ! k)" "\<forall>j<k. \<not> queue_match q p (q_list q ! j)"
    by (auto simp: oldest_match_def find_upt_Some)
  moreover have "check_queue q p = int (slot q k)" using check_queue_spec [OF assms, of p] Some by simp
  ultimately show ?thesis using nth_mem [OF k(1)] by auto
qed

theorem check_queue_finds_oldest_witness:
  "(check_queue (PACKET_QUEUE_init zero_packet ''LLC_RQ'' 4) zero_packet = -1 \<longleftrightarrow>
     (\<forall>e\<in>set (q_list (PACKET_QUEUE_init zero_packet ''LLC_RQ'' 4)).
        \<not> queue_match (PACKET_QUEUE_init zero_packet ''LLC_RQ'' 4) zero_packet e))"
  using check_queue_finds_oldest [OF q_wf_init [of 4 zero_packet "''LLC_RQ''"], of zero_packet]
  by simp

end
