(* ===== verification/Replacement.thy ===== *)
theory Replacement
  imports PacketQueue
begin

text \<open>
  The LRU replacement policy of the caches (\<^verbatim>\<open>replacement/base_replacement.cc\<close>,
  \<^verbatim>\<open>replacement/llc_replacement.cc\<close>). Every way of a set carries its recency rank in the
  field \<^verbatim>\<open>lru\<close>, 0 the most recently used. Shown: the ranks of a set stay a permutation of
  \<open>0..NUM_WAY-1\<close>, so a victim is always found and the assertion of \<^verbatim>\<open>lru_victim\<close> is
  unreachable; the ranks refine a recency list with move-to-front.

  A set is the list of its blocks; \<open>NUM_WAY\<close> is an argument, a \<^verbatim>\<open>uint32_t\<close>.
\<close>

section \<open>The policy\<close>

definition LOAD :: u32 where "LOAD = 0"
definition RFO :: u32 where "RFO = 1"
definition PREFETCH :: u32 where "PREFETCH = 2"
definition WRITEBACK :: u32 where "WRITEBACK = 3"

text \<open>
  \<^verbatim>\<open>lru_victim\<close>: the first loop looks for an invalid way, the second for the way of rank
  \<open>NUM_WAY - 1\<close>; if both fail the program stops.
\<close>

definition lru_victim :: "u32 \<Rightarrow> block list \<Rightarrow> nat res" where
  "lru_victim NUM_WAY bs =
     (case find (\<lambda>way. b_valid (bs ! way) = 0) [0..<unat NUM_WAY] of
        Some way \<Rightarrow> Inr way
      | None \<Rightarrow>
          (case find (\<lambda>way. b_lru (bs ! way) = NUM_WAY - 1) [0..<unat NUM_WAY] of
             Some way \<Rightarrow> Inr way
           | None \<Rightarrow> Inl Assert_failed))"

text \<open>
  \<^verbatim>\<open>lru_update\<close>: the loop compares with the rank of \<open>way\<close> as it is in the array in that
  iteration.
\<close>

primrec lru_loop :: "nat list \<Rightarrow> nat \<Rightarrow> block list \<Rightarrow> block list" where
  "lru_loop [] way bs = bs"
| "lru_loop (i # is) way bs =
     lru_loop is way
       (if b_lru (bs ! i) < b_lru (bs ! way)
        then bs[i := (bs ! i)\<lparr>b_lru := b_lru (bs ! i) + 1\<rparr>] else bs)"

definition lru_update :: "u32 \<Rightarrow> nat \<Rightarrow> block list \<Rightarrow> block list res" where
  "lru_update NUM_WAY way bs =
     (if \<not> way < length bs then Inl Out_of_bounds
      else
        let bs = lru_loop [0..<unat NUM_WAY] way bs
        in Inr (bs[way := (bs ! way)\<lparr>b_lru := 0\<rparr>]))"

definition find_victim :: "u32 \<Rightarrow> block list \<Rightarrow> nat res" where
  "find_victim NUM_WAY bs = lru_victim NUM_WAY bs"

definition update_replacement_state :: "u32 \<Rightarrow> nat \<Rightarrow> u32 \<Rightarrow> bool \<Rightarrow> block list \<Rightarrow> block list res" where
  "update_replacement_state NUM_WAY way ty hit bs =
     (if ty = WRITEBACK \<and> hit then Inr bs else lru_update NUM_WAY way bs)"

definition llc_find_victim :: "u32 \<Rightarrow> block list \<Rightarrow> nat res" where
  "llc_find_victim NUM_WAY bs = lru_victim NUM_WAY bs"

definition llc_update_replacement_state ::
  "u32 \<Rightarrow> nat \<Rightarrow> u64 \<Rightarrow> u32 \<Rightarrow> bool \<Rightarrow> block list \<Rightarrow> block list res" where
  "llc_update_replacement_state NUM_WAY way ip ty hit bs =
     (if \<not> (ty = LOAD \<or> ty = RFO \<or> ty = PREFETCH \<or> ty = WRITEBACK) then Inl Assert_failed
      else if ty = WRITEBACK \<and> ip \<noteq> 0 then Inl Assert_failed
      else if hit \<and> ty = WRITEBACK then Inr bs
      else lru_update NUM_WAY way bs)"

section \<open>Recency ranks\<close>

definition ranks :: "block list \<Rightarrow> nat list" where
  "ranks bs = map (\<lambda>b. unat (b_lru b)) bs"

definition lru_wf :: "u32 \<Rightarrow> block list \<Rightarrow> bool" where
  "lru_wf NUM_WAY bs \<longleftrightarrow> 0 < NUM_WAY \<and> length bs = unat NUM_WAY \<and>
     distinct (ranks bs) \<and> set (ranks bs) = {0..<unat NUM_WAY}"

text \<open>Promotion on ranks, the specification: smaller ranks move up by one, \<open>way\<close> becomes 0.\<close>

definition promote :: "nat \<Rightarrow> nat list \<Rightarrow> nat list" where
  "promote way rs = map (\<lambda>i. if i = way then 0 else if rs ! i < rs ! way then rs ! i + 1 else rs ! i) [0..<length rs]"

lemma length_ranks [simp]: "length (ranks bs) = length bs"
  by (simp add: ranks_def)

lemma length_lru_loop [simp]: "length (lru_loop is way bs) = length bs"
  by (induction "is" arbitrary: bs) auto

lemma length_promote [simp]: "length (promote way rs) = length rs"
  by (simp add: promote_def)

text \<open>The loop leaves \<open>way\<close> alone and increments each smaller rank once.\<close>

lemma lru_loop_nth:
  assumes "distinct is" "way < length bs" "k < length bs"
  shows "lru_loop is way bs ! k =
    (if k \<in> set is \<and> b_lru (bs ! k) < b_lru (bs ! way)
     then (bs ! k)\<lparr>b_lru := b_lru (bs ! k) + 1\<rparr> else bs ! k)"
  using assms
proof (induction "is" arbitrary: bs)
  case Nil
  then show ?case by simp
next
  case (Cons i "is")
  let ?bs = "if b_lru (bs ! i) < b_lru (bs ! way) then bs[i := (bs ! i)\<lparr>b_lru := b_lru (bs ! i) + 1\<rparr>] else bs"
  have way: "?bs ! way = bs ! way" by (cases "i = way") auto
  have "lru_loop is way ?bs ! k = (if k \<in> set is \<and> b_lru (?bs ! k) < b_lru (?bs ! way)
     then (?bs ! k)\<lparr>b_lru := b_lru (?bs ! k) + 1\<rparr> else ?bs ! k)"
    using Cons.prems by (intro Cons.IH) auto
  then show ?case using way Cons.prems by (cases "k = i") auto
qed

lemma lru_update_ranks:
  assumes "way < length bs" "length bs = unat NUM_WAY"
  shows "\<exists>bs'. lru_update NUM_WAY way bs = Inr bs' \<and> length bs' = length bs \<and>
    ranks bs' = promote way (ranks bs) \<and>
    (\<forall>k<length bs. bs' ! k = (bs ! k)\<lparr>b_lru := b_lru (bs' ! k)\<rparr>)"
proof -
  let ?l = "lru_loop [0..<unat NUM_WAY] way bs"
  let ?bs = "?l[way := (?l ! way)\<lparr>b_lru := 0\<rparr>]"
  have nth: "?l ! k = (if b_lru (bs ! k) < b_lru (bs ! way)
       then (bs ! k)\<lparr>b_lru := b_lru (bs ! k) + 1\<rparr> else bs ! k)" if "k < length bs" for k
    using lru_loop_nth [of "[0..<unat NUM_WAY]" way bs k] that assms by auto
  have inc: "unat (b_lru (bs ! k) + 1) = unat (b_lru (bs ! k)) + 1" if "b_lru (bs ! k) < b_lru (bs ! way)" for k
    using that u32_bound [of "b_lru (bs ! way)"] by (intro unat_succ) (simp add: word_less_nat_alt)
  have "ranks ?bs = promote way (ranks bs)"
    using assms by (intro nth_equalityI)
      (auto simp: ranks_def promote_def nth inc nth_list_update word_less_nat_alt)
  moreover have "\<forall>k<length bs. ?bs ! k = (bs ! k)\<lparr>b_lru := b_lru (?bs ! k)\<rparr>"
    using assms by (auto simp: nth nth_list_update)
  ultimately show ?thesis using assms(1) by (auto simp: lru_update_def Let_def)
qed

lemma promote_nth:
  "k < length rs \<Longrightarrow> promote way rs ! k = (if k = way then 0 else if rs ! k < rs ! way then rs ! k + 1 else rs ! k)"
  by (simp add: promote_def)

lemma promote_distinct:
  assumes "distinct rs" "way < length rs"
  shows "distinct (promote way rs)"
proof -
  have "promote way rs ! i \<noteq> promote way rs ! j" if "i < length rs" "j < length rs" "i \<noteq> j" for i j
  proof -
    have "rs ! i \<noteq> rs ! j" "i \<noteq> way \<Longrightarrow> rs ! i \<noteq> rs ! way" "j \<noteq> way \<Longrightarrow> rs ! j \<noteq> rs ! way"
      using that nth_eq_iff_index_eq [OF assms(1)] assms(2) by auto
    then show ?thesis using that by (auto simp: promote_nth)
  qed
  then show ?thesis by (simp add: distinct_conv_nth)
qed

lemma promote_set:
  assumes "distinct rs" "way < length rs" "set rs = {0..<n}"
  shows "set (promote way rs) = {0..<n}"
proof -
  have n: "length rs = n" using distinct_card [OF assms(1)] assms(3) by simp
  have "promote way rs ! k < n" if "k < length rs" for k
    using that assms(2,3) nth_mem [of k rs] nth_mem [of way rs] by (auto simp: promote_nth)
  then have "set (promote way rs) \<subseteq> {0..<n}" by (auto simp: in_set_conv_nth)
  moreover have "card (set (promote way rs)) = n"
    using distinct_card [OF promote_distinct [OF assms(1,2)]] n by simp
  ultimately show ?thesis using card_subset_eq [of "{0..<n}"] by simp
qed

lemma lru_update_wf:
  assumes "lru_wf NUM_WAY bs" "way < length bs"
  shows "\<exists>bs'. lru_update NUM_WAY way bs = Inr bs' \<and> lru_wf NUM_WAY bs' \<and>
    ranks bs' = promote way (ranks bs) \<and> length bs' = length bs \<and>
    (\<forall>k<length bs. bs' ! k = (bs ! k)\<lparr>b_lru := b_lru (bs' ! k)\<rparr>)"
proof -
  have len: "length bs = unat NUM_WAY" using assms(1) by (simp add: lru_wf_def)
  obtain bs' where bs': "lru_update NUM_WAY way bs = Inr bs'" "length bs' = length bs"
    "ranks bs' = promote way (ranks bs)" "\<forall>k<length bs. bs' ! k = (bs ! k)\<lparr>b_lru := b_lru (bs' ! k)\<rparr>"
    using lru_update_ranks [OF assms(2) len] by blast
  have "lru_wf NUM_WAY bs'"
    using assms bs'(2,3) promote_distinct [of "ranks bs" way] promote_set [of "ranks bs" way "unat NUM_WAY"]
    by (simp add: lru_wf_def)
  then show ?thesis using bs' by blast
qed

section \<open>The victim\<close>

lemma rank_exists:
  assumes "lru_wf NUM_WAY bs" "r < unat NUM_WAY"
  shows "\<exists>way<length bs. unat (b_lru (bs ! way)) = r"
proof -
  have "r \<in> set (ranks bs)" using assms by (simp add: lru_wf_def)
  then show ?thesis by (auto simp: ranks_def in_set_conv_nth)
qed

lemma rank_last_iff:
  assumes "0 < NUM_WAY"
  shows "b_lru b = NUM_WAY - 1 \<longleftrightarrow> unat (b_lru b) = unat NUM_WAY - 1"
  using assms by (metis unat_minus_one word_neq_0_conv word_unat_eq_iff)

lemma lru_victim_spec:
  assumes "lru_wf NUM_WAY bs"
  shows "\<exists>way<length bs. lru_victim NUM_WAY bs = Inr way \<and>
    (b_valid (bs ! way) = 0 \<or> (\<forall>b\<in>set bs. b_valid b \<noteq> 0) \<and> ranks bs ! way = length bs - 1)"
proof (cases "find (\<lambda>way. b_valid (bs ! way) = 0) [0..<unat NUM_WAY]")
  case (Some way)
  then have "way < length bs" "b_valid (bs ! way) = 0" using assms by (auto simp: lru_wf_def find_upt_Some)
  then show ?thesis using Some by (auto simp: lru_victim_def)
next
  case None
  have wf: "0 < NUM_WAY" "length bs = unat NUM_WAY" using assms by (auto simp: lru_wf_def)
  then have "0 < unat NUM_WAY" using word_less_nat_alt [of 0 NUM_WAY] by simp
  then obtain w where w: "w < unat NUM_WAY" "b_lru (bs ! w) = NUM_WAY - 1"
    using rank_exists [OF assms, of "unat NUM_WAY - 1"] rank_last_iff [OF wf(1)] wf(2) by auto
  then obtain way where way: "find (\<lambda>way. b_lru (bs ! way) = NUM_WAY - 1) [0..<unat NUM_WAY] = Some way"
    by (cases "find (\<lambda>way. b_lru (bs ! way) = NUM_WAY - 1) [0..<unat NUM_WAY]") (auto simp: find_None_iff)
  then have "way < length bs" "b_lru (bs ! way) = NUM_WAY - 1" using wf(2) by (auto simp: find_upt_Some)
  moreover from this have "ranks bs ! way = length bs - 1"
    using wf(2) rank_last_iff [OF wf(1), of "bs ! way"] by (simp add: ranks_def)
  moreover have "\<forall>b\<in>set bs. b_valid b \<noteq> 0"
    using None wf by (auto simp: find_None_iff in_set_conv_nth)
  ultimately show ?thesis using None way by (auto simp: lru_victim_def)
qed

section \<open>Recency order\<close>

text \<open>
  The abstract policy keeps the ways in a list, the most recently used first, and moves an
  accessed way to the front. \<open>recency rs xs\<close> relates it to the ranks.
\<close>

definition recency :: "nat list \<Rightarrow> nat list \<Rightarrow> bool" where
  "recency rs xs \<longleftrightarrow> distinct xs \<and> set xs = {0..<length rs} \<and> length xs = length rs \<and>
     (\<forall>r<length rs. rs ! (xs ! r) = r)"

definition move_to_front :: "nat \<Rightarrow> nat list \<Rightarrow> nat list" where
  "move_to_front w xs = w # remove1 w xs"

lemma remove1_nth:
  assumes "distinct xs" "p < length xs"
  shows "remove1 (xs ! p) xs = take p xs @ drop (Suc p) xs"
  using assms by (induction xs arbitrary: p) (auto simp: nth_Cons' take_Cons' dest: nth_mem)

lemma recencyD:
  assumes "recency rs xs"
  shows "distinct xs" "set xs = {0..<length rs}" "length xs = length rs"
    "r < length rs \<Longrightarrow> rs ! (xs ! r) = r" "w < length rs \<Longrightarrow> \<exists>p<length rs. xs ! p = w"
proof -
  show "w < length rs \<Longrightarrow> \<exists>p<length rs. xs ! p = w"
    using assms in_set_conv_nth [of w xs] by (simp add: recency_def)
qed (use assms in \<open>simp_all add: recency_def\<close>)

lemma move_to_front_split:
  "distinct xs \<Longrightarrow> p < length xs \<Longrightarrow> move_to_front (xs ! p) xs = xs ! p # take p xs @ drop (Suc p) xs"
  by (simp add: move_to_front_def remove1_nth)

lemma move_to_front_nth:
  assumes "distinct xs" "p < length xs" "Suc k < length xs"
  shows "move_to_front (xs ! p) xs ! Suc k = xs ! (if k < p then k else Suc k)"
  using assms by (simp add: move_to_front_split nth_append)

lemma promote_order:
  assumes "recency rs xs" "p < length rs" "r < length rs"
  shows "promote (xs ! p) rs ! (move_to_front (xs ! p) xs ! r) = r"
proof -
  note rec = recencyD [OF assms(1)]
  have w: "xs ! p < length rs" using nth_mem [of p xs] rec(2,3) assms(2) by simp
  show ?thesis
  proof (cases r)
    case 0
    then show ?thesis using w by (simp add: move_to_front_def promote_nth)
  next
    case (Suc k)
    define j where "j = (if k < p then k else Suc k)"
    have j: "j < length rs" "j \<noteq> p" "(if j < p then j + 1 else j) = r"
      using assms(2,3) Suc by (auto simp: j_def)
    have "move_to_front (xs ! p) xs ! r = xs ! j"
      using move_to_front_nth [OF rec(1), of p k] Suc assms(2,3) rec(3) by (simp add: j_def)
    moreover have "xs ! j \<noteq> xs ! p" using j(1,2) rec(3) assms(2) by (simp add: nth_eq_iff_index_eq [OF rec(1)])
    moreover have "xs ! j < length rs" using nth_mem [of j xs] rec(2,3) j(1) by simp
    ultimately show ?thesis
      using rec(4) [OF j(1)] rec(4) [OF assms(2)] j(3) by (cases "j < p") (simp_all add: promote_nth)
  qed
qed

lemma recency_promote:
  assumes "recency rs xs" "w < length rs"
  shows "recency (promote w rs) (move_to_front w xs)"
proof -
  note rec = recencyD [OF assms(1)]
  obtain p where p: "p < length rs" "xs ! p = w" using rec(5) [OF assms(2)] by blast
  have "\<forall>r<length rs. promote w rs ! (move_to_front w xs ! r) = r"
    using promote_order [OF assms(1) p(1)] p(2) by blast
  moreover have "set (move_to_front w xs) = {0..<length rs}"
    using rec(1,2) assms(2) by (simp add: move_to_front_def insert_absorb)
  moreover have "distinct (move_to_front w xs)" using rec(1) by (simp add: move_to_front_def)
  moreover have "length (move_to_front w xs) = length rs"
    using assms(2) rec(2,3) by (simp add: move_to_front_def length_remove1)
  ultimately show ?thesis unfolding recency_def by simp
qed

lemma recency_last:
  assumes "recency rs xs" "rs ! way = length rs - 1" "way < length rs"
  shows "last xs = way"
proof -
  obtain p where p: "p < length xs" "xs ! p = way"
    using assms by (auto simp: recency_def) (metis atLeastLessThan_iff in_set_conv_nth le0)
  then have "p = length rs - 1" using assms by (auto simp: recency_def)
  then show ?thesis using p assms(1) by (metis last_conv_nth length_0_conv less_nat_zero_code recency_def)
qed

lemma recency_init: "recency [0..<n] [0..<n]"
  by (simp add: recency_def)

text \<open>A sequence of accesses to the ways of a set.\<close>

primrec access_ways :: "u32 \<Rightarrow> nat list \<Rightarrow> block list \<Rightarrow> block list res" where
  "access_ways NUM_WAY [] bs = Inr bs"
| "access_ways NUM_WAY (w # ws) bs = bind_res (lru_update NUM_WAY w bs) (access_ways NUM_WAY ws)"

lemma access_ways_recency:
  assumes "lru_wf NUM_WAY bs" "recency (ranks bs) xs" "\<forall>w\<in>set ws. w < length bs"
  shows "\<exists>bs'. access_ways NUM_WAY ws bs = Inr bs' \<and> lru_wf NUM_WAY bs' \<and> length bs' = length bs \<and>
    recency (ranks bs') (fold move_to_front ws xs) \<and> map b_valid bs' = map b_valid bs"
  using assms
proof (induction ws arbitrary: bs xs)
  case Nil
  then show ?case by simp
next
  case (Cons w ws)
  then obtain b1 where b1: "lru_update NUM_WAY w bs = Inr b1" "lru_wf NUM_WAY b1" "length b1 = length bs"
    "ranks b1 = promote w (ranks bs)" "\<forall>k<length bs. b1 ! k = (bs ! k)\<lparr>b_lru := b_lru (b1 ! k)\<rparr>"
    using lru_update_wf [of NUM_WAY bs w] by auto
  have "b_valid (b1 ! k) = b_valid (bs ! k)" if "k < length bs" for k
    using b1(5) that by (metis block.select_convs(1) block.surjective block.update_convs(15))
  then have "map b_valid b1 = map b_valid bs" using b1(3) by (intro nth_equalityI) auto
  moreover have "recency (ranks b1) (move_to_front w xs)"
    using b1(4) recency_promote [OF Cons.prems(2), of w] Cons.prems(3) by simp
  ultimately show ?case using Cons.IH [of b1 "move_to_front w xs"] b1 Cons.prems(3) by auto
qed

section \<open>The contract of a replacement policy\<close>

text \<open>
  What the fill path of a cache relies on: in a well-formed set a victim is always found,
  lies in the set and is an invalid way if there is one, and recording an access changes
  nothing but the replacement state and keeps the set well formed.
\<close>

definition same_contents :: "block list \<Rightarrow> block list \<Rightarrow> bool" where
  "same_contents bs bs' \<longleftrightarrow> map (\<lambda>b. b\<lparr>b_lru := 0\<rparr>) bs = map (\<lambda>b. b\<lparr>b_lru := 0\<rparr>) bs'"

lemma same_contents_refl [simp]: "same_contents bs bs"
  by (simp add: same_contents_def)

locale replacement_policy =
  fixes wf :: "block list \<Rightarrow> bool"
    and victim :: "block list \<Rightarrow> nat res"
    and touch :: "nat \<Rightarrow> block list \<Rightarrow> block list res"
  assumes victim_ok: "wf bs \<Longrightarrow> \<exists>w<length bs. victim bs = Inr w \<and>
      ((\<exists>b\<in>set bs. b_valid b = 0) \<longrightarrow> b_valid (bs ! w) = 0)"
    and touch_ok: "wf bs \<Longrightarrow> w < length bs \<Longrightarrow> \<exists>bs'. touch w bs = Inr bs' \<and> wf bs' \<and> same_contents bs bs'"
begin

lemma victim_then_touch:
  "wf bs \<Longrightarrow> \<exists>w bs'. bind_res (victim bs) (\<lambda>w. touch w bs) = Inr bs' \<and> victim bs = Inr w \<and>
     w < length bs \<and> wf bs' \<and> same_contents bs bs'"
  using victim_ok touch_ok by (metis bind_res_simps(2))

lemma evicts_valid_only_when_full:
  "wf bs \<Longrightarrow> victim bs = Inr w \<Longrightarrow> b_valid (bs ! w) \<noteq> 0 \<Longrightarrow> \<forall>b\<in>set bs. b_valid b \<noteq> 0"
  using victim_ok by (metis sum.inject(2))

end

lemma lru_policy_victim:
  assumes "lru_wf n bs"
  shows "\<exists>w<length bs. lru_victim n bs = Inr w \<and> ((\<exists>b\<in>set bs. b_valid b = 0) \<longrightarrow> b_valid (bs ! w) = 0)"
  using lru_victim_spec [OF assms] by blast

lemma lru_policy_touch:
  assumes "lru_wf n bs" "w < length bs"
  shows "\<exists>bs'. lru_update n w bs = Inr bs' \<and> lru_wf n bs' \<and> same_contents bs bs'"
proof -
  obtain bs' where bs': "lru_update n w bs = Inr bs'" "lru_wf n bs'" "length bs' = length bs"
    "\<forall>k<length bs. bs' ! k = (bs ! k)\<lparr>b_lru := b_lru (bs' ! k)\<rparr>"
    using lru_update_wf [OF assms] by blast
  have "(bs' ! k)\<lparr>b_lru := 0\<rparr> = (bs ! k)\<lparr>b_lru := 0\<rparr>" if "k < length bs" for k
  proof -
    have "((bs ! k)\<lparr>b_lru := b_lru (bs' ! k)\<rparr>)\<lparr>b_lru := 0\<rparr> = (bs ! k)\<lparr>b_lru := 0\<rparr>" by simp
    then show ?thesis using bs'(4) that by metis
  qed
  then have "same_contents bs bs'"
    unfolding same_contents_def using bs'(3) by (intro nth_equalityI) auto
  then show ?thesis using bs' by blast
qed

interpretation lru: replacement_policy "lru_wf n" "find_victim n" "\<lambda>w. update_replacement_state n w ty hit" for n ty hit
  by unfold_locales
    (auto simp: find_victim_def update_replacement_state_def lru_policy_victim lru_policy_touch)

interpretation llc: replacement_policy "lru_wf n" "llc_find_victim n"
  "\<lambda>w. llc_update_replacement_state n w 0 PREFETCH hit" for n hit
  by unfold_locales
    (auto simp: llc_find_victim_def llc_update_replacement_state_def lru_policy_victim lru_policy_touch
      PREFETCH_def WRITEBACK_def)

section \<open>Properties\<close>

text \<open>
  C22: Started on the recency ranks the constructor of a cache writes (way \<open>j\<close> has rank \<open>j\<close>)
  and after any sequence of accesses to the ways of a set, the ranks still are a
  permutation of \<open>0..NUM_WAY-1\<close>, and once every way is valid the victim is the way whose
  last access is the oldest: the last of the recency list kept by moving each accessed way
  to the front. The assertion for a missing victim is never reached.
\<close>

theorem lru_victim_is_least_recent:
  assumes "0 < NUM_WAY" "ranks bs = [0..<unat NUM_WAY]" "\<forall>w\<in>set ws. w < unat NUM_WAY"
    and "\<forall>b\<in>set bs. b_valid b \<noteq> 0"
  shows "\<exists>bs'. access_ways NUM_WAY ws bs = Inr bs' \<and> lru_wf NUM_WAY bs' \<and>
    lru_victim NUM_WAY bs' = Inr (last (fold move_to_front ws [0..<unat NUM_WAY]))"
proof -
  have len: "length bs = unat NUM_WAY" using arg_cong [OF assms(2), of length] by simp
  then have "lru_wf NUM_WAY bs" using assms(1,2) by (simp add: lru_wf_def)
  then obtain bs' where bs': "access_ways NUM_WAY ws bs = Inr bs'" "lru_wf NUM_WAY bs'" "length bs' = length bs"
    "recency (ranks bs') (fold move_to_front ws [0..<unat NUM_WAY])" "map b_valid bs' = map b_valid bs"
    using access_ways_recency [of NUM_WAY bs "[0..<unat NUM_WAY]" ws] assms(2,3) recency_init len by auto
  have "b_valid ` set bs' = b_valid ` set bs" using bs'(5) by (metis set_map)
  then have "\<forall>b\<in>set bs'. b_valid b \<noteq> 0" using assms(4) by (metis image_iff)
  then obtain way where "way < length bs'" "lru_victim NUM_WAY bs' = Inr way" "ranks bs' ! way = length bs' - 1"
    using lru_victim_spec [OF bs'(2)] by (metis nth_mem)
  then show ?thesis using bs' recency_last [OF bs'(4), of way] by simp
qed

theorem lru_victim_is_least_recent_witness:
  "\<exists>bs'. access_ways 3 [2, 0] (map (\<lambda>j. BLOCK_init\<lparr>b_valid := 1, b_lru := j\<rparr>) [0, 1, 2]) = Inr bs' \<and> lru_wf 3 bs' \<and>
    lru_victim 3 bs' = Inr (last (fold move_to_front [2, 0] [0..<unat (3::u32)]))"
  by (rule lru_victim_is_least_recent) (simp_all add: ranks_def BLOCK_init_def upt_rec)

text \<open>
  On every well-formed set the fill path finds a victim and can record the access, both
  at the LLC and at the other levels, for every access type: the step changes nothing but
  recency ranks, and a valid line is chosen only when the set has no invalid way.
\<close>

theorem fill_step_total:
  assumes "lru_wf NUM_WAY bs"
  shows "\<exists>w bs'. find_victim NUM_WAY bs = Inr w \<and> llc_find_victim NUM_WAY bs = Inr w \<and> w < length bs \<and>
    update_replacement_state NUM_WAY w ty hit bs = Inr bs' \<and> lru_wf NUM_WAY bs' \<and> same_contents bs bs' \<and>
    (b_valid (bs ! w) \<noteq> 0 \<longrightarrow> (\<forall>b\<in>set bs. b_valid b \<noteq> 0))"
proof -
  obtain w bs' where "bind_res (find_victim NUM_WAY bs) (\<lambda>w. update_replacement_state NUM_WAY w ty hit bs) = Inr bs'"
    "find_victim NUM_WAY bs = Inr w" "w < length bs" "lru_wf NUM_WAY bs'" "same_contents bs bs'"
    using lru.victim_then_touch [OF assms, of ty hit] by blast
  moreover from this have "b_valid (bs ! w) \<noteq> 0 \<longrightarrow> (\<forall>b\<in>set bs. b_valid b \<noteq> 0)"
    using lru.evicts_valid_only_when_full [OF assms, of w] by blast
  ultimately show ?thesis by (simp add: find_victim_def llc_find_victim_def)
qed

theorem fill_step_total_witness:
  "\<exists>w bs'. find_victim 2 [BLOCK_init, BLOCK_init\<lparr>b_lru := 1\<rparr>] = Inr w \<and>
    llc_find_victim 2 [BLOCK_init, BLOCK_init\<lparr>b_lru := 1\<rparr>] = Inr w \<and> w < length [BLOCK_init, BLOCK_init\<lparr>b_lru := 1\<rparr>] \<and>
    update_replacement_state 2 w LOAD False [BLOCK_init, BLOCK_init\<lparr>b_lru := 1\<rparr>] = Inr bs' \<and> lru_wf 2 bs' \<and>
    same_contents [BLOCK_init, BLOCK_init\<lparr>b_lru := 1\<rparr>] bs' \<and>
    (b_valid ([BLOCK_init, BLOCK_init\<lparr>b_lru := 1\<rparr>] ! w) \<noteq> 0 \<longrightarrow>
       (\<forall>b\<in>set [BLOCK_init, BLOCK_init\<lparr>b_lru := 1\<rparr>]. b_valid b \<noteq> 0))"
  by (rule fill_step_total) (auto simp: lru_wf_def ranks_def BLOCK_init_def)

end
