(* ===== verification/Bimodal.thy ===== *)
theory Bimodal
  imports Prelude
begin

text \<open>
  The branch direction predictor \<^verbatim>\<open>branch/branch_predictor.cc\<close>: a table of two-bit
  saturating counters indexed by the instruction pointer modulo a prime. Shown: the
  table implements one saturating counter per residue class, whatever the interleaving of
  branches, and no counter leaves 0..3 (so the C \<^verbatim>\<open>int\<close> never overflows and is an \<^typ>\<open>int\<close>
  here).
\<close>

section \<open>The predictor\<close>

definition BIMODAL_TABLE_SIZE :: nat where "BIMODAL_TABLE_SIZE = 16384"
definition BIMODAL_PRIME :: u64 where "BIMODAL_PRIME = 16381"
definition MAX_COUNTER :: int where "MAX_COUNTER = 3"

definition initialize_branch_predictor :: "int list" where
  "initialize_branch_predictor = replicate BIMODAL_TABLE_SIZE 0"

definition bimodal_hash :: "u64 \<Rightarrow> u32" where
  "bimodal_hash ip = ucast (ip mod BIMODAL_PRIME)"

definition predict_branch :: "int list \<Rightarrow> u64 \<Rightarrow> u8 res" where
  "predict_branch tab ip =
     (let h = unat (bimodal_hash ip) in
      if \<not> h < length tab then Inl Out_of_bounds
      else Inr (if tab ! h \<ge> (MAX_COUNTER + 1) div 2 then 1 else 0))"

definition last_branch_result :: "u64 \<Rightarrow> u8 \<Rightarrow> int list \<Rightarrow> int list res" where
  "last_branch_result ip taken tab =
     (let h = unat (bimodal_hash ip) in
      if \<not> h < length tab then Inl Out_of_bounds
      else if taken \<noteq> 0 \<and> tab ! h < MAX_COUNTER then Inr (tab[h := tab ! h + 1])
      else if taken = 0 \<and> tab ! h > 0 then Inr (tab[h := tab ! h - 1])
      else Inr tab)"

text \<open>The predictor trained on a history of branches, oldest first.\<close>

primrec train_branches :: "(u64 \<times> u8) list \<Rightarrow> int list \<Rightarrow> int list res" where
  "train_branches [] tab = Inr tab"
| "train_branches (b # bs) tab = bind_res (last_branch_result (fst b) (snd b) tab) (train_branches bs)"

section \<open>Saturating counters\<close>

definition sat_step :: "bool \<Rightarrow> int \<Rightarrow> int" where
  "sat_step taken c = (if taken then min 3 (c + 1) else max 0 (c - 1))"

definition sat_count :: "(u64 \<times> u8) list \<Rightarrow> u64 \<Rightarrow> int \<Rightarrow> int" where
  "sat_count hist ip c =
     fold (\<lambda>b. sat_step (snd b \<noteq> 0)) (filter (\<lambda>b. bimodal_hash (fst b) = bimodal_hash ip) hist) c"

definition bimodal_wf :: "int list \<Rightarrow> bool" where
  "bimodal_wf tab \<longleftrightarrow> length tab = BIMODAL_TABLE_SIZE \<and> list_all (\<lambda>c. 0 \<le> c \<and> c \<le> 3) tab"

lemma bimodal_index: "unat (bimodal_hash ip) < BIMODAL_TABLE_SIZE"
proof -
  have "unat (ip mod BIMODAL_PRIME) < 16381" by (simp add: BIMODAL_PRIME_def unat_mod_distrib)
  then have "unat (bimodal_hash ip) < 16381" by (simp add: bimodal_hash_def unsigned_ucast_eq take_bit_nat_eq_self)
  then show ?thesis by (simp add: BIMODAL_TABLE_SIZE_def)
qed

lemma last_branch_result_spec:
  assumes "bimodal_wf tab"
  shows "last_branch_result ip taken tab =
    Inr (tab[unat (bimodal_hash ip) := sat_step (taken \<noteq> 0) (tab ! unat (bimodal_hash ip))])"
proof -
  let ?h = "unat (bimodal_hash ip)"
  have h: "?h < length tab" using bimodal_index assms by (simp add: bimodal_wf_def)
  then have "0 \<le> tab ! ?h" "tab ! ?h \<le> 3" using assms by (auto simp: bimodal_wf_def list_all_length)
  then show ?thesis using h
    by (auto simp: last_branch_result_def Let_def sat_step_def MAX_COUNTER_def) (metis list_update_id)+
qed

lemma bimodal_wf_step:
  assumes "bimodal_wf tab"
  shows "bimodal_wf (tab[unat (bimodal_hash ip) := sat_step t (tab ! unat (bimodal_hash ip))])"
proof -
  have "unat (bimodal_hash ip) < length tab" using bimodal_index assms by (simp add: bimodal_wf_def)
  then show ?thesis using assms
    by (auto simp: bimodal_wf_def list_all_length nth_list_update sat_step_def)
qed

lemma train_branches_spec:
  assumes "bimodal_wf tab"
  shows "\<exists>tab'. train_branches hist tab = Inr tab' \<and> bimodal_wf tab' \<and>
    (\<forall>ip. tab' ! unat (bimodal_hash ip) = sat_count hist ip (tab ! unat (bimodal_hash ip)))"
  using assms
proof (induction hist arbitrary: tab)
  case Nil
  then show ?case by (simp add: sat_count_def)
next
  case (Cons b hist)
  let ?h = "unat (bimodal_hash (fst b))"
  let ?tab = "tab[?h := sat_step (snd b \<noteq> 0) (tab ! ?h)]"
  have h: "?h < length tab" using bimodal_index Cons.prems by (simp add: bimodal_wf_def)
  have "?tab ! unat (bimodal_hash ip) =
      (if bimodal_hash (fst b) = bimodal_hash ip then sat_step (snd b \<noteq> 0) (tab ! unat (bimodal_hash ip))
       else tab ! unat (bimodal_hash ip))" for ip
    using h word_unat_eq_iff [of "bimodal_hash (fst b)" "bimodal_hash ip"] by auto
  moreover obtain tab' where "train_branches hist ?tab = Inr tab'" "bimodal_wf tab'"
    "\<forall>ip. tab' ! unat (bimodal_hash ip) = sat_count hist ip (?tab ! unat (bimodal_hash ip))"
    using Cons.IH [OF bimodal_wf_step [OF Cons.prems]] by blast
  ultimately show ?case
    using last_branch_result_spec [OF Cons.prems] by (auto simp: sat_count_def)
qed

lemma bimodal_wf_init: "bimodal_wf initialize_branch_predictor"
  by (simp add: bimodal_wf_def initialize_branch_predictor_def list_all_length)

section \<open>Properties\<close>

text \<open>
  C25: After any history of branches, no table access is out of range, every counter is in
  0..3, and the prediction for \<open>ip\<close> is taken exactly when the two-bit saturating counter
  run over the outcomes of the branches with the same hash is at least 2.
\<close>

theorem bimodal_refines_saturating_counters:
  "\<exists>tab. train_branches hist initialize_branch_predictor = Inr tab \<and> bimodal_wf tab \<and>
     predict_branch tab ip = Inr (if 2 \<le> sat_count hist ip 0 then 1 else 0)"
proof -
  obtain tab where tab: "train_branches hist initialize_branch_predictor = Inr tab" "bimodal_wf tab"
    "tab ! unat (bimodal_hash ip) = sat_count hist ip (initialize_branch_predictor ! unat (bimodal_hash ip))"
    using train_branches_spec [OF bimodal_wf_init] by blast
  moreover have "initialize_branch_predictor ! unat (bimodal_hash ip) = 0"
    using bimodal_index by (simp add: initialize_branch_predictor_def)
  ultimately show ?thesis
    using bimodal_index [of ip] by (auto simp: predict_branch_def Let_def bimodal_wf_def MAX_COUNTER_def)
qed

end
