(* ===== verification/Streamer.thy ===== *)
theory Streamer
  imports Prelude
begin

text \<open>
  The stream prefetcher \<^verbatim>\<open>prefetcher/streamer.cc\<close>, \<^verbatim>\<open>inc/streamer.h\<close>: a recency-ordered
  deque of page trackers, each with the last offset and the direction of the last step.
  Two steps in the same direction prefetch the following lines of the page.

  The deque of pointers is a list of trackers, front first; as every tracker is owned by
  one slot, an update through the pointer is an update of the list. The callers pass an empty
  vector for the addresses (\<^verbatim>\<open>prefetcher/multi.l2c_pref\<close> clears it after each prefetcher), so that
  its size after the call, which \<^verbatim>\<open>stats.pred.total\<close> adds up, is the number of lines of the call. Shown: the table
  invariant and the contract of a page-bounded prefetcher, and the exact addresses a
  detected stream prefetches.
\<close>

section \<open>State and step\<close>

record stream_tracker =
  st_page :: u64
  st_last_offset :: u32
  st_last_dir :: i32
  st_conf :: u8

definition Stream_Tracker :: "u64 \<Rightarrow> u32 \<Rightarrow> stream_tracker" where
  "Stream_Tracker page off = \<lparr>st_page = page, st_last_offset = off, st_last_dir = 0, st_conf = 0\<rparr>"

record streamer_stats =
  st_called :: u64
  st_tracker_missed :: u64
  st_tracker_evict :: u64
  st_tracker_insert :: u64
  st_tracker_hit :: u64
  st_tracker_same_offset :: u64
  st_tracker_dir_match :: u64
  st_tracker_dir_mismatch :: u64
  st_pred_dir_match :: u64
  st_pred_total :: u64

record streamer =
  st_trackers :: "stream_tracker list"
  st_stats :: streamer_stats

record streamer_knobs =
  streamer_num_trackers :: u32
  streamer_pref_degree :: u32

definition Streamer_init :: streamer where
  "Streamer_init = \<lparr>st_trackers = [], st_stats = \<lparr>st_called = 0, st_tracker_missed = 0, st_tracker_evict = 0,
     st_tracker_insert = 0, st_tracker_hit = 0, st_tracker_same_offset = 0, st_tracker_dir_match = 0,
     st_tracker_dir_mismatch = 0, st_pred_dir_match = 0, st_pred_total = 0\<rparr>\<rparr>"

text \<open>The prefetch loop: \<open>n\<close> iterations are left, \<open>off\<close> is \<^verbatim>\<open>pref_offset\<close>.\<close>

primrec stream_loop :: "nat \<Rightarrow> i32 \<Rightarrow> u64 \<Rightarrow> i32 \<Rightarrow> u64 list" where
  "stream_loop 0 dir page off = []"
| "stream_loop (Suc n) dir page off =
     (let off = (if dir = 1 then off + 1 else off - 1) in
      if in_page_offset off then line_address page off # stream_loop n dir page off else [])"

definition streamer_invoke :: "streamer_knobs \<Rightarrow> streamer prefetcher" where
  "streamer_invoke k s pc addr =
     (let page = page_of addr;
          off = page_offset addr;
          ts = st_trackers s;
          sts = (st_stats s)\<lparr>st_called := st_called (st_stats s) + 1\<rparr>
      in case find (\<lambda>t. st_page t = page) ts of
        None \<Rightarrow>
          (let sts = sts\<lparr>st_tracker_missed := st_tracker_missed sts + 1\<rparr>;
               full = (unat (streamer_num_trackers k) \<le> length ts)
           in if full \<and> ts = [] then Inl Out_of_bounds
              else
                let ts = (if full then tl ts else ts);
                    sts = (if full then sts\<lparr>st_tracker_evict := st_tracker_evict sts + 1\<rparr> else sts)
                in Inr (\<lparr>st_trackers = ts @ [Stream_Tracker page off],
                         st_stats = sts\<lparr>st_tracker_insert := st_tracker_insert sts + 1\<rparr>\<rparr>, []))
      | Some t \<Rightarrow>
          if st_page t \<noteq> page then Inl Assert_failed
          else
            let sts = sts\<lparr>st_tracker_hit := st_tracker_hit sts + 1\<rparr> in
            if off = st_last_offset t then
              Inr (\<lparr>st_trackers = ts, st_stats = sts\<lparr>st_tracker_same_offset := st_tracker_same_offset sts + 1\<rparr>\<rparr>, [])
            else
              let dir = (if off > st_last_offset t then 1 else - 1);
                  dir_match = (dir = st_last_dir t);
                  sts = (if dir_match then sts\<lparr>st_tracker_dir_match := st_tracker_dir_match sts + 1\<rparr>
                         else sts\<lparr>st_tracker_dir_mismatch := st_tracker_dir_mismatch sts + 1\<rparr>);
                  t = t\<lparr>st_conf := (if dir_match then 1 else 0), st_page := page,
                         st_last_offset := off, st_last_dir := dir\<rparr>;
                  ts = erase_first (\<lambda>t. st_page t = page) ts @ [t];
                  out = (if dir_match then stream_loop (unat (streamer_pref_degree k)) dir page off else []);
                  sts = (if dir_match then sts\<lparr>st_pred_dir_match := st_pred_dir_match sts + 1\<rparr> else sts)
              in Inr (\<lparr>st_trackers = ts, st_stats = sts\<lparr>st_pred_total := st_pred_total sts + of_nat (length out)\<rparr>\<rparr>, out))"

section \<open>Invariant\<close>

definition tracker_ok :: "stream_tracker \<Rightarrow> bool" where
  "tracker_ok t \<longleftrightarrow> st_last_offset t < 64 \<and> st_last_dir t \<in> {- 1, 0, 1}"

definition streamer_wf :: "streamer_knobs \<Rightarrow> streamer \<Rightarrow> bool" where
  "streamer_wf k s \<longleftrightarrow> 0 < streamer_num_trackers k \<and>
     length (st_trackers s) \<le> unat (streamer_num_trackers k) \<and>
     distinct (map st_page (st_trackers s)) \<and> list_all tracker_ok (st_trackers s)"

lemma streamer_wf_init: "0 < streamer_num_trackers k \<Longrightarrow> streamer_wf k Streamer_init"
  by (simp add: streamer_wf_def Streamer_init_def)

lemma stream_loop_good: "list_all (good_prefetch a) (stream_loop n dir (page_of a) off)"
  by (induction n arbitrary: off) (auto simp: Let_def page_simps)

lemma length_stream_loop: "length (stream_loop n dir page off) \<le> n"
  by (induction n arbitrary: off) (auto simp: Let_def)

text \<open>A call on a page without a tracker.\<close>

lemma streamer_miss:
  assumes "streamer_wf k s" "find (\<lambda>t. st_page t = page_of a) (st_trackers s) = None"
  shows "\<exists>sts. streamer_invoke k s pc a =
    Inr (\<lparr>st_trackers = (if unat (streamer_num_trackers k) \<le> length (st_trackers s) then tl (st_trackers s)
            else st_trackers s) @ [Stream_Tracker (page_of a) (page_offset a)], st_stats = sts\<rparr>, [])"
proof -
  have "0 < unat (streamer_num_trackers k)" using assms(1) by (simp add: streamer_wf_def unat_pos)
  then have "\<not> (unat (streamer_num_trackers k) \<le> length (st_trackers s) \<and> st_trackers s = [])" by auto
  then show ?thesis using assms(2) by (simp only: streamer_invoke_def Let_def option.case if_False) blast
qed

text \<open>A call on a tracked page: its output and the tracker moved to the back.\<close>

definition step_dir :: "u32 \<Rightarrow> u32 \<Rightarrow> i32" where
  "step_dir prev off = (if off > prev then 1 else - 1)"

lemma streamer_hit:
  assumes "find (\<lambda>t. st_page t = page_of a) (st_trackers s) = Some t"
  shows "\<exists>sts. streamer_invoke k s pc a =
    (if page_offset a = st_last_offset t then Inr (\<lparr>st_trackers = st_trackers s, st_stats = sts\<rparr>, [])
     else
       let dir = step_dir (st_last_offset t) (page_offset a) in
       Inr (\<lparr>st_trackers = erase_first (\<lambda>t. st_page t = page_of a) (st_trackers s) @
               [\<lparr>st_page = page_of a, st_last_offset = page_offset a, st_last_dir = dir,
                 st_conf = (if dir = st_last_dir t then 1 else 0)\<rparr>], st_stats = sts\<rparr>,
            if dir = st_last_dir t
            then stream_loop (unat (streamer_pref_degree k)) dir (page_of a) (page_offset a) else []))"
proof -
  have "st_page t = page_of a" using find_SomeD [OF assms] by blast
  then show ?thesis using assms by (simp add: streamer_invoke_def Let_def step_dir_def)
qed

lemma streamer_wf_miss:
  assumes "streamer_wf k s" "find (\<lambda>t. st_page t = page_of a) (st_trackers s) = None"
  shows "streamer_wf k (\<lparr>st_trackers = (if unat (streamer_num_trackers k) \<le> length (st_trackers s)
    then tl (st_trackers s) else st_trackers s) @ [Stream_Tracker (page_of a) (page_offset a)], st_stats = sts\<rparr>)"
proof -
  let ?ts = "if unat (streamer_num_trackers k) \<le> length (st_trackers s) then tl (st_trackers s) else st_trackers s"
  have "0 < unat (streamer_num_trackers k)" using assms(1) by (simp add: streamer_wf_def unat_pos)
  then have "length ?ts < unat (streamer_num_trackers k)" using assms(1) by (auto simp: streamer_wf_def)
  moreover have "set ?ts \<subseteq> set (st_trackers s)" by (simp add: list.set_sel(2) subsetI set_tl_subset)
  moreover have "distinct (map st_page ?ts)"
    using assms(1) by (simp add: streamer_wf_def distinct_tl map_tl)
  moreover have "page_of a \<notin> st_page ` set (st_trackers s)" using assms(2) by (simp add: find_None_key)
  ultimately show ?thesis
    using assms(1) unfolding streamer_wf_def list_all_iff
    by (auto simp: Stream_Tracker_def tracker_ok_def page_simps)
qed

lemma streamer_wf_hit:
  assumes "streamer_wf k s" "find (\<lambda>t. st_page t = page_of a) (st_trackers s) = Some t"
    and "st_page t' = page_of a" "tracker_ok t'"
  shows "streamer_wf k \<lparr>st_trackers = erase_first (\<lambda>t. st_page t = page_of a) (st_trackers s) @ [t'], st_stats = sts\<rparr>"
  using assms find_Some_erase_length [OF assms(2)]
    distinct_move_back [of st_page "st_trackers s" t' "page_of a"]
  by (auto simp: streamer_wf_def list_all_erase_first)

lemma streamer_invoke_ok:
  assumes "streamer_wf k s"
  shows "\<exists>s' out. streamer_invoke k s pc a = Inr (s', out) \<and> streamer_wf k s' \<and>
    list_all (good_prefetch a) out \<and> length out \<le> unat (streamer_pref_degree k)"
proof (cases "find (\<lambda>t. st_page t = page_of a) (st_trackers s)")
  case None
  then show ?thesis using streamer_miss [OF assms None, of pc] streamer_wf_miss [OF assms None] by auto
next
  case (Some t)
  have "streamer_wf k \<lparr>st_trackers = st_trackers s, st_stats = sts\<rparr>" for sts
    using assms by (simp add: streamer_wf_def)
  moreover have "tracker_ok \<lparr>st_page = page_of a, st_last_offset = page_offset a,
      st_last_dir = step_dir (st_last_offset t) (page_offset a), st_conf = c\<rparr>" for c
    by (simp add: tracker_ok_def step_dir_def page_simps)
  ultimately show ?thesis
    using streamer_hit [OF Some, of k pc] streamer_wf_hit [OF assms Some]
    by (auto simp: Let_def stream_loop_good length_stream_loop split: if_splits)
qed

interpretation streamer: page_prefetcher "streamer_invoke k" "streamer_wf k" "unat (streamer_pref_degree k)" for k
  by unfold_locales (use streamer_invoke_ok in \<open>metis Inr_Pair_inject\<close>)+

section \<open>The addresses of a stream\<close>

lemma next_offset: "j < 64 \<Longrightarrow> in_page_offset (of_nat j + 1) \<longleftrightarrow> j + 1 < 64"
  by (simp add: in_page_offset_iff word_less_nat_alt unat_word_ariths unat_of_nat)

lemma stream_loop_up:
  assumes "j < 64"
  shows "stream_loop n 1 page (of_nat j) = map (\<lambda>i. line_address page (of_nat i)) [j + 1..<min 64 (j + 1 + n)]"
  using assms
proof (induction n arbitrary: j)
  case 0
  then show ?case by simp
next
  case (Suc n)
  show ?case
  proof (cases "j + 1 < 64")
    case True
    then have "[j + 1..<min 64 (j + 1 + Suc n)] = (j + 1) # [j + 2..<min 64 (j + 2 + n)]"
      by (subst upt_conv_Cons) auto
    then show ?thesis using next_offset [OF Suc.prems] True Suc.IH [of "j + 1"] by (simp add: Let_def add.commute)
  next
    case False
    then show ?thesis using next_offset [OF Suc.prems] by (simp add: Let_def)
  qed
qed

lemma prev_offset: "j < 64 \<Longrightarrow> in_page_offset (of_nat j - 1) \<longleftrightarrow> 0 < j"
proof (cases j)
  case 0
  then show ?thesis by (simp add: in_page_offset_def)
next
  case (Suc i)
  moreover assume "j < 64"
  ultimately show ?thesis by (simp add: in_page_offset_iff word_less_nat_alt unat_of_nat)
qed

lemma stream_loop_down:
  assumes "j < 64"
  shows "stream_loop n (- 1) page (of_nat j) = map (\<lambda>i. line_address page (of_nat i)) (rev [j - n..<j])"
  using assms
proof (induction n arbitrary: j)
  case 0
  then show ?case by simp
next
  case (Suc n)
  show ?case
  proof (cases j)
    case 0
    then show ?thesis using prev_offset [OF Suc.prems] by (simp add: Let_def)
  next
    case (Suc i)
    then show ?thesis using prev_offset [OF Suc.prems] Suc.IH [of i] Suc.prems by (simp add: Let_def)
  qed
qed

text \<open>The lines a stream at offset \<open>j\<close> prefetches: up to \<open>n\<close> in its direction, inside the page.\<close>

definition stream_lines :: "nat \<Rightarrow> i32 \<Rightarrow> nat \<Rightarrow> nat list" where
  "stream_lines n dir j = (if dir = 1 then [j + 1..<min 64 (j + 1 + n)] else rev [j - n..<j])"

lemma stream_loop_lines:
  assumes "off < 64" "dir = 1 \<or> dir = - 1"
  shows "stream_loop n dir page off = map (\<lambda>i. line_address page (of_nat i)) (stream_lines n dir (unat off))"
proof -
  have j: "unat off < 64" using assms(1) by (simp add: word_less_nat_alt)
  show ?thesis
    using assms(2) stream_loop_up [OF j, of n page] stream_loop_down [OF j, of n page] by (auto simp: stream_lines_def)
qed

section \<open>Properties\<close>

text \<open>
  Every run of the streamer from an empty table, with at least one tracker configured,
  completes; each demand access triggers at most \<^verbatim>\<open>streamer_pref_degree\<close> prefetches, all of
  them aligned to cache lines of the page of that access; the table never exceeds the
  configured number of trackers and never holds a page twice.
\<close>

theorem streamer_run_safe:
  assumes "0 < streamer_num_trackers k"
  shows "\<exists>s outs. prefetcher_run (streamer_invoke k) Streamer_init as = Inr (s, outs) \<and> streamer_wf k s \<and>
    bounded_outputs (unat (streamer_pref_degree k)) as outs"
  using streamer.run_ok [OF streamer_wf_init [OF assms], of as] .

theorem streamer_run_safe_witness:
  "\<exists>s outs. prefetcher_run (streamer_invoke \<lparr>streamer_num_trackers = 2, streamer_pref_degree = 3\<rparr>) Streamer_init
      [(0, 4096), (0, 4160), (0, 4224)] = Inr (s, outs) \<and>
    streamer_wf \<lparr>streamer_num_trackers = 2, streamer_pref_degree = 3\<rparr> s \<and>
    bounded_outputs (unat (streamer_pref_degree \<lparr>streamer_num_trackers = 2, streamer_pref_degree = 3\<rparr>))
      [(0, 4096), (0, 4160), (0, 4224)] outs"
  by (rule streamer_run_safe) simp

text \<open>
  Stream detection. On a page without a tracker, three accesses that step twice in the
  same direction prefetch nothing on the first two and, on the third, exactly the next
  \<^verbatim>\<open>streamer_pref_degree\<close> lines in that direction, cut at the page boundary, nearest first.
\<close>

theorem streamer_detects_stream:
  assumes "streamer_wf k s" "find (\<lambda>t. st_page t = page_of a1) (st_trackers s) = None"
    and "page_of a2 = page_of a1" "page_of a3 = page_of a1"
    and "page_offset a1 < page_offset a2 \<and> page_offset a2 < page_offset a3 \<and> dir = 1 \<or>
         page_offset a1 > page_offset a2 \<and> page_offset a2 > page_offset a3 \<and> dir = - 1"
  shows "\<exists>s'. prefetcher_run (streamer_invoke k) s [(p1, a1), (p2, a2), (p3, a3)] = Inr (s', [[], [],
    map (\<lambda>i. line_address (page_of a1) (of_nat i))
      (stream_lines (unat (streamer_pref_degree k)) dir (unat (page_offset a3)))])"
proof -
  let ?p = "page_of a1" and ?P = "\<lambda>t. st_page t = page_of a1"
  define ts where "ts = (if unat (streamer_num_trackers k) \<le> length (st_trackers s) then tl (st_trackers s) else st_trackers s)"
  obtain s1 where s1: "streamer_invoke k s p1 a1 = Inr (s1, [])" "streamer_wf k s1"
    and ts1: "st_trackers s1 = ts @ [Stream_Tracker ?p (page_offset a1)]"
    using streamer_miss [OF assms(1,2), of p1] streamer_wf_miss [OF assms(1,2)] by (auto simp: ts_def)
  have "set ts \<subseteq> set (st_trackers s)" by (auto simp: ts_def dest: set_tl_subset [THEN subsetD])
  then have "find ?P ts = None" using assms(2) by (auto simp: find_None_iff)
  then have f1: "find ?P (st_trackers s1) = Some (Stream_Tracker ?p (page_offset a1))"
    unfolding ts1 by (simp add: find_append_key Stream_Tracker_def)
  have d: "dir = step_dir (page_offset a1) (page_offset a2)" "dir = step_dir (page_offset a2) (page_offset a3)"
    "page_offset a2 \<noteq> page_offset a1" "page_offset a3 \<noteq> page_offset a2" "dir \<noteq> 0" "dir = 1 \<or> dir = - 1"
    using assms(5) by (auto simp: step_dir_def)
  let ?t2 = "\<lparr>st_page = ?p, st_last_offset = page_offset a2, st_last_dir = dir, st_conf = 0\<rparr>"
  obtain s2 where s2: "streamer_invoke k s1 p2 a2 = Inr (s2, [])"
    "st_trackers s2 = erase_first ?P (st_trackers s1) @ [?t2]"
    using streamer_hit [of a2 s1 "Stream_Tracker ?p (page_offset a1)" k p2] f1 d assms(3)
    by (auto simp: Let_def Stream_Tracker_def)
  have "distinct (map st_page (st_trackers s1))" using s1(2) by (simp add: streamer_wf_def)
  then have f2: "find ?P (st_trackers s2) = Some ?t2" unfolding s2(2) by (rule find_moved_back) simp
  obtain s3 where "streamer_invoke k s2 p3 a3 = Inr (s3, stream_loop (unat (streamer_pref_degree k)) dir ?p (page_offset a3))"
    using streamer_hit [of a3 s2 ?t2 k p3] f2 d assms(4) by (auto simp: Let_def)
  then show ?thesis using s1(1) s2(1) stream_loop_lines [OF page_offset_less d(6)] by simp
qed

theorem streamer_detects_stream_witness:
  "\<exists>s'. prefetcher_run (streamer_invoke \<lparr>streamer_num_trackers = 2, streamer_pref_degree = 3\<rparr>) Streamer_init
      [(7, 4096), (7, 4160), (7, 4224)] = Inr (s', [[], [],
    map (\<lambda>i. line_address (page_of 4096) (of_nat i))
      (stream_lines (unat (streamer_pref_degree \<lparr>streamer_num_trackers = 2, streamer_pref_degree = 3\<rparr>)) 1
         (unat (page_offset 4224)))])"
  by (rule streamer_detects_stream)
    (simp_all add: streamer_wf_def Streamer_init_def page_of_def page_offset_def)

end
