(* ===== verification/Stride.thy ===== *)
theory Stride
  imports Prelude
begin

text \<open>
  The stride prefetcher \<^verbatim>\<open>prefetcher/stride.cc\<close>, \<^verbatim>\<open>inc/stride.h\<close>: trackers per
  instruction pointer, most recently used first, each with the last cache line and the
  last stride. A repeated stride prefetches along it inside the page.

  The constructor does not call \<^verbatim>\<open>init_stats\<close>, so the initial counters are an argument.
  \<^verbatim>\<open>stride\<close> is an \<^verbatim>\<open>int32_t\<close> assigned from a 64-bit difference, which truncates. Shown: the
  contract of a page-bounded prefetcher, and the lines a constant stride prefetches,
  written with unbounded integers.
\<close>

section \<open>State and step\<close>

record stride_tracker =
  sd_pc :: u64
  sd_last_cl_addr :: u64
  sd_last_stride :: i64

record stride_stats =
  sd_lookup :: u64
  sd_evict :: u64
  sd_insert :: u64
  sd_hit :: u64
  sd_pos :: u64
  sd_neg :: u64
  sd_zero :: u64
  sd_stride_match :: u64
  sd_generated :: u64

record stride =
  sd_trackers :: "stride_tracker list"
  sd_stats :: stride_stats

record stride_knobs =
  stride_num_trackers :: u32
  stride_pref_degree :: u32

definition StridePrefetcher_init :: "stride_stats \<Rightarrow> stride" where
  "StridePrefetcher_init sts = \<lparr>sd_trackers = [], sd_stats = sts\<rparr>"

text \<open>
  \<^verbatim>\<open>generate_prefetch\<close>: \<open>n\<close> iterations are left, \<open>deg\<close> is the loop variable. The product and
  the sum are unsigned 32-bit, read back as \<^verbatim>\<open>int32_t\<close>.
\<close>

primrec stride_loop :: "nat \<Rightarrow> u32 \<Rightarrow> u64 \<Rightarrow> u32 \<Rightarrow> i32 \<Rightarrow> u64 list" where
  "stride_loop 0 deg page off strd = []"
| "stride_loop (Suc n) deg page off strd =
     (let pref_offset = off + strd * deg in
      if in_page_offset pref_offset
      then line_address page pref_offset # stride_loop n (deg + 1) page off strd else [])"

definition generate_prefetch :: "stride_knobs \<Rightarrow> u64 \<Rightarrow> i32 \<Rightarrow> u64 list res" where
  "generate_prefetch k addr strd =
     (let out = stride_loop (unat (stride_pref_degree k)) 0 (page_of addr) (page_offset addr) strd
      in if length out \<le> unat (stride_pref_degree k) then Inr out else Inl Assert_failed)"

definition line_stride :: "u64 \<Rightarrow> u64 \<Rightarrow> i32" where
  "line_stride prev cl_addr =
     (if cl_addr > prev then ucast (cl_addr - prev)
      else if cl_addr < prev then ucast (prev - cl_addr) * (- 1) else 0)"

definition stride_invoke :: "stride_knobs \<Rightarrow> stride prefetcher" where
  "stride_invoke k s pc addr =
     (let cl_addr = cache_line addr;
          ts = sd_trackers s;
          sts = (sd_stats s)\<lparr>sd_lookup := sd_lookup (sd_stats s) + 1\<rparr>
      in case find (\<lambda>t. sd_pc t = pc) ts of
        None \<Rightarrow>
          (let full = (unat (stride_num_trackers k) \<le> length ts) in
           if full \<and> ts = [] then Inl Out_of_bounds
           else
             let ts = (if full then butlast ts else ts);
                 sts = (if full then sts\<lparr>sd_evict := sd_evict sts + 1\<rparr> else sts);
                 t = \<lparr>sd_pc = pc, sd_last_cl_addr = cl_addr, sd_last_stride = 0\<rparr>
             in Inr (\<lparr>sd_trackers = t # ts, sd_stats = sts\<lparr>sd_insert := sd_insert sts + 1\<rparr>\<rparr>, []))
      | Some t \<Rightarrow>
          let sts = sts\<lparr>sd_hit := sd_hit sts + 1\<rparr>;
              strd = line_stride (sd_last_cl_addr t) cl_addr;
              sts = (if cl_addr > sd_last_cl_addr t then sts\<lparr>sd_pos := sd_pos sts + 1\<rparr>
                     else if cl_addr < sd_last_cl_addr t then sts\<lparr>sd_neg := sd_neg sts + 1\<rparr> else sts)
          in if strd = 0 then Inr (\<lparr>sd_trackers = ts, sd_stats = sts\<lparr>sd_zero := sd_zero sts + 1\<rparr>\<rparr>, [])
             else
               bind_res
                 (if scast strd = sd_last_stride t
                  then bind_res (generate_prefetch k addr strd)
                         (\<lambda>out. let sts = sts\<lparr>sd_stride_match := sd_stride_match sts + 1\<rparr>
                                in Inr (sts\<lparr>sd_generated := sd_generated sts + of_nat (length out)\<rparr>, out))
                  else Inr (sts, []))
                 (\<lambda>(sts, out).
                    let t = t\<lparr>sd_last_stride := scast strd, sd_last_cl_addr := cl_addr\<rparr>
                    in Inr (\<lparr>sd_trackers = t # erase_first (\<lambda>t. sd_pc t = pc) ts, sd_stats = sts\<rparr>, out)))"

section \<open>Invariant\<close>

definition stride_wf :: "stride_knobs \<Rightarrow> stride \<Rightarrow> bool" where
  "stride_wf k s \<longleftrightarrow> 0 < stride_num_trackers k \<and>
     length (sd_trackers s) \<le> unat (stride_num_trackers k) \<and> distinct (map sd_pc (sd_trackers s))"

lemma stride_wf_init: "0 < stride_num_trackers k \<Longrightarrow> stride_wf k (StridePrefetcher_init sts)"
  by (simp add: stride_wf_def StridePrefetcher_init_def)

lemma stride_loop_good: "list_all (good_prefetch a) (stride_loop n deg (page_of a) off strd)"
  by (induction n arbitrary: deg) (auto simp: Let_def page_simps)

lemma length_stride_loop: "length (stride_loop n deg page off strd) \<le> n"
  by (induction n arbitrary: deg) (auto simp: Let_def)

lemma generate_prefetch_eq:
  "generate_prefetch k a strd =
     Inr (stride_loop (unat (stride_pref_degree k)) 0 (page_of a) (page_offset a) strd)"
  by (simp add: generate_prefetch_def Let_def length_stride_loop)

lemma stride_miss:
  assumes "stride_wf k s" "find (\<lambda>t. sd_pc t = pc) (sd_trackers s) = None"
  shows "\<exists>sts. stride_invoke k s pc a =
    Inr (\<lparr>sd_trackers = \<lparr>sd_pc = pc, sd_last_cl_addr = cache_line a, sd_last_stride = 0\<rparr> #
      (if unat (stride_num_trackers k) \<le> length (sd_trackers s) then butlast (sd_trackers s) else sd_trackers s),
      sd_stats = sts\<rparr>, [])"
proof -
  have "0 < unat (stride_num_trackers k)" using assms(1) by (simp add: stride_wf_def unat_pos)
  then have "\<not> (unat (stride_num_trackers k) \<le> length (sd_trackers s) \<and> sd_trackers s = [])" by auto
  then show ?thesis using assms(2) by (simp only: stride_invoke_def Let_def option.case if_False) blast
qed

lemma stride_hit:
  assumes "find (\<lambda>t. sd_pc t = pc) (sd_trackers s) = Some t"
  shows "\<exists>sts. stride_invoke k s pc a =
    (let strd = line_stride (sd_last_cl_addr t) (cache_line a) in
     if strd = 0 then Inr (\<lparr>sd_trackers = sd_trackers s, sd_stats = sts\<rparr>, [])
     else Inr (\<lparr>sd_trackers = t\<lparr>sd_last_stride := scast strd, sd_last_cl_addr := cache_line a\<rparr> #
                  erase_first (\<lambda>t. sd_pc t = pc) (sd_trackers s), sd_stats = sts\<rparr>,
               if scast strd = sd_last_stride t
               then stride_loop (unat (stride_pref_degree k)) 0 (page_of a) (page_offset a) strd else []))"
  using assms by (simp add: stride_invoke_def Let_def generate_prefetch_eq)

lemma stride_wf_miss:
  assumes "stride_wf k s" "find (\<lambda>t. sd_pc t = pc) (sd_trackers s) = None"
  shows "stride_wf k \<lparr>sd_trackers = \<lparr>sd_pc = pc, sd_last_cl_addr = c, sd_last_stride = d\<rparr> #
      (if unat (stride_num_trackers k) \<le> length (sd_trackers s) then butlast (sd_trackers s) else sd_trackers s),
      sd_stats = sts\<rparr>"
proof -
  let ?ts = "if unat (stride_num_trackers k) \<le> length (sd_trackers s) then butlast (sd_trackers s) else sd_trackers s"
  have "0 < unat (stride_num_trackers k)" using assms(1) by (simp add: stride_wf_def unat_pos)
  then have "length ?ts < unat (stride_num_trackers k)" using assms(1) by (auto simp: stride_wf_def)
  moreover have "set ?ts \<subseteq> set (sd_trackers s)" by (auto dest: in_set_butlastD)
  moreover have "distinct (map sd_pc ?ts)" using assms(1) by (simp add: stride_wf_def distinct_butlast map_butlast)
  moreover have "pc \<notin> sd_pc ` set (sd_trackers s)" using assms(2) by (simp add: find_None_key)
  ultimately show ?thesis using assms(1) unfolding stride_wf_def by auto
qed

lemma distinct_move_front:
  "distinct (map f xs) \<Longrightarrow> f y = k \<Longrightarrow> distinct (map f (y # erase_first (\<lambda>x. f x = k) xs))"
  by (auto simp: distinct_map_erase_first set_erase_first_key)

lemma stride_wf_hit:
  assumes "stride_wf k s" "find (\<lambda>t. sd_pc t = pc) (sd_trackers s) = Some t" "sd_pc t' = pc"
  shows "stride_wf k \<lparr>sd_trackers = t' # erase_first (\<lambda>t. sd_pc t = pc) (sd_trackers s), sd_stats = sts\<rparr>"
  using assms find_Some_erase_length [OF assms(2)] distinct_move_front [of sd_pc "sd_trackers s" t' pc]
  by (auto simp: stride_wf_def)

lemma stride_invoke_ok:
  assumes "stride_wf k s"
  shows "\<exists>s' out. stride_invoke k s pc a = Inr (s', out) \<and> stride_wf k s' \<and>
    list_all (good_prefetch a) out \<and> length out \<le> unat (stride_pref_degree k)"
proof (cases "find (\<lambda>t. sd_pc t = pc) (sd_trackers s)")
  case None
  then show ?thesis using stride_miss [OF assms None, of a] stride_wf_miss [OF assms None] by auto
next
  case (Some t)
  have "stride_wf k \<lparr>sd_trackers = sd_trackers s, sd_stats = sts\<rparr>" for sts using assms by (simp add: stride_wf_def)
  moreover have "sd_pc t = pc" using find_SomeD [OF Some] by simp
  ultimately show ?thesis
    using stride_hit [OF Some, of k a] stride_wf_hit [OF assms Some]
    by (auto simp: Let_def stride_loop_good length_stride_loop split: if_splits)
qed

interpretation strider: page_prefetcher "stride_invoke k" "stride_wf k" "unat (stride_pref_degree k)" for k
  by unfold_locales (use stride_invoke_ok in \<open>metis Inr_Pair_inject\<close>)+

section \<open>The lines of a stride\<close>

text \<open>The specification over the integers: start at the demand offset, stop at the page boundary.\<close>

definition stride_offsets :: "int \<Rightarrow> int \<Rightarrow> nat \<Rightarrow> int list" where
  "stride_offsets off d n = takeWhile (\<lambda>x. 0 \<le> x \<and> x < 64) (map (\<lambda>i. off + d * int i) [0..<n])"

lemma sint_add_exact:
  fixes a b :: i32
  assumes "- (2 ^ 31) \<le> sint a + sint b" "sint a + sint b < 2 ^ 31"
  shows "sint (a + b) = sint a + sint b"
  using assms by (simp add: sint_word_ariths signed_take_bit_int_eq_self)

lemma takeWhile_shift:
  "takeWhile P (map (\<lambda>i. f (int (m + i))) [0..<Suc n]) =
     (if P (f (int m)) then f (int m) # takeWhile P (map (\<lambda>i. f (int (Suc m + i))) [0..<n]) else [])"
proof -
  have "[0..<Suc n] = 0 # map Suc [0..<n]" by (simp only: map_Suc_upt upt_conv_Cons)
  then show ?thesis by (simp add: comp_def algebra_simps)
qed

lemma stride_loop_spec:
  assumes "\<bar>sint strd\<bar> < 2 ^ 31 - 64" "off < 64"
    and "sint (off + strd * of_nat m) = sint off + sint strd * int m"
  shows "stride_loop n (of_nat m) page off strd = map (\<lambda>x. line_address page (of_int x))
    (takeWhile (\<lambda>x. 0 \<le> x \<and> x < 64) (map (\<lambda>i. sint off + sint strd * int (m + i)) [0..<n]))"
  using assms(3)
proof (induction n arbitrary: m)
  case 0
  then show ?case by simp
next
  case (Suc n)
  let ?w = "off + strd * of_nat m"
  show ?case
  proof (cases "in_page_offset ?w")
    case True
    then have range: "0 \<le> sint ?w" "sint ?w < 64" by (auto simp: in_page_offset_def)
    have "sint (?w + strd) = sint ?w + sint strd" using range assms(1) by (intro sint_add_exact) auto
    then have "sint (off + strd * of_nat (Suc m)) = sint off + sint strd * int (Suc m)"
      using Suc.prems by (simp add: algebra_simps)
    from Suc.IH [OF this] range True show ?thesis
      unfolding takeWhile_shift [where f = "\<lambda>x. sint off + sint strd * x"]
      by (simp add: Let_def Suc.prems [symmetric] add.commute)
  next
    case False
    then show ?thesis
      unfolding takeWhile_shift [where f = "\<lambda>x. sint off + sint strd * x"]
      by (auto simp add: Let_def Suc.prems [symmetric] in_page_offset_def)
  qed
qed

lemma sint_page_offset: "sint (page_offset a) = int (unat (page_offset a))"
  using page_offset_less [of a] in_page_offset_iff [of "page_offset a"] word_less_2p_bits [of "page_offset a" 6 31]
  by (auto simp: sint_32_eq word_less_def)

lemma stride_lines:
  assumes "\<bar>sint strd\<bar> < 2 ^ 31 - 64"
  shows "stride_loop n 0 page (page_offset a) strd =
    map (\<lambda>x. line_address page (of_int x)) (stride_offsets (int (unat (page_offset a))) (sint strd) n)"
  using stride_loop_spec [OF assms page_offset_less, of a 0 n page]
  by (simp add: stride_offsets_def sint_page_offset)

lemma ucast_scast_32_64: "ucast (scast (w::i32) :: i64) = w"
proof (rule bit_word_eqI)
  fix n assume "n < LENGTH(32)"
  then show "bit (ucast (scast w :: i64) :: i32) n = bit w n" by (cases "n = 31") (auto simp: bit_simps min_def)
qed

section \<open>Properties\<close>

text \<open>
  C21: Every run of the stride prefetcher from an empty table, with at least one tracker
  configured, completes without reaching its assertion; each access triggers at most
  \<^verbatim>\<open>stride_pref_degree\<close> prefetches, all of them cache lines of the page of the access, for
  every stride, however large, including those that wrap; the table stays within its size
  and holds an instruction pointer once.
\<close>

theorem stride_run_safe:
  assumes "0 < stride_num_trackers k"
  shows "\<exists>s outs. prefetcher_run (stride_invoke k) (StridePrefetcher_init sts) as = Inr (s, outs) \<and> stride_wf k s \<and>
    bounded_outputs (unat (stride_pref_degree k)) as outs"
  using strider.run_ok [OF stride_wf_init [OF assms], of sts as] .

theorem stride_run_safe_witness:
  "\<exists>s outs. prefetcher_run (stride_invoke \<lparr>stride_num_trackers = 4, stride_pref_degree = 2\<rparr>)
      (StridePrefetcher_init \<lparr>sd_lookup = 0, sd_evict = 0, sd_insert = 0, sd_hit = 0, sd_pos = 0, sd_neg = 0,
         sd_zero = 0, sd_stride_match = 0, sd_generated = 0\<rparr>) [(1, 64), (1, 192)] = Inr (s, outs) \<and>
    stride_wf \<lparr>stride_num_trackers = 4, stride_pref_degree = 2\<rparr> s \<and>
    bounded_outputs (unat (stride_pref_degree \<lparr>stride_num_trackers = 4, stride_pref_degree = 2\<rparr>)) [(1, 64), (1, 192)] outs"
  by (rule stride_run_safe) simp

text \<open>
  C20: Stride detection. Three accesses of an instruction pointer without a tracker, with the
  same non-zero line stride between them, prefetch nothing on the first two; the third
  prefetches, in order, the lines at the demand offset plus 0, 1, 2, ... strides, up to
  \<^verbatim>\<open>stride_pref_degree\<close> of them and stopping at the first that leaves the page. The 32-bit
  arithmetic of the code computes these integers exactly. (The line of the demand access
  itself is the first one: the loop of the code starts at 0.)
\<close>

theorem stride_detects_stride:
  assumes "stride_wf k s" "find (\<lambda>t. sd_pc t = pc) (sd_trackers s) = None"
    and "line_stride (cache_line a1) (cache_line a2) = strd" "line_stride (cache_line a2) (cache_line a3) = strd"
    and "strd \<noteq> 0" "\<bar>sint strd\<bar> < 2 ^ 31 - 64"
  shows "\<exists>s'. prefetcher_run (stride_invoke k) s [(pc, a1), (pc, a2), (pc, a3)] = Inr (s', [[], [],
    map (\<lambda>x. line_address (page_of a3) (of_int x))
      (stride_offsets (int (unat (page_offset a3))) (sint strd) (unat (stride_pref_degree k)))])"
proof -
  let ?t1 = "\<lparr>sd_pc = pc, sd_last_cl_addr = cache_line a1, sd_last_stride = 0\<rparr>"
  let ?t2 = "\<lparr>sd_pc = pc, sd_last_cl_addr = cache_line a2, sd_last_stride = scast strd\<rparr>"
  obtain s1 where s1: "stride_invoke k s pc a1 = Inr (s1, [])" "find (\<lambda>t. sd_pc t = pc) (sd_trackers s1) = Some ?t1"
    using stride_miss [OF assms(1,2), of a1] by auto
  have nz: "(scast strd :: i64) \<noteq> 0" using assms(5) ucast_scast_32_64 [of strd] by auto
  obtain s2 where s2: "stride_invoke k s1 pc a2 = Inr (s2, [])" "find (\<lambda>t. sd_pc t = pc) (sd_trackers s2) = Some ?t2"
    using stride_hit [OF s1(2), of k a2] assms(3,5) nz by (auto simp: Let_def)
  obtain s3 where "stride_invoke k s2 pc a3 =
      Inr (s3, stride_loop (unat (stride_pref_degree k)) 0 (page_of a3) (page_offset a3) strd)"
    using stride_hit [OF s2(2), of k a3] assms(4,5) by (auto simp: Let_def)
  then show ?thesis using s1(1) s2(1) stride_lines [OF assms(6)] by simp
qed

theorem stride_detects_stride_witness:
  "\<exists>s'. prefetcher_run (stride_invoke \<lparr>stride_num_trackers = 4, stride_pref_degree = 2\<rparr>)
      (StridePrefetcher_init \<lparr>sd_lookup = 0, sd_evict = 0, sd_insert = 0, sd_hit = 0, sd_pos = 0, sd_neg = 0,
         sd_zero = 0, sd_stride_match = 0, sd_generated = 0\<rparr>) [(1, 4096), (1, 4224), (1, 4352)] = Inr (s', [[], [],
    map (\<lambda>x. line_address (page_of 4352) (of_int x))
      (stride_offsets (int (unat (page_offset 4352))) (sint (2::i32))
        (unat (stride_pref_degree \<lparr>stride_num_trackers = 4, stride_pref_degree = 2\<rparr>)))])"
  by (rule stride_detects_stride)
    (simp_all add: stride_wf_def StridePrefetcher_init_def line_stride_def cache_line_def)

end
