(* ===== verification/Bop.thy ===== *)
theory Bop
  imports Prelude
begin

text \<open>
  The best-offset prefetcher \<^verbatim>\<open>prefetcher/bop.cc\<close>, \<^verbatim>\<open>inc/bop.h\<close>: each access tests one
  candidate offset against the table of recent requests and scores it; at the end of a
  phase the best-scoring offsets are installed. An optional buffer throttles the prefetches.

  Shown: the scores of a phase never exceed its round counter, so no counter overflows and
  the choice of offsets at the end of a phase sees every score; the recent-request table is a bounded
  FIFO without duplicates; a run of accesses and fills completes, and issues lines of the pages
  accessed so far, at most as many as the configured degree; at the end of a phase one candidate
  is installed for each of the highest scores.
\<close>

section \<open>State and operations\<close>

record bop_stats =
  bop_end_max_round :: u64
  bop_end_max_score :: u64
  bop_fill_called :: u64
  bop_fill_insert_rr :: u64
  bop_rr_hit :: u64
  bop_rr_evict :: u64
  bop_rr_insert :: u64
  bop_buffered :: u64
  bop_spilled :: u64
  bop_buf_issued :: u64
  bop_total_phases :: u64
  bop_pref_issued :: u64

record bop =
  bop_rr :: "u64 list"
  bop_scores :: "u32 list"
  bop_pref_buffer :: "u64 list"
  bop_round_counter :: u32
  bop_candidate_ptr :: u32
  bop_best_offsets :: "i32 list"
  bop_stat :: bop_stats

record bop_knobs =
  bop_candidates :: "i32 list"
  bop_max_rounds :: u32
  bop_max_score :: u32
  bop_top_n :: u32
  bop_enable_pref_buffer :: bool
  bop_pref_buffer_size :: u32
  bop_pref_degree :: u32
  bop_rr_size :: u32

definition BOPrefetcher_init :: "bop_knobs \<Rightarrow> bop" where
  "BOPrefetcher_init k = \<lparr>bop_rr = [], bop_scores = replicate (length (bop_candidates k)) 0, bop_pref_buffer = [],
     bop_round_counter = 0, bop_candidate_ptr = 0, bop_best_offsets = [1],
     bop_stat = \<lparr>bop_end_max_round = 0, bop_end_max_score = 0, bop_fill_called = 0, bop_fill_insert_rr = 0,
       bop_rr_hit = 0, bop_rr_evict = 0, bop_rr_insert = 0, bop_buffered = 0, bop_spilled = 0,
       bop_buf_issued = 0, bop_total_phases = 0, bop_pref_issued = 0\<rparr>\<rparr>"

definition search_rr :: "bop \<Rightarrow> u64 \<Rightarrow> bool" where
  "search_rr s addr \<longleftrightarrow> (\<exists>a\<in>set (bop_rr s). a = addr)"

text \<open>The scan of \<^verbatim>\<open>check_end_of_phase\<close>, which stores the index in \<^verbatim>\<open>max_score\<close>.\<close>

primrec max_score_scan :: "nat list \<Rightarrow> u32 list \<Rightarrow> u32 \<Rightarrow> u32" where
  "max_score_scan [] scores max_score = max_score"
| "max_score_scan (i # is) scores max_score =
     max_score_scan is scores (if scores ! i \<ge> max_score then of_nat i else max_score)"

definition check_end_of_phase :: "bop_knobs \<Rightarrow> bop \<Rightarrow> bool \<times> bop" where
  "check_end_of_phase k s =
     (let st = bop_stat s in
      if bop_round_counter s \<ge> bop_max_rounds k
      then (True, s\<lparr>bop_stat := st\<lparr>bop_end_max_round := bop_end_max_round st + 1\<rparr>\<rparr>)
      else if max_score_scan [0..<length (bop_scores s)] (bop_scores s) 0 \<ge> bop_max_score k
      then (True, s\<lparr>bop_stat := st\<lparr>bop_end_max_score := bop_end_max_score st + 1\<rparr>\<rparr>)
      else (False, s))"

text \<open>The inner loop of \<^verbatim>\<open>phase_end\<close>: returns \<^verbatim>\<open>(curr_max, max_idx)\<close>.\<close>

primrec best_scan :: "nat list \<Rightarrow> u32 list \<Rightarrow> u32 \<Rightarrow> u32 \<times> nat \<Rightarrow> u32 \<times> nat" where
  "best_scan [] scores mx cur = cur"
| "best_scan (i # is) scores mx cur =
     best_scan is scores mx
       (if scores ! i \<ge> fst cur \<and> scores ! i < mx then (scores ! i, i) else cur)"

primrec top_loop :: "nat \<Rightarrow> i32 list \<Rightarrow> u32 list \<Rightarrow> u32 \<Rightarrow> i32 list res" where
  "top_loop 0 cands scores mx = Inr []"
| "top_loop (Suc n) cands scores mx =
     (case best_scan [0..<length scores] scores mx (0, 0) of (curr_max, max_idx) \<Rightarrow>
        if \<not> max_idx < length cands then Inl Out_of_bounds
        else bind_res (top_loop n cands scores curr_max) (\<lambda>bs. Inr (cands ! max_idx # bs)))"

definition phase_end :: "bop_knobs \<Rightarrow> bop \<Rightarrow> bop res" where
  "phase_end k s =
     bind_res (top_loop (unat (bop_top_n k)) (bop_candidates k) (bop_scores s) (- 1)) (\<lambda>best.
       if length best \<noteq> unat (bop_top_n k) then Inl Assert_failed
       else Inr (s\<lparr>bop_best_offsets := best, bop_scores := replicate (length (bop_candidates k)) 0,
                   bop_round_counter := 0, bop_candidate_ptr := 0,
                   bop_stat := (bop_stat s)\<lparr>bop_total_phases := bop_total_phases (bop_stat s) + 1\<rparr>\<rparr>))"

text \<open>\<^verbatim>\<open>buffer_prefetch\<close> appends until the buffer is full; \<open>count\<close> is its counter.\<close>

fun buffer_loop :: "bop_knobs \<Rightarrow> u64 list \<Rightarrow> u64 list \<Rightarrow> u32 \<Rightarrow> u64 list \<times> u32" where
  "buffer_loop k [] buf count = (buf, count)"
| "buffer_loop k (a # pref_addr) buf count =
     (if unat (bop_pref_buffer_size k) \<le> length buf then (buf, count)
      else buffer_loop k pref_addr (buf @ [a]) (count + 1))"

definition buffer_prefetch :: "bop_knobs \<Rightarrow> u64 list \<Rightarrow> bop \<Rightarrow> bop" where
  "buffer_prefetch k pref_addr s =
     (let (buf, count) = buffer_loop k pref_addr (bop_pref_buffer s) 0; st = bop_stat s
      in s\<lparr>bop_pref_buffer := buf,
           bop_stat := st\<lparr>bop_buffered := bop_buffered st + ucast count,
                           bop_spilled := bop_spilled st + (of_nat (length pref_addr) - ucast count)\<rparr>\<rparr>)"

text \<open>\<^verbatim>\<open>issue_prefetch\<close>: \<open>n\<close> more may be issued; the addresses leave the front of the buffer.\<close>

fun issue_loop :: "nat \<Rightarrow> u64 list \<Rightarrow> u64 list \<Rightarrow> u64 list \<times> u64 list" where
  "issue_loop 0 buf out = (buf, out)"
| "issue_loop (Suc n) [] out = ([], out)"
| "issue_loop (Suc n) (a # buf) out = issue_loop n buf (out @ [a])"

definition issue_prefetch :: "bop_knobs \<Rightarrow> bop \<Rightarrow> bop \<times> u64 list" where
  "issue_prefetch k s =
     (let (buf, out) = issue_loop (unat (bop_pref_degree k)) (bop_pref_buffer s) []; st = bop_stat s
      in (s\<lparr>bop_pref_buffer := buf,
            bop_stat := st\<lparr>bop_buf_issued := bop_buf_issued st + of_nat (length out)\<rparr>\<rparr>, out))"

text \<open>The issue loop over \<^verbatim>\<open>best_offsets\<close>.\<close>

definition offset_prefetches :: "u64 \<Rightarrow> u32 \<Rightarrow> i32 list \<Rightarrow> u64 list" where
  "offset_prefetches page off best =
     map (line_address page) (filter in_page_offset (map (\<lambda>b. off + b) best))"

definition bop_invoke :: "bop_knobs \<Rightarrow> bop prefetcher" where
  "bop_invoke k s pc addr =
     (let page = page_of addr; off = page_offset addr; ca_address = cache_line addr;
          ptr = unat (bop_candidate_ptr s)
      in if \<not> ptr < length (bop_candidates k) then Inl Out_of_bounds
         else
           let hit = search_rr s (ca_address - scast (bop_candidates k ! ptr)) in
           if hit \<and> \<not> ptr < length (bop_scores s) then Inl Out_of_bounds
           else
             let s = (if hit then s\<lparr>bop_scores := (bop_scores s)[ptr := bop_scores s ! ptr + 1]\<rparr> else s);
                 s = s\<lparr>bop_candidate_ptr :=
                         of_nat (unat (bop_candidate_ptr s + 1) mod length (bop_candidates k)),
                       bop_round_counter := bop_round_counter s + 1\<rparr>;
                 (ended, s) = check_end_of_phase k s
             in bind_res (if ended then phase_end k s else Inr s) (\<lambda>s.
                  let pref_addr = offset_prefetches page off (bop_best_offsets s);
                      (s, pref_addr) =
                        (if bop_enable_pref_buffer k then issue_prefetch k (buffer_prefetch k pref_addr s)
                         else (s, pref_addr));
                      st = bop_stat s
                  in Inr (s\<lparr>bop_stat := st\<lparr>bop_pref_issued := bop_pref_issued st + of_nat (length pref_addr)\<rparr>\<rparr>,
                          pref_addr)))"

definition insert_rr :: "bop_knobs \<Rightarrow> u64 \<Rightarrow> bop \<Rightarrow> bop res" where
  "insert_rr k addr s =
     (let st = bop_stat s in
      if search_rr s addr then Inr (s\<lparr>bop_stat := st\<lparr>bop_rr_hit := bop_rr_hit st + 1\<rparr>\<rparr>)
      else
        let full = (unat (bop_rr_size k) \<le> length (bop_rr s)) in
        if full \<and> bop_rr s = [] then Inl Out_of_bounds
        else
          let st = (if full then st\<lparr>bop_rr_evict := bop_rr_evict st + 1\<rparr> else st);
              rr = (if full then tl (bop_rr s) else bop_rr s)
          in Inr (s\<lparr>bop_rr := rr @ [addr], bop_stat := st\<lparr>bop_rr_insert := bop_rr_insert st + 1\<rparr>\<rparr>))"

primrec fill_loop :: "bop_knobs \<Rightarrow> i32 list \<Rightarrow> u32 \<Rightarrow> u64 \<Rightarrow> bop \<Rightarrow> bop res" where
  "fill_loop k [] off ca_address s = Inr s"
| "fill_loop k (b # bs) off ca_address s =
     bind_res
       (if in_page_offset (off - b)
        then insert_rr k (ca_address - scast b)
               (s\<lparr>bop_stat := (bop_stat s)\<lparr>bop_fill_insert_rr := bop_fill_insert_rr (bop_stat s) + 1\<rparr>\<rparr>)
        else Inr s)
       (fill_loop k bs off ca_address)"

definition bop_register_fill :: "bop_knobs \<Rightarrow> u64 \<Rightarrow> bop \<Rightarrow> bop res" where
  "bop_register_fill k addr s =
     (let s = s\<lparr>bop_stat := (bop_stat s)\<lparr>bop_fill_called := bop_fill_called (bop_stat s) + 1\<rparr>\<rparr>;
          addr = push_bit 6 (drop_bit 6 addr)
      in fill_loop k (bop_best_offsets s) (page_offset addr) (cache_line addr) s)"

section \<open>Invariant\<close>

definition score_sum :: "u32 list \<Rightarrow> nat" where
  "score_sum scores = sum_list (map unat scores)"

definition bop_knobs_ok :: "bop_knobs \<Rightarrow> bool" where
  "bop_knobs_ok k \<longleftrightarrow> bop_candidates k \<noteq> [] \<and> length (bop_candidates k) < 2 ^ 31 \<and>
     0 < bop_max_rounds k \<and> 0 < bop_rr_size k"

definition bop_wf :: "bop_knobs \<Rightarrow> bop \<Rightarrow> bool" where
  "bop_wf k s \<longleftrightarrow> bop_knobs_ok k \<and>
     length (bop_scores s) = length (bop_candidates k) \<and>
     unat (bop_candidate_ptr s) < length (bop_candidates k) \<and>
     score_sum (bop_scores s) \<le> unat (bop_round_counter s) \<and> bop_round_counter s < bop_max_rounds k \<and>
     length (bop_best_offsets s) \<le> max 1 (unat (bop_top_n k)) \<and>
     distinct (bop_rr s) \<and> length (bop_rr s) \<le> unat (bop_rr_size k) \<and>
     length (bop_pref_buffer s) \<le> unat (bop_pref_buffer_size k) \<and> list_all line_aligned (bop_pref_buffer s)"

lemma score_sum_zero: "score_sum (replicate n 0) = 0"
  by (simp add: score_sum_def sum_list_replicate)

lemma bop_wf_init: "bop_knobs_ok k \<Longrightarrow> bop_wf k (BOPrefetcher_init k)"
  by (simp add: bop_wf_def BOPrefetcher_init_def bop_knobs_ok_def score_sum_zero)

lemma score_sum_nth: "i < length scores \<Longrightarrow> unat (scores ! i) \<le> score_sum scores"
  unfolding score_sum_def by (metis elem_le_sum_list length_map nth_map)

lemma score_sum_update:
  assumes "i < length scores" "unat (scores ! i) < 2 ^ 32 - 1"
  shows "score_sum (scores[i := scores ! i + 1]) = score_sum scores + 1"
proof -
  have "unat (scores ! i + 1) = unat (scores ! i) + 1" using assms(2) by (simp add: unat_word_ariths)
  then have "map unat (scores[i := scores ! i + 1]) = (map unat scores)[i := map unat scores ! i + 1]"
    using assms(1) by (simp add: map_update)
  moreover have "map unat scores ! i \<le> sum_list (map unat scores)"
    using assms(1) by (intro elem_le_sum_list) simp
  ultimately show ?thesis using assms(1) by (simp add: score_sum_def sum_list_update)
qed

section \<open>The end of a phase\<close>

text \<open>The last candidate with the score \<open>x\<close>, and the scores below a bound.\<close>

definition last_with :: "u32 list \<Rightarrow> u32 \<Rightarrow> nat" where
  "last_with scores x = last (filter (\<lambda>i. scores ! i = x) [0..<length scores])"

definition below :: "u32 list \<Rightarrow> u32 \<Rightarrow> u32 set" where
  "below scores mx = {x \<in> set scores. x < mx}"

lemma below_iff: "x \<in> below scores mx \<longleftrightarrow> x \<in> set scores \<and> x < mx"
  by (simp add: below_def)

lemma finite_below [simp]: "finite (below scores mx)"
  by (simp add: below_def)

lemma best_scan_append: "best_scan (xs @ ys) scores mx cur = best_scan ys scores mx (best_scan xs scores mx cur)"
  by (induction xs arbitrary: cur) simp_all

definition below_at :: "nat list \<Rightarrow> u32 list \<Rightarrow> u32 \<Rightarrow> u32 set" where
  "below_at is scores mx = {x \<in> (!) scores ` set is. x < mx}"

lemma below_at_snoc:
  "below_at (is @ [j]) scores mx = (if scores ! j < mx then insert (scores ! j) (below_at is scores mx) else below_at is scores mx)"
  by (auto simp: below_at_def)

lemma below_at_Nil [simp]: "below_at [] scores mx = {}"
  by (simp add: below_at_def)

lemma finite_below_at [simp]: "finite (below_at is scores mx)"
  by (simp add: below_at_def)

lemma below_at_less: "x \<in> below_at is scores mx \<Longrightarrow> x < mx"
  by (simp add: below_at_def)

lemma below_at_all: "below_at [0..<length scores] scores mx = below scores mx"
  by (simp add: below_at_def below_def nth_image)

text \<open>The scan finds the greatest score below the bound, and its last index.\<close>

lemma best_scan_prefix:
  "best_scan is scores mx (0, 0) =
     (if below_at is scores mx = {} then (0, 0)
      else (Max (below_at is scores mx), last (filter (\<lambda>i. scores ! i = Max (below_at is scores mx)) is)))"
proof (induction "is" rule: rev_induct)
  case (snoc j "is")
  let ?A = "below_at is scores mx"
  consider "\<not> scores ! j < mx" "?A = {}" | "\<not> scores ! j < mx" "?A \<noteq> {}" | "scores ! j < mx" "?A = {}" | "scores ! j < mx" "?A \<noteq> {}" by blast
  then show ?case
  proof cases
    case 2
    then have "scores ! j \<noteq> Max ?A" using below_at_less [OF Max_in [OF finite_below_at 2(2)]] by metis
    then show ?thesis using snoc.IH 2 by (simp add: best_scan_append below_at_snoc)
  next
    case 4
    have M: "Max (insert (scores ! j) ?A) = max (scores ! j) (Max ?A)" by (rule Max_insert [OF finite_below_at 4(2)])
    show ?thesis
    proof (cases "Max ?A \<le> scores ! j")
      case True
      then have "max (scores ! j) (Max ?A) = scores ! j" by (simp add: max_def)
      then show ?thesis using snoc.IH 4 True by (simp add: best_scan_append below_at_snoc M)
    next
      case False
      then have "scores ! j \<noteq> Max ?A" by (metis order_refl)
      moreover have "Max (insert (scores ! j) ?A) = Max ?A" unfolding M using False by (meson linear max_absorb2)
      ultimately show ?thesis using snoc.IH 4 False by (simp add: best_scan_append below_at_snoc del: Max_insert)
    qed
  qed (use snoc.IH in \<open>simp_all add: best_scan_append below_at_snoc\<close>)
qed simp

lemma best_scan_below:
  "best_scan [0..<length scores] scores mx (0, 0) =
     (if below scores mx = {} then (0, 0) else (Max (below scores mx), last_with scores (Max (below scores mx))))"
  by (simp add: best_scan_prefix below_at_all last_with_def)

lemma last_with_nth:
  assumes "x \<in> set scores"
  shows "last_with scores x < length scores \<and> scores ! last_with scores x = x"
proof -
  have "filter (\<lambda>i. scores ! i = x) [0..<length scores] \<noteq> []" using assms by (auto simp: filter_empty_conv in_set_conv_nth)
  from last_in_set [OF this] show ?thesis by (simp add: last_with_def)
qed

text \<open>
  The ranking of the candidates: for every distinct score below the bound, from the greatest down, the last candidate
  that has it.
\<close>

definition ranking :: "u32 list \<Rightarrow> u32 \<Rightarrow> nat list" where
  "ranking scores mx = map (last_with scores) (rev (sorted_list_of_set (below scores mx)))"

lemma ranking_empty: "below scores mx = {} \<Longrightarrow> ranking scores mx = []"
  by (simp add: ranking_def)

lemma ranking_Cons:
  assumes "below scores mx \<noteq> {}"
  shows "ranking scores mx = last_with scores (Max (below scores mx)) # ranking scores (Max (below scores mx))"
proof -
  let ?B = "below scores mx"
  have B: "?B = insert (Max ?B) (below scores (Max ?B))"
  proof (intro set_eqI iffI)
    fix x
    assume "x \<in> ?B"
    show "x \<in> insert (Max ?B) (below scores (Max ?B))"
      using Max_ge [OF finite_below \<open>x \<in> ?B\<close>] \<open>x \<in> ?B\<close> by (simp add: below_iff order_le_less) blast
  next
    fix x
    assume "x \<in> insert (Max ?B) (below scores (Max ?B))"
    then show "x \<in> ?B" using Max_in [OF finite_below assms] by (auto simp: below_iff)
  qed
  have "sorted_list_of_set ?B = sorted_list_of_set (below scores (Max ?B)) @ [Max ?B]"
  proof (rule sorted_distinct_set_unique)
    show "sorted (sorted_list_of_set (below scores (Max ?B)) @ [Max ?B])"
      by (auto simp: sorted_append below_iff [of _ _ "Max ?B"])
    show "distinct (sorted_list_of_set (below scores (Max ?B)) @ [Max ?B])" by (simp add: below_iff [of _ _ "Max ?B"])
    show "set (sorted_list_of_set ?B) = set (sorted_list_of_set (below scores (Max ?B)) @ [Max ?B])" using B by auto
  qed simp_all
  then show ?thesis by (simp add: ranking_def)
qed

lemma best_scan_index:
  assumes "best_scan [0..<length scores] scores mx (0, 0) = (m, i)" "scores \<noteq> []"
  shows "i < length scores"
  using assms last_with_nth [of "Max (below scores mx)" scores] Max_in [OF finite_below, of scores mx]
  by (auto simp: best_scan_below below_def split: if_splits)

lemma length_padded [simp]: "length (take n (xs @ replicate n y)) = n"
  by simp

text \<open>When the scores are used up the first candidate fills the rest.\<close>

lemma top_loop_ranking:
  assumes "scores \<noteq> []" "length scores = length cands"
  shows "top_loop n cands scores mx = Inr (map ((!) cands) (take n (ranking scores mx @ replicate n 0)))"
proof (induction n arbitrary: mx)
  case (Suc n)
  let ?B = "below scores mx"
  show ?case
  proof (cases "?B = {}")
    case True
    moreover have "below scores 0 = {}" by (simp add: below_def)
    ultimately show ?thesis
      using Suc.IH [of 0] assms(1) by (simp add: assms(2) [symmetric] best_scan_below ranking_empty del: upt_Suc)
  next
    case False
    then have "last_with scores (Max ?B) < length cands"
      using last_with_nth [of "Max ?B" scores] Max_in [OF finite_below False] assms(2) by (simp add: below_iff)
    moreover have "take n (ranking scores (Max ?B) @ replicate (Suc n) 0) = take n (ranking scores (Max ?B) @ replicate n 0)"
      by (simp add: replicate_append_same [symmetric] del: replicate_Suc)
    ultimately show ?thesis
      using Suc.IH [of "Max ?B"] False by (simp add: best_scan_below ranking_Cons [OF False] del: replicate_Suc upt_Suc)
  qed
qed simp

lemma phase_end_ok:
  assumes "bop_scores s \<noteq> []" "length (bop_scores s) = length (bop_candidates k)"
  shows "\<exists>best st. phase_end k s = Inr (s\<lparr>bop_best_offsets := best, bop_scores := replicate (length (bop_candidates k)) 0,
     bop_round_counter := 0, bop_candidate_ptr := 0, bop_stat := st\<rparr>) \<and> length best = unat (bop_top_n k)"
  using top_loop_ranking [OF assms, of "unat (bop_top_n k)" "- 1"] unfolding phase_end_def
  by (simp only: bind_res_simps length_map length_padded) auto

section \<open>The step\<close>

lemma check_end_of_phase_cases:
  "\<exists>st. snd (check_end_of_phase k s) = s\<lparr>bop_stat := st\<rparr> \<and>
     (\<not> fst (check_end_of_phase k s) \<longrightarrow> bop_round_counter s < bop_max_rounds k)"
  by (auto simp: check_end_of_phase_def Let_def intro: exI [of _ "bop_stat s"])

lemma offset_prefetches_good: "list_all (good_prefetch a) (offset_prefetches (page_of a) off best)"
  by (auto simp: offset_prefetches_def list_all_iff page_simps)

lemma length_offset_prefetches: "length (offset_prefetches page off best) \<le> length best"
  by (simp add: offset_prefetches_def)

lemma good_prefetch_aligned: "list_all (good_prefetch a) out \<Longrightarrow> list_all line_aligned out"
  by (auto simp: list_all_iff good_prefetch_def)

lemma buffer_loop_spec:
  assumes "length buf \<le> unat (bop_pref_buffer_size k)" "list_all line_aligned buf" "list_all line_aligned as"
  shows "length (fst (buffer_loop k as buf c)) \<le> unat (bop_pref_buffer_size k) \<and>
    list_all line_aligned (fst (buffer_loop k as buf c))"
  using assms by (induction k as buf c rule: buffer_loop.induct) auto

lemma issue_loop_spec:
  "issue_loop n buf out = (drop n buf, out @ take n buf)"
  by (induction n buf out rule: issue_loop.induct) auto

text \<open>What \<^verbatim>\<open>invoke_prefetcher\<close> does up to the end-of-phase test, and from there on.\<close>

definition bop_learn :: "bop_knobs \<Rightarrow> u64 \<Rightarrow> bop \<Rightarrow> bop" where
  "bop_learn k ca_address s =
     (let ptr = unat (bop_candidate_ptr s);
          hit = search_rr s (ca_address - scast (bop_candidates k ! ptr));
          s = (if hit then s\<lparr>bop_scores := (bop_scores s)[ptr := bop_scores s ! ptr + 1]\<rparr> else s)
      in s\<lparr>bop_candidate_ptr := of_nat (unat (bop_candidate_ptr s + 1) mod length (bop_candidates k)),
           bop_round_counter := bop_round_counter s + 1\<rparr>)"

definition bop_emit :: "bop_knobs \<Rightarrow> u64 \<Rightarrow> bop \<Rightarrow> bop \<times> u64 list" where
  "bop_emit k addr s =
     (let pref_addr = offset_prefetches (page_of addr) (page_offset addr) (bop_best_offsets s);
          (s, pref_addr) =
            (if bop_enable_pref_buffer k then issue_prefetch k (buffer_prefetch k pref_addr s) else (s, pref_addr));
          st = bop_stat s
      in (s\<lparr>bop_stat := st\<lparr>bop_pref_issued := bop_pref_issued st + of_nat (length pref_addr)\<rparr>\<rparr>, pref_addr))"

lemma bop_invoke_split:
  assumes "bop_wf k s"
  shows "bop_invoke k s pc a =
    (let (ended, s1) = check_end_of_phase k (bop_learn k (cache_line a) s)
     in bind_res (if ended then phase_end k s1 else Inr s1) (\<lambda>s2. Inr (bop_emit k a s2)))"
  using assms by (simp add: bop_invoke_def bop_learn_def bop_emit_def bop_wf_def Let_def split_def)

text \<open>The state after learning: as in the invariant, with the round counter possibly at its limit.\<close>

definition bop_learnt :: "bop_knobs \<Rightarrow> bop \<Rightarrow> bool" where
  "bop_learnt k s \<longleftrightarrow> bop_knobs_ok k \<and> length (bop_scores s) = length (bop_candidates k) \<and>
     unat (bop_candidate_ptr s) < length (bop_candidates k) \<and>
     score_sum (bop_scores s) \<le> unat (bop_round_counter s) \<and>
     length (bop_best_offsets s) \<le> max 1 (unat (bop_top_n k)) \<and>
     distinct (bop_rr s) \<and> length (bop_rr s) \<le> unat (bop_rr_size k) \<and>
     length (bop_pref_buffer s) \<le> unat (bop_pref_buffer_size k) \<and> list_all line_aligned (bop_pref_buffer s)"

lemma bop_wf_iff: "bop_wf k s \<longleftrightarrow> bop_learnt k s \<and> bop_round_counter s < bop_max_rounds k"
  by (auto simp: bop_wf_def bop_learnt_def)

lemma bop_learn_ok:
  assumes "bop_wf k s"
  shows "bop_learnt k (bop_learn k ca s)"
proof -
  let ?p = "unat (bop_candidate_ptr s)"
  have wf: "?p < length (bop_scores s)" "score_sum (bop_scores s) \<le> unat (bop_round_counter s)"
    "unat (bop_round_counter s) < unat (bop_max_rounds k)"
    using assms by (auto simp: bop_wf_def word_less_nat_alt)
  then have round: "unat (bop_round_counter s + 1) = unat (bop_round_counter s) + 1"
    using u32_bound [of "bop_max_rounds k"] by (simp add: unat_word_ariths)
  have "unat (bop_scores s ! ?p) < 2 ^ 32 - 1"
    using score_sum_nth [OF wf(1)] wf(2,3) u32_bound [of "bop_max_rounds k"] by simp
  then have "score_sum ((bop_scores s)[?p := bop_scores s ! ?p + 1]) \<le> unat (bop_round_counter s + 1)"
    using score_sum_update [OF wf(1)] wf(2) round by simp
  moreover have "unat (of_nat (n mod length (bop_candidates k)) :: u32) < length (bop_candidates k)" for n
  proof -
    have "0 < length (bop_candidates k)" "length (bop_candidates k) < 2 ^ 31"
      using assms by (auto simp: bop_wf_def bop_knobs_ok_def)
    then show ?thesis by (simp add: unat_of_nat take_bit_nat_eq_self less_trans [OF mod_less_divisor])
  qed
  ultimately show ?thesis
    using assms round by (auto simp: bop_learn_def bop_wf_def bop_learnt_def Let_def)
qed

lemma bop_emit_ok:
  assumes "bop_wf k s"
  shows "bop_wf k (fst (bop_emit k a s)) \<and> list_all line_aligned (snd (bop_emit k a s)) \<and>
    length (snd (bop_emit k a s)) \<le>
      (if bop_enable_pref_buffer k then unat (bop_pref_degree k) else max 1 (unat (bop_top_n k))) \<and>
    (\<not> bop_enable_pref_buffer k \<longrightarrow> list_all (good_prefetch a) (snd (bop_emit k a s)))"
proof -
  let ?pf = "offset_prefetches (page_of a) (page_offset a) (bop_best_offsets s)"
  let ?buf = "fst (buffer_loop k ?pf (bop_pref_buffer s) 0)"
  note good = offset_prefetches_good [of a "page_offset a" "bop_best_offsets s"]
  have "length ?pf \<le> max 1 (unat (bop_top_n k))"
    using length_offset_prefetches [of "page_of a" "page_offset a" "bop_best_offsets s"] assms
    by (simp add: bop_wf_def)
  moreover have buf: "length ?buf \<le> unat (bop_pref_buffer_size k)" "list_all line_aligned ?buf"
    using buffer_loop_spec [of "bop_pref_buffer s" k ?pf 0] good_prefetch_aligned [OF good] assms
    by (auto simp: bop_wf_def)
  moreover have "list_all line_aligned (take n ?buf)" "list_all line_aligned (drop n ?buf)" for n
    using buf(2) by (auto simp: list_all_iff dest: in_set_takeD in_set_dropD)
  moreover have "length ?buf - n \<le> unat (bop_pref_buffer_size k)" for n using buf(1) by simp
  ultimately show ?thesis
    using good good_prefetch_aligned [OF good] assms
    by (simp add: bop_emit_def Let_def split_def issue_prefetch_def buffer_prefetch_def issue_loop_spec bop_wf_def)
qed

lemma bop_phase_ok:
  assumes "bop_learnt k s"
  shows "\<exists>s'. (let (ended, s1) = check_end_of_phase k s in if ended then phase_end k s1 else Inr s1) = Inr s' \<and> bop_wf k s'"
proof -
  obtain ended s1 where c: "check_end_of_phase k s = (ended, s1)" by force
  obtain st where st: "s1 = s\<lparr>bop_stat := st\<rparr>" "\<not> ended \<longrightarrow> bop_round_counter s < bop_max_rounds k"
    using check_end_of_phase_cases [of k s] c by auto
  show ?thesis
  proof (cases ended)
    case True
    have "bop_scores s1 \<noteq> []" "length (bop_scores s1) = length (bop_candidates k)"
      using assms st(1) by (auto simp: bop_learnt_def bop_knobs_ok_def)
    from phase_end_ok [OF this] obtain best st' where
      "phase_end k s1 = Inr (s1\<lparr>bop_best_offsets := best, bop_scores := replicate (length (bop_candidates k)) 0,
         bop_round_counter := 0, bop_candidate_ptr := 0, bop_stat := st'\<rparr>)" "length best = unat (bop_top_n k)" by blast
    then show ?thesis using True c st(1) assms
      by (simp add: bop_wf_def bop_learnt_def bop_knobs_ok_def score_sum_zero)
  next
    case False
    then show ?thesis using c st assms by (simp add: bop_wf_iff bop_learnt_def)
  qed
qed

lemma bop_invoke_ok:
  assumes "bop_wf k s"
  shows "\<exists>s' out. bop_invoke k s pc a = Inr (s', out) \<and> bop_wf k s' \<and> list_all line_aligned out \<and>
    length out \<le> (if bop_enable_pref_buffer k then unat (bop_pref_degree k) else max 1 (unat (bop_top_n k))) \<and>
    (\<not> bop_enable_pref_buffer k \<longrightarrow> list_all (good_prefetch a) out)"
proof -
  obtain ended s1 where c: "check_end_of_phase k (bop_learn k (cache_line a) s) = (ended, s1)" by force
  obtain s2 where "(if ended then phase_end k s1 else Inr s1) = Inr s2" "bop_wf k s2"
    using bop_phase_ok [OF bop_learn_ok [OF assms, of "cache_line a"]] unfolding c by auto
  then show ?thesis
    using bop_invoke_split [OF assms, of pc a] c bop_emit_ok [of k s2 a]
    by (intro exI [of _ "fst (bop_emit k a s2)"] exI [of _ "snd (bop_emit k a s2)"]) simp
qed

lemma bop_contract:
  assumes "bop_wf k s \<and> \<not> bop_enable_pref_buffer k"
  shows "\<exists>s' out. bop_invoke k s pc a = Inr (s', out) \<and> (bop_wf k s' \<and> \<not> bop_enable_pref_buffer k) \<and>
    list_all (good_prefetch a) out \<and> length out \<le> max 1 (unat (bop_top_n k))"
  using bop_invoke_ok [of k s pc a] assms by auto

interpretation bop: page_prefetcher "bop_invoke k" "\<lambda>s. bop_wf k s \<and> \<not> bop_enable_pref_buffer k"
  "max 1 (unat (bop_top_n k))" for k
  by unfold_locales (use bop_contract in \<open>metis Inr_Pair_inject\<close>)+

lemma bop_unbuffered_run:
  assumes "bop_wf k s" "\<not> bop_enable_pref_buffer k"
  shows "\<exists>s' outs. prefetcher_run (bop_invoke k) s as = Inr (s', outs) \<and> bop_wf k s' \<and> bounded_outputs (max 1 (unat (bop_top_n k))) as outs"
  using bop.run_ok [of k s as] assms by blast

section \<open>The recent-request table\<close>

lemma insert_rr_ok:
  assumes "bop_wf k s"
  shows "\<exists>s'. insert_rr k addr s = Inr s' \<and> bop_wf k s' \<and> search_rr s' addr \<and>
    bop_best_offsets s' = bop_best_offsets s \<and> bop_scores s' = bop_scores s \<and> bop_pref_buffer s' = bop_pref_buffer s"
proof -
  have "0 < unat (bop_rr_size k)" using assms by (simp add: bop_wf_def bop_knobs_ok_def unat_pos)
  then show ?thesis
    using assms
    by (cases "bop_rr s") (auto simp: insert_rr_def Let_def search_rr_def bop_wf_def distinct_tl)
qed

lemma fill_loop_ok:
  assumes "bop_wf k s"
  shows "\<exists>s'. fill_loop k bs off ca s = Inr s' \<and> bop_wf k s' \<and> bop_best_offsets s' = bop_best_offsets s \<and>
    bop_scores s' = bop_scores s \<and> bop_pref_buffer s' = bop_pref_buffer s"
  using assms
proof (induction bs arbitrary: s)
  case Nil
  then show ?case by simp
next
  case (Cons b bs)
  let ?s = "s\<lparr>bop_stat := (bop_stat s)\<lparr>bop_fill_insert_rr := bop_fill_insert_rr (bop_stat s) + 1\<rparr>\<rparr>"
  have "bop_wf k ?s" using Cons.prems by (simp add: bop_wf_def)
  then obtain s1 where "insert_rr k (ca - scast b) ?s = Inr s1" "bop_wf k s1"
    "bop_best_offsets s1 = bop_best_offsets s" "bop_scores s1 = bop_scores s" "bop_pref_buffer s1 = bop_pref_buffer s"
    using insert_rr_ok [of k ?s "ca - scast b"] by auto
  then show ?case using Cons.IH [of s1] Cons.IH [OF Cons.prems] by auto
qed

section \<open>Runs of accesses and fills\<close>

datatype bop_event = Bop_access u64 u64 | Bop_fill u64

text \<open>The outputs of the accesses; a fill issues nothing.\<close>

fun bop_run :: "bop_knobs \<Rightarrow> bop_event list \<Rightarrow> bop \<Rightarrow> (bop \<times> u64 list list) res" where
  "bop_run k [] s = Inr (s, [])"
| "bop_run k (Bop_access pc a # es) s =
     bind_res (bop_invoke k s pc a) (\<lambda>(s, out). bind_res (bop_run k es s) (\<lambda>(s, outs). Inr (s, out # outs)))"
| "bop_run k (Bop_fill a # es) s = bind_res (bop_register_fill k a s) (bop_run k es)"

definition bop_degree :: "bop_knobs \<Rightarrow> nat" where
  "bop_degree k = (if bop_enable_pref_buffer k then unat (bop_pref_degree k) else max 1 (unat (bop_top_n k)))"

text \<open>
  Every output is within the degree, and its lines are in the page of the access, or with the buffer in the pages of the
  accesses so far, which are \<open>A\<close> at the start.
\<close>

fun bop_outputs_ok :: "bop_knobs \<Rightarrow> u64 set \<Rightarrow> bop_event list \<Rightarrow> u64 list list \<Rightarrow> bool" where
  "bop_outputs_ok k A [] outs \<longleftrightarrow> outs = []"
| "bop_outputs_ok k A (Bop_fill a # es) outs \<longleftrightarrow> bop_outputs_ok k A es outs"
| "bop_outputs_ok k A (Bop_access pc a # es) [] \<longleftrightarrow> False"
| "bop_outputs_ok k A (Bop_access pc a # es) (out # outs) \<longleftrightarrow>
     length out \<le> bop_degree k \<and> (\<forall>x\<in>set out. \<exists>b\<in>(if bop_enable_pref_buffer k then insert a A else {a}). good_prefetch b x) \<and>
     bop_outputs_ok k (insert a A) es outs"

definition buffered_from :: "u64 set \<Rightarrow> bop \<Rightarrow> bool" where
  "buffered_from A s \<longleftrightarrow> (\<forall>x\<in>set (bop_pref_buffer s). \<exists>b\<in>A. good_prefetch b x)"

lemma set_buffer_loop: "set (fst (buffer_loop k as buf c)) \<subseteq> set buf \<union> set as"
  by (induction k as buf c rule: buffer_loop.induct) auto

lemma bop_emit_buffer:
  assumes "buffered_from A s"
  shows "buffered_from (insert a A) (fst (bop_emit k a s)) \<and>
    (bop_enable_pref_buffer k \<longrightarrow> (\<forall>x\<in>set (snd (bop_emit k a s)). \<exists>b\<in>insert a A. good_prefetch b x))"
proof -
  let ?pf = "offset_prefetches (page_of a) (page_offset a) (bop_best_offsets s)"
  let ?buf = "fst (buffer_loop k ?pf (bop_pref_buffer s) 0)"
  have buf: "\<forall>x\<in>set ?buf. \<exists>b\<in>insert a A. good_prefetch b x"
    using set_buffer_loop [of k ?pf "bop_pref_buffer s" 0] offset_prefetches_good [of a "page_offset a" "bop_best_offsets s"] assms
    by (fastforce simp: buffered_from_def list_all_iff)
  moreover have "\<forall>x\<in>set (bop_pref_buffer s). \<exists>b\<in>insert a A. good_prefetch b x" using assms by (auto simp: buffered_from_def)
  ultimately show ?thesis
    by (auto simp: bop_emit_def Let_def split_def issue_prefetch_def buffer_prefetch_def issue_loop_spec buffered_from_def
        dest: in_set_takeD in_set_dropD)
qed

lemma phase_end_buffer: "phase_end k s = Inr s' \<Longrightarrow> bop_pref_buffer s' = bop_pref_buffer s"
  by (auto simp: phase_end_def bind_res_Inr_iff split: if_splits)

lemma bop_learn_buffer [simp]: "bop_pref_buffer (bop_learn k ca s) = bop_pref_buffer s"
  by (simp add: bop_learn_def Let_def)

lemma bop_invoke_step:
  assumes "bop_wf k s" "buffered_from A s"
  shows "\<exists>s' out. bop_invoke k s pc a = Inr (s', out) \<and> bop_wf k s' \<and> buffered_from (insert a A) s' \<and> length out \<le> bop_degree k \<and>
    (\<forall>x\<in>set out. \<exists>b\<in>(if bop_enable_pref_buffer k then insert a A else {a}). good_prefetch b x)"
proof -
  obtain ended s1 where c: "check_end_of_phase k (bop_learn k (cache_line a) s) = (ended, s1)" by force
  obtain s2 where s2: "(if ended then phase_end k s1 else Inr s1) = Inr s2" "bop_wf k s2"
    using bop_phase_ok [OF bop_learn_ok [OF assms(1), of "cache_line a"]] unfolding c by auto
  have "bop_pref_buffer s1 = bop_pref_buffer s" using check_end_of_phase_cases [of k "bop_learn k (cache_line a) s"] c by auto
  then have "buffered_from A s2" using s2(1) assms(2) phase_end_buffer [of k s1 s2] by (auto simp: buffered_from_def split: if_splits)
  from bop_emit_buffer [OF this, of a k] bop_emit_ok [OF s2(2), of a] show ?thesis
    using bop_invoke_split [OF assms(1), of pc a] c s2(1)
    by (intro exI [of _ "fst (bop_emit k a s2)"] exI [of _ "snd (bop_emit k a s2)"]) (simp add: bop_degree_def list_all_iff)
qed

lemma bop_register_fill_ok:
  assumes "bop_wf k s"
  shows "\<exists>s'. bop_register_fill k a s = Inr s' \<and> bop_wf k s' \<and> bop_pref_buffer s' = bop_pref_buffer s"
proof -
  have "bop_wf k (s\<lparr>bop_stat := (bop_stat s)\<lparr>bop_fill_called := bop_fill_called (bop_stat s) + 1\<rparr>\<rparr>)"
    using assms by (simp add: bop_wf_def)
  from fill_loop_ok [OF this, of "bop_best_offsets s" "page_offset (push_bit 6 (drop_bit 6 a))" "cache_line (push_bit 6 (drop_bit 6 a))"]
  show ?thesis by (auto simp: bop_register_fill_def)
qed

lemma bop_run_ok:
  assumes "bop_wf k s" "buffered_from A s"
  shows "\<exists>s' outs. bop_run k es s = Inr (s', outs) \<and> bop_wf k s' \<and> bop_outputs_ok k A es outs"
  using assms
proof (induction es arbitrary: s A)
  case (Cons e es)
  show ?case
  proof (cases e)
    case (Bop_access pc a)
    obtain s1 out where s1: "bop_invoke k s pc a = Inr (s1, out)" "bop_wf k s1" "buffered_from (insert a A) s1" "length out \<le> bop_degree k"
      "\<forall>x\<in>set out. \<exists>b\<in>(if bop_enable_pref_buffer k then insert a A else {a}). good_prefetch b x"
      using bop_invoke_step [OF Cons.prems, of pc a] by blast
    obtain s2 outs where "bop_run k es s1 = Inr (s2, outs)" "bop_wf k s2" "bop_outputs_ok k (insert a A) es outs"
      using Cons.IH [OF s1(2,3)] by blast
    then show ?thesis using s1 Bop_access by simp
  next
    case (Bop_fill a)
    obtain s1 where "bop_register_fill k a s = Inr s1" "bop_wf k s1" "bop_pref_buffer s1 = bop_pref_buffer s"
      using bop_register_fill_ok [OF Cons.prems(1)] by blast
    then show ?thesis using Cons.IH [of s1 A] Cons.prems(2) Bop_fill by (simp add: buffered_from_def)
  qed
qed simp

section \<open>Installing the best offset\<close>

lemma scores_below:
  assumes "bop_wf k s" "bop_max_rounds k < - 1"
  shows "\<forall>x\<in>set (bop_scores (bop_learn k ca s)). x < - 1"
proof -
  let ?s = "bop_learn k ca s"
  have minus: "unat (- 1 :: u32) = 2 ^ 32 - 1" by (simp add: unsigned_minus_1_eq_mask mask_eq_exp_minus_1)
  have "unat (bop_round_counter s) < unat (bop_max_rounds k)" "unat (bop_max_rounds k) < unat (- 1 :: u32)"
    using assms by (auto simp: bop_wf_def word_less_nat_alt)
  moreover have "bop_round_counter ?s = bop_round_counter s + 1" by (simp add: bop_learn_def Let_def)
  ultimately have "unat (bop_round_counter ?s) < 2 ^ 32 - 1" using minus by (simp add: unat_word_ariths)
  then have "unat x < 2 ^ 32 - 1" if "x \<in> set (bop_scores ?s)" for x
    using that score_sum_nth [of _ "bop_scores ?s"] bop_learn_ok [OF assms(1), of ca]
    by (fastforce simp: in_set_conv_nth bop_learnt_def)
  then show ?thesis using minus by (simp add: word_less_nat_alt)
qed

lemma phase_end_best:
  assumes "length (bop_scores s) = length (bop_candidates k)" "bop_scores s \<noteq> []"
    and "\<forall>x\<in>set (bop_scores s). x < - 1"
  shows "\<exists>s'. phase_end k s = Inr s' \<and>
    bop_best_offsets s' = map ((!) (bop_candidates k)) (take (unat (bop_top_n k))
      (map (last_with (bop_scores s)) (rev (sorted_list_of_set (set (bop_scores s)))) @ replicate (unat (bop_top_n k)) 0)) \<and>
    bop_scores s' = replicate (length (bop_candidates k)) 0 \<and> bop_round_counter s' = 0 \<and> bop_candidate_ptr s' = 0"
proof -
  have "below (bop_scores s) (- 1) = set (bop_scores s)" using assms(3) by (auto simp: below_def)
  then show ?thesis using top_loop_ranking [OF assms(2,1), of "unat (bop_top_n k)" "- 1"] by (simp add: phase_end_def ranking_def)
qed

lemma bop_emit_frame:
  "bop_best_offsets (fst (bop_emit k a s)) = bop_best_offsets s \<and>
   bop_scores (fst (bop_emit k a s)) = bop_scores s \<and> bop_round_counter (fst (bop_emit k a s)) = bop_round_counter s \<and>
   bop_candidate_ptr (fst (bop_emit k a s)) = bop_candidate_ptr s"
  by (simp add: bop_emit_def Let_def split_def issue_prefetch_def buffer_prefetch_def)

lemma page_offset_block: "page_offset (push_bit 6 (drop_bit 6 a)) = page_offset a"
  and cache_line_block: "cache_line (push_bit 6 (drop_bit 6 a)) = cache_line a"
  unfolding cache_line_def by (rule bit_word_eqI, auto simp: bit_page_offset bit_simps ac_simps dest: bit_imp_le_length)+

section \<open>Properties\<close>

text \<open>A small configuration for the examples.\<close>

definition bop_sample :: bop_knobs where
  "bop_sample = \<lparr>bop_candidates = [1, 2], bop_max_rounds = 1, bop_max_score = 31, bop_top_n = 1,
     bop_enable_pref_buffer = False, bop_pref_buffer_size = 16, bop_pref_degree = 4, bop_rr_size = 256\<rparr>"

text \<open>
  C19: Every run of demand accesses and fills completes: the candidate pointer and the score table are never indexed out of
  range, the table of recent requests is never popped empty, and the assertion on the number of installed offsets holds.
  An access issues at most \<^verbatim>\<open>bop_pref_degree\<close> lines with the prefetch buffer and at most \<^verbatim>\<open>max(1, bop_top_n)\<close>
  without it; they are lines of its page, or with the buffer of the pages accessed so far. The invariant holds at the end.
\<close>

theorem bop_run_safe:
  assumes "bop_knobs_ok k"
  shows "\<exists>s outs. bop_run k es (BOPrefetcher_init k) = Inr (s, outs) \<and> bop_wf k s \<and> bop_outputs_ok k {} es outs"
  by (rule bop_run_ok [OF bop_wf_init [OF assms]]) (simp add: buffered_from_def BOPrefetcher_init_def)

text \<open>The fill of line 2 puts line 1 into the table, so the access to line 2 scores the offset 1; the phase goes on.\<close>

definition bop_long :: bop_knobs where
  "bop_long = bop_sample\<lparr>bop_max_rounds := 9, bop_enable_pref_buffer := True\<rparr>"

theorem bop_run_safe_witness:
  "\<exists>s. bop_run bop_long [Bop_fill 128, Bop_access 1 128] (BOPrefetcher_init bop_long) = Inr (s, [[192]]) \<and>
    bop_scores s = [1, 0] \<and> bop_wf bop_long s \<and> bop_outputs_ok bop_long {} [Bop_fill 128, Bop_access 1 128] [[192]]"
proof -
  have "bop_knobs_ok bop_long" by (simp add: bop_knobs_ok_def bop_long_def bop_sample_def)
  from bop_run_safe [OF this, of "[Bop_fill 128, Bop_access 1 128]"] obtain s outs where
    s: "bop_run bop_long [Bop_fill 128, Bop_access 1 128] (BOPrefetcher_init bop_long) = Inr (s, outs)" "bop_wf bop_long s"
      "bop_outputs_ok bop_long {} [Bop_fill 128, Bop_access 1 128] outs" by blast
  have "\<exists>t. bop_run bop_long [Bop_fill 128, Bop_access 1 128] (BOPrefetcher_init bop_long) = Inr (t, [[192]]) \<and> bop_scores t = [1, 0]"
    by (simp add: bop_long_def bop_sample_def BOPrefetcher_init_def bop_register_fill_def Let_def page_offset_def cache_line_def in_page_offset_def
        insert_rr_def search_rr_def bop_invoke_def check_end_of_phase_def upt_conv_Cons offset_prefetches_def line_address_def page_of_def
        buffer_prefetch_def issue_prefetch_def word_le_def issue_loop_spec)
  then show ?thesis using s by auto
qed

text \<open>
  C18: When an access ends a phase, exactly \<^verbatim>\<open>bop_top_n\<close> offsets are installed for the next phase: one candidate for
  each distinct score of the phase just ended, from the highest score down, namely the last candidate that has it, and the
  first candidate of the list when there are fewer distinct scores than offsets to install. The scores, the round counter
  and the candidate pointer are reset.
\<close>

theorem bop_phase_installs_best:
  assumes "bop_wf k s" "bop_max_rounds k < - 1"
    and "fst (check_end_of_phase k (bop_learn k (cache_line a) s))"
    and "scores = bop_scores (bop_learn k (cache_line a) s)"
  shows "\<exists>s' out. bop_invoke k s pc a = Inr (s', out) \<and>
    bop_best_offsets s' = map ((!) (bop_candidates k)) (take (unat (bop_top_n k))
      (map (last_with scores) (rev (sorted_list_of_set (set scores))) @ replicate (unat (bop_top_n k)) 0)) \<and>
    bop_scores s' = replicate (length (bop_candidates k)) 0 \<and> bop_round_counter s' = 0 \<and> bop_candidate_ptr s' = 0"
proof -
  let ?s = "bop_learn k (cache_line a) s"
  note learnt = bop_learn_ok [OF assms(1), of "cache_line a"]
  obtain s1 where c: "check_end_of_phase k ?s = (True, s1)" using assms(3) by (cases "check_end_of_phase k ?s") auto
  then have s1: "bop_scores s1 = bop_scores ?s" using check_end_of_phase_cases [of k ?s] by auto
  have "length (bop_scores s1) = length (bop_candidates k)" "bop_scores s1 \<noteq> []"
    using learnt s1 by (auto simp: bop_learnt_def bop_knobs_ok_def)
  from phase_end_best [OF this] obtain s2 where s2: "phase_end k s1 = Inr s2"
    "bop_best_offsets s2 = map ((!) (bop_candidates k)) (take (unat (bop_top_n k))
      (map (last_with scores) (rev (sorted_list_of_set (set scores))) @ replicate (unat (bop_top_n k)) 0))"
    "bop_scores s2 = replicate (length (bop_candidates k)) 0" "bop_round_counter s2 = 0" "bop_candidate_ptr s2 = 0"
    using scores_below [OF assms(1,2), of "cache_line a"] s1 assms(4) by auto
  have "bop_invoke k s pc a = Inr (fst (bop_emit k a s2), snd (bop_emit k a s2))"
    using bop_invoke_split [OF assms(1), of pc a] c s2(1) by simp
  then show ?thesis using s2 bop_emit_frame [of k a s2] by metis
qed

text \<open>Three candidates of scores 1, 2 and 2: the last of the best, then the other score, then the first candidate.\<close>

definition bop_three :: bop_knobs where
  "bop_three = bop_sample\<lparr>bop_candidates := [1, 2, 3], bop_max_rounds := 6, bop_top_n := 3\<rparr>"

definition bop_three_state :: bop where
  "bop_three_state = (BOPrefetcher_init bop_three)\<lparr>bop_scores := [1, 2, 2], bop_round_counter := 5\<rparr>"

theorem bop_phase_installs_best_witness:
  "\<exists>s' out. bop_invoke bop_three bop_three_state 7 64 = Inr (s', out) \<and> bop_best_offsets s' = [3, 1, 1] \<and>
    bop_scores s' = [0, 0, 0]"
proof -
  have wf: "bop_wf bop_three bop_three_state"
    by (simp add: bop_wf_def score_sum_def bop_knobs_ok_def bop_three_state_def bop_three_def bop_sample_def BOPrefetcher_init_def)
  have max: "bop_max_rounds bop_three < - 1"
    by (simp add: bop_three_def bop_sample_def word_less_def unsigned_minus_1_eq_mask mask_eq_exp_minus_1)
  have learn: "bop_scores (bop_learn bop_three (cache_line 64) bop_three_state) = [1, 2, 2]"
    by (simp add: bop_learn_def bop_three_state_def bop_three_def bop_sample_def BOPrefetcher_init_def search_rr_def Let_def)
  have ended: "fst (check_end_of_phase bop_three (bop_learn bop_three (cache_line 64) bop_three_state))"
    by (simp add: check_end_of_phase_def bop_learn_def bop_three_state_def bop_three_def bop_sample_def BOPrefetcher_init_def search_rr_def Let_def)
  have "sorted_list_of_set (set [1, 2, 2 :: u32]) = [1, 2]"
    by (rule sorted_distinct_set_unique) (simp_all add: insert_commute)
  then have rank: "map (last_with [1, 2, 2]) (rev (sorted_list_of_set (set [1, 2, 2]))) = [2, 0]"
    by (simp add: last_with_def upt_conv_Cons)
  have k: "bop_candidates bop_three = [1, 2, 3]" "unat (bop_top_n bop_three) = 3" by (simp_all add: bop_three_def bop_sample_def)
  show ?thesis
    using bop_phase_installs_best [OF wf max ended learn [symmetric], of 7] unfolding rank k
    by (auto simp: numeral_eq_Suc)
qed

text \<open>
  Learning is closed: after the fill of a line at offset \<open>off\<close> with one installed offset \<open>d\<close>
  whose base lies in the page, the table of recent requests contains the base line, so that
  an access to the filled line that evaluates the candidate \<open>d\<close> scores it.
\<close>

theorem bop_fill_then_hit:
  assumes "bop_wf k s" "bop_best_offsets s = [d]" "in_page_offset (page_offset addr - d)"
  shows "\<exists>s'. bop_register_fill k addr s = Inr s' \<and> bop_wf k s' \<and> search_rr s' (cache_line addr - scast d) \<and>
    (bop_candidates k ! unat (bop_candidate_ptr s) = d \<longrightarrow> bop_candidate_ptr s' = bop_candidate_ptr s \<longrightarrow>
      bop_scores (bop_learn k (cache_line addr) s') ! unat (bop_candidate_ptr s) =
      bop_scores s' ! unat (bop_candidate_ptr s) + 1)"
proof -
  let ?s = "s\<lparr>bop_stat := (bop_stat s)\<lparr>bop_fill_called := bop_fill_called (bop_stat s) + 1\<rparr>\<rparr>"
  let ?t = "?s\<lparr>bop_stat := (bop_stat ?s)\<lparr>bop_fill_insert_rr := bop_fill_insert_rr (bop_stat ?s) + 1\<rparr>\<rparr>"
  have "bop_wf k ?t" using assms(1) by (simp add: bop_wf_def)
  then obtain s' where s': "insert_rr k (cache_line addr - scast d) ?t = Inr s'" "bop_wf k s'"
    "search_rr s' (cache_line addr - scast d)"
    using insert_rr_ok [of k ?t "cache_line addr - scast d"] by blast
  have "bop_register_fill k addr s = Inr s'"
    using s'(1) assms(2,3) by (simp add: bop_register_fill_def Let_def page_offset_block cache_line_block)
  moreover have "unat (bop_candidate_ptr s') < length (bop_scores s')" using s'(2) by (simp add: bop_wf_def)
  ultimately show ?thesis using s' by (auto simp: bop_learn_def Let_def)
qed

theorem bop_fill_then_hit_witness:
  "\<exists>s'. bop_register_fill bop_sample 4224 (BOPrefetcher_init bop_sample) = Inr s' \<and> bop_wf bop_sample s' \<and>
    search_rr s' (cache_line 4224 - scast (1::i32)) \<and>
    (bop_candidates bop_sample ! unat (bop_candidate_ptr (BOPrefetcher_init bop_sample)) = 1 \<longrightarrow>
      bop_candidate_ptr s' = bop_candidate_ptr (BOPrefetcher_init bop_sample) \<longrightarrow>
      bop_scores (bop_learn bop_sample (cache_line 4224) s') ! unat (bop_candidate_ptr (BOPrefetcher_init bop_sample)) =
      bop_scores s' ! unat (bop_candidate_ptr (BOPrefetcher_init bop_sample)) + 1)"
  by (rule bop_fill_then_hit)
    (simp_all add: bop_wf_def score_sum_def bop_knobs_ok_def bop_sample_def BOPrefetcher_init_def page_offset_def in_page_offset_def)

text \<open>
  The scan stores the index of a score where the score belongs: a phase in which a candidate
  reached the maximal score is not ended.
\<close>

theorem check_end_of_phase_misses_max_score:
  "\<exists>k s. bop_wf k s \<and> (\<exists>x\<in>set (bop_scores s). x \<ge> bop_max_score k) \<and> \<not> fst (check_end_of_phase k s)"
proof -
  let ?k = "\<lparr>bop_candidates = [1, 2], bop_max_rounds = 9, bop_max_score = 3, bop_top_n = 1,
    bop_enable_pref_buffer = False, bop_pref_buffer_size = 16, bop_pref_degree = 4, bop_rr_size = 256\<rparr>"
  let ?s = "(BOPrefetcher_init ?k)\<lparr>bop_scores := [5, 0], bop_round_counter := 8\<rparr>"
  have "bop_wf ?k ?s" by (simp add: bop_wf_def bop_knobs_ok_def BOPrefetcher_init_def score_sum_def)
  moreover have "\<not> fst (check_end_of_phase ?k ?s)"
    by (simp add: check_end_of_phase_def Let_def BOPrefetcher_init_def word_le_def)
  ultimately show ?thesis by (intro exI [of _ ?k] exI [of _ ?s]) simp
qed

end
