(* ===== verification/Cache.thy ===== *)
theory Cache
  imports Replacement "HOL-Library.Multiset"
begin

text \<open>
  A cache of the hierarchy (\<^verbatim>\<open>inc/cache.h\<close>, \<^verbatim>\<open>src/cache.cc\<close>): its state and the operations
  that stay inside it, namely lookup, fill and invalidation of blocks, and the miss status
  holding registers (MSHR). The handlers that talk to the neighbouring levels are in the
  theory \<open>CacheOps\<close>.

  There is one core (\<^verbatim>\<open>NUM_CPUS\<close> is 1), so arrays over cores have one row and a packet of
  another core faults; the current cycle of the core is an argument \<open>now\<close>. Shown: a set
  index is always in range, a filled line is found and an invalidated one is not, and the
  MSHR invariant: the occupancy counts the used registers, and no address has two.
\<close>

section \<open>Module types and constants\<close>

definition IS_ITLB :: u8 where "IS_ITLB = 0"
definition IS_DTLB :: u8 where "IS_DTLB = 1"
definition IS_STLB :: u8 where "IS_STLB = 2"
definition IS_L1I :: u8 where "IS_L1I = 3"
definition IS_L1D :: u8 where "IS_L1D = 4"
definition IS_L2C :: u8 where "IS_L2C = 5"
definition IS_LLC :: u8 where "IS_LLC = 6"

definition INFLIGHT :: u8 where "INFLIGHT = 1"
definition COMPLETED :: u8 where "COMPLETED = 2"

lemmas cache_types = IS_ITLB_def IS_DTLB_def IS_STLB_def IS_L1I_def IS_L1D_def IS_L2C_def IS_LLC_def

record cache_knobs =
  l1d_perfect :: bool
  l2c_perfect :: bool
  llc_perfect :: bool
  l1d_semi_perfect :: bool
  l2c_semi_perfect :: bool
  llc_semi_perfect :: bool
  semi_perfect_cache_page_buffer_size :: u32
  measure_cache_acc :: bool
  measure_cache_acc_epoch :: u32

section \<open>State\<close>

record cache =
  c_cpu :: u32
  c_NUM_SET :: u32
  c_NUM_WAY :: u32
  c_WQ_SIZE :: u32
  c_RQ_SIZE :: u32
  c_PQ_SIZE :: u32
  c_MSHR_SIZE :: u32
  c_LATENCY :: u32
  c_block :: "block list list"
  c_fill_level :: i32
  c_MAX_READ :: u32
  c_reads_available_this_cycle :: u32
  c_cache_type :: u8
  c_pf_requested :: u64
  c_pf_dropped :: u64
  c_pf_issued :: u64
  c_pf_filled :: u64
  c_pf_useful :: u64
  c_pf_useless :: u64
  c_pf_late :: u64
  c_WQ :: packet_queue
  c_RQ :: packet_queue
  c_PQ :: packet_queue
  c_MSHR :: packet_queue
  c_PROCESSED :: packet_queue
  c_sim_access :: "u64 list"
  c_sim_hit :: "u64 list"
  c_sim_miss :: "u64 list"
  c_total_miss_latency :: u64
  c_page_buffer :: "u64 list"
  c_cycle :: u64
  c_next_measure_cycle :: u64
  c_pf_useful_epoch :: u64
  c_pf_filled_epoch :: u64
  c_pref_acc :: u32
  c_total_acc_epochs :: u64
  c_acc_epoch_hist :: "u64 list"
  c_ACCESS :: "u64 list"
  c_HIT :: "u64 list"
  c_MISS :: "u64 list"
  c_MSHR_MERGED :: "u64 list"
  c_STALL :: "u64 list"

definition ROB_SIZE :: u32 where "ROB_SIZE = 576"

text \<open>
  The constructor \<^verbatim>\<open>CACHE(v1, ..., v8)\<close>; \<open>raw\<close> and \<open>rawp\<close> give the members it leaves
  uninitialised (\<^verbatim>\<open>cpu\<close>, \<^verbatim>\<open>cache_type\<close>, \<^verbatim>\<open>reads_available_this_cycle\<close>, \<^verbatim>\<open>acc_epoch_hist\<close>).
\<close>

definition CACHE_init ::
  "cache \<Rightarrow> packet \<Rightarrow> string \<Rightarrow> u32 \<Rightarrow> u32 \<Rightarrow> u32 \<Rightarrow> u32 \<Rightarrow> u32 \<Rightarrow> u32 \<Rightarrow> cache" where
  "CACHE_init raw rawp v1 v2 v3 v5 v6 v7 v8 =
     \<lparr>c_cpu = c_cpu raw, c_NUM_SET = v2, c_NUM_WAY = v3, c_WQ_SIZE = v5, c_RQ_SIZE = v6, c_PQ_SIZE = v7,
      c_MSHR_SIZE = v8, c_LATENCY = 0,
      c_block = replicate (unat v2) (map (\<lambda>j. BLOCK_init\<lparr>b_lru := of_nat j\<rparr>) [0..<unat v3]),
      c_fill_level = - 1, c_MAX_READ = 1,
      c_reads_available_this_cycle = c_reads_available_this_cycle raw, c_cache_type = c_cache_type raw,
      c_pf_requested = 0, c_pf_dropped = 0, c_pf_issued = 0, c_pf_filled = 0, c_pf_useful = 0,
      c_pf_useless = 0, c_pf_late = 0,
      c_WQ = PACKET_QUEUE_init rawp (v1 @ ''_WQ'') v5, c_RQ = PACKET_QUEUE_init rawp (v1 @ ''_RQ'') v6,
      c_PQ = PACKET_QUEUE_init rawp (v1 @ ''_PQ'') v7, c_MSHR = PACKET_QUEUE_init rawp (v1 @ ''_MSHR'') v8,
      c_PROCESSED = PACKET_QUEUE_init rawp (v1 @ ''_PROCESSED'') ROB_SIZE,
      c_sim_access = replicate 4 0, c_sim_hit = replicate 4 0, c_sim_miss = replicate 4 0,
      c_total_miss_latency = 0, c_page_buffer = [], c_cycle = 0, c_next_measure_cycle = 0,
      c_pf_useful_epoch = 0, c_pf_filled_epoch = 0, c_pref_acc = 0, c_total_acc_epochs = 0,
      c_acc_epoch_hist = c_acc_epoch_hist raw,
      c_ACCESS = replicate 4 0, c_HIT = replicate 4 0, c_MISS = replicate 4 0,
      c_MSHR_MERGED = replicate 4 0, c_STALL = replicate 4 0\<rparr>"

text \<open>\<^verbatim>\<open>X[type]++\<close> on an array of \<^verbatim>\<open>NUM_TYPES\<close> counters.\<close>

definition bump :: "u8 \<Rightarrow> u64 list \<Rightarrow> u64 list res" where
  "bump t xs = (if unat t < length xs then Inr (xs[unat t := xs ! unat t + 1]) else Inl Out_of_bounds)"

section \<open>Set index and lookup\<close>

text \<open>\<^verbatim>\<open>lg2\<close> of \<^verbatim>\<open>main.cc\<close>, for a non-negative argument.\<close>

function lg2_loop :: "nat \<Rightarrow> int \<Rightarrow> int" where
  "lg2_loop m c = (if m = 0 then c else lg2_loop (m div 2) (c + 1))"
  by pat_completeness auto
termination by (relation "measure fst") auto

definition lg2 :: "nat \<Rightarrow> int" where
  "lg2 n = lg2_loop n (- 1)"

declare lg2_loop.simps [simp del]

text \<open>\<^verbatim>\<open>(uint32_t)(address & ((1 << lg2(NUM_SET)) - 1))\<close>, the shift at the width of \<^verbatim>\<open>int\<close>.\<close>

definition get_set :: "cache \<Rightarrow> u64 \<Rightarrow> u32" where
  "get_set c addr = ucast (addr AND scast ((push_bit (nat (lg2 (unat (c_NUM_SET c)))) 1 :: i32) - 1))"

definition block_at :: "cache \<Rightarrow> u32 \<Rightarrow> nat \<Rightarrow> block res" where
  "block_at c st way =
     (if unat st < length (c_block c) \<and> way < length (c_block c ! unat st)
      then Inr (c_block c ! unat st ! way) else Inl Out_of_bounds)"

definition put_block :: "u32 \<Rightarrow> nat \<Rightarrow> block \<Rightarrow> cache \<Rightarrow> cache" where
  "put_block st way b c =
     c\<lparr>c_block := (c_block c)[unat st := (c_block c ! unat st)[way := b]]\<rparr>"

definition tag_match :: "cache \<Rightarrow> u32 \<Rightarrow> u64 \<Rightarrow> nat \<Rightarrow> bool" where
  "tag_match c st addr way \<longleftrightarrow>
     b_valid (c_block c ! unat st ! way) \<noteq> 0 \<and> b_tag (c_block c ! unat st ! way) = addr"

definition find_way :: "cache \<Rightarrow> u32 \<Rightarrow> u64 \<Rightarrow> nat option" where
  "find_way c st addr = find (tag_match c st addr) [0..<unat (c_NUM_WAY c)]"

definition get_way :: "cache \<Rightarrow> u64 \<Rightarrow> u32 \<Rightarrow> u32 res" where
  "get_way c addr st =
     (if \<not> unat st < length (c_block c) then Inl Out_of_bounds
      else Inr (case find_way c st addr of Some way \<Rightarrow> of_nat way | None \<Rightarrow> c_NUM_WAY c))"

text \<open>\<^verbatim>\<open>search_and_add\<close>: the page buffer of the semi-perfect cache.\<close>

definition search_and_add :: "cache_knobs \<Rightarrow> u64 \<Rightarrow> cache \<Rightarrow> (bool \<times> cache) res" where
  "search_and_add k page c =
     (let buf = c_page_buffer c;
          found = (find (\<lambda>p. p = page) buf \<noteq> None)
      in if found then Inr (True, c)
         else
           let full = (unat (semi_perfect_cache_page_buffer_size k) \<le> length buf) in
           if full \<and> buf = [] then Inl Out_of_bounds
           else Inr (False, c\<lparr>c_page_buffer := (if full then tl buf else buf) @ [page]\<rparr>))"

definition cache_perfect :: "cache_knobs \<Rightarrow> cache \<Rightarrow> bool" where
  "cache_perfect k c \<longleftrightarrow> (c_cache_type c = IS_L1D \<and> l1d_perfect k) \<or>
     (c_cache_type c = IS_L2C \<and> l2c_perfect k) \<or> (c_cache_type c = IS_LLC \<and> llc_perfect k)"

definition cache_semi_perfect :: "cache_knobs \<Rightarrow> cache \<Rightarrow> bool" where
  "cache_semi_perfect k c \<longleftrightarrow> (c_cache_type c = IS_L1D \<and> l1d_semi_perfect k) \<or>
     (c_cache_type c = IS_L2C \<and> l2c_semi_perfect k) \<or> (c_cache_type c = IS_LLC \<and> llc_semi_perfect k)"

definition check_hit :: "cache_knobs \<Rightarrow> packet \<Rightarrow> cache \<Rightarrow> (int \<times> cache) res" where
  "check_hit k p c =
     (let st = get_set c (p_address p) in
      if c_NUM_SET c < st then Inl Assert_failed
      else if cache_perfect k c then Inr (0, c)
      else
        bind_res
          (if cache_semi_perfect k c \<and> ucast (p_type p) = LOAD
           then search_and_add k (page_of (p_address p)) c else Inr (False, c))
          (\<lambda>(found, c).
             if found then Inr (0, c)
             else if \<not> unat st < length (c_block c) then Inl Out_of_bounds
             else Inr (case find_way c st (p_address p) of Some way \<Rightarrow> int way | None \<Rightarrow> -1, c)))"

definition invalidate_entry :: "u64 \<Rightarrow> cache \<Rightarrow> (int \<times> cache) res" where
  "invalidate_entry inval_addr c =
     (let st = get_set c inval_addr in
      if c_NUM_SET c < st then Inl Assert_failed
      else if \<not> unat st < length (c_block c) then Inl Out_of_bounds
      else
        case find_way c st inval_addr of
          None \<Rightarrow> Inr (-1, c)
        | Some way \<Rightarrow> Inr (int way, put_block st way ((c_block c ! unat st ! way)\<lparr>b_valid := 0\<rparr>) c))"

section \<open>Fill\<close>

text \<open>The block that \<^verbatim>\<open>fill_cache\<close> writes over the victim \<open>b\<close>.\<close>

definition filled_block :: "packet \<Rightarrow> block \<Rightarrow> block" where
  "filled_block p b =
     b\<lparr>b_valid := (if b_valid b = 0 then 1 else b_valid b), b_dirty := 0,
       b_prefetch := (if ucast (p_type p) = PREFETCH then 1 else 0), b_used := 0,
       b_delta := p_delta p, b_depth := p_depth p, b_signature := p_signature p, b_confidence := p_confidence p,
       b_tag := p_address p, b_address := p_address p, b_full_addr := p_full_addr p, b_data := p_data p,
       b_cpu := ucast (p_cpu p), b_instr_id := p_instr_id p\<rparr>"

definition fill_cache :: "u32 \<Rightarrow> nat \<Rightarrow> packet \<Rightarrow> cache \<Rightarrow> cache res" where
  "fill_cache st way p c =
     (if (c_cache_type c = IS_ITLB \<or> c_cache_type c = IS_DTLB \<or> c_cache_type c = IS_STLB) \<and> p_data p = 0
      then Inl Assert_failed
      else
        bind_res (block_at c st way) (\<lambda>b.
          let c = (if b_prefetch b \<noteq> 0 \<and> b_used b = 0 then c\<lparr>c_pf_useless := c_pf_useless c + 1\<rparr> else c);
              b' = filled_block p b;
              c = (if b_prefetch b' \<noteq> 0
                   then c\<lparr>c_pf_filled := c_pf_filled c + 1, c_pf_filled_epoch := c_pf_filled_epoch c + 1\<rparr> else c)
          in Inr (put_block st way b' c)))"

section \<open>Miss status holding registers\<close>

definition check_mshr :: "cache \<Rightarrow> packet \<Rightarrow> int" where
  "check_mshr c p =
     (case find (\<lambda>i. p_address (q_entry (c_MSHR c) ! i) = p_address p) [0..<unat (c_MSHR_SIZE c)] of
        Some i \<Rightarrow> int i | None \<Rightarrow> -1)"

text \<open>\<^verbatim>\<open>add_mshr\<close> also stamps the packet of its caller.\<close>

definition add_mshr :: "u64 \<Rightarrow> packet \<Rightarrow> cache \<Rightarrow> (packet \<times> cache) res" where
  "add_mshr now p c =
     (if p_cpu p \<ge> NUM_CPUS then Inl Out_of_bounds
      else
        let p = p\<lparr>p_cycle_enqueued := now\<rparr>; q = c_MSHR c in
        Inr (p, case find (\<lambda>i. p_address (q_entry q ! i) = 0) [0..<unat (c_MSHR_SIZE c)] of
                  None \<Rightarrow> c
                | Some i \<Rightarrow> c\<lparr>c_MSHR := q\<lparr>q_entry := (q_entry q)[i := p\<lparr>p_returned := INFLIGHT\<rparr>],
                                          q_occupancy := q_occupancy q + 1\<rparr>\<rparr>))"

text \<open>The scan of \<^verbatim>\<open>update_fill_cycle\<close> for the completed entry with the earliest cycle.\<close>

primrec fill_scan :: "nat list \<Rightarrow> packet list \<Rightarrow> u64 \<times> u32 \<Rightarrow> u64 \<times> u32" where
  "fill_scan [] es m = m"
| "fill_scan (i # is) es m =
     fill_scan is es
       (if p_returned (es ! i) = COMPLETED \<and> p_event_cycle (es ! i) < fst m
        then (p_event_cycle (es ! i), of_nat i) else m)"

definition update_fill_cycle :: "cache \<Rightarrow> cache" where
  "update_fill_cycle c =
     (let q = c_MSHR c;
          (min_cycle, min_index) = fill_scan [0..<unat (q_SIZE q)] (q_entry q) (- 1, q_SIZE q)
      in c\<lparr>c_MSHR := q\<lparr>q_next_fill_cycle := min_cycle, q_next_fill_index := min_index\<rparr>\<rparr>)"

text \<open>\<^verbatim>\<open>ADD LATENCY\<close>: requests in the past are delayed from now on.\<close>

definition add_latency :: "u64 \<Rightarrow> cache \<Rightarrow> u64 \<Rightarrow> u64" where
  "add_latency now c event_cycle =
     (if event_cycle < now then now + ucast (c_LATENCY c) else event_cycle + ucast (c_LATENCY c))"

definition return_data :: "u64 \<Rightarrow> packet \<Rightarrow> cache \<Rightarrow> cache res" where
  "return_data now p c =
     (let mshr_index = check_mshr c p in
      if mshr_index = -1 then Inl Assert_failed
      else if p_cpu p \<ge> NUM_CPUS then Inl Out_of_bounds
      else
        let q = c_MSHR c; i = nat mshr_index; e = q_entry q ! i;
            e = e\<lparr>p_returned := COMPLETED, p_data := p_data p, p_pf_metadata := p_pf_metadata p,
                   p_event_cycle := add_latency now c (p_event_cycle e)\<rparr>
        in Inr (update_fill_cycle
             (c\<lparr>c_MSHR := q\<lparr>q_num_returned := q_num_returned q + 1, q_entry := (q_entry q)[i := e]\<rparr>\<rparr>)))"

definition get_occupancy :: "u8 \<Rightarrow> u64 \<Rightarrow> cache \<Rightarrow> u32" where
  "get_occupancy queue_type addr c =
     (if queue_type = 0 then q_occupancy (c_MSHR c) else if queue_type = 1 then q_occupancy (c_RQ c)
      else if queue_type = 2 then q_occupancy (c_WQ c) else if queue_type = 3 then q_occupancy (c_PQ c) else 0)"

definition get_size :: "u8 \<Rightarrow> u64 \<Rightarrow> cache \<Rightarrow> u32" where
  "get_size queue_type addr c =
     (if queue_type = 0 then q_SIZE (c_MSHR c) else if queue_type = 1 then q_SIZE (c_RQ c)
      else if queue_type = 2 then q_SIZE (c_WQ c) else if queue_type = 3 then q_SIZE (c_PQ c) else 0)"

definition increment_WQ_FULL :: "u64 \<Rightarrow> cache \<Rightarrow> cache" where
  "increment_WQ_FULL addr c = c\<lparr>c_WQ := (c_WQ c)\<lparr>q_FULL := q_FULL (c_WQ c) + 1\<rparr>\<rparr>"

definition prefetcher_feedback :: "cache \<Rightarrow> u64 \<times> u64 \<times> u64 \<times> u64" where
  "prefetcher_feedback c = (c_pf_issued c, c_pf_filled c, c_pf_useful c, c_pf_late c)"

section \<open>Set index in range\<close>

lemma lg2_loop_spec: "0 < m \<Longrightarrow> \<exists>j. lg2_loop m c = c + 1 + int j \<and> 2 ^ j \<le> m \<and> m < 2 ^ Suc j"
proof (induction m c rule: lg2_loop.induct)
  case (1 m c)
  show ?case
  proof (cases "m div 2 = 0")
    case True
    then have "m = 1" using "1.prems" by auto
    then show ?thesis by (intro exI [of _ 0]) (simp add: lg2_loop.simps)
  next
    case False
    with "1.IH" "1.prems" obtain j where "lg2_loop (m div 2) (c + 1) = c + 1 + 1 + int j"
      "2 ^ j \<le> m div 2" "m div 2 < 2 ^ Suc j" by auto
    then show ?thesis using "1.prems" by (intro exI [of _ "Suc j"]) (auto simp: lg2_loop.simps [of m])
  qed
qed

lemma lg2_spec: "0 < n \<Longrightarrow> \<exists>j. lg2 n = int j \<and> 2 ^ j \<le> n \<and> n < 2 ^ Suc j"
  using lg2_loop_spec [of n "- 1"] by (simp add: lg2_def)

lemma get_set_eq:
  assumes "0 < c_NUM_SET c" "unat (c_NUM_SET c) < 2 ^ 31"
  shows "\<exists>j<31. get_set c a = ucast (take_bit j a) \<and> 2 ^ j \<le> unat (c_NUM_SET c)"
proof -
  obtain j where j: "lg2 (unat (c_NUM_SET c)) = int j" "2 ^ j \<le> unat (c_NUM_SET c)"
    using lg2_spec [OF unat_pos [OF assms(1)]] by blast
  have "(2::nat) ^ j < 2 ^ 31" using j(2) assms(2) by linarith
  then have lt: "j < 31" by (rule power_less_imp_less_exp [rotated]) simp
  have "scast ((push_bit j 1 :: i32) - 1) = (mask j :: u64)"
  proof (rule bit_word_eqI)
    fix n assume "n < LENGTH(64)"
    have "(push_bit j 1 :: i32) - 1 = mask j" by (simp add: mask_eq_decr_exp)
    then show "bit (scast ((push_bit j 1 :: i32) - 1) :: u64) n = bit (mask j :: u64) n"
      using lt \<open>n < LENGTH(64)\<close> by (auto simp: bit_simps min_def)
  qed
  then have "get_set c a = ucast (take_bit j a)" using j(1) by (simp add: get_set_def take_bit_eq_mask)
  then show ?thesis using lt j(2) by blast
qed

lemma get_set_less:
  assumes "0 < c_NUM_SET c" "unat (c_NUM_SET c) < 2 ^ 31"
  shows "unat (get_set c a) < unat (c_NUM_SET c)"
proof -
  obtain j where j: "j < 31" "get_set c a = ucast (take_bit j a)" "2 ^ j \<le> unat (c_NUM_SET c)"
    using get_set_eq [OF assms] by blast
  have "unat (take_bit j a) < 2 ^ j" by (simp add: unsigned_take_bit_eq)
  moreover have "(2::nat) ^ j < 2 ^ 32" using j(1) by (intro power_strict_increasing) auto
  ultimately have "unat (get_set c a) < 2 ^ j"
    using j(2) by (simp add: unsigned_ucast_eq take_bit_nat_eq_self)
  then show ?thesis using j(3) by simp
qed

section \<open>Blocks\<close>

text \<open>
  Every set is a well-formed LRU set and every valid line lies in the set of its tag.
\<close>

definition homed :: "cache \<Rightarrow> bool" where
  "homed c \<longleftrightarrow> (\<forall>i<length (c_block c). \<forall>b\<in>set (c_block c ! i). b_valid b \<noteq> 0 \<longrightarrow> unat (get_set c (b_tag b)) = i)"

definition blocks_wf :: "cache \<Rightarrow> bool" where
  "blocks_wf c \<longleftrightarrow> 0 < c_NUM_SET c \<and> unat (c_NUM_SET c) < 2 ^ 31 \<and> unat (c_NUM_WAY c) < 2 ^ 31 \<and>
     length (c_block c) = unat (c_NUM_SET c) \<and> list_all (lru_wf (c_NUM_WAY c)) (c_block c) \<and> homed c"

lemma blocks_wfD:
  assumes "blocks_wf c"
  shows "unat (get_set c a) < length (c_block c)" "\<not> c_NUM_SET c < get_set c a"
    "i < length (c_block c) \<Longrightarrow> lru_wf (c_NUM_WAY c) (c_block c ! i)"
    "i < length (c_block c) \<Longrightarrow> length (c_block c ! i) = unat (c_NUM_WAY c)"
  using assms get_set_less [of c a] by (auto simp: blocks_wf_def word_less_nat_alt list_all_length lru_wf_def)

lemma get_set_cong: "c_NUM_SET c' = c_NUM_SET c \<Longrightarrow> get_set c' a = get_set c a"
  by (simp add: get_set_def)

lemma lru_wf_cong: "ranks bs' = ranks bs \<Longrightarrow> lru_wf n bs' = lru_wf n bs"
  unfolding lru_wf_def by (metis length_ranks)

lemma ranks_update: "b_lru b = b_lru (bs ! w) \<Longrightarrow> ranks (bs[w := b]) = ranks bs"
  by (simp add: ranks_def map_update list_update_same_conv) (metis list_update_id map_update)

text \<open>Overwriting a block without touching its rank keeps the sets well formed.\<close>

lemma put_block_wf:
  assumes "blocks_wf c" "unat st < length (c_block c)" "w < unat (c_NUM_WAY c)"
    and "b_lru b = b_lru (c_block c ! unat st ! w)" "b_valid b \<noteq> 0 \<longrightarrow> unat (get_set c (b_tag b)) = unat st"
  shows "blocks_wf (put_block st w b c)"
proof -
  let ?bs = "c_block c ! unat st"
  have "lru_wf (c_NUM_WAY c) (?bs[w := b])"
    using blocks_wfD(3) [OF assms(1,2)] lru_wf_cong [OF ranks_update [OF assms(4)]] by simp
  then have "list_all (lru_wf (c_NUM_WAY c)) ((c_block c)[unat st := ?bs[w := b]])"
    using assms(1,2) by (auto simp: blocks_wf_def list_all_length nth_list_update)
  moreover have "homed (put_block st w b c)"
    using assms(1,2,5) unfolding homed_def blocks_wf_def put_block_def
    by (auto simp: nth_list_update get_set_cong [of "c\<lparr>c_block := _\<rparr>" c] dest!: set_update_subset_insert [THEN subsetD])
  ultimately show ?thesis using assms(1) by (simp add: blocks_wf_def put_block_def)
qed

lemma find_way_Some:
  "find_way c st a = Some w \<longleftrightarrow> w < unat (c_NUM_WAY c) \<and> tag_match c st a w \<and> (\<forall>v<w. \<not> tag_match c st a v)"
  by (simp add: find_way_def find_upt_Some)

lemma find_way_None: "find_way c st a = None \<longleftrightarrow> (\<forall>w<unat (c_NUM_WAY c). \<not> tag_match c st a w)"
  by (simp add: find_way_def find_None_iff)

lemma tag_match_put:
  assumes "blocks_wf c" "unat st < length (c_block c)" "w < unat (c_NUM_WAY c)"
  shows "tag_match (put_block st w b c) st' a v \<longleftrightarrow>
    (if st' = st \<and> v = w then b_valid b \<noteq> 0 \<and> b_tag b = a else tag_match c st' a v)"
  using assms blocks_wfD(4) [OF assms(1,2)]
  by (auto simp: tag_match_def put_block_def nth_list_update word_unat_eq_iff)

text \<open>A line is in the cache when a way of its set has its tag.\<close>

definition cached :: "cache \<Rightarrow> u64 \<Rightarrow> bool" where
  "cached c a \<longleftrightarrow> find_way c (get_set c a) a \<noteq> None"

definition line_data :: "cache \<Rightarrow> u64 \<Rightarrow> u64 option" where
  "line_data c a = map_option (\<lambda>w. b_data (c_block c ! unat (get_set c a) ! w)) (find_way c (get_set c a) a)"

text \<open>\<^verbatim>\<open>fill_cache\<close> writes the block; the rest of the change is in the prefetch counters.\<close>

definition fill_stats :: "packet \<Rightarrow> block \<Rightarrow> cache \<Rightarrow> cache" where
  "fill_stats p b c =
     (let c = (if b_prefetch b \<noteq> 0 \<and> b_used b = 0 then c\<lparr>c_pf_useless := c_pf_useless c + 1\<rparr> else c)
      in if b_prefetch (filled_block p b) \<noteq> 0
         then c\<lparr>c_pf_filled := c_pf_filled c + 1, c_pf_filled_epoch := c_pf_filled_epoch c + 1\<rparr> else c)"

lemma fill_stats_frame [simp]:
  "c_block (fill_stats p b c) = c_block c" "c_NUM_SET (fill_stats p b c) = c_NUM_SET c"
  "c_NUM_WAY (fill_stats p b c) = c_NUM_WAY c" "c_cache_type (fill_stats p b c) = c_cache_type c"
  "c_MSHR (fill_stats p b c) = c_MSHR c" "c_RQ (fill_stats p b c) = c_RQ c" "c_WQ (fill_stats p b c) = c_WQ c"
  "c_PQ (fill_stats p b c) = c_PQ c" "c_PROCESSED (fill_stats p b c) = c_PROCESSED c"
  "c_MSHR_SIZE (fill_stats p b c) = c_MSHR_SIZE c"
  by (simp_all add: fill_stats_def Let_def)

lemma fill_cache_put:
  assumes "blocks_wf c" "unat st < length (c_block c)" "w < unat (c_NUM_WAY c)"
    and "c_cache_type c \<in> {IS_ITLB, IS_DTLB, IS_STLB} \<longrightarrow> p_data p \<noteq> 0"
  shows "fill_cache st w p c = Inr (put_block st w (filled_block p (c_block c ! unat st ! w))
    (fill_stats p (c_block c ! unat st ! w) c))"
proof -
  have "block_at c st w = Inr (c_block c ! unat st ! w)"
    using assms(2,3) blocks_wfD(4) [OF assms(1,2)] by (simp add: block_at_def)
  moreover have "\<not> ((c_cache_type c = IS_ITLB \<or> c_cache_type c = IS_DTLB \<or> c_cache_type c = IS_STLB) \<and> p_data p = 0)"
    using assms(4) by blast
  ultimately show ?thesis by (simp only: fill_cache_def fill_stats_def Let_def if_False bind_res_simps)
qed

lemma blocks_wf_cong:
  assumes "c_block c' = c_block c" "c_NUM_SET c' = c_NUM_SET c" "c_NUM_WAY c' = c_NUM_WAY c"
  shows "blocks_wf c' = blocks_wf c" "find_way c' = find_way c" "get_set c' = get_set c"
proof -
  show g: "get_set c' = get_set c" using get_set_cong [OF assms(2)] by blast
  show "blocks_wf c' = blocks_wf c" by (simp add: blocks_wf_def homed_def assms g)
  have "tag_match c' = tag_match c" by (intro ext) (simp add: tag_match_def assms)
  then show "find_way c' = find_way c" by (intro ext) (simp add: find_way_def assms)
qed

lemma put_block_frame [simp]:
  "c_NUM_SET (put_block st w b c) = c_NUM_SET c" "c_NUM_WAY (put_block st w b c) = c_NUM_WAY c"
  "c_cache_type (put_block st w b c) = c_cache_type c" "c_MSHR (put_block st w b c) = c_MSHR c"
  "c_RQ (put_block st w b c) = c_RQ c" "c_WQ (put_block st w b c) = c_WQ c" "c_PQ (put_block st w b c) = c_PQ c"
  "c_PROCESSED (put_block st w b c) = c_PROCESSED c" "c_MSHR_SIZE (put_block st w b c) = c_MSHR_SIZE c"
  by (simp_all add: put_block_def)

lemma filled_block_fields:
  "b_valid (filled_block p b) \<noteq> 0" "b_tag (filled_block p b) = p_address p"
  "b_data (filled_block p b) = p_data p" "b_lru (filled_block p b) = b_lru b" "b_dirty (filled_block p b) = 0"
  by (simp_all add: filled_block_def)

lemma fill_cache_ok:
  assumes "blocks_wf c" "st = get_set c (p_address p)" "w < unat (c_NUM_WAY c)"
    and "c_cache_type c \<in> {IS_ITLB, IS_DTLB, IS_STLB} \<longrightarrow> p_data p \<noteq> 0"
  shows "\<exists>c'. fill_cache st w p c = Inr c' \<and> blocks_wf c' \<and> get_set c' = get_set c \<and>
    c_NUM_WAY c' = c_NUM_WAY c \<and>
    (\<forall>st' a v. tag_match c' st' a v \<longleftrightarrow> (if st' = st \<and> v = w then a = p_address p else tag_match c st' a v)) \<and>
    c_block c' ! unat st ! w = filled_block p (c_block c ! unat st ! w)"
proof -
  let ?b = "c_block c ! unat st ! w" and ?c = "fill_stats p (c_block c ! unat st ! w) c"
  let ?c' = "put_block st w (filled_block p ?b) ?c"
  have st: "unat st < length (c_block c)" using blocks_wfD(1) [OF assms(1)] assms(2) by simp
  have wf: "blocks_wf ?c" using assms(1) blocks_wf_cong(1) [of ?c c] by simp
  have g: "get_set ?c (p_address p) = st" unfolding assms(2) by (rule get_set_cong) simp
  have "blocks_wf ?c'"
    using put_block_wf [OF wf, of st w "filled_block p ?b"] st assms(3) by (simp add: filled_block_fields g)
  moreover have "tag_match ?c' st' a v \<longleftrightarrow> (if st' = st \<and> v = w then a = p_address p else tag_match c st' a v)" for st' a v
    using tag_match_put [OF wf, of st w "filled_block p ?b" st' a v] st assms(3)
    by (auto simp: filled_block_fields tag_match_def)
  moreover have "get_set ?c' = get_set c" by (rule ext) (simp add: get_set_def)
  moreover have "c_block ?c' ! unat st ! w = filled_block p ?b"
    using st assms(3) blocks_wfD(4) [OF assms(1) st] by (simp add: put_block_def)
  ultimately show ?thesis using fill_cache_put [OF assms(1) st assms(3,4)] by simp
qed

lemma check_hit_plain:
  assumes "blocks_wf c" "\<not> cache_perfect k c" "\<not> cache_semi_perfect k c"
  shows "check_hit k p c =
    Inr (case find_way c (get_set c (p_address p)) (p_address p) of Some way \<Rightarrow> int way | None \<Rightarrow> -1, c)"
  using blocks_wfD(1,2) [OF assms(1), of "p_address p"] assms(2,3) by (simp add: check_hit_def Let_def)

lemma find_way_transfer:
  assumes "\<And>v. v < unat (c_NUM_WAY c) \<Longrightarrow> tag_match c' st a v = tag_match c st a v" "c_NUM_WAY c' = c_NUM_WAY c"
  shows "find_way c' st a = find_way c st a"
  unfolding find_way_def using assms by (intro find_cong) auto

section \<open>The MSHR invariant\<close>

definition used_entries :: "packet list \<Rightarrow> packet list" where
  "used_entries es = filter (\<lambda>e. p_address e \<noteq> 0) es"

definition entry_done :: "packet \<Rightarrow> bool" where
  "entry_done e \<longleftrightarrow> p_returned e = COMPLETED \<and> p_event_cycle e < - 1"

definition next_fill_ok :: "packet_queue \<Rightarrow> bool" where
  "next_fill_ok q \<longleftrightarrow>
     (q_next_fill_cycle q = - 1 \<and> (\<forall>e\<in>set (q_entry q). \<not> entry_done e)) \<or>
     (unat (q_next_fill_index q) < length (q_entry q) \<and>
      entry_done (q_entry q ! unat (q_next_fill_index q)) \<and>
      p_event_cycle (q_entry q ! unat (q_next_fill_index q)) = q_next_fill_cycle q \<and>
      (\<forall>e\<in>set (q_entry q). entry_done e \<longrightarrow> q_next_fill_cycle q \<le> p_event_cycle e))"

definition mshr_wf :: "cache \<Rightarrow> bool" where
  "mshr_wf c \<longleftrightarrow> q_SIZE (c_MSHR c) = c_MSHR_SIZE c \<and> unat (c_MSHR_SIZE c) < 2 ^ 31 \<and>
     length (q_entry (c_MSHR c)) = unat (c_MSHR_SIZE c) \<and>
     unat (q_occupancy (c_MSHR c)) = length (used_entries (q_entry (c_MSHR c))) \<and>
     distinct (map p_address (used_entries (q_entry (c_MSHR c)))) \<and>
     (\<forall>e\<in>set (q_entry (c_MSHR c)). p_address e = 0 \<longrightarrow> p_returned e \<noteq> COMPLETED) \<and>
     next_fill_ok (c_MSHR c)"

lemma fill_scan_spec:
  assumes "fill_scan is es m0 = (cyc, idx)" "\<forall>i\<in>set is. i < length es" "length es < 2 ^ 32"
  shows "cyc \<le> fst m0 \<and>
    ((cyc, idx) = m0 \<or> unat idx < length es \<and> p_returned (es ! unat idx) = COMPLETED \<and>
       p_event_cycle (es ! unat idx) = cyc \<and> cyc < fst m0) \<and>
    (\<forall>i\<in>set is. p_returned (es ! i) = COMPLETED \<longrightarrow> cyc \<le> p_event_cycle (es ! i))"
  using assms(1,2)
proof (induction "is" arbitrary: m0)
  case Nil
  then show ?case by simp
next
  case (Cons i "is")
  let ?hit = "p_returned (es ! i) = COMPLETED \<and> p_event_cycle (es ! i) < fst m0"
  let ?m = "if ?hit then (p_event_cycle (es ! i), of_nat i) else m0"
  have IH: "cyc \<le> fst ?m \<and>
    ((cyc, idx) = ?m \<or> unat idx < length es \<and> p_returned (es ! unat idx) = COMPLETED \<and>
       p_event_cycle (es ! unat idx) = cyc \<and> cyc < fst ?m) \<and>
    (\<forall>i\<in>set is. p_returned (es ! i) = COMPLETED \<longrightarrow> cyc \<le> p_event_cycle (es ! i))"
    using Cons.prems by (intro Cons.IH) auto
  have i: "unat (of_nat i :: u32) = i" "i < length es" using Cons.prems(2) assms(3) by (auto simp: unat_of_nat take_bit_nat_eq_self)
  show ?case using IH i by (cases ?hit) auto
qed

lemma update_fill_cycle_ok:
  assumes "length (q_entry (c_MSHR c)) = unat (q_SIZE (c_MSHR c))" "unat (q_SIZE (c_MSHR c)) < 2 ^ 31"
  shows "next_fill_ok (c_MSHR (update_fill_cycle c))"
proof -
  let ?q = "c_MSHR c"
  obtain cyc idx where scan: "fill_scan [0..<unat (q_SIZE ?q)] (q_entry ?q) (- 1, q_SIZE ?q) = (cyc, idx)" by force
  have mem: "e \<in> set (q_entry ?q) \<Longrightarrow> \<exists>i<unat (q_SIZE ?q). e = q_entry ?q ! i" for e
    using assms(1) by (metis in_set_conv_nth)
  from fill_scan_spec [OF scan] assms
  have c: "(cyc, idx) = (- 1, q_SIZE ?q) \<or> unat idx < length (q_entry ?q) \<and> p_returned (q_entry ?q ! unat idx) = COMPLETED \<and>
       p_event_cycle (q_entry ?q ! unat idx) = cyc \<and> cyc < - 1"
    and min: "\<forall>i<unat (q_SIZE ?q). p_returned (q_entry ?q ! i) = COMPLETED \<longrightarrow> cyc \<le> p_event_cycle (q_entry ?q ! i)"
    by auto
  have le: "\<forall>e\<in>set (q_entry ?q). entry_done e \<longrightarrow> cyc \<le> p_event_cycle e"
    using min mem by (metis entry_done_def)
  show ?thesis using c le scan by (auto simp: next_fill_ok_def update_fill_cycle_def Let_def entry_done_def)
qed

lemma check_mshr_cases:
  "check_mshr c p = -1 \<and> (\<forall>i<unat (c_MSHR_SIZE c). p_address (q_entry (c_MSHR c) ! i) \<noteq> p_address p) \<or>
   (\<exists>i<unat (c_MSHR_SIZE c). check_mshr c p = int i \<and> p_address (q_entry (c_MSHR c) ! i) = p_address p)"
proof (cases "find (\<lambda>i. p_address (q_entry (c_MSHR c) ! i) = p_address p) [0..<unat (c_MSHR_SIZE c)]")
  case None
  then have "check_mshr c p = -1" by (simp add: check_mshr_def)
  moreover from None have "\<forall>i<unat (c_MSHR_SIZE c). p_address (q_entry (c_MSHR c) ! i) \<noteq> p_address p"
    by (simp add: find_None_iff)
  ultimately show ?thesis by simp
next
  case (Some i)
  then have "check_mshr c p = int i" by (simp add: check_mshr_def)
  moreover from Some have "i < unat (c_MSHR_SIZE c)" "p_address (q_entry (c_MSHR c) ! i) = p_address p"
    by (simp_all add: find_upt_Some)
  ultimately show ?thesis by blast
qed

lemma used_entries_set: "set (used_entries es) = {e \<in> set es. p_address e \<noteq> 0}"
  by (auto simp: used_entries_def)

text \<open>Filling a free register adds one used entry.\<close>

lemma used_entries_split:
  assumes "i < length es"
  shows "used_entries (es[i := e]) =
    used_entries (take i es) @ (if p_address e = 0 then [] else [e]) @ used_entries (drop (Suc i) es)"
    "used_entries es =
    used_entries (take i es) @ (if p_address (es ! i) = 0 then [] else [es ! i]) @ used_entries (drop (Suc i) es)"
proof -
  show "used_entries es =
    used_entries (take i es) @ (if p_address (es ! i) = 0 then [] else [es ! i]) @ used_entries (drop (Suc i) es)"
    by (subst id_take_nth_drop [OF assms]) (simp add: used_entries_def)
qed (use assms in \<open>simp add: used_entries_def upd_conv_take_nth_drop\<close>)

lemma used_entries_fill:
  assumes "i < length es" "p_address (es ! i) = 0" "p_address e \<noteq> 0"
  shows "mset (used_entries (es[i := e])) = add_mset e (mset (used_entries es))"
  unfolding used_entries_split [OF assms(1)] using assms by simp

lemma used_entries_free:
  assumes "i < length es" "p_address (es ! i) \<noteq> 0" "p_address e = 0"
  shows "mset (used_entries es) = add_mset (es ! i) (mset (used_entries (es[i := e])))"
  unfolding used_entries_split [OF assms(1)] using assms by simp

lemma used_entries_same:
  assumes "i < length es" "p_address e = p_address (es ! i)"
  shows "map p_address (used_entries (es[i := e])) = map p_address (used_entries es)"
  unfolding used_entries_split [OF assms(1)] using assms by simp

lemma distinct_map_add_mset:
  assumes "mset xs = add_mset e (mset ys)"
  shows "distinct (map f xs) \<longleftrightarrow> f e \<notin> f ` set ys \<and> distinct (map f ys)"
proof -
  have "mset (map f xs) = mset (map f (e # ys))" using assms by simp
  then have "distinct (map f xs) = distinct (map f (e # ys))" by (rule mset_eq_imp_distinct_iff)
  then show ?thesis by simp
qed

lemma length_add_mset: "mset xs = add_mset e (mset ys) \<Longrightarrow> length xs = Suc (length ys)"
  by (metis size_add_mset size_mset)

lemma used_entries_le: "length (used_entries es) \<le> length es"
  by (simp add: used_entries_def)

lemma free_entry_exists:
  assumes "length (used_entries es) < length es"
  shows "\<exists>i<length es. p_address (es ! i) = 0"
proof (rule ccontr)
  assume "\<not> ?thesis"
  then have "\<forall>e\<in>set es. p_address e \<noteq> 0" by (auto simp: in_set_conv_nth)
  then have "used_entries es = es" by (simp add: used_entries_def filter_id_conv)
  then show False using assms by simp
qed

lemma next_fill_ok_update:
  assumes "next_fill_ok q" "i < length (q_entry q)" "\<not> entry_done (q_entry q ! i)" "\<not> entry_done e"
  shows "next_fill_ok (q\<lparr>q_entry := (q_entry q)[i := e], q_occupancy := n\<rparr>)"
proof -
  have sub: "entry_done x \<Longrightarrow> x \<in> set ((q_entry q)[i := e]) \<Longrightarrow> x \<in> set (q_entry q)" for x
    using assms(4) set_update_subset_insert [of "q_entry q" i e] by auto
  consider (idle) "q_next_fill_cycle q = - 1" "\<forall>e\<in>set (q_entry q). \<not> entry_done e"
    | (busy) "unat (q_next_fill_index q) < length (q_entry q)" "entry_done (q_entry q ! unat (q_next_fill_index q))"
      "p_event_cycle (q_entry q ! unat (q_next_fill_index q)) = q_next_fill_cycle q"
      "\<forall>e\<in>set (q_entry q). entry_done e \<longrightarrow> q_next_fill_cycle q \<le> p_event_cycle e"
    using assms(1) unfolding next_fill_ok_def by blast
  then show ?thesis
  proof cases
    case idle
    then show ?thesis using sub by (auto simp: next_fill_ok_def)
  next
    case busy
    then have "i \<noteq> unat (q_next_fill_index q)" using assms(3) by auto
    then show ?thesis using busy sub by (auto simp: next_fill_ok_def)
  qed
qed

text \<open>A new miss gets the first free register; no other register changes.\<close>

lemma add_mshr_ok:
  assumes "mshr_wf c" "check_mshr c p = -1" "q_occupancy (c_MSHR c) < c_MSHR_SIZE c" "p_address p \<noteq> 0" "p_cpu p < NUM_CPUS"
  shows "\<exists>c' i. add_mshr now p c = Inr (p\<lparr>p_cycle_enqueued := now\<rparr>, c') \<and> mshr_wf c' \<and>
    i < unat (c_MSHR_SIZE c) \<and> p_address (q_entry (c_MSHR c) ! i) = 0 \<and>
    q_entry (c_MSHR c') = (q_entry (c_MSHR c))[i := p\<lparr>p_cycle_enqueued := now, p_returned := INFLIGHT\<rparr>] \<and>
    q_occupancy (c_MSHR c') = q_occupancy (c_MSHR c) + 1 \<and> c_MSHR_SIZE c' = c_MSHR_SIZE c"
proof -
  let ?q = "c_MSHR c" and ?e = "p\<lparr>p_cycle_enqueued := now, p_returned := INFLIGHT\<rparr>"
  have wf: "q_SIZE ?q = c_MSHR_SIZE c" "unat (c_MSHR_SIZE c) < 2 ^ 31" "length (q_entry ?q) = unat (c_MSHR_SIZE c)"
    "unat (q_occupancy ?q) = length (used_entries (q_entry ?q))" "distinct (map p_address (used_entries (q_entry ?q)))"
    "\<forall>e\<in>set (q_entry ?q). p_address e = 0 \<longrightarrow> p_returned e \<noteq> COMPLETED" "next_fill_ok ?q"
    using assms(1) by (auto simp: mshr_wf_def)
  have lt: "unat (q_occupancy ?q) < unat (c_MSHR_SIZE c)" using assms(3) by (simp add: word_less_nat_alt)
  then obtain i0 where "i0 < unat (c_MSHR_SIZE c)" "p_address (q_entry ?q ! i0) = 0"
    using free_entry_exists [of "q_entry ?q"] wf(3,4) by auto
  then obtain i where f: "find (\<lambda>i. p_address (q_entry ?q ! i) = 0) [0..<unat (c_MSHR_SIZE c)] = Some i"
    by (cases "find (\<lambda>i. p_address (q_entry ?q ! i) = 0) [0..<unat (c_MSHR_SIZE c)]") (auto simp: find_None_iff)
  then have i: "i < length (q_entry ?q)" "p_address (q_entry ?q ! i) = 0" using wf(3) by (auto simp: find_upt_Some)
  let ?q' = "?q\<lparr>q_entry := (q_entry ?q)[i := ?e], q_occupancy := q_occupancy ?q + 1\<rparr>"
  have add: "add_mshr now p c = Inr (p\<lparr>p_cycle_enqueued := now\<rparr>, c\<lparr>c_MSHR := ?q'\<rparr>)"
    using assms(5) f by (simp add: add_mshr_def Let_def not_le)
  have ms: "mset (used_entries ((q_entry ?q)[i := ?e])) = add_mset ?e (mset (used_entries (q_entry ?q)))"
    using i assms(4) by (intro used_entries_fill) auto
  have "p_address p \<notin> p_address ` set (used_entries (q_entry ?q))"
    using check_mshr_cases [of c p] assms(2) wf(3) by (auto simp: used_entries_set in_set_conv_nth)
  then have "distinct (map p_address (used_entries ((q_entry ?q)[i := ?e])))"
    using distinct_map_add_mset [OF ms, of p_address] wf(5) by simp
  moreover have "unat (q_occupancy ?q + 1) = length (used_entries ((q_entry ?q)[i := ?e]))"
    using length_add_mset [OF ms] wf(4) lt wf(2) unat_succ [of "q_occupancy ?q"] by simp
  moreover have "next_fill_ok ?q'"
    using i wf(6) nth_mem [OF i(1)] by (intro next_fill_ok_update [OF wf(7) i(1)]) (auto simp: entry_done_def INFLIGHT_def COMPLETED_def)
  moreover have "\<forall>e\<in>set ((q_entry ?q)[i := ?e]). p_address e = 0 \<longrightarrow> p_returned e \<noteq> COMPLETED"
    using wf(6) set_update_subset_insert [of "q_entry ?q" i ?e] by (auto simp: INFLIGHT_def COMPLETED_def)
  ultimately have "mshr_wf (c\<lparr>c_MSHR := ?q'\<rparr>)" using wf(1-3) by (simp add: mshr_wf_def)
  then show ?thesis using add i wf(3) by (intro exI [of _ "c\<lparr>c_MSHR := ?q'\<rparr>"] exI [of _ i]) simp
qed

lemma update_fill_cycle_frame:
  "q_entry (c_MSHR (update_fill_cycle c)) = q_entry (c_MSHR c)"
  "q_occupancy (c_MSHR (update_fill_cycle c)) = q_occupancy (c_MSHR c)"
  "q_SIZE (c_MSHR (update_fill_cycle c)) = q_SIZE (c_MSHR c)"
  "c_MSHR_SIZE (update_fill_cycle c) = c_MSHR_SIZE c"
  "\<exists>q. update_fill_cycle c = c\<lparr>c_MSHR := q\<rparr>"
  by (auto simp: update_fill_cycle_def Let_def split: prod.splits)

text \<open>The part of the invariant that does not speak of the next fill.\<close>

lemma mshr_wf_update:
  assumes "q_SIZE (c_MSHR c) = c_MSHR_SIZE c" "unat (c_MSHR_SIZE c) < 2 ^ 31"
    "length (q_entry (c_MSHR c)) = unat (c_MSHR_SIZE c)"
    "unat (q_occupancy (c_MSHR c)) = length (used_entries (q_entry (c_MSHR c)))"
    "distinct (map p_address (used_entries (q_entry (c_MSHR c))))"
    "\<forall>e\<in>set (q_entry (c_MSHR c)). p_address e = 0 \<longrightarrow> p_returned e \<noteq> COMPLETED"
  shows "mshr_wf (update_fill_cycle c)"
  using assms update_fill_cycle_ok [of c] by (simp add: mshr_wf_def update_fill_cycle_frame)

lemma mshr_wfD:
  assumes "mshr_wf c"
  shows "q_SIZE (c_MSHR c) = c_MSHR_SIZE c" "unat (c_MSHR_SIZE c) < 2 ^ 31"
    "length (q_entry (c_MSHR c)) = unat (c_MSHR_SIZE c)"
    "unat (q_occupancy (c_MSHR c)) = length (used_entries (q_entry (c_MSHR c)))"
    "distinct (map p_address (used_entries (q_entry (c_MSHR c))))"
    "\<forall>e\<in>set (q_entry (c_MSHR c)). p_address e = 0 \<longrightarrow> p_returned e \<noteq> COMPLETED" "next_fill_ok (c_MSHR c)"
  using assms by (auto simp: mshr_wf_def)

definition completed_entry :: "u64 \<Rightarrow> cache \<Rightarrow> packet \<Rightarrow> packet \<Rightarrow> packet" where
  "completed_entry now c p e =
     e\<lparr>p_returned := COMPLETED, p_data := p_data p, p_pf_metadata := p_pf_metadata p,
       p_event_cycle := add_latency now c (p_event_cycle e)\<rparr>"

lemma return_data_ok:
  assumes "mshr_wf c" "p_address p \<noteq> 0" "check_mshr c p = int i" "p_cpu p < NUM_CPUS"
  shows "\<exists>c' q'. return_data now p c = Inr c' \<and> mshr_wf c' \<and> c' = c\<lparr>c_MSHR := q'\<rparr> \<and>
    q_entry q' = (q_entry (c_MSHR c))[i := completed_entry now c p (q_entry (c_MSHR c) ! i)] \<and>
    q_occupancy q' = q_occupancy (c_MSHR c)"
proof -
  note wf = mshr_wfD [OF assms(1)]
  let ?q = "c_MSHR c" and ?e = "completed_entry now c p (q_entry (c_MSHR c) ! i)"
  let ?c = "c\<lparr>c_MSHR := ?q\<lparr>q_num_returned := q_num_returned ?q + 1, q_entry := (q_entry ?q)[i := ?e]\<rparr>\<rparr>"
  have i: "i < length (q_entry ?q)" "p_address (q_entry ?q ! i) = p_address p"
    using check_mshr_cases [of c p] assms(3) wf(3) by auto
  have ret: "return_data now p c = Inr (update_fill_cycle ?c)"
    using assms(3,4) by (simp add: return_data_def Let_def completed_entry_def not_le)
  have addr: "p_address ?e = p_address (q_entry ?q ! i)" by (simp add: completed_entry_def)
  note same = used_entries_same [OF i(1) addr]
  have "\<forall>e\<in>set ((q_entry ?q)[i := ?e]). p_address e = 0 \<longrightarrow> p_returned e \<noteq> COMPLETED"
    using wf(6) set_update_subset_insert [of "q_entry ?q" i ?e] addr i(2) assms(2) by auto
  moreover have "length (used_entries ((q_entry ?q)[i := ?e])) = length (used_entries (q_entry ?q))"
    using arg_cong [OF same, of length] by simp
  ultimately have "mshr_wf (update_fill_cycle ?c)"
    using wf same by (intro mshr_wf_update) simp_all
  moreover obtain q' where q': "update_fill_cycle ?c = ?c\<lparr>c_MSHR := q'\<rparr>" using update_fill_cycle_frame(5) by blast
  moreover have "q_entry q' = (q_entry ?q)[i := ?e]" "q_occupancy q' = q_occupancy ?q"
    using update_fill_cycle_frame(1,2) [of ?c] unfolding q' by simp_all
  ultimately show ?thesis using ret by (intro exI [of _ "update_fill_cycle ?c"] exI [of _ q']) simp
qed

text \<open>Releasing a register after its fill.\<close>

lemma mshr_release_ok:
  assumes "mshr_wf c" "i < unat (c_MSHR_SIZE c)" "p_address (q_entry (c_MSHR c) ! i) \<noteq> 0"
  shows "\<exists>q'. remove_queue raw i (c_MSHR c) = Inr q' \<and> q_entry q' = (q_entry (c_MSHR c))[i := PACKET_init raw] \<and>
    q_occupancy q' = q_occupancy (c_MSHR c) - 1 \<and>
    mshr_wf (update_fill_cycle (c\<lparr>c_MSHR := q'\<lparr>q_num_returned := n\<rparr>\<rparr>))"
proof -
  note wf = mshr_wfD [OF assms(1)]
  let ?q = "c_MSHR c" and ?es = "(q_entry (c_MSHR c))[i := PACKET_init raw]"
  have zero: "p_address (PACKET_init raw) = 0" "p_returned (PACKET_init raw) = 0" by (simp_all add: PACKET_init_def)
  have ms: "mset (used_entries (q_entry ?q)) = add_mset (q_entry ?q ! i) (mset (used_entries ?es))"
    using assms(2,3) wf(3) zero by (intro used_entries_free) auto
  have occ: "unat (q_occupancy ?q) = Suc (length (used_entries ?es))" using length_add_mset [OF ms] wf(4) by simp
  then have "q_occupancy ?q \<noteq> 0" by auto
  then have occ': "unat (q_occupancy ?q - 1) = length (used_entries ?es)" using occ by (simp add: unat_minus_one)
  obtain q' where q': "remove_queue raw i ?q = Inr q'" "q_entry q' = ?es" "q_occupancy q' = q_occupancy ?q - 1"
    "q_SIZE q' = q_SIZE ?q"
    using \<open>q_occupancy ?q \<noteq> 0\<close> assms(2) wf(3) by (simp add: remove_queue_def Let_def)
  have "\<forall>e\<in>set ?es. p_address e = 0 \<longrightarrow> p_returned e \<noteq> COMPLETED"
    using wf(6) set_update_subset_insert [of "q_entry ?q" i "PACKET_init raw"] zero by (auto simp: COMPLETED_def)
  then have "mshr_wf (update_fill_cycle (c\<lparr>c_MSHR := q'\<lparr>q_num_returned := n\<rparr>\<rparr>))"
    using wf(1-3,5) q' occ' distinct_map_add_mset [OF ms, of p_address]
    by (intro mshr_wf_update) simp_all
  then show ?thesis using q' by blast
qed

section \<open>An example\<close>

text \<open>A small cache for the examples: 2 sets of 2 ways, 2 registers.\<close>

definition sample_cache :: cache where
  "sample_cache = (let q = \<lambda>v. PACKET_QUEUE_init zero_packet v 2 in
     \<lparr>c_cpu = 0, c_NUM_SET = 2, c_NUM_WAY = 2, c_WQ_SIZE = 2, c_RQ_SIZE = 2, c_PQ_SIZE = 2, c_MSHR_SIZE = 2,
      c_LATENCY = 10, c_block = replicate 2 [BLOCK_init, BLOCK_init\<lparr>b_lru := 1\<rparr>], c_fill_level = 2, c_MAX_READ = 1,
      c_reads_available_this_cycle = 1, c_cache_type = IS_L2C,
      c_pf_requested = 0, c_pf_dropped = 0, c_pf_issued = 0, c_pf_filled = 0, c_pf_useful = 0, c_pf_useless = 0,
      c_pf_late = 0, c_WQ = q ''L2C_WQ'', c_RQ = q ''L2C_RQ'', c_PQ = q ''L2C_PQ'', c_MSHR = q ''L2C_MSHR'',
      c_PROCESSED = q ''L2C_PROCESSED'',
      c_sim_access = replicate 4 0, c_sim_hit = replicate 4 0, c_sim_miss = replicate 4 0,
      c_total_miss_latency = 0, c_page_buffer = [], c_cycle = 0, c_next_measure_cycle = 0,
      c_pf_useful_epoch = 0, c_pf_filled_epoch = 0, c_pref_acc = 0, c_total_acc_epochs = 0,
      c_acc_epoch_hist = replicate 10 0, c_ACCESS = replicate 4 0, c_HIT = replicate 4 0, c_MISS = replicate 4 0,
      c_MSHR_MERGED = replicate 4 0, c_STALL = replicate 4 0\<rparr>)"

lemma sample_cache_wf: "blocks_wf sample_cache" "mshr_wf sample_cache"
proof -
  have "lru_wf 2 [BLOCK_init, BLOCK_init\<lparr>b_lru := 1\<rparr>]"
    by (auto simp: lru_wf_def ranks_def BLOCK_init_def)
  then show "blocks_wf sample_cache"
    by (auto simp: blocks_wf_def homed_def sample_cache_def Let_def list_all_iff BLOCK_init_def)
  show "mshr_wf sample_cache"
    by (auto simp: mshr_wf_def sample_cache_def Let_def PACKET_QUEUE_init_def PACKET_init_def used_entries_def
      next_fill_ok_def entry_done_def COMPLETED_def)
qed

text \<open>A miss of the example cache, allocated.\<close>

lemma sample_miss:
  "check_mshr sample_cache (zero_packet\<lparr>p_address := 5, p_cpu := 0\<rparr>) = -1"
  "q_occupancy (c_MSHR sample_cache) < c_MSHR_SIZE sample_cache"
  "p_address (zero_packet\<lparr>p_address := 5, p_cpu := 0\<rparr>) \<noteq> 0" "p_cpu (zero_packet\<lparr>p_address := 5, p_cpu := 0\<rparr>) < NUM_CPUS"
  by (simp_all add: sample_cache_def Let_def PACKET_QUEUE_init_def PACKET_init_def check_mshr_def upt_rec NUM_CPUS_def)

lemma mshr_allocates_once_aux:
  "\<exists>c i. add_mshr now (zero_packet\<lparr>p_address := 5, p_cpu := 0\<rparr>) sample_cache =
      Inr (zero_packet\<lparr>p_address := 5, p_cpu := 0, p_cycle_enqueued := now\<rparr>, c) \<and> mshr_wf c \<and>
    check_mshr c (zero_packet\<lparr>p_address := 5, p_cpu := 0\<rparr>) = int i"
proof -
  let ?p = "zero_packet\<lparr>p_address := 5, p_cpu := 0\<rparr>"
  obtain c i where "add_mshr now ?p sample_cache = Inr (?p\<lparr>p_cycle_enqueued := now\<rparr>, c)" "mshr_wf c"
    "i < unat (c_MSHR_SIZE sample_cache)" "c_MSHR_SIZE c = c_MSHR_SIZE sample_cache"
    "q_entry (c_MSHR c) = (q_entry (c_MSHR sample_cache))[i := ?p\<lparr>p_cycle_enqueued := now, p_returned := INFLIGHT\<rparr>]"
    using add_mshr_ok [OF sample_cache_wf(2) sample_miss, of now] by auto
  moreover from this have "p_address (q_entry (c_MSHR c) ! i) = p_address ?p"
    using mshr_wfD(3) [OF sample_cache_wf(2)] by simp
  ultimately show ?thesis using check_mshr_cases [of c ?p] by auto
qed

section \<open>Properties\<close>

text \<open>
  C14: Lookup after fill. Filling the line of a packet into a way of its set, when the line is
  not in the set yet, makes the next lookup of the address hit exactly that way with the
  data of the packet, clean; every line of another address that lay in another way is
  still found in its way with its data; the sets stay well formed (recency ranks a
  permutation, every valid line in the set of its tag).
\<close>

theorem fill_then_hit:
  assumes "blocks_wf c" "st = get_set c (p_address p)" "w < unat (c_NUM_WAY c)" "find_way c st (p_address p) = None"
    and "c_cache_type c \<in> {IS_ITLB, IS_DTLB, IS_STLB} \<longrightarrow> p_data p \<noteq> 0"
    and "\<not> cache_perfect k c" "\<not> cache_semi_perfect k c"
  shows "\<exists>c'. fill_cache st w p c = Inr c' \<and> blocks_wf c' \<and>
    (\<forall>p'. p_address p' = p_address p \<longrightarrow> check_hit k p' c' = Inr (int w, c')) \<and>
    line_data c' (p_address p) = Some (p_data p) \<and> b_dirty (c_block c' ! unat st ! w) = 0 \<and>
    (\<forall>a v. a \<noteq> p_address p \<longrightarrow> find_way c (get_set c a) a = Some v \<longrightarrow> (get_set c a, v) \<noteq> (st, w) \<longrightarrow>
       find_way c' (get_set c a) a = Some v)"
proof -
  obtain c' where c': "fill_cache st w p c = Inr c'" "blocks_wf c'" "get_set c' = get_set c" "c_NUM_WAY c' = c_NUM_WAY c"
    "c_block c' ! unat st ! w = filled_block p (c_block c ! unat st ! w)"
    and tm: "\<And>st' a v. tag_match c' st' a v \<longleftrightarrow> (if st' = st \<and> v = w then a = p_address p else tag_match c st' a v)"
    using fill_cache_ok [OF assms(1,2,3,5)] by blast
  have own: "find_way c' st (p_address p) = Some w"
    using assms(3,4) c'(4) tm by (simp add: find_way_Some find_way_None)
  have other: "find_way c' (get_set c a) a = Some v"
    if "a \<noteq> p_address p" "find_way c (get_set c a) a = Some v" "(get_set c a, v) \<noteq> (st, w)" for a v
    using that c'(4) tm by (auto simp: find_way_Some)
  have "c_cache_type c' = c_cache_type c"
    using fill_cache_put [OF assms(1) _ assms(3,5), of st] blocks_wfD(1) [OF assms(1), of "p_address p"] c'(1) assms(2) by auto
  then have "check_hit k p' c' = Inr (int w, c')" if "p_address p' = p_address p" for p'
    using check_hit_plain [OF c'(2), of k p'] assms(2,6,7) own c'(3) that
    by (simp add: cache_perfect_def cache_semi_perfect_def)
  moreover have "line_data c' (p_address p) = Some (p_data p)" "b_dirty (c_block c' ! unat st ! w) = 0"
    using own c'(3,5) assms(2) by (simp_all add: line_data_def filled_block_fields)
  ultimately show ?thesis using c'(1,2) other by blast
qed

theorem fill_then_hit_witness:
  "\<exists>c'. fill_cache (get_set sample_cache 5) 1 (zero_packet\<lparr>p_address := 5, p_data := 77\<rparr>) sample_cache = Inr c' \<and> blocks_wf c' \<and>
     line_data c' 5 = Some 77"
proof -
  let ?k = "\<lparr>l1d_perfect = False, l2c_perfect = False, llc_perfect = False, l1d_semi_perfect = False,
    l2c_semi_perfect = False, llc_semi_perfect = False, semi_perfect_cache_page_buffer_size = 64,
    measure_cache_acc = False, measure_cache_acc_epoch = 0\<rparr>"
  have "find_way sample_cache (get_set sample_cache 5) 5 = None"
    using blocks_wfD(1) [OF sample_cache_wf(1), of 5]
    by (auto simp: find_way_None tag_match_def sample_cache_def Let_def BLOCK_init_def less_2_cases_iff)
  then show ?thesis
    using fill_then_hit [OF sample_cache_wf(1), of "get_set sample_cache 5" "zero_packet\<lparr>p_address := 5, p_data := 77\<rparr>" 1 ?k]
    by (auto simp: sample_cache_def Let_def cache_types cache_perfect_def cache_semi_perfect_def)
qed

text \<open>
  After \<^verbatim>\<open>invalidate_entry\<close> of a line that at most one way of its set holds, a lookup of the
  address misses; the lookups of all other addresses are unchanged and the sets stay well
  formed. The set-index check of the function never fires.
\<close>

theorem invalidate_then_miss:
  assumes "blocks_wf c"
    and "\<forall>v<unat (c_NUM_WAY c). \<forall>w<unat (c_NUM_WAY c).
      tag_match c (get_set c a) a v \<longrightarrow> tag_match c (get_set c a) a w \<longrightarrow> v = w"
  shows "\<exists>m c'. invalidate_entry a c = Inr (m, c') \<and> blocks_wf c' \<and> \<not> cached c' a \<and>
    (m = -1 \<longleftrightarrow> \<not> cached c a) \<and> (\<forall>a'. a' \<noteq> a \<longrightarrow> find_way c' (get_set c a') a' = find_way c (get_set c a') a')"
proof (cases "find_way c (get_set c a) a")
  case None
  then show ?thesis using assms(1) blocks_wfD(1,2) [OF assms(1), of a] by (simp add: invalidate_entry_def Let_def cached_def)
next
  case (Some w)
  let ?st = "get_set c a"
  let ?c = "put_block ?st w ((c_block c ! unat ?st ! w)\<lparr>b_valid := 0\<rparr>) c"
  have w: "w < unat (c_NUM_WAY c)" "tag_match c ?st a w" using Some by (auto simp: find_way_Some)
  have st: "unat ?st < length (c_block c)" by (rule blocks_wfD(1) [OF assms(1)])
  have inv: "invalidate_entry a c = Inr (int w, ?c)"
    using Some blocks_wfD(1,2) [OF assms(1), of a] by (simp add: invalidate_entry_def Let_def)
  have "blocks_wf ?c" using put_block_wf [OF assms(1) st w(1)] by simp
  have tm: "tag_match ?c st' a' v \<longleftrightarrow> (if st' = ?st \<and> v = w then False else tag_match c st' a' v)" for st' a' v
    using tag_match_put [OF assms(1) st w(1)] by simp
  have g: "get_set ?c = get_set c" by (rule ext) (simp add: get_set_def)
  have "find_way ?c ?st a = None" using tm assms(2) w by (auto simp: find_way_None)
  moreover have "find_way ?c (get_set c a') a' = find_way c (get_set c a') a'" if "a' \<noteq> a" for a'
    using tm w(2) that by (intro find_way_transfer) (auto simp: tag_match_def)
  ultimately show ?thesis using inv \<open>blocks_wf ?c\<close> g Some by (auto simp: cached_def)
qed

theorem invalidate_then_miss_witness:
  "\<exists>m c'. invalidate_entry 5 sample_cache = Inr (m, c') \<and> blocks_wf c' \<and> \<not> cached c' 5 \<and>
    (m = -1 \<longleftrightarrow> \<not> cached sample_cache 5) \<and>
    (\<forall>a'. a' \<noteq> 5 \<longrightarrow> find_way c' (get_set sample_cache a') a' = find_way sample_cache (get_set sample_cache a') a')"
proof (rule invalidate_then_miss [OF sample_cache_wf(1)], intro allI impI)
  fix v w assume "v < unat (c_NUM_WAY sample_cache)" "tag_match sample_cache (get_set sample_cache 5) 5 v"
  then have False
    using blocks_wfD(1) [OF sample_cache_wf(1), of 5]
    by (auto simp: tag_match_def sample_cache_def Let_def BLOCK_init_def less_2_cases_iff)
  then show "v = w" ..
qed

text \<open>
  C15: A miss on an address without a register, with a free register, allocates exactly one:
  the lookup of the address then finds a register that holds the request, marked in flight
  and stamped with the cycle; the occupancy grows by one and stays the number of registers
  in use; no address has two registers and no other register changes.
\<close>

theorem mshr_allocates_once:
  assumes "mshr_wf c" "check_mshr c p = -1" "q_occupancy (c_MSHR c) < c_MSHR_SIZE c" "p_address p \<noteq> 0" "p_cpu p < NUM_CPUS"
  shows "\<exists>c' i. add_mshr now p c = Inr (p\<lparr>p_cycle_enqueued := now\<rparr>, c') \<and> mshr_wf c' \<and>
    check_mshr c' p = int i \<and> q_entry (c_MSHR c') ! i = p\<lparr>p_cycle_enqueued := now, p_returned := INFLIGHT\<rparr> \<and>
    q_occupancy (c_MSHR c') = q_occupancy (c_MSHR c) + 1 \<and>
    (\<forall>p'. p_address p' \<noteq> 0 \<longrightarrow> p_address p' \<noteq> p_address p \<longrightarrow> check_mshr c' p' = check_mshr c p')"
proof -
  let ?e = "p\<lparr>p_cycle_enqueued := now, p_returned := INFLIGHT\<rparr>"
  obtain c' i where c': "add_mshr now p c = Inr (p\<lparr>p_cycle_enqueued := now\<rparr>, c')" "mshr_wf c'"
    "i < unat (c_MSHR_SIZE c)" "p_address (q_entry (c_MSHR c) ! i) = 0"
    "q_entry (c_MSHR c') = (q_entry (c_MSHR c))[i := ?e]" "q_occupancy (c_MSHR c') = q_occupancy (c_MSHR c) + 1"
    "c_MSHR_SIZE c' = c_MSHR_SIZE c"
    using add_mshr_ok [OF assms, of now] by blast
  have len: "length (q_entry (c_MSHR c)) = unat (c_MSHR_SIZE c)" using mshr_wfD(3) [OF assms(1)] .
  have none: "\<forall>j<unat (c_MSHR_SIZE c). p_address (q_entry (c_MSHR c) ! j) \<noteq> p_address p"
    using check_mshr_cases [of c p] assms(2) by auto
  have "p_address (q_entry (c_MSHR c') ! j) = p_address p \<longleftrightarrow> j = i" if "j < unat (c_MSHR_SIZE c)" for j
    using none that c'(3,5) len by (auto simp: nth_list_update)
  then have "check_mshr c' p = int i" using check_mshr_cases [of c' p] c'(3,7) by auto
  moreover have "check_mshr c' p' = check_mshr c p'" if "p_address p' \<noteq> 0" "p_address p' \<noteq> p_address p" for p'
  proof -
    have "find (\<lambda>j. p_address (q_entry (c_MSHR c') ! j) = p_address p') [0..<unat (c_MSHR_SIZE c)] =
      find (\<lambda>j. p_address (q_entry (c_MSHR c) ! j) = p_address p') [0..<unat (c_MSHR_SIZE c)]"
      using that c'(3,4,5) len by (intro find_cong) (auto simp: nth_list_update)
    then show ?thesis using c'(7) by (simp add: check_mshr_def)
  qed
  ultimately show ?thesis using c' len by (intro exI [of _ c'] exI [of _ i]) simp
qed

theorem mshr_allocates_once_witness:
  "\<exists>c' i. add_mshr 9 (zero_packet\<lparr>p_address := 5, p_cpu := 0\<rparr>) sample_cache =
      Inr (zero_packet\<lparr>p_address := 5, p_cpu := 0, p_cycle_enqueued := 9\<rparr>, c') \<and> mshr_wf c' \<and>
    check_mshr c' (zero_packet\<lparr>p_address := 5, p_cpu := 0\<rparr>) = int i"
  using mshr_allocates_once [OF sample_cache_wf(2) sample_miss, of 9] by (elim exE conjE) (intro exI conjI, assumption+)

text \<open>
  C16: When the data of a pending miss returns, its register is marked completed with the data
  and the latency of the cache added from the current cycle on, nothing but the MSHR
  changes, the occupancy stays, and the register scheduled for the next fill is a completed
  one with the least event cycle of all completed registers.
\<close>

theorem return_data_schedules_earliest:
  assumes "mshr_wf c" "p_address p \<noteq> 0" "check_mshr c p \<noteq> -1" "p_cpu p < NUM_CPUS"
  shows "\<exists>c' q'. return_data now p c = Inr c' \<and> mshr_wf c' \<and> c' = c\<lparr>c_MSHR := q'\<rparr> \<and>
    p_returned (q_entry q' ! nat (check_mshr c p)) = COMPLETED \<and>
    p_data (q_entry q' ! nat (check_mshr c p)) = p_data p \<and> q_occupancy q' = q_occupancy (c_MSHR c) \<and>
    (\<forall>e\<in>set (q_entry q'). entry_done e \<longrightarrow> q_next_fill_cycle q' \<le> p_event_cycle e) \<and>
    (q_next_fill_cycle q' \<noteq> - 1 \<longrightarrow> entry_done (q_entry q' ! unat (q_next_fill_index q')) \<and>
       p_event_cycle (q_entry q' ! unat (q_next_fill_index q')) = q_next_fill_cycle q')"
proof -
  obtain i where i: "check_mshr c p = int i" "i < unat (c_MSHR_SIZE c)" using check_mshr_cases [of c p] assms(3) by auto
  then obtain c' q' where c': "return_data now p c = Inr c'" "mshr_wf c'" "c' = c\<lparr>c_MSHR := q'\<rparr>"
    "q_entry q' = (q_entry (c_MSHR c))[i := completed_entry now c p (q_entry (c_MSHR c) ! i)]"
    "q_occupancy q' = q_occupancy (c_MSHR c)"
    using return_data_ok [OF assms(1,2) _ assms(4), of i now] by blast
  have "next_fill_ok q'" using mshr_wfD(7) [OF c'(2)] c'(3) by simp
  then show ?thesis
    using c' i mshr_wfD(3) [OF assms(1)]
    by (intro exI [of _ c'] exI [of _ q']) (auto simp: next_fill_ok_def completed_entry_def)
qed

theorem return_data_schedules_earliest_witness:
  "\<exists>c' q'. bind_res (add_mshr 9 (zero_packet\<lparr>p_address := 5, p_cpu := 0\<rparr>) sample_cache)
      (\<lambda>(p, c). return_data 20 p c) = Inr c' \<and> mshr_wf c' \<and> c_MSHR c' = q'"
proof -
  let ?p = "zero_packet\<lparr>p_address := 5, p_cpu := 0\<rparr>"
  obtain c i where c: "add_mshr 9 ?p sample_cache = Inr (?p\<lparr>p_cycle_enqueued := 9\<rparr>, c)" "mshr_wf c" "check_mshr c ?p = int i"
    using mshr_allocates_once_aux [of 9] by blast
  have "check_mshr c (?p\<lparr>p_cycle_enqueued := 9\<rparr>) \<noteq> -1" using c(3) by (simp add: check_mshr_def)
  then show ?thesis
    using return_data_schedules_earliest [OF c(2), of "?p\<lparr>p_cycle_enqueued := 9\<rparr>" 20] c(1) by (auto simp: NUM_CPUS_def)
qed

end
