(* ===== verification/CacheOps.thy ===== *)
theory CacheOps
  imports Cache
begin

text \<open>
  The part of a cache that talks to its neighbours (\<^verbatim>\<open>src/cache.cc\<close>): the request queues
  \<^verbatim>\<open>add_rq\<close>, \<^verbatim>\<open>add_wq\<close>, \<^verbatim>\<open>add_pq\<close>, the prefetch entry points, the four handlers and
  \<^verbatim>\<open>operate\<close>.

  The neighbours are reached through virtual calls and through the prefetcher hooks that a
  build selects. They form the record \<open>ports\<close> over a type \<open>'w\<close> of states of the rest of the
  system: what is known of them is what a statement assumes. A call into the lower level may
  come back as \<^verbatim>\<open>return_data\<close> to this cache, and a hook may call \<^verbatim>\<open>prefetch_line\<close>, so these
  calls act on the pair of the outside and this cache. A packet passed by pointer is
  returned, as the callee may have changed it. The two single-precision quotients of
  \<^verbatim>\<open>handle_prefetch_feedback\<close> are the ports \<open>percent_of\<close> and \<open>acc_bucket\<close>.
\<close>

section \<open>The neighbours\<close>

record 'w ports =
  now :: u64
  warmup_complete :: bool
  knobs :: cache_knobs
  blank :: packet
  has_lower :: bool
  lower_add_rq :: "packet \<Rightarrow> 'w \<times> cache \<Rightarrow> (packet \<times> 'w \<times> cache) res"
  lower_add_wq :: "packet \<Rightarrow> 'w \<times> cache \<Rightarrow> (packet \<times> 'w \<times> cache) res"
  lower_add_pq :: "packet \<Rightarrow> 'w \<times> cache \<Rightarrow> (packet \<times> 'w \<times> cache) res"
  lower_get_occupancy :: "u8 \<Rightarrow> u64 \<Rightarrow> 'w \<Rightarrow> u32"
  lower_get_size :: "u8 \<Rightarrow> u64 \<Rightarrow> 'w \<Rightarrow> u32"
  lower_increment_WQ_FULL :: "u64 \<Rightarrow> 'w \<Rightarrow> 'w"
  upper_icache_return_data :: "packet \<Rightarrow> 'w \<Rightarrow> 'w res"
  upper_dcache_return_data :: "packet \<Rightarrow> 'w \<Rightarrow> 'w res"
  l1d_operate :: "u64 \<Rightarrow> u64 \<Rightarrow> u8 \<Rightarrow> u8 \<Rightarrow> 'w \<times> cache \<Rightarrow> ('w \<times> cache) res"
  l2c_operate :: "u64 \<Rightarrow> u64 \<Rightarrow> u8 \<Rightarrow> u8 \<Rightarrow> u32 \<Rightarrow> 'w \<times> cache \<Rightarrow> (u32 \<times> 'w \<times> cache) res"
  llc_operate :: "u64 \<Rightarrow> u64 \<Rightarrow> u8 \<Rightarrow> u8 \<Rightarrow> u32 \<Rightarrow> 'w \<times> cache \<Rightarrow> (u32 \<times> 'w \<times> cache) res"
  l1d_cache_fill :: "u64 \<Rightarrow> u32 \<Rightarrow> nat \<Rightarrow> u8 \<Rightarrow> u64 \<Rightarrow> u32 \<Rightarrow> 'w \<times> cache \<Rightarrow> ('w \<times> cache) res"
  l2c_cache_fill :: "u64 \<Rightarrow> u32 \<Rightarrow> nat \<Rightarrow> u8 \<Rightarrow> u64 \<Rightarrow> u32 \<Rightarrow> 'w \<times> cache \<Rightarrow> (u32 \<times> 'w \<times> cache) res"
  llc_cache_fill :: "u64 \<Rightarrow> u32 \<Rightarrow> nat \<Rightarrow> u8 \<Rightarrow> u64 \<Rightarrow> u32 \<Rightarrow> 'w \<times> cache \<Rightarrow> (u32 \<times> 'w \<times> cache) res"
  l1d_prefetch_hit :: "u64 \<Rightarrow> u64 \<Rightarrow> u32 \<Rightarrow> 'w \<times> cache \<Rightarrow> (u32 \<times> 'w \<times> cache) res"
  l2c_prefetch_hit :: "u64 \<Rightarrow> u64 \<Rightarrow> u32 \<Rightarrow> 'w \<times> cache \<Rightarrow> (u32 \<times> 'w \<times> cache) res"
  llc_prefetch_hit :: "u64 \<Rightarrow> u64 \<Rightarrow> u32 \<Rightarrow> 'w \<times> cache \<Rightarrow> (u32 \<times> 'w \<times> cache) res"
  l1d_broadcast_acc :: "u32 \<Rightarrow> 'w \<times> cache \<Rightarrow> ('w \<times> cache) res"
  l2c_broadcast_acc :: "u32 \<Rightarrow> 'w \<times> cache \<Rightarrow> ('w \<times> cache) res"
  llc_broadcast_acc :: "u32 \<Rightarrow> 'w \<times> cache \<Rightarrow> ('w \<times> cache) res"
  percent_of :: "u64 \<Rightarrow> u64 \<Rightarrow> u32"
  acc_bucket :: "u32 \<Rightarrow> u32"
  va_to_pa :: "u32 \<Rightarrow> u64 \<Rightarrow> u64 \<Rightarrow> u64 \<Rightarrow> 'w \<times> cache \<Rightarrow> (u64 \<times> 'w \<times> cache) res"

text \<open>\<^verbatim>\<open>upper_level_icache[cpu]->return_data\<close> or \<^verbatim>\<open>upper_level_dcache[cpu]->return_data\<close>.\<close>

definition upper_return_data :: "'w ports \<Rightarrow> packet \<Rightarrow> 'w \<Rightarrow> 'w res" where
  "upper_return_data E p w =
     (if p_cpu p \<ge> NUM_CPUS then Inl Out_of_bounds
      else if p_instruction p \<noteq> 0 then upper_icache_return_data E p w
      else upper_dcache_return_data E p w)"

text \<open>\<^verbatim>\<open>if (packet->fill_level < fill_level)\<close> the data goes up.\<close>

definition return_up :: "'w ports \<Rightarrow> packet \<Rightarrow> 'w \<times> cache \<Rightarrow> ('w \<times> cache) res" where
  "return_up E p s =
     (if sint (p_fill_level p) < sint (c_fill_level (snd s))
      then bind_res (upper_return_data E p (fst s)) (\<lambda>w. Inr (w, snd s)) else Inr s)"

definition add_processed :: "packet \<Rightarrow> cache \<Rightarrow> cache res" where
  "add_processed p c =
     (if q_occupancy (c_PROCESSED c) < q_SIZE (c_PROCESSED c)
      then bind_res (add_queue p (c_PROCESSED c)) (\<lambda>q. Inr (c\<lparr>c_PROCESSED := q\<rparr>)) else Inr c)"

definition count_hit :: "u8 \<Rightarrow> cache \<Rightarrow> cache res" where
  "count_hit t c = bind_res (bump t (c_HIT c)) (\<lambda>h. bind_res (bump t (c_ACCESS c)) (\<lambda>a. Inr (c\<lparr>c_HIT := h, c_ACCESS := a\<rparr>)))"

definition count_miss :: "u8 \<Rightarrow> cache \<Rightarrow> cache res" where
  "count_miss t c = bind_res (bump t (c_MISS c)) (\<lambda>h. bind_res (bump t (c_ACCESS c)) (\<lambda>a. Inr (c\<lparr>c_MISS := h, c_ACCESS := a\<rparr>)))"

definition count_sim_hit :: "u8 \<Rightarrow> cache \<Rightarrow> cache res" where
  "count_sim_hit t c =
     bind_res (bump t (c_sim_hit c)) (\<lambda>h. bind_res (bump t (c_sim_access c)) (\<lambda>a. Inr (c\<lparr>c_sim_hit := h, c_sim_access := a\<rparr>)))"

definition count_sim_miss :: "u8 \<Rightarrow> cache \<Rightarrow> cache res" where
  "count_sim_miss t c =
     bind_res (bump t (c_sim_miss c)) (\<lambda>h. bind_res (bump t (c_sim_access c)) (\<lambda>a. Inr (c\<lparr>c_sim_miss := h, c_sim_access := a\<rparr>)))"

definition count_stall :: "u8 \<Rightarrow> cache \<Rightarrow> cache res" where
  "count_stall t c = bind_res (bump t (c_STALL c)) (\<lambda>h. Inr (c\<lparr>c_STALL := h\<rparr>))"

definition count_merged :: "u8 \<Rightarrow> cache \<Rightarrow> cache res" where
  "count_merged t c = bind_res (bump t (c_MSHR_MERGED c)) (\<lambda>h. Inr (c\<lparr>c_MSHR_MERGED := h\<rparr>))"

section \<open>Request queues\<close>

text \<open>
  The insertion at the tail that \<^verbatim>\<open>add_rq\<close>, \<^verbatim>\<open>add_wq\<close> and \<^verbatim>\<open>add_pq\<close> repeat: the slot must be
  blank, the latency of the cache is added.
\<close>

definition queue_insert :: "u64 \<Rightarrow> cache \<Rightarrow> packet \<Rightarrow> packet_queue \<Rightarrow> packet_queue res" where
  "queue_insert t c p q =
     (let i = unat (q_tail q) in
      if \<not> i < length (q_entry q) then Inl Out_of_bounds
      else if p_address (q_entry q ! i) \<noteq> 0 then Inl Assert_failed
      else if p_cpu p \<ge> NUM_CPUS then Inl Out_of_bounds
      else
        let q = q\<lparr>q_entry := (q_entry q)[i := p\<lparr>p_event_cycle := add_latency t c (p_event_cycle p)\<rparr>],
                   q_occupancy := q_occupancy q + 1, q_tail := q_tail q + 1\<rparr>
        in Inr (if q_tail q \<ge> q_SIZE q then q\<lparr>q_tail := 0\<rparr> else q))"

text \<open>The forwarding from a pending writeback, common to \<^verbatim>\<open>add_rq\<close> and \<^verbatim>\<open>add_pq\<close>.\<close>

definition forward_from_wq ::
  "'w ports \<Rightarrow> nat \<Rightarrow> packet \<Rightarrow> 'w \<times> cache \<Rightarrow> (packet \<times> 'w \<times> cache) res" where
  "forward_from_wq E wq_index p s =
     (if sint (p_fill_level p) < sint (c_fill_level (snd s))
      then
        let p = p\<lparr>p_data := p_data (q_entry (c_WQ (snd s)) ! wq_index)\<rparr>
        in bind_res (upper_return_data E p (fst s)) (\<lambda>w. Inr (p, w, snd s))
      else Inr (p, s))"

text \<open>The merging of a duplicate read into the entry \<open>e\<close> of the read queue.\<close>

definition rq_merge :: "packet \<Rightarrow> packet \<Rightarrow> packet res" where
  "rq_merge p e =
     (if p_instruction p \<noteq> 0 then
        bind_res (fastset_insert (ucast (p_rob_index p)) (p_rob_index_depend_on_me e))
          (\<lambda>s. Inr (e\<lparr>p_rob_index_depend_on_me := s, p_instr_merged := 1\<rparr>))
      else if ucast (p_type p) = RFO then
        bind_res (fastset_insert (ucast (p_sq_index p)) (p_sq_index_depend_on_me e))
          (\<lambda>s. Inr (e\<lparr>p_sq_index_depend_on_me := s, p_store_merged := 1\<rparr>))
      else
        bind_res (fastset_insert (ucast (p_lq_index p)) (p_lq_index_depend_on_me e))
          (\<lambda>s. Inr (e\<lparr>p_lq_index_depend_on_me := s, p_load_merged := 1\<rparr>)))"

definition add_rq :: "'w ports \<Rightarrow> packet \<Rightarrow> 'w \<times> cache \<Rightarrow> (int \<times> packet \<times> 'w \<times> cache) res" where
  "add_rq E p s =
     (let c = snd s; wq_index = check_queue (c_WQ c) p in
      if wq_index \<noteq> -1 then
        bind_res (forward_from_wq E (nat wq_index) p s) (\<lambda>(p, w, c).
          if c_cache_type c = IS_ITLB \<or> c_cache_type c = IS_DTLB \<or> c_cache_type c = IS_L1I then Inl Assert_failed
          else
            bind_res (if c_cache_type c = IS_L1D \<and> ucast (p_type p) \<noteq> PREFETCH then add_processed p c else Inr c) (\<lambda>c.
            bind_res (count_hit (p_type p) c) (\<lambda>c.
              Inr (-1, p, w, c\<lparr>c_WQ := (c_WQ c)\<lparr>q_FORWARD := q_FORWARD (c_WQ c) + 1\<rparr>,
                                c_RQ := (c_RQ c)\<lparr>q_ACCESS := q_ACCESS (c_RQ c) + 1\<rparr>\<rparr>))))
      else
        let index = check_queue (c_RQ c) p; q = c_RQ c in
        if index \<noteq> -1 then
          bind_res (rq_merge p (q_entry q ! nat index)) (\<lambda>e.
            Inr (index, p, fst s, c\<lparr>c_RQ := q\<lparr>q_entry := (q_entry q)[nat index := e],
              q_MERGED := q_MERGED q + 1, q_ACCESS := q_ACCESS q + 1\<rparr>\<rparr>))
        else if q_occupancy q = c_RQ_SIZE c then
          Inr (-2, p, fst s, c\<lparr>c_RQ := q\<lparr>q_FULL := q_FULL q + 1\<rparr>\<rparr>)
        else
          bind_res (queue_insert (now E) c p q) (\<lambda>q.
            if p_address p = 0 then Inl Assert_failed
            else Inr (-1, p, fst s, c\<lparr>c_RQ := q\<lparr>q_TO_CACHE := q_TO_CACHE q + 1, q_ACCESS := q_ACCESS q + 1\<rparr>\<rparr>)))"

definition add_wq :: "'w ports \<Rightarrow> packet \<Rightarrow> 'w \<times> cache \<Rightarrow> (int \<times> packet \<times> 'w \<times> cache) res" where
  "add_wq E p s =
     (let c = snd s; q = c_WQ c; index = check_queue q p in
      if index \<noteq> -1 then
        Inr (index, p, fst s, c\<lparr>c_WQ := q\<lparr>q_MERGED := q_MERGED q + 1, q_ACCESS := q_ACCESS q + 1\<rparr>\<rparr>)
      else if q_occupancy q \<ge> q_SIZE q then Inl Assert_failed
      else
        bind_res (queue_insert (now E) c p q) (\<lambda>q.
          Inr (-1, p, fst s, c\<lparr>c_WQ := q\<lparr>q_TO_CACHE := q_TO_CACHE q + 1, q_ACCESS := q_ACCESS q + 1\<rparr>\<rparr>)))"

definition add_pq :: "'w ports \<Rightarrow> packet \<Rightarrow> 'w \<times> cache \<Rightarrow> (int \<times> packet \<times> 'w \<times> cache) res" where
  "add_pq E p s =
     (let c = snd s; wq_index = check_queue (c_WQ c) p in
      if wq_index \<noteq> -1 then
        bind_res (forward_from_wq E (nat wq_index) p s) (\<lambda>(p, w, c).
        bind_res (count_hit (p_type p) c) (\<lambda>c.
          Inr (-1, p, w, c\<lparr>c_WQ := (c_WQ c)\<lparr>q_FORWARD := q_FORWARD (c_WQ c) + 1\<rparr>,
                            c_PQ := (c_PQ c)\<lparr>q_ACCESS := q_ACCESS (c_PQ c) + 1\<rparr>\<rparr>)))
      else
        let index = check_queue (c_PQ c) p; q = c_PQ c in
        if index \<noteq> -1 then
          let e = q_entry q ! nat index;
              e = (if sint (p_fill_level p) < sint (p_fill_level e) then e\<lparr>p_fill_level := p_fill_level p\<rparr> else e)
          in Inr (index, p, fst s, c\<lparr>c_PQ := q\<lparr>q_entry := (q_entry q)[nat index := e],
               q_MERGED := q_MERGED q + 1, q_ACCESS := q_ACCESS q + 1\<rparr>\<rparr>)
        else if q_occupancy q = c_PQ_SIZE c then
          Inr (-2, p, fst s, c\<lparr>c_PQ := q\<lparr>q_FULL := q_FULL q + 1\<rparr>\<rparr>)
        else
          bind_res (queue_insert (now E) c p q) (\<lambda>q.
            if p_address p = 0 then Inl Assert_failed
            else Inr (-1, p, fst s, c\<lparr>c_PQ := q\<lparr>q_TO_CACHE := q_TO_CACHE q + 1, q_ACCESS := q_ACCESS q + 1\<rparr>\<rparr>)))"

section \<open>Prefetch entry points\<close>

definition prefetch_line ::
  "'w ports \<Rightarrow> u64 \<Rightarrow> u64 \<Rightarrow> u64 \<Rightarrow> i32 \<Rightarrow> u32 \<Rightarrow> 'w \<times> cache \<Rightarrow> (int \<times> 'w \<times> cache) res" where
  "prefetch_line E ip base_addr pf_addr pf_fill_level prefetch_metadata s =
     (let c = (snd s)\<lparr>c_pf_requested := c_pf_requested (snd s) + 1\<rparr> in
      if q_occupancy (c_PQ c) < q_SIZE (c_PQ c) then
        if c_cpu c \<ge> NUM_CPUS then Inl Out_of_bounds
        else
          let pf_packet = (PACKET_init (blank E))\<lparr>p_fill_level := pf_fill_level, p_pf_origin_level := c_fill_level c,
                p_pf_metadata := prefetch_metadata, p_cpu := c_cpu c, p_address := drop_bit 6 pf_addr,
                p_full_addr := pf_addr, p_ip := ip, p_type := ucast PREFETCH, p_event_cycle := now E\<rparr>
          in bind_res (add_pq E pf_packet (fst s, c)) (\<lambda>(_, _, w, c).
               Inr (1, w, c\<lparr>c_pf_issued := c_pf_issued c + 1\<rparr>))
      else Inr (0, fst s, c\<lparr>c_pf_dropped := c_pf_dropped c + 1\<rparr>))"

definition kpc_prefetch_line ::
  "'w ports \<Rightarrow> u64 \<Rightarrow> u64 \<Rightarrow> i32 \<Rightarrow> i32 \<Rightarrow> i32 \<Rightarrow> i32 \<Rightarrow> i32 \<Rightarrow> u32 \<Rightarrow> 'w \<times> cache \<Rightarrow> (int \<times> 'w \<times> cache) res" where
  "kpc_prefetch_line E base_addr pf_addr pf_fill_level delta depth signature confidence prefetch_metadata s =
     (let c = snd s in
      if q_occupancy (c_PQ c) < q_SIZE (c_PQ c) \<and> page_of base_addr = page_of pf_addr then
        if c_cpu c \<ge> NUM_CPUS then Inl Out_of_bounds
        else
          let pf_packet = (PACKET_init (blank E))\<lparr>p_fill_level := pf_fill_level, p_pf_origin_level := c_fill_level c,
                p_pf_metadata := prefetch_metadata, p_cpu := c_cpu c, p_address := drop_bit 6 pf_addr,
                p_full_addr := pf_addr, p_ip := 0, p_type := ucast PREFETCH, p_delta := delta, p_depth := depth,
                p_signature := signature, p_confidence := confidence, p_event_cycle := now E\<rparr>
          in bind_res (add_pq E pf_packet s) (\<lambda>(_, _, w, c).
               Inr (1, w, c\<lparr>c_pf_issued := c_pf_issued c + 1\<rparr>))
      else Inr (0, s))"

section \<open>Pieces of the handlers\<close>

definition LLC_WAY :: nat where "LLC_WAY = 12"

text \<open>The pointer arguments \<^verbatim>\<open>&MSHR.entry[i]\<close> etc.: writes through them.\<close>

definition upd_mshr :: "nat \<Rightarrow> (packet \<Rightarrow> packet) \<Rightarrow> cache \<Rightarrow> cache" where
  "upd_mshr i f c = c\<lparr>c_MSHR := (c_MSHR c)\<lparr>q_entry := (q_entry (c_MSHR c))[i := f (q_entry (c_MSHR c) ! i)]\<rparr>\<rparr>"

definition upd_wq :: "nat \<Rightarrow> (packet \<Rightarrow> packet) \<Rightarrow> cache \<Rightarrow> cache" where
  "upd_wq i f c = c\<lparr>c_WQ := (c_WQ c)\<lparr>q_entry := (q_entry (c_WQ c))[i := f (q_entry (c_WQ c) ! i)]\<rparr>\<rparr>"

definition upd_rq :: "nat \<Rightarrow> (packet \<Rightarrow> packet) \<Rightarrow> cache \<Rightarrow> cache" where
  "upd_rq i f c = c\<lparr>c_RQ := (c_RQ c)\<lparr>q_entry := (q_entry (c_RQ c))[i := f (q_entry (c_RQ c) ! i)]\<rparr>\<rparr>"

definition upd_pq :: "nat \<Rightarrow> (packet \<Rightarrow> packet) \<Rightarrow> cache \<Rightarrow> cache" where
  "upd_pq i f c = c\<lparr>c_PQ := (c_PQ c)\<lparr>q_entry := (q_entry (c_PQ c))[i := f (q_entry (c_PQ c) ! i)]\<rparr>\<rparr>"

definition mshr_at :: "cache \<Rightarrow> nat \<Rightarrow> packet" where "mshr_at c i = q_entry (c_MSHR c) ! i"
definition wq_at :: "cache \<Rightarrow> nat \<Rightarrow> packet" where "wq_at c i = q_entry (c_WQ c) ! i"
definition rq_at :: "cache \<Rightarrow> nat \<Rightarrow> packet" where "rq_at c i = q_entry (c_RQ c) ! i"
definition pq_at :: "cache \<Rightarrow> nat \<Rightarrow> packet" where "pq_at c i = q_entry (c_PQ c) ! i"

definition choose_victim :: "cache \<Rightarrow> u32 \<Rightarrow> nat res" where
  "choose_victim c st =
     (if \<not> unat st < length (c_block c) then Inl Out_of_bounds
      else if c_cache_type c = IS_LLC then llc_find_victim (c_NUM_WAY c) (c_block c ! unat st)
      else find_victim (c_NUM_WAY c) (c_block c ! unat st))"

definition touch_way :: "u32 \<Rightarrow> nat \<Rightarrow> u64 \<Rightarrow> u8 \<Rightarrow> bool \<Rightarrow> cache \<Rightarrow> cache res" where
  "touch_way st way ip ty hit c =
     (if \<not> unat st < length (c_block c) then Inl Out_of_bounds
      else
        bind_res (if c_cache_type c = IS_LLC
                  then llc_update_replacement_state (c_NUM_WAY c) way ip (ucast ty) hit (c_block c ! unat st)
                  else update_replacement_state (c_NUM_WAY c) way (ucast ty) hit (c_block c ! unat st))
          (\<lambda>bs. Inr (c\<lparr>c_block := (c_block c)[unat st := bs]\<rparr>)))"

text \<open>
  The eviction of a dirty victim: without room in the write queue below, the fill is put off.
\<close>

definition evict_victim ::
  "'w ports \<Rightarrow> u32 \<Rightarrow> nat \<Rightarrow> u32 \<Rightarrow> u64 \<Rightarrow> u8 \<Rightarrow> 'w \<times> cache \<Rightarrow> (bool \<times> 'w \<times> cache) res" where
  "evict_victim E st way cpu instr_id ty s =
     bind_res (block_at (snd s) st way) (\<lambda>b.
       if b_dirty b = 0 then Inr (True, s)
       else if has_lower E then
         if lower_get_occupancy E 2 (b_address b) (fst s) = lower_get_size E 2 (b_address b) (fst s) then
           bind_res (count_stall ty (snd s)) (\<lambda>c.
             Inr (False, lower_increment_WQ_FULL E (b_address b) (fst s), c))
         else
           let writeback_packet = (PACKET_init (blank E))\<lparr>p_fill_level := push_bit 1 (c_fill_level (snd s)),
                 p_cpu := cpu, p_address := b_address b, p_full_addr := b_full_addr b, p_data := b_data b,
                 p_instr_id := instr_id, p_ip := 0, p_type := ucast WRITEBACK, p_event_cycle := now E\<rparr>
           in bind_res (lower_add_wq E writeback_packet s) (\<lambda>(_, s). Inr (True, s))
       else if c_cache_type (snd s) \<noteq> IS_STLB then Inl Assert_failed
       else Inr (True, s))"

text \<open>The prefetcher hooks by cache type; the LLC sets \<^verbatim>\<open>cpu\<close> around the call.\<close>

definition hook_cache_fill ::
  "'w ports \<Rightarrow> u32 \<Rightarrow> u32 \<Rightarrow> nat \<Rightarrow> u8 \<Rightarrow> u64 \<Rightarrow> packet \<Rightarrow> 'w \<times> cache \<Rightarrow> (u32 \<times> 'w \<times> cache) res" where
  "hook_cache_fill E cpu st way prefetch evicted p s =
     (let ct = c_cache_type (snd s) in
      if ct = IS_L1D then
        bind_res (l1d_cache_fill E (p_full_addr p) st way prefetch evicted (p_pf_metadata p) s)
          (\<lambda>s. Inr (p_pf_metadata p, s))
      else if ct = IS_L2C then
        l2c_cache_fill E (push_bit 6 (p_address p)) st way prefetch evicted (p_pf_metadata p) s
      else if ct = IS_LLC then
        bind_res (llc_cache_fill E (push_bit 6 (p_address p)) st way prefetch evicted (p_pf_metadata p)
                    (fst s, (snd s)\<lparr>c_cpu := cpu\<rparr>))
          (\<lambda>(md, w, c). Inr (md, w, c\<lparr>c_cpu := 0\<rparr>))
      else Inr (p_pf_metadata p, s))"

definition hook_operate ::
  "'w ports \<Rightarrow> u32 \<Rightarrow> u64 \<Rightarrow> u64 \<Rightarrow> u64 \<Rightarrow> u8 \<Rightarrow> u8 \<Rightarrow> u32 \<Rightarrow> 'w \<times> cache \<Rightarrow> (u32 \<times> 'w \<times> cache) res" where
  "hook_operate E cpu full_addr line ip hit ty md s =
     (let ct = c_cache_type (snd s) in
      if ct = IS_L1D then bind_res (l1d_operate E full_addr ip hit ty s) (\<lambda>s. Inr (md, s))
      else if ct = IS_L2C then l2c_operate E line ip hit ty md s
      else if ct = IS_LLC then
        bind_res (llc_operate E line ip hit ty md (fst s, (snd s)\<lparr>c_cpu := cpu\<rparr>))
          (\<lambda>(md, w, c). Inr (md, w, c\<lparr>c_cpu := 0\<rparr>))
      else Inr (md, s))"

text \<open>What a TLB writes into the packet, and which packets the core is told of.\<close>

definition translate_packet :: "u8 \<Rightarrow> u64 \<Rightarrow> packet \<Rightarrow> packet" where
  "translate_packet ct d p =
     (if ct = IS_ITLB then p\<lparr>p_instruction_pa := d\<rparr> else if ct = IS_DTLB then p\<lparr>p_data_pa := d\<rparr> else p)"

definition deliver :: "packet \<Rightarrow> cache \<Rightarrow> cache res" where
  "deliver p c =
     (let ct = c_cache_type c in
      if ct = IS_ITLB \<or> ct = IS_DTLB \<or> ct = IS_L1I \<or> (ct = IS_L1D \<and> ucast (p_type p) \<noteq> PREFETCH)
      then add_processed p c else Inr c)"

section \<open>Fills\<close>

text \<open>The end of a fill: the miss latency, then the register is released and the next fill chosen.\<close>

definition fill_done :: "'w ports \<Rightarrow> nat \<Rightarrow> 'w \<times> cache \<Rightarrow> ('w \<times> cache) res" where
  "fill_done E i s =
     (let c = snd s;
          c = (if warmup_complete E
               then c\<lparr>c_total_miss_latency := c_total_miss_latency c + (now E - p_cycle_enqueued (mshr_at c i))\<rparr> else c)
      in bind_res (remove_queue (blank E) i (c_MSHR c)) (\<lambda>q.
           Inr (fst s, update_fill_cycle (c\<lparr>c_MSHR := q\<lparr>q_num_returned := q_num_returned q - 1\<rparr>\<rparr>))))"

definition fill_bypass :: "'w ports \<Rightarrow> nat \<Rightarrow> u32 \<Rightarrow> nat \<Rightarrow> 'w \<times> cache \<Rightarrow> ('w \<times> cache) res" where
  "fill_bypass E i st way s =
     (let c = snd s; e = mshr_at c i in
      bind_res (touch_way st way (p_ip e) (p_type e) False c) (\<lambda>c.
      bind_res (count_sim_miss (p_type e) c) (\<lambda>c.
      bind_res (return_up E (mshr_at c i) (fst s, c)) (\<lambda>s.
        fill_done E i s))))"

definition fill_install :: "'w ports \<Rightarrow> nat \<Rightarrow> u32 \<Rightarrow> nat \<Rightarrow> u32 \<Rightarrow> 'w \<times> cache \<Rightarrow> ('w \<times> cache) res" where
  "fill_install E i st way cpu s =
     bind_res (block_at (snd s) st way) (\<lambda>b.
     bind_res (hook_cache_fill E cpu st way (if ucast (p_type (mshr_at (snd s) i)) = PREFETCH then 1 else 0)
                 (push_bit 6 (b_address b)) (mshr_at (snd s) i) s) (\<lambda>(md, w, c).
       let c = upd_mshr i (\<lambda>e. e\<lparr>p_pf_metadata := md\<rparr>) c; e = mshr_at c i in
       bind_res (touch_way st way (p_ip e) (p_type e) False c) (\<lambda>c.
       bind_res (count_sim_miss (p_type e) c) (\<lambda>c.
       bind_res (fill_cache st way e c) (\<lambda>c.
         let c = (if c_cache_type c = IS_L1D \<and> ucast (p_type e) = RFO
                  then put_block st way ((c_block c ! unat st ! way)\<lparr>b_dirty := 1\<rparr>) c else c) in
         bind_res (return_up E e (w, c)) (\<lambda>(w, c).
           let c = upd_mshr i (translate_packet (c_cache_type c) (b_data (c_block c ! unat st ! way))) c in
           bind_res (deliver (mshr_at c i) c) (\<lambda>c. fill_done E i (w, c))))))))"

definition handle_fill :: "'w ports \<Rightarrow> 'w \<times> cache \<Rightarrow> ('w \<times> cache) res" where
  "handle_fill E s =
     (let c = snd s; q = c_MSHR c; idx = q_next_fill_index q; i = unat idx in
      if idx = c_MSHR_SIZE c then Inr s
      else if \<not> i < length (q_entry q) then Inl Out_of_bounds
      else
        let fill_cpu = p_cpu (mshr_at c i) in
        if fill_cpu = NUM_CPUS then Inr s
        else if fill_cpu > NUM_CPUS then Inl Out_of_bounds
        else if \<not> q_next_fill_cycle q \<le> now E then Inr s
        else if idx \<ge> q_SIZE q then Inl Assert_failed
        else
          let st = get_set c (p_address (mshr_at c i)) in
          bind_res (choose_victim c st) (\<lambda>way.
            if c_cache_type c = IS_LLC \<and> way = LLC_WAY then fill_bypass E i st way s
            else
              bind_res (evict_victim E st way fill_cpu (p_instr_id (mshr_at c i)) (p_type (mshr_at c i)) s)
                (\<lambda>(do_fill, s). if do_fill then fill_install E i st way fill_cpu s else Inr s)))"

section \<open>Writebacks\<close>

definition remove_wq :: "'w ports \<Rightarrow> nat \<Rightarrow> 'w \<times> cache \<Rightarrow> ('w \<times> cache) res" where
  "remove_wq E i s = bind_res (remove_queue (blank E) i (c_WQ (snd s))) (\<lambda>q. Inr (fst s, (snd s)\<lparr>c_WQ := q\<rparr>))"

definition wb_hit :: "'w ports \<Rightarrow> nat \<Rightarrow> u32 \<Rightarrow> nat \<Rightarrow> 'w \<times> cache \<Rightarrow> ('w \<times> cache) res" where
  "wb_hit E i st way s =
     (let c = snd s; e = wq_at c i in
      bind_res (touch_way st way (p_ip e) (p_type e) True c) (\<lambda>c.
      bind_res (count_sim_hit (p_type e) c) (\<lambda>c.
      bind_res (block_at c st way) (\<lambda>b.
        let c = put_block st way (b\<lparr>b_dirty := 1\<rparr>) c;
            c = upd_wq i (\<lambda>e. if c_cache_type c = IS_STLB then e\<lparr>p_data := b_data b\<rparr>
                               else translate_packet (c_cache_type c) (b_data b) e) c
        in bind_res (return_up E (wq_at c i) (fst s, c)) (\<lambda>(w, c).
           bind_res (count_hit (p_type e) c) (\<lambda>c. remove_wq E i (w, c)))))))"

text \<open>The replacement of a prefetch in flight by a demand request, which keeps its progress.\<close>

definition promote_prefetch :: "packet \<Rightarrow> packet \<Rightarrow> packet" where
  "promote_prefetch p m =
     (if ucast (p_type m) = PREFETCH
      then p\<lparr>p_returned := p_returned m, p_event_cycle := p_event_cycle m\<rparr> else m)"

definition min_fill_level :: "packet \<Rightarrow> packet \<Rightarrow> packet" where
  "min_fill_level p m =
     (if sint (p_fill_level p) < sint (p_fill_level m) then m\<lparr>p_fill_level := p_fill_level p\<rparr> else m)"

text \<open>
  The store miss of the L1D. The inner test for the LLC in the source cannot hold here. The
  first component tells whether the miss was handled.
\<close>

definition wb_l1d_miss :: "'w ports \<Rightarrow> nat \<Rightarrow> 'w \<times> cache \<Rightarrow> (bool \<times> 'w \<times> cache) res" where
  "wb_l1d_miss E i s =
     (let c = snd s; e = wq_at c i; mshr_index = check_mshr c e; occ = q_occupancy (c_MSHR c) in
      if mshr_index = -1 \<and> occ < c_MSHR_SIZE c then
        bind_res (add_mshr (now E) e c) (\<lambda>(e, c).
          if \<not> has_lower E then Inl Null_pointer
          else
            bind_res (lower_add_rq E e (fst s, upd_wq i (\<lambda>_. e) c)) (\<lambda>(e, w, c).
              Inr (True, w, upd_wq i (\<lambda>_. e) c)))
      else if mshr_index = -1 \<and> occ = c_MSHR_SIZE c then
        bind_res (count_stall (p_type e) c) (\<lambda>c. Inr (False, fst s, c))
      else if mshr_index \<noteq> -1 then
        bind_res (count_merged (p_type e) (upd_mshr (nat mshr_index) (\<lambda>m. promote_prefetch e (min_fill_level e m)) c))
          (\<lambda>c. Inr (True, fst s, c))
      else Inl Assert_failed)"

text \<open>The writeback miss of the other caches, which allocates.\<close>

definition wb_install :: "'w ports \<Rightarrow> nat \<Rightarrow> u32 \<Rightarrow> nat \<Rightarrow> u32 \<Rightarrow> 'w \<times> cache \<Rightarrow> ('w \<times> cache) res" where
  "wb_install E i st way cpu s =
     bind_res (block_at (snd s) st way) (\<lambda>b.
     bind_res (hook_cache_fill E cpu st way 0 (push_bit 6 (b_address b)) (wq_at (snd s) i) s) (\<lambda>(md, w, c).
       let c = upd_wq i (\<lambda>e. e\<lparr>p_pf_metadata := md\<rparr>) c; e = wq_at c i in
       bind_res (touch_way st way (p_ip e) (p_type e) False c) (\<lambda>c.
       bind_res (count_sim_miss (p_type e) c) (\<lambda>c.
       bind_res (fill_cache st way e c) (\<lambda>c.
         let c = put_block st way ((c_block c ! unat st ! way)\<lparr>b_dirty := 1\<rparr>) c in
         bind_res (return_up E e (w, c)) (\<lambda>(w, c).
         bind_res (count_miss (p_type e) c) (\<lambda>c. remove_wq E i (w, c))))))))"

definition wb_fill :: "'w ports \<Rightarrow> nat \<Rightarrow> u32 \<Rightarrow> 'w \<times> cache \<Rightarrow> ('w \<times> cache) res" where
  "wb_fill E i cpu s =
     (let c = snd s; e = wq_at c i; st = get_set c (p_address e) in
      bind_res (choose_victim c st) (\<lambda>way.
        if c_cache_type c = IS_LLC \<and> way = LLC_WAY then Inl Assert_failed
        else
          bind_res (evict_victim E st way cpu (p_instr_id e) (p_type e) s)
            (\<lambda>(do_fill, s). if do_fill then wb_install E i st way cpu s else Inr s)))"

definition handle_writeback :: "'w ports \<Rightarrow> 'w \<times> cache \<Rightarrow> ('w \<times> cache) res" where
  "handle_writeback E s =
     (let c = snd s; i = unat (q_head (c_WQ c)) in
      if \<not> i < length (q_entry (c_WQ c)) then Inl Out_of_bounds
      else
        let writeback_cpu = p_cpu (wq_at c i) in
        if writeback_cpu = NUM_CPUS then Inr s
        else if writeback_cpu > NUM_CPUS then Inl Out_of_bounds
        else if \<not> (p_event_cycle (wq_at c i) \<le> now E \<and> 0 < q_occupancy (c_WQ c)) then Inr s
        else
          let st = get_set c (p_address (wq_at c i)) in
          bind_res (check_hit (knobs E) (wq_at c i) c) (\<lambda>(way, c).
            if way \<ge> 0 then wb_hit E i st (nat way) (fst s, c)
            else if c_cache_type c = IS_L1D then
              bind_res (wb_l1d_miss E i (fst s, c)) (\<lambda>(miss_handled, w, c).
                if miss_handled
                then bind_res (count_miss (p_type (wq_at c i)) c) (\<lambda>c. remove_wq E i (w, c))
                else Inr (w, c))
            else wb_fill E i writeback_cpu (fst s, c)))"

section \<open>Reads\<close>

definition SQ_SIZE :: nat where "SQ_SIZE = 120"
definition LQ_SIZE :: nat where "LQ_SIZE = 189"

definition remove_rq :: "'w ports \<Rightarrow> nat \<Rightarrow> 'w \<times> cache \<Rightarrow> ('w \<times> cache) res" where
  "remove_rq E i s =
     bind_res (remove_queue (blank E) i (c_RQ (snd s))) (\<lambda>q.
       Inr (fst s, (snd s)\<lparr>c_RQ := q, c_reads_available_this_cycle := c_reads_available_this_cycle (snd s) - 1\<rparr>))"

definition read_hit :: "'w ports \<Rightarrow> nat \<Rightarrow> u32 \<Rightarrow> nat \<Rightarrow> u32 \<Rightarrow> 'w \<times> cache \<Rightarrow> ('w \<times> cache) res" where
  "read_hit E i st way cpu s =
     bind_res (block_at (snd s) st way) (\<lambda>b.
       let c = upd_rq i (\<lambda>e. if c_cache_type (snd s) = IS_STLB then e\<lparr>p_data := b_data b\<rparr>
                              else translate_packet (c_cache_type (snd s)) (b_data b) e) (snd s);
           e = rq_at c i
       in bind_res (deliver e c) (\<lambda>c.
          bind_res (if ucast (p_type e) = LOAD
                    then hook_operate E cpu (p_full_addr e) (push_bit 6 (b_address b)) (p_ip e) 1 (p_type e) 0 (fst s, c)
                    else Inr (0, fst s, c)) (\<lambda>(_, w, c).
          bind_res (touch_way st way (p_ip e) (p_type e) True c) (\<lambda>c.
          bind_res (count_sim_hit (p_type e) c) (\<lambda>c.
          bind_res (return_up E e (w, c)) (\<lambda>(w, c).
            let b = c_block c ! unat st ! way;
                c = (if b_prefetch b \<noteq> 0
                     then c\<lparr>c_pf_useful := c_pf_useful c + 1, c_pf_useful_epoch := c_pf_useful_epoch c + 1\<rparr> else c);
                c = put_block st way (b\<lparr>b_prefetch := 0, b_used := 1\<rparr>) c
            in bind_res (count_hit (p_type e) c) (\<lambda>c. remove_rq E i (w, c))))))))"

text \<open>A new miss; the first component tells whether it was handled.\<close>

definition read_new_miss :: "'w ports \<Rightarrow> nat \<Rightarrow> u32 \<Rightarrow> 'w \<times> cache \<Rightarrow> (bool \<times> 'w \<times> cache) res" where
  "read_new_miss E i cpu s =
     (let c = snd s; e = rq_at c i in
      if c_cache_type c = IS_LLC \<and> \<not> has_lower E then Inl Null_pointer
      else if c_cache_type c = IS_LLC \<and>
              lower_get_occupancy E 1 (p_address e) (fst s) = lower_get_size E 1 (p_address e) (fst s)
      then Inr (False, s)
      else
        bind_res (add_mshr (now E) e c) (\<lambda>(e, c).
          let c = upd_rq i (\<lambda>_. e) c in
          if has_lower E then
            bind_res (lower_add_rq E e (fst s, c)) (\<lambda>(e, w, c). Inr (True, w, upd_rq i (\<lambda>_. e) c))
          else if c_cache_type c = IS_STLB then
            bind_res (va_to_pa E cpu (p_instr_id e) (p_full_addr e) (p_address e) (fst s, c)) (\<lambda>(pa, w, c).
              let e = e\<lparr>p_data := drop_bit 12 pa, p_event_cycle := now E\<rparr>
              in bind_res (return_data (now E) e (upd_rq i (\<lambda>_. e) c)) (\<lambda>c. Inr (True, w, c)))
          else Inr (True, fst s, c)))"

text \<open>The merging of the dependence sets of a read into the register \<open>m\<close> of its line.\<close>

definition join_sq :: "packet \<Rightarrow> packet \<Rightarrow> packet res" where
  "join_sq e m = bind_res (fastset_join (p_sq_index_depend_on_me e) SQ_SIZE (p_sq_index_depend_on_me m))
     (\<lambda>s. Inr (m\<lparr>p_sq_index_depend_on_me := s\<rparr>))"

definition join_lq :: "packet \<Rightarrow> packet \<Rightarrow> packet res" where
  "join_lq e m = bind_res (fastset_join (p_lq_index_depend_on_me e) LQ_SIZE (p_lq_index_depend_on_me m))
     (\<lambda>s. Inr (m\<lparr>p_lq_index_depend_on_me := s\<rparr>))"

definition join_rob :: "packet \<Rightarrow> packet \<Rightarrow> packet res" where
  "join_rob e m = bind_res (fastset_join (p_rob_index_depend_on_me e) (unat ROB_SIZE) (p_rob_index_depend_on_me m))
     (\<lambda>s. Inr (m\<lparr>p_rob_index_depend_on_me := s\<rparr>))"

definition mshr_merge_deps :: "packet \<Rightarrow> packet \<Rightarrow> packet res" where
  "mshr_merge_deps e m =
     (if ucast (p_type e) = RFO then
        bind_res
          (if p_tlb_access e \<noteq> 0 then
             bind_res (fastset_insert (ucast (p_sq_index e)) (p_sq_index_depend_on_me m)) (\<lambda>s.
               join_sq e (m\<lparr>p_store_merged := 1, p_sq_index_depend_on_me := s\<rparr>))
           else Inr m)
          (\<lambda>m. if p_load_merged e \<noteq> 0 then join_lq e (m\<lparr>p_load_merged := 1\<rparr>) else Inr m)
      else if p_instruction e \<noteq> 0 then
        bind_res (fastset_insert (ucast (p_rob_index e)) (p_rob_index_depend_on_me m)) (\<lambda>s.
          let m = m\<lparr>p_instr_merged := 1, p_rob_index_depend_on_me := s\<rparr> in
          if p_instr_merged e \<noteq> 0 then join_rob e m else Inr m)
      else
        bind_res (fastset_insert (ucast (p_lq_index e)) (p_lq_index_depend_on_me m)) (\<lambda>s.
        bind_res (join_lq e (m\<lparr>p_load_merged := 1, p_lq_index_depend_on_me := s\<rparr>)) (\<lambda>m.
          if p_store_merged e \<noteq> 0 then join_sq e (m\<lparr>p_store_merged := 1\<rparr>) else Inr m)))"

definition read_merge_mshr :: "nat \<Rightarrow> packet \<Rightarrow> cache \<Rightarrow> cache res" where
  "read_merge_mshr j e c =
     bind_res (mshr_merge_deps e (mshr_at c j)) (\<lambda>m.
       let m = min_fill_level e m;
           c = (if ucast (p_type m) = PREFETCH then c\<lparr>c_pf_late := c_pf_late c + 1\<rparr> else c)
       in count_merged (p_type e) (upd_mshr j (\<lambda>_. promote_prefetch e m) c))"

definition read_miss :: "'w ports \<Rightarrow> nat \<Rightarrow> u32 \<Rightarrow> 'w \<times> cache \<Rightarrow> ('w \<times> cache) res" where
  "read_miss E i cpu s =
     (let c = snd s; e = rq_at c i; mshr_index = check_mshr c e; occ = q_occupancy (c_MSHR c) in
      bind_res
        (if mshr_index = -1 \<and> occ < c_MSHR_SIZE c then read_new_miss E i cpu s
         else if mshr_index = -1 \<and> occ = c_MSHR_SIZE c then
           bind_res (count_stall (p_type e) c) (\<lambda>c. Inr (False, fst s, c))
         else if mshr_index \<noteq> -1 then
           bind_res (read_merge_mshr (nat mshr_index) e c) (\<lambda>c. Inr (True, fst s, c))
         else Inl Assert_failed)
        (\<lambda>(miss_handled, w, c).
           if \<not> miss_handled then Inr (w, c)
           else
             let e = rq_at c i in
             bind_res (if ucast (p_type e) = LOAD
                       then hook_operate E cpu (p_full_addr e) (push_bit 6 (p_address e)) (p_ip e) 0 (p_type e) 0 (w, c)
                       else Inr (0, w, c)) (\<lambda>(_, w, c).
             bind_res (count_miss (p_type e) c) (\<lambda>c. remove_rq E i (w, c)))))"

text \<open>One iteration; the first component is false when the handler returns.\<close>

definition read_step :: "'w ports \<Rightarrow> 'w \<times> cache \<Rightarrow> (bool \<times> 'w \<times> cache) res" where
  "read_step E s =
     (let c = snd s; i = unat (q_head (c_RQ c)) in
      if \<not> i < length (q_entry (c_RQ c)) then Inl Out_of_bounds
      else
        let read_cpu = p_cpu (rq_at c i) in
        if read_cpu = NUM_CPUS then Inr (False, s)
        else if read_cpu > NUM_CPUS then Inl Out_of_bounds
        else if \<not> (p_event_cycle (rq_at c i) \<le> now E \<and> 0 < q_occupancy (c_RQ c)) then Inr (False, s)
        else
          let st = get_set c (p_address (rq_at c i)) in
          bind_res (check_hit (knobs E) (rq_at c i) c) (\<lambda>(way, c).
          bind_res (if way \<ge> 0 then read_hit E i st (nat way) read_cpu (fst s, c)
                    else read_miss E i read_cpu (fst s, c)) (\<lambda>s.
            Inr (c_reads_available_this_cycle (snd s) \<noteq> 0, s))))"

primrec read_loop :: "nat \<Rightarrow> 'w ports \<Rightarrow> 'w \<times> cache \<Rightarrow> ('w \<times> cache) res" where
  "read_loop 0 E s = Inr s"
| "read_loop (Suc n) E s = bind_res (read_step E s) (\<lambda>(go, s). if go then read_loop n E s else Inr s)"

definition handle_read :: "'w ports \<Rightarrow> 'w \<times> cache \<Rightarrow> ('w \<times> cache) res" where
  "handle_read E s = read_loop (unat (c_MAX_READ (snd s))) E s"

section \<open>Prefetches\<close>

definition remove_pq :: "'w ports \<Rightarrow> nat \<Rightarrow> 'w \<times> cache \<Rightarrow> ('w \<times> cache) res" where
  "remove_pq E i s =
     bind_res (remove_queue (blank E) i (c_PQ (snd s))) (\<lambda>q.
       Inr (fst s, (snd s)\<lparr>c_PQ := q, c_reads_available_this_cycle := c_reads_available_this_cycle (snd s) - 1\<rparr>))"

definition hook_prefetch_hit :: "'w ports \<Rightarrow> u64 \<Rightarrow> u64 \<Rightarrow> u32 \<Rightarrow> 'w \<times> cache \<Rightarrow> ('w \<times> cache) res" where
  "hook_prefetch_hit E line ip md s =
     (let ct = c_cache_type (snd s) in
      if ct = IS_L1D then bind_res (l1d_prefetch_hit E line ip md s) (\<lambda>(_, s). Inr s)
      else if ct = IS_L2C then bind_res (l2c_prefetch_hit E line ip md s) (\<lambda>(_, s). Inr s)
      else if ct = IS_LLC then bind_res (llc_prefetch_hit E line ip md s) (\<lambda>(_, s). Inr s)
      else Inr s)"

text \<open>The prefetchers see the prefetches that come from above.\<close>

definition pf_operate_from_above ::
  "'w ports \<Rightarrow> nat \<Rightarrow> u32 \<Rightarrow> u64 \<Rightarrow> u8 \<Rightarrow> 'w \<times> cache \<Rightarrow> ('w \<times> cache) res" where
  "pf_operate_from_above E i cpu line hit s =
     (let e = pq_at (snd s) i in
      if sint (p_pf_origin_level e) < sint (c_fill_level (snd s))
      then bind_res (hook_operate E cpu (p_full_addr e) line (p_ip e) hit (ucast PREFETCH) (p_pf_metadata e) s)
             (\<lambda>(md, w, c). Inr (w, upd_pq i (\<lambda>e. e\<lparr>p_pf_metadata := md\<rparr>) c))
      else Inr s)"

definition pf_hit :: "'w ports \<Rightarrow> nat \<Rightarrow> u32 \<Rightarrow> nat \<Rightarrow> u32 \<Rightarrow> 'w \<times> cache \<Rightarrow> ('w \<times> cache) res" where
  "pf_hit E i st way cpu s =
     (let c = snd s; e = pq_at c i in
      bind_res (touch_way st way (p_ip e) (p_type e) True c) (\<lambda>c.
      bind_res (count_sim_hit (p_type e) c) (\<lambda>c.
      bind_res (block_at c st way) (\<lambda>b.
      bind_res (hook_prefetch_hit E (push_bit 6 (b_address b)) (p_ip e) (p_pf_metadata e) (fst s, c)) (\<lambda>s.
      bind_res (pf_operate_from_above E i cpu (push_bit 6 (b_address b)) 1 s) (\<lambda>s.
      bind_res (return_up E (pq_at (snd s) i) s) (\<lambda>(w, c).
      bind_res (count_hit (p_type e) c) (\<lambda>c. remove_pq E i (w, c)))))))))"

text \<open>
  A new prefetch miss: the LLC needs room in the read queue of the DRAM, the others in the
  prefetch queue below; a register is taken only if the line will be filled here.
\<close>

definition pf_new_miss :: "'w ports \<Rightarrow> nat \<Rightarrow> u32 \<Rightarrow> 'w \<times> cache \<Rightarrow> (bool \<times> 'w \<times> cache) res" where
  "pf_new_miss E i cpu s =
     (let c = snd s; a = p_address (pq_at c i); qt = (if c_cache_type c = IS_LLC then 1 else 3) in
      if \<not> has_lower E then Inr (True, s)
      else if lower_get_occupancy E qt a (fst s) = lower_get_size E qt a (fst s) then Inr (False, s)
      else
        bind_res (pf_operate_from_above E i cpu (push_bit 6 a) 0 s) (\<lambda>(w, c).
        bind_res (if sint (p_fill_level (pq_at c i)) \<le> sint (c_fill_level c)
                  then bind_res (add_mshr (now E) (pq_at c i) c) (\<lambda>(e, c). Inr (upd_pq i (\<lambda>_. e) c))
                  else Inr c) (\<lambda>c.
        bind_res (if c_cache_type c = IS_LLC then lower_add_rq E (pq_at c i) (w, c)
                  else lower_add_pq E (pq_at c i) (w, c)) (\<lambda>(e, w, c).
          Inr (True, w, upd_pq i (\<lambda>_. e) c)))))"

definition pf_miss :: "'w ports \<Rightarrow> nat \<Rightarrow> u32 \<Rightarrow> 'w \<times> cache \<Rightarrow> ('w \<times> cache) res" where
  "pf_miss E i cpu s =
     (let c = snd s; e = pq_at c i; mshr_index = check_mshr c e; occ = q_occupancy (c_MSHR c) in
      bind_res
        (if mshr_index = -1 \<and> occ < c_MSHR_SIZE c then pf_new_miss E i cpu s
         else if mshr_index = -1 \<and> occ = c_MSHR_SIZE c then
           bind_res (count_stall (p_type e) c) (\<lambda>c. Inr (False, fst s, c))
         else if mshr_index \<noteq> -1 then
           bind_res (count_merged (p_type e) (upd_mshr (nat mshr_index) (min_fill_level e) c))
             (\<lambda>c. Inr (True, fst s, c))
         else Inl Assert_failed)
        (\<lambda>(miss_handled, w, c).
           if miss_handled
           then bind_res (count_miss (p_type (pq_at c i)) c) (\<lambda>c. remove_pq E i (w, c))
           else Inr (w, c)))"

definition pf_step :: "'w ports \<Rightarrow> 'w \<times> cache \<Rightarrow> (bool \<times> 'w \<times> cache) res" where
  "pf_step E s =
     (let c = snd s; i = unat (q_head (c_PQ c)) in
      if \<not> i < length (q_entry (c_PQ c)) then Inl Out_of_bounds
      else
        let prefetch_cpu = p_cpu (pq_at c i) in
        if prefetch_cpu = NUM_CPUS then Inr (False, s)
        else if prefetch_cpu > NUM_CPUS then Inl Out_of_bounds
        else if \<not> (p_event_cycle (pq_at c i) \<le> now E \<and> 0 < q_occupancy (c_PQ c)) then Inr (False, s)
        else
          let st = get_set c (p_address (pq_at c i)) in
          bind_res (check_hit (knobs E) (pq_at c i) c) (\<lambda>(way, c).
          bind_res (if way \<ge> 0 then pf_hit E i st (nat way) prefetch_cpu (fst s, c)
                    else pf_miss E i prefetch_cpu (fst s, c)) (\<lambda>s.
            Inr (c_reads_available_this_cycle (snd s) \<noteq> 0, s))))"

primrec pf_loop :: "nat \<Rightarrow> 'w ports \<Rightarrow> 'w \<times> cache \<Rightarrow> ('w \<times> cache) res" where
  "pf_loop 0 E s = Inr s"
| "pf_loop (Suc n) E s = bind_res (pf_step E s) (\<lambda>(go, s). if go then pf_loop n E s else Inr s)"

definition handle_prefetch :: "'w ports \<Rightarrow> 'w \<times> cache \<Rightarrow> ('w \<times> cache) res" where
  "handle_prefetch E s = pf_loop (unat (c_MAX_READ (snd s))) E s"

section \<open>A cycle\<close>

definition CACHE_ACC_LEVELS :: u32 where "CACHE_ACC_LEVELS = 10"

definition broadcast_acc :: "'w ports \<Rightarrow> u32 \<Rightarrow> 'w \<times> cache \<Rightarrow> ('w \<times> cache) res" where
  "broadcast_acc E acc_level s =
     (let ct = c_cache_type (snd s) in
      if ct = IS_L1D then l1d_broadcast_acc E acc_level s
      else if ct = IS_L2C then l2c_broadcast_acc E acc_level s
      else if ct = IS_LLC then llc_broadcast_acc E acc_level s
      else Inr s)"

definition handle_prefetch_feedback :: "'w ports \<Rightarrow> 'w \<times> cache \<Rightarrow> ('w \<times> cache) res" where
  "handle_prefetch_feedback E s =
     (let c = (snd s)\<lparr>c_cycle := c_cycle (snd s) + 1\<rparr> in
      if measure_cache_acc (knobs E) \<and> c_next_measure_cycle c \<le> c_cycle c then
        let this_epoch_accuracy = (if c_pf_filled_epoch c \<noteq> 0
                                   then percent_of E (c_pf_useful_epoch c) (c_pf_filled_epoch c) else 0);
            pref_acc = (c_pref_acc c + this_epoch_accuracy) div 2;
            acc_level = acc_bucket E pref_acc;
            acc_level = (if acc_level \<ge> CACHE_ACC_LEVELS then CACHE_ACC_LEVELS - 1 else acc_level);
            h = c_acc_epoch_hist c
        in if \<not> unat acc_level < length h then Inl Out_of_bounds
           else
             broadcast_acc E acc_level (fst s, c\<lparr>c_pref_acc := pref_acc, c_pf_useful_epoch := 0, c_pf_filled_epoch := 0,
               c_next_measure_cycle := c_cycle c + ucast (measure_cache_acc_epoch (knobs E)),
               c_total_acc_epochs := c_total_acc_epochs c + 1,
               c_acc_epoch_hist := h[unat acc_level := h ! unat acc_level + 1]\<rparr>)
      else Inr (fst s, c))"

definition operate :: "'w ports \<Rightarrow> 'w \<times> cache \<Rightarrow> ('w \<times> cache) res" where
  "operate E s =
     bind_res (handle_fill E s) (\<lambda>s.
     bind_res (handle_writeback E s) (\<lambda>(w, c).
     bind_res (handle_read E (w, c\<lparr>c_reads_available_this_cycle := c_MAX_READ c\<rparr>)) (\<lambda>s.
     bind_res (if q_occupancy (c_PQ (snd s)) \<noteq> 0 \<and> 0 < c_reads_available_this_cycle (snd s)
               then handle_prefetch E s else Inr s) (\<lambda>s.
       handle_prefetch_feedback E s))))"

section \<open>The request queues keep their invariant\<close>

lemma queue_insert_add_queue:
  assumes "q_ok q" "\<not> q_full q" "p_cpu p < NUM_CPUS"
  shows "queue_insert t c p q = add_queue (p\<lparr>p_event_cycle := add_latency t c (p_event_cycle p)\<rparr>) q"
proof -
  have wf: "q_wf q" using assms(1) by (simp add: q_ok_def)
  have "\<not> (q_occupancy q \<noteq> 0 \<and> q_head q = q_tail q)" using head_eq_tail_iff [OF wf] assms(2) by auto
  then show ?thesis
    using tail_blank [OF assms(1,2)] q_wfD(2,4) [OF wf] assms(3)
    by (simp add: queue_insert_def add_queue_def Let_def not_le)
qed

lemma queue_insert_ok:
  assumes "q_ok q" "\<not> q_full q" "p_cpu p < NUM_CPUS" "p_address p \<noteq> 0"
  shows "\<exists>q'. queue_insert t c p q = Inr q' \<and> q_ok q' \<and>
    q_list q' = q_list q @ [p\<lparr>p_event_cycle := add_latency t c (p_event_cycle p)\<rparr>]"
  using q_ok_add [OF assms(1,2), of "p\<lparr>p_event_cycle := add_latency t c (p_event_cycle p)\<rparr>"]
    queue_insert_add_queue [OF assms(1-3)] assms(4) by simp

lemma q_ok_stats [simp]:
  "q_ok (q\<lparr>q_TO_CACHE := a, q_ACCESS := b\<rparr>) = q_ok q" "q_ok (q\<lparr>q_MERGED := a, q_ACCESS := b\<rparr>) = q_ok q"
  "q_ok (q\<lparr>q_FULL := a\<rparr>) = q_ok q" "q_ok (q\<lparr>q_ACCESS := a\<rparr>) = q_ok q" "q_ok (q\<lparr>q_FORWARD := a\<rparr>) = q_ok q"
  by (simp_all add: q_ok_def q_wf_def q_list_def slot_def)

lemma q_list_stats [simp]:
  "q_list (q\<lparr>q_TO_CACHE := a, q_ACCESS := b\<rparr>) = q_list q" "q_list (q\<lparr>q_MERGED := a, q_ACCESS := b\<rparr>) = q_list q"
  "q_list (q\<lparr>q_FULL := a\<rparr>) = q_list q" "q_list (q\<lparr>q_ACCESS := a\<rparr>) = q_list q" "q_list (q\<lparr>q_FORWARD := a\<rparr>) = q_list q"
  by (simp_all add: q_list_def slot_def)

lemma not_full_iff: "q_ok q \<Longrightarrow> q_occupancy q < q_SIZE q \<longleftrightarrow> \<not> q_full q"
  by (auto simp: q_ok_def q_wf_def q_full_def)


end
