(* ===== verification/CacheQueues.thy ===== *)
theory CacheQueues
  imports CacheOps
begin

text \<open>
  The request queues of a cache as the neighbours see them (\<^verbatim>\<open>add_rq\<close>, \<^verbatim>\<open>add_wq\<close>,
  \<^verbatim>\<open>add_pq\<close> of \<^verbatim>\<open>src/cache.cc\<close>): the invariant \<open>q_ok\<close> excludes their assertions, a new
  request joins the list of pending ones at its end, a duplicate is merged into the oldest
  pending request of its line, and a line that waits to be written is forwarded.
\<close>

lemma check_queue_none:
  assumes "q_wf q"
  shows "check_queue q p = -1 \<longleftrightarrow> (\<forall>e\<in>set (q_list q). \<not> queue_match q p e)"
proof (cases "oldest_match q p")
  case None
  then have "\<forall>e\<in>set (q_list q). \<not> queue_match q p e"
    by (auto simp: oldest_match_def find_None_iff in_set_conv_nth)
  then show ?thesis using check_queue_spec [OF assms, of p] None by simp
next
  case (Some k)
  then have "k < length (q_list q)" "queue_match q p (q_list q ! k)" by (auto simp: oldest_match_def find_upt_Some)
  then show ?thesis using check_queue_spec [OF assms, of p] Some nth_mem by fastforce
qed

text \<open>A packet no pending packet of the queue matches.\<close>

definition fresh_in :: "packet_queue \<Rightarrow> packet \<Rightarrow> bool" where
  "fresh_in q p \<longleftrightarrow> (\<forall>e\<in>set (q_list q). \<not> queue_match q p e)"

lemma check_queue_fresh: "q_wf q \<Longrightarrow> fresh_in q p \<Longrightarrow> check_queue q p = -1"
  by (simp add: check_queue_none fresh_in_def)

lemma check_queue_stale:
  assumes "q_wf q" "\<not> fresh_in q p"
  shows "\<exists>k. oldest_match q p = Some k \<and> check_queue q p = int (slot q k) \<and> k < length (q_list q) \<and>
    queue_match q p (q_list q ! k) \<and> (\<forall>j<k. \<not> queue_match q p (q_list q ! j))"
proof (cases "oldest_match q p")
  case None
  then show ?thesis using assms check_queue_none [OF assms(1), of p] check_queue_spec [OF assms(1), of p]
    by (simp add: fresh_in_def)
next
  case (Some k)
  then have "k < length (q_list q) \<and> queue_match q p (q_list q ! k) \<and> (\<forall>j<k. \<not> queue_match q p (q_list q ! j))"
    by (auto simp: oldest_match_def find_upt_Some)
  moreover have "check_queue q p = int (slot q k)" using check_queue_spec [OF assms(1), of p] Some by simp
  ultimately show ?thesis using Some by blast
qed

lemma q_stats [simp]:
  "q_ok (q\<lparr>q_TO_CACHE := n\<rparr>) = q_ok q" "q_list (q\<lparr>q_TO_CACHE := n\<rparr>) = q_list q"
  "q_ok (q\<lparr>q_MERGED := n\<rparr>) = q_ok q" "q_list (q\<lparr>q_MERGED := n\<rparr>) = q_list q"
  by (simp_all add: q_ok_def q_wf_def q_list_def slot_def)

lemma slot_upd: "slot (q\<lparr>q_entry := es\<rparr>) = slot q"
  by (rule ext) (simp add: slot_def)

text \<open>Rewriting a pending packet in place.\<close>

lemma q_list_update:
  assumes "q_wf q" "k < length (q_list q)"
  shows "q_list (q\<lparr>q_entry := (q_entry q)[slot q k := e]\<rparr>) = (q_list q)[k := e]"
proof (rule nth_equalityI)
  fix j assume j: "j < length (q_list (q\<lparr>q_entry := (q_entry q)[slot q k := e]\<rparr>))"
  then have "slot q k = slot q j \<longleftrightarrow> k = j"
    using slot_inj [OF assms(1), of k j] assms(2) q_wfD(5) [OF assms(1)] by auto
  then show "q_list (q\<lparr>q_entry := (q_entry q)[slot q k := e]\<rparr>) ! j = (q_list q)[k := e] ! j"
    using slot_bound [OF assms(1), of k] assms(2) j by (simp add: q_list_def nth_list_update slot_upd)
qed simp

lemma q_ok_update:
  assumes "q_ok q" "k < length (q_list q)" "p_address e \<noteq> 0"
  shows "q_ok (q\<lparr>q_entry := (q_entry q)[slot q k := e]\<rparr>)"
proof -
  let ?q = "q\<lparr>q_entry := (q_entry q)[slot q k := e]\<rparr>"
  have wf: "q_wf q" using assms(1) by (simp add: q_ok_def)
  have "\<forall>e\<in>set (q_list ?q). p_address e \<noteq> 0"
    using assms(1,3) set_update_subset_insert [of "q_list q" k e]
    unfolding q_list_update [OF wf assms(2)] q_ok_def by blast
  moreover have "p_address (q_entry ?q ! i) = 0"
    if "i < length (q_entry ?q)" "\<forall>k<unat (q_occupancy ?q). slot ?q k \<noteq> i" for i
  proof -
    have "slot q k \<noteq> i" "\<forall>k<unat (q_occupancy q). slot q k \<noteq> i" using that(2) assms(2) by (auto simp: slot_def)
    then show ?thesis using assms(1) that(1) by (simp add: q_ok_def)
  qed
  moreover have "q_wf ?q" using wf by (simp add: q_wf_def)
  ultimately show ?thesis by (simp add: q_ok_def)
qed

lemma q_entry_slot: "k < length (q_list q) \<Longrightarrow> q_entry q ! slot q k = q_list q ! k"
  by (simp add: q_list_def)

lemma q_ok_wf: "q_ok q \<Longrightarrow> q_wf q"
  by (simp add: q_ok_def)

section \<open>Merging\<close>

text \<open>The reservation indices that wait for an entry, by kind of request.\<close>

definition waiters :: "packet \<Rightarrow> packet \<Rightarrow> u16 set" where
  "waiters p e = (if p_instruction p \<noteq> 0 then fs_set (p_rob_index_depend_on_me e)
     else if ucast (p_type p) = RFO then fs_set (p_sq_index_depend_on_me e) else fs_set (p_lq_index_depend_on_me e))"

definition waiter_index :: "packet \<Rightarrow> u16" where
  "waiter_index p = (if p_instruction p \<noteq> 0 then ucast (p_rob_index p)
     else if ucast (p_type p) = RFO then ucast (p_sq_index p) else ucast (p_lq_index p))"

definition deps_wf :: "packet \<Rightarrow> bool" where
  "deps_wf e \<longleftrightarrow> fs_wf (p_rob_index_depend_on_me e) \<and> fs_wf (p_sq_index_depend_on_me e) \<and> fs_wf (p_lq_index_depend_on_me e)"

lemma rq_merge_ok:
  assumes "deps_wf e" "waiter_index p < 2048"
  shows "\<exists>e'. rq_merge p e = Inr e' \<and> deps_wf e' \<and> waiters p e' = insert (waiter_index p) (waiters p e) \<and>
    p_address e' = p_address e \<and> p_type e' = p_type e \<and> p_cpu e' = p_cpu e"
proof -
  consider "p_instruction p \<noteq> 0" | "p_instruction p = 0" "ucast (p_type p) = RFO"
    | "p_instruction p = 0" "ucast (p_type p) \<noteq> RFO" by blast
  then show ?thesis
  proof cases
    case 1
    then obtain s where "fastset_insert (ucast (p_rob_index p)) (p_rob_index_depend_on_me e) = Inr s" "fs_wf s"
      "fs_set s = insert (ucast (p_rob_index p)) (fs_set (p_rob_index_depend_on_me e))"
      using insert_spec [of "p_rob_index_depend_on_me e" "ucast (p_rob_index p)"] assms
      by (auto simp: deps_wf_def waiter_index_def)
    then show ?thesis using 1 assms by (simp add: rq_merge_def waiters_def waiter_index_def deps_wf_def)
  next
    case 2
    then obtain s where "fastset_insert (ucast (p_sq_index p)) (p_sq_index_depend_on_me e) = Inr s" "fs_wf s"
      "fs_set s = insert (ucast (p_sq_index p)) (fs_set (p_sq_index_depend_on_me e))"
      using insert_spec [of "p_sq_index_depend_on_me e" "ucast (p_sq_index p)"] assms
      by (auto simp: deps_wf_def waiter_index_def)
    then show ?thesis using 2 assms by (simp add: rq_merge_def waiters_def waiter_index_def deps_wf_def)
  next
    case 3
    then obtain s where "fastset_insert (ucast (p_lq_index p)) (p_lq_index_depend_on_me e) = Inr s" "fs_wf s"
      "fs_set s = insert (ucast (p_lq_index p)) (fs_set (p_lq_index_depend_on_me e))"
      using insert_spec [of "p_lq_index_depend_on_me e" "ucast (p_lq_index p)"] assms
      by (auto simp: deps_wf_def waiter_index_def)
    then show ?thesis using 3 assms by (simp add: rq_merge_def waiters_def waiter_index_def deps_wf_def)
  qed
qed

section \<open>Arrival of a request\<close>

abbreviation delayed :: "'w ports \<Rightarrow> cache \<Rightarrow> packet \<Rightarrow> packet" where
  "delayed E c p \<equiv> p\<lparr>p_event_cycle := add_latency (now E) c (p_event_cycle p)\<rparr>"

lemma add_wq_ok:
  assumes "q_ok (c_WQ c)" "fresh_in (c_WQ c) p \<longrightarrow> \<not> q_full (c_WQ c)" "p_cpu p < NUM_CPUS" "p_address p \<noteq> 0"
  shows "\<exists>r q'. add_wq E p (w, c) = Inr (r, p, w, c\<lparr>c_WQ := q'\<rparr>) \<and> q_ok q' \<and> (r = -1 \<longleftrightarrow> fresh_in (c_WQ c) p) \<and>
    q_list q' = (if fresh_in (c_WQ c) p then q_list (c_WQ c) @ [delayed E c p] else q_list (c_WQ c))"
proof -
  let ?q = "c_WQ c"
  note wf = q_ok_wf [OF assms(1)]
  show ?thesis
  proof (cases "fresh_in ?q p")
    case True
    then have "\<not> q_occupancy ?q \<ge> q_SIZE ?q" using not_full_iff [OF assms(1)] assms(2) by (simp add: not_le)
    moreover obtain q' where q': "queue_insert (now E) c p ?q = Inr q'" "q_ok q'" "q_list q' = q_list ?q @ [delayed E c p]"
      using queue_insert_ok [OF assms(1) _ assms(3,4)] True assms(2) by blast
    ultimately show ?thesis using True check_queue_fresh [OF wf, of p]
      by (intro exI [of _ "-1"] exI [of _ "q'\<lparr>q_TO_CACHE := q_TO_CACHE q' + 1, q_ACCESS := q_ACCESS q' + 1\<rparr>"])
        (simp add: add_wq_def Let_def)
  next
    case False
    then obtain k where k: "check_queue ?q p = int k" using check_queue_stale [OF wf] by blast
    then show ?thesis using False assms(1)
      by (intro exI [of _ "int k"] exI [of _ "?q\<lparr>q_MERGED := q_MERGED ?q + 1, q_ACCESS := q_ACCESS ?q + 1\<rparr>"])
        (simp add: add_wq_def Let_def)
  qed
qed

lemma queue_insert_name: "queue_insert t c p q = Inr q' \<Longrightarrow> q_NAME q' = q_NAME q \<and> q_SIZE q' = q_SIZE q"
  by (auto simp: queue_insert_def Let_def split: if_splits)

lemma add_wq_frame:
  "add_wq E p (w, c) = Inr (r, p', w', c') \<Longrightarrow> q_NAME (c_WQ c') = q_NAME (c_WQ c) \<and> q_SIZE (c_WQ c') = q_SIZE (c_WQ c)"
  by (auto simp: add_wq_def Let_def bind_res_Inr_iff dest: queue_insert_name split: if_splits)

text \<open>The lines that wait in a queue which compares line addresses.\<close>

definition pending_lines :: "packet_queue \<Rightarrow> u64 set" where
  "pending_lines q = p_address ` set (q_list q)"

lemma fresh_in_lines: "q_NAME q \<noteq> ''L1D_WQ'' \<Longrightarrow> fresh_in q p \<longleftrightarrow> p_address p \<notin> pending_lines q"
  by (auto simp: fresh_in_def queue_match_def pending_lines_def) (metis imageI)

primrec add_wqs :: "'w ports \<Rightarrow> packet list \<Rightarrow> 'w \<times> cache \<Rightarrow> ('w \<times> cache) res" where
  "add_wqs E [] s = Inr s"
| "add_wqs E (p # ps) s = bind_res (add_wq E p s) (\<lambda>(_, _, s). add_wqs E ps s)"

lemma full_card:
  assumes "q_ok q" "q_full q" "distinct (map p_address (q_list q))"
  shows "card (pending_lines q) = unat (q_SIZE q)"
  using distinct_card [OF assms(3)] assms(2) by (simp add: pending_lines_def q_full_def)

lemma add_wqs_ok:
  assumes "q_ok (c_WQ c)" "q_NAME (c_WQ c) \<noteq> ''L1D_WQ''" "distinct (map p_address (q_list (c_WQ c)))"
    and "\<forall>p\<in>set ps. p_cpu p < NUM_CPUS \<and> p_address p \<noteq> 0"
    and "card (pending_lines (c_WQ c) \<union> p_address ` set ps) \<le> unat (q_SIZE (c_WQ c))"
  shows "\<exists>q'. add_wqs E ps (w, c) = Inr (w, c\<lparr>c_WQ := q'\<rparr>) \<and> q_ok q' \<and> distinct (map p_address (q_list q')) \<and>
    pending_lines q' = pending_lines (c_WQ c) \<union> p_address ` set ps"
  using assms
proof (induction ps arbitrary: c)
  case Nil
  then show ?case by (intro exI [of _ "c_WQ c"]) simp
next
  case (Cons p ps)
  let ?q = "c_WQ c"
  have fresh: "fresh_in ?q p \<longleftrightarrow> p_address p \<notin> pending_lines ?q" using fresh_in_lines Cons.prems(2) by blast
  have "card (insert (p_address p) (pending_lines ?q)) \<le> unat (q_SIZE ?q)"
    using Cons.prems(5) by (intro order_trans [OF card_mono Cons.prems(5)]) (auto simp: pending_lines_def)
  then have "fresh_in ?q p \<longrightarrow> \<not> q_full ?q"
    using full_card [OF Cons.prems(1) _ Cons.prems(3)] fresh by (auto simp: pending_lines_def)
  then obtain r q' where q': "add_wq E p (w, c) = Inr (r, p, w, c\<lparr>c_WQ := q'\<rparr>)" "q_ok q'"
    "q_list q' = (if fresh_in ?q p then q_list ?q @ [delayed E c p] else q_list ?q)"
    using add_wq_ok [OF Cons.prems(1), of p E w] Cons.prems(4) by auto
  have "distinct (map p_address (q_list q'))" "pending_lines q' = insert (p_address p) (pending_lines ?q)"
    using q'(3) Cons.prems(3) fresh by (auto simp: pending_lines_def)
  then show ?case using Cons.IH [of "c\<lparr>c_WQ := q'\<rparr>"] Cons.prems add_wq_frame [OF q'(1)] q'(1,2) by simp
qed

section \<open>An example\<close>

text \<open>Ports of a cache with nothing around it, for the examples.\<close>

definition sample_ports :: "'w ports" where
  "sample_ports = \<lparr>now = 20, warmup_complete = True,
     knobs = \<lparr>l1d_perfect = False, l2c_perfect = False, llc_perfect = False, l1d_semi_perfect = False,
       l2c_semi_perfect = False, llc_semi_perfect = False, semi_perfect_cache_page_buffer_size = 64,
       measure_cache_acc = False, measure_cache_acc_epoch = 0\<rparr>,
     blank = zero_packet, has_lower = False,
     lower_add_rq = \<lambda>p s. Inr (p, s), lower_add_wq = \<lambda>p s. Inr (p, s), lower_add_pq = \<lambda>p s. Inr (p, s),
     lower_get_occupancy = \<lambda>t a w. 0, lower_get_size = \<lambda>t a w. 0, lower_increment_WQ_FULL = \<lambda>a w. w,
     upper_icache_return_data = \<lambda>p w. Inr w, upper_dcache_return_data = \<lambda>p w. Inr w,
     l1d_operate = \<lambda>a ip h t s. Inr s, l2c_operate = \<lambda>a ip h t m s. Inr (m, s), llc_operate = \<lambda>a ip h t m s. Inr (m, s),
     l1d_cache_fill = \<lambda>a st w p e m s. Inr s, l2c_cache_fill = \<lambda>a st w p e m s. Inr (m, s),
     llc_cache_fill = \<lambda>a st w p e m s. Inr (m, s),
     l1d_prefetch_hit = \<lambda>a ip m s. Inr (m, s), l2c_prefetch_hit = \<lambda>a ip m s. Inr (m, s),
     llc_prefetch_hit = \<lambda>a ip m s. Inr (m, s),
     l1d_broadcast_acc = \<lambda>l s. Inr s, l2c_broadcast_acc = \<lambda>l s. Inr s, llc_broadcast_acc = \<lambda>l s. Inr s,
     percent_of = \<lambda>a b. 0, acc_bucket = \<lambda>a. 0, va_to_pa = \<lambda>c i v u s. Inr (v, s)\<rparr>"

abbreviation sample_load :: packet where
  "sample_load \<equiv> zero_packet\<lparr>p_address := 5, p_cpu := 0, p_fill_level := 1\<rparr>"

lemma sample_queues:
  "q_ok (c_WQ sample_cache)" "q_ok (c_RQ sample_cache)" "q_ok (c_PQ sample_cache)"
  "q_list (c_WQ sample_cache) = []" "q_list (c_RQ sample_cache) = []" "q_list (c_PQ sample_cache) = []"
  "q_SIZE (c_RQ sample_cache) = c_RQ_SIZE sample_cache" "q_SIZE (c_PQ sample_cache) = c_PQ_SIZE sample_cache"
  "q_NAME (c_WQ sample_cache) \<noteq> ''L1D_WQ''" "q_SIZE (c_WQ sample_cache) = 2"
  "\<not> q_full (c_WQ sample_cache)" "\<not> q_full (c_RQ sample_cache)" "\<not> q_full (c_PQ sample_cache)"
  using q_ok_init [of 2 zero_packet] q_list_init [of zero_packet]
  by (simp_all add: sample_cache_def Let_def q_full_def) (simp_all add: PACKET_QUEUE_init_def)

section \<open>Properties\<close>

text \<open>
  C10: Writebacks are never lost and never duplicated. From a write queue that compares line
  addresses and holds each line once, any sequence of \<^verbatim>\<open>add_wq\<close> calls whose distinct lines fit
  into the queue runs without an assertion, changes nothing but the write queue, and leaves
  exactly the lines that were pending or arrived, each of them once.
\<close>

theorem writeback_queue_coalesces:
  assumes "q_ok (c_WQ c)" "q_NAME (c_WQ c) \<noteq> ''L1D_WQ''" "distinct (map p_address (q_list (c_WQ c)))"
    and "\<forall>p\<in>set ps. p_cpu p < NUM_CPUS \<and> p_address p \<noteq> 0"
    and "card (p_address ` (set (q_list (c_WQ c)) \<union> set ps)) \<le> unat (q_SIZE (c_WQ c))"
  shows "\<exists>q'. add_wqs E ps (w, c) = Inr (w, c\<lparr>c_WQ := q'\<rparr>) \<and> q_ok q' \<and> distinct (map p_address (q_list q')) \<and>
    p_address ` set (q_list q') = p_address ` (set (q_list (c_WQ c)) \<union> set ps)"
  using add_wqs_ok [OF assms(1-4), of E w] assms(5) by (simp add: pending_lines_def image_Un)

theorem writeback_queue_coalesces_witness:
  "\<exists>q'. add_wqs sample_ports [sample_load, sample_load\<lparr>p_address := 9\<rparr>, sample_load] ((), sample_cache) =
      Inr ((), sample_cache\<lparr>c_WQ := q'\<rparr>) \<and> q_ok q' \<and> distinct (map p_address (q_list q')) \<and>
    p_address ` set (q_list q') = {5, 9}"
  using writeback_queue_coalesces [OF sample_queues(1,9), of "[sample_load, sample_load\<lparr>p_address := 9\<rparr>, sample_load]" sample_ports "()"]
  by (simp add: sample_queues NUM_CPUS_def insert_commute)

text \<open>
  C13: A read that meets no pending writeback is, in this order, merged into the oldest pending
  read of its line, with its reservation index added to the set of those waiting for it and
  nothing lost from it; or refused with -2 when the queue is full, leaving the queue alone; or
  queued last with the latency of the cache added. No assertion fires.
\<close>

theorem add_rq_queues_or_merges:
  assumes "q_ok (c_RQ c)" "q_wf (c_WQ c)" "fresh_in (c_WQ c) p" "q_SIZE (c_RQ c) = c_RQ_SIZE c"
    and "p_cpu p < NUM_CPUS" "p_address p \<noteq> 0"
    and "\<forall>e\<in>set (q_list (c_RQ c)). deps_wf e" "waiter_index p < 2048"
  shows "\<exists>r q'. add_rq E p (w, c) = Inr (r, p, w, c\<lparr>c_RQ := q'\<rparr>) \<and> q_ok q' \<and>
    (if \<not> fresh_in (c_RQ c) p then
       \<exists>k e. oldest_match (c_RQ c) p = Some k \<and> r = int (slot (c_RQ c) k) \<and> q_list q' = (q_list (c_RQ c))[k := e] \<and>
         waiters p e = insert (waiter_index p) (waiters p (q_list (c_RQ c) ! k)) \<and>
         p_address e = p_address (q_list (c_RQ c) ! k)
     else if q_full (c_RQ c) then r = -2 \<and> q_list q' = q_list (c_RQ c)
     else r = -1 \<and> q_list q' = q_list (c_RQ c) @ [delayed E c p])"
proof -
  let ?q = "c_RQ c"
  note wf = q_ok_wf [OF assms(1)] and wq = check_queue_fresh [OF assms(2,3)]
  consider "\<not> fresh_in ?q p" | "fresh_in ?q p" "q_full ?q" | "fresh_in ?q p" "\<not> q_full ?q" by blast
  then show ?thesis
  proof cases
    case 1
    then obtain k where k: "oldest_match ?q p = Some k" "check_queue ?q p = int (slot ?q k)" "k < length (q_list ?q)"
      using check_queue_stale [OF wf] by blast
    let ?e = "q_list ?q ! k"
    have e: "?e \<in> set (q_list ?q)" using k(3) by (rule nth_mem)
    then obtain e' where e': "rq_merge p ?e = Inr e'" "waiters p e' = insert (waiter_index p) (waiters p ?e)"
      "p_address e' = p_address ?e" using rq_merge_ok [of ?e p] assms(7,8) by blast
    have "p_address e' \<noteq> 0" using e e'(3) assms(1) by (simp add: q_ok_def)
    then show ?thesis
      using 1 k e' wq q_ok_update [OF assms(1) k(3), of e'] q_list_update [OF wf k(3), of e'] q_entry_slot [OF k(3)]
      by (intro exI [of _ "int (slot ?q k)"] exI [of _ "?q\<lparr>q_entry := (q_entry ?q)[slot ?q k := e'],
          q_MERGED := q_MERGED ?q + 1, q_ACCESS := q_ACCESS ?q + 1\<rparr>"]) (auto simp: add_rq_def Let_def)
  next
    case 2
    then show ?thesis using wq check_queue_fresh [OF wf] assms(1,4)
      by (intro exI [of _ "-2"] exI [of _ "?q\<lparr>q_FULL := q_FULL ?q + 1\<rparr>"]) (simp add: add_rq_def Let_def q_full_def)
  next
    case 3
    then obtain q' where q': "queue_insert (now E) c p ?q = Inr q'" "q_ok q'" "q_list q' = q_list ?q @ [delayed E c p]"
      using queue_insert_ok [OF assms(1) _ assms(5,6)] by blast
    then show ?thesis using 3 wq check_queue_fresh [OF wf] assms(4,6)
      by (intro exI [of _ "-1"] exI [of _ "q'\<lparr>q_TO_CACHE := q_TO_CACHE q' + 1, q_ACCESS := q_ACCESS q' + 1\<rparr>"])
        (simp add: add_rq_def Let_def q_full_def)
  qed
qed

theorem add_rq_queues_or_merges_witness:
  "\<exists>r q'. add_rq sample_ports sample_load ((), sample_cache) = Inr (r, sample_load, (), sample_cache\<lparr>c_RQ := q'\<rparr>) \<and>
    r = -1 \<and> q_list q' = [delayed (sample_ports :: unit ports) sample_cache sample_load]"
  using add_rq_queues_or_merges [OF sample_queues(2), of sample_load sample_ports "()"] sample_queues q_ok_wf [OF sample_queues(1)]
  by (simp add: fresh_in_def NUM_CPUS_def waiter_index_def zero_packet_def PACKET_init_def RFO_def) blast

text \<open>A demand that meets a pending writeback of its line.\<close>

lemma forward_from_wq_ok:
  assumes "sint (p_fill_level p) < sint (c_fill_level c)" "p_cpu p < NUM_CPUS" "p_instruction p = 0"
    and "upper_dcache_return_data E (p\<lparr>p_data := p_data (q_entry (c_WQ c) ! i)\<rparr>) w = Inr w'"
  shows "forward_from_wq E i p (w, c) = Inr (p\<lparr>p_data := p_data (q_entry (c_WQ c) ! i)\<rparr>, w', c)"
  using assms by (simp add: forward_from_wq_def upper_return_data_def Let_def not_le)

text \<open>
  A prefetch that meets no pending writeback is merged into the oldest pending prefetch of
  its line, which keeps the smaller of the two fill levels; or refused with -2 when the queue
  is full; or queued last with the latency added.
\<close>

theorem add_pq_queues_or_merges:
  assumes "q_ok (c_PQ c)" "q_wf (c_WQ c)" "fresh_in (c_WQ c) p" "q_SIZE (c_PQ c) = c_PQ_SIZE c"
    and "p_cpu p < NUM_CPUS" "p_address p \<noteq> 0"
  shows "\<exists>r q'. add_pq E p (w, c) = Inr (r, p, w, c\<lparr>c_PQ := q'\<rparr>) \<and> q_ok q' \<and>
    (if \<not> fresh_in (c_PQ c) p then
       \<exists>k. oldest_match (c_PQ c) p = Some k \<and> r = int (slot (c_PQ c) k) \<and>
         q_list q' = (q_list (c_PQ c))[k := min_fill_level p (q_list (c_PQ c) ! k)]
     else if q_full (c_PQ c) then r = -2 \<and> q_list q' = q_list (c_PQ c)
     else r = -1 \<and> q_list q' = q_list (c_PQ c) @ [delayed E c p])"
proof -
  let ?q = "c_PQ c"
  note wf = q_ok_wf [OF assms(1)] and wq = check_queue_fresh [OF assms(2,3)]
  consider "\<not> fresh_in ?q p" | "fresh_in ?q p" "q_full ?q" | "fresh_in ?q p" "\<not> q_full ?q" by blast
  then show ?thesis
  proof cases
    case 1
    then obtain k where k: "oldest_match ?q p = Some k" "check_queue ?q p = int (slot ?q k)" "k < length (q_list ?q)"
      using check_queue_stale [OF wf] by blast
    let ?e = "min_fill_level p (q_list ?q ! k)"
    have "p_address ?e \<noteq> 0" using nth_mem [OF k(3)] assms(1) by (simp add: q_ok_def min_fill_level_def)
    then show ?thesis
      using 1 k wq q_ok_update [OF assms(1) k(3), of ?e] q_list_update [OF wf k(3), of ?e] q_entry_slot [OF k(3)]
      by (intro exI [of _ "int (slot ?q k)"] exI [of _ "?q\<lparr>q_entry := (q_entry ?q)[slot ?q k := ?e],
          q_MERGED := q_MERGED ?q + 1, q_ACCESS := q_ACCESS ?q + 1\<rparr>"])
        (simp add: add_pq_def Let_def min_fill_level_def)
  next
    case 2
    then show ?thesis using wq check_queue_fresh [OF wf] assms(1,4)
      by (intro exI [of _ "-2"] exI [of _ "?q\<lparr>q_FULL := q_FULL ?q + 1\<rparr>"]) (simp add: add_pq_def Let_def q_full_def)
  next
    case 3
    then obtain q' where q': "queue_insert (now E) c p ?q = Inr q'" "q_ok q'" "q_list q' = q_list ?q @ [delayed E c p]"
      using queue_insert_ok [OF assms(1) _ assms(5,6)] by blast
    then show ?thesis using 3 wq check_queue_fresh [OF wf] assms(4,6)
      by (intro exI [of _ "-1"] exI [of _ "q'\<lparr>q_TO_CACHE := q_TO_CACHE q' + 1, q_ACCESS := q_ACCESS q' + 1\<rparr>"])
        (simp add: add_pq_def Let_def q_full_def)
  qed
qed

theorem add_pq_queues_or_merges_witness:
  "\<exists>r q'. add_pq sample_ports sample_load ((), sample_cache) = Inr (r, sample_load, (), sample_cache\<lparr>c_PQ := q'\<rparr>) \<and>
    r = -1 \<and> q_list q' = [delayed (sample_ports :: unit ports) sample_cache sample_load]"
  using add_pq_queues_or_merges [OF sample_queues(3), of sample_load sample_ports "()"] sample_queues q_ok_wf [OF sample_queues(1)]
  by (simp add: fresh_in_def NUM_CPUS_def) blast

lemma count_hit_ok:
  assumes "unat t < length (c_HIT c)" "unat t < length (c_ACCESS c)"
  shows "count_hit t c = Inr (c\<lparr>c_HIT := (c_HIT c)[unat t := c_HIT c ! unat t + 1],
    c_ACCESS := (c_ACCESS c)[unat t := c_ACCESS c ! unat t + 1]\<rparr>)"
  using assms by (simp add: count_hit_def bump_def)

text \<open>
  Read after write: a read of a line that waits in the write queue is answered at once, the
  upper level gets the data of the oldest such writeback, both queues and all blocks stay as
  they are, and the access counts as a hit.
\<close>

theorem add_rq_forwards_writeback:
  assumes "q_wf (c_WQ c)" "oldest_match (c_WQ c) p = Some k" "c_cache_type c \<in> {IS_L2C, IS_LLC}"
    and "sint (p_fill_level p) < sint (c_fill_level c)" "p_cpu p < NUM_CPUS" "p_instruction p = 0"
    and "upper_dcache_return_data E (p\<lparr>p_data := p_data (q_list (c_WQ c) ! k)\<rparr>) w = Inr w'"
    and "unat (p_type p) < length (c_HIT c)" "unat (p_type p) < length (c_ACCESS c)"
  shows "\<exists>c'. add_rq E p (w, c) = Inr (-1, p\<lparr>p_data := p_data (q_list (c_WQ c) ! k)\<rparr>, w', c') \<and>
    q_list (c_WQ c') = q_list (c_WQ c) \<and> q_list (c_RQ c') = q_list (c_RQ c) \<and> c_block c' = c_block c \<and>
    c_HIT c' ! unat (p_type p) = c_HIT c ! unat (p_type p) + 1"
proof -
  have k: "k < length (q_list (c_WQ c))" using assms(2) by (auto simp: oldest_match_def find_upt_Some)
  have idx: "check_queue (c_WQ c) p = int (slot (c_WQ c) k)" using check_queue_spec [OF assms(1), of p] assms(2) by simp
  have "forward_from_wq E (slot (c_WQ c) k) p (w, c) = Inr (p\<lparr>p_data := p_data (q_list (c_WQ c) ! k)\<rparr>, w', c)"
    using forward_from_wq_ok [of p c E "slot (c_WQ c) k" w w'] assms(4-7) q_entry_slot [OF k] by simp
  moreover have "\<not> (c_cache_type c = IS_ITLB \<or> c_cache_type c = IS_DTLB \<or> c_cache_type c = IS_L1I)" "c_cache_type c \<noteq> IS_L1D"
    using assms(3) by (auto simp: cache_types)
  ultimately show ?thesis using idx count_hit_ok [OF assms(8,9)] assms(8) by (simp add: add_rq_def Let_def)
qed

theorem add_rq_forwards_writeback_witness:
  "\<exists>q p c'. add_wqs sample_ports [sample_load\<lparr>p_data := 77\<rparr>] ((), sample_cache) = Inr ((), sample_cache\<lparr>c_WQ := q\<rparr>) \<and>
    add_rq sample_ports sample_load ((), sample_cache\<lparr>c_WQ := q\<rparr>) = Inr (-1, p, (), c') \<and> p_data p = 77"
proof -
  let ?w = "sample_load\<lparr>p_data := 77\<rparr>"
  obtain r q where q: "add_wq sample_ports ?w ((), sample_cache) = Inr (r, ?w, (), sample_cache\<lparr>c_WQ := q\<rparr>)" "q_ok q"
    "q_list q = [delayed (sample_ports :: unit ports) sample_cache ?w]"
    using add_wq_ok [OF sample_queues(1), of ?w sample_ports "()"] sample_queues by (auto simp: fresh_in_def NUM_CPUS_def)
  let ?c = "sample_cache\<lparr>c_WQ := q\<rparr>"
  have "q_NAME q \<noteq> ''L1D_WQ''" using add_wq_frame [OF q(1)] sample_queues(9) by simp
  moreover have occ: "unat (q_occupancy q) = 1" using arg_cong [OF q(3), of length] by simp
  ultimately have m: "oldest_match (c_WQ ?c) sample_load = Some 0"
    using q(3) by (simp add: oldest_match_def queue_match_def)
  have "unat (p_type sample_load) < length (c_HIT ?c)" "unat (p_type sample_load) < length (c_ACCESS ?c)"
    "c_cache_type ?c \<in> {IS_L2C, IS_LLC}" "sint (p_fill_level sample_load) < sint (c_fill_level ?c)"
    "p_cpu sample_load < NUM_CPUS" "p_instruction sample_load = 0"
    by (simp_all add: sample_cache_def Let_def zero_packet_def PACKET_init_def NUM_CPUS_def)
  note hyps = this
  have "\<exists>c'. add_rq sample_ports sample_load ((), ?c) = Inr (-1, sample_load\<lparr>p_data := p_data (q_list (c_WQ ?c) ! 0)\<rparr>, (), c')"
    using add_rq_forwards_writeback [OF _ m hyps(3-6) _ hyps(1,2), of sample_ports "()" "()"] q_ok_wf [OF q(2)]
    by (auto simp: sample_ports_def)
  then show ?thesis using q(1,3) by auto
qed

end
