(* ===== verification/Hierarchy.thy ===== *)
theory Hierarchy
  imports CacheQueues
begin

text \<open>
  The data path of one core put together: the L1 caches, the L2 cache and the last-level cache
  are linked the way \<^verbatim>\<open>src/main.cc\<close> sets \<^verbatim>\<open>upper_level_*\<close> and \<^verbatim>\<open>lower_level\<close>, with the empty
  prefetcher hooks of \<^verbatim>\<open>prefetcher/*_prefetcher.cc\<close>.
\<close>

section \<open>The empty prefetchers\<close>

definition l1d_prefetcher_operate :: "u64 \<Rightarrow> u64 \<Rightarrow> u8 \<Rightarrow> u8 \<Rightarrow> 'w \<times> cache \<Rightarrow> ('w \<times> cache) res" where
  "l1d_prefetcher_operate addr ip cache_hit ty s = Inr s"

definition l1d_prefetcher_cache_fill ::
  "u64 \<Rightarrow> u32 \<Rightarrow> nat \<Rightarrow> u8 \<Rightarrow> u64 \<Rightarrow> u32 \<Rightarrow> 'w \<times> cache \<Rightarrow> ('w \<times> cache) res" where
  "l1d_prefetcher_cache_fill addr st way prefetch evicted_addr metadata_in s = Inr s"

definition l1d_prefetcher_prefetch_hit :: "u64 \<Rightarrow> u64 \<Rightarrow> u32 \<Rightarrow> 'w \<times> cache \<Rightarrow> (u32 \<times> 'w \<times> cache) res" where
  "l1d_prefetcher_prefetch_hit addr ip metadata_in s = Inr (metadata_in, s)"

definition l1d_prefetcher_broadcast_acc :: "u32 \<Rightarrow> 'w \<times> cache \<Rightarrow> ('w \<times> cache) res" where
  "l1d_prefetcher_broadcast_acc acc_level s = Inr s"

definition l2c_prefetcher_operate ::
  "u64 \<Rightarrow> u64 \<Rightarrow> u8 \<Rightarrow> u8 \<Rightarrow> u32 \<Rightarrow> 'w \<times> cache \<Rightarrow> (u32 \<times> 'w \<times> cache) res" where
  "l2c_prefetcher_operate addr ip cache_hit ty metadata_in s = Inr (metadata_in, s)"

definition l2c_prefetcher_cache_fill ::
  "u64 \<Rightarrow> u32 \<Rightarrow> nat \<Rightarrow> u8 \<Rightarrow> u64 \<Rightarrow> u32 \<Rightarrow> 'w \<times> cache \<Rightarrow> (u32 \<times> 'w \<times> cache) res" where
  "l2c_prefetcher_cache_fill addr st way prefetch evicted_addr metadata_in s = Inr (metadata_in, s)"

definition l2c_prefetcher_prefetch_hit :: "u64 \<Rightarrow> u64 \<Rightarrow> u32 \<Rightarrow> 'w \<times> cache \<Rightarrow> (u32 \<times> 'w \<times> cache) res" where
  "l2c_prefetcher_prefetch_hit addr ip metadata_in s = Inr (metadata_in, s)"

definition l2c_prefetcher_broadcast_acc :: "u32 \<Rightarrow> 'w \<times> cache \<Rightarrow> ('w \<times> cache) res" where
  "l2c_prefetcher_broadcast_acc acc_level s = Inr s"

definition llc_prefetcher_operate ::
  "u64 \<Rightarrow> u64 \<Rightarrow> u8 \<Rightarrow> u8 \<Rightarrow> u32 \<Rightarrow> 'w \<times> cache \<Rightarrow> (u32 \<times> 'w \<times> cache) res" where
  "llc_prefetcher_operate addr ip cache_hit ty metadata_in s = Inr (metadata_in, s)"

definition llc_prefetcher_cache_fill ::
  "u64 \<Rightarrow> u32 \<Rightarrow> nat \<Rightarrow> u8 \<Rightarrow> u64 \<Rightarrow> u32 \<Rightarrow> 'w \<times> cache \<Rightarrow> (u32 \<times> 'w \<times> cache) res" where
  "llc_prefetcher_cache_fill addr st way prefetch evicted_addr metadata_in s = Inr (metadata_in, s)"

definition llc_prefetcher_prefetch_hit :: "u64 \<Rightarrow> u64 \<Rightarrow> u32 \<Rightarrow> 'w \<times> cache \<Rightarrow> (u32 \<times> 'w \<times> cache) res" where
  "llc_prefetcher_prefetch_hit addr ip metadata_in s = Inr (metadata_in, s)"

definition llc_prefetcher_broadcast_acc :: "u32 \<Rightarrow> 'w \<times> cache \<Rightarrow> ('w \<times> cache) res" where
  "llc_prefetcher_broadcast_acc acc_level s = Inr s"

definition no_prefetcher :: "'w ports \<Rightarrow> 'w ports" where
  "no_prefetcher E = E\<lparr>
     l1d_operate := l1d_prefetcher_operate, l1d_cache_fill := l1d_prefetcher_cache_fill,
     l1d_prefetch_hit := l1d_prefetcher_prefetch_hit, l1d_broadcast_acc := l1d_prefetcher_broadcast_acc,
     l2c_operate := l2c_prefetcher_operate, l2c_cache_fill := l2c_prefetcher_cache_fill,
     l2c_prefetch_hit := l2c_prefetcher_prefetch_hit, l2c_broadcast_acc := l2c_prefetcher_broadcast_acc,
     llc_operate := llc_prefetcher_operate, llc_cache_fill := llc_prefetcher_cache_fill,
     llc_prefetch_hit := llc_prefetcher_prefetch_hit, llc_broadcast_acc := llc_prefetcher_broadcast_acc\<rparr>"

section \<open>Links\<close>

text \<open>What the L2 cache sees: the two L1 caches above, the LLC below.\<close>

record l2c_world =
  L1I :: cache
  L1D :: cache
  LLC :: cache

text \<open>The LLC calls back into the L2 cache, on both of its upper links.\<close>

definition above_llc :: "cache ports \<Rightarrow> cache ports" where
  "above_llc E = E\<lparr>upper_icache_return_data := return_data (now E), upper_dcache_return_data := return_data (now E)\<rparr>"

definition llc_call ::
  "(packet \<Rightarrow> cache \<times> cache \<Rightarrow> (int \<times> packet \<times> cache \<times> cache) res) \<Rightarrow> packet \<Rightarrow> l2c_world \<times> cache \<Rightarrow>
   (packet \<times> l2c_world \<times> cache) res" where
  "llc_call f p s = bind_res (f p (snd s, LLC (fst s))) (\<lambda>(_, p, l2, llc). Inr (p, (fst s)\<lparr>LLC := llc\<rparr>, l2))"

definition around_l2c :: "cache ports \<Rightarrow> l2c_world ports \<Rightarrow> l2c_world ports" where
  "around_l2c EL E = E\<lparr>
     has_lower := True,
     lower_add_rq := llc_call (add_rq (above_llc EL)),
     lower_add_wq := llc_call (add_wq (above_llc EL)),
     lower_add_pq := llc_call (add_pq (above_llc EL)),
     lower_get_occupancy := \<lambda>t a w. get_occupancy t a (LLC w),
     lower_get_size := \<lambda>t a w. get_size t a (LLC w),
     lower_increment_WQ_FULL := \<lambda>a w. w\<lparr>LLC := increment_WQ_FULL a (LLC w)\<rparr>,
     upper_icache_return_data := \<lambda>p w. bind_res (return_data (now E) p (L1I w)) (\<lambda>c. Inr (w\<lparr>L1I := c\<rparr>)),
     upper_dcache_return_data := \<lambda>p w. bind_res (return_data (now E) p (L1D w)) (\<lambda>c. Inr (w\<lparr>L1D := c\<rparr>))\<rparr>"

definition l2c_ports :: "cache ports \<Rightarrow> l2c_world ports \<Rightarrow> l2c_world ports" where
  "l2c_ports EL E = no_prefetcher (around_l2c EL E)"

lemmas l2c_port_defs = l2c_ports_def no_prefetcher_def around_l2c_def

section \<open>Steps of a fill\<close>

lemma same_contentsD:
  assumes "same_contents bs bs'"
  shows "length bs' = length bs" "k < length bs \<Longrightarrow> (bs' ! k)\<lparr>b_lru := 0\<rparr> = (bs ! k)\<lparr>b_lru := 0\<rparr>"
proof -
  show len: "length bs' = length bs" using arg_cong [OF assms [unfolded same_contents_def], of length] by simp
  show "(bs' ! k)\<lparr>b_lru := 0\<rparr> = (bs ! k)\<lparr>b_lru := 0\<rparr>" if "k < length bs"
    using arg_cong [OF assms [unfolded same_contents_def], of "\<lambda>l. l ! k"] that len by simp
qed

lemma same_contents_fields:
  assumes "same_contents bs bs'" "k < length bs"
  shows "b_valid (bs' ! k) = b_valid (bs ! k)" "b_tag (bs' ! k) = b_tag (bs ! k)" "b_data (bs' ! k) = b_data (bs ! k)"
    "b_dirty (bs' ! k) = b_dirty (bs ! k)"
  using arg_cong [OF same_contentsD(2) [OF assms], of b_valid] arg_cong [OF same_contentsD(2) [OF assms], of b_tag]
    arg_cong [OF same_contentsD(2) [OF assms], of b_data] arg_cong [OF same_contentsD(2) [OF assms], of b_dirty] by simp_all

text \<open>Recording an access only moves recency ranks.\<close>

lemma touch_way_ok:
  assumes "blocks_wf c" "c_cache_type c \<noteq> IS_LLC" "unat st < length (c_block c)" "way < unat (c_NUM_WAY c)"
  shows "\<exists>bss. touch_way st way ip ty hit c = Inr (c\<lparr>c_block := bss\<rparr>) \<and> blocks_wf (c\<lparr>c_block := bss\<rparr>) \<and>
    (\<forall>a. find_way (c\<lparr>c_block := bss\<rparr>) st a = find_way c st a)"
proof -
  let ?bs = "c_block c ! unat st"
  note wf = blocks_wfD(3,4) [OF assms(1,3)]
  obtain bs where bs: "update_replacement_state (c_NUM_WAY c) way (ucast ty) hit ?bs = Inr bs" "lru_wf (c_NUM_WAY c) bs"
    "same_contents ?bs bs"
    using lru.touch_ok [OF wf(1), of way] assms(4) wf(2) by auto
  let ?c = "c\<lparr>c_block := (c_block c)[unat st := bs]\<rparr>"
  have touch: "touch_way st way ip ty hit c = Inr ?c" using assms(2,3) bs(1) by (simp add: touch_way_def)
  have g: "get_set ?c a = get_set c a" for a by (rule get_set_cong) simp
  have old: "\<exists>b'\<in>set ?bs. b_valid b' = b_valid b \<and> b_tag b' = b_tag b" if "b \<in> set bs" for b
  proof -
    obtain k where k: "k < length bs" "b = bs ! k" using \<open>b \<in> set bs\<close> by (metis in_set_conv_nth)
    then have "k < length ?bs" using same_contentsD(1) [OF bs(3)] by simp
    then show ?thesis using same_contents_fields [OF bs(3)] k(2) nth_mem by metis
  qed
  have "homed ?c"
    unfolding homed_def g
  proof (intro allI impI ballI)
    fix i b assume i: "i < length (c_block ?c)" and b: "b \<in> set (c_block ?c ! i)" and v: "b_valid b \<noteq> 0"
    have "\<exists>b'\<in>set (c_block c ! i). b_valid b' = b_valid b \<and> b_tag b' = b_tag b"
      using b i old [of b] by (cases "i = unat st") auto
    then show "unat (get_set c (b_tag b)) = i" using assms(1) i v by (auto simp: blocks_wf_def homed_def) metis
  qed
  moreover have "list_all (lru_wf (c_NUM_WAY c)) ((c_block c)[unat st := bs])"
    using assms(1) bs(2) by (auto simp: blocks_wf_def list_all_iff dest!: set_update_subset_insert [THEN subsetD])
  ultimately have "blocks_wf ?c" using assms(1) by (simp add: blocks_wf_def)
  moreover have "find_way ?c st a = find_way c st a" for a
    using same_contents_fields [OF bs(3)] wf(2) assms(3) by (intro find_way_transfer) (simp_all add: tag_match_def)
  ultimately show ?thesis using touch by blast
qed


lemma count_sim_miss_ok:
  assumes "unat t < length (c_sim_miss c)" "unat t < length (c_sim_access c)"
  shows "\<exists>m a. count_sim_miss t c = Inr (c\<lparr>c_sim_miss := m, c_sim_access := a\<rparr>)"
  using assms by (auto simp: count_sim_miss_def bump_def)

lemma return_up_frame:
  assumes "return_up E e (w, c) = Inr (w', c)" "c_fill_level c' = c_fill_level c"
  shows "return_up E e (w, c') = Inr (w', c')"
  using assms by (cases "upper_return_data E e w") (auto simp: return_up_def split: if_splits)

lemma mshr_wf_cong: "c_MSHR c' = c_MSHR c \<Longrightarrow> c_MSHR_SIZE c' = c_MSHR_SIZE c \<Longrightarrow> mshr_wf c' = mshr_wf c"
  by (simp add: mshr_wf_def)

text \<open>Releasing the register at the end of a fill.\<close>

lemma fill_done_ok:
  assumes "mshr_wf c" "i < unat (c_MSHR_SIZE c)" "p_address (mshr_at c i) \<noteq> 0"
  shows "\<exists>l q. fill_done E i (w, c) = Inr (w, c\<lparr>c_total_miss_latency := l, c_MSHR := q\<rparr>) \<and>
    mshr_wf (c\<lparr>c_total_miss_latency := l, c_MSHR := q\<rparr>) \<and> q_occupancy q = q_occupancy (c_MSHR c) - 1 \<and>
    q_entry q = (q_entry (c_MSHR c))[i := PACKET_init (blank E)]"
proof -
  define l where "l = (if warmup_complete E then c_total_miss_latency c + (now E - p_cycle_enqueued (mshr_at c i))
    else c_total_miss_latency c)"
  let ?c = "c\<lparr>c_total_miss_latency := l\<rparr>"
  have wf: "mshr_wf ?c" using assms(1) mshr_wf_cong [of ?c c] by simp
  have used: "i < unat (c_MSHR_SIZE ?c)" "p_address (q_entry (c_MSHR ?c) ! i) \<noteq> 0"
    using assms(2,3) by (simp_all add: mshr_at_def)
  obtain q' where r: "remove_queue (blank E) i (c_MSHR c) = Inr q'"
    using mshr_release_ok [OF wf used, of "blank E"] by auto
  then have q': "q_entry q' = (q_entry (c_MSHR c))[i := PACKET_init (blank E)]" "q_occupancy q' = q_occupancy (c_MSHR c) - 1"
    "mshr_wf (update_fill_cycle (?c\<lparr>c_MSHR := q'\<lparr>q_num_returned := q_num_returned q' - 1\<rparr>\<rparr>))"
    using mshr_release_ok [OF wf used, of "blank E" "q_num_returned q' - 1"] by simp_all
  let ?d = "?c\<lparr>c_MSHR := q'\<lparr>q_num_returned := q_num_returned q' - 1\<rparr>\<rparr>"
  obtain q where q: "update_fill_cycle ?d = ?d\<lparr>c_MSHR := q\<rparr>" using update_fill_cycle_frame(5) by blast
  have "(if warmup_complete E
      then c\<lparr>c_total_miss_latency := c_total_miss_latency c + (now E - p_cycle_enqueued (mshr_at c i))\<rparr> else c) = ?c"
    by (simp add: l_def)
  then have "fill_done E i (w, c) = Inr (w, update_fill_cycle ?d)" using r by (simp add: fill_done_def Let_def)
  moreover have "q_entry q = q_entry q'" "q_occupancy q = q_occupancy q'"
    using update_fill_cycle_frame(1,2) [of ?d] unfolding q by simp_all
  ultimately show ?thesis using q' unfolding q by (intro exI [of _ l] exI [of _ q]) simp
qed

text \<open>The fill of an L2 cache without a prefetcher.\<close>

lemma upd_mshr_id: "upd_mshr i (\<lambda>e. e\<lparr>p_pf_metadata := p_pf_metadata (mshr_at c i)\<rparr>) c = c"
  by (simp add: upd_mshr_def mshr_at_def)

lemma upd_mshr_same: "upd_mshr i (translate_packet IS_L2C d) c = c"
  by (simp add: upd_mshr_def translate_packet_def cache_types)

lemma l2c_not_l1d: "IS_L2C \<noteq> IS_L1D" "IS_L2C \<noteq> IS_LLC"
  by (simp_all add: cache_types)

lemma deliver_l2c: "c_cache_type c = IS_L2C \<Longrightarrow> deliver p c = Inr c"
  by (simp add: deliver_def cache_types)

lemma fill_cache_line:
  assumes "blocks_wf c" "st = get_set c (p_address p)" "w < unat (c_NUM_WAY c)" "find_way c st (p_address p) = None"
    and "c_cache_type c \<notin> {IS_ITLB, IS_DTLB, IS_STLB}"
  shows "\<exists>c'. fill_cache st w p c = Inr c' \<and> blocks_wf c' \<and> line_data c' (p_address p) = Some (p_data p) \<and>
    c' = put_block st w (filled_block p (c_block c ! unat st ! w)) (fill_stats p (c_block c ! unat st ! w) c)"
proof -
  have tlb: "c_cache_type c \<in> {IS_ITLB, IS_DTLB, IS_STLB} \<longrightarrow> p_data p \<noteq> 0" using assms(5) by simp
  obtain c' where c': "fill_cache st w p c = Inr c'" "blocks_wf c'" "get_set c' = get_set c" "c_NUM_WAY c' = c_NUM_WAY c"
    "c_block c' ! unat st ! w = filled_block p (c_block c ! unat st ! w)"
    and tm: "\<And>st' a v. tag_match c' st' a v \<longleftrightarrow> (if st' = st \<and> v = w then a = p_address p else tag_match c st' a v)"
    using fill_cache_ok [OF assms(1,2,3) tlb] by blast
  have "find_way c' st (p_address p) = Some w" using assms(3,4) c'(4) tm by (simp add: find_way_Some find_way_None)
  then have "line_data c' (p_address p) = Some (p_data p)" using c'(3,5) assms(2) by (simp add: line_data_def filled_block_fields)
  then show ?thesis using c'(1,2) fill_cache_put [OF assms(1) _ assms(3) tlb, of st] blocks_wfD(1) [OF assms(1)] assms(2) by auto
qed

lemma fill_install_ok:
  assumes "blocks_wf c" "mshr_wf c" "c_cache_type c = IS_L2C" "l2c_cache_fill E = l2c_prefetcher_cache_fill"
    and "i < unat (c_MSHR_SIZE c)" "e = mshr_at c i" "p_address e \<noteq> 0" "st = get_set c (p_address e)"
    and "way < unat (c_NUM_WAY c)" "find_way c st (p_address e) = None"
    and "unat (p_type e) < length (c_sim_miss c)" "unat (p_type e) < length (c_sim_access c)"
    and "return_up E e (w, c) = Inr (w', c)"
  shows "\<exists>c'. fill_install E i st way cpu (w, c) = Inr (w', c') \<and> blocks_wf c' \<and> mshr_wf c' \<and>
    line_data c' (p_address e) = Some (p_data e) \<and> q_occupancy (c_MSHR c') = q_occupancy (c_MSHR c) - 1 \<and>
    q_entry (c_MSHR c') = (q_entry (c_MSHR c))[i := PACKET_init (blank E)] \<and> c_MSHR_SIZE c' = c_MSHR_SIZE c"
proof -
  have st: "unat st < length (c_block c)" using blocks_wfD(1) [OF assms(1)] assms(8) by simp
  have blk: "block_at c st way = Inr (c_block c ! unat st ! way)"
    using st assms(9) blocks_wfD(4) [OF assms(1) st] by (simp add: block_at_def)
  obtain bss where touch: "touch_way st way (p_ip e) (p_type e) False c = Inr (c\<lparr>c_block := bss\<rparr>)"
    "blocks_wf (c\<lparr>c_block := bss\<rparr>)" "find_way (c\<lparr>c_block := bss\<rparr>) st (p_address e) = None"
    using touch_way_ok [OF assms(1) _ st assms(9)] assms(3,10) by (fastforce simp: cache_types)
  obtain m a where cnt: "count_sim_miss (p_type e) (c\<lparr>c_block := bss\<rparr>) = Inr (c\<lparr>c_block := bss, c_sim_miss := m, c_sim_access := a\<rparr>)"
    using count_sim_miss_ok [of "p_type e" "c\<lparr>c_block := bss\<rparr>"] assms(11,12) by auto
  let ?c = "c\<lparr>c_block := bss, c_sim_miss := m, c_sim_access := a\<rparr>"
  have wf: "blocks_wf ?c" "find_way ?c = find_way (c\<lparr>c_block := bss\<rparr>)"
    using blocks_wf_cong [of ?c "c\<lparr>c_block := bss\<rparr>"] touch(2) by simp_all
  have g: "get_set ?c = get_set c" by (rule ext) (rule get_set_cong, simp)
  obtain c2 where c2: "fill_cache st way e ?c = Inr c2" "blocks_wf c2" "line_data c2 (p_address e) = Some (p_data e)"
    "c2 = put_block st way (filled_block e (bss ! unat st ! way)) (fill_stats e (bss ! unat st ! way) ?c)"
    using fill_cache_line [OF wf(1), of st e way] wf(2) touch(3) assms(3,8,9) g by (auto simp: cache_types)
  have fr: "c_MSHR c2 = c_MSHR c" "c_MSHR_SIZE c2 = c_MSHR_SIZE c" "c_cache_type c2 = IS_L2C" "c_fill_level c2 = c_fill_level c"
    using assms(3) by (simp_all add: c2(4)) (simp add: put_block_def fill_stats_def Let_def)
  have "mshr_wf c2" using assms(2) mshr_wf_cong [OF fr(1,2)] by simp
  moreover have at: "mshr_at c2 i = e" using fr(1) assms(6) by (simp add: mshr_at_def)
  ultimately obtain l q where fin: "fill_done E i (w', c2) = Inr (w', c2\<lparr>c_total_miss_latency := l, c_MSHR := q\<rparr>)"
    "mshr_wf (c2\<lparr>c_total_miss_latency := l, c_MSHR := q\<rparr>)" "q_occupancy q = q_occupancy (c_MSHR c) - 1"
    "q_entry q = (q_entry (c_MSHR c))[i := PACKET_init (blank E)]"
    using fill_done_ok [of c2 i E w'] assms(5,7) fr(1,2) by auto
  let ?c' = "c2\<lparr>c_total_miss_latency := l, c_MSHR := q\<rparr>"
  have "fill_install E i st way cpu (w, c) = Inr (w', ?c')"
    using blk touch(1) cnt c2(1) fin(1) at fr(3) return_up_frame [OF assms(13) fr(4)] assms(3,4,6) l2c_not_l1d
    by (simp add: fill_install_def hook_cache_fill_def l2c_prefetcher_cache_fill_def Let_def upd_mshr_id upd_mshr_same
      deliver_l2c)
  moreover have "blocks_wf ?c'" "find_way ?c' = find_way c2" using blocks_wf_cong [of ?c' c2] c2(2) by simp_all
  moreover have "get_set ?c' = get_set c2" by (rule ext) (rule get_set_cong, simp)
  ultimately show ?thesis using fin(2-4) c2(3) fr(2) by (intro exI [of _ ?c']) (simp add: line_data_def)
qed

section \<open>The port below\<close>

text \<open>
  What the eviction of a dirty line relies on: a level below whose write queue is not full
  takes the line and keeps it pending, and counting a full queue disturbs nothing.
\<close>

locale write_port =
  fixes E :: "'w ports" and ok :: "'w \<Rightarrow> bool" and pending :: "'w \<Rightarrow> u64 set"
  assumes below: "has_lower E"
    and accepts: "ok w \<Longrightarrow> lower_get_occupancy E 2 a w \<noteq> lower_get_size E 2 a w \<Longrightarrow> p_cpu p < NUM_CPUS \<Longrightarrow>
      p_address p \<noteq> 0 \<Longrightarrow> \<exists>p' w'. lower_add_wq E p (w, c) = Inr (p', w', c) \<and> ok w' \<and>
        pending w' = insert (p_address p) (pending w)"
    and counts: "ok w \<Longrightarrow> ok (lower_increment_WQ_FULL E a w) \<and> pending (lower_increment_WQ_FULL E a w) = pending w"
begin

lemma evict_clean_or_room:
  assumes "ok w" "block_at c st way = Inr b" "cpu < NUM_CPUS"
    and "b_dirty b \<noteq> 0 \<longrightarrow> b_address b \<noteq> 0 \<and> lower_get_occupancy E 2 (b_address b) w \<noteq> lower_get_size E 2 (b_address b) w"
  shows "\<exists>w'. evict_victim E st way cpu n ty (w, c) = Inr (True, w', c) \<and> ok w' \<and>
    pending w' = (if b_dirty b \<noteq> 0 then insert (b_address b) (pending w) else pending w)"
proof (cases "b_dirty b = 0")
  case True
  then show ?thesis using assms(1,2) by (simp add: evict_victim_def)
next
  case False
  let ?p = "(PACKET_init (blank E))\<lparr>p_fill_level := push_bit 1 (c_fill_level c), p_cpu := cpu, p_address := b_address b,
    p_full_addr := b_full_addr b, p_data := b_data b, p_instr_id := n, p_ip := 0, p_type := ucast WRITEBACK, p_event_cycle := now E\<rparr>"
  obtain p' w' where "lower_add_wq E ?p (w, c) = Inr (p', w', c)" "ok w'" "pending w' = insert (b_address b) (pending w)"
    using accepts [OF assms(1), of "b_address b" ?p c] False assms(3,4) by auto
  then show ?thesis using False assms(2,4) below by (simp add: evict_victim_def)
qed

lemma evict_without_room:
  assumes "ok w" "block_at c st way = Inr b" "b_dirty b \<noteq> 0" "unat ty < length (c_STALL c)"
    and "lower_get_occupancy E 2 (b_address b) w = lower_get_size E 2 (b_address b) w"
  shows "evict_victim E st way cpu m ty (w, c) =
      Inr (False, lower_increment_WQ_FULL E (b_address b) w, c\<lparr>c_STALL := (c_STALL c)[unat ty := c_STALL c ! unat ty + 1]\<rparr>) \<and>
    ok (lower_increment_WQ_FULL E (b_address b) w) \<and> pending (lower_increment_WQ_FULL E (b_address b) w) = pending w"
  using assms counts [OF assms(1), of "b_address b"] below by (auto simp: evict_victim_def count_stall_def bump_def)

end

text \<open>The LLC below the L2 cache provides it.\<close>

definition llc_pending :: "l2c_world \<Rightarrow> u64 set" where
  "llc_pending w = pending_lines (c_WQ (LLC w))"

definition llc_ok :: "l2c_world \<Rightarrow> bool" where
  "llc_ok w \<longleftrightarrow> q_ok (c_WQ (LLC w)) \<and> q_NAME (c_WQ (LLC w)) \<noteq> ''L1D_WQ''"

lemma llc_accepts:
  assumes "llc_ok w" "\<not> q_full (c_WQ (LLC w))" "p_cpu p < NUM_CPUS" "p_address p \<noteq> 0"
  shows "\<exists>p' w'. llc_call (add_wq E) p (w, c) = Inr (p', w', c) \<and> llc_ok w' \<and>
    llc_pending w' = insert (p_address p) (llc_pending w) \<and> L1D w' = L1D w \<and> L1I w' = L1I w"
proof -
  let ?d = "LLC w" and ?q = "c_WQ (LLC w)"
  have q: "q_ok ?q" "q_NAME ?q \<noteq> ''L1D_WQ''" using assms(1) by (simp_all add: llc_ok_def)
  obtain r q' where q': "add_wq E p (c, ?d) = Inr (r, p, c, ?d\<lparr>c_WQ := q'\<rparr>)" "q_ok q'"
    "q_list q' = (if fresh_in ?q p then q_list ?q @ [delayed E ?d p] else q_list ?q)"
    using add_wq_ok [OF q(1) _ assms(3,4), of E c] assms(2) by blast
  have "pending_lines q' = insert (p_address p) (pending_lines ?q)"
    using q'(3) fresh_in_lines [OF q(2), of p] by (auto simp: pending_lines_def)
  then show ?thesis using q'(1,2) q(2) add_wq_frame [OF q'(1)]
    by (intro exI [of _ p] exI [of _ "w\<lparr>LLC := ?d\<lparr>c_WQ := q'\<rparr>\<rparr>"]) (simp add: llc_call_def llc_ok_def llc_pending_def)
qed

lemma get_WQ: "get_occupancy 2 a c = q_occupancy (c_WQ c)" "get_size 2 a c = q_SIZE (c_WQ c)"
  by (simp_all add: get_occupancy_def get_size_def)

text \<open>Neither a writeback nor a stall touches the L1 caches.\<close>

definition l2c_below :: "cache \<Rightarrow> cache \<Rightarrow> l2c_world \<Rightarrow> bool" where
  "l2c_below i d w \<longleftrightarrow> llc_ok w \<and> L1I w = i \<and> L1D w = d"

interpretation l2: write_port "l2c_ports EL E" "l2c_below i d" llc_pending for EL E i d
proof
  show "has_lower (l2c_ports EL E)" by (simp add: l2c_port_defs)
next
  fix w a and p :: packet and c
  assume "l2c_below i d w" "lower_get_occupancy (l2c_ports EL E) 2 a w \<noteq> lower_get_size (l2c_ports EL E) 2 a w"
    "p_cpu p < NUM_CPUS" "p_address p \<noteq> 0"
  then show "\<exists>p' w'. lower_add_wq (l2c_ports EL E) p (w, c) = Inr (p', w', c) \<and> l2c_below i d w' \<and>
      llc_pending w' = insert (p_address p) (llc_pending w)"
    using llc_accepts [of w p "above_llc EL" c] by (simp add: l2c_below_def l2c_port_defs get_WQ q_full_def) blast
next
  fix w a assume "l2c_below i d w"
  then show "l2c_below i d (lower_increment_WQ_FULL (l2c_ports EL E) a w) \<and>
      llc_pending (lower_increment_WQ_FULL (l2c_ports EL E) a w) = llc_pending w"
    by (simp add: l2c_below_def l2c_port_defs increment_WQ_FULL_def llc_ok_def llc_pending_def pending_lines_def)
qed

section \<open>Fills of the L2 cache\<close>

lemma distinct_filter_index:
  assumes "distinct (map f (filter P xs))" "i < length xs" "k < length xs" "P (xs ! i)" "P (xs ! k)" "f (xs ! i) = f (xs ! k)"
  shows "i = k"
  using assms
proof (induction xs arbitrary: i k)
  case (Cons x xs)
  have hd: "f x \<noteq> f y" if "P x" "y \<in> set xs" "P y" for y
    using Cons.prems(1) that by (auto simp: image_iff)
  have hd': "f y \<noteq> f x" if "P x" "y \<in> set xs" "P y" for y using hd [OF that] by simp
  show ?case
  proof (cases i; cases k)
    fix a b assume "i = Suc a" "k = Suc b"
    then show ?thesis using Cons.IH [of a b] Cons.prems by (auto split: if_splits)
  next
    fix a assume "i = Suc a" "k = 0"
    then show ?thesis using Cons.prems hd' [of "xs ! a"] by simp
  next
    fix b assume "i = 0" "k = Suc b"
    then show ?thesis using Cons.prems hd [of "xs ! b"] by simp
  qed simp
qed simp

lemma blank_address: "p_address (PACKET_init raw) = 0"
  by (simp add: PACKET_init_def)

lemma released_not_found:
  assumes "mshr_wf c" "i < unat (c_MSHR_SIZE c)" "e = mshr_at c i" "p_address e \<noteq> 0"
    and "q_entry (c_MSHR c') = (q_entry (c_MSHR c))[i := PACKET_init raw]" "c_MSHR_SIZE c' = c_MSHR_SIZE c"
  shows "check_mshr c' e = -1"
proof -
  note wf = mshr_wfD [OF assms(1)]
  have len: "length (q_entry (c_MSHR c)) = unat (c_MSHR_SIZE c)" by (rule wf(3))
  have e: "q_entry (c_MSHR c) ! i = e" using assms(3) by (simp add: mshr_at_def)
  have "p_address ((q_entry (c_MSHR c))[i := PACKET_init raw] ! k) \<noteq> p_address e" if k: "k < unat (c_MSHR_SIZE c)" for k
  proof (cases "k = i")
    case True
    then show ?thesis using k len assms(4) blank_address [of raw] by simp
  next
    case False
    have "p_address (q_entry (c_MSHR c) ! k) \<noteq> p_address e"
    proof
      assume eq: "p_address (q_entry (c_MSHR c) ! k) = p_address e"
      have "i = k"
        by (rule distinct_filter_index [OF wf(5) [unfolded used_entries_def]]) (simp_all add: len k assms(2,4) e eq)
      then show False using False by simp
    qed
    then show ?thesis using False by simp
  qed
  then have "find (\<lambda>k. p_address (q_entry (c_MSHR c') ! k) = p_address e) [0..<unat (c_MSHR_SIZE c')] = None"
    unfolding find_None_iff assms(5,6) by simp
  then show ?thesis by (simp add: check_mshr_def)
qed

lemma check_mshr_bound: "check_mshr c e = int j \<Longrightarrow> j < unat (c_MSHR_SIZE c)"
  by (auto simp: check_mshr_def find_upt_Some split: option.splits)

lemma choose_victim_ok:
  assumes "blocks_wf c" "c_cache_type c \<noteq> IS_LLC" "unat st < length (c_block c)"
  shows "\<exists>way<unat (c_NUM_WAY c). choose_victim c st = Inr way"
  using lru.victim_ok [OF blocks_wfD(3) [OF assms(1,3)]] blocks_wfD(4) [OF assms(1,3)] assms(2,3)
  by (auto simp: choose_victim_def)

text \<open>What the hooks and the L1 caches do to a fill of the L2 cache.\<close>

lemma return_up_l1d:
  assumes "p_cpu e < NUM_CPUS" "p_instruction e = 0" "sint (p_fill_level e) < sint (c_fill_level c)"
    and "mshr_wf (L1D w)" "p_address e \<noteq> 0" "check_mshr (L1D w) e = int j"
  shows "\<exists>d. return_up (l2c_ports EL E) e (w, c) = Inr (w\<lparr>L1D := d\<rparr>, c) \<and> mshr_wf d \<and>
    q_entry (c_MSHR d) = (q_entry (c_MSHR (L1D w)))[j := completed_entry (now E) (L1D w) e (q_entry (c_MSHR (L1D w)) ! j)]"
proof -
  obtain d where d: "return_data (now E) e (L1D w) = Inr d" "mshr_wf d"
    "q_entry (c_MSHR d) = (q_entry (c_MSHR (L1D w)))[j := completed_entry (now E) (L1D w) e (q_entry (c_MSHR (L1D w)) ! j)]"
    using return_data_ok [OF assms(4,5,6,1), of "now E"] by auto
  then show ?thesis using assms(1-3)
    by (intro exI [of _ d]) (simp add: return_up_def upper_return_data_def l2c_port_defs not_le)
qed

definition fill_due :: "u64 \<Rightarrow> cache \<Rightarrow> packet \<Rightarrow> bool" where
  "fill_due t c e \<longleftrightarrow> q_next_fill_index (c_MSHR c) < c_MSHR_SIZE c \<and> q_next_fill_cycle (c_MSHR c) \<le> t \<and>
     e = mshr_at c (unat (q_next_fill_index (c_MSHR c))) \<and> p_address e \<noteq> 0 \<and> p_cpu e < NUM_CPUS"

lemma handle_fill_due:
  assumes "fill_due (now E) c e" "mshr_wf c" "c_cache_type c \<noteq> IS_LLC"
    and "choose_victim c (get_set c (p_address e)) = Inr way"
  shows "handle_fill E (w, c) =
    bind_res (evict_victim E (get_set c (p_address e)) way (p_cpu e) (p_instr_id e) (p_type e) (w, c))
      (\<lambda>(do_fill, s). if do_fill
         then fill_install E (unat (q_next_fill_index (c_MSHR c))) (get_set c (p_address e)) way (p_cpu e) s else Inr s)"
proof -
  let ?i = "q_next_fill_index (c_MSHR c)"
  have "?i \<noteq> c_MSHR_SIZE c" "unat ?i < length (q_entry (c_MSHR c))" "\<not> ?i \<ge> q_SIZE (c_MSHR c)"
    using assms(1) mshr_wfD(1,3) [OF assms(2)] by (auto simp: fill_due_def word_less_nat_alt word_le_nat_alt)
  moreover have "p_cpu e \<noteq> NUM_CPUS" "\<not> p_cpu e > NUM_CPUS" using assms(1) by (auto simp: fill_due_def)
  moreover have e: "e = mshr_at c (unat ?i)" and "q_next_fill_cycle (c_MSHR c) \<le> now E"
    using assms(1) by (simp_all add: fill_due_def)
  ultimately show ?thesis using assms(3,4) unfolding e by (simp add: handle_fill_def Let_def)
qed

section \<open>An example\<close>

text \<open>A line that arrived for the L2 cache and for the L1D above it.\<close>

definition arrived :: packet where
  "arrived = sample_load\<lparr>p_returned := COMPLETED, p_event_cycle := 3, p_data := 77\<rparr>"

definition sample_l2c :: "u8 \<Rightarrow> cache" where
  "sample_l2c d = sample_cache\<lparr>c_MSHR := (c_MSHR sample_cache)\<lparr>q_entry := [arrived, zero_packet], q_occupancy := 1,
     q_next_fill_index := 0, q_next_fill_cycle := 3\<rparr>,
     c_block := replicate 2 [BLOCK_init\<lparr>b_dirty := d, b_address := 64\<rparr>, BLOCK_init\<lparr>b_lru := 1\<rparr>]\<rparr>"

definition sample_l1d :: cache where
  "sample_l1d = sample_cache\<lparr>c_cache_type := IS_L1D, c_fill_level := 1,
     c_MSHR := (c_MSHR sample_cache)\<lparr>q_entry := [sample_load\<lparr>p_returned := INFLIGHT\<rparr>, zero_packet], q_occupancy := 1\<rparr>\<rparr>"

definition sample_world :: l2c_world where
  "sample_world = \<lparr>L1I = sample_cache, L1D = sample_l1d, LLC = sample_cache\<rparr>"

definition full_world :: l2c_world where
  "full_world = sample_world\<lparr>LLC := sample_cache\<lparr>c_WQ := (c_WQ sample_cache)\<lparr>q_occupancy := 2,
     q_entry := [sample_load, sample_load\<lparr>p_address := 9\<rparr>]\<rparr>\<rparr>\<rparr>"

lemma zero_packet_fields [simp]:
  "p_address zero_packet = 0" "p_returned zero_packet = 0" "p_type zero_packet = 0" "p_instruction zero_packet = 0"
  by (simp_all add: zero_packet_def PACKET_init_def)

lemma sample_l2c_wf: "blocks_wf (sample_l2c d)" "mshr_wf (sample_l2c d)" "fill_due 20 (sample_l2c d) arrived"
proof -
  have "lru_wf 2 [BLOCK_init\<lparr>b_dirty := d, b_address := 64\<rparr>, BLOCK_init\<lparr>b_lru := 1\<rparr>]"
    by (auto simp: lru_wf_def ranks_def BLOCK_init_def)
  then show "blocks_wf (sample_l2c d)"
    by (auto simp: blocks_wf_def homed_def sample_l2c_def sample_cache_def Let_def list_all_iff BLOCK_init_def)
  show "mshr_wf (sample_l2c d)"
    by (simp add: mshr_wf_def sample_l2c_def sample_cache_def Let_def PACKET_QUEUE_init_def used_entries_def
      next_fill_ok_def entry_done_def COMPLETED_def arrived_def)
  show "fill_due 20 (sample_l2c d) arrived"
    by (simp add: fill_due_def sample_l2c_def sample_cache_def Let_def PACKET_QUEUE_init_def arrived_def mshr_at_def NUM_CPUS_def)
qed

lemma sample_l1d_wf: "mshr_wf (L1D sample_world)" "check_mshr (L1D sample_world) arrived = int 0"
  by (simp_all add: sample_world_def sample_l1d_def mshr_wf_def sample_cache_def Let_def PACKET_QUEUE_init_def used_entries_def
      next_fill_ok_def entry_done_def COMPLETED_def INFLIGHT_def arrived_def check_mshr_def upt_rec)

lemma sample_set: "c_block (sample_l2c d) ! unat (get_set (sample_l2c d) a) =
    [BLOCK_init\<lparr>b_dirty := d, b_address := 64\<rparr>, BLOCK_init\<lparr>b_lru := 1\<rparr>]"
  using blocks_wfD(1) [OF sample_l2c_wf(1), of d a] by (auto simp: sample_l2c_def less_2_cases_iff)

lemma sample_victim: "choose_victim (sample_l2c d) (get_set (sample_l2c d) a) = Inr 0"
  using blocks_wfD(1) [OF sample_l2c_wf(1), of d a] sample_set [of d a]
  by (simp add: choose_victim_def find_victim_def lru_victim_def sample_l2c_def sample_cache_def Let_def cache_types
      upt_rec BLOCK_init_def)

lemma sample_uncached: "\<not> cached (sample_l2c d) a"
  using sample_set [of d a]
  by (auto simp: cached_def find_way_None tag_match_def BLOCK_init_def sample_l2c_def sample_cache_def Let_def less_2_cases_iff)

lemma sample_llc: "llc_ok sample_world" "llc_ok full_world" "q_full (c_WQ (LLC full_world))" "\<not> q_full (c_WQ (LLC sample_world))"
proof -
  show "llc_ok sample_world" "\<not> q_full (c_WQ (LLC sample_world))"
    using sample_queues by (simp_all add: llc_ok_def sample_world_def)
  show "llc_ok full_world" "q_full (c_WQ (LLC full_world))"
    by (auto simp: llc_ok_def full_world_def sample_world_def q_ok_def q_wf_def q_list_def slot_def sample_cache_def Let_def
      PACKET_QUEUE_init_def q_full_def upt_rec less_Suc_eq)
qed

lemma sample_l2c_stats: "c_cache_type (sample_l2c d) = IS_L2C" "unat (p_type arrived) < length (c_sim_miss (sample_l2c d))"
  "unat (p_type arrived) < length (c_sim_access (sample_l2c d))" "unat (p_type arrived) < length (c_STALL (sample_l2c d))"
  "p_instruction arrived = 0" "sint (p_fill_level arrived) < sint (c_fill_level (sample_l2c d))" "p_address arrived = 5"
  "p_data arrived = 77"
  by (simp_all add: sample_l2c_def sample_cache_def Let_def arrived_def)

section \<open>Properties\<close>

text \<open>
  C9: A due fill of the L2 cache, linked to the L1D above and the LLC below as in \<^verbatim>\<open>main.cc\<close>,
  completes in one step when the victim is clean or the write queue of the LLC has room: the
  line is cached with its data, its register is free and no longer found, the LRU and register
  invariants hold again, a dirty victim is pending in the LLC, and the waiting register of the
  L1D is completed with the data. No assertion fires in any of the three caches.
\<close>

theorem l2c_fill_completes:
  assumes "blocks_wf c" "mshr_wf c" "c_cache_type c = IS_L2C" "llc_ok w" "fill_due (now E) c e"
    and "\<not> cached c (p_address e)" "unat (p_type e) < length (c_sim_miss c)" "unat (p_type e) < length (c_sim_access c)"
    and "choose_victim c (get_set c (p_address e)) = Inr way"
    and "b = c_block c ! unat (get_set c (p_address e)) ! way"
    and "b_dirty b \<noteq> 0 \<longrightarrow> b_address b \<noteq> 0 \<and> \<not> q_full (c_WQ (LLC w))"
    and "p_instruction e = 0" "sint (p_fill_level e) < sint (c_fill_level c)"
    and "mshr_wf (L1D w)" "check_mshr (L1D w) e = int j"
  shows "\<exists>w' c'. handle_fill (l2c_ports EL E) (w, c) = Inr (w', c') \<and> blocks_wf c' \<and> mshr_wf c' \<and>
    line_data c' (p_address e) = Some (p_data e) \<and> check_mshr c' e = -1 \<and>
    q_occupancy (c_MSHR c') = q_occupancy (c_MSHR c) - 1 \<and>
    llc_pending w' = (if b_dirty b \<noteq> 0 then insert (b_address b) (llc_pending w) else llc_pending w) \<and>
    mshr_wf (L1D w') \<and> mshr_at (L1D w') j = completed_entry (now E) (L1D w) e (mshr_at (L1D w) j)"
proof -
  let ?E = "l2c_ports EL E" and ?st = "get_set c (p_address e)" and ?i = "unat (q_next_fill_index (c_MSHR c))"
  have nowE: "now ?E = now E" by (simp add: l2c_port_defs)
  have i: "?i < unat (c_MSHR_SIZE c)" "e = mshr_at c ?i" "p_address e \<noteq> 0" "p_cpu e < NUM_CPUS"
    using assms(5) by (auto simp: fill_due_def word_less_nat_alt)
  have st: "unat ?st < length (c_block c)" by (rule blocks_wfD(1) [OF assms(1)])
  obtain v where "v < unat (c_NUM_WAY c)" "choose_victim c ?st = Inr v"
    using choose_victim_ok [OF assms(1) _ st] assms(3) l2c_not_l1d(2) by auto
  then have way: "way < unat (c_NUM_WAY c)" using assms(9) by simp
  have blk: "block_at c ?st way = Inr b"
    using st way blocks_wfD(4) [OF assms(1) st] assms(10) by (simp add: block_at_def)
  have below: "l2c_below (L1I w) (L1D w) w" using assms(4) by (simp add: l2c_below_def)
  have room: "b_dirty b \<noteq> 0 \<longrightarrow> b_address b \<noteq> 0 \<and>
      lower_get_occupancy ?E 2 (b_address b) w \<noteq> lower_get_size ?E 2 (b_address b) w"
    using assms(11) by (simp add: l2c_port_defs get_WQ q_full_def)
  obtain w1 where w1: "evict_victim ?E ?st way (p_cpu e) (p_instr_id e) (p_type e) (w, c) = Inr (True, w1, c)"
    "l2c_below (L1I w) (L1D w) w1" "llc_pending w1 = (if b_dirty b \<noteq> 0 then insert (b_address b) (llc_pending w) else llc_pending w)"
    using l2.evict_clean_or_room [OF below blk i(4) room] by blast
  have l1d: "L1D w1 = L1D w" using w1(2) by (simp add: l2c_below_def)
  have L1: "mshr_wf (L1D w1)" "check_mshr (L1D w1) e = int j" using assms(14,15) l1d by simp_all
  obtain d where d: "return_up ?E e (w1, c) = Inr (w1\<lparr>L1D := d\<rparr>, c)" "mshr_wf d"
    "q_entry (c_MSHR d) = (q_entry (c_MSHR (L1D w)))[j := completed_entry (now E) (L1D w) e (q_entry (c_MSHR (L1D w)) ! j)]"
    using return_up_l1d [OF i(4) assms(12,13) L1(1) i(3) L1(2), of EL E] l1d by auto
  have miss: "find_way c ?st (p_address e) = None" using assms(6) by (simp add: cached_def)
  have hook: "l2c_cache_fill ?E = l2c_prefetcher_cache_fill" by (simp add: l2c_port_defs)
  obtain c' where c': "fill_install ?E ?i ?st way (p_cpu e) (w1, c) = Inr (w1\<lparr>L1D := d\<rparr>, c')" "blocks_wf c'" "mshr_wf c'"
    "line_data c' (p_address e) = Some (p_data e)" "q_occupancy (c_MSHR c') = q_occupancy (c_MSHR c) - 1"
    "q_entry (c_MSHR c') = (q_entry (c_MSHR c))[?i := PACKET_init (blank ?E)]" "c_MSHR_SIZE c' = c_MSHR_SIZE c"
    using fill_install_ok [OF assms(1-3) hook i(1,2,3) refl way miss assms(7,8) d(1)] by blast
  have "handle_fill ?E (w, c) = Inr (w1\<lparr>L1D := d\<rparr>, c')"
    using handle_fill_due [of ?E c e, OF _ assms(2) _ assms(9)] assms(3,5) l2c_not_l1d(2) nowE w1(1) c'(1) by simp
  moreover have "check_mshr c' e = -1" by (rule released_not_found [OF assms(2) i(1,2,3) c'(6,7)])
  moreover have "mshr_at d j = completed_entry (now E) (L1D w) e (mshr_at (L1D w) j)"
    using d(3) check_mshr_bound [OF assms(15)] mshr_wfD(3) [OF assms(14)] by (simp add: mshr_at_def)
  ultimately show ?thesis using c'(2-5) d(2) w1(3)
    by (intro exI [of _ "w1\<lparr>L1D := d\<rparr>"] exI [of _ c']) (simp add: llc_pending_def)
qed

theorem l2c_fill_completes_witness:
  "\<exists>w' c'. handle_fill (l2c_ports sample_ports sample_ports) (sample_world, sample_l2c 1) = Inr (w', c') \<and>
    line_data c' 5 = Some 77 \<and> 64 \<in> llc_pending w'"
  using l2c_fill_completes [OF sample_l2c_wf(1,2) sample_l2c_stats(1) sample_llc(1) _ sample_uncached sample_l2c_stats(2,3)
      sample_victim refl _ sample_l2c_stats(5,6) sample_l1d_wf, of sample_ports 1 sample_ports] sample_l2c_wf(3) [of 1] sample_llc(4)
  by (auto simp: sample_set sample_l2c_stats(7,8) BLOCK_init_def sample_ports_def)

text \<open>
  C17: When the victim is dirty and the write queue of the LLC is full, the fill is put off, and exactly two counters
  change: the stalls of the type of the request in the L2 cache, and the refusals of the write queue of the LLC. So neither
  the line that arrived nor the victim is lost, the L1 caches are untouched, and the blocks, the registers and the queues of
  the L2 cache and of the LLC stay as they are.
\<close>

theorem l2c_fill_stalls:
  assumes "blocks_wf c" "mshr_wf c" "c_cache_type c = IS_L2C" "llc_ok w" "fill_due (now E) c e"
    and "choose_victim c (get_set c (p_address e)) = Inr way" "unat (p_type e) < length (c_STALL c)"
    and "b_dirty (c_block c ! unat (get_set c (p_address e)) ! way) \<noteq> 0" "q_full (c_WQ (LLC w))"
  shows "handle_fill (l2c_ports EL E) (w, c) =
    Inr (w\<lparr>LLC := (LLC w)\<lparr>c_WQ := (c_WQ (LLC w))\<lparr>q_FULL := q_FULL (c_WQ (LLC w)) + 1\<rparr>\<rparr>\<rparr>,
         c\<lparr>c_STALL := (c_STALL c)[unat (p_type e) := c_STALL c ! unat (p_type e) + 1]\<rparr>)"
proof -
  let ?E = "l2c_ports EL E" and ?st = "get_set c (p_address e)"
  let ?b = "c_block c ! unat ?st ! way"
  have nowE: "now ?E = now E" by (simp add: l2c_port_defs)
  have st: "unat ?st < length (c_block c)" by (rule blocks_wfD(1) [OF assms(1)])
  obtain v where "v < unat (c_NUM_WAY c)" "choose_victim c ?st = Inr v"
    using choose_victim_ok [OF assms(1) _ st] assms(3) l2c_not_l1d(2) by auto
  then have blk: "block_at c ?st way = Inr ?b"
    using st blocks_wfD(4) [OF assms(1) st] assms(6) by (simp add: block_at_def)
  have below: "l2c_below (L1I w) (L1D w) w" using assms(4) by (simp add: l2c_below_def)
  have "lower_get_occupancy ?E 2 (b_address ?b) w = lower_get_size ?E 2 (b_address ?b) w"
    using assms(9) by (simp add: l2c_port_defs get_WQ q_full_def)
  then have "evict_victim ?E ?st way (p_cpu e) (p_instr_id e) (p_type e) (w, c) =
      Inr (False, lower_increment_WQ_FULL ?E (b_address ?b) w, c\<lparr>c_STALL := (c_STALL c)[unat (p_type e) := c_STALL c ! unat (p_type e) + 1]\<rparr>)"
    using l2.evict_without_room [OF below blk assms(8,7)] by blast
  then show ?thesis
    using handle_fill_due [of ?E c e, OF _ assms(2) _ assms(6)] assms(3,5) l2c_not_l1d(2) nowE
    by (simp add: l2c_port_defs increment_WQ_FULL_def)
qed

theorem l2c_fill_stalls_witness:
  "\<exists>w' c'. handle_fill (l2c_ports sample_ports sample_ports) (full_world, sample_l2c 1) = Inr (w', c') \<and>
    q_FULL (c_WQ (LLC w')) = 1 \<and> c_STALL c' = [1, 0, 0, 0] \<and> c_MSHR c' = c_MSHR (sample_l2c 1) \<and> c_block (LLC w') = c_block (LLC full_world)"
proof -
  have "handle_fill (l2c_ports sample_ports sample_ports) (full_world, sample_l2c 1) =
    Inr (full_world\<lparr>LLC := (LLC full_world)\<lparr>c_WQ := (c_WQ (LLC full_world))\<lparr>q_FULL := q_FULL (c_WQ (LLC full_world)) + 1\<rparr>\<rparr>\<rparr>,
         (sample_l2c 1)\<lparr>c_STALL := (c_STALL (sample_l2c 1))[unat (p_type arrived) := c_STALL (sample_l2c 1) ! unat (p_type arrived) + 1]\<rparr>)"
    by (rule l2c_fill_stalls [OF sample_l2c_wf(1,2) sample_l2c_stats(1) sample_llc(2) _ sample_victim sample_l2c_stats(4) _ sample_llc(3)])
      (use sample_l2c_wf(3) [of 1] in \<open>simp_all add: sample_set BLOCK_init_def sample_ports_def\<close>)
  then show ?thesis
    by (intro exI conjI, assumption)
      (simp_all add: full_world_def sample_world_def sample_l2c_def sample_cache_def Let_def PACKET_QUEUE_init_def arrived_def numeral_eq_Suc)
qed

end
