(* ===== verification/PageTable.thy ===== *)
theory PageTable
  imports Hierarchy "HOL-Library.Monad_Syntax"
begin

text \<open>
  The translation of \<^verbatim>\<open>src/main.cc\<close>: the page table and its inverse, the allocation of physical pages at random
  or next to the last one, and the swap of a page when the memory is full. A \<^verbatim>\<open>std::map\<close> is an association list in
  the order of its keys, the generators \<^verbatim>\<open>champsim_rand\<close> and \<^verbatim>\<open>rand\<close> are sequences of the environment of which the
  state keeps the positions. The invalidation of a swapped page in the caches is an argument of the translation, given
  by \<^verbatim>\<open>invalidate_entry\<close> of the seven levels where the STLB calls it.
\<close>

section \<open>Maps in the order of their keys\<close>

type_synonym std_map = "(u64 \<times> u64) list"

definition std_insert :: "u64 \<Rightarrow> u64 \<Rightarrow> std_map \<Rightarrow> std_map" where
  "std_insert k v m = (if map_of m k = None then insort_key fst (k, v) m else m)"

definition std_erase :: "u64 \<Rightarrow> std_map \<Rightarrow> std_map" where
  "std_erase k m = filter (\<lambda>e. fst e \<noteq> k) m"

definition std_assign :: "u64 \<Rightarrow> u64 \<Rightarrow> std_map \<Rightarrow> std_map" where
  "std_assign k v m = map (\<lambda>e. if fst e = k then (k, v) else e) m"

definition in_key_order :: "std_map \<Rightarrow> bool" where
  "in_key_order m \<longleftrightarrow> sorted (map fst m) \<and> distinct (map fst m)"

lemma in_key_order_Nil [simp]: "in_key_order []"
  by (simp add: in_key_order_def)

lemma map_of_insort: "map_of m k = None \<Longrightarrow> map_of (insort_key fst (k, v) m) = (map_of m)(k \<mapsto> v)"
  by (induction m) (auto simp: fun_upd_twist split: if_splits)

lemma map_of_std_insert [simp]: "map_of (std_insert k v m) = (case map_of m k of None \<Rightarrow> (map_of m)(k \<mapsto> v) | Some _ \<Rightarrow> map_of m)"
  by (simp add: std_insert_def map_of_insort split: option.splits)

lemma map_of_std_erase [simp]: "map_of (std_erase k m) = (map_of m)(k := None)"
  by (induction m) (auto simp: std_erase_def fun_upd_twist)

lemma map_of_std_assign [simp]: "map_of (std_assign k v m) = (case map_of m k of None \<Rightarrow> map_of m | Some _ \<Rightarrow> (map_of m)(k \<mapsto> v))"
  by (induction m) (auto simp: std_assign_def fun_upd_twist split: option.splits if_splits)

lemma map_fst_std_assign [simp]: "map fst (std_assign k v m) = map fst m"
  by (simp add: std_assign_def)

lemma set_map_fst_insort: "set (map fst (insort_key fst (k, v) m)) = insert k (set (map fst m))"
  by (simp add: set_insort_key)

lemma map_of_NoneD: "map_of m k = None \<Longrightarrow> (k, v) \<notin> set m"
  by (auto simp: map_of_eq_None_iff image_iff)

lemma in_key_order_insert [intro]:
  assumes "in_key_order m"
  shows "in_key_order (std_insert k v m)"
proof (cases "map_of m k = None")
  case True
  have "set (map fst (insort_key fst (k, v) m)) = insert k (fst ` set m)" by (simp add: set_insort_key)
  then have "distinct (map fst (insort_key fst (k, v) m))"
    using True assms by (metis (no_types, lifting) card_distinct card_insert_disjoint distinct_card finite_set in_key_order_def
        length_insort length_map list.set_map map_of_eq_None_iff)
  then show ?thesis using True assms by (simp add: in_key_order_def std_insert_def sorted_insort_key)
qed (use assms in \<open>auto simp: std_insert_def\<close>)

lemma in_key_order_erase [intro]: "in_key_order m \<Longrightarrow> in_key_order (std_erase k m)"
  by (simp add: in_key_order_def std_erase_def sorted_filter distinct_map_filter)

lemma in_key_order_assign [intro]: "in_key_order m \<Longrightarrow> in_key_order (std_assign k v m)"
  by (simp add: in_key_order_def)

lemma length_std_insert [simp]: "length (std_insert k v m) = (if map_of m k = None then Suc (length m) else length m)"
  by (simp add: std_insert_def)

lemma length_std_erase: "in_key_order m \<Longrightarrow> map_of m k \<noteq> None \<Longrightarrow> Suc (length (std_erase k m)) = length m"
proof (induction m)
  case (Cons e m)
  show ?case
  proof (cases "fst e = k")
    case True
    then have "k \<notin> fst ` set m" using Cons.prems(1) by (simp add: in_key_order_def)
    then have "std_erase k m = m" unfolding std_erase_def filter_id_conv by (metis image_eqI)
    then show ?thesis using True by (simp add: std_erase_def)
  next
    case False
    then show ?thesis using Cons by (simp add: in_key_order_def std_erase_def)
  qed
qed simp

lemma length_std_assign [simp]: "length (std_assign k v m) = length m"
  by (simp add: std_assign_def)

section \<open>Rotation\<close>

definition rotl64 :: "u64 \<Rightarrow> u32 \<Rightarrow> u64 res" where
  "rotl64 n c = (if \<not> c \<le> 63 then Inl Assert_failed else Inr (push_bit (unat c) n OR drop_bit (unat (- c AND 63)) n))"

definition rotr64 :: "u64 \<Rightarrow> u32 \<Rightarrow> u64 res" where
  "rotr64 n c = (if \<not> c \<le> 63 then Inl Assert_failed else Inr (drop_bit (unat c) n OR push_bit (unat (- c AND 63)) n))"

section \<open>State\<close>

text \<open>The configuration, the two generators, and the latencies of a page fault and of a swap.\<close>

record page_env =
  pe_now :: u64
  pe_DRAM_PAGES :: nat
  pe_PAGE_TABLE_LATENCY :: u32
  pe_SWAP_LATENCY :: u32
  pe_draws :: "nat \<Rightarrow> u64"
  pe_rand :: "nat \<Rightarrow> u32"

record pages =
  pt_page_table :: std_map
  pt_inverse_table :: std_map
  pt_recent_page :: std_map
  pt_page_queue :: "u64 list"
  pt_unique_cl :: std_map
  pt_previous_ppage :: u64
  pt_num_adjacent_page :: u64
  pt_num_cl :: u64
  pt_allocated_pages :: u64
  pt_num_page :: u64
  pt_minor_fault :: u64
  pt_major_fault :: u64
  pt_stall_cycle :: u64
  pt_drawn :: nat
  pt_rolled :: nat

definition pages_init :: pages where
  "pages_init = \<lparr>pt_page_table = [], pt_inverse_table = [], pt_recent_page = [], pt_page_queue = [], pt_unique_cl = [],
     pt_previous_ppage = 0, pt_num_adjacent_page = 0, pt_num_cl = 0, pt_allocated_pages = 0, pt_num_page = 0,
     pt_minor_fault = 0, pt_major_fault = 0, pt_stall_cycle = 0, pt_drawn = 0, pt_rolled = 0\<rparr>"

definition DRAM_PAGES :: nat where "DRAM_PAGES = (8 * 65536 * (64 * 128 div 1024) div 1024) * 1024 div 4"

section \<open>Translation\<close>

text \<open>The footprint of cache lines.\<close>

definition touch_line :: "u64 \<Rightarrow> pages \<Rightarrow> pages" where
  "touch_line cl P =
     (case map_of (pt_unique_cl P) cl of
        None \<Rightarrow> P\<lparr>pt_unique_cl := std_insert cl 0 (pt_unique_cl P), pt_num_cl := pt_num_cl P + 1\<rparr>
      | Some n \<Rightarrow> P\<lparr>pt_unique_cl := std_assign cl (n + 1) (pt_unique_cl P)\<rparr>)"

text \<open>
  The memory is full: the first page in the order of the table that is not in \<^verbatim>\<open>recent_page\<close> loses its physical page
  to \<open>vpage\<close>. The results are the page that is swapped out and the physical page.
\<close>

definition swap_page :: "u64 \<Rightarrow> pages \<Rightarrow> (u64 \<times> u64 \<times> pages) res" where
  "swap_page vpage P =
     (case find (\<lambda>e. map_of (pt_recent_page P) (fst e) = None) (pt_page_table P) of
        None \<Rightarrow> Inl Assert_failed
      | Some (NRU_vpage, mapped_ppage) \<Rightarrow>
          if map_of (pt_inverse_table P) mapped_ppage = None then Inl Assert_failed
          else if pt_page_queue P = [] then Inl Out_of_bounds
          else Inr (NRU_vpage, mapped_ppage,
            P\<lparr>pt_page_table := std_insert vpage mapped_ppage (std_erase NRU_vpage (pt_page_table P)),
              pt_inverse_table := std_assign mapped_ppage vpage (pt_inverse_table P),
              pt_page_queue := tl (pt_page_queue P) @ [vpage]\<rparr>))"

text \<open>
  The search for a physical page that is free, from the candidate \<open>r\<close>; \<open>f\<close> is \<^verbatim>\<open>fragmented\<close> and \<open>n\<close> the position in
  the generator. \<open>None\<close> is a search that does not end.
\<close>

partial_function (option) free_page :: "page_env \<Rightarrow> std_map \<Rightarrow> u64 \<Rightarrow> u64 \<times> bool \<times> nat \<Rightarrow> (u64 \<times> bool \<times> nat) option" where
  "free_page E m adjacent rfn =
     (let (r, f, n) = rfn in
      if map_of m r \<noteq> None then free_page E m adjacent (pe_draws E n, (if adjacent > 0 then True else f), Suc n)
      else Some (r, f, n))"

text \<open>The memory has room: \<open>vpage\<close> gets a free physical page, next to the last one where the run of pages goes on.\<close>

definition allocate_page :: "page_env \<Rightarrow> u64 \<Rightarrow> pages \<Rightarrow> pages option" where
  "allocate_page E vpage P =
     (let candidate = (if pt_num_adjacent_page P > 0 then (pt_previous_ppage P + 1, False, pt_drawn P)
                       else (pe_draws E (pt_drawn P), True, Suc (pt_drawn P)))
      in do {
        (r, fragmented, n) \<leftarrow> free_page E (pt_inverse_table P) (pt_num_adjacent_page P) candidate;
        let P = P\<lparr>pt_page_table := std_insert vpage r (pt_page_table P), pt_inverse_table := std_insert r vpage (pt_inverse_table P),
              pt_page_queue := pt_page_queue P @ [vpage], pt_previous_ppage := r, pt_num_adjacent_page := pt_num_adjacent_page P - 1,
              pt_num_page := pt_num_page P + 1, pt_allocated_pages := pt_allocated_pages P + 1, pt_drawn := n\<rparr>;
        Some (if fragmented then P\<lparr>pt_num_adjacent_page := push_bit (unat (pe_rand E (pt_rolled P) mod 10)) 1, pt_rolled := Suc (pt_rolled P)\<rparr>
              else P)
      })"

text \<open>
  The page table has no entry for \<open>vpage\<close>. The first result is \<^verbatim>\<open>swap\<close>; \<open>flush\<close> invalidates a page in the caches.
\<close>

definition map_page ::
  "page_env \<Rightarrow> (u64 \<Rightarrow> u64 \<Rightarrow> 'w \<Rightarrow> 'w res) \<Rightarrow> u64 \<Rightarrow> pages \<times> 'w \<Rightarrow> (bool \<times> pages \<times> 'w) res option" where
  "map_page E flush vpage Pw =
     (let (P, w) = Pw in
      if of_nat (pe_DRAM_PAGES E) \<le> pt_allocated_pages P then
        Some (bind_res (swap_page vpage P) (\<lambda>(NRU_vpage, mapped_ppage, P).
              bind_res (flush NRU_vpage mapped_ppage w) (\<lambda>w. Inr (True, P\<lparr>pt_major_fault := pt_major_fault P + 1\<rparr>, w))))
      else do {
        P \<leftarrow> allocate_page E vpage P;
        Some (Inr (False, P\<lparr>pt_minor_fault := pt_minor_fault P + 1\<rparr>, w))
      })"

definition va_to_pa ::
  "page_env \<Rightarrow> (u64 \<Rightarrow> u64 \<Rightarrow> 'w \<Rightarrow> 'w res) \<Rightarrow> u32 \<Rightarrow> u64 \<Rightarrow> u64 \<Rightarrow> pages \<times> 'w \<Rightarrow> (u64 \<times> pages \<times> 'w) res option" where
  "va_to_pa E flush cpu va unique_vpage Pw =
     (let (P, w) = Pw in
      if va = 0 then Some (Inl Assert_failed)
      else
        case rotr64 (ucast cpu) (of_int (lg2 (unat NUM_CPUS))) of
          Inl e \<Rightarrow> Some (Inl e)
        | Inr high_bit_mask \<Rightarrow>
            let unique_va = va OR high_bit_mask;
                vpage = unique_vpage OR high_bit_mask;
                voffset = unique_va AND 4095;
                P = touch_line (drop_bit 6 unique_va) P
            in do {
              faulted \<leftarrow> (if map_of (pt_page_table P) vpage = None then map_page E flush vpage (P, w) else Some (Inr (False, P, w)));
              Some (bind_res faulted (\<lambda>(swap, P, w).
                case map_of (pt_page_table P) vpage of
                  None \<Rightarrow> Inl Assert_failed
                | Some ppage \<Rightarrow>
                    Inr (push_bit 12 ppage OR voffset,
                      P\<lparr>pt_stall_cycle := pe_now E + ucast (if swap then pe_SWAP_LATENCY E else pe_PAGE_TABLE_LATENCY E)\<rparr>, w)))
            })"

section \<open>The caches\<close>

text \<open>The levels a swap invalidates, in the order of \<^verbatim>\<open>ooo_cpu[cpu]\<close> and \<^verbatim>\<open>uncore\<close>.\<close>

record cache_levels =
  cl_ITLB :: cache
  cl_DTLB :: cache
  cl_STLB :: cache
  cl_L1I :: cache
  cl_L1D :: cache
  cl_L2C :: cache
  cl_LLC :: cache

definition invalidate_in :: "u64 \<Rightarrow> cache \<Rightarrow> cache res" where
  "invalidate_in addr c = bind_res (invalidate_entry addr c) (\<lambda>(_, c). Inr c)"

definition invalidate_line :: "u64 \<Rightarrow> cache_levels \<Rightarrow> cache_levels res" where
  "invalidate_line cl_addr L =
     bind_res (invalidate_in cl_addr (cl_L1I L)) (\<lambda>l1i.
     bind_res (invalidate_in cl_addr (cl_L1D L)) (\<lambda>l1d.
     bind_res (invalidate_in cl_addr (cl_L2C L)) (\<lambda>l2c.
     bind_res (invalidate_in cl_addr (cl_LLC L)) (\<lambda>llc.
       Inr (L\<lparr>cl_L1I := l1i, cl_L1D := l1d, cl_L2C := l2c, cl_LLC := llc\<rparr>)))))"

primrec invalidate_lines :: "u64 \<Rightarrow> nat list \<Rightarrow> cache_levels \<Rightarrow> cache_levels res" where
  "invalidate_lines ppage [] L = Inr L"
| "invalidate_lines ppage (i # is) L =
     bind_res (invalidate_line (push_bit 6 ppage OR of_nat i) L) (invalidate_lines ppage is)"

definition invalidate_page :: "u64 \<Rightarrow> u64 \<Rightarrow> cache_levels \<Rightarrow> cache_levels res" where
  "invalidate_page vpage ppage L =
     bind_res (invalidate_in vpage (cl_ITLB L)) (\<lambda>itlb.
     bind_res (invalidate_in vpage (cl_DTLB L)) (\<lambda>dtlb.
     bind_res (invalidate_in vpage (cl_STLB L)) (\<lambda>stlb.
       invalidate_lines ppage [0..<64] (L\<lparr>cl_ITLB := itlb, cl_DTLB := dtlb, cl_STLB := stlb\<rparr>))))"

text \<open>
  The call in the miss path of the STLB: the port \<^verbatim>\<open>va_to_pa\<close> of the cache model, over a world that holds the
  page table and the other levels. A search for a free page that does not end is a fault of its own.
\<close>

definition page_walk ::
  "page_env \<Rightarrow> u32 \<Rightarrow> u64 \<Rightarrow> u64 \<Rightarrow> u64 \<Rightarrow> (pages \<times> cache_levels) \<times> cache \<Rightarrow> (u64 \<times> (pages \<times> cache_levels) \<times> cache) res" where
  "page_walk E cpu instr_id va unique_vpage s =
     (let ((P, L), stlb) = s in
      case va_to_pa E invalidate_page cpu va unique_vpage (P, L\<lparr>cl_STLB := stlb\<rparr>) of
        None \<Rightarrow> Inl Endless_loop
      | Some r \<Rightarrow> bind_res r (\<lambda>(pa, P, L). Inr (pa, (P, L), cl_STLB L)))"

section \<open>The search for a free page\<close>

lemma free_page_found:
  assumes "free_page E m adjacent rfn = Some y"
  shows "map_of m (fst y) = None \<and> (fst y = fst rfn \<or> (\<exists>k\<ge>snd (snd rfn). fst y = pe_draws E k))"
proof (rule free_page.raw_induct [where P = "\<lambda>E m adjacent rfn y. map_of m (fst y) = None \<and>
    (fst y = fst rfn \<or> (\<exists>k\<ge>snd (snd rfn). fst y = pe_draws E k))", OF _ assms])
  fix F E m and a :: u64 and rfn :: "u64 \<times> bool \<times> nat" and y
  assume IH: "\<And>E m a rfn y. F E m a rfn = Some y \<Longrightarrow>
      map_of m (fst y) = None \<and> (fst y = fst rfn \<or> (\<exists>k\<ge>snd (snd rfn). fst y = pe_draws E k))"
    and step: "(let (r, f, n) = rfn in
        if map_of m r \<noteq> None then F E m a (pe_draws E n, if 0 < a then True else f, Suc n) else Some (r, f, n)) = Some y"
  obtain r f n where rfn: "rfn = (r, f, n)" by (cases rfn)
  show "map_of m (fst y) = None \<and> (fst y = fst rfn \<or> (\<exists>k\<ge>snd (snd rfn). fst y = pe_draws E k))"
  proof (cases "map_of m r = None")
    case True
    then show ?thesis using step rfn by auto
  next
    case False
    then have "F E m a (pe_draws E n, if 0 < a then True else f, Suc n) = Some y" using step rfn by simp
    then have "map_of m (fst y) = None \<and> (fst y = pe_draws E n \<or> (\<exists>k\<ge>Suc n. fst y = pe_draws E k))" using IH by fastforce
    then show ?thesis using rfn by (auto intro: exI [of _ n] dest: Suc_leD)
  qed
qed

lemma free_page_result:
  "free_page E m adjacent (r, f, n) = Some (r', f', n') \<Longrightarrow> map_of m r' = None \<and> (r' = r \<or> (\<exists>k\<ge>n. r' = pe_draws E k))"
  using free_page_found [of E m adjacent "(r, f, n)" "(r', f', n')"] by simp

lemma free_page_ends_at: "map_of m (pe_draws E (n + k)) = None \<Longrightarrow> free_page E m adjacent (r, f, n) \<noteq> None"
proof (induction k arbitrary: r f n)
  case 0
  then show ?case by (subst free_page.simps, cases "map_of m r = None") (simp_all add: free_page.simps)
next
  case (Suc k)
  then show ?case by (subst free_page.simps) (auto simp: Let_def)
qed

lemma free_page_ends:
  "free_page E m adjacent (r, f, n) \<noteq> None \<longleftrightarrow> map_of m r = None \<or> (\<exists>k\<ge>n. map_of m (pe_draws E k) = None)"
proof
  assume "free_page E m adjacent (r, f, n) \<noteq> None"
  then obtain y where "free_page E m adjacent (r, f, n) = Some y" by blast
  then show "map_of m r = None \<or> (\<exists>k\<ge>n. map_of m (pe_draws E k) = None)"
    using free_page_result [of E m adjacent r f n] by (cases y) auto
next
  assume "map_of m r = None \<or> (\<exists>k\<ge>n. map_of m (pe_draws E k) = None)"
  then show "free_page E m adjacent (r, f, n) \<noteq> None"
  proof
    assume "map_of m r = None"
    then show ?thesis by (simp add: free_page.simps)
  next
    assume "\<exists>k\<ge>n. map_of m (pe_draws E k) = None"
    then obtain k where "map_of m (pe_draws E (n + k)) = None" using le_Suc_ex by metis
    then show ?thesis by (rule free_page_ends_at)
  qed
qed

section \<open>Invariant\<close>

text \<open>What the memory and the generator of physical pages have to satisfy.\<close>

definition page_env_ok :: "page_env \<Rightarrow> bool" where
  "page_env_ok E \<longleftrightarrow> 0 < pe_DRAM_PAGES E \<and> pe_DRAM_PAGES E \<le> 2 ^ 36 \<and> (\<forall>n. pe_draws E n \<le> 0xFFFFFFFFF)"

text \<open>The tables are inverse to each other, and the numbers of pages agree.\<close>

definition inverse_tables :: "pages \<Rightarrow> bool" where
  "inverse_tables P \<longleftrightarrow> (\<forall>v p. map_of (pt_inverse_table P) p = Some v \<longleftrightarrow> map_of (pt_page_table P) v = Some p)"

definition pages_ok :: "page_env \<Rightarrow> pages \<Rightarrow> bool" where
  "pages_ok E P \<longleftrightarrow> inverse_tables P \<and> in_key_order (pt_page_table P) \<and> pt_recent_page P = [] \<and>
     length (pt_page_table P) \<le> pe_DRAM_PAGES E \<and> pt_allocated_pages P = of_nat (length (pt_page_table P)) \<and>
     length (pt_page_queue P) = length (pt_page_table P) \<and>
     unat (pt_previous_ppage P) < 2 ^ 36 + length (pt_page_table P) \<and>
     (\<forall>v p. map_of (pt_page_table P) v = Some p \<longrightarrow> unat p < 2 ^ 36 + length (pt_page_table P))"

lemma pages_ok_init: "pages_ok E pages_init"
  by (simp add: pages_ok_def pages_init_def inverse_tables_def)

lemma pages_ok_counters [simp]:
  "pages_ok E (P\<lparr>pt_major_fault := a\<rparr>) = pages_ok E P" "pages_ok E (P\<lparr>pt_minor_fault := a\<rparr>) = pages_ok E P"
  "pages_ok E (P\<lparr>pt_stall_cycle := a\<rparr>) = pages_ok E P" "pages_ok E (P\<lparr>pt_num_adjacent_page := a, pt_rolled := b\<rparr>) = pages_ok E P"
  by (simp_all add: pages_ok_def inverse_tables_def)

lemma touch_line_tables [simp]:
  "pt_page_table (touch_line a P) = pt_page_table P" "pt_inverse_table (touch_line a P) = pt_inverse_table P"
  "pt_allocated_pages (touch_line a P) = pt_allocated_pages P" "pt_num_adjacent_page (touch_line a P) = pt_num_adjacent_page P"
  "pt_previous_ppage (touch_line a P) = pt_previous_ppage P" "pt_drawn (touch_line a P) = pt_drawn P"
  "pages_ok E (touch_line a P) = pages_ok E P"
  by (simp_all add: touch_line_def pages_ok_def inverse_tables_def split: option.splits)

lemma full_iff:
  assumes "page_env_ok E" "pages_ok E P"
  shows "of_nat (pe_DRAM_PAGES E) \<le> pt_allocated_pages P \<longleftrightarrow> length (pt_page_table P) = pe_DRAM_PAGES E"
proof -
  have "length (pt_page_table P) \<le> pe_DRAM_PAGES E" "pe_DRAM_PAGES E < 2 ^ 64" using assms by (simp_all add: page_env_ok_def pages_ok_def)
  then show ?thesis using assms(2) by (auto simp: pages_ok_def of_nat_word_less_eq_iff take_bit_nat_eq_self)
qed

section \<open>Swapping\<close>

lemma inverse_after_swap:
  assumes "\<forall>w r. I r = Some w \<longleftrightarrow> T w = Some r" "T v = None" "T u = Some p"
  shows "(I(p \<mapsto> v)) r = Some w \<longleftrightarrow> (T(u := None, v \<mapsto> p)) w = Some r"
proof (cases "r = p")
  case True
  then show ?thesis using assms by (auto, metis option.inject)
next
  case False
  then show ?thesis using assms by auto
qed

lemma inverse_after_allocation:
  assumes "\<forall>w r. I r = Some w \<longleftrightarrow> T w = Some r" "T v = None" "I p = None"
  shows "(I(p \<mapsto> v)) r = Some w \<longleftrightarrow> (T(v \<mapsto> p)) w = Some r"
  using assms by (cases "r = p") (auto, metis option.distinct(1))

lemma swap_page_ok:
  assumes "page_env_ok E" "pages_ok E P" "map_of (pt_page_table P) v = None" "length (pt_page_table P) = pe_DRAM_PAGES E"
  shows "\<exists>u p Q. pt_page_table P \<noteq> [] \<and> hd (pt_page_table P) = (u, p) \<and> swap_page v P = Inr (u, p, Q) \<and> pages_ok E Q \<and>
    map_of (pt_page_table Q) = (map_of (pt_page_table P))(u := None, v \<mapsto> p)"
proof -
  have ne: "pt_page_table P \<noteq> []" using assms by (auto simp: page_env_ok_def)
  obtain u p m where m: "pt_page_table P = (u, p) # m" using ne by (cases "pt_page_table P") auto
  have up: "map_of (pt_page_table P) u = Some p" by (simp add: m)
  have vu: "v \<noteq> u" using assms(3) up by auto
  have inv: "map_of (pt_inverse_table P) p = Some u" using assms(2) up by (simp add: pages_ok_def inverse_tables_def)
  have find: "find (\<lambda>e. map_of (pt_recent_page P) (fst e) = None) (pt_page_table P) = Some (u, p)"
    using assms(2) by (simp add: m pages_ok_def)
  have q: "pt_page_queue P \<noteq> []" using assms(2) ne by (auto simp: pages_ok_def)
  let ?Q = "P\<lparr>pt_page_table := std_insert v p (std_erase u (pt_page_table P)), pt_inverse_table := std_assign p v (pt_inverse_table P),
              pt_page_queue := tl (pt_page_queue P) @ [v]\<rparr>"
  have step: "swap_page v P = Inr (u, p, ?Q)" using inv q by (simp add: swap_page_def find)
  have table: "map_of (pt_page_table ?Q) = (map_of (pt_page_table P))(u := None, v \<mapsto> p)" using assms(3) vu by simp
  have "Suc (length (std_erase u (pt_page_table P))) = length (pt_page_table P)"
    by (rule length_std_erase) (use assms(2) up in \<open>simp_all add: pages_ok_def\<close>)
  then have len: "length (pt_page_table ?Q) = length (pt_page_table P)" using assms(3) vu by simp
  have itable: "map_of (pt_inverse_table ?Q) = (map_of (pt_inverse_table P))(p \<mapsto> v)" using inv by simp
  have "inverse_tables ?Q"
    using inverse_after_swap [of "map_of (pt_inverse_table P)" "map_of (pt_page_table P)" v u p] assms(2,3) up
    unfolding inverse_tables_def table itable by (simp add: pages_ok_def inverse_tables_def)
  moreover have "in_key_order (pt_page_table ?Q)" using assms(2) by (auto simp: pages_ok_def)
  moreover have "\<forall>w r. map_of (pt_page_table ?Q) w = Some r \<longrightarrow> unat r < 2 ^ 36 + length (pt_page_table ?Q)"
    using assms(2) up unfolding table len by (auto simp: pages_ok_def)
  moreover have "length (pt_page_queue ?Q) = length (pt_page_queue P)" using q by simp
  ultimately have "pages_ok E ?Q"
    using assms(2) len unfolding pages_ok_def by (simp del: map_of_std_insert map_of_std_erase length_std_insert)
  with step table show ?thesis using m by auto
qed

section \<open>Allocating\<close>

lemma allocate_page_ok:
  assumes "page_env_ok E" "pages_ok E P" "map_of (pt_page_table P) v = None" "length (pt_page_table P) < pe_DRAM_PAGES E"
    "allocate_page E v P = Some Q"
  shows "\<exists>p. map_of (pt_inverse_table P) p = None \<and> map_of (pt_page_table Q) = (map_of (pt_page_table P))(v \<mapsto> p) \<and> pages_ok E Q"
proof -
  let ?n = "length (pt_page_table P)"
  obtain r f n where free: "free_page E (pt_inverse_table P) (pt_num_adjacent_page P)
      (if pt_num_adjacent_page P > 0 then (pt_previous_ppage P + 1, False, pt_drawn P) else (pe_draws E (pt_drawn P), True, Suc (pt_drawn P))) = Some (r, f, n)"
    using assms(5) by (auto simp: allocate_page_def bind_eq_Some_conv)
  let ?Q = "P\<lparr>pt_page_table := std_insert v r (pt_page_table P), pt_inverse_table := std_insert r v (pt_inverse_table P),
              pt_page_queue := pt_page_queue P @ [v], pt_previous_ppage := r, pt_num_adjacent_page := pt_num_adjacent_page P - 1,
              pt_num_page := pt_num_page P + 1, pt_allocated_pages := pt_allocated_pages P + 1, pt_drawn := n\<rparr>"
  have Q: "Q = (if f then ?Q\<lparr>pt_num_adjacent_page := push_bit (unat (pe_rand E (pt_rolled P) mod 10)) 1, pt_rolled := Suc (pt_rolled P)\<rparr> else ?Q)"
    using assms(5) free by (simp add: allocate_page_def Let_def split: if_splits)
  have r: "map_of (pt_inverse_table P) r = None" "r = pt_previous_ppage P + 1 \<or> (\<exists>k. r = pe_draws E k)"
    using free_page_result [of E "pt_inverse_table P" "pt_num_adjacent_page P" _ _ _ r f n] free by (fastforce split: if_splits)+
  have "unat (pe_draws E k) < 2 ^ 36 + Suc ?n" for k
    using assms(1) word_le_nat_alt [of "pe_draws E k" "0xFFFFFFFFF"] by (simp add: page_env_ok_def le_less_trans trans_less_add1)
  moreover have "unat (pt_previous_ppage P + 1) \<le> unat (pt_previous_ppage P) + 1" by (simp add: unat_word_ariths)
  moreover have "unat (pt_previous_ppage P) < 2 ^ 36 + ?n" using assms(2) by (simp add: pages_ok_def)
  ultimately have bound: "unat r < 2 ^ 36 + Suc ?n" using r(2) by auto
  have table: "map_of (pt_page_table ?Q) = (map_of (pt_page_table P))(v \<mapsto> r)" using assms(3) by simp
  have itable: "map_of (pt_inverse_table ?Q) = (map_of (pt_inverse_table P))(r \<mapsto> v)" using r(1) by simp
  have "inverse_tables ?Q"
    using inverse_after_allocation [of "map_of (pt_inverse_table P)" "map_of (pt_page_table P)" v r] assms(2,3) r(1)
    unfolding inverse_tables_def table itable by (simp add: pages_ok_def inverse_tables_def)
  moreover have "in_key_order (pt_page_table ?Q)" using assms(2) by (auto simp: pages_ok_def)
  moreover have "\<forall>w p. map_of (pt_page_table ?Q) w = Some p \<longrightarrow> unat p < 2 ^ 36 + length (pt_page_table ?Q)"
  proof (intro allI impI)
    fix w p assume "map_of (pt_page_table ?Q) w = Some p"
    then have "w = v \<and> p = r \<or> map_of (pt_page_table P) w = Some p" unfolding table by (auto split: if_splits)
    moreover have "length (pt_page_table ?Q) = Suc ?n" using assms(3) by simp
    ultimately show "unat p < 2 ^ 36 + length (pt_page_table ?Q)"
      using assms(2) bound unfolding pages_ok_def by fastforce
  qed
  ultimately have "pages_ok E ?Q" using assms(2,3,4) bound by (simp add: pages_ok_def)
  then show ?thesis using r(1) table unfolding Q by (intro exI [of _ r] conjI) (auto simp: pages_ok_def inverse_tables_def)
qed

section \<open>A translation\<close>

lemma rotr64_0: "rotr64 n 0 = Inr n"
  by (simp add: rotr64_def)

lemma no_core_bits: "of_int (lg2 (unat NUM_CPUS)) = (0 :: u32)"
  by (simp add: NUM_CPUS_def lg2_def lg2_loop.simps [of "Suc 0"] lg2_loop.simps [of 0])

text \<open>
  A fault maps the page, and keeps the tables inverse to each other: two virtual pages never share a physical page.
\<close>

lemma map_page_ok:
  assumes "page_env_ok E" "pages_ok E P" "map_of (pt_page_table P) v = None" "map_page E flush v (P, w) = Some (Inr (s, Q, w'))"
  shows "pages_ok E Q \<and> map_of (pt_page_table Q) v \<noteq> None"
proof (cases "of_nat (pe_DRAM_PAGES E) \<le> pt_allocated_pages P")
  case True
  then have "length (pt_page_table P) = pe_DRAM_PAGES E" using full_iff [OF assms(1,2)] by simp
  then obtain u p R where R: "swap_page v P = Inr (u, p, R)" "pages_ok E R"
    "map_of (pt_page_table R) = (map_of (pt_page_table P))(u := None, v \<mapsto> p)"
    using swap_page_ok [OF assms(1-3)] by blast
  then show ?thesis using assms(4) True by (auto simp: map_page_def bind_res_def split: sum.splits)
next
  case False
  then have "length (pt_page_table P) < pe_DRAM_PAGES E"
    using full_iff [OF assms(1,2)] assms(2) by (simp add: pages_ok_def)
  moreover obtain R where R: "allocate_page E v P = Some R" "Q = R\<lparr>pt_minor_fault := pt_minor_fault R + 1\<rparr>"
    using assms(4) False by (auto simp: map_page_def bind_eq_Some_conv)
  ultimately show ?thesis using allocate_page_ok [OF assms(1-3)] by fastforce
qed

lemma va_to_pa_translates:
  assumes "page_env_ok E" "pages_ok E P" "va_to_pa E flush cpu va vp (P, w) = Some (Inr (pa, Q, w'))"
  shows "pages_ok E Q \<and> (\<exists>p. map_of (pt_page_table Q) (vp OR ucast cpu) = Some p \<and>
    pa = push_bit 12 p OR ((va OR ucast cpu) AND 4095))"
proof -
  let ?v = "vp OR ucast cpu" and ?P = "touch_line (drop_bit 6 (va OR ucast cpu)) P"
  let ?F = "if map_of (pt_page_table ?P) ?v = None then map_page E flush ?v (?P, w) else Some (Inr (False, ?P, w))"
  obtain X where X: "?F = Some X" and out: "bind_res X (\<lambda>(swap, P, w).
      case map_of (pt_page_table P) ?v of
        None \<Rightarrow> Inl Assert_failed
      | Some ppage \<Rightarrow>
          Inr (push_bit 12 ppage OR ((va OR ucast cpu) AND 4095),
            P\<lparr>pt_stall_cycle := pe_now E + ucast (if swap then pe_SWAP_LATENCY E else pe_PAGE_TABLE_LATENCY E)\<rparr>, w)) = Inr (pa, Q, w')"
  proof (cases "va = 0")
    case True
    then show ?thesis using assms(3) by (simp add: va_to_pa_def)
  next
    case False
    show ?thesis using assms(3) False unfolding va_to_pa_def
      by (cases ?F) (simp_all add: no_core_bits rotr64_0 Let_def that)
  qed
  obtain s R w1 where Y: "X = Inr (s, R, w1)" using out by (cases X) (auto simp: bind_res_def)
  obtain p where p: "map_of (pt_page_table R) ?v = Some p" using out Y by (cases "map_of (pt_page_table R) ?v") auto
  have R: "?F = Some (Inr (s, R, w'))" "\<exists>p. map_of (pt_page_table R) ?v = Some p \<and> pa = push_bit 12 p OR ((va OR ucast cpu) AND 4095)"
    "\<exists>c. Q = R\<lparr>pt_stall_cycle := c\<rparr>"
    using X out Y p by auto
  have "pages_ok E R"
  proof (cases "map_of (pt_page_table ?P) ?v = None")
    case True
    then show ?thesis using map_page_ok [of E ?P ?v flush w s R w'] R(1) assms(1,2) by simp
  next
    case False
    then show ?thesis using R(1) assms(2) by auto
  qed
  then show ?thesis using R(2,3) by auto
qed

lemma physical_pages_distinct:
  assumes "pages_ok E P" "map_of (pt_page_table P) v = Some p" "map_of (pt_page_table P) u = Some p"
  shows "u = v"
  using assms by (metis inverse_tables_def option.inject pages_ok_def)

lemma page_walk_translates:
  assumes "page_env_ok E" "pages_ok E P" "page_walk E cpu n va vp ((P, L), c) = Inr (pa, (Q, L'), c')"
  shows "pages_ok E Q \<and> cl_STLB L' = c' \<and> (\<exists>p. map_of (pt_page_table Q) (vp OR ucast cpu) = Some p \<and>
    pa = push_bit 12 p OR ((va OR ucast cpu) AND 4095))"
proof -
  obtain r where r: "va_to_pa E invalidate_page cpu va vp (P, L\<lparr>cl_STLB := c\<rparr>) = Some r"
    using assms(3) by (cases "va_to_pa E invalidate_page cpu va vp (P, L\<lparr>cl_STLB := c\<rparr>)") (auto simp: page_walk_def)
  then have "r = Inr (pa, Q, L') \<and> cl_STLB L' = c'"
    using assms(3) by (cases r) (auto simp: page_walk_def split: prod.splits)
  then show ?thesis using va_to_pa_translates [OF assms(1,2), of invalidate_page cpu va vp "L\<lparr>cl_STLB := c\<rparr>" pa Q L'] r by simp
qed

end
