(* ===== verification/Dram.thy ===== *)
theory Dram
  imports Cache
begin

unbundle bit_operations_syntax

text \<open>
  The memory controller (\<^verbatim>\<open>src/dram_controller.cc\<close>, \<^verbatim>\<open>inc/dram_controller.h\<close>): requests wait in a
  read and a write queue of 64 slots, a first-ready scheduler hands the oldest request whose
  bank is free to that bank, preferring open rows, and finished requests share one data bus.
  The controller serves reads or writes at a time and takes scheduled requests back when it
  changes direction.

  \<^verbatim>\<open>inc/defs.h\<close> fixes one core, one channel and one rank, so arrays over these have one element
  and are that element here; the loop over channels runs once. The cycle of the core and the
  timing parameters of \<^verbatim>\<open>main.cc\<close> are arguments, and so is the \<^verbatim>\<open>return_data\<close> of the level
  above, which acts on its state \<open>'w\<close>.
\<close>

section \<open>Configuration\<close>

definition LOG2_DRAM_CHANNELS :: nat where "LOG2_DRAM_CHANNELS = 0"
definition LOG2_DRAM_RANKS :: nat where "LOG2_DRAM_RANKS = 0"
definition DRAM_BANKS :: u32 where "DRAM_BANKS = 8"
definition LOG2_DRAM_BANKS :: nat where "LOG2_DRAM_BANKS = 3"
definition DRAM_ROWS :: u32 where "DRAM_ROWS = 65536"
definition LOG2_DRAM_ROWS :: nat where "LOG2_DRAM_ROWS = 16"
definition DRAM_COLUMNS :: u32 where "DRAM_COLUMNS = 128"
definition LOG2_DRAM_COLUMNS :: nat where "LOG2_DRAM_COLUMNS = 7"
definition DRAM_WQ_SIZE :: u32 where "DRAM_WQ_SIZE = 64"
definition DRAM_RQ_SIZE :: u32 where "DRAM_RQ_SIZE = 64"
definition CPU_FREQ :: u64 where "CPU_FREQ = 4000"
definition DRAM_DBUS_TURN_AROUND_TIME :: u64 where "DRAM_DBUS_TURN_AROUND_TIME = (15 * CPU_FREQ) div 2000"
definition DRAM_WRITE_HIGH_WM :: u32 where "DRAM_WRITE_HIGH_WM = drop_bit 3 (DRAM_WQ_SIZE * 7)"
definition DRAM_WRITE_LOW_WM :: u32 where "DRAM_WRITE_LOW_WM = drop_bit 2 (DRAM_WQ_SIZE * 3)"
definition NUM_TYPES :: nat where "NUM_TYPES = 4"
definition FILL_DRAM :: i32 where "FILL_DRAM = 16"

text \<open>The globals \<^verbatim>\<open>tRP\<close>, \<^verbatim>\<open>tRCD\<close>, \<^verbatim>\<open>tCAS\<close>, \<^verbatim>\<open>DRAM_DBUS_RETURN_TIME\<close>, and the current cycle.\<close>

record dram_env =
  dram_cycle :: u64
  tRP :: u32
  tRCD :: u32
  tCAS :: u32
  DRAM_DBUS_RETURN_TIME :: u32
  all_warmup_complete :: u8
  dram_blank :: packet

section \<open>State\<close>

record bank_request =
  br_cycle_available :: u64
  br_address :: u64
  br_full_addr :: u64
  br_open_row :: u32
  br_working :: u8
  br_working_type :: u8
  br_row_buffer_hit :: u8
  br_drc_hit :: u8
  br_is_write :: u8
  br_is_read :: u8
  br_request_index :: i32

definition BANK_REQUEST_init :: bank_request where
  "BANK_REQUEST_init = \<lparr>br_cycle_available = 0, br_address = 0, br_full_addr = 0, br_open_row = - 1, br_working = 0,
     br_working_type = 0, br_row_buffer_hit = 0, br_drc_hit = 0, br_is_write = 0, br_is_read = 0, br_request_index = - 1\<rparr>"

record dram =
  d_dbus_cycle_available :: u64
  d_dbus_cycle_congested :: u64
  d_dbus_congested :: "u64 list list"
  d_bank_cycle_available :: "u64 list"
  d_do_write :: u8
  d_write_mode :: u8
  d_processed_writes :: u32
  d_scheduled_reads :: u32
  d_scheduled_writes :: u32
  d_fill_level :: i32
  d_bank :: "bank_request list"
  d_WQ :: packet_queue
  d_RQ :: packet_queue
  d_rq_enqueue_count :: u64
  d_last_enqueue_count :: u64
  d_epoch_enqueue_count :: u64
  d_next_bw_measure_cycle :: u64
  d_bw :: u8
  d_ACCESS :: "u64 list"
  d_HIT :: "u64 list"

text \<open>\<^verbatim>\<open>main\<close> marks the queues with \<^verbatim>\<open>is_RQ\<close> and \<^verbatim>\<open>is_WQ\<close> after the constructor has run.\<close>

definition MEMORY_CONTROLLER_init :: "packet \<Rightarrow> dram" where
  "MEMORY_CONTROLLER_init raw =
     \<lparr>d_dbus_cycle_available = 0, d_dbus_cycle_congested = 0, d_dbus_congested = replicate 5 (replicate 5 0),
      d_bank_cycle_available = replicate 8 0, d_do_write = 0, d_write_mode = 0, d_processed_writes = 0,
      d_scheduled_reads = 0, d_scheduled_writes = 0, d_fill_level = FILL_DRAM,
      d_bank = replicate 8 BANK_REQUEST_init,
      d_WQ = (PACKET_QUEUE_init raw ''DRAM_WQ0'' DRAM_WQ_SIZE)\<lparr>q_is_WQ := 1\<rparr>,
      d_RQ = (PACKET_QUEUE_init raw ''DRAM_RQ0'' DRAM_RQ_SIZE)\<lparr>q_is_RQ := 1\<rparr>,
      d_rq_enqueue_count = 0, d_last_enqueue_count = 0, d_epoch_enqueue_count = 0, d_next_bw_measure_cycle = 1,
      d_bw = 0, d_ACCESS = replicate NUM_TYPES 0, d_HIT = replicate NUM_TYPES 0\<rparr>"

section \<open>Address mapping\<close>

definition dram_get_channel :: "u64 \<Rightarrow> u32" where
  "dram_get_channel address = (if LOG2_DRAM_CHANNELS = 0 then 0 else ucast (drop_bit 0 address) AND 0)"

definition dram_get_bank :: "u64 \<Rightarrow> u32" where
  "dram_get_bank address =
     (if LOG2_DRAM_BANKS = 0 then 0 else ucast (drop_bit LOG2_DRAM_CHANNELS address) AND (DRAM_BANKS - 1))"

definition dram_get_column :: "u64 \<Rightarrow> u32" where
  "dram_get_column address =
     (if LOG2_DRAM_COLUMNS = 0 then 0
      else ucast (drop_bit (LOG2_DRAM_BANKS + LOG2_DRAM_CHANNELS) address) AND (DRAM_COLUMNS - 1))"

definition dram_get_rank :: "u64 \<Rightarrow> u32" where
  "dram_get_rank address =
     (if LOG2_DRAM_RANKS = 0 then 0
      else ucast (drop_bit (LOG2_DRAM_COLUMNS + LOG2_DRAM_BANKS + LOG2_DRAM_CHANNELS) address) AND 0)"

definition dram_get_row :: "u64 \<Rightarrow> u32" where
  "dram_get_row address =
     (if LOG2_DRAM_ROWS = 0 then 0
      else ucast (drop_bit (LOG2_DRAM_RANKS + LOG2_DRAM_COLUMNS + LOG2_DRAM_BANKS + LOG2_DRAM_CHANNELS) address)
        AND (DRAM_ROWS - 1))"

definition bank_of :: "u64 \<Rightarrow> nat" where
  "bank_of address = unat (dram_get_bank address)"

section \<open>The queues\<close>

text \<open>The pointer arguments \<^verbatim>\<open>&WQ[i]\<close> and \<^verbatim>\<open>&RQ[i]\<close>.\<close>

definition dram_queue :: "bool \<Rightarrow> dram \<Rightarrow> packet_queue" where
  "dram_queue wq d = (if wq then d_WQ d else d_RQ d)"

definition put_queue :: "bool \<Rightarrow> packet_queue \<Rightarrow> dram \<Rightarrow> dram" where
  "put_queue wq q d = (if wq then d\<lparr>d_WQ := q\<rparr> else d\<lparr>d_RQ := q\<rparr>)"

text \<open>
  The loop of the scheduler and of the two updates: of the entries with \<open>P\<close>, the first one with
  the least event cycle below \<^verbatim>\<open>UINT64_MAX\<close>.
\<close>

primrec oldest_scan :: "(packet \<Rightarrow> bool) \<Rightarrow> nat list \<Rightarrow> packet list \<Rightarrow> u64 \<times> nat option \<Rightarrow> u64 \<times> nat option" where
  "oldest_scan P [] es m = m"
| "oldest_scan P (i # is) es m =
     oldest_scan P is es (if P (es ! i) \<and> p_event_cycle (es ! i) < fst m then (p_event_cycle (es ! i), Some i) else m)"

definition oldest_entry :: "(packet \<Rightarrow> bool) \<Rightarrow> packet_queue \<Rightarrow> u64 \<times> nat option" where
  "oldest_entry P q = oldest_scan P [0..<unat (q_SIZE q)] (q_entry q) (- 1, None)"

definition index_or_size :: "packet_queue \<Rightarrow> nat option \<Rightarrow> u32" where
  "index_or_size q m = (case m of None \<Rightarrow> q_SIZE q | Some i \<Rightarrow> of_nat i)"

definition update_schedule_cycle :: "packet_queue \<Rightarrow> packet_queue" where
  "update_schedule_cycle q =
     (let (cyc, m) = oldest_entry (\<lambda>e. p_address e \<noteq> 0 \<and> p_scheduled e = 0) q
      in q\<lparr>q_next_schedule_cycle := cyc, q_next_schedule_index := index_or_size q m\<rparr>)"

definition update_process_cycle :: "packet_queue \<Rightarrow> packet_queue" where
  "update_process_cycle q =
     (let (cyc, m) = oldest_entry (\<lambda>e. p_scheduled e \<noteq> 0) q
      in q\<lparr>q_next_process_cycle := cyc, q_next_process_index := index_or_size q m\<rparr>)"

definition check_dram_queue :: "packet_queue \<Rightarrow> packet \<Rightarrow> int" where
  "check_dram_queue q p =
     (case find (\<lambda>i. p_address (q_entry q ! i) = p_address p) [0..<unat (q_SIZE q)] of Some i \<Rightarrow> int i | None \<Rightarrow> -1)"

section \<open>Taking scheduled requests back\<close>

text \<open>One scheduled entry: its bank is freed; the open row survives only if the row was reached.\<close>

definition reset_bank :: "dram_env \<Rightarrow> u64 \<Rightarrow> bank_request \<Rightarrow> bank_request" where
  "reset_bank T op_addr b =
     b\<lparr>br_open_row := (if br_cycle_available b - ucast (tCAS T) \<le> dram_cycle T then dram_get_row op_addr else - 1),
       br_request_index := - 1, br_row_buffer_hit := 0, br_working := 0, br_cycle_available := dram_cycle T,
       br_is_write := 0, br_is_read := (if br_is_write b \<noteq> 0 then br_is_read b else 0)\<rparr>"

definition reset_entry :: "dram_env \<Rightarrow> bool \<Rightarrow> nat \<Rightarrow> dram \<Rightarrow> dram res" where
  "reset_entry T wq i d =
     (let q = dram_queue wq d; e = q_entry q ! i in
      if p_scheduled e = 0 then Inr d
      else if p_cpu e \<ge> NUM_CPUS then Inl Out_of_bounds
      else
        let k = bank_of (p_address e); b = d_bank d ! k;
            d = (if br_is_write b \<noteq> 0 then d\<lparr>d_scheduled_writes := d_scheduled_writes d - 1\<rparr>
                 else if br_is_read b \<noteq> 0 then d\<lparr>d_scheduled_reads := d_scheduled_reads d - 1\<rparr> else d);
            d = d\<lparr>d_bank := (d_bank d)[k := reset_bank T (p_address e) b]\<rparr>;
            e = e\<lparr>p_scheduled := 0, p_event_cycle := dram_cycle T\<rparr>
        in Inr (put_queue wq (q\<lparr>q_entry := (q_entry q)[i := e]\<rparr>) d))"

primrec reset_loop :: "dram_env \<Rightarrow> bool \<Rightarrow> nat list \<Rightarrow> dram \<Rightarrow> dram res" where
  "reset_loop T wq [] d = Inr d"
| "reset_loop T wq (i # is) d = bind_res (reset_entry T wq i d) (reset_loop T wq is)"

definition reset_remain_requests :: "dram_env \<Rightarrow> bool \<Rightarrow> dram \<Rightarrow> dram res" where
  "reset_remain_requests T wq d =
     bind_res (reset_loop T wq [0..<unat (q_SIZE (dram_queue wq d))] d) (\<lambda>d.
       let d = d\<lparr>d_RQ := update_process_cycle (update_schedule_cycle (d_RQ d)),
                 d_WQ := update_process_cycle (update_schedule_cycle (d_WQ d))\<rparr>
       in if q_is_WQ (dram_queue wq d) \<noteq> 0
          then (if d_scheduled_writes d \<noteq> 0 then Inl Assert_failed else Inr d)
          else (if d_scheduled_reads d \<noteq> 0 then Inl Assert_failed else Inr d))"

section \<open>Scheduling\<close>

definition ready_row_hit :: "dram \<Rightarrow> packet \<Rightarrow> bool" where
  "ready_row_hit d e \<longleftrightarrow> p_scheduled e = 0 \<and> p_address e \<noteq> 0 \<and> br_working (d_bank d ! bank_of (p_address e)) = 0 \<and>
     br_open_row (d_bank d ! bank_of (p_address e)) = dram_get_row (p_address e)"

definition ready :: "dram \<Rightarrow> packet \<Rightarrow> bool" where
  "ready d e \<longleftrightarrow> p_scheduled e = 0 \<and> p_address e \<noteq> 0 \<and> br_working (d_bank d ! bank_of (p_address e)) = 0"

text \<open>First ready, first come: row hits before others, the oldest first.\<close>

definition select_request :: "bool \<Rightarrow> dram \<Rightarrow> (nat \<times> u8) option" where
  "select_request wq d =
     (case snd (oldest_entry (ready_row_hit d) (dram_queue wq d)) of
        Some i \<Rightarrow> Some (i, 1)
      | None \<Rightarrow> map_option (\<lambda>i. (i, 0)) (snd (oldest_entry (ready d) (dram_queue wq d))))"

definition schedule :: "dram_env \<Rightarrow> bool \<Rightarrow> dram \<Rightarrow> dram res" where
  "schedule T wq d =
     (case select_request wq d of
        None \<Rightarrow> Inr d
      | Some (i, row_buffer_hit) \<Rightarrow>
          let q = dram_queue wq d; e = q_entry q ! i;
              latency = (if row_buffer_hit \<noteq> 0 then ucast (tCAS T) else ucast (tRP T + tRCD T + tCAS T)) :: u64 in
          if p_cpu e \<ge> NUM_CPUS then Inl Out_of_bounds
          else
            let k = bank_of (p_address e); w = (q_is_WQ q \<noteq> 0);
                b = (d_bank d ! k)\<lparr>br_working := 1, br_working_type := p_type e, br_cycle_available := dram_cycle T + latency,
                      br_request_index := of_nat i, br_row_buffer_hit := row_buffer_hit,
                      br_is_write := (if w then 1 else 0), br_is_read := (if w then 0 else 1),
                      br_open_row := dram_get_row (p_address e)\<rparr>;
                d = d\<lparr>d_bank := (d_bank d)[k := b]\<rparr>;
                d = (if w then d\<lparr>d_scheduled_writes := d_scheduled_writes d + 1\<rparr>
                     else d\<lparr>d_scheduled_reads := d_scheduled_reads d + 1\<rparr>);
                e = e\<lparr>p_scheduled := 1, p_event_cycle := dram_cycle T + latency\<rparr>;
                q = q\<lparr>q_entry := (q_entry q)[i := e]\<rparr>
            in Inr (put_queue wq (update_process_cycle (update_schedule_cycle q)) d))"

section \<open>Processing\<close>

definition release_bank :: "bank_request \<Rightarrow> bank_request" where
  "release_bank b = b\<lparr>br_request_index := - 1, br_row_buffer_hit := 0, br_working := 0, br_is_write := 0, br_is_read := 0\<rparr>"

definition count_row_buffer :: "bank_request \<Rightarrow> packet_queue \<Rightarrow> packet_queue" where
  "count_row_buffer b q =
     (if br_row_buffer_hit b \<noteq> 0 then q\<lparr>q_ROW_BUFFER_HIT := q_ROW_BUFFER_HIT q + 1\<rparr>
      else q\<lparr>q_ROW_BUFFER_MISS := q_ROW_BUFFER_MISS q + 1\<rparr>)"

text \<open>The data bus is free: a write is done, the data of a read goes up; the bank and the slot are freed.\<close>

definition transfer ::
  "dram_env \<Rightarrow> (packet \<Rightarrow> 'w \<Rightarrow> 'w res) \<Rightarrow> bool \<Rightarrow> nat \<Rightarrow> 'w \<times> dram \<Rightarrow> ('w \<times> dram) res" where
  "transfer T ret wq i s =
     (let d = snd s; q = dram_queue wq d; e = q_entry q ! i; k = bank_of (p_address e); b = d_bank d ! k;
          avail = dram_cycle T + ucast (DRAM_DBUS_RETURN_TIME T);
          d = d\<lparr>d_dbus_cycle_available := avail, d_bank := (d_bank d)[k := release_bank b]\<rparr> in
      bind_res
        (if q_is_WQ q \<noteq> 0 then Inr (fst s, q, d\<lparr>d_scheduled_writes := d_scheduled_writes d - 1\<rparr>)
         else
           let e = e\<lparr>p_event_cycle := avail\<rparr> in
           bind_res (ret e (fst s)) (\<lambda>w.
             Inr (w, q\<lparr>q_entry := (q_entry q)[i := e]\<rparr>, d\<lparr>d_scheduled_reads := d_scheduled_reads d - 1\<rparr>)))
        (\<lambda>(w, q, d).
           bind_res (remove_queue (dram_blank T) i (count_row_buffer b q)) (\<lambda>q.
             Inr (w, put_queue wq (update_process_cycle q) d))))"

text \<open>The data bus is busy: the bank waits for it.\<close>

definition congested :: "dram_env \<Rightarrow> packet \<Rightarrow> dram \<Rightarrow> dram res" where
  "congested T e d =
     (let k = bank_of (p_address e); b = d_bank d ! k; wt = unat (br_working_type b); ot = unat (p_type e) in
      bind_res (bump2 NUM_TYPES NUM_TYPES (d_dbus_congested d)) (\<lambda>t.
      bind_res (bump2 NUM_TYPES ot t) (\<lambda>t.
      bind_res (bump2 wt NUM_TYPES t) (\<lambda>t.
      bind_res (bump2 wt ot t) (\<lambda>t.
        Inr (d\<lparr>d_dbus_cycle_congested := d_dbus_cycle_congested d + (d_dbus_cycle_available d - dram_cycle T),
               d_bank := (d_bank d)[k := b\<lparr>br_cycle_available := d_dbus_cycle_available d\<rparr>],
               d_dbus_congested := t\<rparr>))))))"

definition process ::
  "dram_env \<Rightarrow> (packet \<Rightarrow> 'w \<Rightarrow> 'w res) \<Rightarrow> bool \<Rightarrow> 'w \<times> dram \<Rightarrow> ('w \<times> dram) res" where
  "process T ret wq s =
     (let d = snd s; q = dram_queue wq d; i = q_next_process_index q; e = q_entry q ! unat i; b = d_bank d ! bank_of (p_address e) in
      if i = q_SIZE q then Inl Assert_failed
      else if \<not> unat i < length (q_entry q) then Inl Out_of_bounds
      else if br_request_index b \<noteq> i then Inl Assert_failed
      else if p_cpu e \<ge> NUM_CPUS then Inl Out_of_bounds
      else if br_cycle_available b \<le> dram_cycle T then
        if d_dbus_cycle_available d \<le> dram_cycle T then transfer T ret wq (unat i) s
        else bind_res (congested T e d) (\<lambda>d. Inr (fst s, d))
      else Inr s)"

section \<open>A cycle\<close>

definition turn_around :: "dram_env \<Rightarrow> bool \<Rightarrow> dram \<Rightarrow> dram res" where
  "turn_around T wq d =
     bind_res (reset_remain_requests T wq d) (\<lambda>d.
       Inr (d\<lparr>d_dbus_cycle_available := d_dbus_cycle_available d + DRAM_DBUS_TURN_AROUND_TIME\<rparr>))"

definition switch_mode :: "dram_env \<Rightarrow> dram \<Rightarrow> dram res" where
  "switch_mode T d =
     (if d_write_mode d = 0 \<and>
         (q_occupancy (d_WQ d) \<ge> DRAM_WRITE_HIGH_WM \<or> q_occupancy (d_RQ d) = 0 \<and> 0 < q_occupancy (d_WQ d))
      then turn_around T False (d\<lparr>d_write_mode := 1\<rparr>)
      else if d_write_mode d \<noteq> 0 then
        let d = (if q_occupancy (d_WQ d) = 0 then d\<lparr>d_write_mode := 0\<rparr>
                 else if q_occupancy (d_RQ d) \<noteq> 0 \<and> q_occupancy (d_WQ d) < DRAM_WRITE_LOW_WM then d\<lparr>d_write_mode := 0\<rparr> else d)
        in if d_write_mode d = 0 then turn_around T True d else Inr d
      else Inr d)"

text \<open>
  \<^verbatim>\<open>if (next_index < SIZE) if (next_cycle <= current_core_cycle[entry[next_index].cpu])\<close>: the
  test before \<^verbatim>\<open>schedule\<close> and \<^verbatim>\<open>process\<close>.
\<close>

definition due :: "dram_env \<Rightarrow> packet_queue \<Rightarrow> u32 \<Rightarrow> u64 \<Rightarrow> bool res" where
  "due T q i cyc =
     (if \<not> i < q_SIZE q then Inr False
      else if \<not> unat i < length (q_entry q) then Inl Out_of_bounds
      else if p_cpu (q_entry q ! unat i) \<ge> NUM_CPUS then Inl Out_of_bounds
      else Inr (cyc \<le> dram_cycle T))"

definition try_schedule :: "dram_env \<Rightarrow> bool \<Rightarrow> dram \<Rightarrow> dram res" where
  "try_schedule T wq d =
     (if (d_write_mode d \<noteq> 0) = wq then
        bind_res (due T (dram_queue wq d) (q_next_schedule_index (dram_queue wq d)) (q_next_schedule_cycle (dram_queue wq d)))
          (\<lambda>go. if go then schedule T wq d else Inr d)
      else Inr d)"

definition try_process ::
  "dram_env \<Rightarrow> (packet \<Rightarrow> 'w \<Rightarrow> 'w res) \<Rightarrow> bool \<Rightarrow> 'w \<times> dram \<Rightarrow> ('w \<times> dram) res" where
  "try_process T ret wq s =
     (let d = snd s in
      if (d_write_mode d \<noteq> 0) = wq then
        bind_res (due T (dram_queue wq d) (q_next_process_index (dram_queue wq d)) (q_next_process_cycle (dram_queue wq d)))
          (\<lambda>go. if go then process T ret wq s else Inr s)
      else Inr s)"

definition dram_operate :: "dram_env \<Rightarrow> (packet \<Rightarrow> 'w \<Rightarrow> 'w res) \<Rightarrow> 'w \<times> dram \<Rightarrow> ('w \<times> dram) res" where
  "dram_operate T ret s =
     bind_res (switch_mode T (snd s)) (\<lambda>d.
     bind_res (try_schedule T True d) (\<lambda>d.
     bind_res (try_process T ret True (fst s, d)) (\<lambda>(w, d).
     bind_res (try_schedule T False d) (\<lambda>d. try_process T ret False (w, d)))))"

section \<open>Requests\<close>

definition dram_insert :: "packet \<Rightarrow> u32 \<Rightarrow> packet_queue \<Rightarrow> packet_queue option" where
  "dram_insert p n q =
     (case find (\<lambda>i. p_address (q_entry q ! i) = 0) [0..<unat n] of
        None \<Rightarrow> None
      | Some i \<Rightarrow> Some (q\<lparr>q_entry := (q_entry q)[i := p], q_occupancy := q_occupancy q + 1\<rparr>))"

definition dram_return ::
  "(packet \<Rightarrow> 'w \<Rightarrow> 'w res) \<Rightarrow> (packet \<Rightarrow> 'w \<Rightarrow> 'w res) \<Rightarrow> packet \<Rightarrow> 'w \<Rightarrow> 'w res" where
  "dram_return reti ret p w =
     (if p_cpu p \<ge> NUM_CPUS then Inl Out_of_bounds else if p_instruction p \<noteq> 0 then reti p w else ret p w)"

definition dram_add_rq ::
  "dram_env \<Rightarrow> (packet \<Rightarrow> 'w \<Rightarrow> 'w res) \<Rightarrow> (packet \<Rightarrow> 'w \<Rightarrow> 'w res) \<Rightarrow> packet \<Rightarrow> 'w \<times> dram \<Rightarrow> (int \<times> packet \<times> 'w \<times> dram) res" where
  "dram_add_rq T reti ret p s =
     (let d = snd s in
      if ucast (all_warmup_complete T) < NUM_CPUS then
        bind_res (dram_return reti ret p (fst s)) (\<lambda>w. Inr (-1, p, w, d))
      else
        let wq_index = check_dram_queue (d_WQ d) p in
        if wq_index \<noteq> -1 then
          let p = p\<lparr>p_data := p_data (q_entry (d_WQ d) ! nat wq_index)\<rparr> in
          bind_res (dram_return reti ret p (fst s)) (\<lambda>w.
          bind_res (bump 1 (d_ACCESS d)) (\<lambda>a. bind_res (bump 1 (d_HIT d)) (\<lambda>h.
            Inr (-1, p, w, d\<lparr>d_ACCESS := a, d_HIT := h, d_WQ := (d_WQ d)\<lparr>q_FORWARD := q_FORWARD (d_WQ d) + 1\<rparr>,
                             d_RQ := (d_RQ d)\<lparr>q_ACCESS := q_ACCESS (d_RQ d) + 1\<rparr>\<rparr>))))
        else
          let index = check_dram_queue (d_RQ d) p in
          if index \<noteq> -1 then Inr (index, p, s)
          else
            let d = (case dram_insert p DRAM_RQ_SIZE (d_RQ d) of
                       None \<Rightarrow> d | Some q \<Rightarrow> d\<lparr>d_RQ := q, d_rq_enqueue_count := d_rq_enqueue_count d + 1\<rparr>)
            in Inr (-1, p, fst s, d\<lparr>d_RQ := update_schedule_cycle (d_RQ d)\<rparr>))"

definition dram_add_wq :: "dram_env \<Rightarrow> packet \<Rightarrow> dram \<Rightarrow> int \<times> dram" where
  "dram_add_wq T p d =
     (if ucast (all_warmup_complete T) < NUM_CPUS then (-1, d)
      else
        let index = check_dram_queue (d_WQ d) p in
        if index \<noteq> -1 then (index, d)
        else
          let d = (case dram_insert p DRAM_WQ_SIZE (d_WQ d) of None \<Rightarrow> d | Some q \<Rightarrow> d\<lparr>d_WQ := q\<rparr>)
          in (-1, d\<lparr>d_WQ := update_schedule_cycle (d_WQ d)\<rparr>))"

definition dram_add_pq :: "packet \<Rightarrow> dram \<Rightarrow> int \<times> dram" where
  "dram_add_pq p d = (-1, d)"

definition dram_return_data :: "packet \<Rightarrow> dram \<Rightarrow> dram" where
  "dram_return_data p d = d"

definition dram_get_occupancy :: "u8 \<Rightarrow> u64 \<Rightarrow> dram \<Rightarrow> u32" where
  "dram_get_occupancy queue_type address d =
     (if queue_type = 1 then q_occupancy (d_RQ d) else if queue_type = 2 then q_occupancy (d_WQ d) else 0)"

definition dram_get_size :: "u8 \<Rightarrow> u64 \<Rightarrow> dram \<Rightarrow> u32" where
  "dram_get_size queue_type address d =
     (if queue_type = 1 then q_SIZE (d_RQ d) else if queue_type = 2 then q_SIZE (d_WQ d) else 0)"

definition dram_increment_WQ_FULL :: "u64 \<Rightarrow> dram \<Rightarrow> dram" where
  "dram_increment_WQ_FULL address d = d\<lparr>d_WQ := (d_WQ d)\<lparr>q_FULL := q_FULL (d_WQ d) + 1\<rparr>\<rparr>"

end
