(* ===== verification/DramRun.thy ===== *)
theory DramRun
  imports Dram
begin

text \<open>
  The invariant of the memory controller and its consequences: every scheduled request owns
  exactly the bank of its address, the counters count them, only the queue of the current
  direction has any, and so neither the assertions of \<^verbatim>\<open>process\<close> and
  \<^verbatim>\<open>reset_remain_requests\<close> nor an array access can fail.
\<close>

section \<open>The oldest entry\<close>

lemma oldest_scan_spec:
  assumes "oldest_scan P is es m0 = (cyc, r)" "\<forall>i\<in>set is. i < length es"
  shows "cyc \<le> fst m0 \<and>
    ((cyc, r) = m0 \<or> (\<exists>i. r = Some i \<and> i < length es \<and> P (es ! i) \<and> p_event_cycle (es ! i) = cyc \<and> cyc < fst m0)) \<and>
    (\<forall>i\<in>set is. P (es ! i) \<longrightarrow> cyc \<le> p_event_cycle (es ! i))"
  using assms
proof (induction "is" arbitrary: m0)
  case Nil
  then show ?case by simp
next
  case (Cons i "is")
  let ?hit = "P (es ! i) \<and> p_event_cycle (es ! i) < fst m0"
  let ?m = "if ?hit then (p_event_cycle (es ! i), Some i) else m0"
  have IH: "cyc \<le> fst ?m \<and>
    ((cyc, r) = ?m \<or> (\<exists>i. r = Some i \<and> i < length es \<and> P (es ! i) \<and> p_event_cycle (es ! i) = cyc \<and> cyc < fst ?m)) \<and>
    (\<forall>i\<in>set is. P (es ! i) \<longrightarrow> cyc \<le> p_event_cycle (es ! i))"
    using Cons.prems by (intro Cons.IH) auto
  show ?case using IH Cons.prems(2) by (cases ?hit) auto
qed

lemma oldest_entry_spec:
  assumes "oldest_entry P q = (cyc, r)" "length (q_entry q) = unat (q_SIZE q)"
  shows "(case r of None \<Rightarrow> cyc = - 1 | Some i \<Rightarrow> i < length (q_entry q) \<and> P (q_entry q ! i) \<and> p_event_cycle (q_entry q ! i) = cyc)"
    "\<forall>e\<in>set (q_entry q). P e \<longrightarrow> cyc \<le> p_event_cycle e"
proof -
  have "\<forall>i\<in>set [0..<unat (q_SIZE q)]. i < length (q_entry q)" using assms(2) by simp
  note s = oldest_scan_spec [OF assms(1) [unfolded oldest_entry_def] this]
  show "(case r of None \<Rightarrow> cyc = - 1 | Some i \<Rightarrow> i < length (q_entry q) \<and> P (q_entry q ! i) \<and> p_event_cycle (q_entry q ! i) = cyc)"
    using s by auto
  show "\<forall>e\<in>set (q_entry q). P e \<longrightarrow> cyc \<le> p_event_cycle e"
    using s assms(2) by (auto simp: in_set_conv_nth)
qed

section \<open>The invariant\<close>

definition sched :: "packet_queue \<Rightarrow> nat set" where
  "sched q = {i. i < length (q_entry q) \<and> p_scheduled (q_entry q ! i) \<noteq> 0}"

definition entry_ok :: "packet \<Rightarrow> bool" where
  "entry_ok e \<longleftrightarrow> (p_address e = 0 \<longrightarrow> p_scheduled e = 0) \<and>
     (p_address e \<noteq> 0 \<longrightarrow> p_cpu e < NUM_CPUS \<and> unat (p_type e) < NUM_TYPES)"

definition entries_ok :: "packet_queue \<Rightarrow> bool" where
  "entries_ok q \<longleftrightarrow> q_SIZE q = 64 \<and> length (q_entry q) = 64 \<and>
     unat (q_occupancy q) = length (used_entries (q_entry q)) \<and> (\<forall>e\<in>set (q_entry q). entry_ok e)"

definition owns :: "bool \<Rightarrow> nat \<Rightarrow> bank_request \<Rightarrow> bool" where
  "owns wq i b \<longleftrightarrow> br_working b \<noteq> 0 \<and> br_request_index b = of_nat i \<and> (br_is_write b \<noteq> 0) = wq \<and>
     (br_is_read b \<noteq> 0) = (\<not> wq) \<and> unat (br_working_type b) < NUM_TYPES"

definition entry_bank :: "packet_queue \<Rightarrow> nat \<Rightarrow> nat" where
  "entry_bank q i = bank_of (p_address (q_entry q ! i))"

definition banks_ok :: "bool \<Rightarrow> packet_queue \<Rightarrow> bank_request list \<Rightarrow> bool" where
  "banks_ok wq q bs \<longleftrightarrow> (\<forall>i\<in>sched q. owns wq i (bs ! entry_bank q i))"

definition scheduled_count :: "bool \<Rightarrow> dram \<Rightarrow> u32" where
  "scheduled_count wq d = (if wq then d_scheduled_writes d else d_scheduled_reads d)"

definition queue_ok :: "bool \<Rightarrow> dram \<Rightarrow> bool" where
  "queue_ok wq d \<longleftrightarrow> entries_ok (dram_queue wq d) \<and> (q_is_WQ (dram_queue wq d) \<noteq> 0) = wq \<and>
     banks_ok wq (dram_queue wq d) (d_bank d) \<and> unat (scheduled_count wq d) = card (sched (dram_queue wq d))"

definition tables_ok :: "dram \<Rightarrow> bool" where
  "tables_ok d \<longleftrightarrow> length (d_bank d) = 8 \<and> length (d_ACCESS d) = NUM_TYPES \<and> length (d_HIT d) = NUM_TYPES \<and>
     length (d_dbus_congested d) = 5 \<and> (\<forall>r\<in>set (d_dbus_congested d). length r = 5)"

text \<open>The entry scheduled or processed next, when there is one, is really there.\<close>

definition next_ok :: "packet_queue \<Rightarrow> bool" where
  "next_ok q \<longleftrightarrow>
     (q_next_schedule_index q < 64 \<longrightarrow> p_address (q_entry q ! unat (q_next_schedule_index q)) \<noteq> 0 \<and>
        p_scheduled (q_entry q ! unat (q_next_schedule_index q)) = 0) \<and>
     (q_next_process_index q < 64 \<longrightarrow> p_address (q_entry q ! unat (q_next_process_index q)) \<noteq> 0 \<and>
        (q_next_process_cycle q = - 1 \<or> p_scheduled (q_entry q ! unat (q_next_process_index q)) \<noteq> 0))"

definition dram_core :: "dram \<Rightarrow> bool" where
  "dram_core d \<longleftrightarrow> tables_ok d \<and> queue_ok True d \<and> queue_ok False d"

definition dram_ok :: "dram \<Rightarrow> bool" where
  "dram_ok d \<longleftrightarrow> dram_core d \<and> sched (dram_queue (d_write_mode d = 0) d) = {} \<and> next_ok (dram_queue (d_write_mode d \<noteq> 0) d)"

section \<open>Queues and banks\<close>

lemma bank_of_less: "bank_of a < 8"
proof -
  have "dram_get_bank a \<le> 7" unfolding dram_get_bank_def LOG2_DRAM_BANKS_def DRAM_BANKS_def by (simp add: word_and_le1)
  then have "unat (dram_get_bank a) \<le> unat (7::u32)" by (simp only: word_le_nat_alt)
  then show ?thesis by (simp add: bank_of_def)
qed

lemma dram_queue_put [simp]:
  "dram_queue wq (put_queue wq q d) = q" "v \<noteq> wq \<Longrightarrow> dram_queue v (put_queue wq q d) = dram_queue v d"
  "d_bank (put_queue wq q d) = d_bank d" "d_write_mode (put_queue wq q d) = d_write_mode d"
  "scheduled_count v (put_queue wq q d) = scheduled_count v d" "tables_ok (put_queue wq q d) = tables_ok d"
  by (auto simp: dram_queue_def put_queue_def scheduled_count_def tables_ok_def)

lemma entries_okD:
  assumes "entries_ok q"
  shows "length (q_entry q) = 64" "q_SIZE q = 64" "length (q_entry q) = unat (q_SIZE q)"
    "i < 64 \<Longrightarrow> entry_ok (q_entry q ! i)" "unat (q_occupancy q) = length (used_entries (q_entry q))"
  using assms by (auto simp: entries_ok_def)

lemma sched_update:
  assumes "i < length (q_entry q)"
  shows "sched (q\<lparr>q_entry := (q_entry q)[i := e]\<rparr>) = (if p_scheduled e \<noteq> 0 then insert i (sched q) else sched q - {i})"
  using assms by (auto simp: sched_def nth_list_update split: if_splits)

lemma entries_ok_update:
  assumes "entries_ok q" "i < 64" "p_address e = p_address (q_entry q ! i)" "p_cpu e = p_cpu (q_entry q ! i)"
    "p_type e = p_type (q_entry q ! i)" "p_address e = 0 \<longrightarrow> p_scheduled e = 0"
  shows "entries_ok (q\<lparr>q_entry := (q_entry q)[i := e]\<rparr>)"
proof -
  have len: "i < length (q_entry q)" using assms(1,2) by (simp add: entries_ok_def)
  have "length (used_entries ((q_entry q)[i := e])) = length (used_entries (q_entry q))"
    using arg_cong [OF used_entries_same [OF len assms(3)], of length] by simp
  moreover have "entry_ok e" using entries_okD(4) [OF assms(1,2)] assms(3-6) by (simp add: entry_ok_def)
  ultimately show ?thesis using assms(1) set_update_subset_insert [of "q_entry q" i e] by (auto simp: entries_ok_def)
qed

text \<open>Updates of the statistics and of the next indices leave the rest alone.\<close>

lemma update_cycles_frame [simp]:
  "q_entry (update_schedule_cycle q) = q_entry q" "q_entry (update_process_cycle q) = q_entry q"
  "q_SIZE (update_schedule_cycle q) = q_SIZE q" "q_SIZE (update_process_cycle q) = q_SIZE q"
  "q_occupancy (update_schedule_cycle q) = q_occupancy q" "q_occupancy (update_process_cycle q) = q_occupancy q"
  "q_is_WQ (update_schedule_cycle q) = q_is_WQ q" "q_is_WQ (update_process_cycle q) = q_is_WQ q"
  "q_next_process_index (update_schedule_cycle q) = q_next_process_index q"
  "q_next_process_cycle (update_schedule_cycle q) = q_next_process_cycle q"
  "q_next_schedule_index (update_process_cycle q) = q_next_schedule_index q"
  by (simp_all add: update_schedule_cycle_def update_process_cycle_def split: prod.splits)

lemma sched_cong: "q_entry q' = q_entry q \<Longrightarrow> sched q' = sched q"
  by (simp add: sched_def)

lemma entries_ok_cong:
  "q_entry q' = q_entry q \<Longrightarrow> q_SIZE q' = q_SIZE q \<Longrightarrow> q_occupancy q' = q_occupancy q \<Longrightarrow> entries_ok q' = entries_ok q"
  by (simp add: entries_ok_def)

lemma banks_ok_cong: "q_entry q' = q_entry q \<Longrightarrow> banks_ok wq q' bs = banks_ok wq q bs"
  by (simp add: banks_ok_def sched_def entry_bank_def)

lemma index_or_size_less:
  assumes "entries_ok q" "index_or_size q m < 64" "case m of None \<Rightarrow> True | Some i \<Rightarrow> i < 64"
  shows "\<exists>i. m = Some i \<and> unat (index_or_size q m) = i \<and> i < 64"
  using assms by (cases m) (auto simp: index_or_size_def entries_ok_def unat_of_nat take_bit_nat_eq_self)

text \<open>After both updates the next indices are right.\<close>

lemma update_schedule_next:
  assumes "entries_ok q" "q' = update_schedule_cycle q" "q_next_schedule_index q' < 64"
  shows "p_address (q_entry q ! unat (q_next_schedule_index q')) \<noteq> 0 \<and> p_scheduled (q_entry q ! unat (q_next_schedule_index q')) = 0"
proof -
  obtain cyc m where m: "oldest_entry (\<lambda>e. p_address e \<noteq> 0 \<and> p_scheduled e = 0) q = (cyc, m)" by force
  have "case m of None \<Rightarrow> True | Some i \<Rightarrow> i < 64 \<and> p_address (q_entry q ! i) \<noteq> 0 \<and> p_scheduled (q_entry q ! i) = 0"
    using oldest_entry_spec(1) [OF m entries_okD(3) [OF assms(1)]] entries_okD(1) [OF assms(1)] by (auto split: option.splits)
  moreover have "q_next_schedule_index q' = index_or_size q m" using m by (simp add: assms(2) update_schedule_cycle_def)
  ultimately show ?thesis using index_or_size_less [OF assms(1), of m] assms(3) by (auto split: option.splits)
qed

lemma update_process_next:
  assumes "entries_ok q" "q' = update_process_cycle q" "q_next_process_index q' < 64"
  shows "p_scheduled (q_entry q ! unat (q_next_process_index q')) \<noteq> 0 \<and> unat (q_next_process_index q') < 64"
proof -
  obtain cyc m where m: "oldest_entry (\<lambda>e. p_scheduled e \<noteq> 0) q = (cyc, m)" by force
  have "case m of None \<Rightarrow> True | Some i \<Rightarrow> i < 64 \<and> p_scheduled (q_entry q ! i) \<noteq> 0"
    using oldest_entry_spec(1) [OF m entries_okD(3) [OF assms(1)]] entries_okD(1) [OF assms(1)] by (auto split: option.splits)
  moreover have "q_next_process_index q' = index_or_size q m" using m by (simp add: assms(2) update_process_cycle_def)
  ultimately show ?thesis using index_or_size_less [OF assms(1), of m] assms(3) by (auto split: option.splits)
qed

lemma next_ok_both:
  assumes "entries_ok q"
  shows "next_ok (update_process_cycle (update_schedule_cycle q))"
proof -
  let ?s = "update_schedule_cycle q"
  have s: "entries_ok ?s" using assms entries_ok_cong [of ?s q] by simp
  have "p_address (q_entry q ! unat (q_next_process_index (update_process_cycle ?s))) \<noteq> 0"
    if "q_next_process_index (update_process_cycle ?s) < 64"
    using update_process_next [OF s refl that] entries_okD(4) [OF assms] by (fastforce simp: entry_ok_def)
  then show ?thesis
    using update_schedule_next [OF assms refl] update_process_next [OF s refl] by (auto simp: next_ok_def)
qed

text \<open>A bank belongs to one scheduled entry.\<close>

lemma owns_inj: "owns wq i b \<Longrightarrow> owns wq j b \<Longrightarrow> i < 64 \<Longrightarrow> j < 64 \<Longrightarrow> i = j"
  by (auto simp: owns_def word_of_nat_eq_iff take_bit_nat_eq_self)

lemma entry_bank_less: "entry_bank q i < 8"
  by (simp add: entry_bank_def bank_of_less)

lemma banks_ok_release:
  assumes "banks_ok wq q bs" "i \<in> sched q" "entries_ok q" "p_scheduled e = 0" "q_entry q' = (q_entry q)[i := e]"
  shows "banks_ok wq q' (bs[entry_bank q i := b])"
  unfolding banks_ok_def
proof
  fix j assume "j \<in> sched q'"
  then have j: "j \<in> sched q" "j \<noteq> i" "q_entry q' ! j = q_entry q ! j"
    using assms(2,4,5) by (auto simp: sched_def nth_list_update split: if_splits)
  have "i < 64" "j < 64" using assms(2,3) j(1) by (simp_all add: sched_def entries_ok_def)
  moreover have "owns wq i (bs ! entry_bank q i)" "owns wq j (bs ! entry_bank q j)"
    using assms(1,2) j(1) by (simp_all add: banks_ok_def)
  ultimately have "entry_bank q j \<noteq> entry_bank q i" using owns_inj j(2) by metis
  then show "owns wq j (bs[entry_bank q i := b] ! entry_bank q' j)"
    using assms(1) j by (simp add: banks_ok_def entry_bank_def)
qed

lemma queue_ok_idle: "sched (dram_queue wq d) = {} \<Longrightarrow> queue_ok wq d \<longleftrightarrow>
    entries_ok (dram_queue wq d) \<and> (q_is_WQ (dram_queue wq d) \<noteq> 0) = wq \<and> scheduled_count wq d = 0"
  by (auto simp: queue_ok_def banks_ok_def unat_eq_0)

lemma dram_core_split: "dram_core d \<longleftrightarrow> tables_ok d \<and> queue_ok wq d \<and> queue_ok (\<not> wq) d"
  by (cases wq) (auto simp: dram_core_def)

lemma sched_finite [simp]: "finite (sched q)"
  by (simp add: sched_def)

section \<open>Reset\<close>

lemma reset_entry_ok:
  assumes "dram_core d" "sched (dram_queue (\<not> wq) d) = {}" "i < 64"
  shows "\<exists>d'. reset_entry T wq i d = Inr d' \<and> dram_core d' \<and> sched (dram_queue wq d') = sched (dram_queue wq d) - {i} \<and>
    dram_queue (\<not> wq) d' = dram_queue (\<not> wq) d \<and> d_write_mode d' = d_write_mode d"
proof (cases "p_scheduled (q_entry (dram_queue wq d) ! i) = 0")
  case True
  then have "i \<notin> sched (dram_queue wq d)" by (simp add: sched_def)
  then show ?thesis using True assms(1) by (simp add: reset_entry_def)
next
  case False
  let ?q = "dram_queue wq d" and ?e = "q_entry (dram_queue wq d) ! i"
  let ?k = "entry_bank ?q i" and ?e' = "?e\<lparr>p_scheduled := 0, p_event_cycle := dram_cycle T\<rparr>"
  let ?q' = "?q\<lparr>q_entry := (q_entry ?q)[i := ?e']\<rparr>"
  have q: "tables_ok d" "entries_ok ?q" "(q_is_WQ ?q \<noteq> 0) = wq" "banks_ok wq ?q (d_bank d)"
    "unat (scheduled_count wq d) = card (sched ?q)"
    using assms(1) dram_core_split [of d wq] by (simp_all add: queue_ok_def)
  have i: "i \<in> sched ?q" using False assms(3) entries_okD(1) [OF q(2)] by (simp add: sched_def)
  have e: "p_address ?e \<noteq> 0" "\<not> p_cpu ?e \<ge> NUM_CPUS"
    using entries_okD(4) [OF q(2) assms(3)] False by (auto simp: entry_ok_def not_le)
  have own: "owns wq i (d_bank d ! ?k)" using q(4) i by (simp add: banks_ok_def)
  define d1 where "d1 = (if wq then d\<lparr>d_scheduled_writes := d_scheduled_writes d - 1\<rparr> else d\<lparr>d_scheduled_reads := d_scheduled_reads d - 1\<rparr>)
    \<lparr>d_bank := (d_bank d)[?k := reset_bank T (p_address ?e) (d_bank d ! ?k)]\<rparr>"
  have step: "reset_entry T wq i d = Inr (put_queue wq ?q' d1)"
    using False e own by (auto simp: reset_entry_def Let_def d1_def owns_def entry_bank_def)
  have d1: "tables_ok d1" "d_write_mode d1 = d_write_mode d" "dram_queue v d1 = dram_queue v d"
    "d_bank d1 = (d_bank d)[?k := reset_bank T (p_address ?e) (d_bank d ! ?k)]"
    "scheduled_count v d1 = (if v = wq then scheduled_count wq d - 1 else scheduled_count v d)" for v
    using q(1) by (auto simp: d1_def tables_ok_def dram_queue_def scheduled_count_def)
  have sched': "sched ?q' = sched ?q - {i}" using sched_update [of i ?q ?e'] assms(3) entries_okD(1) [OF q(2)] by simp
  have "entries_ok ?q'" using e by (intro entries_ok_update [OF q(2) assms(3)]) simp_all
  moreover have "banks_ok wq ?q' (d_bank d1)" unfolding d1(4) by (rule banks_ok_release [OF q(4) i q(2)]) simp_all
  moreover have "unat (scheduled_count wq d - 1) = card (sched ?q - {i})"
  proof -
    have "card (sched ?q) \<noteq> 0" using i by auto
    then have "scheduled_count wq d \<noteq> 0" using q(5) by auto
    then show ?thesis using q(5) i by (simp add: unat_minus_one)
  qed
  ultimately have "queue_ok wq (put_queue wq ?q' d1)" using q(3) d1(5) sched' by (simp add: queue_ok_def)
  moreover have "queue_ok (\<not> wq) (put_queue wq ?q' d1)"
    using assms(1,2) dram_core_split [of d wq] d1(3,5) by (simp add: queue_ok_idle)
  ultimately have "dram_core (put_queue wq ?q' d1)" using dram_core_split [of _ wq] d1(1) by simp
  then show ?thesis using step sched' d1(2,3) by simp
qed

lemma reset_loop_ok:
  assumes "dram_core d" "sched (dram_queue (\<not> wq) d) = {}" "\<forall>i\<in>set is. i < 64"
  shows "\<exists>d'. reset_loop T wq is d = Inr d' \<and> dram_core d' \<and> sched (dram_queue wq d') = sched (dram_queue wq d) - set is \<and>
    dram_queue (\<not> wq) d' = dram_queue (\<not> wq) d \<and> d_write_mode d' = d_write_mode d"
  using assms
proof (induction "is" arbitrary: d)
  case Nil
  then show ?case by simp
next
  case (Cons i "is")
  obtain d1 where d1: "reset_entry T wq i d = Inr d1" "dram_core d1" "sched (dram_queue wq d1) = sched (dram_queue wq d) - {i}"
    "dram_queue (\<not> wq) d1 = dram_queue (\<not> wq) d" "d_write_mode d1 = d_write_mode d"
    using reset_entry_ok [OF Cons.prems(1,2), of i T] Cons.prems(3) by auto
  obtain d2 where d2: "reset_loop T wq is d1 = Inr d2" "dram_core d2"
    "sched (dram_queue wq d2) = sched (dram_queue wq d1) - set is"
    "dram_queue (\<not> wq) d2 = dram_queue (\<not> wq) d1" "d_write_mode d2 = d_write_mode d1"
    using Cons.IH [OF d1(2)] Cons.prems(2,3) d1(4) by auto
  have "sched (dram_queue wq d2) = sched (dram_queue wq d) - set (i # is)" using d1(3) d2(3) by auto
  then show ?case using d1 d2 by simp
qed

text \<open>Recomputing the next indices of both queues.\<close>

definition refresh :: "dram \<Rightarrow> dram" where
  "refresh d = d\<lparr>d_RQ := update_process_cycle (update_schedule_cycle (d_RQ d)),
                 d_WQ := update_process_cycle (update_schedule_cycle (d_WQ d))\<rparr>"

lemma refresh_queue: "dram_queue wq (refresh d) = update_process_cycle (update_schedule_cycle (dram_queue wq d))"
  by (simp add: refresh_def dram_queue_def)

lemma refresh_frame [simp]:
  "d_bank (refresh d) = d_bank d" "scheduled_count wq (refresh d) = scheduled_count wq d" "tables_ok (refresh d) = tables_ok d"
  "d_write_mode (refresh d) = d_write_mode d"
  by (simp_all add: refresh_def scheduled_count_def tables_ok_def)

lemma queue_ok_update:
  assumes "q_entry q' = q_entry (dram_queue wq d)" "q_SIZE q' = q_SIZE (dram_queue wq d)"
    "q_occupancy q' = q_occupancy (dram_queue wq d)" "q_is_WQ q' = q_is_WQ (dram_queue wq d)"
    "dram_queue wq d' = q'" "d_bank d' = d_bank d" "scheduled_count wq d' = scheduled_count wq d"
  shows "queue_ok wq d' = queue_ok wq d"
  using assms entries_ok_cong [OF assms(1-3)] banks_ok_cong [OF assms(1)] sched_cong [OF assms(1)] by (simp add: queue_ok_def)

lemma refresh_ok: "dram_core (refresh d) = dram_core d" "sched (dram_queue wq (refresh d)) = sched (dram_queue wq d)"
proof -
  have "queue_ok v (refresh d) = queue_ok v d" for v by (rule queue_ok_update [OF _ _ _ _ refresh_queue]) simp_all
  then show "dram_core (refresh d) = dram_core d" by (simp add: dram_core_def)
  show "sched (dram_queue wq (refresh d)) = sched (dram_queue wq d)" by (rule sched_cong) (simp add: refresh_queue)
qed

lemma reset_remain_requests_ok:
  assumes "dram_core d" "sched (dram_queue (\<not> wq) d) = {}"
  shows "\<exists>d'. reset_remain_requests T wq d = Inr d' \<and> dram_core d' \<and> (\<forall>v. sched (dram_queue v d') = {}) \<and>
    (\<forall>v. next_ok (dram_queue v d')) \<and> d_write_mode d' = d_write_mode d"
proof -
  have q: "entries_ok (dram_queue wq d)" using assms(1) dram_core_split [of d wq] by (simp add: queue_ok_def)
  have "\<forall>i\<in>set [0..<unat (q_SIZE (dram_queue wq d))]. i < 64" using entries_okD(2) [OF q] by simp
  from reset_loop_ok [OF assms this, of T] obtain d1 where d1: "reset_loop T wq [0..<unat (q_SIZE (dram_queue wq d))] d = Inr d1" "dram_core d1"
    "sched (dram_queue wq d1) = sched (dram_queue wq d) - {0..<unat (q_SIZE (dram_queue wq d))}"
    "dram_queue (\<not> wq) d1 = dram_queue (\<not> wq) d" "d_write_mode d1 = d_write_mode d"
    by (auto simp only: set_upt)
  have "sched (dram_queue wq d) \<subseteq> {0..<unat (q_SIZE (dram_queue wq d))}"
    unfolding sched_def entries_okD(3) [OF q] by auto
  then have "sched (dram_queue wq d1) = {}" using d1(3) by blast
  then have idle: "sched (dram_queue v (refresh d1)) = {}" for v
    using refresh_ok(2) d1(4) assms(2) by (cases "v = wq") auto
  have core: "dram_core (refresh d1)" using d1(2) refresh_ok(1) by simp
  then have qv: "queue_ok v (refresh d1)" for v using dram_core_split [of "refresh d1" v] by simp
  have entries: "entries_ok (dram_queue v d1)" for v using d1(2) dram_core_split [of d1 v] by (simp add: queue_ok_def)
  have zero: "scheduled_count v (refresh d1) = 0" for v using qv [of v] idle [of v] by (simp add: queue_ok_idle)
  have "d_scheduled_writes (refresh d1) = 0" "d_scheduled_reads (refresh d1) = 0"
    using zero [of True] zero [of False] by (simp_all add: scheduled_count_def)
  then have "reset_remain_requests T wq d = Inr (refresh d1)"
    using d1(1) by (simp add: reset_remain_requests_def Let_def refresh_def)
  moreover have "next_ok (dram_queue v (refresh d1))" for v unfolding refresh_queue by (rule next_ok_both [OF entries])
  ultimately show ?thesis using core idle d1(5) by simp
qed

lemma bus_frame: "dram_queue v (d\<lparr>d_dbus_cycle_available := x\<rparr>) = dram_queue v d" "dram_core (d\<lparr>d_dbus_cycle_available := x\<rparr>) = dram_core d"
    "dram_queue v (d\<lparr>d_write_mode := m\<rparr>) = dram_queue v d" "dram_core (d\<lparr>d_write_mode := m\<rparr>) = dram_core d"
  by (auto simp: dram_queue_def dram_core_def tables_ok_def queue_ok_def scheduled_count_def)

lemma turn_around_ok:
  assumes "dram_core d" "sched (dram_queue (\<not> wq) d) = {}"
  shows "\<exists>d'. turn_around T wq d = Inr d' \<and> dram_ok d'"
proof -
  obtain d' where "reset_remain_requests T wq d = Inr d'" "dram_core d'" "\<forall>v. sched (dram_queue v d') = {}" "\<forall>v. next_ok (dram_queue v d')"
    using reset_remain_requests_ok [OF assms] by blast
  then show ?thesis by (simp add: turn_around_def dram_ok_def bus_frame)
qed

lemma switch_mode_ok:
  assumes "dram_ok d"
  shows "\<exists>d'. switch_mode T d = Inr d' \<and> dram_ok d'"
proof -
  have core: "dram_core d" and idle: "sched (dram_queue (d_write_mode d = 0) d) = {}" using assms by (simp_all add: dram_ok_def)
  have T0: "\<exists>d'. turn_around T False (d\<lparr>d_write_mode := 1\<rparr>) = Inr d' \<and> dram_ok d'" if "d_write_mode d = 0"
    using turn_around_ok [of "d\<lparr>d_write_mode := 1\<rparr>" False T] core idle that by (simp add: bus_frame)
  have T1: "\<exists>d'. turn_around T True (d\<lparr>d_write_mode := 0\<rparr>) = Inr d' \<and> dram_ok d'" if "d_write_mode d \<noteq> 0"
    using turn_around_ok [of "d\<lparr>d_write_mode := 0\<rparr>" True T] core idle that by (simp add: bus_frame)
  show ?thesis using T0 T1 assms by (simp add: switch_mode_def Let_def)
qed

section \<open>Scheduling\<close>

lemma select_request_Some:
  assumes "select_request wq d = Some (i, h)" "entries_ok (dram_queue wq d)"
  shows "i < 64" "ready d (q_entry (dram_queue wq d) ! i)"
proof -
  let ?q = "dram_queue wq d"
  obtain c1 m1 c2 m2 where m: "oldest_entry (ready_row_hit d) ?q = (c1, m1)" "oldest_entry (ready d) ?q = (c2, m2)" by force
  have "m1 = Some i \<or> m2 = Some i" using assms(1) m by (auto simp: select_request_def split: option.splits)
  moreover have "m1 = Some i \<Longrightarrow> i < 64 \<and> ready_row_hit d (q_entry ?q ! i)"
    using oldest_entry_spec(1) [OF m(1) entries_okD(3) [OF assms(2)]] entries_okD(1) [OF assms(2)] by simp
  moreover have "m2 = Some i \<Longrightarrow> i < 64 \<and> ready d (q_entry ?q ! i)"
    using oldest_entry_spec(1) [OF m(2) entries_okD(3) [OF assms(2)]] entries_okD(1) [OF assms(2)] by simp
  ultimately show "i < 64" "ready d (q_entry ?q ! i)" by (auto simp: ready_def ready_row_hit_def)
qed

lemma banks_ok_claim:
  assumes "banks_ok wq q bs" "entries_ok q" "i < 64" "length bs = 8" "br_working (bs ! entry_bank q i) = 0"
    and "owns wq i b" "p_address e = p_address (q_entry q ! i)"
  shows "banks_ok wq (q\<lparr>q_entry := (q_entry q)[i := e]\<rparr>) (bs[entry_bank q i := b])"
  unfolding banks_ok_def
proof
  let ?q = "q\<lparr>q_entry := (q_entry q)[i := e]\<rparr>"
  have same: "entry_bank ?q j = entry_bank q j" for j
    using assms(2,3,7) by (cases "j = i") (simp_all add: entry_bank_def entries_ok_def)
  fix j assume j: "j \<in> sched ?q"
  show "owns wq j (bs[entry_bank q i := b] ! entry_bank ?q j)"
  proof (cases "j = i")
    case True
    then show ?thesis using assms(4,6) entry_bank_less [of q i] same by simp
  next
    case False
    then have "j \<in> sched q" using j by (auto simp: sched_def)
    then have own: "owns wq j (bs ! entry_bank q j)" using assms(1) by (simp add: banks_ok_def)
    then have "entry_bank q j \<noteq> entry_bank q i" using assms(5) by (auto simp: owns_def)
    then show ?thesis using own same by simp
  qed
qed

lemma schedule_ok:
  assumes "dram_core d" "sched (dram_queue (\<not> wq) d) = {}" "next_ok (dram_queue wq d)"
  shows "\<exists>d'. schedule T wq d = Inr d' \<and> dram_core d' \<and> sched (dram_queue (\<not> wq) d') = {} \<and>
    next_ok (dram_queue wq d') \<and> d_write_mode d' = d_write_mode d"
proof (cases "select_request wq d")
  case None
  then show ?thesis using assms by (simp add: schedule_def)
next
  case (Some ih)
  then obtain i h where sel: "select_request wq d = Some (i, h)" by (cases ih) auto
  let ?q = "dram_queue wq d" and ?e = "q_entry (dram_queue wq d) ! i"
  let ?k = "entry_bank ?q i" and ?lat = "if h \<noteq> 0 then ucast (tCAS T) else ucast (tRP T + tRCD T + tCAS T) :: u64"
  let ?b = "(d_bank d ! ?k)\<lparr>br_working := 1, br_working_type := p_type ?e, br_cycle_available := dram_cycle T + ?lat,
    br_request_index := of_nat i, br_row_buffer_hit := h, br_is_write := (if wq then 1 else 0),
    br_is_read := (if wq then 0 else 1), br_open_row := dram_get_row (p_address ?e)\<rparr>"
  let ?e' = "?e\<lparr>p_scheduled := 1, p_event_cycle := dram_cycle T + ?lat\<rparr>"
  let ?q' = "?q\<lparr>q_entry := (q_entry ?q)[i := ?e']\<rparr>"
  have q: "tables_ok d" "entries_ok ?q" "(q_is_WQ ?q \<noteq> 0) = wq" "banks_ok wq ?q (d_bank d)"
    "unat (scheduled_count wq d) = card (sched ?q)"
    using assms(1) dram_core_split [of d wq] by (simp_all add: queue_ok_def)
  note i = select_request_Some [OF sel q(2)]
  have e: "p_address ?e \<noteq> 0" "p_scheduled ?e = 0" "\<not> p_cpu ?e \<ge> NUM_CPUS" "unat (p_type ?e) < NUM_TYPES" "br_working (d_bank d ! ?k) = 0"
    using entries_okD(4) [OF q(2) i(1)] i(2) by (auto simp: entry_ok_def ready_def entry_bank_def not_le)
  define d1 where "d1 = (if wq then d\<lparr>d_bank := (d_bank d)[?k := ?b], d_scheduled_writes := d_scheduled_writes d + 1\<rparr>
    else d\<lparr>d_bank := (d_bank d)[?k := ?b], d_scheduled_reads := d_scheduled_reads d + 1\<rparr>)"
  define q2 where "q2 = update_process_cycle (update_schedule_cycle ?q')"
  have step: "schedule T wq d = Inr (put_queue wq q2 d1)"
    using sel e(3) q(3) by (cases wq) (simp_all add: schedule_def Let_def d1_def q2_def entry_bank_def)
  have d1: "tables_ok d1" "d_write_mode d1 = d_write_mode d" "dram_queue v d1 = dram_queue v d"
    "d_bank d1 = (d_bank d)[?k := ?b]"
    "scheduled_count v d1 = (if v = wq then scheduled_count wq d + 1 else scheduled_count v d)" for v
    using q(1) by (auto simp: d1_def tables_ok_def dram_queue_def scheduled_count_def)
  have len: "i < length (q_entry ?q)" using i(1) entries_okD(1) [OF q(2)] by simp
  have sched': "sched ?q' = insert i (sched ?q)" "i \<notin> sched ?q" using sched_update [OF len, of ?e'] e(2) by (simp_all add: sched_def)
  have ent: "entries_ok ?q'" using e by (intro entries_ok_update [OF q(2) i(1)]) simp_all
  have "owns wq i ?b" using e(4) by (simp add: owns_def)
  then have bk: "banks_ok wq ?q' (d_bank d1)"
    unfolding d1(4) using q(1) e(5) by (intro banks_ok_claim [OF q(4,2) i(1)]) (simp_all add: tables_ok_def)
  have "sched ?q \<subseteq> {0..<64} - {i}" using sched'(2) entries_okD(1) [OF q(2)] by (auto simp: sched_def)
  then have "card (sched ?q) < 64" using card_mono [of "{0..<64} - {i}" "sched ?q"] i(1) by simp
  then have cnt: "unat (scheduled_count wq d + 1) = card (sched ?q')"
    using q(5) sched' by (simp add: unat_word_ariths)
  have q2: "q_entry q2 = q_entry ?q'" "q_SIZE q2 = q_SIZE ?q'" "q_occupancy q2 = q_occupancy ?q'" "q_is_WQ q2 = q_is_WQ ?q'"
    by (simp_all add: q2_def)
  have "queue_ok wq (put_queue wq q2 d1)"
    using ent bk cnt q(3) d1(5) q2(4) entries_ok_cong [OF q2(1-3)] banks_ok_cong [OF q2(1)] sched_cong [OF q2(1)]
    by (simp add: queue_ok_def)
  moreover have "queue_ok (\<not> wq) (put_queue wq q2 d1)"
    using assms(1,2) dram_core_split [of d wq] d1(3,5) by (simp add: queue_ok_idle)
  ultimately have "dram_core (put_queue wq q2 d1)" using dram_core_split [of _ wq] d1(1) by simp
  moreover have "next_ok q2" unfolding q2_def by (rule next_ok_both [OF ent])
  ultimately show ?thesis using step assms(2) d1(2,3) by simp
qed

section \<open>Processing\<close>

lemma bump2_ok:
  assumes "length t = 5" "\<forall>r\<in>set t. length r = 5" "i < 5" "j < 5"
  shows "\<exists>t'. bump2 i j t = Inr t' \<and> length t' = 5 \<and> (\<forall>r\<in>set t'. length r = 5)"
  using assms set_update_subset_insert [of t i "(t ! i)[j := t ! i ! j + 1]"] nth_mem [of i t]
  by (auto simp: bump2_def)

lemma congested_ok:
  assumes "dram_core d" "i \<in> sched (dram_queue wq d)" "e = q_entry (dram_queue wq d) ! i" "sched (dram_queue (\<not> wq) d) = {}"
  shows "\<exists>d'. congested T e d = Inr d' \<and> dram_core d' \<and> (\<forall>v. dram_queue v d' = dram_queue v d) \<and> d_write_mode d' = d_write_mode d"
proof -
  let ?q = "dram_queue wq d" and ?k = "bank_of (p_address e)" and ?b = "d_bank d ! bank_of (p_address e)"
  have q: "tables_ok d" "entries_ok ?q" "banks_ok wq ?q (d_bank d)" "queue_ok wq d" "queue_ok (\<not> wq) d"
    using assms(1) dram_core_split [of d wq] by (simp_all add: queue_ok_def)
  have i: "i < 64" "p_scheduled e \<noteq> 0" using assms(2,3) entries_okD(1) [OF q(2)] by (simp_all add: sched_def)
  have ty: "unat (p_type e) < 5" using entries_okD(4) [OF q(2) i(1)] i(2) assms(3) by (auto simp: entry_ok_def NUM_TYPES_def)
  have own: "owns wq i ?b" using q(3) assms(2,3) by (simp add: banks_ok_def entry_bank_def)
  then have wt: "unat (br_working_type ?b) < 5" by (simp add: owns_def NUM_TYPES_def)
  have T: "length (d_dbus_congested d) = 5" "\<forall>r\<in>set (d_dbus_congested d). length r = 5" using q(1) by (simp_all add: tables_ok_def)
  have n: "NUM_TYPES < 5" by (simp add: NUM_TYPES_def)
  obtain t1 where t1: "bump2 NUM_TYPES NUM_TYPES (d_dbus_congested d) = Inr t1" "length t1 = 5" "\<forall>r\<in>set t1. length r = 5"
    using bump2_ok [OF T n n] by blast
  obtain t2 where t2: "bump2 NUM_TYPES (unat (p_type e)) t1 = Inr t2" "length t2 = 5" "\<forall>r\<in>set t2. length r = 5"
    using bump2_ok [OF t1(2,3) n ty] by blast
  obtain t3 where t3: "bump2 (unat (br_working_type ?b)) NUM_TYPES t2 = Inr t3" "length t3 = 5" "\<forall>r\<in>set t3. length r = 5"
    using bump2_ok [OF t2(2,3) wt n] by blast
  obtain t4 where t4: "bump2 (unat (br_working_type ?b)) (unat (p_type e)) t3 = Inr t4" "length t4 = 5" "\<forall>r\<in>set t4. length r = 5"
    using bump2_ok [OF t3(2,3) wt ty] by blast
  let ?d = "d\<lparr>d_dbus_cycle_congested := d_dbus_cycle_congested d + (d_dbus_cycle_available d - dram_cycle T),
    d_bank := (d_bank d)[?k := ?b\<lparr>br_cycle_available := d_dbus_cycle_available d\<rparr>], d_dbus_congested := t4\<rparr>"
  have step: "congested T e d = Inr ?d" using t1(1) t2(1) t3(1) t4(1) by (simp add: congested_def Let_def)
  have dq: "dram_queue v ?d = dram_queue v d" and sc: "scheduled_count v ?d = scheduled_count v d" for v
    by (simp_all add: dram_queue_def scheduled_count_def)
  have "banks_ok wq ?q (d_bank ?d)"
    using q(1,3) bank_of_less [of "p_address e"]
    by (auto simp: banks_ok_def tables_ok_def nth_list_update owns_def)
  then have "queue_ok wq ?d" using q(4) dq sc by (simp add: queue_ok_def)
  moreover have "queue_ok (\<not> wq) ?d" using q(5) dq sc assms(4) by (simp add: queue_ok_idle)
  moreover have "tables_ok ?d" using q(1) t4(2,3) by (simp add: tables_ok_def)
  ultimately have "dram_core ?d" using dram_core_split [of ?d wq] by blast
  then show ?thesis using step dq by simp
qed

text \<open>Removing the processed entry.\<close>

lemma remove_entry_ok:
  assumes "entries_ok q" "i \<in> sched q" "q_entry q0 = (q_entry q)[i := e]" "q_SIZE q0 = q_SIZE q" "q_occupancy q0 = q_occupancy q"
  shows "\<exists>q'. remove_queue raw i q0 = Inr q' \<and> entries_ok q' \<and> q_entry q' = (q_entry q)[i := PACKET_init raw] \<and>
    q_is_WQ q' = q_is_WQ q0 \<and> sched q' = sched q - {i} \<and>
    q_next_schedule_index q' = q_next_schedule_index q0"
proof -
  let ?es = "(q_entry q)[i := PACKET_init raw]"
  have zero: "p_address (PACKET_init raw) = 0" "p_scheduled (PACKET_init raw) = 0" by (simp_all add: PACKET_init_def)
  have i: "i < length (q_entry q)" "i < 64" "p_scheduled (q_entry q ! i) \<noteq> 0"
    using assms(2) entries_okD(1) [OF assms(1)] by (simp_all add: sched_def)
  have "p_address (q_entry q ! i) \<noteq> 0" using entries_okD(4) [OF assms(1) i(2)] i(3) by (auto simp: entry_ok_def)
  then have ms: "mset (used_entries (q_entry q)) = add_mset (q_entry q ! i) (mset (used_entries ?es))"
    using i(1) zero by (intro used_entries_free) auto
  have occ: "unat (q_occupancy q) = Suc (length (used_entries ?es))"
    using length_add_mset [OF ms] entries_okD(5) [OF assms(1)] by simp
  then have "q_occupancy q \<noteq> 0" by auto
  then have occ': "unat (q_occupancy q - 1) = length (used_entries ?es)" using occ by (simp add: unat_minus_one)
  obtain q' where q': "remove_queue raw i q0 = Inr q'" "q_entry q' = ?es" "q_occupancy q' = q_occupancy q - 1"
    "q_SIZE q' = q_SIZE q" "q_is_WQ q' = q_is_WQ q0" "q_next_schedule_index q' = q_next_schedule_index q0"
    using \<open>q_occupancy q \<noteq> 0\<close> assms(3-5) i(1) by (simp add: remove_queue_def Let_def)
  have "entry_ok (PACKET_init raw)" using zero by (simp add: entry_ok_def)
  then have "entries_ok q'"
    using assms(1) q'(2-4) occ' set_update_subset_insert [of "q_entry q" i "PACKET_init raw"] by (auto simp: entries_ok_def)
  moreover have "sched q' = sched q - {i}" using q'(2) i(1) zero by (auto simp: sched_def nth_list_update split: if_splits)
  ultimately show ?thesis using q' by blast
qed

lemma count_row_buffer_frame [simp]:
  "q_entry (count_row_buffer b q) = q_entry q" "q_SIZE (count_row_buffer b q) = q_SIZE q"
  "q_occupancy (count_row_buffer b q) = q_occupancy q" "q_is_WQ (count_row_buffer b q) = q_is_WQ q"
  "q_next_schedule_index (count_row_buffer b q) = q_next_schedule_index q"
  by (simp_all add: count_row_buffer_def)

lemma next_ok_process:
  assumes "entries_ok q'" "q_entry q' = (q_entry q)[i := e]" "next_ok q" "p_scheduled (q_entry q ! i) \<noteq> 0" "length (q_entry q) = 64"
    "q_next_schedule_index q' = q_next_schedule_index q"
  shows "next_ok (update_process_cycle q')"
proof -
  have "p_address (q_entry q' ! unat (q_next_process_index (update_process_cycle q'))) \<noteq> 0"
    if "q_next_process_index (update_process_cycle q') < 64"
    using update_process_next [OF assms(1) refl that] entries_okD(4) [OF assms(1)] by (fastforce simp: entry_ok_def)
  moreover have "q_next_schedule_index q < 64 \<Longrightarrow> unat (q_next_schedule_index q) \<noteq> i"
    using assms(3,4) by (auto simp: next_ok_def)
  ultimately show ?thesis
    using update_process_next [OF assms(1) refl] assms(2,3,6) by (auto simp: next_ok_def)
qed

section \<open>The level above\<close>

text \<open>Every pending read is one of the lines \<open>W\<close> that the level above waits for.\<close>

definition reads_expected :: "u64 set \<Rightarrow> dram \<Rightarrow> bool" where
  "reads_expected W d \<longleftrightarrow> (\<forall>e\<in>set (q_entry (d_RQ d)). p_address e \<noteq> 0 \<longrightarrow> p_address e \<in> W)"

lemma reads_expected_iff: "reads_expected W d \<longleftrightarrow> (\<forall>a\<in>set (map p_address (q_entry (d_RQ d))). a \<noteq> 0 \<longrightarrow> a \<in> W)"
  by (simp add: reads_expected_def)

lemma reads_expected_reads: "map p_address (q_entry (d_RQ d')) = map p_address (q_entry (d_RQ d)) \<Longrightarrow>
    reads_expected W d' = reads_expected W d"
  unfolding reads_expected_iff by simp

lemma schedule_addresses:
  assumes "schedule T wq d = Inr d'"
  shows "map p_address (q_entry (d_RQ d')) = map p_address (q_entry (d_RQ d))"
proof -
  have upd: "map p_address (es[i := (es ! i)\<lparr>p_scheduled := a, p_event_cycle := c\<rparr>]) = map p_address es" for es :: "packet list" and i a c
    by (simp add: map_update list_update_same_conv) (metis list_update_id map_update)
  show ?thesis using assms
    by (auto simp: schedule_def Let_def put_queue_def dram_queue_def upd split: option.splits prod.splits if_splits)
qed

section \<open>New requests\<close>

lemma due_ok:
  assumes "entries_ok q" "i < 64 \<longrightarrow> p_address (q_entry q ! unat i) \<noteq> 0"
  shows "due T q i cyc = Inr (i < 64 \<and> cyc \<le> dram_cycle T)"
proof (cases "i < 64")
  case True
  then have "unat i < 64" by (simp add: word_less_nat_alt)
  then show ?thesis using True assms entries_okD(1,2) [OF assms(1)] entries_okD(4) [OF assms(1), of "unat i"]
    by (auto simp: due_def entry_ok_def not_le)
qed (use entries_okD(2) [OF assms(1)] in \<open>simp add: due_def\<close>)

lemma try_schedule_ok:
  assumes "dram_ok d"
  shows "\<exists>d'. try_schedule T wq d = Inr d' \<and> dram_ok d' \<and> (reads_expected W d \<longrightarrow> reads_expected W d')"
proof (cases "(d_write_mode d \<noteq> 0) = wq")
  case False
  then show ?thesis using assms by (simp add: try_schedule_def)
next
  case True
  let ?q = "dram_queue wq d"
  have d: "dram_core d" "sched (dram_queue (\<not> wq) d) = {}" "next_ok ?q" using assms True by (auto simp: dram_ok_def)
  have q: "entries_ok ?q" using d(1) dram_core_split [of d wq] by (simp add: queue_ok_def)
  have go: "due T ?q (q_next_schedule_index ?q) cyc = Inr (q_next_schedule_index ?q < 64 \<and> cyc \<le> dram_cycle T)" for cyc
    using d(3) by (intro due_ok [OF q]) (simp add: next_ok_def)
  obtain d' where d': "schedule T wq d = Inr d'" "dram_core d'" "sched (dram_queue (\<not> wq) d') = {}" "next_ok (dram_queue wq d')"
    "d_write_mode d' = d_write_mode d" using schedule_ok [OF d] by blast
  have "dram_ok d'" using d' True by (auto simp: dram_ok_def)
  moreover have "reads_expected W d \<longrightarrow> reads_expected W d'" using reads_expected_reads [OF schedule_addresses [OF d'(1)]] by simp
  ultimately show ?thesis using True go d'(1) assms by (simp add: try_schedule_def)
qed

lemma addresses_update: "p_address e = p_address (es ! i) \<Longrightarrow> map p_address (es[i := e]) = map p_address es"
  by (simp add: map_update list_update_same_conv) (metis list_update_id map_update)

lemma reset_entry_addresses:
  "reset_entry T wq i d = Inr d' \<Longrightarrow> map p_address (q_entry (d_RQ d')) = map p_address (q_entry (d_RQ d))"
  by (auto simp: reset_entry_def Let_def put_queue_def dram_queue_def addresses_update split: if_splits)

lemma reset_loop_addresses:
  "reset_loop T wq is d = Inr d' \<Longrightarrow> map p_address (q_entry (d_RQ d')) = map p_address (q_entry (d_RQ d))"
  by (induction "is" arbitrary: d) (auto simp: bind_res_Inr_iff dest: reset_entry_addresses)

lemma switch_mode_addresses:
  assumes "switch_mode T d = Inr d'"
  shows "map p_address (q_entry (d_RQ d')) = map p_address (q_entry (d_RQ d))"
proof -
  have "map p_address (q_entry (d_RQ y)) = map p_address (q_entry (d_RQ x))" if "turn_around T wq x = Inr y" for x y wq
    using that by (auto simp: turn_around_def reset_remain_requests_def Let_def bind_res_Inr_iff
        dest!: reset_loop_addresses split: if_splits)
  from this [of False "d\<lparr>d_write_mode := 1\<rparr>"] this [of True "d\<lparr>d_write_mode := 0\<rparr>"] assms
  show ?thesis by (auto simp: switch_mode_def Let_def split: if_splits)
qed

text \<open>A packet the caches may send.\<close>

definition request_ok :: "packet \<Rightarrow> bool" where
  "request_ok p \<longleftrightarrow> p_address p \<noteq> 0 \<and> p_cpu p < NUM_CPUS \<and> unat (p_type p) < NUM_TYPES \<and> p_scheduled p = 0"

lemma dram_insert_ok:
  assumes "entries_ok q" "dram_insert p 64 q = Some q'" "request_ok p"
  shows "entries_ok q'" "sched q' = sched q" "q_is_WQ q' = q_is_WQ q" "\<And>wq bs. banks_ok wq q' bs = banks_ok wq q bs"
    "set (q_entry q') \<subseteq> insert p (set (q_entry q))" "p \<in> set (q_entry q')"
    "\<And>j. j < 64 \<Longrightarrow> p_address (q_entry q ! j) \<noteq> 0 \<Longrightarrow> q_entry q' ! j = q_entry q ! j"
    "q_next_process_index q' = q_next_process_index q" "q_next_process_cycle q' = q_next_process_cycle q"
    "q_occupancy q' = q_occupancy q + 1"
proof -
  obtain i where f: "find (\<lambda>i. p_address (q_entry q ! i) = 0) [0..<64] = Some i"
    and q': "q' = q\<lparr>q_entry := (q_entry q)[i := p], q_occupancy := q_occupancy q + 1\<rparr>"
    using assms(2) by (auto simp: dram_insert_def split: option.splits)
  have i: "i < 64" "p_address (q_entry q ! i) = 0" using f find_upt_Some by auto
  note q = entries_okD(1) [OF assms(1)] entries_okD(4) [OF assms(1)] entries_okD(5) [OF assms(1)]
  have p: "p_address p \<noteq> 0" "p_scheduled p = 0" "entry_ok p" using assms(3) by (auto simp: request_ok_def entry_ok_def)
  have s0: "p_scheduled (q_entry q ! i) = 0" using q(2) [OF i(1)] i(2) by (simp add: entry_ok_def)
  have ms: "mset (used_entries ((q_entry q)[i := p])) = add_mset p (mset (used_entries (q_entry q)))"
    using i q(1) p(1) by (intro used_entries_fill) auto
  have "length (used_entries ((q_entry q)[i := p])) \<le> 64" using used_entries_le [of "(q_entry q)[i := p]"] q(1) by simp
  then have occ: "unat (q_occupancy q + 1) = length (used_entries ((q_entry q)[i := p]))"
    using length_add_mset [OF ms] q(3) by (simp add: unat_word_ariths)
  show "entries_ok q'"
    using assms(1) occ p(3) set_update_subset_insert [of "q_entry q" i p] by (auto simp: entries_ok_def q')
  have "p_scheduled ((q_entry q)[i := p] ! j) = p_scheduled (q_entry q ! j)" if "j < 64" for j
    using that i(1) q(1) s0 p(2) by (auto simp: nth_list_update)
  then show sc: "sched q' = sched q" using q(1) by (auto simp: sched_def q')
  have "i \<notin> sched q" using s0 by (simp add: sched_def)
  then have "entry_bank q' j = entry_bank q j" if "j \<in> sched q" for j
    using that by (cases "j = i") (simp_all add: entry_bank_def q')
  then show "banks_ok wq q' bs = banks_ok wq q bs" for wq bs by (simp add: banks_ok_def sc)
  show "p \<in> set (q_entry q')" using i(1) q(1) by (simp add: q' set_update_memI)
  show "q_entry q' ! j = q_entry q ! j" if "j < 64" "p_address (q_entry q ! j) \<noteq> 0" for j
    using that i(2) by (cases "j = i") (simp_all add: q')
  show "q_is_WQ q' = q_is_WQ q" "set (q_entry q') \<subseteq> insert p (set (q_entry q))"
    "q_next_process_index q' = q_next_process_index q" "q_next_process_cycle q' = q_next_process_cycle q"
    "q_occupancy q' = q_occupancy q + 1"
    by (simp_all add: q' set_update_subset_insert)
qed

text \<open>What an update of the statistics of the queues does not touch.\<close>

lemma dram_core_insert:
  assumes "dram_core d" "dram_insert p 64 (dram_queue wq d) = Some q" "request_ok p"
    and "tables_ok d'" "d_bank d' = d_bank d" "\<And>v. scheduled_count v d' = scheduled_count v d"
    and "dram_queue wq d' = update_schedule_cycle q" "dram_queue (\<not> wq) d' = dram_queue (\<not> wq) d"
  shows "dram_core d'" "sched (dram_queue v d') = sched (dram_queue v d)"
proof -
  let ?q = "dram_queue wq d" and ?u = "update_schedule_cycle q"
  have q: "queue_ok wq d" "queue_ok (\<not> wq) d" using assms(1) dram_core_split [of d wq] by simp_all
  then have ent: "entries_ok ?q" by (simp add: queue_ok_def)
  note ins = dram_insert_ok [OF ent assms(2,3)]
  have u: "entries_ok ?u" "sched ?u = sched ?q" "banks_ok wq ?u bs = banks_ok wq ?q bs" for bs
    using ins(1,2,4) entries_ok_cong [of ?u q] sched_cong [of ?u q] banks_ok_cong [of ?u q] by simp_all
  have "queue_ok wq d'" using q(1) u ins(3) assms(5,6,7) by (simp add: queue_ok_def)
  moreover have "queue_ok (\<not> wq) d'" using q(2) assms(5,6,8) by (simp add: queue_ok_def)
  ultimately show "dram_core d'" using dram_core_split [of d' wq] assms(4) by simp
  show "sched (dram_queue v d') = sched (dram_queue v d)" using u(2) assms(7,8) by (cases "v = wq") auto
qed

lemma dram_ok_insert:
  assumes "dram_ok d" "dram_insert p 64 (dram_queue wq d) = Some q" "request_ok p"
    and "tables_ok d'" "d_bank d' = d_bank d" "d_write_mode d' = d_write_mode d" "\<And>v. scheduled_count v d' = scheduled_count v d"
    and "dram_queue wq d' = update_schedule_cycle q" "dram_queue (\<not> wq) d' = dram_queue (\<not> wq) d"
  shows "dram_ok d'"
proof -
  let ?q = "dram_queue wq d" and ?u = "update_schedule_cycle q"
  have core: "dram_core d" and ent: "entries_ok ?q"
    using assms(1) dram_core_split [of d wq] by (simp_all add: dram_ok_def queue_ok_def)
  note ins = dram_insert_ok [OF ent assms(2,3)] and new = dram_core_insert [OF core assms(2-5,7-9)]
  have nx: "next_ok ?u" if "next_ok ?q"
    using that ins(7-9) update_schedule_next [OF ins(1) refl] entries_okD(1) [OF ent]
    by (auto simp: next_ok_def word_less_nat_alt)
  have "next_ok (dram_queue (d_write_mode d' \<noteq> 0) d')"
    using nx assms(1,6,8,9) by (cases "(d_write_mode d \<noteq> 0) = wq") (auto simp: dram_ok_def)
  then show ?thesis using new assms(1,6) by (simp add: dram_ok_def)
qed

lemma dram_ok_same:
  assumes "dram_ok d" "tables_ok d'" "d_bank d' = d_bank d" "d_write_mode d' = d_write_mode d"
    and "\<And>v. scheduled_count v d' = scheduled_count v d"
    and "\<And>v. q_entry (dram_queue v d') = q_entry (dram_queue v d) \<and> q_SIZE (dram_queue v d') = q_SIZE (dram_queue v d) \<and>
      q_occupancy (dram_queue v d') = q_occupancy (dram_queue v d) \<and> q_is_WQ (dram_queue v d') = q_is_WQ (dram_queue v d) \<and>
      q_next_process_index (dram_queue v d') = q_next_process_index (dram_queue v d) \<and>
      q_next_process_cycle (dram_queue v d') = q_next_process_cycle (dram_queue v d)"
    and "\<And>v. q_next_schedule_index (dram_queue v d') = q_next_schedule_index (dram_queue v d) \<or>
      dram_queue v d' = update_schedule_cycle (dram_queue v d)"
  shows "dram_ok d'"
proof -
  have q: "queue_ok v d' = queue_ok v d" for v
    using assms(6) [of v] by (intro queue_ok_update) (simp_all add: assms(3,5))
  have sc: "sched (dram_queue v d') = sched (dram_queue v d)" for v using assms(6) [of v] by (intro sched_cong) simp
  have ent: "entries_ok (dram_queue v d)" for v
    using assms(1) dram_core_split [of d v] by (simp add: dram_ok_def queue_ok_def)
  have nx: "next_ok (dram_queue v d')" if "next_ok (dram_queue v d)" for v
    using that assms(6) [of v] assms(7) [of v] update_schedule_next [OF ent [of v] refl] by (auto simp: next_ok_def)
  show ?thesis using assms(1,2,4) q sc nx by (simp add: dram_ok_def dram_core_def)
qed

lemma check_dram_queue_cases:
  assumes "entries_ok q"
  shows "check_dram_queue q p = -1 \<and> (\<forall>e\<in>set (q_entry q). p_address e \<noteq> p_address p) \<or>
    (\<exists>i<64. check_dram_queue q p = int i \<and> p_address (q_entry q ! i) = p_address p)"
proof (cases "find (\<lambda>i. p_address (q_entry q ! i) = p_address p) [0..<64]")
  case None
  then have "check_dram_queue q p = -1" using entries_okD(2) [OF assms] by (simp add: check_dram_queue_def)
  moreover have "\<forall>e\<in>set (q_entry q). p_address e \<noteq> p_address p"
    using None entries_okD(1) [OF assms] by (auto simp: find_None_iff in_set_conv_nth)
  ultimately show ?thesis by blast
next
  case (Some i)
  then have "i < 64" "p_address (q_entry q ! i) = p_address p" by (auto simp: find_upt_Some)
  moreover have "check_dram_queue q p = int i" using Some entries_okD(2) [OF assms] by (simp add: check_dram_queue_def)
  ultimately show ?thesis by blast
qed

lemma dram_add_wq_ok:
  assumes "dram_ok d" "request_ok p" "\<not> ucast (all_warmup_complete T) < NUM_CPUS"
  shows "dram_ok (snd (dram_add_wq T p d)) \<and> d_RQ (snd (dram_add_wq T p d)) = d_RQ d"
proof -
  have tb: "tables_ok d" using assms(1) by (simp add: dram_ok_def dram_core_def)
  show ?thesis
  proof (cases "check_dram_queue (d_WQ d) p = -1")
    case False
    then show ?thesis using assms by (simp add: dram_add_wq_def Let_def)
  next
    case True
    show ?thesis
    proof (cases "dram_insert p 64 (d_WQ d)")
      case None
      let ?d = "d\<lparr>d_WQ := update_schedule_cycle (d_WQ d)\<rparr>"
      have "dram_ok ?d"
        by (rule dram_ok_same [OF assms(1)])
          (use tb in \<open>auto simp: tables_ok_def scheduled_count_def dram_queue_def\<close>)
      then show ?thesis using None True assms(3) by (simp add: dram_add_wq_def Let_def DRAM_WQ_SIZE_def)
    next
      case (Some q)
      let ?d = "d\<lparr>d_WQ := update_schedule_cycle q\<rparr>"
      have "dram_ok ?d"
        by (rule dram_ok_insert [OF assms(1) _ assms(2), of True q])
          (use tb Some in \<open>auto simp: tables_ok_def scheduled_count_def dram_queue_def\<close>)
      then show ?thesis using Some True assms(3) by (simp add: dram_add_wq_def Let_def DRAM_WQ_SIZE_def)
    qed
  qed
qed

text \<open>
  What the controller relies on when it returns data: the level above takes the data of every
  line it waits for, and goes on waiting for the others.
\<close>

locale data_sink =
  fixes ret :: "u64 \<Rightarrow> packet \<Rightarrow> 'w \<Rightarrow> 'w res" and waits :: "'w \<Rightarrow> u64 set"
  assumes ret_ok: "p_cpu p < NUM_CPUS \<Longrightarrow> p_address p \<noteq> 0 \<Longrightarrow> p_address p \<in> waits w \<Longrightarrow>
      \<exists>w'. ret n p w = Inr w' \<and> waits w' = waits w"
begin

lemma transfer_ok:
  assumes "dram_core d" "i \<in> sched (dram_queue wq d)" "sched (dram_queue (\<not> wq) d) = {}" "next_ok (dram_queue wq d)" "reads_expected (waits w) d"
  shows "\<exists>w' d'. transfer T (ret n) wq i (w, d) = Inr (w', d') \<and> reads_expected (waits w') d' \<and> waits w' = waits w \<and> dram_core d' \<and> sched (dram_queue (\<not> wq) d') = {} \<and>
    next_ok (dram_queue wq d') \<and> d_write_mode d' = d_write_mode d"
proof -
  let ?q = "dram_queue wq d" and ?e = "q_entry (dram_queue wq d) ! i"
  let ?k = "entry_bank ?q i" and ?avail = "dram_cycle T + ucast (DRAM_DBUS_RETURN_TIME T)"
  let ?b = "d_bank d ! ?k" and ?e' = "if wq then ?e else ?e\<lparr>p_event_cycle := dram_cycle T + ucast (DRAM_DBUS_RETURN_TIME T)\<rparr>"
  let ?counted = "count_row_buffer ?b (?q\<lparr>q_entry := (q_entry ?q)[i := ?e']\<rparr>)"
  have q: "tables_ok d" "entries_ok ?q" "(q_is_WQ ?q \<noteq> 0) = wq" "banks_ok wq ?q (d_bank d)"
    "unat (scheduled_count wq d) = card (sched ?q)"
    using assms(1) dram_core_split [of d wq] by (simp_all add: queue_ok_def)
  have i: "i < 64" "p_scheduled ?e \<noteq> 0" using assms(2) entries_okD(1) [OF q(2)] by (simp_all add: sched_def)
  have e: "p_address ?e \<noteq> 0" "p_cpu ?e < NUM_CPUS" using entries_okD(4) [OF q(2) i(1)] i(2) by (auto simp: entry_ok_def)
  have in_rq: "?e \<in> set (q_entry ?q)" using i(1) entries_okD(1) [OF q(2)] by (intro nth_mem) simp
  have due: "p_address ?e' \<in> waits w" if "\<not> wq"
    using assms(5) e(1) in_rq that by (auto simp: reads_expected_def dram_queue_def)
  obtain w' where w': "(if wq then Inr w else ret n ?e' w) = Inr w'" "waits w' = waits w"
    using ret_ok [of ?e' w n] due e by (cases wq) auto
  obtain q' where q': "remove_queue (dram_blank T) i ?counted = Inr q'" "entries_ok q'" "q_entry q' = (q_entry ?q)[i := PACKET_init (dram_blank T)]"
    "q_is_WQ q' = q_is_WQ ?q" "sched q' = sched ?q - {i}" "q_next_schedule_index q' = q_next_schedule_index ?q"
    using remove_entry_ok [OF q(2) assms(2), of ?counted ?e' "dram_blank T"] by auto
  define d1 where "d1 = (if wq then d\<lparr>d_dbus_cycle_available := ?avail, d_bank := (d_bank d)[?k := release_bank ?b],
      d_scheduled_writes := d_scheduled_writes d - 1\<rparr>
    else d\<lparr>d_dbus_cycle_available := ?avail, d_bank := (d_bank d)[?k := release_bank ?b], d_scheduled_reads := d_scheduled_reads d - 1\<rparr>)"
  have step: "transfer T (ret n) wq i (w, d) = Inr (w', put_queue wq (update_process_cycle q') d1)"
    using q(3) w'(1) q'(1) by (cases wq) (simp_all add: transfer_def Let_def d1_def entry_bank_def)
  have d1: "tables_ok d1" "d_write_mode d1 = d_write_mode d" "dram_queue v d1 = dram_queue v d"
    "d_bank d1 = (d_bank d)[?k := release_bank ?b]"
    "scheduled_count v d1 = (if v = wq then scheduled_count wq d - 1 else scheduled_count v d)" for v
    using q(1) by (auto simp: d1_def tables_ok_def dram_queue_def scheduled_count_def)
  let ?freed = "update_process_cycle q'"
  have zero: "p_scheduled (PACKET_init (dram_blank T)) = 0" by (simp add: PACKET_init_def)
  have bk: "banks_ok wq ?freed (d_bank d1)"
    unfolding d1(4) using q'(3) zero by (intro banks_ok_release [OF q(4) assms(2) q(2)]) simp_all
  have "card (sched ?q) \<noteq> 0" using assms(2) by auto
  then have "scheduled_count wq d \<noteq> 0" using q(5) by auto
  then have cnt: "unat (scheduled_count wq d - 1) = card (sched ?freed)"
    using q(5) assms(2) q'(5) sched_cong [of ?freed q'] by (simp add: unat_minus_one)
  have "entries_ok ?freed" using q'(2) entries_ok_cong [of ?freed q'] by simp
  then have "queue_ok wq (put_queue wq ?freed d1)" using bk cnt q(3) q'(4) d1(5) by (simp add: queue_ok_def)
  moreover have "queue_ok (\<not> wq) (put_queue wq ?freed d1)"
    using assms(1,3) dram_core_split [of d wq] d1(3,5) by (simp add: queue_ok_idle)
  ultimately have "dram_core (put_queue wq ?freed d1)" using dram_core_split [of _ wq] d1(1) by simp
  moreover have "next_ok ?freed"
    using assms(2) entries_okD(1) [OF q(2)] by (intro next_ok_process [OF q'(2,3) assms(4)]) (simp_all add: sched_def q'(6))
  moreover have "reads_expected (waits w') (put_queue wq ?freed d1)"
  proof (cases wq)
    case True
    then show ?thesis using assms(5) w'(2) by (simp add: reads_expected_def put_queue_def d1_def)
  next
    case False
    have "p_address (PACKET_init (dram_blank T)) = 0" by (simp add: PACKET_init_def)
    then show ?thesis
      using False assms(5) w'(2) q'(3) set_update_subset_insert [of "q_entry ?q" i "PACKET_init (dram_blank T)"]
      by (fastforce simp: reads_expected_def put_queue_def dram_queue_def)
  qed
  ultimately show ?thesis using step assms(3) d1(2,3) w'(2) by simp
qed

lemma process_ok:
  assumes "dram_core d" "sched (dram_queue (\<not> wq) d) = {}" "next_ok (dram_queue wq d)" "reads_expected (waits w) d"
    and "q_next_process_index (dram_queue wq d) < 64" "q_next_process_cycle (dram_queue wq d) \<noteq> - 1"
  shows "\<exists>w' d'. process T (ret n) wq (w, d) = Inr (w', d') \<and> reads_expected (waits w') d' \<and> waits w' = waits w \<and> dram_core d' \<and> sched (dram_queue (\<not> wq) d') = {} \<and>
    next_ok (dram_queue wq d') \<and> d_write_mode d' = d_write_mode d"
proof -
  let ?q = "dram_queue wq d"
  let ?i = "q_next_process_index ?q"
  have q: "tables_ok d" "entries_ok ?q" "banks_ok wq ?q (d_bank d)"
    using assms(1) dram_core_split [of d wq] by (simp_all add: queue_ok_def)
  have i: "unat ?i < 64" using assms(5) by (simp add: word_less_nat_alt)
  have s: "p_scheduled (q_entry ?q ! unat ?i) \<noteq> 0" using assms(3,5,6) by (simp add: next_ok_def)
  then have mem: "unat ?i \<in> sched ?q" using i entries_okD(1) [OF q(2)] by (simp add: sched_def)
  then have "owns wq (unat ?i) (d_bank d ! entry_bank ?q (unat ?i))" using q(3) by (simp add: banks_ok_def)
  then have own: "br_request_index (d_bank d ! bank_of (p_address (q_entry ?q ! unat ?i))) = ?i" by (simp add: owns_def entry_bank_def)
  have cpu: "\<not> p_cpu (q_entry ?q ! unat ?i) \<ge> NUM_CPUS"
    using entries_okD(4) [OF q(2) i] s by (auto simp: entry_ok_def not_le)
  have size: "?i \<noteq> q_SIZE ?q" using assms(5) entries_okD(2) [OF q(2)] by auto
  obtain d1 where d1: "congested T (q_entry ?q ! unat ?i) d = Inr d1" "dram_core d1" "\<forall>v. dram_queue v d1 = dram_queue v d"
    "d_write_mode d1 = d_write_mode d" using congested_ok [OF assms(1) mem refl assms(2)] by blast
  have "reads_expected (waits w) d1" using assms(4) d1(3) [rule_format, of False] by (simp add: reads_expected_def dram_queue_def)
  obtain w2 d2 where d2: "transfer T (ret n) wq (unat ?i) (w, d) = Inr (w2, d2)" "reads_expected (waits w2) d2" "waits w2 = waits w" "dram_core d2" "sched (dram_queue (\<not> wq) d2) = {}"
    "next_ok (dram_queue wq d2)" "d_write_mode d2 = d_write_mode d"
    using transfer_ok [OF assms(1) mem assms(2,3,4)] by blast
  show ?thesis
    using own cpu size i entries_okD(1) [OF q(2)] d1 d2 assms(1-4) \<open>reads_expected (waits w) d1\<close>
    by (auto simp: process_def Let_def)
qed

lemma try_process_ok:
  assumes "dram_ok d" "reads_expected (waits w) d" "dram_cycle T \<noteq> - 1"
  shows "\<exists>w' d'. try_process T (ret n) wq (w, d) = Inr (w', d') \<and> waits w' = waits w \<and> dram_ok d' \<and> reads_expected (waits w') d'"
proof (cases "(d_write_mode d \<noteq> 0) = wq")
  case False
  then show ?thesis using assms by (simp add: try_process_def)
next
  case True
  let ?q = "dram_queue wq d"
  have d: "dram_core d" "sched (dram_queue (\<not> wq) d) = {}" "next_ok ?q" using assms(1) True by (auto simp: dram_ok_def)
  have q: "entries_ok ?q" using d(1) dram_core_split [of d wq] by (simp add: queue_ok_def)
  have go: "due T ?q (q_next_process_index ?q) cyc = Inr (q_next_process_index ?q < 64 \<and> cyc \<le> dram_cycle T)" for cyc
    using d(3) by (intro due_ok [OF q]) (simp add: next_ok_def)
  show ?thesis
  proof (cases "q_next_process_index ?q < 64 \<and> q_next_process_cycle ?q \<le> dram_cycle T")
    case False
    then show ?thesis using go assms True by (auto simp: try_process_def)
  next
    case dueq: True
    have "q_next_process_cycle ?q \<noteq> - 1" using dueq assms(3) by (auto simp: word_order.extremum_unique)
    then obtain w' d' where d': "process T (ret n) wq (w, d) = Inr (w', d')" "reads_expected (waits w') d'" "waits w' = waits w"
      "dram_core d'" "sched (dram_queue (\<not> wq) d') = {}" "next_ok (dram_queue wq d')" "d_write_mode d' = d_write_mode d"
      using process_ok [OF d assms(2)] dueq by blast
    have "dram_ok d'" using d'(4-7) True by (auto simp: dram_ok_def)
    then show ?thesis using go dueq True d' by (simp add: try_process_def)
  qed
qed

lemma dram_operate_ok:
  assumes "dram_ok d" "reads_expected (waits w) d" "dram_cycle T \<noteq> - 1"
  shows "\<exists>w' d'. dram_operate T (ret n) (w, d) = Inr (w', d') \<and> waits w' = waits w \<and> dram_ok d' \<and> reads_expected (waits w') d'"
proof -
  obtain d1 where d1: "switch_mode T d = Inr d1" "dram_ok d1" using switch_mode_ok [OF assms(1)] by blast
  have e1: "reads_expected (waits w) d1" using assms(2) reads_expected_reads [OF switch_mode_addresses [OF d1(1)]] by simp
  obtain d2 where d2: "try_schedule T True d1 = Inr d2" "dram_ok d2" "reads_expected (waits w) d2"
    using try_schedule_ok [OF d1(2)] e1 by blast
  obtain w3 d3 where d3: "try_process T (ret n) True (w, d2) = Inr (w3, d3)" "waits w3 = waits w" "dram_ok d3" "reads_expected (waits w3) d3"
    using try_process_ok [OF d2(2,3) assms(3)] by blast
  obtain d4 where d4: "try_schedule T False d3 = Inr d4" "dram_ok d4" "reads_expected (waits w3) d4"
    using try_schedule_ok [OF d3(3)] d3(4) by blast
  obtain w5 d5 where d5: "try_process T (ret n) False (w3, d4) = Inr (w5, d5)" "waits w5 = waits w3" "dram_ok d5" "reads_expected (waits w5) d5"
    using try_process_ok [OF d4(2,3) assms(3)] by blast
  then show ?thesis using d1(1) d2(1) d3(1,2) d4(1) by (simp add: dram_operate_def)
qed

lemma dram_add_rq_ok:
  assumes "dram_ok d" "request_ok p" "p_address p \<in> waits w" "reads_expected (waits w) d" "\<not> ucast (all_warmup_complete T) < NUM_CPUS"
  shows "\<exists>r p' w' d'. dram_add_rq T (ret n) (ret n) p (w, d) = Inr (r, p', w', d') \<and> waits w' = waits w \<and>
    dram_ok d' \<and> reads_expected (waits w') d'"
proof -
  have tb: "tables_ok d" and ents: "entries_ok (d_WQ d)" "entries_ok (d_RQ d)"
    using assms(1) by (simp_all add: dram_ok_def dram_core_def queue_ok_def dram_queue_def)
  consider i where "i < 64" "check_dram_queue (d_WQ d) p = int i"
    | i where "check_dram_queue (d_WQ d) p = -1" "check_dram_queue (d_RQ d) p = int i"
    | "check_dram_queue (d_WQ d) p = -1" "check_dram_queue (d_RQ d) p = -1"
    using check_dram_queue_cases [OF ents(1), of p] check_dram_queue_cases [OF ents(2), of p] by blast
  then show ?thesis
  proof cases
    case (1 i)
    let ?p = "p\<lparr>p_data := p_data (q_entry (d_WQ d) ! i)\<rparr>"
    obtain w' where w': "ret n ?p w = Inr w'" "waits w' = waits w"
      using ret_ok [of ?p w n] assms(2,3) by (auto simp: request_ok_def)
    then have "dram_return (ret n) (ret n) ?p w = Inr w'" using assms(2) by (simp add: dram_return_def request_ok_def not_le)
    moreover obtain a h where ah: "bump 1 (d_ACCESS d) = Inr a" "bump 1 (d_HIT d) = Inr h" "length a = NUM_TYPES" "length h = NUM_TYPES"
      using tb by (simp add: bump_def tables_ok_def NUM_TYPES_def)
    moreover let ?d = "d\<lparr>d_ACCESS := a, d_HIT := h, d_WQ := (d_WQ d)\<lparr>q_FORWARD := q_FORWARD (d_WQ d) + 1\<rparr>,
        d_RQ := (d_RQ d)\<lparr>q_ACCESS := q_ACCESS (d_RQ d) + 1\<rparr>\<rparr>"
    have "dram_ok ?d"
      by (rule dram_ok_same [OF assms(1)]) (use tb ah in \<open>auto simp: tables_ok_def scheduled_count_def dram_queue_def\<close>)
    moreover have "reads_expected (waits w') ?d" using assms(4) w'(2) by (simp add: reads_expected_def)
    ultimately show ?thesis using 1 assms(5) w'(2) by (simp add: dram_add_rq_def Let_def)
  next
    case (2 i)
    then show ?thesis using assms by (simp add: dram_add_rq_def Let_def)
  next
    case 3
    show ?thesis
    proof (cases "dram_insert p 64 (d_RQ d)")
      case None
      let ?d = "d\<lparr>d_RQ := update_schedule_cycle (d_RQ d)\<rparr>"
      have "dram_ok ?d"
        by (rule dram_ok_same [OF assms(1)]) (use tb in \<open>auto simp: tables_ok_def scheduled_count_def dram_queue_def\<close>)
      moreover have "reads_expected (waits w) ?d" using assms(4) by (simp add: reads_expected_def)
      ultimately show ?thesis using None 3 assms(5) by (simp add: dram_add_rq_def Let_def DRAM_RQ_SIZE_def)
    next
      case (Some q)
      let ?d = "d\<lparr>d_RQ := q, d_rq_enqueue_count := d_rq_enqueue_count d + 1, d_RQ := update_schedule_cycle q\<rparr>"
      have "dram_ok ?d"
        by (rule dram_ok_insert [OF assms(1) _ assms(2), of False q])
          (use tb Some in \<open>auto simp: tables_ok_def scheduled_count_def dram_queue_def\<close>)
      moreover have "reads_expected (waits w) ?d"
        using assms(3,4) dram_insert_ok(5) [OF ents(2) Some assms(2)] by (auto simp: reads_expected_def)
      ultimately show ?thesis using Some 3 assms(5) by (simp add: dram_add_rq_def Let_def DRAM_RQ_SIZE_def)
    qed
  qed
qed

end

section \<open>The LLC above\<close>

text \<open>The lines for which an LLC has a register.\<close>

definition awaited :: "cache \<Rightarrow> u64 set" where
  "awaited c = (if mshr_wf c then set (map p_address (used_entries (q_entry (c_MSHR c)))) else {})"

lemma return_data_completes:
  assumes "p_cpu p < NUM_CPUS" "p_address p \<noteq> 0" "p_address p \<in> awaited c"
  shows "\<exists>c' i. return_data n p c = Inr c' \<and> awaited c' = awaited c \<and> check_mshr c' p = int i \<and>
    p_returned (q_entry (c_MSHR c') ! i) = COMPLETED \<and> p_data (q_entry (c_MSHR c') ! i) = p_data p"
proof -
  have wf: "mshr_wf c" using assms(3) by (auto simp: awaited_def split: if_splits)
  note m = mshr_wfD [OF wf]
  obtain k where k: "k < length (q_entry (c_MSHR c))" "p_address (q_entry (c_MSHR c) ! k) = p_address p"
    using assms(3) wf by (auto simp: awaited_def used_entries_set in_set_conv_nth)
  have "find (\<lambda>i. p_address (q_entry (c_MSHR c) ! i) = p_address p) [0..<unat (c_MSHR_SIZE c)] \<noteq> None"
    using k m(3) by (auto simp: find_None_iff)
  then obtain i where f: "find (\<lambda>i. p_address (q_entry (c_MSHR c) ! i) = p_address p) [0..<unat (c_MSHR_SIZE c)] = Some i" by auto
  have i1: "check_mshr c p = int i" using f by (simp add: check_mshr_def)
  have i2: "i < length (q_entry (c_MSHR c))" using f m(3) by (simp add: find_upt_Some)
  note i = i1 i2
  obtain c' where c': "return_data n p c = Inr c'" "mshr_wf c'"
    "q_entry (c_MSHR c') = (q_entry (c_MSHR c))[i := completed_entry n c p (q_entry (c_MSHR c) ! i)]"
    "c_MSHR_SIZE c' = c_MSHR_SIZE c"
    using return_data_ok [OF wf assms(2) i(1) assms(1), of n] by auto
  have "p_address (q_entry (c_MSHR c') ! j) = p_address (q_entry (c_MSHR c) ! j)" for j
    using c'(3) i2 by (cases "j = i") (simp_all add: completed_entry_def)
  then have i3: "check_mshr c' p = int i" using i1 c'(4) by (simp add: check_mshr_def)
  have "map p_address (used_entries (q_entry (c_MSHR c'))) = map p_address (used_entries (q_entry (c_MSHR c)))"
    unfolding c'(3) by (rule used_entries_same [OF i(2)]) (simp add: completed_entry_def)
  then have "awaited c' = awaited c" using wf c'(2) unfolding awaited_def by (simp only: if_True)
  moreover have "check_mshr c' p = int i \<and> p_returned (q_entry (c_MSHR c') ! i) = COMPLETED \<and>
      p_data (q_entry (c_MSHR c') ! i) = p_data p"
    using i2 i3 c'(3) by (simp add: completed_entry_def)
  ultimately show ?thesis using c'(1) by blast
qed

lemma return_data_awaited:
  assumes "p_cpu p < NUM_CPUS" "p_address p \<noteq> 0" "p_address p \<in> awaited c"
  shows "\<exists>c'. return_data n p c = Inr c' \<and> awaited c' = awaited c"
  using return_data_completes [OF assms] by blast

interpretation llc: data_sink return_data awaited
  by unfold_locales (rule return_data_awaited)

section \<open>Runs\<close>

datatype dram_op = Read packet | Write packet | Cycle u64

fun dram_step :: "dram_env \<Rightarrow> dram_op \<Rightarrow> cache \<times> dram \<Rightarrow> (cache \<times> dram) res" where
  "dram_step T (Read p) s =
     bind_res (dram_add_rq T (return_data (dram_cycle T)) (return_data (dram_cycle T)) p s) (\<lambda>(_, _, s). Inr s)"
| "dram_step T (Write p) s = Inr (fst s, snd (dram_add_wq T p (snd s)))"
| "dram_step T (Cycle t) s = dram_operate (T\<lparr>dram_cycle := t\<rparr>) (return_data t) s"

primrec dram_run :: "dram_env \<Rightarrow> dram_op list \<Rightarrow> cache \<times> dram \<Rightarrow> (cache \<times> dram) res" where
  "dram_run T [] s = Inr s"
| "dram_run T (x # xs) s = bind_res (dram_step T x s) (dram_run T xs)"

fun op_ok :: "u64 set \<Rightarrow> dram_op \<Rightarrow> bool" where
  "op_ok W (Read p) \<longleftrightarrow> request_ok p \<and> p_address p \<in> W"
| "op_ok W (Write p) \<longleftrightarrow> request_ok p"
| "op_ok W (Cycle t) \<longleftrightarrow> t \<noteq> - 1"

lemma dram_step_ok:
  assumes "dram_ok d" "reads_expected (awaited c) d" "op_ok (awaited c) x" "\<not> ucast (all_warmup_complete T) < NUM_CPUS"
  shows "\<exists>c' d'. dram_step T x (c, d) = Inr (c', d') \<and> awaited c' = awaited c \<and> dram_ok d' \<and> reads_expected (awaited c') d'"
proof (cases x)
  case (Read p)
  then obtain r p' c' d' where "dram_add_rq T (return_data (dram_cycle T)) (return_data (dram_cycle T)) p (c, d) = Inr (r, p', c', d')"
    "awaited c' = awaited c" "dram_ok d'" "reads_expected (awaited c') d'"
    using llc.dram_add_rq_ok [OF assms(1) _ _ assms(2,4), of p "dram_cycle T"] assms(3) by auto
  then show ?thesis using Read by simp
next
  case (Write p)
  then show ?thesis using dram_add_wq_ok [OF assms(1) _ assms(4), of p] assms(2,3) by (simp add: reads_expected_def)
next
  case (Cycle t)
  then show ?thesis using llc.dram_operate_ok [OF assms(1,2), of "T\<lparr>dram_cycle := t\<rparr>" t] assms(3) by simp
qed

lemma dram_run_ok:
  assumes "dram_ok d" "reads_expected (awaited c) d" "\<forall>x\<in>set xs. op_ok (awaited c) x" "\<not> ucast (all_warmup_complete T) < NUM_CPUS"
  shows "\<exists>c' d'. dram_run T xs (c, d) = Inr (c', d') \<and> awaited c' = awaited c \<and> dram_ok d' \<and> reads_expected (awaited c') d'"
  using assms
proof (induction xs arbitrary: c d)
  case Nil
  then show ?case by simp
next
  case (Cons x xs)
  obtain c1 d1 where s: "dram_step T x (c, d) = Inr (c1, d1)" "awaited c1 = awaited c" "dram_ok d1" "reads_expected (awaited c1) d1"
    using dram_step_ok [OF Cons.prems(1,2) _ Cons.prems(4), of x] Cons.prems(3) by auto
  then show ?case using Cons.IH [OF s(3,4) _ Cons.prems(4)] Cons.prems(3) by auto
qed

text \<open>The first read of a new controller.\<close>

lemma blank_entry: "entry_ok (PACKET_init raw)" "p_address (PACKET_init raw) = 0" "p_scheduled (PACKET_init raw) = 0"
  by (simp_all add: entry_ok_def PACKET_init_def)

lemma init_queue:
  "q_entry (dram_queue wq (MEMORY_CONTROLLER_init raw)) = replicate 64 (PACKET_init raw)"
  "q_SIZE (dram_queue wq (MEMORY_CONTROLLER_init raw)) = 64" "q_occupancy (dram_queue wq (MEMORY_CONTROLLER_init raw)) = 0"
  "(q_is_WQ (dram_queue wq (MEMORY_CONTROLLER_init raw)) \<noteq> 0) = wq"
  "q_next_process_index (dram_queue wq (MEMORY_CONTROLLER_init raw)) = 0"
  "q_next_process_cycle (dram_queue wq (MEMORY_CONTROLLER_init raw)) = - 1"
  by (simp_all add: dram_queue_def MEMORY_CONTROLLER_init_def PACKET_QUEUE_init_def DRAM_WQ_SIZE_def DRAM_RQ_SIZE_def)

lemma init_sched: "sched (dram_queue wq (MEMORY_CONTROLLER_init raw)) = {}"
  by (auto simp: sched_def init_queue blank_entry)

lemma init_core: "dram_core (MEMORY_CONTROLLER_init raw)"
proof -
  have "entries_ok (dram_queue wq (MEMORY_CONTROLLER_init raw))" for wq
    by (simp add: entries_ok_def init_queue blank_entry used_entries_def)
  then have "queue_ok wq (MEMORY_CONTROLLER_init raw)" for wq
    by (simp add: queue_ok_idle [OF init_sched] init_queue(4)) (simp add: scheduled_count_def MEMORY_CONTROLLER_init_def)
  moreover have "tables_ok (MEMORY_CONTROLLER_init raw)" by (simp add: tables_ok_def MEMORY_CONTROLLER_init_def NUM_TYPES_def)
  ultimately show ?thesis by (simp add: dram_core_def)
qed

lemma init_insert:
  "dram_insert p 64 (dram_queue False (MEMORY_CONTROLLER_init raw)) =
     Some ((dram_queue False (MEMORY_CONTROLLER_init raw))
       \<lparr>q_entry := (replicate 64 (PACKET_init raw))[0 := p], q_occupancy := 1\<rparr>)"
proof -
  have "[0..<64] = 0 # [1..<64::nat]" by (simp add: upt_conv_Cons)
  then show ?thesis using init_queue [of False raw] by (simp add: dram_insert_def blank_entry)
qed

lemma init_check: "p_address p \<noteq> 0 \<Longrightarrow> check_dram_queue (dram_queue wq (MEMORY_CONTROLLER_init raw)) p = -1"
  by (auto simp: check_dram_queue_def init_queue find_None_iff blank_entry split: option.splits dest!: find_upt_Some [THEN iffD1])

lemma first_read_ok:
  assumes "request_ok p" "p_address p \<in> W" "\<not> ucast (all_warmup_complete T) < NUM_CPUS"
  shows "\<exists>r p' d. dram_add_rq T reti ret p (w, MEMORY_CONTROLLER_init raw) = Inr (r, p', w, d) \<and> dram_ok d \<and> reads_expected W d \<and>
    r = -1 \<and> p' = p \<and> d_write_mode d = 0 \<and> d_WQ d = d_WQ (MEMORY_CONTROLLER_init raw) \<and> q_occupancy (d_RQ d) = 1 \<and>
    q_entry (d_RQ d) = (replicate 64 (PACKET_init raw))[0 := p]"
proof -
  let ?i = "MEMORY_CONTROLLER_init raw"
  let ?q = "(dram_queue False ?i)\<lparr>q_entry := (replicate 64 (PACKET_init raw))[0 := p], q_occupancy := 1\<rparr>"
  let ?u = "update_schedule_cycle ?q"
  let ?d = "?i\<lparr>d_RQ := ?u, d_rq_enqueue_count := d_rq_enqueue_count ?i + 1\<rparr>"
  have p: "p_address p \<noteq> 0" "p_scheduled p = 0" using assms(1) by (simp_all add: request_ok_def)
  have step: "dram_add_rq T reti ret p (w, ?i) = Inr (-1, p, w, ?d)"
    using init_check [OF p(1), of True] init_check [OF p(1), of False] init_insert [of p raw] assms(3)
    by (simp add: dram_add_rq_def dram_queue_def Let_def DRAM_RQ_SIZE_def)
  have upd: "dram_queue False ?d = ?u" "dram_queue True ?d = dram_queue True ?i" by (simp_all add: dram_queue_def)
  have ent: "entries_ok (dram_queue False ?i)" using init_core [of raw] by (simp add: dram_core_def queue_ok_def)
  note ins = dram_insert_ok [OF ent init_insert assms(1)]
  have tab: "tables_ok ?d" using init_core [of raw] by (simp add: dram_core_def tables_ok_def)
  have core: "dram_core ?d" "sched (dram_queue v ?d) = {}" for v
    using dram_core_insert [OF init_core init_insert assms(1) tab] init_sched [of _ raw] upd
    by (simp_all add: scheduled_count_def)
  have "p_address (q_entry ?u ! unat (q_next_schedule_index ?u)) \<noteq> 0 \<and> p_scheduled (q_entry ?u ! unat (q_next_schedule_index ?u)) = 0"
    if "q_next_schedule_index ?u < 64"
    using update_schedule_next [OF ins(1) refl that] by simp
  moreover have "q_next_process_index ?u = 0" "q_next_process_cycle ?u = - 1" "p_address (q_entry ?u ! 0) \<noteq> 0"
    using init_queue [of False raw] p(1) by simp_all
  ultimately have "next_ok ?u" by (simp add: next_ok_def)
  moreover have "d_write_mode ?d = 0" by (simp add: MEMORY_CONTROLLER_init_def)
  ultimately have "dram_ok ?d" using core(1) upd init_sched [of True raw] by (simp add: dram_ok_def)
  moreover have "reads_expected W ?d"
  proof -
    have "set (q_entry ?u) \<subseteq> insert p {PACKET_init raw}"
      using set_update_subset_insert [of "replicate 64 (PACKET_init raw)" 0 p] by auto
    then show ?thesis using assms(2) blank_entry(2) [of raw] by (auto simp: reads_expected_def)
  qed
  moreover have "d_write_mode ?d = 0 \<and> d_WQ ?d = d_WQ ?i \<and> q_occupancy (d_RQ ?d) = 1 \<and>
      q_entry (d_RQ ?d) = (replicate 64 (PACKET_init raw))[0 := p]"
    by (simp add: MEMORY_CONTROLLER_init_def)
  ultimately show ?thesis using step by blast
qed

section \<open>Properties\<close>

text \<open>
  C8: The memory controller is safe. Start it empty with a read, then let reads for lines
  the LLC waits for, writes and cycles follow in any order: no array access leaves its
  bounds and no assertion of the scheduler (the counters at a change of direction, the bank
  that a finished request owns) fails, every read that finishes finds its register in the LLC,
  and the invariant holds at the last step.
\<close>

theorem dram_run_safe:
  assumes "p_address p \<in> awaited c" "request_ok p" "\<forall>x\<in>set ops. op_ok (awaited c) x" "\<not> ucast (all_warmup_complete T) < NUM_CPUS"
  shows "\<exists>c' d'. dram_run T (Read p # ops) (c, MEMORY_CONTROLLER_init raw) = Inr (c', d') \<and> dram_ok d' \<and>
    awaited c' = awaited c \<and> (\<forall>e\<in>set (q_entry (d_RQ d')). p_address e \<noteq> 0 \<longrightarrow> p_address e \<in> awaited c)"
proof -
  obtain r p' d where d: "dram_add_rq T (return_data (dram_cycle T)) (return_data (dram_cycle T)) p (c, MEMORY_CONTROLLER_init raw) = Inr (r, p', c, d)"
    "dram_ok d" "reads_expected (awaited c) d"
    using first_read_ok [OF assms(2,1,4), of "return_data (dram_cycle T)" "return_data (dram_cycle T)" c raw] by blast
  obtain c' d' where "dram_run T ops (c, d) = Inr (c', d')" "awaited c' = awaited c" "dram_ok d'" "reads_expected (awaited c') d'"
    using dram_run_ok [OF d(2,3) assms(3,4)] by blast
  then show ?thesis using d(1) by (simp add: reads_expected_def)
qed

definition sample_env :: dram_env where
  "sample_env = \<lparr>dram_cycle = 0, tRP = 50, tRCD = 50, tCAS = 50, DRAM_DBUS_RETURN_TIME = 40, all_warmup_complete = 2, dram_blank = zero_packet\<rparr>"

abbreviation sample_read :: "u64 \<Rightarrow> packet" where
  "sample_read a \<equiv> zero_packet\<lparr>p_address := a, p_cpu := 0\<rparr>"

definition waiting_llc :: cache where
  "waiting_llc = sample_cache\<lparr>c_MSHR := (c_MSHR sample_cache)
     \<lparr>q_entry := [(sample_read 5)\<lparr>p_returned := INFLIGHT\<rparr>, zero_packet], q_occupancy := 1\<rparr>\<rparr>"

lemma waiting_llc: "5 \<in> awaited waiting_llc"
proof -
  have "mshr_wf waiting_llc"
    by (simp add: mshr_wf_def waiting_llc_def sample_cache_def Let_def PACKET_QUEUE_init_def used_entries_def
        PACKET_init_def zero_packet_def next_fill_ok_def entry_done_def INFLIGHT_def COMPLETED_def NUM_CPUS_def)
  then show ?thesis by (simp add: awaited_def waiting_llc_def used_entries_def)
qed

lemma sample_request: "a \<noteq> 0 \<Longrightarrow> request_ok (sample_read a)"
  by (simp add: request_ok_def zero_packet_def PACKET_init_def NUM_CPUS_def NUM_TYPES_def)

theorem dram_run_safe_witness:
  "\<exists>c' d'. dram_run sample_env (Read (sample_read 5) # [Cycle 10, Write (sample_read 9), Cycle 300, Cycle 301])
      (waiting_llc, MEMORY_CONTROLLER_init zero_packet) = Inr (c', d') \<and> dram_ok d' \<and>
    awaited c' = awaited waiting_llc \<and> (\<forall>e\<in>set (q_entry (d_RQ d')). p_address e \<noteq> 0 \<longrightarrow> p_address e \<in> awaited waiting_llc)"
  by (rule dram_run_safe)
    (use waiting_llc sample_request in \<open>simp_all add: sample_env_def NUM_CPUS_def\<close>)


lemma sample_reads:
  assumes "a \<noteq> 0"
  obtains d where "dram_add_rq sample_env (\<lambda>_. Inr) (\<lambda>_. Inr) (sample_read a) ((), MEMORY_CONTROLLER_init zero_packet) = Inr (-1, sample_read a, (), d)"
    "dram_ok d" "d_write_mode d = 0" "q_occupancy (d_RQ d) = 1"
    "\<forall>e\<in>set (q_entry (d_WQ d)) \<union> set (q_entry (d_RQ d)). p_address e = 0 \<or> p_address e = a"
proof -
  have "\<not> ucast (all_warmup_complete sample_env) < NUM_CPUS" by (simp add: sample_env_def NUM_CPUS_def)
  then obtain d where d: "dram_add_rq sample_env (\<lambda>_. Inr) (\<lambda>_. Inr) (sample_read a) ((), MEMORY_CONTROLLER_init zero_packet) = Inr (-1, sample_read a, (), d)"
    "dram_ok d" "d_write_mode d = 0" "q_occupancy (d_RQ d) = 1" "d_WQ d = d_WQ (MEMORY_CONTROLLER_init zero_packet)"
    "q_entry (d_RQ d) = (replicate 64 (PACKET_init zero_packet))[0 := sample_read a]"
    using first_read_ok [OF sample_request [OF assms], of "{a}" sample_env "\<lambda>_. Inr" "\<lambda>_. Inr" "()" zero_packet] by auto
  moreover have "\<forall>e\<in>set (q_entry (d_WQ d)) \<union> set (q_entry (d_RQ d)). p_address e = 0 \<or> p_address e = a"
    using d(5,6) init_queue(1) [of True zero_packet] blank_entry(2) [of zero_packet]
      set_update_subset_insert [of "replicate 64 (PACKET_init zero_packet)" 0 "sample_read a"]
    by (auto simp: dram_queue_def)
  ultimately show thesis using that by blast
qed

lemma select_request_spec:
  assumes "entries_ok (dram_queue wq d)"
  shows "case select_request wq d of
      None \<Rightarrow> \<forall>e\<in>set (q_entry (dram_queue wq d)). ready d e \<longrightarrow> p_event_cycle e = - 1
    | Some (i, h) \<Rightarrow> i < 64 \<and>
        (if h \<noteq> 0 then ready_row_hit d (q_entry (dram_queue wq d) ! i) \<and>
           (\<forall>e\<in>set (q_entry (dram_queue wq d)). ready_row_hit d e \<longrightarrow> p_event_cycle (q_entry (dram_queue wq d) ! i) \<le> p_event_cycle e)
         else ready d (q_entry (dram_queue wq d) ! i) \<and>
           (\<forall>e\<in>set (q_entry (dram_queue wq d)). ready d e \<longrightarrow> p_event_cycle (q_entry (dram_queue wq d) ! i) \<le> p_event_cycle e) \<and>
           (\<forall>e\<in>set (q_entry (dram_queue wq d)). ready_row_hit d e \<longrightarrow> p_event_cycle e = - 1))"
proof -
  let ?q = "dram_queue wq d"
  obtain c1 m1 where m1: "oldest_entry (ready_row_hit d) ?q = (c1, m1)" by force
  obtain c2 m2 where m2: "oldest_entry (ready d) ?q = (c2, m2)" by force
  note s1 = oldest_entry_spec [OF m1 entries_okD(3) [OF assms]] and s2 = oldest_entry_spec [OF m2 entries_okD(3) [OF assms]]
  note len = entries_okD(1) [OF assms]
  show ?thesis
  proof (cases m1)
    case (Some i)
    then show ?thesis using m1 s1 len by (simp add: select_request_def)
  next
    case None
    then have no_hit: "\<forall>e\<in>set (q_entry ?q). ready_row_hit d e \<longrightarrow> p_event_cycle e = - 1"
      using s1 by (auto simp: word_order.extremum_unique)
    show ?thesis
    proof (cases m2)
      case (Some j)
      then show ?thesis using None m1 m2 s2 len no_hit by (simp add: select_request_def)
    next
      case None2: None
      then show ?thesis using None m1 m2 s2 by (auto simp: select_request_def word_order.extremum_unique)
    qed
  qed
qed

text \<open>
  C12: First ready, first come. A call of \<^verbatim>\<open>schedule\<close> picks, among the waiting requests whose bank
  is free, the oldest one that hits the open row of its bank, and only when there is none the
  oldest of all; it marks the request scheduled after the row hit or the full row cycle
  latency, and its bank working on it with that row open. With no candidate it changes nothing.
\<close>

theorem schedule_first_ready:
  assumes "dram_ok d" "(d_write_mode d \<noteq> 0) = wq"
  shows "case select_request wq d of
      None \<Rightarrow> schedule T wq d = Inr d \<and> (\<forall>e\<in>set (q_entry (dram_queue wq d)). ready d e \<longrightarrow> p_event_cycle e = - 1)
    | Some (i, h) \<Rightarrow>
        (let e = q_entry (dram_queue wq d) ! i; es = set (q_entry (dram_queue wq d));
             t = dram_cycle T + (if h \<noteq> 0 then ucast (tCAS T) else ucast (tRP T + tRCD T + tCAS T)) in
         (if h \<noteq> 0 then ready_row_hit d e \<and> (\<forall>e'\<in>es. ready_row_hit d e' \<longrightarrow> p_event_cycle e \<le> p_event_cycle e')
          else ready d e \<and> (\<forall>e'\<in>es. ready d e' \<longrightarrow> p_event_cycle e \<le> p_event_cycle e') \<and>
            (\<forall>e'\<in>es. ready_row_hit d e' \<longrightarrow> p_event_cycle e' = - 1)) \<and>
         (\<exists>d'. schedule T wq d = Inr d' \<and> dram_ok d' \<and>
            q_entry (dram_queue wq d') = (q_entry (dram_queue wq d))[i := e\<lparr>p_scheduled := 1, p_event_cycle := t\<rparr>] \<and>
            br_working (d_bank d' ! bank_of (p_address e)) = 1 \<and> br_cycle_available (d_bank d' ! bank_of (p_address e)) = t \<and>
            br_open_row (d_bank d' ! bank_of (p_address e)) = dram_get_row (p_address e)))"
proof -
  let ?q = "dram_queue wq d"
  have core: "dram_core d" "sched (dram_queue (\<not> wq) d) = {}" "next_ok ?q" using assms by (auto simp: dram_ok_def)
  have q: "entries_ok ?q" "(q_is_WQ ?q \<noteq> 0) = wq" using core(1) dram_core_split [of d wq] by (simp_all add: queue_ok_def)
  note sel = select_request_spec [OF q(1)]
  show ?thesis
  proof (cases "select_request wq d")
    case None
    then show ?thesis using sel by (simp add: schedule_def)
  next
    case (Some ih)
    obtain i h where ih: "ih = (i, h)" by (cases ih)
    let ?e = "q_entry ?q ! i"
    have s: "select_request wq d = Some (i, h)" using Some ih by simp
    have i: "i < 64" "ready d ?e" by (rule select_request_Some [OF s q(1)])+
    have cpu: "\<not> NUM_CPUS \<le> p_cpu ?e"
      using entries_okD(4) [OF q(1) i(1)] i(2) by (auto simp: entry_ok_def ready_def not_le)
    have len: "bank_of (p_address ?e) < length (d_bank d)" using core(1) bank_of_less by (simp add: dram_core_def tables_ok_def)
    obtain d' where d': "schedule T wq d = Inr d'" "dram_core d'" "sched (dram_queue (\<not> wq) d') = {}" "next_ok (dram_queue wq d')"
      "d_write_mode d' = d_write_mode d" using schedule_ok [OF core] by blast
    have "dram_ok d'" using d' assms(2) by (auto simp: dram_ok_def)
    then show ?thesis using sel s q(2) cpu len d'(1) by (cases wq) (auto simp: schedule_def Let_def)
  qed
qed

theorem schedule_first_ready_witness:
  "\<exists>d. q_occupancy (d_RQ d) = 1 \<and> dram_ok d \<and>
    (case select_request False d of None \<Rightarrow> schedule sample_env False d = Inr d
      | Some (i, h) \<Rightarrow> \<exists>d'. schedule sample_env False d = Inr d' \<and> dram_ok d' \<and>
          br_working (d_bank d' ! bank_of (p_address (q_entry (d_RQ d) ! i))) = 1)"
proof -
  obtain d where d: "dram_ok d" "d_write_mode d = 0" "q_occupancy (d_RQ d) = 1" using sample_reads [of 5] by auto
  show ?thesis
    using schedule_first_ready [OF d(1), of False sample_env] d
    by (intro exI [of _ d]) (auto simp: Let_def dram_queue_def split: option.splits prod.splits)
qed

text \<open>
  A read that waits for nobody is queued. When the line is neither written back nor
  requested already and a slot is free, \<^verbatim>\<open>add_rq\<close> stores the request, counts it once in the
  occupancy and in the enqueue counter, leaves every request that waits in its slot, and keeps the
  invariant.
\<close>

theorem dram_add_rq_enqueues:
  assumes "dram_ok d" "request_ok p" "\<not> ucast (all_warmup_complete T) < NUM_CPUS"
    and "\<forall>e\<in>set (q_entry (d_WQ d)) \<union> set (q_entry (d_RQ d)). p_address e \<noteq> p_address p" "q_occupancy (d_RQ d) < 64"
  shows "\<exists>d'. dram_add_rq T reti ret p (w, d) = Inr (-1, p, w, d') \<and> dram_ok d' \<and> p \<in> set (q_entry (d_RQ d')) \<and>
    q_occupancy (d_RQ d') = q_occupancy (d_RQ d) + 1 \<and> d_rq_enqueue_count d' = d_rq_enqueue_count d + 1 \<and>
    (\<forall>j<64. p_address (q_entry (d_RQ d) ! j) \<noteq> 0 \<longrightarrow> q_entry (d_RQ d') ! j = q_entry (d_RQ d) ! j)"
proof -
  have tb: "tables_ok d" and ents: "entries_ok (d_WQ d)" "entries_ok (d_RQ d)"
    using assms(1) by (simp_all add: dram_ok_def dram_core_def queue_ok_def dram_queue_def)
  have chk: "check_dram_queue q p = -1" if "entries_ok q" "\<forall>e\<in>set (q_entry q). p_address e \<noteq> p_address p" for q
    using check_dram_queue_cases [OF that(1), of p] that(2) entries_okD(1) [OF that(1)] nth_mem [of _ "q_entry q"] by metis
  have "\<not> (\<forall>e\<in>set (q_entry (d_RQ d)). p_address e \<noteq> 0)"
  proof
    assume "\<forall>e\<in>set (q_entry (d_RQ d)). p_address e \<noteq> 0"
    then have "used_entries (q_entry (d_RQ d)) = q_entry (d_RQ d)" by (simp add: used_entries_def)
    then show False using assms(5) entries_okD(1,5) [OF ents(2)] by (simp add: word_less_nat_alt)
  qed
  then have "find (\<lambda>i. p_address (q_entry (d_RQ d) ! i) = 0) [0..<64] \<noteq> None"
    using entries_okD(1) [OF ents(2)] by (auto simp: find_None_iff in_set_conv_nth)
  then obtain q where Some: "dram_insert p 64 (d_RQ d) = Some q" by (auto simp: dram_insert_def)
  let ?d = "d\<lparr>d_RQ := q, d_rq_enqueue_count := d_rq_enqueue_count d + 1, d_RQ := update_schedule_cycle q\<rparr>"
  have "dram_ok ?d"
    by (rule dram_ok_insert [OF assms(1) _ assms(2), of False q])
      (use tb Some in \<open>auto simp: tables_ok_def scheduled_count_def dram_queue_def\<close>)
  moreover have "dram_add_rq T reti ret p (w, d) = Inr (-1, p, w, ?d)"
    using chk ents assms(3,4) Some by (simp add: dram_add_rq_def Let_def DRAM_RQ_SIZE_def)
  ultimately show ?thesis
    using dram_insert_ok(6,7,10) [OF ents(2) Some assms(2)] by (intro exI [of _ ?d]) simp
qed

theorem dram_add_rq_enqueues_witness:
  "\<exists>d d'. dram_add_rq sample_env (\<lambda>_. Inr) (\<lambda>_. Inr) (sample_read 5) ((), MEMORY_CONTROLLER_init zero_packet) = Inr (-1, sample_read 5, (), d) \<and>
    dram_add_rq sample_env (\<lambda>_. Inr) (\<lambda>_. Inr) (sample_read 9) ((), d) = Inr (-1, sample_read 9, (), d') \<and>
    q_occupancy (d_RQ d') = 2"
proof -
  obtain d where d: "dram_add_rq sample_env (\<lambda>_. Inr) (\<lambda>_. Inr) (sample_read 5) ((), MEMORY_CONTROLLER_init zero_packet) = Inr (-1, sample_read 5, (), d)"
    "dram_ok d" "d_write_mode d = 0" "q_occupancy (d_RQ d) = 1"
    "\<forall>e\<in>set (q_entry (d_WQ d)) \<union> set (q_entry (d_RQ d)). p_address e = 0 \<or> p_address e = 5"
    using sample_reads [of 5] by auto
  have "\<forall>e\<in>set (q_entry (d_WQ d)) \<union> set (q_entry (d_RQ d)). p_address e \<noteq> p_address (sample_read 9)"
  proof
    fix e assume "e \<in> set (q_entry (d_WQ d)) \<union> set (q_entry (d_RQ d))"
    then have "p_address e = 0 \<or> p_address e = 5" using d(5) by blast
    then show "p_address e \<noteq> p_address (sample_read 9)" by (elim disjE) simp_all
  qed
  then obtain d' where "dram_add_rq sample_env (\<lambda>_. Inr) (\<lambda>_. Inr) (sample_read 9) ((), d) = Inr (-1, sample_read 9, (), d')"
    "q_occupancy (d_RQ d') = q_occupancy (d_RQ d) + 1"
    using dram_add_rq_enqueues [OF d(2) sample_request, of 9 sample_env "\<lambda>_. Inr" "\<lambda>_. Inr" "()"] d(4)
    by (auto simp: sample_env_def NUM_CPUS_def)
  then show ?thesis using d(1,4) by auto
qed

text \<open>
  C28: The first cycle of a new controller reads past the end of \<^verbatim>\<open>current_core_cycle\<close>. The queues
  start with \<^verbatim>\<open>next_schedule_index\<close> 0, which is below their size, although the slot is empty; \<^verbatim>\<open>operate\<close>
  then indexes the cycles of the cores with the \<^verbatim>\<open>cpu\<close> of an empty packet, which is \<^verbatim>\<open>NUM_CPUS\<close>.
\<close>

theorem dram_first_cycle_out_of_bounds:
  "dram_operate T ret (w, MEMORY_CONTROLLER_init raw) = Inl Out_of_bounds"
proof -
  let ?i = "MEMORY_CONTROLLER_init raw"
  have "d_write_mode ?i = 0" by (simp add: MEMORY_CONTROLLER_init_def)
  moreover have "q_next_schedule_index (d_RQ ?i) = 0" "q_SIZE (d_RQ ?i) = 64" "q_entry (d_RQ ?i) ! 0 = PACKET_init raw"
    "q_occupancy (d_WQ ?i) = 0" "length (q_entry (d_RQ ?i)) = 64"
    by (simp_all add: MEMORY_CONTROLLER_init_def PACKET_QUEUE_init_def DRAM_WQ_SIZE_def DRAM_RQ_SIZE_def)
  moreover have "p_cpu (PACKET_init raw) = NUM_CPUS" by (simp add: PACKET_init_def)
  ultimately show ?thesis
    by (simp add: dram_operate_def switch_mode_def try_schedule_def try_process_def due_def dram_queue_def
        DRAM_WRITE_HIGH_WM_def DRAM_WQ_SIZE_def Let_def)
qed

end
