(* ===== verification/DramLatency.thy ===== *)
theory DramLatency
  imports DramRun
begin

text \<open>
  How long a read takes: the cycles of an idle controller, from the arrival of one read to the
  return of its data and the next idle state.
\<close>

section \<open>A queue with one request\<close>

definition blank :: "packet \<Rightarrow> bool" where
  "blank e \<longleftrightarrow> p_address e = 0 \<and> p_scheduled e = 0"

text \<open>Every slot but the first is blank.\<close>

definition rest_blank :: "packet_queue \<Rightarrow> bool" where
  "rest_blank q \<longleftrightarrow> q_SIZE q = 64 \<and> length (q_entry q) = 64 \<and> (\<forall>j. 0 < j \<and> j < 64 \<longrightarrow> blank (q_entry q ! j))"

lemma rest_blank_len: "rest_blank q \<Longrightarrow> length (q_entry q) = unat (q_SIZE q)"
  by (simp add: rest_blank_def)

lemma rest_blank_update: "rest_blank q \<Longrightarrow> q_SIZE q' = q_SIZE q \<Longrightarrow> q_entry q' = (q_entry q)[0 := e] \<Longrightarrow> rest_blank q'"
  by (simp add: rest_blank_def)

lemma blank_init: "blank (PACKET_init raw)"
  by (simp add: blank_def blank_entry)

lemma rest_blank_found:
  assumes "rest_blank q" "j < 64" "P (q_entry q ! j)" "\<And>e. blank e \<Longrightarrow> \<not> P e"
  shows "j = 0"
  using assms by (auto simp: rest_blank_def)

lemma single_oldest:
  assumes "rest_blank q" "\<And>e. blank e \<Longrightarrow> \<not> P e" "P (q_entry q ! 0)" "p_event_cycle (q_entry q ! 0) \<noteq> - 1"
  shows "oldest_entry P q = (p_event_cycle (q_entry q ! 0), Some 0)"
proof -
  obtain cyc m where m: "oldest_entry P q = (cyc, m)" by force
  note s = oldest_entry_spec [OF m rest_blank_len [OF assms(1)]]
  have len: "length (q_entry q) = 64" using assms(1) by (simp add: rest_blank_def)
  then have "q_entry q ! 0 \<in> set (q_entry q)" by simp
  then have "cyc \<le> p_event_cycle (q_entry q ! 0)" using s(2) assms(3) by blast
  then have "cyc \<noteq> - 1" using assms(4) by (auto simp: word_order.extremum_unique)
  then obtain j where j: "m = Some j" "j < 64" "P (q_entry q ! j)" "p_event_cycle (q_entry q ! j) = cyc"
    using s(1) len by (auto split: option.splits)
  then have "j = 0" using rest_blank_found [of q j P] assms(1,2) by blast
  then show ?thesis using j m by simp
qed

lemma single_none:
  assumes "rest_blank q" "\<And>e. blank e \<Longrightarrow> \<not> P e" "\<not> P (q_entry q ! 0)"
  shows "oldest_entry P q = (- 1, None)"
proof -
  obtain cyc m where m: "oldest_entry P q = (cyc, m)" by force
  note s = oldest_entry_spec(1) [OF m rest_blank_len [OF assms(1)]]
  have len: "length (q_entry q) = 64" using assms(1) by (simp add: rest_blank_def)
  have "m = None"
  proof (rule ccontr)
    assume "m \<noteq> None"
    then obtain j where "j < 64" "P (q_entry q ! j)" using s len by auto
    then show False using rest_blank_found [of q j P] assms by blast
  qed
  then show ?thesis using s m by simp
qed

lemma blank_waits: "blank e \<Longrightarrow> \<not> (p_address e \<noteq> 0 \<and> p_scheduled e = 0)"
  by (simp add: blank_def)

lemma blank_unscheduled: "blank e \<Longrightarrow> \<not> p_scheduled e \<noteq> 0"
  by (simp add: blank_def)

section \<open>An idle controller\<close>

text \<open>
  No request is queued and no bank works; rows may be open, the bus may still be taken, and the
  statistics are arbitrary. The next indices are those of a new queue or of an emptied one.
\<close>

definition idle :: "dram \<Rightarrow> bool" where
  "idle d \<longleftrightarrow> tables_ok d \<and> d_write_mode d = 0 \<and> d_scheduled_reads d = 0 \<and> (\<forall>b\<in>set (d_bank d). br_working b = 0) \<and>
     q_SIZE (d_WQ d) = 64 \<and> length (q_entry (d_WQ d)) = 64 \<and> q_occupancy (d_WQ d) = 0 \<and> (\<forall>e\<in>set (q_entry (d_WQ d)). blank e) \<and>
     q_SIZE (d_RQ d) = 64 \<and> length (q_entry (d_RQ d)) = 64 \<and> q_occupancy (d_RQ d) = 0 \<and> (\<forall>e\<in>set (q_entry (d_RQ d)). blank e) \<and>
     q_is_WQ (d_RQ d) = 0 \<and>
     (64 \<le> q_next_process_index (d_RQ d) \<or> q_next_process_index (d_RQ d) = 0 \<and> q_next_process_cycle (d_RQ d) = - 1)"

lemma idle_init: "idle (MEMORY_CONTROLLER_init raw)"
  using init_core [of raw]
  by (simp add: idle_def dram_core_def blank_init)
    (simp add: MEMORY_CONTROLLER_init_def PACKET_QUEUE_init_def DRAM_WQ_SIZE_def DRAM_RQ_SIZE_def BANK_REQUEST_init_def blank_init)

lemma idle_rest: "idle d \<Longrightarrow> rest_blank (d_RQ d)"
  by (simp add: idle_def rest_blank_def)

lemma idle_check:
  assumes "idle d" "p_address p \<noteq> 0"
  shows "check_dram_queue (d_WQ d) p = -1" "check_dram_queue (d_RQ d) p = -1"
proof -
  have "check_dram_queue q p = -1" if "q_SIZE q = 64" "length (q_entry q) = 64" "\<forall>e\<in>set (q_entry q). blank e" for q
  proof -
    have "p_address (q_entry q ! i) \<noteq> p_address p" if "i < 64" for i
      using \<open>\<forall>e\<in>set (q_entry q). blank e\<close> \<open>length (q_entry q) = 64\<close> that assms(2) by (simp add: blank_def all_set_conv_all_nth)
    then have "find (\<lambda>i. p_address (q_entry q ! i) = p_address p) [0..<64] = None" by (auto simp: find_None_iff)
    then show ?thesis using that(1) by (simp add: check_dram_queue_def)
  qed
  then show "check_dram_queue (d_WQ d) p = -1" "check_dram_queue (d_RQ d) p = -1" using assms(1) by (simp_all add: idle_def)
qed

lemma read_mode:
  assumes "d_write_mode d = 0" "q_occupancy (d_WQ d) = 0"
  shows "dram_operate T ret (w, d) = bind_res (try_schedule T False d) (\<lambda>d. try_process T ret False (w, d))"
proof -
  have "\<not> DRAM_WRITE_HIGH_WM \<le> 0" by (simp add: DRAM_WRITE_HIGH_WM_def DRAM_WQ_SIZE_def)
  then show ?thesis using assms by (simp add: dram_operate_def switch_mode_def try_schedule_def try_process_def)
qed

section \<open>The read is queued\<close>

definition queued :: "packet \<Rightarrow> dram \<Rightarrow> dram" where
  "queued p d =
     d\<lparr>d_RQ := (d_RQ d)\<lparr>q_entry := (q_entry (d_RQ d))[0 := p], q_occupancy := 1,
         q_next_schedule_cycle := p_event_cycle p, q_next_schedule_index := 0\<rparr>,
       d_rq_enqueue_count := d_rq_enqueue_count d + 1\<rparr>"

lemma queued_frame [simp]:
  "q_entry (d_RQ (queued p d)) = (q_entry (d_RQ d))[0 := p]" "q_SIZE (d_RQ (queued p d)) = q_SIZE (d_RQ d)"
  "q_occupancy (d_RQ (queued p d)) = 1" "q_is_WQ (d_RQ (queued p d)) = q_is_WQ (d_RQ d)"
  "q_next_schedule_cycle (d_RQ (queued p d)) = p_event_cycle p" "q_next_schedule_index (d_RQ (queued p d)) = 0"
  "q_next_process_cycle (d_RQ (queued p d)) = q_next_process_cycle (d_RQ d)"
  "q_next_process_index (d_RQ (queued p d)) = q_next_process_index (d_RQ d)"
  "d_WQ (queued p d) = d_WQ d" "d_write_mode (queued p d) = d_write_mode d" "d_bank (queued p d) = d_bank d"
  "d_scheduled_reads (queued p d) = d_scheduled_reads d" "d_dbus_cycle_available (queued p d) = d_dbus_cycle_available d"
  "d_dbus_congested (queued p d) = d_dbus_congested d" "d_ACCESS (queued p d) = d_ACCESS d" "d_HIT (queued p d) = d_HIT d"
  by (simp_all add: queued_def)

lemma read_is_queued:
  assumes "idle d" "request_ok p" "\<not> ucast (all_warmup_complete T) < NUM_CPUS" "p_event_cycle p \<noteq> - 1"
  shows "dram_add_rq T reti ret p (w, d) = Inr (-1, p, w, queued p d)"
proof -
  have p: "p_address p \<noteq> 0" "p_scheduled p = 0" using assms(2) by (simp_all add: request_ok_def)
  have i: "q_SIZE (d_RQ d) = 64" "length (q_entry (d_RQ d)) = 64" "q_occupancy (d_RQ d) = 0" "blank (q_entry (d_RQ d) ! 0)"
    using assms(1) by (simp_all add: idle_def)
  let ?q = "(d_RQ d)\<lparr>q_entry := (q_entry (d_RQ d))[0 := p], q_occupancy := 1\<rparr>"
  have "[0..<64] = 0 # [1..<64::nat]" by (simp add: upt_conv_Cons)
  then have ins: "dram_insert p 64 (d_RQ d) = Some ?q" using i by (simp add: dram_insert_def blank_def)
  have rest: "rest_blank ?q" using rest_blank_update [OF idle_rest [OF assms(1)], of ?q p] by simp
  have "oldest_entry (\<lambda>e. p_address e \<noteq> 0 \<and> p_scheduled e = 0) ?q = (p_event_cycle p, Some 0)"
    using single_oldest [OF rest blank_waits] p i(2) assms(4) by simp
  then have "update_schedule_cycle ?q = ?q\<lparr>q_next_schedule_cycle := p_event_cycle p, q_next_schedule_index := 0\<rparr>"
    by (simp add: update_schedule_cycle_def index_or_size_def)
  then show ?thesis
    using idle_check [OF assms(1) p(1)] ins assms(3) by (simp add: dram_add_rq_def Let_def DRAM_RQ_SIZE_def queued_def)
qed

lemma queued_waits:
  assumes "idle d" "request_ok p" "x < p_event_cycle p"
  shows "dram_operate (T\<lparr>dram_cycle := x\<rparr>) ret (w, queued p d) = Inr (w, queued p d)"
proof -
  have p: "\<not> NUM_CPUS \<le> p_cpu p" using assms(2) by (auto simp: request_ok_def not_le)
  have "\<not> p_event_cycle p \<le> x" "x \<noteq> - 1"
    using assms(3) word_order.extremum_strict [of "p_event_cycle p"] by (auto simp: not_le)
  then have x: "\<not> p_event_cycle p \<le> x" "\<not> - 1 \<le> x" by (simp_all add: word_order.extremum_unique)
  have i: "d_write_mode d = 0" "q_occupancy (d_WQ d) = 0" "q_SIZE (d_RQ d) = 64" "length (q_entry (d_RQ d)) = 64"
    "\<not> q_next_process_index (d_RQ d) < 64 \<or> q_next_process_index (d_RQ d) = 0 \<and> q_next_process_cycle (d_RQ d) = - 1"
    using assms(1) by (auto simp: idle_def not_less)
  have len: "q_entry (d_RQ d) \<noteq> []" using i(4) by auto
  have "try_schedule (T\<lparr>dram_cycle := x\<rparr>) False (queued p d) = Inr (queued p d)"
    using i(1,3,4) p x(1) by (simp add: try_schedule_def due_def dram_queue_def)
  moreover have "try_process (T\<lparr>dram_cycle := x\<rparr>) ret False (w, queued p d) = Inr (w, queued p d)"
    using i p x(2) len by (auto simp: try_process_def due_def dram_queue_def Let_def)
  ultimately show ?thesis using i by (simp add: read_mode)
qed

section \<open>Its bank works\<close>

text \<open>A row hit takes \<^verbatim>\<open>tCAS\<close>, any other access the full row cycle.\<close>

definition access_latency :: "dram_env \<Rightarrow> dram \<Rightarrow> u64 \<Rightarrow> u64" where
  "access_latency T d a =
     (if br_open_row (d_bank d ! bank_of a) = dram_get_row a then ucast (tCAS T) else ucast (tRP T + tRCD T + tCAS T))"

text \<open>
  The read is scheduled until \<open>fin\<close>, or until the bus is free when that is later; everything the
  next idle state depends on is pinned.
\<close>

definition in_flight :: "packet \<Rightarrow> dram \<Rightarrow> u64 \<Rightarrow> dram \<Rightarrow> bool" where
  "in_flight p d0 fin d \<longleftrightarrow> tables_ok d \<and> d_write_mode d = 0 \<and> d_WQ d = d_WQ d0 \<and> d_scheduled_reads d = 1 \<and>
     d_dbus_cycle_available d = d_dbus_cycle_available d0 \<and>
     rest_blank (d_RQ d) \<and> q_entry (d_RQ d) ! 0 = p\<lparr>p_scheduled := 1, p_event_cycle := fin\<rparr> \<and>
     q_occupancy (d_RQ d) = 1 \<and> q_is_WQ (d_RQ d) = 0 \<and> q_next_schedule_index (d_RQ d) = 64 \<and>
     q_next_process_index (d_RQ d) = 0 \<and> q_next_process_cycle (d_RQ d) = fin \<and>
     (\<exists>b. d_bank d = (d_bank d0)[bank_of (p_address p) := b] \<and> br_working b \<noteq> 0 \<and> br_working_type b = p_type p \<and>
        br_request_index b = 0 \<and> br_open_row b = dram_get_row (p_address p) \<and>
        br_cycle_available b \<le> max fin (d_dbus_cycle_available d0))"

lemma in_flight_bank:
  assumes "in_flight p d0 fin d" "idle d0"
  obtains b where "d_bank d ! bank_of (p_address p) = b" "d_bank d = (d_bank d0)[bank_of (p_address p) := b]" "br_working b \<noteq> 0"
    "br_working_type b = p_type p" "br_request_index b = 0" "br_open_row b = dram_get_row (p_address p)"
    "br_cycle_available b \<le> max fin (d_dbus_cycle_available d0)"
proof -
  have "bank_of (p_address p) < length (d_bank d0)" using assms(2) bank_of_less by (simp add: idle_def tables_ok_def)
  then show thesis using assms(1) that by (auto simp: in_flight_def)
qed

lemma read_is_started:
  assumes "idle d0" "request_ok p" "p_event_cycle p \<noteq> - 1" "p_event_cycle p \<le> t"
    and "fin = t + access_latency T d0 (p_address p)" "\<not> fin \<le> t" "fin \<noteq> - 1"
  shows "\<exists>d. dram_operate (T\<lparr>dram_cycle := t\<rparr>) ret (w, queued p d0) = Inr (w, d) \<and> in_flight p d0 fin d"
proof -
  have p: "p_address p \<noteq> 0" "p_scheduled p = 0" "\<not> NUM_CPUS \<le> p_cpu p" using assms(2) by (auto simp: request_ok_def not_le)
  let ?d = "queued p d0" and ?e = "p\<lparr>p_scheduled := 1, p_event_cycle := fin\<rparr>" and ?k = "bank_of (p_address p)"
  have i: "tables_ok d0" "d_write_mode d0 = 0" "q_occupancy (d_WQ d0) = 0" "d_scheduled_reads d0 = 0" "q_SIZE (d_RQ d0) = 64"
    "length (q_entry (d_RQ d0)) = 64" "q_is_WQ (d_RQ d0) = 0"
    using assms(1) by (simp_all add: idle_def)
  have k: "?k < length (d_bank d0)" using i(1) bank_of_less by (simp add: tables_ok_def)
  then have free: "br_working (d_bank d0 ! ?k) = 0" using assms(1) by (simp add: idle_def)
  have rest: "rest_blank (d_RQ ?d)" using rest_blank_update [OF idle_rest [OF assms(1)], of "d_RQ ?d" p] by simp
  define h :: u8 where "h = (if br_open_row (d_bank d0 ! ?k) = dram_get_row (p_address p) then 1 else 0)"
  have sel: "select_request False ?d = Some (0, h)"
  proof -
    have b: "\<not> ready_row_hit ?d e" "\<not> ready ?d e" if "blank e" for e using that by (simp_all add: blank_def ready_row_hit_def ready_def)
    have "oldest_entry (ready ?d) (d_RQ ?d) = (p_event_cycle p, Some 0)"
      using single_oldest [where P = "ready ?d", OF rest b(2)] p free i(6) assms(3) by (simp add: ready_def)
    moreover have "oldest_entry (ready_row_hit ?d) (d_RQ ?d) = (if h = 1 then (p_event_cycle p, Some 0) else (- 1, None))"
      using single_oldest [where P = "ready_row_hit ?d", OF rest b(1)] single_none [where P = "ready_row_hit ?d", OF rest b(1)] p free i(6) assms(3) by (simp add: ready_row_hit_def h_def)
    ultimately show ?thesis by (simp add: select_request_def dram_queue_def h_def)
  qed
  let ?q = "(d_RQ ?d)\<lparr>q_entry := (q_entry (d_RQ d0))[0 := ?e]\<rparr>"
  let ?u = "?q\<lparr>q_next_schedule_cycle := - 1, q_next_schedule_index := 64\<rparr>"
  let ?v = "?u\<lparr>q_next_process_cycle := fin, q_next_process_index := 0\<rparr>"
  have restq: "rest_blank ?q" "rest_blank ?u" "rest_blank ?v"
    by (rule rest_blank_update [OF idle_rest [OF assms(1)]]; simp)+
  have "oldest_entry (\<lambda>e. p_address e \<noteq> 0 \<and> p_scheduled e = 0) ?q = (- 1, None)"
    using single_none [OF restq(1) blank_waits] i(6) by simp
  then have "update_schedule_cycle ?q = ?u" using i(5) by (simp add: update_schedule_cycle_def index_or_size_def)
  moreover have "oldest_entry (\<lambda>e. p_scheduled e \<noteq> 0) ?u = (fin, Some 0)"
    using single_oldest [OF restq(2) blank_unscheduled] i(6) assms(7) by simp
  then have "update_process_cycle ?u = ?v" by (simp add: update_process_cycle_def index_or_size_def)
  ultimately have upd: "update_process_cycle (update_schedule_cycle ?q) = ?v" by simp
  let ?b = "(d_bank d0 ! ?k)\<lparr>br_working := 1, br_working_type := p_type p, br_cycle_available := fin, br_request_index := 0,
      br_row_buffer_hit := h, br_is_write := 0, br_is_read := 1, br_open_row := dram_get_row (p_address p)\<rparr>"
  let ?s = "?d\<lparr>d_bank := (d_bank d0)[?k := ?b], d_scheduled_reads := 1, d_RQ := ?v\<rparr>"
  have lat: "h \<noteq> 0 \<Longrightarrow> t + ucast (tCAS T) = fin" "h = 0 \<Longrightarrow> t + ucast (tRP T + tRCD T + tCAS T) = fin"
    by (simp_all add: access_latency_def h_def assms(5) split: if_splits)
  have "schedule (T\<lparr>dram_cycle := t\<rparr>) False ?d = Inr ?s"
    using sel p(3) i upd by (simp add: schedule_def dram_queue_def put_queue_def Let_def lat)
  then have "try_schedule (T\<lparr>dram_cycle := t\<rparr>) False ?d = Inr ?s"
    using assms(4) p(3) i by (simp add: try_schedule_def due_def dram_queue_def)
  moreover have "try_process (T\<lparr>dram_cycle := t\<rparr>) ret False (w, ?s) = Inr (w, ?s)"
    using assms(6) p(3) i by (simp add: try_process_def due_def dram_queue_def)
  ultimately have "dram_operate (T\<lparr>dram_cycle := t\<rparr>) ret (w, ?d) = Inr (w, ?s)" using i by (simp add: read_mode)
  moreover have "in_flight p d0 fin ?s"
    using i restq(3) by (simp add: in_flight_def tables_ok_def) (intro exI [of _ ?b], simp)
  ultimately show ?thesis by blast
qed

lemma read_waits:
  assumes "idle d0" "request_ok p" "in_flight p d0 fin d" "x < max fin (d_dbus_cycle_available d0)"
  shows "\<exists>d'. dram_operate (T\<lparr>dram_cycle := x\<rparr>) ret (w, d) = Inr (w, d') \<and> in_flight p d0 fin d'"
proof -
  let ?T = "T\<lparr>dram_cycle := x\<rparr>" and ?k = "bank_of (p_address p)"
  have p: "\<not> NUM_CPUS \<le> p_cpu p" "unat (p_type p) < 5" using assms(2) by (auto simp: request_ok_def not_le NUM_TYPES_def)
  have n: "NUM_TYPES < 5" by (simp add: NUM_TYPES_def)
  have s: "d_write_mode d = 0" "d_WQ d = d_WQ d0" "q_SIZE (d_RQ d) = 64" "length (q_entry (d_RQ d)) = 64" "rest_blank (d_RQ d)"
    "q_entry (d_RQ d) ! 0 = p\<lparr>p_scheduled := 1, p_event_cycle := fin\<rparr>" "q_next_schedule_index (d_RQ d) = 64"
    "q_next_process_index (d_RQ d) = 0" "q_next_process_cycle (d_RQ d) = fin" "d_dbus_cycle_available d = d_dbus_cycle_available d0"
    using assms(3) by (auto simp: in_flight_def rest_blank_def)
  have wq: "q_occupancy (d_WQ d) = 0" using assms(1) s(2) by (simp add: idle_def)
  have ne: "q_entry (d_RQ d) \<noteq> []" using s(4) by auto
  obtain b where b: "d_bank d ! ?k = b" "d_bank d = (d_bank d0)[?k := b]" "br_working b \<noteq> 0" "br_working_type b = p_type p"
    "br_request_index b = 0" "br_open_row b = dram_get_row (p_address p)" "br_cycle_available b \<le> max fin (d_dbus_cycle_available d0)"
    by (rule in_flight_bank [OF assms(3,1)])
  have "try_schedule ?T False d = Inr d" using s by (simp add: try_schedule_def due_def dram_queue_def)
  then have go: "dram_operate ?T ret (w, d) = (if fin \<le> x then process ?T ret False (w, d) else Inr (w, d))"
    using s wq p(1) ne by (simp add: read_mode try_process_def due_def dram_queue_def)
  show ?thesis
  proof (cases "fin \<le> x \<and> br_cycle_available b \<le> x")
    case True
    then have busy: "\<not> d_dbus_cycle_available d0 \<le> x" using assms(4) by (auto simp: max_def not_le split: if_splits)
    have T: "length (d_dbus_congested d) = 5" "\<forall>r\<in>set (d_dbus_congested d). length r = 5"
      using assms(3) by (simp_all add: in_flight_def tables_ok_def)
    obtain t1 where t1: "bump2 NUM_TYPES NUM_TYPES (d_dbus_congested d) = Inr t1" "length t1 = 5" "\<forall>r\<in>set t1. length r = 5"
      using bump2_ok [OF T n n] by blast
    obtain t2 where t2: "bump2 NUM_TYPES (unat (p_type p)) t1 = Inr t2" "length t2 = 5" "\<forall>r\<in>set t2. length r = 5"
      using bump2_ok [OF t1(2,3) n p(2)] by blast
    obtain t3 where t3: "bump2 (unat (p_type p)) NUM_TYPES t2 = Inr t3" "length t3 = 5" "\<forall>r\<in>set t3. length r = 5"
      using bump2_ok [OF t2(2,3) p(2) n] by blast
    obtain t4 where t4: "bump2 (unat (p_type p)) (unat (p_type p)) t3 = Inr t4" "length t4 = 5" "\<forall>r\<in>set t4. length r = 5"
      using bump2_ok [OF t3(2,3) p(2) p(2)] by blast
    let ?b = "b\<lparr>br_cycle_available := d_dbus_cycle_available d0\<rparr>"
    let ?d = "d\<lparr>d_dbus_cycle_congested := d_dbus_cycle_congested d + (d_dbus_cycle_available d0 - x),
      d_bank := (d_bank d)[?k := ?b], d_dbus_congested := t4\<rparr>"
    have "congested ?T (q_entry (d_RQ d) ! 0) d = Inr ?d"
      using s b(1,4) t1(1) t2(1) t3(1) t4(1) by (simp add: congested_def Let_def)
    then have "dram_operate ?T ret (w, d) = Inr (w, ?d)"
      using go True busy s b(1,5) p(1) ne by (simp add: process_def dram_queue_def Let_def)
    moreover have "in_flight p d0 fin ?d"
      using assms(3) t4(2,3) b by (simp add: in_flight_def tables_ok_def) (intro exI [of _ ?b], simp)
    ultimately show ?thesis by blast
  next
    case False
    then have "dram_operate ?T ret (w, d) = Inr (w, d)"
      using go s b(1,5) p(1) ne by (auto simp: process_def dram_queue_def Let_def)
    then show ?thesis using assms(3) by blast
  qed
qed

section \<open>The data is returned\<close>

definition returned :: "dram_env \<Rightarrow> packet \<Rightarrow> u64 \<Rightarrow> packet" where
  "returned T p t = p\<lparr>p_scheduled := 1, p_event_cycle := t + ucast (DRAM_DBUS_RETURN_TIME T)\<rparr>"

lemma release_bank_frame [simp]: "br_working (release_bank b) = 0" "br_open_row (release_bank b) = br_open_row b"
  by (simp_all add: release_bank_def)

lemma read_is_answered:
  assumes "idle d0" "request_ok p" "in_flight p d0 fin d" "max fin (d_dbus_cycle_available d0) \<le> x" "ret (returned T p x) w = Inr w'"
  shows "\<exists>d'. dram_operate (T\<lparr>dram_cycle := x\<rparr>) ret (w, d) = Inr (w', d') \<and> idle d' \<and>
    d_dbus_cycle_available d' = x + ucast (DRAM_DBUS_RETURN_TIME T) \<and>
    map br_open_row (d_bank d') = (map br_open_row (d_bank d0))[bank_of (p_address p) := dram_get_row (p_address p)]"
proof -
  let ?T = "T\<lparr>dram_cycle := x\<rparr>" and ?k = "bank_of (p_address p)" and ?bus = "x + ucast (DRAM_DBUS_RETURN_TIME T)"
  have p: "\<not> NUM_CPUS \<le> p_cpu p" using assms(2) by (auto simp: request_ok_def not_le)
  have s: "d_write_mode d = 0" "d_WQ d = d_WQ d0" "q_SIZE (d_RQ d) = 64" "length (q_entry (d_RQ d)) = 64" "rest_blank (d_RQ d)"
    "q_entry (d_RQ d) ! 0 = p\<lparr>p_scheduled := 1, p_event_cycle := fin\<rparr>" "q_next_schedule_index (d_RQ d) = 64"
    "q_next_process_index (d_RQ d) = 0" "q_next_process_cycle (d_RQ d) = fin" "d_dbus_cycle_available d = d_dbus_cycle_available d0"
    "q_occupancy (d_RQ d) = 1" "q_is_WQ (d_RQ d) = 0" "d_scheduled_reads d = 1" "tables_ok d"
    using assms(3) by (auto simp: in_flight_def rest_blank_def)
  have wq: "q_occupancy (d_WQ d) = 0" using assms(1) s(2) by (simp add: idle_def)
  have ne: "q_entry (d_RQ d) \<noteq> []" using s(4) by auto
  obtain b where b: "d_bank d ! ?k = b" "d_bank d = (d_bank d0)[?k := b]" "br_request_index b = 0"
    "br_open_row b = dram_get_row (p_address p)" "br_cycle_available b \<le> max fin (d_dbus_cycle_available d0)"
    by (rule in_flight_bank [OF assms(3,1)])
  have le: "fin \<le> x" "d_dbus_cycle_available d0 \<le> x" "br_cycle_available b \<le> x" using assms(4) b(5) by (auto simp: max_def split: if_splits)
  have "try_schedule ?T False d = Inr d" using s by (simp add: try_schedule_def due_def dram_queue_def)
  then have go: "dram_operate ?T ret (w, d) = transfer ?T ret False 0 (w, d)"
    using s wq p ne b(1,3) le by (simp add: read_mode try_process_def process_def due_def dram_queue_def Let_def)
  let ?q = "count_row_buffer b ((d_RQ d)\<lparr>q_entry := (q_entry (d_RQ d))[0 := returned T p x]\<rparr>)"
  obtain q where q: "remove_queue (dram_blank T) 0 ?q = Inr q" "q_SIZE q = 64" "q_is_WQ q = 0" "q_occupancy q = 0"
    "q_entry q = (q_entry (d_RQ d))[0 := PACKET_init (dram_blank T)]"
    using s ne by (simp add: remove_queue_def Let_def)
  have rest: "rest_blank q" using rest_blank_update [OF s(5)] q(2,5) s(3) by simp
  have blank0: "blank (q_entry q ! 0)" using q(5) s(4) blank_init by simp
  have all_blank: "\<forall>e\<in>set (q_entry q). blank e"
  proof -
    have "blank (q_entry q ! j)" if "j < 64" for j using rest blank0 that by (cases "j = 0") (simp_all add: rest_blank_def)
    then show ?thesis using rest by (simp add: rest_blank_def all_set_conv_all_nth)
  qed
  have "oldest_entry (\<lambda>e. p_scheduled e \<noteq> 0) q = (- 1, None)"
    by (rule single_none [OF rest]) (use blank0 in \<open>simp_all add: blank_def\<close>)
  then have upd: "update_process_cycle q = q\<lparr>q_next_process_cycle := - 1, q_next_process_index := 64\<rparr>"
    using q(2) by (simp add: update_process_cycle_def index_or_size_def)
  let ?d = "d\<lparr>d_dbus_cycle_available := ?bus, d_bank := (d_bank d)[?k := release_bank b], d_scheduled_reads := 0,
    d_RQ := q\<lparr>q_next_process_cycle := - 1, q_next_process_index := 64\<rparr>\<rparr>"
  have "transfer ?T ret False 0 (w, d) = Inr (w', ?d)"
    using q(1) assms(5) s b(1) upd by (simp add: transfer_def dram_queue_def put_queue_def Let_def returned_def)
  moreover have "idle ?d"
  proof -
    have "\<forall>b'\<in>set ((d_bank d0)[?k := release_bank b]). br_working b' = 0"
      using assms(1) set_update_subset_insert [of "d_bank d0" ?k "release_bank b"] by (auto simp: idle_def)
    moreover have "tables_ok ?d" using s(14) by (simp add: tables_ok_def)
    moreover have "length (q_entry q) = 64" using rest by (simp add: rest_blank_def)
    ultimately show ?thesis using assms(1) s(1,2) q(2-4) b(2) all_blank by (simp add: idle_def)
  qed
  moreover have "map br_open_row (d_bank ?d) = (map br_open_row (d_bank d0))[?k := dram_get_row (p_address p)]"
    using b(2,4) by (simp add: map_update)
  ultimately show ?thesis using go by (intro exI [of _ ?d]) simp
qed

section \<open>Runs\<close>

lemma dram_run_append: "dram_run T (xs @ ys) s = bind_res (dram_run T xs s) (dram_run T ys)"
  by (induction xs arbitrary: s) (simp_all add: bind_res_def split: sum.splits)

lemma queued_waits_run:
  assumes "idle d" "request_ok p" "\<forall>x\<in>set xs. x < p_event_cycle p"
  shows "dram_run T (map Cycle xs) (c, queued p d) = Inr (c, queued p d)"
  using assms(3) by (induction xs) (simp_all add: queued_waits [OF assms(1,2)])

lemma read_waits_run:
  assumes "idle d0" "request_ok p" "in_flight p d0 fin d" "\<forall>x\<in>set xs. x < max fin (d_dbus_cycle_available d0)"
  shows "\<exists>d'. dram_run T (map Cycle xs) (c, d) = Inr (c, d') \<and> in_flight p d0 fin d'"
  using assms(3,4)
proof (induction xs arbitrary: d)
  case Nil
  then show ?case by simp
next
  case (Cons x xs)
  then obtain d1 where d1: "dram_operate (T\<lparr>dram_cycle := x\<rparr>) (return_data x) (c, d) = Inr (c, d1)" "in_flight p d0 fin d1"
    using read_waits [OF assms(1,2), of fin d x T "return_data x" c] by auto
  obtain d2 where "dram_run T (map Cycle xs) (c, d1) = Inr (c, d2)" "in_flight p d0 fin d2"
    using Cons.IH [OF d1(2)] Cons.prems by auto
  then show ?case using d1(1) by simp
qed

text \<open>The cycle from which the data of a read, started in cycle \<open>t\<close>, can be returned.\<close>

definition answer_cycle :: "dram_env \<Rightarrow> dram \<Rightarrow> packet \<Rightarrow> u64 \<Rightarrow> u64" where
  "answer_cycle T d p t = max (t + access_latency T d (p_address p)) (d_dbus_cycle_available d)"

section \<open>Properties\<close>

text \<open>
  C11: A read is answered, and after how long. Take any idle controller, whatever rows it has open
  and however long its bus is taken. Cycles before the event cycle of the read do nothing; the
  first cycle from it on starts the bank of the read; in however many cycles follow before
  \<open>tCAS\<close> have passed when the row is open, before \<open>tRP + tRCD + tCAS\<close> otherwise, or while the bus is
  still taken, the LLC gets nothing; the first cycle after that returns the data: the register of
  the line in the LLC is completed, and the controller is idle again, with the row of the read open,
  the other rows as before, and the bus taken for the transfer time.
\<close>

theorem dram_read_completes:
  assumes "idle d" "p_address p \<in> awaited c" "request_ok p" "\<not> ucast (all_warmup_complete T) < NUM_CPUS"
    and "\<forall>x\<in>set early. x < p_event_cycle p" "p_event_cycle p \<le> t"
    and "access_latency T d (p_address p) \<noteq> 0" "unat t + unat (access_latency T d (p_address p)) < 2 ^ 64 - 1"
    and "\<forall>x\<in>set between. x < answer_cycle T d p t" "answer_cycle T d p t \<le> t'"
  shows "\<exists>d1 c' d' i.
    dram_run T (Read p # map Cycle early @ Cycle t # map Cycle between) (c, d) = Inr (c, d1) \<and>
    dram_run T [Cycle t'] (c, d1) = Inr (c', d') \<and>
    check_mshr c' p = int i \<and> p_returned (q_entry (c_MSHR c') ! i) = COMPLETED \<and> p_data (q_entry (c_MSHR c') ! i) = p_data p \<and>
    awaited c' = awaited c \<and> idle d' \<and>
    map br_open_row (d_bank d') = (map br_open_row (d_bank d))[bank_of (p_address p) := dram_get_row (p_address p)] \<and>
    d_dbus_cycle_available d' = t' + ucast (DRAM_DBUS_RETURN_TIME T)"
proof -
  let ?r = "returned T p t'" and ?fin = "t + access_latency T d (p_address p)"
  have fin: "unat ?fin = unat t + unat (access_latency T d (p_address p))" using assms(8) by (simp add: unat_word_ariths)
  have "unat (access_latency T d (p_address p)) \<noteq> 0" using assms(7) by (simp add: unat_eq_0)
  then have later: "\<not> ?fin \<le> t" using fin by (simp add: word_le_nat_alt)
  have top: "unat (- 1 :: u64) = 2 ^ 64 - 1" by (simp add: unsigned_minus_1_eq_mask mask_eq_exp_minus_1)
  then have fin1: "?fin \<noteq> - 1" using fin assms(8) by (metis less_irrefl)
  have ev: "p_event_cycle p \<noteq> - 1"
  proof
    assume "p_event_cycle p = - 1"
    then have "t = - 1" using assms(6) by (simp add: word_order.extremum_unique)
    then show False using assms(8) top by simp
  qed
  obtain d1 where d1: "dram_operate (T\<lparr>dram_cycle := t\<rparr>) (return_data t) (c, queued p d) = Inr (c, d1)" "in_flight p d ?fin d1"
    using read_is_started [OF assms(1,3) ev assms(6) refl later fin1, of "return_data t" c] by blast
  obtain d2 where d2: "dram_run T (map Cycle between) (c, d1) = Inr (c, d2)" "in_flight p d ?fin d2"
    using read_waits_run [OF assms(1,3) d1(2) assms(9) [unfolded answer_cycle_def], of T c] by blast
  have r: "p_cpu ?r < NUM_CPUS" "p_address ?r \<noteq> 0" "p_address ?r \<in> awaited c" "p_address ?r = p_address p" "p_data ?r = p_data p"
    using assms(2,3) by (simp_all add: request_ok_def returned_def)
  obtain c' i where c': "return_data t' ?r c = Inr c'" "awaited c' = awaited c" "check_mshr c' ?r = int i"
    "p_returned (q_entry (c_MSHR c') ! i) = COMPLETED" "p_data (q_entry (c_MSHR c') ! i) = p_data ?r"
    using return_data_completes [OF r(1-3)] by blast
  obtain d' where d': "dram_operate (T\<lparr>dram_cycle := t'\<rparr>) (return_data t') (c, d2) = Inr (c', d')" "idle d'"
    "d_dbus_cycle_available d' = t' + ucast (DRAM_DBUS_RETURN_TIME T)"
    "map br_open_row (d_bank d') = (map br_open_row (d_bank d))[bank_of (p_address p) := dram_get_row (p_address p)]"
    using read_is_answered [where ret = "return_data t'", OF assms(1,3) d2(2) assms(10) [unfolded answer_cycle_def] c'(1)] by blast
  have "dram_run T (Read p # map Cycle early @ Cycle t # map Cycle between) (c, d) = Inr (c, d2)"
    using read_is_queued [where w = c, OF assms(1,3,4) ev] queued_waits_run [OF assms(1,3,5)] d1(1) d2(1) by (simp add: dram_run_append)
  moreover have "check_mshr c' p = int i" using c'(3) r(4) by (simp add: check_mshr_def)
  ultimately show ?thesis using c' d' r(5) by (intro exI [of _ d2] exI [of _ c'] exI [of _ d'] exI [of _ i]) simp
qed

text \<open>The second of two reads of a line finds its row open.\<close>

theorem dram_read_completes_witness:
  "\<exists>c1 d1 d2 c3 d3 d4.
    dram_run sample_env (Read ((sample_read 5)\<lparr>p_event_cycle := 7\<rparr>) # map Cycle [] @ Cycle 9 # map Cycle [10, 100, 158])
      (waiting_llc, MEMORY_CONTROLLER_init zero_packet) = Inr (waiting_llc, d1) \<and>
    dram_run sample_env [Cycle 159] (waiting_llc, d1) = Inr (c1, d2) \<and> d_dbus_cycle_available d2 = 199 \<and>
    dram_run sample_env (Read ((sample_read 5)\<lparr>p_event_cycle := 160\<rparr>) # map Cycle [159] @ Cycle 160 # map Cycle [161, 209]) (c1, d2) =
      Inr (c1, d3) \<and>
    dram_run sample_env [Cycle 210] (c1, d3) = Inr (c3, d4) \<and> d_dbus_cycle_available d4 = 250 \<and> idle d4"
proof -
  let ?d = "MEMORY_CONTROLLER_init zero_packet"
  let ?p = "(sample_read 5)\<lparr>p_event_cycle := 7\<rparr>" and ?r = "(sample_read 5)\<lparr>p_event_cycle := 160\<rparr>"
  have T: "\<not> ucast (all_warmup_complete sample_env) < NUM_CPUS" by (simp add: sample_env_def NUM_CPUS_def)
  have ok: "request_ok ?p" "request_ok ?r" using sample_request [of 5] by (simp_all add: request_ok_def)
  have row: "dram_get_row 5 = 0" by (simp add: dram_get_row_def LOG2_DRAM_ROWS_def LOG2_DRAM_RANKS_def
      LOG2_DRAM_COLUMNS_def LOG2_DRAM_BANKS_def LOG2_DRAM_CHANNELS_def)
  have len: "bank_of 5 < length (d_bank e)" if "idle e" for e using that bank_of_less by (simp add: idle_def tables_ok_def)
  have "br_open_row (d_bank ?d ! bank_of 5) = - 1"
    using bank_of_less [of 5] by (simp add: MEMORY_CONTROLLER_init_def BANK_REQUEST_init_def)
  then have miss: "access_latency sample_env ?d 5 = 150" using row by (simp add: access_latency_def sample_env_def)
  then have c1: "answer_cycle sample_env ?d ?p 9 = 159"
    by (simp add: answer_cycle_def) (simp add: MEMORY_CONTROLLER_init_def)
  obtain d1 c1 d2 where one:
    "dram_run sample_env (Read ?p # map Cycle [] @ Cycle 9 # map Cycle [10, 100, 158]) (waiting_llc, ?d) = Inr (waiting_llc, d1)"
    "dram_run sample_env [Cycle 159] (waiting_llc, d1) = Inr (c1, d2)" "awaited c1 = awaited waiting_llc" "idle d2"
    "map br_open_row (d_bank d2) = (map br_open_row (d_bank ?d))[bank_of 5 := dram_get_row 5]" "d_dbus_cycle_available d2 = 199"
    using dram_read_completes [OF idle_init, of ?p waiting_llc sample_env "[]" 9 zero_packet "[10, 100, 158]" 159]
      waiting_llc ok(1) T miss c1 by (auto simp: sample_env_def)
  have "br_open_row (d_bank d2 ! bank_of 5) = map br_open_row (d_bank d2) ! bank_of 5" using len [OF one(4)] by simp
  also have "\<dots> = dram_get_row 5" using len [OF idle_init] by (simp add: one(5))
  finally have hit: "access_latency sample_env d2 5 = 50" by (simp add: access_latency_def sample_env_def)
  then have c2: "answer_cycle sample_env d2 ?r 160 = 210" using one(6) by (simp add: answer_cycle_def)
  obtain d3 c3 d4 where
    "dram_run sample_env (Read ?r # map Cycle [159] @ Cycle 160 # map Cycle [161, 209]) (c1, d2) = Inr (c1, d3)"
    "dram_run sample_env [Cycle 210] (c1, d3) = Inr (c3, d4)" "idle d4" "d_dbus_cycle_available d4 = 250"
    using dram_read_completes [OF one(4), of ?r c1 sample_env "[159]" 160 "[161, 209]" 210]
      waiting_llc one(3) ok(2) T hit c2 by (auto simp: sample_env_def)
  then show ?thesis using one(1,2,6) by blast
qed

end
