(* ===== verification/QLearning.thy ===== *)
theory QLearning
  imports Prelude
begin

text \<open>
  The reinforcement learning of Pythia, first part: the base class of the engines
  (\<^verbatim>\<open>src/learning_engine_base.cc\<close>) and the engine with one table of Q-values
  (\<^verbatim>\<open>src/learning_engine_basic.cc\<close>).

  Single-precision numbers are a type \<open>'f\<close> with the operations of \<^verbatim>\<open>float\<close> that the code
  uses in \<open>float_ops\<close>; the standard generator and its two distributions are the state \<open>'g\<close>
  with the draws in \<open>random_ops\<close>. Nothing is assumed of the arithmetic; what a lemma needs of
  the comparison or of the draws is its hypothesis. \<^verbatim>\<open>calloc\<close> and \<^verbatim>\<open>fopen\<close> succeed.
\<close>

section \<open>Floating point and random numbers\<close>

record 'f float_ops =
  f_add :: "'f \<Rightarrow> 'f \<Rightarrow> 'f"
  f_sub :: "'f \<Rightarrow> 'f \<Rightarrow> 'f"
  f_mul :: "'f \<Rightarrow> 'f \<Rightarrow> 'f"
  f_div :: "'f \<Rightarrow> 'f \<Rightarrow> 'f"
  f_less :: "'f \<Rightarrow> 'f \<Rightarrow> bool"
  f_leq :: "'f \<Rightarrow> 'f \<Rightarrow> bool"
  f_of_int :: "int \<Rightarrow> 'f"
  f_buckets :: "'f \<Rightarrow> 'f list"

record 'g random_ops =
  draw_explore :: "'g \<Rightarrow> bool \<times> 'g"
  draw_action :: "u32 \<Rightarrow> 'g \<Rightarrow> u32 \<times> 'g"

text \<open>A uniform draw for \<open>n\<close> actions is one of them.\<close>

definition random_ok :: "'g random_ops \<Rightarrow> bool" where
  "random_ok R \<longleftrightarrow> (\<forall>n g. 0 < n \<longrightarrow> fst (draw_action R n g) < n)"

definition bounded_int :: "i32 \<Rightarrow> int" where
  "bounded_int r = sint r"

section \<open>Policies and learning types\<close>

datatype policy = InvalidPolicy | EGreedy
datatype learning_type = InvalidLearningType | QLearning | SARSA

definition MAX_ACTIONS :: nat where "MAX_ACTIONS = 64"

definition parseLearningType :: "string \<Rightarrow> learning_type res" where
  "parseLearningType str =
     (if str = ''QLearning'' then Inr QLearning else if str = ''SARSA'' then Inr SARSA else Inl Assert_failed)"

definition parsePolicy :: "string \<Rightarrow> policy res" where
  "parsePolicy str = (if str = ''EGreedy'' then Inr EGreedy else Inl Assert_failed)"

text \<open>The names are looked up with the value of the enumerator, which starts at 1.\<close>

definition policy_code :: "policy \<Rightarrow> nat" where
  "policy_code p = (case p of InvalidPolicy \<Rightarrow> 0 | EGreedy \<Rightarrow> 1)"

definition learning_type_code :: "learning_type \<Rightarrow> nat" where
  "learning_type_code t = (case t of InvalidLearningType \<Rightarrow> 0 | QLearning \<Rightarrow> 1 | SARSA \<Rightarrow> 2)"

definition lookup_name :: "string list \<Rightarrow> nat \<Rightarrow> string res" where
  "lookup_name names i = (if i < length names then Inr (names ! i) else Inl Out_of_bounds)"

definition MapPolicyString :: "policy \<Rightarrow> string res" where
  "MapPolicyString p = lookup_name [''EGreddy''] (policy_code p)"

definition MapLearningTypeString :: "learning_type \<Rightarrow> string res" where
  "MapLearningTypeString t = lookup_name [''QLearning'', ''SARSA''] (learning_type_code t)"

record 'f engine_base =
  m_alpha :: 'f
  m_gamma :: 'f
  m_epsilon :: 'f
  m_actions :: u32
  m_states :: u32
  m_seed :: u64
  m_policy :: policy
  m_type :: learning_type

definition LearningEngineBase_init ::
  "'f \<Rightarrow> 'f \<Rightarrow> 'f \<Rightarrow> u32 \<Rightarrow> u32 \<Rightarrow> u64 \<Rightarrow> string \<Rightarrow> string \<Rightarrow> 'f engine_base res" where
  "LearningEngineBase_init alpha gamma epsilon actions states seed pol ty =
     bind_res (parsePolicy pol) (\<lambda>p. bind_res (parseLearningType ty) (\<lambda>t.
       Inr \<lparr>m_alpha = alpha, m_gamma = gamma, m_epsilon = epsilon, m_actions = actions, m_states = states,
            m_seed = seed, m_policy = p, m_type = t\<rparr>))"

text \<open>One step of SARSA: \<^verbatim>\<open>Q1 + alpha * ((float)reward + gamma * Q2 - Q1)\<close>.\<close>

definition sarsa :: "'f float_ops \<Rightarrow> 'f \<Rightarrow> 'f \<Rightarrow> i32 \<Rightarrow> 'f \<Rightarrow> 'f \<Rightarrow> 'f" where
  "sarsa F alpha gamma reward Qsa1 Qsa2 =
     f_add F Qsa1 (f_mul F alpha (f_sub F (f_add F (f_of_int F (bounded_int reward)) (f_mul F gamma Qsa2)) Qsa1))"

text \<open>The initial Q-value, the largest one a discount allows: \<^verbatim>\<open>(float)1ul/(1-gamma)\<close>.\<close>

definition initial_q :: "'f float_ops \<Rightarrow> bool \<Rightarrow> 'f \<Rightarrow> 'f" where
  "initial_q F zero_init gamma = (if zero_init then f_of_int F 0 else f_div F (f_of_int F 1) (f_sub F (f_of_int F 1) gamma))"

section \<open>The engine with one table\<close>

record engine_knobs =
  le_enable_trace :: bool
  le_trace_interval :: u32
  le_trace_state :: u32
  le_enable_action_trace :: bool
  le_action_trace_interval :: u32

record ('f, 'g) basic_engine =
  le_base :: "'f engine_base"
  le_init_value :: 'f
  le_generator :: 'g
  le_qtable :: "'f list list"
  le_trace_count :: u32
  le_trace_timestamp :: u64
  le_action_trace_count :: u32
  le_action_trace_timestamp :: u64
  le_action_counter :: u64
  le_early_exploration_window :: u64
  le_called :: u64
  le_explore :: u64
  le_exploit :: u64
  le_dist :: "u64 list list"
  le_learn_called :: u64

text \<open>The trace counters are set, and read, only with tracing on.\<close>

definition LearningEngineBasic_init ::
  "'f float_ops \<Rightarrow> (u64 \<Rightarrow> 'g) \<Rightarrow> 'f \<Rightarrow> 'f \<Rightarrow> 'f \<Rightarrow> u32 \<Rightarrow> u32 \<Rightarrow> u64 \<Rightarrow> string \<Rightarrow> string \<Rightarrow> bool \<Rightarrow> u64 \<Rightarrow> ('f, 'g) basic_engine res" where
  "LearningEngineBasic_init F seed_gen alpha gamma epsilon actions states seed pol ty zero_init window =
     bind_res (LearningEngineBase_init alpha gamma epsilon actions states seed pol ty) (\<lambda>b.
       let v = initial_q F zero_init gamma in
       Inr \<lparr>le_base = b, le_init_value = v, le_generator = seed_gen seed,
            le_qtable = replicate (unat states) (replicate (unat actions) v),
            le_trace_count = 0, le_trace_timestamp = 0, le_action_trace_count = 0, le_action_trace_timestamp = 0,
            le_action_counter = 0, le_early_exploration_window = window,
            le_called = 0, le_explore = 0, le_exploit = 0, le_dist = replicate MAX_ACTIONS [0, 0], le_learn_called = 0\<rparr>)"

definition consultQ :: "u32 \<Rightarrow> u32 \<Rightarrow> ('f, 'g) basic_engine \<Rightarrow> 'f res" where
  "consultQ st action e =
     (if st < m_states (le_base e) \<and> action < m_actions (le_base e)
      then Inr (le_qtable e ! unat st ! unat action) else Inl Assert_failed)"

definition le_updateQ :: "u32 \<Rightarrow> u32 \<Rightarrow> 'f \<Rightarrow> ('f, 'g) basic_engine \<Rightarrow> ('f, 'g) basic_engine res" where
  "le_updateQ st action value e =
     (if st < m_states (le_base e) \<and> action < m_actions (le_base e)
      then Inr (e\<lparr>le_qtable := (le_qtable e)[unat st := (le_qtable e ! unat st)[unat action := value]]\<rparr>)
      else Inl Assert_failed)"

text \<open>The scan for the first action with the greatest value.\<close>

primrec max_scan :: "('f \<Rightarrow> 'f \<Rightarrow> bool) \<Rightarrow> (nat \<Rightarrow> 'f) \<Rightarrow> nat list \<Rightarrow> 'f \<times> nat \<Rightarrow> 'f \<times> nat" where
  "max_scan lt q [] m = m"
| "max_scan lt q (i # is) m = max_scan lt q is (if lt (fst m) (q i) then (q i, i) else m)"

definition le_getMaxAction :: "'f float_ops \<Rightarrow> u32 \<Rightarrow> ('f, 'g) basic_engine \<Rightarrow> u32 res" where
  "le_getMaxAction F st e =
     (if \<not> st < m_states (le_base e) then Inl Assert_failed
      else
        let row = le_qtable e ! unat st in
        if row = [] then Inl Out_of_bounds
        else Inr (of_nat (snd (max_scan (f_less F) ((!) row) [1..<unat (m_actions (le_base e))] (row ! 0, 0)))))"

definition count_action :: "u32 \<Rightarrow> nat \<Rightarrow> ('f, 'g) basic_engine \<Rightarrow> ('f, 'g) basic_engine res" where
  "count_action action how e =
     bind_res (bump2 (unat action) how (le_dist e)) (\<lambda>t. Inr (e\<lparr>le_dist := t\<rparr>))"

text \<open>\<^verbatim>\<open>if(enabled && count++ == interval)\<close> the trace is written and the count starts again.\<close>

definition trace_action :: "engine_knobs \<Rightarrow> ('f, 'g) basic_engine \<Rightarrow> ('f, 'g) basic_engine" where
  "trace_action K e =
     (if le_enable_action_trace K then
        if le_action_trace_count e = le_action_trace_interval K
        then e\<lparr>le_action_trace_timestamp := le_action_trace_timestamp e + 1, le_action_trace_count := 0\<rparr>
        else e\<lparr>le_action_trace_count := le_action_trace_count e + 1\<rparr>
      else e)"

definition trace_state :: "engine_knobs \<Rightarrow> u32 \<Rightarrow> ('f, 'g) basic_engine \<Rightarrow> ('f, 'g) basic_engine" where
  "trace_state K st e =
     (if le_enable_trace K \<and> st = le_trace_state K then
        if le_trace_count e = le_trace_interval K
        then e\<lparr>le_trace_timestamp := le_trace_timestamp e + 1, le_trace_count := 0\<rparr>
        else e\<lparr>le_trace_count := le_trace_count e + 1\<rparr>
      else e)"

definition le_chooseAction ::
  "'f float_ops \<Rightarrow> 'g random_ops \<Rightarrow> engine_knobs \<Rightarrow> u32 \<Rightarrow> ('f, 'g) basic_engine \<Rightarrow> (u32 \<times> ('f, 'g) basic_engine) res" where
  "le_chooseAction F R K st e =
     (let e = e\<lparr>le_called := le_called e + 1\<rparr> in
      if \<not> st < m_states (le_base e) then Inl Assert_failed
      else if m_type (le_base e) = SARSA \<and> m_policy (le_base e) = EGreedy then
        let early = (le_action_counter e < le_early_exploration_window e);
            (explore, e) = (if early then (True, e)
               else let (x, g) = draw_explore R (le_generator e) in (x, e\<lparr>le_generator := g\<rparr>)) in
        bind_res
          (if explore then
             let (action, g) = draw_action R (m_actions (le_base e)) (le_generator e);
                 e = e\<lparr>le_generator := g, le_explore := le_explore e + 1\<rparr>
             in bind_res (count_action action 0 e) (\<lambda>e. Inr (action, e))
           else
             bind_res (le_getMaxAction F st e) (\<lambda>action.
             bind_res (count_action action 1 (e\<lparr>le_exploit := le_exploit e + 1\<rparr>)) (\<lambda>e. Inr (action, e))))
          (\<lambda>(action, e). Inr (action, trace_action K e))
      else Inl Assert_failed)"

definition le_learn ::
  "'f float_ops \<Rightarrow> engine_knobs \<Rightarrow> u32 \<Rightarrow> u32 \<Rightarrow> i32 \<Rightarrow> u32 \<Rightarrow> u32 \<Rightarrow> ('f, 'g) basic_engine \<Rightarrow> ('f, 'g) basic_engine res" where
  "le_learn F K state1 action1 reward state2 action2 e =
     (let e = e\<lparr>le_learn_called := le_learn_called e + 1\<rparr>; b = le_base e in
      if m_type b = SARSA \<and> m_policy b = EGreedy then
        bind_res (consultQ state1 action1 e) (\<lambda>Qsa1.
        bind_res (consultQ state2 action2 e) (\<lambda>Qsa2.
        bind_res (le_updateQ state1 action1 (sarsa F (m_alpha b) (m_gamma b) reward Qsa1 Qsa2) e) (\<lambda>e.
          Inr (trace_state K state1 e))))
      else Inl Assert_failed)"

section \<open>Well-formed engines\<close>

definition base_ok :: "'f engine_base \<Rightarrow> bool" where
  "base_ok b \<longleftrightarrow> m_type b = SARSA \<and> m_policy b = EGreedy \<and> 0 < m_actions b \<and> unat (m_actions b) \<le> MAX_ACTIONS"

definition dist_ok :: "u64 list list \<Rightarrow> bool" where
  "dist_ok t \<longleftrightarrow> length t = MAX_ACTIONS \<and> (\<forall>r\<in>set t. length r = 2)"

definition basic_ok :: "('f, 'g) basic_engine \<Rightarrow> bool" where
  "basic_ok e \<longleftrightarrow> base_ok (le_base e) \<and> dist_ok (le_dist e) \<and> length (le_qtable e) = unat (m_states (le_base e)) \<and>
     (\<forall>r\<in>set (le_qtable e). length r = unat (m_actions (le_base e)))"

lemma bump2_dist:
  assumes "dist_ok t" "i < MAX_ACTIONS" "j < 2"
  shows "\<exists>t'. bump2 i j t = Inr t' \<and> dist_ok t'"
proof -
  have i: "i < length t" "length (t ! i) = 2" using assms(1,2) by (auto simp: dist_ok_def)
  have "dist_ok (t[i := (t ! i)[j := t ! i ! j + 1]])"
    using assms(1) i set_update_subset_insert [of t i "(t ! i)[j := t ! i ! j + 1]"] by (auto simp: dist_ok_def)
  then show ?thesis using i assms(3) by (simp add: bump2_def)
qed

lemma LearningEngineBasic_init_ok:
  assumes "0 < actions" "unat actions \<le> MAX_ACTIONS"
  shows "\<exists>e. LearningEngineBasic_init F sg al ga ep actions states seed ''EGreedy'' ''SARSA'' z w = Inr e \<and> basic_ok e \<and>
    m_actions (le_base e) = actions \<and> m_states (le_base e) = states"
  using assms by (simp add: LearningEngineBasic_init_def LearningEngineBase_init_def parsePolicy_def parseLearningType_def
      basic_ok_def base_ok_def dist_ok_def Let_def)

text \<open>The comparison of numbers that are not NaN: \<open>lt\<close> is a strict weak order.\<close>

definition weak_order :: "('f \<Rightarrow> 'f \<Rightarrow> bool) \<Rightarrow> bool" where
  "weak_order lt \<longleftrightarrow> (\<forall>x. \<not> lt x x) \<and> (\<forall>x y z. lt x y \<longrightarrow> lt y z \<longrightarrow> lt x z) \<and>
     (\<forall>x y z. \<not> lt x y \<longrightarrow> \<not> lt y z \<longrightarrow> \<not> lt x z)"

lemma max_scan_range: "snd m < n \<Longrightarrow> \<forall>i\<in>set is. i < n \<Longrightarrow> snd (max_scan lt q is m) < n"
  by (induction "is" arbitrary: m) auto

lemma max_scan_max:
  assumes "weak_order lt" "k < n" "\<forall>j<k. \<not> lt (v k) (v j) \<and> lt (v j) (v k)"
    "\<forall>j<m. \<not> lt (v k) (v j)" "k < m"
  shows "let i = snd (max_scan lt v [m..<n] (v k, k)) in
    (\<forall>j<n. \<not> lt (v i) (v j)) \<and> (\<forall>j<i. lt (v j) (v i)) \<and> fst (max_scan lt v [m..<n] (v k, k)) = v i"
  using assms(2-5)
proof (induction "n - m" arbitrary: m k)
  case 0
  then show ?case by (simp add: Let_def)
next
  case (Suc d)
  then have m: "m < n" "[m..<n] = m # [Suc m..<n]" by (simp_all add: upt_conv_Cons)
  have irr: "\<not> lt x x" and trans: "lt x y \<Longrightarrow> lt y z \<Longrightarrow> lt x z" and neg: "\<not> lt x y \<Longrightarrow> \<not> lt y z \<Longrightarrow> \<not> lt x z" for x y z
    using assms(1) unfolding weak_order_def by blast+
  show ?case
  proof (cases "lt (v k) (v m)")
    case True
    have below: "lt (v j) (v m)" if "j < m" for j
    proof (rule ccontr)
      assume "\<not> lt (v j) (v m)"
      moreover have "\<not> lt (v k) (v j)" using Suc.prems(3) that by simp
      ultimately show False using neg True by blast
    qed
    have "\<not> lt (v m) (v j)" if "j < Suc m" for j
      using below [of j] irr trans that by (cases "j = m") (auto simp: less_Suc_eq)
    then show ?thesis using Suc.hyps(1) [of "Suc m" m] Suc.hyps(2) below m True irr trans by (simp add: Let_def)
  next
    case False
    then have "\<forall>j<Suc m. \<not> lt (v k) (v j)" using Suc.prems(3) by (auto simp: less_Suc_eq)
    then show ?thesis using Suc.hyps(1) [of "Suc m" k] Suc.hyps(2) Suc.prems m False by (simp add: Let_def)
  qed
qed

lemma trace_frame [simp]:
  "le_base (trace_action K e) = le_base e" "le_qtable (trace_action K e) = le_qtable e" "le_dist (trace_action K e) = le_dist e"
  "le_exploit (trace_action K e) = le_exploit e" "le_explore (trace_action K e) = le_explore e"
  "le_base (trace_state K s e) = le_base e" "le_qtable (trace_state K s e) = le_qtable e" "le_dist (trace_state K s e) = le_dist e"
  "le_learn_called (trace_state K s e) = le_learn_called e"
  by (simp_all add: trace_action_def trace_state_def)

lemma basic_ok_cong:
  "le_base e' = le_base e \<Longrightarrow> le_qtable e' = le_qtable e \<Longrightarrow> le_dist e' = le_dist e \<Longrightarrow> basic_ok e' = basic_ok e"
  by (simp add: basic_ok_def)

lemma basic_row:
  assumes "basic_ok e" "st < m_states (le_base e)"
  shows "length (le_qtable e ! unat st) = unat (m_actions (le_base e))" "unat st < length (le_qtable e)"
  using assms by (simp_all add: basic_ok_def word_less_nat_alt)

lemma le_learn_ok:
  assumes "basic_ok e" "s1 < m_states (le_base e)" "s2 < m_states (le_base e)" "a1 < m_actions (le_base e)" "a2 < m_actions (le_base e)"
  shows "\<exists>e'. le_learn F K s1 a1 r s2 a2 e = Inr e' \<and> basic_ok e' \<and> le_base e' = le_base e \<and>
    le_learn_called e' = le_learn_called e + 1 \<and>
    le_qtable e' = (le_qtable e)[unat s1 := (le_qtable e ! unat s1)[unat a1 :=
      sarsa F (m_alpha (le_base e)) (m_gamma (le_base e)) r (le_qtable e ! unat s1 ! unat a1) (le_qtable e ! unat s2 ! unat a2)]]"
proof -
  let ?v = "sarsa F (m_alpha (le_base e)) (m_gamma (le_base e)) r (le_qtable e ! unat s1 ! unat a1) (le_qtable e ! unat s2 ! unat a2)"
  let ?q = "(le_qtable e)[unat s1 := (le_qtable e ! unat s1)[unat a1 := ?v]]"
  let ?e = "e\<lparr>le_learn_called := le_learn_called e + 1, le_qtable := ?q\<rparr>"
  have "m_type (le_base e) = SARSA" "m_policy (le_base e) = EGreedy" using assms(1) by (simp_all add: basic_ok_def base_ok_def)
  then have "le_learn F K s1 a1 r s2 a2 e = Inr (trace_state K s1 ?e)"
    using assms(2-5) by (simp add: le_learn_def Let_def consultQ_def le_updateQ_def)
  moreover have "basic_ok ?e"
    using assms(1) basic_row [OF assms(1,2)] set_update_subset_insert [of "le_qtable e" "unat s1" "(le_qtable e ! unat s1)[unat a1 := ?v]"]
    by (auto simp: basic_ok_def)
  then have "basic_ok (trace_state K s1 ?e)" by (rule basic_ok_cong [THEN iffD2, rotated 3]) simp_all
  ultimately show ?thesis by (intro exI [of _ "trace_state K s1 ?e"]) simp
qed

lemma count_action_ok:
  assumes "basic_ok e" "a < m_actions (le_base e)" "h < 2"
  shows "\<exists>t. count_action a h e = Inr (e\<lparr>le_dist := t\<rparr>) \<and> dist_ok t"
proof -
  have "unat a < MAX_ACTIONS" using assms(1,2) by (simp add: basic_ok_def base_ok_def word_less_nat_alt)
  then show ?thesis using bump2_dist [of "le_dist e" "unat a" h] assms by (auto simp: count_action_def basic_ok_def)
qed

lemma le_getMaxAction_ok:
  assumes "basic_ok e" "st < m_states (le_base e)"
  shows "\<exists>a. le_getMaxAction F st e = Inr a \<and> a < m_actions (le_base e) \<and>
    (weak_order (f_less F) \<longrightarrow>
      (\<forall>j<unat (m_actions (le_base e)). \<not> f_less F (le_qtable e ! unat st ! unat a) (le_qtable e ! unat st ! j)) \<and>
      (\<forall>j<unat a. f_less F (le_qtable e ! unat st ! j) (le_qtable e ! unat st ! unat a)))"
proof -
  define row where "row = le_qtable e ! unat st"
  define n where "n = unat (m_actions (le_base e))"
  define i where "i = snd (max_scan (f_less F) ((!) row) [1..<n] (row ! 0, 0))"
  have n: "0 < n" "length row = n"
    using assms basic_row [OF assms] by (simp_all add: basic_ok_def base_ok_def unat_pos n_def row_def)
  have i: "i < n" unfolding i_def using n(1) by (intro max_scan_range) auto
  have "n < 2 ^ 32" using u32_bound [of "m_actions (le_base e)"] by (simp add: n_def)
  then have "i < 2 ^ 32" using i by (rule order_less_trans [rotated])
  then have u: "unat (of_nat i :: u32) = i" by (simp add: unat_of_nat take_bit_nat_eq_self)
  have "row \<noteq> []" using n by auto
  then have get: "le_getMaxAction F st e = Inr (of_nat i)" using assms(2)
    by (simp add: le_getMaxAction_def Let_def row_def [symmetric] n_def [symmetric] i_def)
  have less: "(of_nat i :: u32) < m_actions (le_base e)" using i u by (simp add: word_less_nat_alt n_def)
  have best: "(\<forall>j<n. \<not> f_less F (row ! i) (row ! j)) \<and> (\<forall>j<i. f_less F (row ! j) (row ! i))" if "weak_order (f_less F)"
  proof -
    have "\<not> f_less F (row ! 0) (row ! 0)" using that unfolding weak_order_def by blast
    then show ?thesis using max_scan_max [OF that n(1), of "(!) row" 1] by (simp add: Let_def i_def)
  qed
  show ?thesis
    by (rule exI [of _ "of_nat i"]) (use get less best u in \<open>simp add: row_def n_def\<close>)
qed

lemma le_chooseAction_ok:
  assumes "basic_ok e" "st < m_states (le_base e)" "random_ok R"
  shows "\<exists>a e'. le_chooseAction F R K st e = Inr (a, e') \<and> a < m_actions (le_base e) \<and> basic_ok e' \<and>
    le_base e' = le_base e \<and> le_qtable e' = le_qtable e \<and>
    (\<not> le_action_counter e < le_early_exploration_window e \<longrightarrow> \<not> fst (draw_explore R (le_generator e)) \<longrightarrow>
       le_getMaxAction F st e = Inr a \<and> le_exploit e' = le_exploit e + 1 \<and> le_explore e' = le_explore e)"
proof -
  let ?early = "le_action_counter e < le_early_exploration_window e"
  define e1 where "e1 = e\<lparr>le_called := le_called e + 1\<rparr>"
  define x where "x = (?early \<or> fst (draw_explore R (le_generator e)))"
  define e2 where "e2 = (if ?early then e1 else e1\<lparr>le_generator := snd (draw_explore R (le_generator e))\<rparr>)"
  have b: "m_type (le_base e) = SARSA" "m_policy (le_base e) = EGreedy" "0 < m_actions (le_base e)"
    using assms(1) by (simp_all add: basic_ok_def base_ok_def)
  have e2: "le_base e2 = le_base e" "le_qtable e2 = le_qtable e" "le_dist e2 = le_dist e" "le_exploit e2 = le_exploit e" "le_explore e2 = le_explore e"
    by (simp_all add: e1_def e2_def)
  have ok2: "basic_ok e2" using assms(1) basic_ok_cong [OF e2(1-3)] by simp
  have choose: "le_chooseAction F R K st e =
      bind_res
        (if x then
           bind_res (count_action (fst (draw_action R (m_actions (le_base e)) (le_generator e2))) 0
             (e2\<lparr>le_generator := snd (draw_action R (m_actions (le_base e)) (le_generator e2)), le_explore := le_explore e2 + 1\<rparr>))
             (\<lambda>e'. Inr (fst (draw_action R (m_actions (le_base e)) (le_generator e2)), e'))
         else bind_res (le_getMaxAction F st e2) (\<lambda>action.
             bind_res (count_action action 1 (e2\<lparr>le_exploit := le_exploit e2 + 1\<rparr>)) (\<lambda>e. Inr (action, e))))
        (\<lambda>(action, e). Inr (action, trace_action K e))"
    using b assms(2) by (auto simp: le_chooseAction_def Let_def e1_def e2_def x_def split: prod.splits)
  show ?thesis
  proof (cases x)
    case True
    let ?a = "fst (draw_action R (m_actions (le_base e)) (le_generator e2))"
    let ?e = "e2\<lparr>le_generator := snd (draw_action R (m_actions (le_base e)) (le_generator e2)), le_explore := le_explore e2 + 1\<rparr>"
    have a: "?a < m_actions (le_base e)" using assms(3) b(3) by (simp add: random_ok_def)
    have ok: "basic_ok ?e" using ok2 by (simp add: basic_ok_def)
    obtain t where t: "count_action ?a 0 ?e = Inr (?e\<lparr>le_dist := t\<rparr>)" "dist_ok t"
      using count_action_ok [OF ok, of ?a 0] a e2(1) by auto
    have "basic_ok (?e\<lparr>le_dist := t\<rparr>)" using ok t(2) by (simp add: basic_ok_def)
    then have "basic_ok (trace_action K (?e\<lparr>le_dist := t\<rparr>))" by (rule basic_ok_cong [THEN iffD2, rotated 3]) simp_all
    moreover have "le_chooseAction F R K st e = Inr (?a, trace_action K (?e\<lparr>le_dist := t\<rparr>))"
      using choose True t(1) by simp
    ultimately show ?thesis using a e2 True by (intro exI [of _ ?a] exI [of _ "trace_action K (?e\<lparr>le_dist := t\<rparr>)"]) (auto simp: x_def)
  next
    case False
    let ?e = "e2\<lparr>le_exploit := le_exploit e2 + 1\<rparr>"
    have same: "le_getMaxAction F st e2 = le_getMaxAction F st e" by (simp only: le_getMaxAction_def e2)
    obtain a where a: "le_getMaxAction F st e = Inr a" "a < m_actions (le_base e)" using le_getMaxAction_ok [OF assms(1,2)] by blast
    have ok: "basic_ok ?e" using ok2 by (simp add: basic_ok_def)
    obtain t where t: "count_action a 1 ?e = Inr (?e\<lparr>le_dist := t\<rparr>)" "dist_ok t"
      using count_action_ok [OF ok, of a 1] a(2) e2(1) by auto
    have "basic_ok (?e\<lparr>le_dist := t\<rparr>)" using ok t(2) by (simp add: basic_ok_def)
    then have "basic_ok (trace_action K (?e\<lparr>le_dist := t\<rparr>))" by (rule basic_ok_cong [THEN iffD2, rotated 3]) simp_all
    moreover have "le_chooseAction F R K st e = Inr (a, trace_action K (?e\<lparr>le_dist := t\<rparr>))"
      using choose False t(1) a(1) same by simp
    ultimately show ?thesis using a e2 by (intro exI [of _ a] exI [of _ "trace_action K (?e\<lparr>le_dist := t\<rparr>)"]) simp
  qed
qed

section \<open>Properties\<close>

text \<open>
  C37: Exploitation is greedy. When the exploration window is over and the draw says exploit, the
  engine returns the first of the actions with the greatest Q-value of the state, counts it
  as exploited, and changes no Q-value.
\<close>

theorem chooseAction_greedy:
  assumes "basic_ok e" "st < m_states (le_base e)" "random_ok R" "weak_order (f_less F)"
    and "\<not> le_action_counter e < le_early_exploration_window e" "\<not> fst (draw_explore R (le_generator e))"
  shows "\<exists>a e'. le_chooseAction F R K st e = Inr (a, e') \<and> a < m_actions (le_base e) \<and> basic_ok e' \<and> le_qtable e' = le_qtable e \<and>
    (\<forall>j<unat (m_actions (le_base e)). \<not> f_less F (le_qtable e ! unat st ! unat a) (le_qtable e ! unat st ! j)) \<and>
    (\<forall>j<unat a. f_less F (le_qtable e ! unat st ! j) (le_qtable e ! unat st ! unat a)) \<and> le_exploit e' = le_exploit e + 1"
proof -
  obtain a e' where c: "le_chooseAction F R K st e = Inr (a, e')" "basic_ok e'" "le_qtable e' = le_qtable e"
    "le_getMaxAction F st e = Inr a" "le_exploit e' = le_exploit e + 1"
    using le_chooseAction_ok [OF assms(1-3), of F K] assms(5,6) by blast
  moreover obtain b where "le_getMaxAction F st e = Inr b" "b < m_actions (le_base e)"
    "\<forall>j<unat (m_actions (le_base e)). \<not> f_less F (le_qtable e ! unat st ! unat b) (le_qtable e ! unat st ! j)"
    "\<forall>j<unat b. f_less F (le_qtable e ! unat st ! j) (le_qtable e ! unat st ! unat b)"
    using le_getMaxAction_ok [OF assms(1,2), of F] assms(4) by blast
  ultimately show ?thesis by (intro exI [of _ a] exI [of _ e']) simp
qed

text \<open>Exact numbers and a generator that never explores, for examples.\<close>

definition int_floats :: "int float_ops" where
  "int_floats = \<lparr>f_add = (+), f_sub = (-), f_mul = (*), f_div = (div), f_less = (<), f_leq = (\<le>), f_of_int = id, f_buckets = (\<lambda>_. [])\<rparr>"

definition quiet_engine :: engine_knobs where
  "quiet_engine = \<lparr>le_enable_trace = False, le_trace_interval = 0, le_trace_state = 0, le_enable_action_trace = False, le_action_trace_interval = 0\<rparr>"

definition no_exploration :: "unit random_ops" where
  "no_exploration = \<lparr>draw_explore = (\<lambda>g. (False, g)), draw_action = (\<lambda>n g. (0, g))\<rparr>"

definition sample_engine :: "(int, unit) basic_engine" where
  "sample_engine = \<lparr>le_base = \<lparr>m_alpha = 1, m_gamma = 2, m_epsilon = 0, m_actions = 3, m_states = 2, m_seed = 0, m_policy = EGreedy, m_type = SARSA\<rparr>,
     le_init_value = 0, le_generator = (), le_qtable = [[4, 7, 7], [1, 2, 3]], le_trace_count = 0, le_trace_timestamp = 0,
     le_action_trace_count = 0, le_action_trace_timestamp = 0, le_action_counter = 0, le_early_exploration_window = 0,
     le_called = 0, le_explore = 0, le_exploit = 0, le_dist = replicate 64 [0, 0], le_learn_called = 0\<rparr>"

lemma sample_engine: "basic_ok sample_engine" "m_states (le_base sample_engine) = 2" "m_actions (le_base sample_engine) = 3"
  "weak_order (f_less int_floats)" "random_ok no_exploration"
  by (auto simp: sample_engine_def basic_ok_def base_ok_def dist_ok_def MAX_ACTIONS_def weak_order_def int_floats_def
      random_ok_def no_exploration_def)

theorem chooseAction_greedy_witness:
  "\<exists>e'. le_chooseAction int_floats no_exploration quiet_engine 0 sample_engine = Inr (1, e') \<and> le_qtable e' = [[4, 7, 7], [1, 2, 3]]"
proof -
  obtain a e' where "le_chooseAction int_floats no_exploration quiet_engine 0 sample_engine = Inr (a, e')" "a < 3"
    "le_qtable e' = le_qtable sample_engine"
    "\<forall>j<unat (3::u32). \<not> le_qtable sample_engine ! 0 ! unat a < le_qtable sample_engine ! 0 ! j"
    "\<forall>j<unat a. le_qtable sample_engine ! 0 ! j < le_qtable sample_engine ! 0 ! unat a"
    using chooseAction_greedy [OF sample_engine(1) _ sample_engine(5,4), of 0 quiet_engine] sample_engine(2,3)
    by (auto simp: int_floats_def no_exploration_def sample_engine_def)
  moreover have "le_qtable sample_engine ! 0 = [4, 7, 7]" by (simp add: sample_engine_def)
  ultimately have c: "le_chooseAction int_floats no_exploration quiet_engine 0 sample_engine = Inr (a, e')" "le_qtable e' = le_qtable sample_engine"
    "unat a < 3" "\<And>j. j < 3 \<Longrightarrow> \<not> [4, 7, 7] ! unat a < ([4, 7, 7] ! j :: int)" "\<And>j. j < unat a \<Longrightarrow> [4, 7, 7] ! j < ([4, 7, 7] ! unat a :: int)"
    by (simp_all only: word_less_nat_alt) simp_all
  have "unat a = 0 \<or> unat a = 1 \<or> unat a = 2" using c(3) by auto
  then have "unat a = unat (1::u32)" using c(4) [of 1] c(5) [of 1] by auto
  then have "a = 1" by (simp only: word_eq_iff_unsigned [where ?'a = nat])
  then show ?thesis using c(1,2) by (simp add: sample_engine_def)
qed

text \<open>
  C38: SARSA. A learning step for valid states and actions succeeds and changes exactly the
  Q-value of the first pair, to the SARSA update from the value of the second; the other cells,
  the parameters and the shape of the table stay.
\<close>

theorem learn_is_sarsa:
  assumes "basic_ok e" "s1 < m_states (le_base e)" "s2 < m_states (le_base e)" "a1 < m_actions (le_base e)" "a2 < m_actions (le_base e)"
  shows "\<exists>e'. le_learn F K s1 a1 r s2 a2 e = Inr e' \<and> basic_ok e' \<and> le_base e' = le_base e \<and>
    (\<forall>s<m_states (le_base e). \<forall>a<m_actions (le_base e). consultQ s a e' =
       (if s = s1 \<and> a = a1
        then Inr (sarsa F (m_alpha (le_base e)) (m_gamma (le_base e)) r (le_qtable e ! unat s1 ! unat a1) (le_qtable e ! unat s2 ! unat a2))
        else consultQ s a e))"
proof -
  let ?v = "sarsa F (m_alpha (le_base e)) (m_gamma (le_base e)) r (le_qtable e ! unat s1 ! unat a1) (le_qtable e ! unat s2 ! unat a2)"
  obtain e' where e': "le_learn F K s1 a1 r s2 a2 e = Inr e'" "basic_ok e'" "le_base e' = le_base e"
    "le_qtable e' = (le_qtable e)[unat s1 := (le_qtable e ! unat s1)[unat a1 := ?v]]"
    using le_learn_ok [OF assms] by blast
  have "consultQ s a e' = (if s = s1 \<and> a = a1 then Inr ?v else consultQ s a e)"
    if "s < m_states (le_base e)" "a < m_actions (le_base e)" for s a
  proof -
    have r: "unat s1 < length (le_qtable e)" "length (le_qtable e ! unat s1) = unat (m_actions (le_base e))"
      using basic_row [OF assms(1,2)] by simp_all
    moreover have "unat a1 < unat (m_actions (le_base e))" using assms(4) by (simp add: word_less_nat_alt)
    ultimately show ?thesis using that e'(3,4)
      by (auto simp: consultQ_def nth_list_update word_eq_iff_unsigned [where ?'a = nat])
  qed
  then show ?thesis using e' by blast
qed

theorem learn_is_sarsa_witness:
  "\<exists>e'. le_learn int_floats quiet_engine 0 1 5 1 2 sample_engine = Inr e' \<and> consultQ 0 1 e' = Inr 11 \<and> consultQ 0 2 e' = Inr 7"
proof -
  obtain e' where e': "le_learn int_floats quiet_engine 0 1 5 1 2 sample_engine = Inr e'"
    "\<forall>s<2. \<forall>a<3. consultQ s a e' = (if s = 0 \<and> a = 1 then Inr (sarsa int_floats 1 2 5 7 3) else consultQ s a sample_engine)"
    using learn_is_sarsa [OF sample_engine(1), of 0 1 1 2 int_floats quiet_engine 5] sample_engine(2,3)
    by (auto simp: sample_engine_def)
  have "sarsa int_floats 1 2 5 7 3 = 11" by (simp add: sarsa_def int_floats_def bounded_int_def)
  then show ?thesis using e'(1) e'(2) [rule_format, of 0 1] e'(2) [rule_format, of 0 2]
    by (simp add: consultQ_def sample_engine_def)
qed

text \<open>
  The names of the policy and of the learning type that the code runs with cannot be
  printed: the arrays are indexed with the enumerators, which start at 1, so \<^verbatim>\<open>EGreedy\<close> and \<^verbatim>\<open>SARSA\<close> lie
  past the end, and \<^verbatim>\<open>QLearning\<close> is printed as SARSA.
\<close>

theorem policy_names_out_of_bounds:
  "MapPolicyString EGreedy = Inl Out_of_bounds \<and> MapLearningTypeString SARSA = Inl Out_of_bounds \<and>
   MapLearningTypeString QLearning = Inr ''SARSA''"
  by (simp add: MapPolicyString_def MapLearningTypeString_def lookup_name_def policy_code_def learning_type_code_def)

end
