(* ===== verification/PythiaState.thy ===== *)
theory PythiaState
  imports Bitmaps HashZoo
begin

text \<open>
  What Pythia observes of the program (\<^verbatim>\<open>prefetcher/scooby_helper.cc\<close>, \<^verbatim>\<open>inc/scooby_helper.h\<close>): the
  entry of a page in the signature table with its bounded deques of program counters,
  offsets and deltas, the signatures made from them, and the state that the learning engine
  is asked about. Unordered sets are sets, unordered maps are maps.
\<close>

section \<open>Knobs, rewards and states\<close>

record state_knobs =
  scooby_max_pcs :: u32
  scooby_max_offsets :: u32
  scooby_max_deltas :: u32
  scooby_state_type :: u32
  scooby_max_states :: u32
  scooby_state_hash_type :: u32
  scooby_action_tracker_size :: u32

datatype reward_type = none | incorrect | correct_untimely | correct_timely | out_of_bounds | tracker_hit

definition reward_code :: "reward_type \<Rightarrow> nat" where
  "reward_code r = (case r of none \<Rightarrow> 0 | incorrect \<Rightarrow> 1 | correct_untimely \<Rightarrow> 2 | correct_timely \<Rightarrow> 3
     | out_of_bounds \<Rightarrow> 4 | tracker_hit \<Rightarrow> 5)"

definition isRewardCorrect :: "reward_type \<Rightarrow> bool" where
  "isRewardCorrect r \<longleftrightarrow> r = correct_timely \<or> r = correct_untimely"

definition isRewardIncorrect :: "reward_type \<Rightarrow> bool" where
  "isRewardIncorrect r \<longleftrightarrow> r = incorrect"

definition getRewardTypeString :: "reward_type \<Rightarrow> string" where
  "getRewardTypeString r =
     [''none'', ''incorrect'', ''correct_untimely'', ''correct_timely'', ''out_of_bounds'', ''tracker_hit''] ! reward_code r"

record pythia_state =
  sc_pc :: u64
  sc_address :: u64
  sc_page :: u64
  sc_offset :: u32
  sc_delta :: i32
  sc_local_delta_sig :: u32
  sc_local_delta_sig2 :: u32
  sc_local_pc_sig :: u32
  sc_local_offset_sig :: u32
  sc_bw_level :: u8
  sc_is_high_bw :: bool
  sc_acc_level :: u32

definition State_reset :: pythia_state where
  "State_reset = \<lparr>sc_pc = 0xdeadbeef, sc_address = 0xdeadbeef, sc_page = 0xdeadbeef, sc_offset = 0, sc_delta = 0,
     sc_local_delta_sig = 0, sc_local_delta_sig2 = 0, sc_local_pc_sig = 0, sc_local_offset_sig = 0,
     sc_bw_level = 0, sc_is_high_bw = False, sc_acc_level = 0\<rparr>"

definition mod_states :: "state_knobs \<Rightarrow> u32 \<Rightarrow> u32 res" where
  "mod_states K v = (if scooby_max_states K = 0 then Inl Div_by_zero else Inr (v mod scooby_max_states K))"

definition get_hash :: "state_knobs \<Rightarrow> u64 \<Rightarrow> u32 res" where
  "get_hash K key =
     (let t = scooby_state_hash_type K; k = ucast key :: u32 in
      if t = 1 then (if scooby_max_states K = 0 then Inl Div_by_zero else Inr (ucast (key mod ucast (scooby_max_states K))))
      else if t = 2 then mod_states K (jenkins k)
      else if t = 3 then mod_states K (knuth k)
      else if t = 4 then bind_res (murmur3 k) (mod_states K)
      else if t = 5 then mod_states K (jenkins32 k)
      else if t = 6 then mod_states K (hash32shift k)
      else if t = 7 then mod_states K (hash32shiftmult k)
      else if t = 8 then mod_states K (hash64shift k)
      else if t = 9 then mod_states K (hash5shift k)
      else if t = 10 then mod_states K (hash7shift k)
      else if t = 11 then mod_states K (Wang6shift k)
      else if t = 12 then mod_states K (Wang5shift k)
      else if t = 13 then mod_states K (Wang4shift k)
      else if t = 14 then mod_states K (Wang3shift k)
      else Inl Assert_failed)"

definition state_key :: "state_knobs \<Rightarrow> pythia_state \<Rightarrow> u64 res" where
  "state_key K s =
     (let t = scooby_state_type K in
      if t = 1 then Inr (sc_pc s)
      else if t = 2 then Inr (push_bit 6 (sc_pc s) + ucast (sc_offset s))
      else if t = 3 then Inr (ucast (sc_offset s))
      else if t = 4 then Inr (ucast (sc_local_delta_sig s))
      else if t = 5 then Inr (ucast (sc_local_pc_sig s))
      else if t = 6 then Inr (ucast (sc_local_delta_sig2 s))
      else Inl Assert_failed)"

definition state_value :: "state_knobs \<Rightarrow> pythia_state \<Rightarrow> u32 res" where
  "state_value K s =
     bind_res (state_key K s) (\<lambda>key. bind_res (get_hash K key) (\<lambda>hashed.
       if hashed < scooby_max_states K then Inr hashed else Inl Assert_failed))"

section \<open>The entry of a page\<close>

record action_tracker =
  at_action :: i32
  at_conf :: i32

record st_entry =
  ste_page :: u64
  ste_pcs :: "u64 list"
  ste_offsets :: "u32 list"
  ste_deltas :: "i32 list"
  ste_bmp_real :: Bitmap
  ste_bmp_pred :: Bitmap
  ste_unique_pcs :: "u64 set"
  ste_unique_deltas :: "i32 set"
  ste_trigger_pc :: u64
  ste_trigger_offset :: u32
  ste_streaming :: bool
  ste_action_tracker :: "action_tracker list"
  ste_total_prefetches :: u32

text \<open>The constructor leaves \<^verbatim>\<open>total_prefetches\<close> as it is in the memory, \<open>raw\<close>.\<close>

definition Scooby_STEntry :: "u32 \<Rightarrow> u64 \<Rightarrow> u64 \<Rightarrow> u32 \<Rightarrow> st_entry res" where
  "Scooby_STEntry raw p pc off =
     bind_res (put_bit off True 0) (\<lambda>bmp.
       Inr \<lparr>ste_page = p, ste_pcs = [pc], ste_offsets = [off], ste_deltas = [], ste_bmp_real = bmp, ste_bmp_pred = 0,
            ste_unique_pcs = {pc}, ste_unique_deltas = {}, ste_trigger_pc = pc, ste_trigger_offset = off,
            ste_streaming = False, ste_action_tracker = [], ste_total_prefetches = raw\<rparr>)"

text \<open>\<^verbatim>\<open>if(q.size() >= n) q.pop_front(); q.push_back(x)\<close>.\<close>

definition push_bounded :: "u32 \<Rightarrow> 'a \<Rightarrow> 'a list \<Rightarrow> 'a list res" where
  "push_bounded n x xs =
     (if unat n \<le> length xs then (if xs = [] then Inl Out_of_bounds else Inr (tl xs @ [x])) else Inr (xs @ [x]))"

definition offset_delta :: "u32 \<Rightarrow> u32 \<Rightarrow> i32" where
  "offset_delta prev off = (if off > prev then off - prev else (- 1) * (prev - off))"

definition ste_update :: "state_knobs \<Rightarrow> u64 \<Rightarrow> u64 \<Rightarrow> u32 \<Rightarrow> st_entry \<Rightarrow> st_entry res" where
  "ste_update K p pc off e =
     (if ste_page e \<noteq> p then Inl Assert_failed
      else
        bind_res (push_bounded (scooby_max_pcs K) pc (ste_pcs e)) (\<lambda>pcs.
        let e = e\<lparr>ste_pcs := pcs, ste_unique_pcs := insert pc (ste_unique_pcs e)\<rparr> in
        bind_res
          (if ste_offsets e = [] then Inr e
           else
             let delta = offset_delta (last (ste_offsets e)) off in
             bind_res (push_bounded (scooby_max_deltas K) delta (ste_deltas e)) (\<lambda>ds.
               Inr (e\<lparr>ste_deltas := ds, ste_unique_deltas := insert delta (ste_unique_deltas e)\<rparr>)))
          (\<lambda>e.
             bind_res (push_bounded (scooby_max_offsets K) off (ste_offsets e)) (\<lambda>offs.
             bind_res (put_bit off True (ste_bmp_real e)) (\<lambda>bmp.
               Inr (e\<lparr>ste_offsets := offs, ste_bmp_real := bmp\<rparr>))))))"

text \<open>The signatures use the last four elements.\<close>

definition last4 :: "'a list \<Rightarrow> 'a list" where
  "last4 xs = drop (if 4 \<le> length xs then length xs - 4 else 0) xs"

definition get_delta_sig :: "st_entry \<Rightarrow> u32" where
  "get_delta_sig e =
     foldl (\<lambda>signature d.
        let signature = push_bit 3 signature AND (push_bit 12 1 - 1);
            delta = d AND (push_bit 7 1 - 1);
            signature = signature XOR delta
        in signature AND (push_bit 12 1 - 1)) 0 (last4 (ste_deltas e))"

definition get_delta_sig2 :: "st_entry \<Rightarrow> u32" where
  "get_delta_sig2 e =
     foldl (\<lambda>curr_sig d.
        let sig_delta = (if sint d < 0 then (- 1) * d + push_bit (7 - 1) 1 else d)
        in (push_bit 3 curr_sig XOR sig_delta) AND (push_bit 12 1 - 1)) 0 (last4 (ste_deltas e))"

definition get_pc_sig :: "st_entry \<Rightarrow> u32" where
  "get_pc_sig e = foldl (\<lambda>signature pc. ucast (ucast (push_bit 4 signature) XOR pc)) 0 (last4 (ste_pcs e))"

definition get_offset_sig :: "st_entry \<Rightarrow> u32" where
  "get_offset_sig e =
     foldl (\<lambda>signature off. push_bit 4 signature XOR off) 0 (last4 (ste_offsets e)) AND (push_bit 24 1 - 1)"

text \<open>
  The recently issued actions of the page. When the action is known, the iterator is
  dereferenced after the \<^verbatim>\<open>erase\<close> that invalidates it.
\<close>

definition insert_action_tracker :: "state_knobs \<Rightarrow> i32 \<Rightarrow> st_entry \<Rightarrow> st_entry res" where
  "insert_action_tracker K pref_offset e =
     (case find (\<lambda>a. at_action a = pref_offset) (ste_action_tracker e) of
        Some a \<Rightarrow> Inl Invalid_iterator
      | None \<Rightarrow>
          bind_res (push_bounded (scooby_action_tracker_size K) \<lparr>at_action = pref_offset, at_conf = 0\<rparr> (ste_action_tracker e))
            (\<lambda>ts. Inr (e\<lparr>ste_action_tracker := ts\<rparr>)))"

definition track_prefetch :: "state_knobs \<Rightarrow> u32 \<Rightarrow> i32 \<Rightarrow> st_entry \<Rightarrow> st_entry res" where
  "track_prefetch K pred_offset pref_offset e =
     bind_res (get_bit (ste_bmp_pred e) pred_offset) (\<lambda>seen.
       if seen then Inr e
       else
         bind_res (put_bit pred_offset True (ste_bmp_pred e)) (\<lambda>bmp.
           insert_action_tracker K pref_offset
             (e\<lparr>ste_bmp_pred := bmp, ste_total_prefetches := ste_total_prefetches e + 1\<rparr>)))"

text \<open>Whether the action is tracked, and its confidence or 0.\<close>

definition search_action_tracker :: "i32 \<Rightarrow> st_entry \<Rightarrow> bool \<times> i32" where
  "search_action_tracker action e =
     (case find (\<lambda>a. at_action a = action) (ste_action_tracker e) of
        Some a \<Rightarrow> (True, at_conf a)
      | None \<Rightarrow> (False, 0))"

section \<open>The recorder\<close>

definition MAX_HOP_COUNT :: nat where "MAX_HOP_COUNT = 16"

record scooby_recorder =
  rec_unique_pcs :: "u64 set"
  rec_unique_trigger_pcs :: "u64 set"
  rec_unique_pages :: "u64 set"
  rec_access_bitmap_dist :: "u64 \<Rightarrow> u64 option"
  rec_hop_delta_dist :: "u64 list list"
  rec_total_bitmaps_seen :: u64
  rec_unique_bitmaps_seen :: u64

definition record_access :: "u64 \<Rightarrow> u64 \<Rightarrow> scooby_recorder \<Rightarrow> scooby_recorder" where
  "record_access pc p r =
     r\<lparr>rec_unique_pcs := insert pc (rec_unique_pcs r), rec_unique_pages := insert p (rec_unique_pages r)\<rparr>"

definition record_trigger_access :: "u64 \<Rightarrow> scooby_recorder \<Rightarrow> scooby_recorder" where
  "record_trigger_access pc r = r\<lparr>rec_unique_trigger_pcs := insert pc (rec_unique_trigger_pcs r)\<rparr>"

text \<open>The pairs of accesses \<open>hop\<close> apart in the page, for each hop and each first access in turn.\<close>

definition hop_deltas :: "u32 list \<Rightarrow> (nat \<times> nat) list" where
  "hop_deltas offs =
     [(hop, let d = offs ! (i + hop) - offs ! i in nat (sint (if sint d < 0 then (- 1) * d + 63 else d))).
        hop \<leftarrow> [1..<Suc MAX_HOP_COUNT], i \<leftarrow> [0..<length offs], i + hop < length offs]"

primrec bump_all :: "(nat \<times> nat) list \<Rightarrow> u64 list list \<Rightarrow> u64 list list res" where
  "bump_all [] t = Inr t"
| "bump_all (x # xs) t = bind_res (bump2 (fst x) (snd x) t) (bump_all xs)"

definition record_access_knowledge :: "st_entry \<Rightarrow> scooby_recorder \<Rightarrow> scooby_recorder res" where
  "record_access_knowledge e r =
     (if ste_offsets e = [] then Inl Out_of_bounds
      else
        bind_res (rotate_left (ste_bmp_real e) (hd (ste_offsets e)) 64) (\<lambda>rot.
        let v = bitmap_value rot 64;
            r = (case rec_access_bitmap_dist r v of
                   Some n \<Rightarrow> r\<lparr>rec_access_bitmap_dist := (rec_access_bitmap_dist r)(v \<mapsto> n + 1)\<rparr>
                 | None \<Rightarrow> r\<lparr>rec_access_bitmap_dist := (rec_access_bitmap_dist r)(v \<mapsto> 1),
                             rec_unique_bitmaps_seen := rec_unique_bitmaps_seen r + 1\<rparr>);
            r = r\<lparr>rec_total_bitmaps_seen := rec_total_bitmaps_seen r + 1\<rparr>
        in bind_res (bump_all (hop_deltas (ste_offsets e)) (rec_hop_delta_dist r)) (\<lambda>t.
             Inr (r\<lparr>rec_hop_delta_dist := t\<rparr>))))"

section \<open>Bounded deques are windows of the history\<close>

definition lastn :: "nat \<Rightarrow> 'a list \<Rightarrow> 'a list" where
  "lastn n xs = drop (length xs - n) xs"

lemma length_lastn [simp]: "length (lastn n xs) = min n (length xs)"
  by (simp add: lastn_def)

lemma set_lastn: "set (lastn n xs) \<subseteq> set xs"
  by (simp add: lastn_def set_drop_subset)

lemma lastn_Nil_iff [simp]: "lastn n xs = [] \<longleftrightarrow> n = 0 \<or> xs = []"
  by (cases xs) (auto simp: lastn_def)

lemma last_lastn: "0 < n \<Longrightarrow> xs \<noteq> [] \<Longrightarrow> last (lastn n xs) = last xs"
  by (simp add: lastn_def)

lemma lastn_short: "length xs \<le> n \<Longrightarrow> lastn n xs = xs"
  by (simp add: lastn_def)

lemma push_bounded_window:
  assumes "0 < n"
  shows "push_bounded n x (lastn (unat n) xs) = Inr (lastn (unat n) (xs @ [x]))"
proof (cases "unat n \<le> length xs")
  case True
  have "0 < unat n" using assms by (rule unat_pos)
  moreover have "tl (drop (length xs - unat n) xs) = drop (Suc (length xs - unat n)) xs" by (simp add: drop_Suc tl_drop)
  ultimately show ?thesis using True
    by (auto simp: push_bounded_def lastn_def Suc_diff_le)
next
  case False
  then show ?thesis by (simp add: push_bounded_def lastn_short)
qed

lemma push_bounded_ok:
  assumes "0 < n" "length xs \<le> unat n"
  shows "\<exists>ys. push_bounded n x xs = Inr ys \<and> length ys \<le> unat n \<and> set ys \<subseteq> insert x (set xs) \<and> ys \<noteq> [] \<and> last ys = x"
proof -
  have "0 < unat n" using assms(1) by (rule unat_pos)
  then show ?thesis using assms(2) set_tl_subset [of xs] by (cases xs) (auto simp: push_bounded_def)
qed

section \<open>The value of a state\<close>

lemma mod_states_ok: "0 < scooby_max_states K \<Longrightarrow> \<exists>v. mod_states K w = Inr v \<and> v < scooby_max_states K"
  by (auto simp: mod_states_def word_mod_less_divisor)

lemma ucast_mod_less:
  fixes n :: u32 and k :: u64
  assumes "0 < n"
  shows "(ucast (k mod ucast n) :: u32) < n"
proof -
  have n: "0 < unat n" using assms by (rule unat_pos)
  have "unat (ucast n :: u64) = unat n" using u32_bound [of n] by (simp add: unsigned_ucast_eq unsigned_take_bit_eq take_bit_nat_eq_self)
  then have m: "unat (k mod ucast n) = unat k mod unat n" by (simp add: unat_mod)
  have "unat k mod unat n < unat n" using n by simp
  then have "unat k mod unat n < 2 ^ 32" using u32_bound [of n] by simp
  then have "unat (ucast (k mod ucast n) :: u32) = unat k mod unat n" using m by (simp add: unsigned_ucast_eq unsigned_take_bit_eq take_bit_nat_eq_self)
  then show ?thesis using n by (simp add: word_less_nat_alt)
qed

definition hash_types :: "nat set" where
  "hash_types = {1, 2, 3, 5, 6, 7, 8, 9, 10, 11, 12, 13, 14}"

lemma hash_types_rest: "n \<in> {1..14} \<Longrightarrow> n \<noteq> 4 \<Longrightarrow> n \<in> hash_types"
  by (simp add: hash_types_def) presburger

lemma get_hash_ok:
  assumes "0 < scooby_max_states K" "unat (scooby_state_hash_type K) \<in> hash_types"
  shows "\<exists>v. get_hash K key = Inr v \<and> v < scooby_max_states K"
proof -
  have t: "scooby_state_hash_type K = 1 \<or> scooby_state_hash_type K = 2 \<or> scooby_state_hash_type K = 3 \<or> scooby_state_hash_type K = 5 \<or>
     scooby_state_hash_type K = 6 \<or> scooby_state_hash_type K = 7 \<or> scooby_state_hash_type K = 8 \<or> scooby_state_hash_type K = 9 \<or>
     scooby_state_hash_type K = 10 \<or> scooby_state_hash_type K = 11 \<or> scooby_state_hash_type K = 12 \<or> scooby_state_hash_type K = 13 \<or>
     scooby_state_hash_type K = 14"
    using assms(2) by (auto simp: hash_types_def word_eq_iff_unsigned [where ?'a = nat])
  show ?thesis
  proof (cases "scooby_state_hash_type K = 1")
    case True
    then show ?thesis using assms(1) ucast_mod_less [of "scooby_max_states K" key] by (auto simp: get_hash_def Let_def)
  next
    case False
    then have "\<exists>w. get_hash K key = mod_states K w"
      using t by (elim disjE) (simp_all add: get_hash_def Let_def; blast)+
    then show ?thesis using mod_states_ok [OF assms(1)] by metis
  qed
qed

lemma state_value_ok:
  assumes "0 < scooby_max_states K" "unat (scooby_state_hash_type K) \<in> hash_types" "unat (scooby_state_type K) \<in> {1..6}"
  shows "\<exists>v. state_value K s = Inr v \<and> v < scooby_max_states K"
proof -
  have "scooby_state_type K = 1 \<or> scooby_state_type K = 2 \<or> scooby_state_type K = 3 \<or> scooby_state_type K = 4 \<or>
     scooby_state_type K = 5 \<or> scooby_state_type K = 6"
    using assms(3) by (auto simp: word_eq_iff_unsigned [where ?'a = nat])
  then have "\<exists>key. state_key K s = Inr key" by (elim disjE) (simp_all add: state_key_def Let_def)
  then obtain key where key: "state_key K s = Inr key" by blast
  obtain v where "get_hash K key = Inr v" "v < scooby_max_states K" using get_hash_ok [OF assms(1,2)] by blast
  then show ?thesis using key by (simp add: state_value_def)
qed

section \<open>A page and its accesses\<close>

text \<open>All updates of an entry: pairs of program counter and offset, oldest first.\<close>

primrec ste_updates :: "state_knobs \<Rightarrow> u64 \<Rightarrow> (u64 \<times> u32) list \<Rightarrow> st_entry \<Rightarrow> st_entry res" where
  "ste_updates K p [] e = Inr e"
| "ste_updates K p (x # xs) e = bind_res (ste_update K p (fst x) (snd x) e) (ste_updates K p xs)"

definition diffs :: "u32 list \<Rightarrow> i32 list" where
  "diffs offs = map2 (-) (tl offs) offs"

lemma diffs_snoc: "offs \<noteq> [] \<Longrightarrow> diffs (offs @ [x]) = diffs offs @ [x - last offs]"
  by (induction offs rule: induct_list012) (simp_all add: diffs_def)

lemma offset_delta_diff: "offset_delta prev off = off - prev"
  by (simp add: offset_delta_def)

text \<open>The entry is a window on the history \<open>xs\<close> of its page.\<close>

definition ste_history :: "state_knobs \<Rightarrow> u64 \<Rightarrow> (u64 \<times> u32) list \<Rightarrow> st_entry \<Rightarrow> bool" where
  "ste_history K p xs e \<longleftrightarrow> ste_page e = p \<and>
     ste_pcs e = lastn (unat (scooby_max_pcs K)) (map fst xs) \<and>
     ste_offsets e = lastn (unat (scooby_max_offsets K)) (map snd xs) \<and>
     ste_deltas e = lastn (unat (scooby_max_deltas K)) (diffs (map snd xs)) \<and>
     (\<forall>j<64. bit (ste_bmp_real e) j \<longleftrightarrow> of_nat j \<in> snd ` set xs) \<and>
     ste_unique_pcs e = fst ` set xs \<and> ste_unique_deltas e = set (diffs (map snd xs))"

definition bounded_knobs :: "state_knobs \<Rightarrow> bool" where
  "bounded_knobs K \<longleftrightarrow> 0 < scooby_max_pcs K \<and> 0 < scooby_max_offsets K \<and> 0 < scooby_max_deltas K"

lemma put_bit_set:
  assumes "off < 64"
  shows "put_bit off True bmp = Inr (set_bit (unat off) bmp)"
    "j < 64 \<Longrightarrow> bit (set_bit (unat off) bmp :: Bitmap) j \<longleftrightarrow> of_nat j = off \<or> bit bmp j"
proof -
  show "put_bit off True bmp = Inr (set_bit (unat off) bmp)" using assms by (simp add: put_bit_def)
  have "of_nat j = off \<longleftrightarrow> j = unat off" if "j < 64" for j :: nat
    using that by (auto simp: word_eq_iff_unsigned [where ?'a = nat] unat_of_nat take_bit_nat_eq_self)
  then show "j < 64 \<Longrightarrow> bit (set_bit (unat off) bmp :: Bitmap) j \<longleftrightarrow> of_nat j = off \<or> bit bmp j"
    by (auto simp: bit_set_bit_iff)
qed

lemma ste_history_step:
  assumes "ste_history K p xs e" "xs \<noteq> []" "bounded_knobs K" "off < 64"
  shows "\<exists>e'. ste_update K p pc off e = Inr e' \<and> ste_history K p (xs @ [(pc, off)]) e' \<and>
    ste_action_tracker e' = ste_action_tracker e \<and> ste_bmp_pred e' = ste_bmp_pred e"
proof -
  have k: "0 < scooby_max_pcs K" "0 < scooby_max_offsets K" "0 < scooby_max_deltas K" "0 < unat (scooby_max_offsets K)"
    using assms(3) by (simp_all add: bounded_knobs_def unat_pos)
  note h = assms(1) [unfolded ste_history_def]
  have off: "ste_offsets e \<noteq> []" "last (ste_offsets e) = last (map snd xs)"
    using h k(4) assms(2) by (auto simp: last_lastn)
  let ?d = "off - last (map snd xs)"
  let ?e = "e\<lparr>ste_pcs := lastn (unat (scooby_max_pcs K)) (map fst xs @ [pc]), ste_unique_pcs := insert pc (ste_unique_pcs e),
    ste_deltas := lastn (unat (scooby_max_deltas K)) (diffs (map snd xs) @ [?d]), ste_unique_deltas := insert ?d (ste_unique_deltas e),
    ste_offsets := lastn (unat (scooby_max_offsets K)) (map snd xs @ [off]), ste_bmp_real := set_bit (unat off) (ste_bmp_real e)\<rparr>"
  have "ste_update K p pc off e = Inr ?e"
    using h off push_bounded_window [OF k(1), of pc "map fst xs"] push_bounded_window [OF k(3), of ?d "diffs (map snd xs)"]
      push_bounded_window [OF k(2), of off "map snd xs"] put_bit_set(1) [OF assms(4)]
    by (simp add: ste_update_def offset_delta_diff Let_def)
  moreover have "ste_history K p (xs @ [(pc, off)]) ?e"
    using h assms(2) put_bit_set(2) [OF assms(4)] by (auto simp: ste_history_def diffs_snoc last_map)
  ultimately show ?thesis by (intro exI [of _ ?e]) simp
qed

lemma ste_history_init:
  assumes "off < 64" "bounded_knobs K"
  shows "\<exists>e. Scooby_STEntry raw p pc off = Inr e \<and> ste_history K p [(pc, off)] e \<and> ste_action_tracker e = [] \<and> ste_bmp_pred e = 0"
proof -
  have k: "1 \<le> unat (scooby_max_pcs K)" "1 \<le> unat (scooby_max_offsets K)"
    using assms(2) unat_pos [of "scooby_max_pcs K"] unat_pos [of "scooby_max_offsets K"] by (simp_all add: bounded_knobs_def)
  have "put_bit off True 0 = Inr (2 ^ unat off)" "\<And>j. j < 64 \<Longrightarrow> bit (2 ^ unat off :: Bitmap) j \<longleftrightarrow> of_nat j = off"
    using put_bit_set(1) [OF assms(1), of 0] put_bit_set(2) [OF assms(1), of _ 0] by simp_all
  then show ?thesis using k by (simp add: Scooby_STEntry_def ste_history_def lastn_short diffs_def)
qed

lemma ste_updates_history:
  assumes "ste_history K p ys e" "ys \<noteq> []" "bounded_knobs K" "\<forall>x\<in>set xs. snd x < 64"
  shows "\<exists>e'. ste_updates K p xs e = Inr e' \<and> ste_history K p (ys @ xs) e'"
  using assms(1,2,4)
proof (induction xs arbitrary: ys e)
  case Nil
  then show ?case by simp
next
  case (Cons x xs)
  obtain e1 where e1: "ste_update K p (fst x) (snd x) e = Inr e1" "ste_history K p (ys @ [(fst x, snd x)]) e1"
    using ste_history_step [OF Cons.prems(1,2) assms(3), of "snd x" "fst x"] Cons.prems(3) by auto
  then show ?case using Cons.IH [OF e1(2)] Cons.prems(3) by auto
qed

text \<open>Bounds of the signatures, whatever the history.\<close>

lemma masked [simp]: "(w :: u32) AND 4095 < 4096" "(w :: u32) AND 16777215 < 16777216"
  by (rule order_le_less_trans [OF word_and_le1], simp)+

lemma get_delta_sig_bound: "get_delta_sig e < 2 ^ 12"
proof -
  have "foldl (\<lambda>signature d. let signature = push_bit 3 signature AND (push_bit 12 1 - 1); delta = d AND (push_bit 7 1 - 1);
      signature = signature XOR delta in signature AND (push_bit 12 1 - 1)) 0 ds < (2 ^ 12 :: u32)" for ds :: "i32 list"
    by (cases ds rule: rev_cases) (simp_all add: Let_def)
  then show ?thesis unfolding get_delta_sig_def by blast
qed

lemma get_delta_sig2_bound: "get_delta_sig2 e < 2 ^ 12"
proof -
  have "foldl (\<lambda>curr_sig d. let sig_delta = (if sint d < 0 then (- 1) * d + push_bit (7 - 1) 1 else d)
      in (push_bit 3 curr_sig XOR sig_delta) AND (push_bit 12 1 - 1)) 0 ds < (2 ^ 12 :: u32)" for ds :: "i32 list"
    by (cases ds rule: rev_cases) (simp_all add: Let_def)
  then show ?thesis unfolding get_delta_sig2_def by blast
qed

lemma get_offset_sig_bound: "get_offset_sig e < 2 ^ 24"
  by (simp add: get_offset_sig_def)

section \<open>Properties\<close>

text \<open>
  C33: The entry of a page is a window on its history. Whatever accesses a page sees, no
  update fails; the deques hold the last program counters, offsets and deltas, as many as the
  knobs allow; the demand bitmap has exactly the offsets that were touched; and the delta and
  offset signatures keep to their 12 and 24 bits.
\<close>

theorem page_entry_is_history:
  assumes "bounded_knobs K" "off < 64" "\<forall>x\<in>set xs. snd x < 64"
  shows "\<exists>e e'. Scooby_STEntry raw p pc off = Inr e \<and> ste_updates K p xs e = Inr e' \<and>
    ste_pcs e' = lastn (unat (scooby_max_pcs K)) (pc # map fst xs) \<and>
    ste_offsets e' = lastn (unat (scooby_max_offsets K)) (off # map snd xs) \<and>
    ste_deltas e' = lastn (unat (scooby_max_deltas K)) (diffs (off # map snd xs)) \<and>
    (\<forall>j<64. bit (ste_bmp_real e') j \<longleftrightarrow> of_nat j \<in> insert off (snd ` set xs)) \<and>
    get_delta_sig e' < 2 ^ 12 \<and> get_delta_sig2 e' < 2 ^ 12 \<and> get_offset_sig e' < 2 ^ 24"
proof -
  obtain e where e: "Scooby_STEntry raw p pc off = Inr e" "ste_history K p [(pc, off)] e"
    using ste_history_init [OF assms(2,1)] by blast
  obtain e' where e': "ste_updates K p xs e = Inr e'" "ste_history K p ((pc, off) # xs) e'"
    using ste_updates_history [OF e(2) _ assms(1,3)] by auto
  then show ?thesis using e(1) get_delta_sig_bound [of e'] get_delta_sig2_bound [of e'] get_offset_sig_bound [of e']
    by (intro exI [of _ e] exI [of _ e']) (simp add: ste_history_def)
qed

definition sample_state_knobs :: state_knobs where
  "sample_state_knobs = \<lparr>scooby_max_pcs = 2, scooby_max_offsets = 2, scooby_max_deltas = 2, scooby_state_type = 1,
     scooby_max_states = 100, scooby_state_hash_type = 11, scooby_action_tracker_size = 2\<rparr>"

theorem page_entry_is_history_witness:
  "\<exists>e e'. Scooby_STEntry 0 7 400 10 = Inr e \<and> ste_updates sample_state_knobs 7 [(404, 13), (400, 12)] e = Inr e' \<and>
    ste_pcs e' = [404, 400] \<and> ste_offsets e' = [13, 12] \<and> ste_deltas e' = [3, - 1] \<and>
    (\<forall>j<64. bit (ste_bmp_real e') j \<longleftrightarrow> of_nat j \<in> {10, 12, 13 :: u32})"
  using page_entry_is_history [of sample_state_knobs 10 "[(404, 13), (400, 12)]" 0 7 400]
  by (simp add: bounded_knobs_def sample_state_knobs_def lastn_def diffs_def insert_commute) blast

text \<open>
  C39: The value of a state is an index of the table of Q-values, for every state type and for
  every selectable hash except murmur3, which asserts.
\<close>

theorem state_value_in_range:
  assumes "0 < scooby_max_states K" "unat (scooby_state_type K) \<in> {1..6}" "unat (scooby_state_hash_type K) \<in> {1..14}"
  shows "if scooby_state_hash_type K = 4 then state_value K s = Inl Assert_failed
     else \<exists>v. state_value K s = Inr v \<and> v < scooby_max_states K"
proof (cases "scooby_state_hash_type K = 4")
  case True
  have "scooby_state_type K = 1 \<or> scooby_state_type K = 2 \<or> scooby_state_type K = 3 \<or> scooby_state_type K = 4 \<or>
     scooby_state_type K = 5 \<or> scooby_state_type K = 6"
    using assms(2) by (auto simp: word_eq_iff_unsigned [where ?'a = nat])
  then have "\<exists>key. state_key K s = Inr key" by (elim disjE) (simp_all add: state_key_def Let_def)
  then show ?thesis using True by (auto simp: state_value_def get_hash_def Let_def murmur3_def)
next
  case False
  then have "unat (scooby_state_hash_type K) \<noteq> 4" by (auto simp: word_eq_iff_unsigned [where ?'a = nat])
  then have "unat (scooby_state_hash_type K) \<in> hash_types" using assms(3) hash_types_rest by blast
  then show ?thesis using state_value_ok [OF assms(1) _ assms(2)] False by auto
qed

theorem state_value_in_range_witness:
  "\<exists>v. state_value sample_state_knobs (State_reset\<lparr>sc_pc := 400\<rparr>) = Inr v \<and> v < 100"
  using state_value_in_range [of sample_state_knobs "State_reset\<lparr>sc_pc := 400\<rparr>"] by (simp add: sample_state_knobs_def)

text \<open>
  C40: Repeating an action on a page is undefined behaviour. Once a prefetch has put its action
  into the tracker of its page, the next new prefetch of the page with the same action reads
  through the iterator that the erase has just invalidated.
\<close>

theorem repeated_action_is_undefined:
  assumes "track_prefetch K off1 a e = Inr e1" "\<not> bit (ste_bmp_pred e) (unat off1)" "off2 < 64" "off2 \<noteq> off1"
    and "\<not> bit (ste_bmp_pred e) (unat off2)"
  shows "track_prefetch K off2 a e1 = Inl Invalid_iterator"
proof -
  have off1: "off1 < 64" using assms(1) by (auto simp: track_prefetch_def get_bit_def bind_res_Inr_iff split: if_splits)
  let ?new = "e\<lparr>ste_bmp_pred := set_bit (unat off1) (ste_bmp_pred e), ste_total_prefetches := ste_total_prefetches e + 1\<rparr>"
  have ins: "insert_action_tracker K a ?new = Inr e1"
    using assms(1,2) off1 by (simp add: track_prefetch_def get_bit_def put_bit_def)
  then have "\<exists>x\<in>set (ste_action_tracker e1). at_action x = a" "ste_bmp_pred e1 = set_bit (unat off1) (ste_bmp_pred e)"
    by (auto simp: insert_action_tracker_def bind_res_Inr_iff push_bounded_def split: option.splits if_splits)
  moreover from this(1) have "find (\<lambda>x. at_action x = a) (ste_action_tracker e1) \<noteq> None" by (auto simp: find_None_iff)
  moreover have "unat off1 \<noteq> unat off2" using assms(4) by (simp add: word_eq_iff_unsigned [where ?'a = nat])
  ultimately show ?thesis using assms(3,5)
    by (auto simp: track_prefetch_def get_bit_def put_bit_def insert_action_tracker_def bit_set_bit_iff)
qed

theorem repeated_action_is_undefined_witness:
  "\<exists>e e1. Scooby_STEntry 0 7 400 10 = Inr e \<and> track_prefetch sample_state_knobs 11 1 e = Inr e1 \<and>
    track_prefetch sample_state_knobs 12 1 e1 = Inl Invalid_iterator"
proof -
  obtain e where e: "Scooby_STEntry 0 7 400 10 = Inr e" "ste_action_tracker e = []" "ste_bmp_pred e = 0"
    by (simp add: Scooby_STEntry_def put_bit_def)
  obtain e1 where e1: "track_prefetch sample_state_knobs 11 1 e = Inr e1"
    using e by (simp add: track_prefetch_def get_bit_def put_bit_def insert_action_tracker_def push_bounded_def sample_state_knobs_def)
  have "track_prefetch sample_state_knobs 12 1 e1 = Inl Invalid_iterator"
    by (rule repeated_action_is_undefined [OF e1]) (simp_all add: e(3))
  then show ?thesis using e(1) e1 by blast
qed

end
