(* ===== verification/FeatureKnowledge.thy ===== *)
theory FeatureKnowledge
  imports QLearning PythiaState
begin

text \<open>
  One feature of Pythia's featurewise engine (\<^verbatim>\<open>src/feature_knowledge.cc\<close>,
  \<^verbatim>\<open>inc/feature_knowledge.h\<close>, \<^verbatim>\<open>inc/feature_knowledge_helper.h\<close>): a feature of the state is hashed
  to a tile of each of several tilings, the Q-value of the feature is the weighted sum of
  its tiles, and learning moves the tiles of the state towards the SARSA target.
\<close>

section \<open>Features\<close>

datatype feature_type = F_PC | F_Offset | F_Delta | F_Address | F_PC_Offset | F_PC_Address | F_PC_Page | F_PC_Path
  | F_Delta_Path | F_Offset_Path | F_PC_Delta | F_PC_Offset_Delta | F_Page | F_PC_Path_Offset | F_PC_Path_Offset_Path
  | F_PC_Path_Delta | F_PC_Path_Delta_Path | F_PC_Path_Offset_Path_Delta_Path | F_Offset_Path_PC | F_Delta_Path_PC

definition feature_types :: "feature_type list" where
  "feature_types = [F_PC, F_Offset, F_Delta, F_Address, F_PC_Offset, F_PC_Address, F_PC_Page, F_PC_Path, F_Delta_Path,
     F_Offset_Path, F_PC_Delta, F_PC_Offset_Delta, F_Page, F_PC_Path_Offset, F_PC_Path_Offset_Path, F_PC_Path_Delta,
     F_PC_Path_Delta_Path, F_PC_Path_Offset_Path_Delta_Path, F_Offset_Path_PC, F_Delta_Path_PC]"

definition NumFeatureTypes :: nat where "NumFeatureTypes = 20"
definition FK_MAX_TILINGS :: nat where "FK_MAX_TILINGS = 32"

record feature_knobs =
  fk_enable_action_fallback :: bool
  fk_enable_trace :: bool
  fk_trace_feature_type :: feature_type
  fk_trace_feature :: string
  fk_trace_interval_limit :: u32
  fk_trace_record_limit :: u32

record 'f feature =
  fk_type :: feature_type
  fk_alpha :: 'f
  fk_gamma :: 'f
  fk_actions :: u32
  fk_init_value :: 'f
  fk_weight :: 'f
  fk_weight_gradient :: 'f
  fk_hash_type :: u32
  fk_num_tilings :: u32
  fk_num_tiles :: u32
  fk_qtable :: "'f list list list"
  fk_enable_tiling_offset :: bool
  fk_min_weight :: 'f
  fk_max_weight :: 'f
  fk_trace_interval :: u32
  fk_trace_timestamp :: u64
  fk_trace_record_count :: u32

definition FeatureKnowledge_init ::
  "'f float_ops \<Rightarrow> feature_type \<Rightarrow> 'f \<Rightarrow> 'f \<Rightarrow> u32 \<Rightarrow> 'f \<Rightarrow> 'f \<Rightarrow> u32 \<Rightarrow> u32 \<Rightarrow> bool \<Rightarrow> u32 \<Rightarrow> bool \<Rightarrow> 'f feature res" where
  "FeatureKnowledge_init F ty alpha gamma actions weight gradient tilings tiles zero_init hash_type use_offset =
     (if \<not> unat tilings \<le> FK_MAX_TILINGS then Inl Assert_failed
      else if \<not> (tilings = 1 \<or> use_offset) then Inl Assert_failed
      else
        let v = initial_q F zero_init gamma in
        Inr \<lparr>fk_type = ty, fk_alpha = alpha, fk_gamma = gamma, fk_actions = actions, fk_init_value = v, fk_weight = weight,
             fk_weight_gradient = gradient, fk_hash_type = hash_type, fk_num_tilings = tilings, fk_num_tiles = tiles,
             fk_qtable = replicate (unat tilings) (replicate (unat tiles) (replicate (unat actions) v)),
             fk_enable_tiling_offset = use_offset, fk_min_weight = f_of_int F 1000000, fk_max_weight = f_of_int F 0,
             fk_trace_interval = 0, fk_trace_timestamp = 0, fk_trace_record_count = 0\<rparr>)"

section \<open>Tiles\<close>

definition tiling_offset :: "u32 list" where
  "tiling_offset = [0xaca081b9, 0x666a1c67, 0xc11d6a53, 0x8e5d97c1, 0x0d1cad54, 0x874f71cb, 0x20d2fa13, 0x73f7c4a7,
     0x0b701f6c, 0x8388d86d, 0xf72ac9f2, 0xbab16d82, 0x524ac258, 0xb5900302, 0xb48ccc72, 0x632f05bf,
     0xe7111073, 0xeb602af4, 0xf3f29ebb, 0x2a6184f2, 0x461da5da, 0x6693471d, 0x62fd0138, 0xc484efb3,
     0x81c9eeeb, 0x860f3766, 0x334faf86, 0x5e81e881, 0x14bc2195, 0xf47671a8, 0x75414279, 0x357bc5e0]"

text \<open>The lines that end every \<^verbatim>\<open>process_*\<close>, and those that fold a 64-bit key first.\<close>

definition tile_of :: "'f feature \<Rightarrow> u32 \<Rightarrow> u32 \<Rightarrow> u32 res" where
  "tile_of f tiling raw_index =
     bind_res (if fk_enable_tiling_offset f
               then (if unat tiling < length tiling_offset then Inr (raw_index XOR tiling_offset ! unat tiling) else Inl Out_of_bounds)
               else Inr raw_index) (\<lambda>raw_index.
     bind_res (getHash (fk_hash_type f) raw_index) (\<lambda>hashed_index.
       if fk_num_tiles f = 0 then Inl Div_by_zero else Inr (hashed_index mod fk_num_tiles f)))"

definition fold_tile :: "'f feature \<Rightarrow> u32 \<Rightarrow> u64 \<Rightarrow> u32 res" where
  "fold_tile f tiling tmp = bind_res (folded_xor tmp 2) (tile_of f tiling)"

definition unsigned_delta :: "i32 \<Rightarrow> u32" where
  "unsigned_delta delta = (if sint delta < 0 then (- 1) * delta + push_bit (7 - 1) 1 else delta)"

definition process_PC :: "'f feature \<Rightarrow> u32 \<Rightarrow> u64 \<Rightarrow> u32 res" where
  "process_PC f tiling pc = fold_tile f tiling pc"

definition process_offset :: "'f feature \<Rightarrow> u32 \<Rightarrow> u32 \<Rightarrow> u32 res" where
  "process_offset f tiling off = tile_of f tiling off"

definition process_delta :: "'f feature \<Rightarrow> u32 \<Rightarrow> i32 \<Rightarrow> u32 res" where
  "process_delta f tiling delta = tile_of f tiling (unsigned_delta delta)"

definition process_address :: "'f feature \<Rightarrow> u32 \<Rightarrow> u64 \<Rightarrow> u32 res" where
  "process_address f tiling address = fold_tile f tiling address"

definition process_PC_offset :: "'f feature \<Rightarrow> u32 \<Rightarrow> u64 \<Rightarrow> u32 \<Rightarrow> u32 res" where
  "process_PC_offset f tiling pc off = fold_tile f tiling (push_bit 6 pc + ucast off)"

definition process_PC_address :: "'f feature \<Rightarrow> u32 \<Rightarrow> u64 \<Rightarrow> u64 \<Rightarrow> u32 res" where
  "process_PC_address f tiling pc address = fold_tile f tiling (push_bit 16 pc XOR address)"

definition process_PC_page :: "'f feature \<Rightarrow> u32 \<Rightarrow> u64 \<Rightarrow> u64 \<Rightarrow> u32 res" where
  "process_PC_page f tiling pc page = fold_tile f tiling (push_bit 16 pc XOR page)"

definition process_PC_path :: "'f feature \<Rightarrow> u32 \<Rightarrow> u32 \<Rightarrow> u32 res" where
  "process_PC_path f tiling pc_path = tile_of f tiling pc_path"

definition process_delta_path :: "'f feature \<Rightarrow> u32 \<Rightarrow> u32 \<Rightarrow> u32 res" where
  "process_delta_path f tiling delta_path = tile_of f tiling delta_path"

definition process_offset_path :: "'f feature \<Rightarrow> u32 \<Rightarrow> u32 \<Rightarrow> u32 res" where
  "process_offset_path f tiling offset_path = tile_of f tiling offset_path"

definition process_PC_delta :: "'f feature \<Rightarrow> u32 \<Rightarrow> u64 \<Rightarrow> i32 \<Rightarrow> u32 res" where
  "process_PC_delta f tiling pc delta = fold_tile f tiling (push_bit 7 pc + ucast (unsigned_delta delta))"

definition process_PC_offset_delta :: "'f feature \<Rightarrow> u32 \<Rightarrow> u64 \<Rightarrow> u32 \<Rightarrow> i32 \<Rightarrow> u32 res" where
  "process_PC_offset_delta f tiling pc off delta =
     fold_tile f tiling (push_bit 7 (push_bit 6 pc + ucast off) + ucast (unsigned_delta delta))"

definition process_Page :: "'f feature \<Rightarrow> u32 \<Rightarrow> u64 \<Rightarrow> u32 res" where
  "process_Page f tiling page = fold_tile f tiling page"

definition process_PC_Path_Offset :: "'f feature \<Rightarrow> u32 \<Rightarrow> u32 \<Rightarrow> u32 \<Rightarrow> u32 res" where
  "process_PC_Path_Offset f tiling pc_path off = fold_tile f tiling (push_bit 6 (ucast pc_path) + ucast off)"

definition process_PC_Path_Offset_Path :: "'f feature \<Rightarrow> u32 \<Rightarrow> u32 \<Rightarrow> u32 \<Rightarrow> u32 res" where
  "process_PC_Path_Offset_Path f tiling pc_path offset_path = fold_tile f tiling (push_bit 16 (ucast pc_path) + ucast offset_path)"

definition process_PC_Path_Delta :: "'f feature \<Rightarrow> u32 \<Rightarrow> u32 \<Rightarrow> i32 \<Rightarrow> u32 res" where
  "process_PC_Path_Delta f tiling pc_path delta = fold_tile f tiling (push_bit 7 (ucast pc_path) + ucast (unsigned_delta delta))"

definition process_PC_Path_Delta_Path :: "'f feature \<Rightarrow> u32 \<Rightarrow> u32 \<Rightarrow> u32 \<Rightarrow> u32 res" where
  "process_PC_Path_Delta_Path f tiling pc_path delta_path = fold_tile f tiling (push_bit 16 (ucast pc_path) + ucast delta_path)"

definition process_PC_Path_Offset_Path_Delta_Path :: "'f feature \<Rightarrow> u32 \<Rightarrow> u32 \<Rightarrow> u32 \<Rightarrow> u32 \<Rightarrow> u32 res" where
  "process_PC_Path_Offset_Path_Delta_Path f tiling pc_path offset_path delta_path =
     fold_tile f tiling (push_bit 10 (push_bit 10 (ucast pc_path) XOR ucast offset_path) XOR ucast delta_path)"

definition process_Offset_Path_PC :: "'f feature \<Rightarrow> u32 \<Rightarrow> u32 \<Rightarrow> u64 \<Rightarrow> u32 res" where
  "process_Offset_Path_PC f tiling offset_path pc = fold_tile f tiling (push_bit 32 (ucast offset_path) + pc)"

definition process_Delta_Path_PC :: "'f feature \<Rightarrow> u32 \<Rightarrow> u32 \<Rightarrow> u64 \<Rightarrow> u32 res" where
  "process_Delta_Path_PC f tiling delta_path pc = fold_tile f tiling (push_bit 32 (ucast delta_path) + pc)"

definition get_tile_index :: "'f feature \<Rightarrow> u32 \<Rightarrow> pythia_state \<Rightarrow> u32 res" where
  "get_tile_index f tiling s =
     (let pc = sc_pc s; page = sc_page s; address = sc_address s; off = sc_offset s; delta = sc_delta s;
          delta_path = sc_local_delta_sig2 s; pc_path = sc_local_pc_sig s; offset_path = sc_local_offset_sig s in
      case fk_type f of
        F_PC \<Rightarrow> process_PC f tiling pc
      | F_Offset \<Rightarrow> process_offset f tiling off
      | F_Delta \<Rightarrow> process_delta f tiling delta
      | F_Address \<Rightarrow> process_address f tiling address
      | F_PC_Offset \<Rightarrow> process_PC_offset f tiling pc off
      | F_PC_Address \<Rightarrow> process_PC_address f tiling pc address
      | F_PC_Page \<Rightarrow> process_PC_page f tiling pc page
      | F_PC_Path \<Rightarrow> process_PC_path f tiling pc_path
      | F_Delta_Path \<Rightarrow> process_delta_path f tiling delta_path
      | F_Offset_Path \<Rightarrow> process_offset_path f tiling offset_path
      | F_PC_Delta \<Rightarrow> process_PC_delta f tiling pc delta
      | F_PC_Offset_Delta \<Rightarrow> process_PC_offset_delta f tiling pc off delta
      | F_Page \<Rightarrow> process_Page f tiling page
      | F_PC_Path_Offset \<Rightarrow> process_PC_Path_Offset f tiling pc_path off
      | F_PC_Path_Offset_Path \<Rightarrow> process_PC_Path_Offset_Path f tiling pc_path offset_path
      | F_PC_Path_Delta \<Rightarrow> process_PC_Path_Delta f tiling pc_path delta
      | F_PC_Path_Delta_Path \<Rightarrow> process_PC_Path_Delta_Path f tiling pc_path delta_path
      | F_PC_Path_Offset_Path_Delta_Path \<Rightarrow> process_PC_Path_Offset_Path_Delta_Path f tiling pc_path offset_path delta_path
      | F_Offset_Path_PC \<Rightarrow> process_Offset_Path_PC f tiling offset_path pc
      | F_Delta_Path_PC \<Rightarrow> process_Delta_Path_PC f tiling delta_path pc)"

lemmas process_defs = process_PC_def process_offset_def process_delta_def process_address_def
  process_PC_offset_def process_PC_address_def process_PC_page_def process_PC_path_def process_delta_path_def
  process_offset_path_def process_PC_delta_def process_PC_offset_delta_def process_Page_def process_PC_Path_Offset_def
  process_PC_Path_Offset_Path_def process_PC_Path_Delta_def process_PC_Path_Delta_Path_def
  process_PC_Path_Offset_Path_Delta_Path_def process_Offset_Path_PC_def process_Delta_Path_PC_def

section \<open>Q-values\<close>

definition getQ :: "u32 \<Rightarrow> u32 \<Rightarrow> u32 \<Rightarrow> 'f feature \<Rightarrow> 'f res" where
  "getQ tiling tile_index action f =
     (if tiling < fk_num_tilings f \<and> tile_index < fk_num_tiles f \<and> action < fk_actions f
      then Inr (fk_qtable f ! unat tiling ! unat tile_index ! unat action) else Inl Assert_failed)"

definition setQ :: "u32 \<Rightarrow> u32 \<Rightarrow> u32 \<Rightarrow> 'f \<Rightarrow> 'f feature \<Rightarrow> 'f feature res" where
  "setQ tiling tile_index action value f =
     (if tiling < fk_num_tilings f \<and> tile_index < fk_num_tiles f \<and> action < fk_actions f
      then
        let t = fk_qtable f ! unat tiling; row = t ! unat tile_index
        in Inr (f\<lparr>fk_qtable := (fk_qtable f)[unat tiling := t[unat tile_index := row[unat action := value]]]\<rparr>)
      else Inl Assert_failed)"

primrec sum_tiles :: "'f float_ops \<Rightarrow> pythia_state \<Rightarrow> u32 \<Rightarrow> 'f feature \<Rightarrow> nat list \<Rightarrow> 'f \<Rightarrow> 'f res" where
  "sum_tiles F s action f [] q = Inr q"
| "sum_tiles F s action f (i # is) q =
     bind_res (get_tile_index f (of_nat i) s) (\<lambda>tile_index.
     bind_res (getQ (of_nat i) tile_index action f) (\<lambda>v. sum_tiles F s action f is (f_add F q v)))"

definition retrieveQ :: "'f float_ops \<Rightarrow> pythia_state \<Rightarrow> u32 \<Rightarrow> 'f feature \<Rightarrow> 'f res" where
  "retrieveQ F s action f =
     bind_res (sum_tiles F s action f [0..<unat (fk_num_tilings f)] (f_of_int F 0)) (\<lambda>q. Inr (f_mul F (fk_weight f) q))"

definition learn_tile ::
  "'f float_ops \<Rightarrow> pythia_state \<Rightarrow> u32 \<Rightarrow> i32 \<Rightarrow> pythia_state \<Rightarrow> u32 \<Rightarrow> u32 \<Rightarrow> 'f feature \<Rightarrow> 'f feature res" where
  "learn_tile F state1 action1 reward state2 action2 tiling f =
     bind_res (get_tile_index f tiling state1) (\<lambda>tile_index1.
     bind_res (get_tile_index f tiling state2) (\<lambda>tile_index2.
     bind_res (getQ tiling tile_index1 action1 f) (\<lambda>Qsa1.
     bind_res (getQ tiling tile_index2 action2 f) (\<lambda>Qsa2.
       setQ tiling tile_index1 action1 (sarsa F (fk_alpha f) (fk_gamma f) reward Qsa1 Qsa2) f))))"

primrec learn_tiles ::
  "'f float_ops \<Rightarrow> pythia_state \<Rightarrow> u32 \<Rightarrow> i32 \<Rightarrow> pythia_state \<Rightarrow> u32 \<Rightarrow> nat list \<Rightarrow> 'f feature \<Rightarrow> 'f feature res" where
  "learn_tiles F state1 action1 reward state2 action2 [] f = Inr f"
| "learn_tiles F state1 action1 reward state2 action2 (i # is) f =
     bind_res (learn_tile F state1 action1 reward state2 action2 (of_nat i) f)
       (learn_tiles F state1 action1 reward state2 action2 is)"

text \<open>Decimal and hexadecimal output of a stream.\<close>

definition digit :: "nat \<Rightarrow> char" where
  "digit d = ''0123456789abcdef'' ! d"

function digits :: "nat \<Rightarrow> nat \<Rightarrow> string" where
  "digits base n = (if n < base \<or> base < 2 then [digit (n mod 16)] else digits base (n div base) @ [digit (n mod base)])"
  by pat_completeness auto
termination by (relation "measure snd") auto

declare digits.simps [simp del]

definition decimal :: "i32 \<Rightarrow> string" where
  "decimal d = (if sint d < 0 then ''-'' @ digits 10 (nat (- sint d)) else digits 10 (nat (sint d)))"

definition get_feature_string :: "'f feature \<Rightarrow> pythia_state \<Rightarrow> string res" where
  "get_feature_string f s =
     (case fk_type f of
        F_PC \<Rightarrow> Inr (digits 16 (unat (sc_pc s)))
      | F_PC_Delta \<Rightarrow> Inr (digits 16 (unat (sc_pc s)) @ ''|'' @ decimal (sc_delta s))
      | _ \<Rightarrow> Inl Assert_failed)"

text \<open>The tracing condition with its increment; the trace itself is written to a file.\<close>

definition fk_trace :: "feature_knobs \<Rightarrow> pythia_state \<Rightarrow> 'f feature \<Rightarrow> 'f feature res" where
  "fk_trace K s f =
     (if fk_enable_trace K \<and> fk_trace_feature_type K = fk_type f then
        bind_res (get_feature_string f s) (\<lambda>str.
          if fk_trace_feature K = str then
            let hit = (fk_trace_interval f = fk_trace_interval_limit K);
                f = f\<lparr>fk_trace_interval := fk_trace_interval f + 1\<rparr>
            in if hit \<and> fk_trace_record_count f < fk_trace_record_limit K
               then Inr (f\<lparr>fk_trace_timestamp := fk_trace_timestamp f + 1, fk_trace_interval := 0,
                           fk_trace_record_count := fk_trace_record_count f + 1\<rparr>)
               else Inr f
          else Inr f)
      else Inr f)"

text \<open>The overall Q-values before and after are only logged, but looking them up can fail.\<close>

definition fk_updateQ ::
  "'f float_ops \<Rightarrow> feature_knobs \<Rightarrow> pythia_state \<Rightarrow> u32 \<Rightarrow> i32 \<Rightarrow> pythia_state \<Rightarrow> u32 \<Rightarrow> 'f feature \<Rightarrow> 'f feature res" where
  "fk_updateQ F K state1 action1 reward state2 action2 f =
     bind_res (retrieveQ F state1 action1 f) (\<lambda>_.
     bind_res (retrieveQ F state2 action2 f) (\<lambda>_.
     bind_res (learn_tiles F state1 action1 reward state2 action2 [0..<unat (fk_num_tilings f)] f) (\<lambda>f.
     bind_res (retrieveQ F state1 action1 f) (\<lambda>_. fk_trace K state1 f))))"

text \<open>The scan of an action with the greatest value, where looking a value up can fail.\<close>

primrec max_scan_res :: "('f \<Rightarrow> 'f \<Rightarrow> bool) \<Rightarrow> (u32 \<Rightarrow> 'f res) \<Rightarrow> nat list \<Rightarrow> 'f \<times> u32 \<Rightarrow> ('f \<times> u32) res" where
  "max_scan_res lt q [] m = Inr m"
| "max_scan_res lt q (i # is) m =
     bind_res (q (of_nat i)) (\<lambda>v. max_scan_res lt q is (if lt (fst m) v then (v, of_nat i) else m))"

definition fk_getMaxAction :: "'f float_ops \<Rightarrow> feature_knobs \<Rightarrow> pythia_state \<Rightarrow> 'f feature \<Rightarrow> u32 res" where
  "fk_getMaxAction F K s f =
     bind_res (if fk_enable_action_fallback K then Inr (f_of_int F 0, 0)
               else bind_res (retrieveQ F s 0 f) (\<lambda>v. Inr (v, 1))) (\<lambda>(v, init_index).
     bind_res (max_scan_res (f_less F) (\<lambda>a. retrieveQ F s a f) [init_index..<unat (fk_actions f)] (v, 0)) (\<lambda>m.
       Inr (snd m)))"

section \<open>Weights\<close>

definition increase_weight :: "'f float_ops \<Rightarrow> 'f feature \<Rightarrow> 'f feature" where
  "increase_weight F f =
     (let f = f\<lparr>fk_weight := f_add F (fk_weight f) (f_mul F (fk_weight_gradient f) (fk_weight f))\<rparr>
      in if f_less F (fk_weight f) (fk_min_weight f) then f\<lparr>fk_min_weight := fk_weight f\<rparr> else f)"

definition decrease_weight :: "'f float_ops \<Rightarrow> 'f feature \<Rightarrow> 'f feature" where
  "decrease_weight F f =
     (let f = f\<lparr>fk_weight := f_sub F (fk_weight f) (f_mul F (fk_weight_gradient f) (fk_weight f))\<rparr>
      in if f_less F (fk_max_weight f) (fk_weight f) then f\<lparr>fk_max_weight := fk_weight f\<rparr> else f)"

section \<open>Well-formed features\<close>

definition good_hash :: "u32 \<Rightarrow> bool" where
  "good_hash t \<longleftrightarrow> (\<forall>key. \<exists>h. getHash t key = Inr h)"

definition shape_ok :: "'f feature \<Rightarrow> 'f list list list \<Rightarrow> bool" where
  "shape_ok f t \<longleftrightarrow> length t = unat (fk_num_tilings f) \<and>
     (\<forall>x\<in>set t. length x = unat (fk_num_tiles f) \<and> (\<forall>r\<in>set x. length r = unat (fk_actions f)))"

definition feature_ok :: "'f feature \<Rightarrow> bool" where
  "feature_ok f \<longleftrightarrow> 0 < fk_num_tiles f \<and> unat (fk_num_tilings f) \<le> FK_MAX_TILINGS \<and> good_hash (fk_hash_type f) \<and>
     0 < fk_actions f \<and> shape_ok f (fk_qtable f)"

lemma fold_tile_ok: "\<exists>r. folded_xor v 2 = Inr r"
  by (simp add: folded_xor_def)

lemma tile_of_ok:
  assumes "feature_ok f" "tiling < fk_num_tilings f"
  shows "\<exists>i. tile_of f tiling raw = Inr i \<and> i < fk_num_tiles f"
proof -
  have "unat tiling < 32" using assms by (simp add: feature_ok_def FK_MAX_TILINGS_def word_less_nat_alt)
  then have len: "unat tiling < length tiling_offset" by (simp add: tiling_offset_def)
  obtain h where "getHash (fk_hash_type f) (if fk_enable_tiling_offset f then raw XOR tiling_offset ! unat tiling else raw) = Inr h"
    using assms(1) by (auto simp: feature_ok_def good_hash_def)
  then show ?thesis using assms(1) len by (auto simp: tile_of_def feature_ok_def word_mod_less_divisor)
qed

lemma tile_index_ok:
  assumes "feature_ok f" "tiling < fk_num_tilings f"
  shows "\<exists>i. get_tile_index f tiling s = Inr i \<and> i < fk_num_tiles f"
proof -
  have fold: "\<exists>i. fold_tile f tiling v = Inr i \<and> i < fk_num_tiles f" for v
    using fold_tile_ok [of v] tile_of_ok [OF assms] by (auto simp: fold_tile_def)
  show ?thesis
    using fold tile_of_ok [OF assms]
    by (cases "fk_type f")
      (simp_all add: get_tile_index_def process_defs Let_def)
qed

text \<open>Values, weights and traces do not influence the tiles.\<close>

lemma tile_of_frame:
  assumes "fk_enable_tiling_offset g = fk_enable_tiling_offset f" "fk_hash_type g = fk_hash_type f" "fk_num_tiles g = fk_num_tiles f"
  shows "tile_of g = tile_of f"
  using assms by (intro ext) (simp add: tile_of_def cong: if_cong)

lemma tile_index_frame:
  assumes "fk_enable_tiling_offset g = fk_enable_tiling_offset f" "fk_hash_type g = fk_hash_type f" "fk_num_tiles g = fk_num_tiles f"
    "fk_type g = fk_type f"
  shows "get_tile_index g = get_tile_index f"
proof -
  have tile: "tile_of g = tile_of f" by (rule tile_of_frame [OF assms(1-3)])
  have fold: "fold_tile g = fold_tile f" by (intro ext) (simp add: fold_tile_def tile)
  show ?thesis
    by (intro ext, cases "fk_type f") (simp_all add: get_tile_index_def process_defs Let_def tile fold assms(4))
qed

lemma tile_index_table [simp]: "get_tile_index (f\<lparr>fk_qtable := t\<rparr>) = get_tile_index f"
  by (rule tile_index_frame) simp_all

text \<open>The tile of a state in a tiling, and the value there.\<close>

definition tile :: "'f feature \<Rightarrow> nat \<Rightarrow> pythia_state \<Rightarrow> nat" where
  "tile f i s = unat (projr (get_tile_index f (of_nat i) s))"

definition cell :: "'f feature \<Rightarrow> nat \<Rightarrow> pythia_state \<Rightarrow> u32 \<Rightarrow> 'f" where
  "cell f i s a = fk_qtable f ! i ! tile f i s ! unat a"

lemma tiling_index:
  assumes "feature_ok f" "i < unat (fk_num_tilings f)"
  shows "unat (of_nat i :: u32) = i" "of_nat i < fk_num_tilings f"
proof -
  have "i < 32" using assms by (simp add: feature_ok_def FK_MAX_TILINGS_def)
  then show "unat (of_nat i :: u32) = i" by (simp add: unat_of_nat take_bit_nat_eq_self)
  then show "of_nat i < fk_num_tilings f" using assms(2) by (simp add: word_less_nat_alt)
qed

lemma tile_ok:
  assumes "feature_ok f" "i < unat (fk_num_tilings f)"
  shows "\<exists>k. get_tile_index f (of_nat i) s = Inr k \<and> k < fk_num_tiles f \<and> unat k = tile f i s \<and> tile f i s < unat (fk_num_tiles f)"
proof -
  obtain k where "get_tile_index f (of_nat i) s = Inr k" "k < fk_num_tiles f"
    using tile_index_ok [OF assms(1) tiling_index(2) [OF assms], of s] by blast
  then show ?thesis by (auto simp: tile_def word_less_nat_alt)
qed

lemma getQ_cell:
  assumes "feature_ok f" "i < unat (fk_num_tilings f)" "a < fk_actions f" "get_tile_index f (of_nat i) s = Inr k"
  shows "getQ (of_nat i) k a f = Inr (cell f i s a)"
proof -
  obtain k' where k': "get_tile_index f (of_nat i) s = Inr k'" "k' < fk_num_tiles f" "unat k' = tile f i s"
    using tile_ok [OF assms(1,2), of s] by blast
  then show ?thesis using assms(3,4) tiling_index [OF assms(1,2)] by (simp add: getQ_def cell_def)
qed

lemma sum_tiles_ok:
  assumes "feature_ok f" "a < fk_actions f" "\<forall>i\<in>set is. i < unat (fk_num_tilings f)"
  shows "sum_tiles F s a f is q = Inr (foldl (f_add F) q (map (\<lambda>i. cell f i s a) is))"
  using assms(3)
proof (induction "is" arbitrary: q)
  case Nil
  then show ?case by simp
next
  case (Cons i "is")
  obtain k where k: "get_tile_index f (of_nat i) s = Inr k" using tile_ok [OF assms(1), of i s] Cons.prems by auto
  then show ?case using Cons getQ_cell [OF assms(1) _ assms(2) k] by simp
qed

definition q_value :: "'f float_ops \<Rightarrow> 'f feature \<Rightarrow> pythia_state \<Rightarrow> u32 \<Rightarrow> 'f" where
  "q_value F f s a = f_mul F (fk_weight f)
     (foldl (f_add F) (f_of_int F 0) (map (\<lambda>i. cell f i s a) [0..<unat (fk_num_tilings f)]))"

lemma retrieveQ_ok: "feature_ok f \<Longrightarrow> a < fk_actions f \<Longrightarrow> retrieveQ F s a f = Inr (q_value F f s a)"
  by (simp add: retrieveQ_def sum_tiles_ok q_value_def)

section \<open>Learning\<close>

definition learned :: "'f float_ops \<Rightarrow> 'f feature \<Rightarrow> pythia_state \<Rightarrow> u32 \<Rightarrow> i32 \<Rightarrow> pythia_state \<Rightarrow> u32 \<Rightarrow> nat \<Rightarrow> 'f list list" where
  "learned F f s1 a1 r s2 a2 i = (fk_qtable f ! i)[tile f i s1 := (fk_qtable f ! i ! tile f i s1)[unat a1 :=
     sarsa F (fk_alpha f) (fk_gamma f) r (cell f i s1 a1) (cell f i s2 a2)]]"

lemma feature_ok_table: "feature_ok f \<Longrightarrow> shape_ok f t \<Longrightarrow> feature_ok (f\<lparr>fk_qtable := t\<rparr>)"
  by (simp add: feature_ok_def shape_ok_def)

lemma learn_tile_ok:
  assumes "feature_ok f" "a1 < fk_actions f" "a2 < fk_actions f" "i < unat (fk_num_tilings f)"
  shows "learn_tile F s1 a1 r s2 a2 (of_nat i) f = Inr (f\<lparr>fk_qtable := (fk_qtable f)[i := learned F f s1 a1 r s2 a2 i]\<rparr>)"
    "feature_ok (f\<lparr>fk_qtable := (fk_qtable f)[i := learned F f s1 a1 r s2 a2 i]\<rparr>)"
proof -
  obtain k1 where k1: "get_tile_index f (of_nat i) s1 = Inr k1" "k1 < fk_num_tiles f" "unat k1 = tile f i s1" "tile f i s1 < unat (fk_num_tiles f)"
    using tile_ok [OF assms(1,4), of s1] by blast
  obtain k2 where k2: "get_tile_index f (of_nat i) s2 = Inr k2" using tile_ok [OF assms(1,4), of s2] by blast
  note idx = tiling_index [OF assms(1,4)]
  show "learn_tile F s1 a1 r s2 a2 (of_nat i) f = Inr (f\<lparr>fk_qtable := (fk_qtable f)[i := learned F f s1 a1 r s2 a2 i]\<rparr>)"
    using k1 k2 getQ_cell [OF assms(1,4,2) k1(1)] getQ_cell [OF assms(1,4,3) k2] idx assms(2)
    by (simp add: learn_tile_def setQ_def Let_def learned_def)
  have sh: "length (fk_qtable f) = unat (fk_num_tilings f)"
    "\<And>x. x \<in> set (fk_qtable f) \<Longrightarrow> length x = unat (fk_num_tiles f) \<and> (\<forall>r\<in>set x. length r = unat (fk_actions f))"
    using assms(1) by (simp_all add: feature_ok_def shape_ok_def)
  have x: "fk_qtable f ! i \<in> set (fk_qtable f)" using sh(1) assms(4) by simp
  have y: "fk_qtable f ! i ! tile f i s1 \<in> set (fk_qtable f ! i)" using sh(2) [OF x] k1(4) by simp
  have "length z = unat (fk_num_tiles f) \<and> (\<forall>r\<in>set z. length r = unat (fk_actions f))"
    if "z \<in> set ((fk_qtable f)[i := learned F f s1 a1 r s2 a2 i])" for z
  proof (cases "z = learned F f s1 a1 r s2 a2 i")
    case True
    have "length (fk_qtable f ! i ! tile f i s1) = unat (fk_actions f)" using sh(2) [OF x] y by blast
    then show ?thesis using sh(2) [OF x] unfolding True learned_def
      by (auto dest!: set_update_subset_insert [THEN subsetD])
  next
    case False
    then have "z \<in> set (fk_qtable f)" using that set_update_subset_insert [of "fk_qtable f" i] by blast
    then show ?thesis by (rule sh(2))
  qed
  then show "feature_ok (f\<lparr>fk_qtable := (fk_qtable f)[i := learned F f s1 a1 r s2 a2 i]\<rparr>)"
    using sh(1) by (intro feature_ok_table [OF assms(1)]) (simp add: shape_ok_def)
qed

lemma tile_table [simp]: "tile (f\<lparr>fk_qtable := t\<rparr>) = tile f"
  by (intro ext) (simp add: tile_def)

lemma cell_other: "j \<noteq> i \<Longrightarrow> cell (f\<lparr>fk_qtable := (fk_qtable f)[i := x]\<rparr>) j = cell f j"
  by (intro ext) (simp add: cell_def)

lemma learned_other: "j \<noteq> i \<Longrightarrow>
    learned F (f\<lparr>fk_qtable := (fk_qtable f)[i := x]\<rparr>) s1 a1 r s2 a2 j = learned F f s1 a1 r s2 a2 j"
  by (simp add: learned_def cell_other)

lemma learn_tiles_ok:
  assumes "feature_ok f" "a1 < fk_actions f" "a2 < fk_actions f" "distinct is" "\<forall>i\<in>set is. i < unat (fk_num_tilings f)"
  shows "\<exists>t. learn_tiles F s1 a1 r s2 a2 is f = Inr (f\<lparr>fk_qtable := t\<rparr>) \<and> feature_ok (f\<lparr>fk_qtable := t\<rparr>) \<and>
    (\<forall>i. t ! i = (if i \<in> set is then learned F f s1 a1 r s2 a2 i else fk_qtable f ! i))"
  using assms
proof (induction "is" arbitrary: f)
  case Nil
  then show ?case by (intro exI [of _ "fk_qtable f"]) simp
next
  case (Cons i "is")
  let ?f = "f\<lparr>fk_qtable := (fk_qtable f)[i := learned F f s1 a1 r s2 a2 i]\<rparr>"
  have i: "i < unat (fk_num_tilings f)" using Cons.prems(5) by simp
  note step = learn_tile_ok [OF Cons.prems(1-3) i, of F s1 r s2]
  have "\<exists>t. learn_tiles F s1 a1 r s2 a2 is ?f = Inr (?f\<lparr>fk_qtable := t\<rparr>) \<and> feature_ok (?f\<lparr>fk_qtable := t\<rparr>) \<and>
    (\<forall>j. t ! j = (if j \<in> set is then learned F ?f s1 a1 r s2 a2 j else fk_qtable ?f ! j))"
    using step(2) Cons.prems by (intro Cons.IH) simp_all
  then obtain t where t: "learn_tiles F s1 a1 r s2 a2 is ?f = Inr (f\<lparr>fk_qtable := t\<rparr>)" "feature_ok (f\<lparr>fk_qtable := t\<rparr>)"
    "\<And>j. t ! j = (if j \<in> set is then learned F ?f s1 a1 r s2 a2 j else fk_qtable ?f ! j)" by auto
  have len: "i < length (fk_qtable f)" using Cons.prems(1) i by (simp add: feature_ok_def shape_ok_def)
  have "t ! j = (if j \<in> set (i # is) then learned F f s1 a1 r s2 a2 j else fk_qtable f ! j)" for j
    using t(3) [of j] Cons.prems(4) len by (cases "j = i") (auto simp: learned_other)
  then show ?case using t(1,2) step(1) by (intro exI [of _ t]) simp
qed

text \<open>The trace only touches its own counters, and fails only for a traced feature without a name.\<close>

definition traceable :: "feature_knobs \<Rightarrow> 'f feature \<Rightarrow> bool" where
  "traceable K f \<longleftrightarrow> fk_enable_trace K \<longrightarrow> fk_trace_feature_type K = fk_type f \<longrightarrow> fk_type f \<in> {F_PC, F_PC_Delta}"

lemma fk_trace_ok:
  assumes "traceable K f"
  shows "\<exists>x y z. fk_trace K s f = Inr (f\<lparr>fk_trace_interval := x, fk_trace_timestamp := y, fk_trace_record_count := z\<rparr>)"
proof -
  have same: "f\<lparr>fk_trace_interval := fk_trace_interval f, fk_trace_timestamp := fk_trace_timestamp f,
      fk_trace_record_count := fk_trace_record_count f\<rparr> = f"
    and same2: "f\<lparr>fk_trace_interval := n, fk_trace_timestamp := fk_trace_timestamp f,
      fk_trace_record_count := fk_trace_record_count f\<rparr> = f\<lparr>fk_trace_interval := n\<rparr>" for n
    by (cases f, simp)+
  show ?thesis
  proof (cases "fk_enable_trace K \<and> fk_trace_feature_type K = fk_type f")
    case False
    then have "fk_trace K s f = Inr f" by (simp only: fk_trace_def if_False)
    then show ?thesis by (intro exI [of _ "fk_trace_interval f"] exI [of _ "fk_trace_timestamp f"] exI [of _ "fk_trace_record_count f"]) (simp only: same)
  next
    case True
    then have "fk_type f = F_PC \<or> fk_type f = F_PC_Delta" using assms by (auto simp: traceable_def)
    then obtain str where str: "get_feature_string f s = Inr str" by (auto simp: get_feature_string_def)
    let ?n = "fk_trace_interval f + 1"
    let ?r = "f\<lparr>fk_trace_interval := 0, fk_trace_timestamp := fk_trace_timestamp f + 1, fk_trace_record_count := fk_trace_record_count f + 1\<rparr>"
    have e: "fk_trace K s f = (if fk_trace_feature K = str
        then if fk_trace_interval f = fk_trace_interval_limit K \<and> fk_trace_record_count f < fk_trace_record_limit K
             then Inr ?r else Inr (f\<lparr>fk_trace_interval := ?n\<rparr>)
        else Inr f)"
      using True str by (simp add: fk_trace_def Let_def)
    consider (other) "fk_trace_feature K \<noteq> str"
      | (hit) "fk_trace_feature K = str" "fk_trace_interval f = fk_trace_interval_limit K \<and> fk_trace_record_count f < fk_trace_record_limit K"
      | (miss) "fk_trace_feature K = str" "\<not> (fk_trace_interval f = fk_trace_interval_limit K \<and> fk_trace_record_count f < fk_trace_record_limit K)"
      by blast
    then have "fk_trace K s f = Inr f \<or> fk_trace K s f = Inr (f\<lparr>fk_trace_interval := ?n\<rparr>) \<or> fk_trace K s f = Inr ?r"
      unfolding e by cases (simp_all only: if_True if_False simp_thms)
    then consider "fk_trace K s f = Inr f" | "fk_trace K s f = Inr (f\<lparr>fk_trace_interval := ?n\<rparr>)" | "fk_trace K s f = Inr ?r" by blast
    then show ?thesis
    proof cases
      case 1
      then show ?thesis by (intro exI [of _ "fk_trace_interval f"] exI [of _ "fk_trace_timestamp f"] exI [of _ "fk_trace_record_count f"]) (simp only: same)
    next
      case 2
      then show ?thesis by (intro exI [of _ ?n] exI [of _ "fk_trace_timestamp f"] exI [of _ "fk_trace_record_count f"]) (simp only: same2)
    next
      case 3
      then show ?thesis by (intro exI)
    qed
  qed
qed

lemma fk_updateQ_ok:
  assumes "feature_ok f" "a1 < fk_actions f" "a2 < fk_actions f" "traceable K f"
  shows "\<exists>t x y z. fk_updateQ F K s1 a1 r s2 a2 f =
      Inr (f\<lparr>fk_qtable := t, fk_trace_interval := x, fk_trace_timestamp := y, fk_trace_record_count := z\<rparr>) \<and>
    shape_ok f t \<and> (\<forall>i<unat (fk_num_tilings f). t ! i = learned F f s1 a1 r s2 a2 i)"
proof -
  obtain t where t: "learn_tiles F s1 a1 r s2 a2 [0..<unat (fk_num_tilings f)] f = Inr (f\<lparr>fk_qtable := t\<rparr>)"
    "feature_ok (f\<lparr>fk_qtable := t\<rparr>)" "\<forall>i<unat (fk_num_tilings f). t ! i = learned F f s1 a1 r s2 a2 i"
    using learn_tiles_ok [OF assms(1-3), of "[0..<unat (fk_num_tilings f)]" F s1 r s2] by auto
  have "traceable K (f\<lparr>fk_qtable := t\<rparr>)" using assms(4) by (simp add: traceable_def)
  then obtain x y z where "fk_trace K s1 (f\<lparr>fk_qtable := t\<rparr>) =
      Inr (f\<lparr>fk_qtable := t, fk_trace_interval := x, fk_trace_timestamp := y, fk_trace_record_count := z\<rparr>)"
    using fk_trace_ok [of K "f\<lparr>fk_qtable := t\<rparr>" s1] by blast
  moreover have "retrieveQ F s1 a1 (f\<lparr>fk_qtable := t\<rparr>) = Inr (q_value F (f\<lparr>fk_qtable := t\<rparr>) s1 a1)"
    using retrieveQ_ok [OF t(2)] assms(2) by simp
  moreover have "shape_ok f t" using t(2) by (simp add: feature_ok_def shape_ok_def)
  ultimately show ?thesis
    using retrieveQ_ok [OF assms(1,2), of F s1] retrieveQ_ok [OF assms(1,3), of F s2] t(1,3)
    by (simp add: fk_updateQ_def) blast
qed

lemma max_scan_res_ok:
  assumes "\<forall>i\<in>set is. q (of_nat i) = Inr (v i)" "\<forall>i\<in>set is. i < n" "n < 2 ^ 32" "k < n"
  shows "\<exists>m. max_scan_res lt q is (w, of_nat k) = Inr (fst m, of_nat (snd m)) \<and> snd m < n \<and> m = max_scan lt v is (w, k)"
  using assms(1,2,4)
proof (induction "is" arbitrary: w k)
  case Nil
  then show ?case by simp
next
  case (Cons i "is")
  then show ?case using Cons.IH [of i "v i"] Cons.IH [of k w] by auto
qed

lemma fk_getMaxAction_ok:
  assumes "feature_ok f"
  shows "\<exists>a. fk_getMaxAction F K s f = Inr a \<and> a < fk_actions f"
proof -
  let ?n = "unat (fk_actions f)" and ?v = "\<lambda>i. q_value F f s (of_nat i)"
  have n: "0 < ?n" "?n < 2 ^ 32" using assms u32_bound [of "fk_actions f"] by (simp_all add: feature_ok_def unat_pos)
  have u: "unat (of_nat i :: u32) = i" if "i < ?n" for i
  proof -
    have "i < 2 ^ 32" using that n(2) by (rule order_less_trans)
    then show ?thesis by (simp add: unat_of_nat take_bit_nat_eq_self)
  qed
  have q: "retrieveQ F s (of_nat i) f = Inr (?v i)" if "i < ?n" for i
    using that u [OF that] by (intro retrieveQ_ok [OF assms]) (simp add: word_less_nat_alt)
  have less: "of_nat i < fk_actions f" if "i < ?n" for i using that u [OF that] by (simp add: word_less_nat_alt)
  have scan: "\<exists>m. max_scan_res (f_less F) (\<lambda>a. retrieveQ F s a f) [k..<?n] (w, 0) = Inr (fst m, of_nat (snd m)) \<and> snd m < ?n" for k and w
    using max_scan_res_ok [of "[k..<?n]" "\<lambda>a. retrieveQ F s a f" ?v ?n 0 "f_less F" w] q n by auto
  show ?thesis
  proof (cases "fk_enable_action_fallback K")
    case True
    then show ?thesis using scan [of 0 "f_of_int F 0"] less by (auto simp: fk_getMaxAction_def)
  next
    case False
    then show ?thesis using scan [of 1 "?v 0"] q [OF n(1)] less by (auto simp: fk_getMaxAction_def)
  qed
qed

section \<open>Properties\<close>

text \<open>
  C34: Learning in a feature is local. Updating the pair of a state and an action succeeds, and moves in every tiling the
  cell of the tile of the state and of the action to the SARSA target of that tiling; no other cell of the tables changes.
  So the update is seen exactly through the shared tiles: a pair with another action, or of a state that shares no tile
  with the updated one, keeps its Q-value.
\<close>

theorem feature_learning_is_local:
  assumes "feature_ok f" "a1 < fk_actions f" "a2 < fk_actions f" "traceable K f"
  shows "\<exists>f'. fk_updateQ F K s1 a1 r s2 a2 f = Inr f' \<and> feature_ok f' \<and>
    (\<forall>i<unat (fk_num_tilings f). fk_qtable f' ! i = (fk_qtable f ! i)[tile f i s1 := (fk_qtable f ! i ! tile f i s1)[unat a1 :=
       sarsa F (fk_alpha f) (fk_gamma f) r (cell f i s1 a1) (cell f i s2 a2)]]) \<and>
    (\<forall>i<unat (fk_num_tilings f). \<forall>s a. a < fk_actions f \<longrightarrow> cell f' i s a =
       (if tile f i s = tile f i s1 \<and> a = a1 then sarsa F (fk_alpha f) (fk_gamma f) r (cell f i s1 a1) (cell f i s2 a2) else cell f i s a)) \<and>
    (\<forall>s a. a < fk_actions f \<longrightarrow> a \<noteq> a1 \<or> (\<forall>i<unat (fk_num_tilings f). tile f i s \<noteq> tile f i s1) \<longrightarrow>
       retrieveQ F s a f' = retrieveQ F s a f)"
proof -
  obtain t x y z where t: "fk_updateQ F K s1 a1 r s2 a2 f =
      Inr (f\<lparr>fk_qtable := t, fk_trace_interval := x, fk_trace_timestamp := y, fk_trace_record_count := z\<rparr>)" "shape_ok f t"
    "\<forall>i<unat (fk_num_tilings f). t ! i = learned F f s1 a1 r s2 a2 i"
    using fk_updateQ_ok [OF assms, of F s1 r s2] by blast
  let ?f = "f\<lparr>fk_qtable := t, fk_trace_interval := x, fk_trace_timestamp := y, fk_trace_record_count := z\<rparr>"
  have ok: "feature_ok ?f" using feature_ok_table [OF assms(1) t(2)] by (simp add: feature_ok_def shape_ok_def)
  have "get_tile_index ?f = get_tile_index f" by (rule tile_index_frame) simp_all
  then have tile: "tile ?f = tile f" by (intro ext) (simp add: tile_def)
  have row: "tile f i s < length (fk_qtable f ! i)" "length (fk_qtable f ! i ! tile f i s) = unat (fk_actions f)"
    if "i < unat (fk_num_tilings f)" for i s
  proof -
    have sh: "\<And>u. u \<in> set (fk_qtable f) \<Longrightarrow> length u = unat (fk_num_tiles f) \<and> (\<forall>r\<in>set u. length r = unat (fk_actions f))"
      "fk_qtable f ! i \<in> set (fk_qtable f)" using assms(1) that by (simp_all add: feature_ok_def shape_ok_def)
    then show "tile f i s < length (fk_qtable f ! i)" using tile_ok [OF assms(1) that, of s] by auto
    then have "fk_qtable f ! i ! tile f i s \<in> set (fk_qtable f ! i)" by (rule nth_mem)
    then show "length (fk_qtable f ! i ! tile f i s) = unat (fk_actions f)" using sh by blast
  qed
  have a1: "unat a1 < unat (fk_actions f)" using assms(2) by (simp add: word_less_nat_alt)
  have new: "cell ?f i s a = (if tile f i s = tile f i s1 \<and> a = a1
      then sarsa F (fk_alpha f) (fk_gamma f) r (cell f i s1 a1) (cell f i s2 a2) else cell f i s a)"
    if "i < unat (fk_num_tilings f)" for i s a
  proof -
    have "cell ?f i s a = learned F f s1 a1 r s2 a2 i ! tile f i s ! unat a" using that t(3) by (simp add: cell_def tile)
    also have "\<dots> = (if tile f i s = tile f i s1 \<and> unat a = unat a1
        then sarsa F (fk_alpha f) (fk_gamma f) r (cell f i s1 a1) (cell f i s2 a2) else cell f i s a)"
      using row [OF that] a1 by (auto simp: learned_def cell_def nth_list_update)
    finally show ?thesis by (simp add: word_eq_iff_unsigned [where ?'a = nat])
  qed
  have "retrieveQ F s a ?f = retrieveQ F s a f"
    if "a < fk_actions f" "a \<noteq> a1 \<or> (\<forall>i<unat (fk_num_tilings f). tile f i s \<noteq> tile f i s1)" for s a
  proof -
    have "map (\<lambda>i. cell ?f i s a) [0..<unat (fk_num_tilings f)] = map (\<lambda>i. cell f i s a) [0..<unat (fk_num_tilings f)]"
      using that(2) new by auto
    then have "q_value F ?f s a = q_value F f s a" by (simp add: q_value_def del: map_eq_conv)
    then show ?thesis using retrieveQ_ok [OF ok] retrieveQ_ok [OF assms(1) that(1)] that(1) by simp
  qed
  then show ?thesis using t(1,3) ok new by (intro exI [of _ ?f]) (simp add: learned_def)
qed

definition sample_feature :: "int feature" where
  "sample_feature = \<lparr>fk_type = F_Offset, fk_alpha = 1, fk_gamma = 2, fk_actions = 2, fk_init_value = 0, fk_weight = 1,
     fk_weight_gradient = 0, fk_hash_type = 1, fk_num_tilings = 1, fk_num_tiles = 2, fk_qtable = [[[1, 2], [3, 4]]],
     fk_enable_tiling_offset = False, fk_min_weight = 0, fk_max_weight = 0, fk_trace_interval = 0, fk_trace_timestamp = 0,
     fk_trace_record_count = 0\<rparr>"

definition quiet_knobs :: feature_knobs where
  "quiet_knobs = \<lparr>fk_enable_action_fallback = True, fk_enable_trace = False, fk_trace_feature_type = F_PC, fk_trace_feature = [],
     fk_trace_interval_limit = 0, fk_trace_record_limit = 0\<rparr>"

lemma sample_feature: "feature_ok sample_feature" "traceable quiet_knobs sample_feature"
  by (auto simp: sample_feature_def feature_ok_def shape_ok_def good_hash_def getHash_def FK_MAX_TILINGS_def traceable_def quiet_knobs_def)

theorem feature_learning_is_local_witness:
  "\<exists>f'. fk_updateQ int_floats quiet_knobs (State_reset\<lparr>sc_offset := 4\<rparr>) 1 5 (State_reset\<lparr>sc_offset := 7\<rparr>) 0 sample_feature = Inr f' \<and>
    cell f' 0 (State_reset\<lparr>sc_offset := 4\<rparr>) 1 = 11 \<and>
    retrieveQ int_floats (State_reset\<lparr>sc_offset := 4\<rparr>) 0 f' = Inr 1"
proof -
  let ?s1 = "State_reset\<lparr>sc_offset := 4\<rparr>" and ?s2 = "State_reset\<lparr>sc_offset := 7\<rparr>"
  obtain f' where f': "fk_updateQ int_floats quiet_knobs ?s1 1 5 ?s2 0 sample_feature = Inr f'"
    "cell f' 0 ?s1 1 = sarsa int_floats 1 2 5 (cell sample_feature 0 ?s1 1) (cell sample_feature 0 ?s2 0)"
    "retrieveQ int_floats ?s1 0 f' = retrieveQ int_floats ?s1 0 sample_feature"
    using feature_learning_is_local [OF sample_feature(1) _ _ sample_feature(2), of 1 0 int_floats ?s1 5 ?s2]
    by (auto simp: sample_feature_def)
  have ix: "get_tile_index sample_feature 0 ?s1 = Inr 0" "get_tile_index sample_feature 0 ?s2 = Inr 1"
    by (simp_all add: get_tile_index_def sample_feature_def process_offset_def tile_of_def getHash_def)
  then have "tile sample_feature 0 ?s1 = 0" "tile sample_feature 0 ?s2 = 1" by (simp_all add: tile_def)
  then have "cell f' 0 ?s1 1 = 11"
    using f'(2) by (simp add: cell_def sample_feature_def sarsa_def int_floats_def bounded_int_def)
  moreover have "retrieveQ int_floats ?s1 0 sample_feature = Inr 1"
  proof -
    have "unat (fk_num_tilings sample_feature) = Suc 0" "fk_weight sample_feature = 1" by (simp_all add: sample_feature_def)
    moreover have "getQ 0 0 0 sample_feature = Inr 1" by (simp add: getQ_def sample_feature_def)
    ultimately show ?thesis using ix(1) by (simp add: retrieveQ_def) (simp add: int_floats_def)
  qed
  ultimately show ?thesis using f'(1,3) by auto
qed

end
