(* ===== verification/Featurewise.thy ===== *)
theory Featurewise
  imports FeatureKnowledge
begin

text \<open>
  Pythia's featurewise learning engine (\<^verbatim>\<open>src/learning_engine_featurewise.cc\<close>): the Q-values of
  the active features are pooled, the action with the greatest pooled value is chosen, and the
  features are trained and weighted by how they agreed with the choice.

  The ratio of the greatest to the average Q-value is left out: it is handed to
  \<^verbatim>\<open>gather_stats\<close> and \<^verbatim>\<open>get_dyn_pref_degree\<close>, which do not use it.
\<close>

section \<open>State\<close>

record featurewise_knobs = feature_knobs +
  fw_active_features :: "i32 list"
  fw_num_tilings :: "i32 list"
  fw_num_tiles :: "i32 list"
  fw_hash_types :: "i32 list"
  fw_enable_tiling_offset :: "i32 list"
  fw_enable_dynamic_weight :: bool
  fw_disable_adjust_weight_all_features_align :: bool
  fw_selective_update :: bool
  fw_pooling_type :: u32
  fw_enable_dyn_action_fallback :: bool
  fw_bw_acc_check_level :: u32
  fw_acc_thresh :: u32

text \<open>The knobs of type \<^verbatim>\<open>float\<close>.\<close>

record 'f featurewise_floats =
  fw_feature_weights :: "'f list"
  fw_weight_gradient :: 'f

record ('f, 'g) featurewise =
  fw_base :: "'f engine_base"
  fw_knowledges :: "'f feature option list"
  fw_max_q_value :: 'f
  fw_generator :: 'g
  fw_q_value_buckets :: "'f list"
  fw_q_value_histogram :: "u64 list"
  fw_called :: u64
  fw_explore :: u64
  fw_exploit :: u64
  fw_dist :: "u64 list list"
  fw_fallback :: u64
  fw_saved_bw :: u64
  fw_saved_bw_acc :: u64
  fw_learn_called :: u64
  fw_su_skip :: "u64 list"
  fw_consensus_total :: u64
  fw_align_dist :: "u64 list"
  fw_align_all :: u64

definition knob_at :: "'a list \<Rightarrow> nat \<Rightarrow> 'a res" where
  "knob_at xs i = (if i < length xs then Inr (xs ! i) else Inl Out_of_bounds)"

text \<open>One round of the constructor's loop; \<^verbatim>\<open>init_knobs\<close>, which compares the lengths, is never called.\<close>

definition init_feature ::
  "'f float_ops \<Rightarrow> 'f featurewise_floats \<Rightarrow> featurewise_knobs \<Rightarrow> 'f \<Rightarrow> 'f \<Rightarrow> u32 \<Rightarrow> bool \<Rightarrow> nat \<Rightarrow>
   'f feature option list \<Rightarrow> 'f feature option list res" where
  "init_feature F X K alpha gamma actions zero_init index fs =
     bind_res (knob_at (fw_active_features K) index) (\<lambda>ty.
       if \<not> unat ty < NumFeatureTypes then Inl Assert_failed
       else
         bind_res (knob_at (fw_feature_weights X) index) (\<lambda>weight.
         bind_res (knob_at (fw_num_tilings K) index) (\<lambda>tilings.
         bind_res (knob_at (fw_num_tiles K) index) (\<lambda>tiles.
         bind_res (knob_at (fw_hash_types K) index) (\<lambda>hash_type.
         bind_res (knob_at (fw_enable_tiling_offset K) index) (\<lambda>use_offset.
         bind_res (FeatureKnowledge_init F (feature_types ! unat ty) alpha gamma actions weight (fw_weight_gradient X)
             tilings tiles zero_init hash_type (use_offset \<noteq> 0)) (\<lambda>f.
           Inr (fs[unat ty := Some f]))))))))"

primrec init_features ::
  "'f float_ops \<Rightarrow> 'f featurewise_floats \<Rightarrow> featurewise_knobs \<Rightarrow> 'f \<Rightarrow> 'f \<Rightarrow> u32 \<Rightarrow> bool \<Rightarrow> nat list \<Rightarrow>
   'f feature option list \<Rightarrow> 'f feature option list res" where
  "init_features F X K alpha gamma actions zero_init [] fs = Inr fs"
| "init_features F X K alpha gamma actions zero_init (i # is) fs =
     bind_res (init_feature F X K alpha gamma actions zero_init i fs) (init_features F X K alpha gamma actions zero_init is)"

definition LearningEngineFeaturewise_init ::
  "'f float_ops \<Rightarrow> 'f featurewise_floats \<Rightarrow> featurewise_knobs \<Rightarrow> (u64 \<Rightarrow> 'g) \<Rightarrow> 'f \<Rightarrow> 'f \<Rightarrow> 'f \<Rightarrow> u32 \<Rightarrow> u64 \<Rightarrow> string \<Rightarrow> string \<Rightarrow>
   bool \<Rightarrow> ('f, 'g) featurewise res" where
  "LearningEngineFeaturewise_init F X K seed_gen alpha gamma epsilon actions seed pol ty zero_init =
     bind_res (LearningEngineBase_init alpha gamma epsilon actions 0 seed pol ty) (\<lambda>b.
     bind_res (init_features F X K alpha gamma actions zero_init [0..<length (fw_active_features K)] (replicate NumFeatureTypes None)) (\<lambda>fs.
       let max_q = f_mul F (f_div F (f_of_int F 1) (f_sub F (f_of_int F 1) gamma)) (f_of_int F (sint (sum_list (fw_num_tilings K))));
           buckets = f_buckets F max_q in
       Inr \<lparr>fw_base = b, fw_knowledges = fs, fw_max_q_value = max_q, fw_generator = seed_gen seed,
            fw_q_value_buckets = buckets, fw_q_value_histogram = replicate (length buckets + 1) 0,
            fw_called = 0, fw_explore = 0, fw_exploit = 0, fw_dist = replicate MAX_ACTIONS [0, 0], fw_fallback = 0,
            fw_saved_bw = 0, fw_saved_bw_acc = 0, fw_learn_called = 0, fw_su_skip = replicate NumFeatureTypes 0,
            fw_consensus_total = 0, fw_align_dist = replicate NumFeatureTypes 0, fw_align_all = 0\<rparr>))"

section \<open>Choosing an action\<close>

definition do_fallback :: "featurewise_knobs \<Rightarrow> pythia_state \<Rightarrow> ('f, 'g) featurewise \<Rightarrow> bool \<times> ('f, 'g) featurewise" where
  "do_fallback K s e =
     (if \<not> fw_enable_dyn_action_fallback K then (fk_enable_action_fallback K, e)
      else if sc_is_high_bw s then (False, e\<lparr>fw_saved_bw := fw_saved_bw e + 1\<rparr>)
      else if ucast (sc_bw_level s) \<ge> fw_bw_acc_check_level K \<and> sc_acc_level s \<le> fw_acc_thresh K
      then (False, e\<lparr>fw_saved_bw_acc := fw_saved_bw_acc e + 1\<rparr>)
      else (True, e))"

text \<open>Sum or max pooling over the features, in the order of their types; \<open>(q, m)\<close> is \<^verbatim>\<open>(q_value, max)\<close>.\<close>

primrec pool ::
  "'f float_ops \<Rightarrow> featurewise_knobs \<Rightarrow> pythia_state \<Rightarrow> u32 \<Rightarrow> 'f feature option list \<Rightarrow> 'f \<times> 'f \<Rightarrow> 'f res" where
  "pool F K s action [] qm = Inr (fst qm)"
| "pool F K s action (x # xs) qm =
     (case x of
        None \<Rightarrow> pool F K s action xs qm
      | Some f \<Rightarrow>
          if fw_pooling_type K = 1 then
            bind_res (retrieveQ F s action f) (\<lambda>v. pool F K s action xs (f_add F (fst qm) v, snd qm))
          else if fw_pooling_type K = 2 then
            bind_res (retrieveQ F s action f) (\<lambda>v. pool F K s action xs (if f_leq F (snd qm) v then (v, v) else qm))
          else Inl Assert_failed)"

definition fw_consultQ :: "'f float_ops \<Rightarrow> featurewise_knobs \<Rightarrow> pythia_state \<Rightarrow> u32 \<Rightarrow> ('f, 'g) featurewise \<Rightarrow> 'f res" where
  "fw_consultQ F K s action e =
     (if action < m_actions (fw_base e)
      then pool F K s action (fw_knowledges e) (f_of_int F 0, f_of_int F (- 1000000000)) else Inl Assert_failed)"

text \<open>The consensus of the features with the selected action: vector, counters, and whether all agree.\<close>

primrec consensus ::
  "'f float_ops \<Rightarrow> featurewise_knobs \<Rightarrow> pythia_state \<Rightarrow> u32 \<Rightarrow> 'f feature option list \<Rightarrow> bool list res" where
  "consensus F K s selected [] = Inr []"
| "consensus F K s selected (x # xs) =
     bind_res (case x of None \<Rightarrow> Inr False
               | Some f \<Rightarrow> bind_res (fk_getMaxAction F (feature_knobs.truncate K) s f) (\<lambda>a. Inr (a = selected)))
       (\<lambda>b. bind_res (consensus F K s selected xs) (\<lambda>bs. Inr (b # bs)))"

definition action_selection_consensus ::
  "'f float_ops \<Rightarrow> featurewise_knobs \<Rightarrow> pythia_state \<Rightarrow> u32 \<Rightarrow> bool list \<Rightarrow> ('f, 'g) featurewise \<Rightarrow> (bool list \<times> ('f, 'g) featurewise) res" where
  "action_selection_consensus F K s selected vec e =
     (if length vec < length (fw_knowledges e) \<or> length (fw_align_dist e) < length (fw_knowledges e) then Inl Out_of_bounds
      else
        bind_res (consensus F K s selected (fw_knowledges e)) (\<lambda>bs.
          let all_align = list_all2 (\<lambda>x b. x \<noteq> None \<longrightarrow> b) (fw_knowledges e) bs;
              dist = map2 (\<lambda>n b. if b then n + 1 else n) (fw_align_dist e) bs
          in Inr (map2 (\<or>) vec bs,
               e\<lparr>fw_consensus_total := fw_consensus_total e + 1, fw_align_dist := dist,
                 fw_align_all := (if all_align then fw_align_all e + 1 else fw_align_all e)\<rparr>)))"

definition fw_getMaxAction ::
  "'f float_ops \<Rightarrow> featurewise_knobs \<Rightarrow> pythia_state \<Rightarrow> bool list \<Rightarrow> ('f, 'g) featurewise \<Rightarrow>
   (u32 \<times> 'f \<times> bool list \<times> ('f, 'g) featurewise) res" where
  "fw_getMaxAction F K s vec e =
     (let (fallback, e) = do_fallback K s e in
      bind_res (if fallback then Inr (f_of_int F 0, 0) else bind_res (fw_consultQ F K s 0 e) (\<lambda>v. Inr (v, 1))) (\<lambda>(v, init_index).
      bind_res (max_scan_res (f_less F) (\<lambda>a. fw_consultQ F K s a e) [init_index..<unat (m_actions (fw_base e))] (v, 0)) (\<lambda>(max_q, selected).
        let e = (if fallback \<and> f_leq F max_q (f_of_int F 0) \<and> f_leq F (f_of_int F 0) max_q
                 then e\<lparr>fw_fallback := fw_fallback e + 1\<rparr> else e) in
        bind_res (action_selection_consensus F K s selected vec e) (\<lambda>(vec, e). Inr (selected, max_q, vec, e)))))"

text \<open>The histogram of \<^verbatim>\<open>gather_stats\<close>: the first bucket with a limit below and one above.\<close>

definition in_bucket :: "'f float_ops \<Rightarrow> 'f list \<Rightarrow> 'f \<Rightarrow> nat \<Rightarrow> bool" where
  "in_bucket F bs q i \<longleftrightarrow>
     f_leq F (if i = 0 then f_of_int F (- 1000000000) else bs ! (i - 1)) q \<and>
     f_less F q (if i < length bs - 1 then bs ! (i + 1) else f_of_int F 1000000000)"

definition gather_stats :: "'f float_ops \<Rightarrow> 'f \<Rightarrow> ('f, 'g) featurewise \<Rightarrow> ('f, 'g) featurewise" where
  "gather_stats F max_q e =
     (case find (in_bucket F (fw_q_value_buckets e) max_q) [0..<length (fw_q_value_buckets e)] of
        None \<Rightarrow> e
      | Some i \<Rightarrow> e\<lparr>fw_q_value_histogram := (fw_q_value_histogram e)[i := fw_q_value_histogram e ! i + 1]\<rparr>)"

definition fw_chooseAction ::
  "'f float_ops \<Rightarrow> 'g random_ops \<Rightarrow> featurewise_knobs \<Rightarrow> pythia_state \<Rightarrow> ('f, 'g) featurewise \<Rightarrow>
   (u32 \<times> bool list \<times> ('f, 'g) featurewise) res" where
  "fw_chooseAction F R K s e =
     (let e = e\<lparr>fw_called := fw_called e + 1\<rparr>; vec = replicate NumFeatureTypes False in
      if m_type (fw_base e) = SARSA \<and> m_policy (fw_base e) = EGreedy then
        let (explore, g) = draw_explore R (fw_generator e); e = e\<lparr>fw_generator := g\<rparr> in
        if explore then
          let (action, g) = draw_action R (m_actions (fw_base e)) (fw_generator e) in
          bind_res (bump2 (unat action) 0 (fw_dist e)) (\<lambda>t.
            Inr (action, vec, e\<lparr>fw_generator := g, fw_explore := fw_explore e + 1, fw_dist := t\<rparr>))
        else
          bind_res (fw_getMaxAction F K s vec e) (\<lambda>(action, max_q, vec, e).
          bind_res (bump2 (unat action) 1 (fw_dist e)) (\<lambda>t.
            Inr (action, vec, gather_stats F max_q (e\<lparr>fw_exploit := fw_exploit e + 1, fw_dist := t\<rparr>))))
      else Inl Assert_failed)"

section \<open>Learning\<close>

text \<open>The features in order, each trained or skipped.\<close>

definition learn_feature ::
  "'f float_ops \<Rightarrow> featurewise_knobs \<Rightarrow> pythia_state \<Rightarrow> u32 \<Rightarrow> i32 \<Rightarrow> pythia_state \<Rightarrow> u32 \<Rightarrow> bool list \<Rightarrow> nat \<Rightarrow>
   ('f, 'g) featurewise \<Rightarrow> ('f, 'g) featurewise res" where
  "learn_feature F K state1 action1 reward state2 action2 vec i e =
     (case fw_knowledges e ! i of
        None \<Rightarrow> Inr e
      | Some f \<Rightarrow>
          bind_res (if \<not> fw_selective_update K then Inr True else knob_at vec i) (\<lambda>go.
            if go then
              bind_res (fk_updateQ F (feature_knobs.truncate K) state1 action1 reward state2 action2 f) (\<lambda>f.
                Inr (e\<lparr>fw_knowledges := (fw_knowledges e)[i := Some f]\<rparr>))
            else
              bind_res (knob_at (fw_su_skip e) i) (\<lambda>n. Inr (e\<lparr>fw_su_skip := (fw_su_skip e)[i := n + 1]\<rparr>))))"

primrec learn_features ::
  "'f float_ops \<Rightarrow> featurewise_knobs \<Rightarrow> pythia_state \<Rightarrow> u32 \<Rightarrow> i32 \<Rightarrow> pythia_state \<Rightarrow> u32 \<Rightarrow> bool list \<Rightarrow> nat list \<Rightarrow>
   ('f, 'g) featurewise \<Rightarrow> ('f, 'g) featurewise res" where
  "learn_features F K state1 action1 reward state2 action2 vec [] e = Inr e"
| "learn_features F K state1 action1 reward state2 action2 vec (i # is) e =
     bind_res (learn_feature F K state1 action1 reward state2 action2 vec i e)
       (learn_features F K state1 action1 reward state2 action2 vec is)"

definition adjust_weight :: "'f float_ops \<Rightarrow> reward_type \<Rightarrow> bool \<Rightarrow> 'f feature option \<Rightarrow> 'f feature option res" where
  "adjust_weight F ty aligned x =
     (if aligned then
        (case x of
           None \<Rightarrow> Inl Assert_failed
         | Some f \<Rightarrow> Inr (Some (if isRewardCorrect ty then increase_weight F f
                               else if isRewardIncorrect ty then decrease_weight F f else f)))
      else Inr x)"

primrec adjust_weights :: "'f float_ops \<Rightarrow> reward_type \<Rightarrow> bool list \<Rightarrow> 'f feature option list \<Rightarrow> 'f feature option list res" where
  "adjust_weights F ty vec [] = Inr []"
| "adjust_weights F ty vec (x # xs) =
     (case vec of
        [] \<Rightarrow> Inl Out_of_bounds
      | b # bs \<Rightarrow> bind_res (adjust_weight F ty b x) (\<lambda>y. bind_res (adjust_weights F ty bs xs) (\<lambda>ys. Inr (y # ys))))"

definition adjust_feature_weights ::
  "'f float_ops \<Rightarrow> featurewise_knobs \<Rightarrow> bool list \<Rightarrow> reward_type \<Rightarrow> ('f, 'g) featurewise \<Rightarrow> ('f, 'g) featurewise res" where
  "adjust_feature_weights F K vec ty e =
     (if length vec \<noteq> NumFeatureTypes then Inl Assert_failed
      else if fw_disable_adjust_weight_all_features_align K \<and> length (filter id vec) = length (fw_active_features K) then Inr e
      else bind_res (adjust_weights F ty vec (fw_knowledges e)) (\<lambda>fs. Inr (e\<lparr>fw_knowledges := fs\<rparr>)))"

definition fw_learn ::
  "'f float_ops \<Rightarrow> featurewise_knobs \<Rightarrow> pythia_state \<Rightarrow> u32 \<Rightarrow> i32 \<Rightarrow> pythia_state \<Rightarrow> u32 \<Rightarrow> bool list \<Rightarrow> reward_type \<Rightarrow>
   ('f, 'g) featurewise \<Rightarrow> ('f, 'g) featurewise res" where
  "fw_learn F K state1 action1 reward state2 action2 vec ty e =
     (let e = e\<lparr>fw_learn_called := fw_learn_called e + 1\<rparr> in
      if m_type (fw_base e) = SARSA \<and> m_policy (fw_base e) = EGreedy then
        bind_res (learn_features F K state1 action1 reward state2 action2 vec [0..<NumFeatureTypes] e) (\<lambda>e.
          if fw_enable_dynamic_weight K then adjust_feature_weights F K vec ty e else Inr e)
      else Inl Assert_failed)"

section \<open>Well-formed engines\<close>

definition feature_fits :: "featurewise_knobs \<Rightarrow> u32 \<Rightarrow> 'f feature option \<Rightarrow> bool" where
  "feature_fits K actions x \<longleftrightarrow>
     (\<forall>f. x = Some f \<longrightarrow> feature_ok f \<and> fk_actions f = actions \<and> traceable (feature_knobs.truncate K) f)"

definition fw_ok :: "featurewise_knobs \<Rightarrow> ('f, 'g) featurewise \<Rightarrow> bool" where
  "fw_ok K e \<longleftrightarrow> base_ok (fw_base e) \<and> dist_ok (fw_dist e) \<and> (fw_pooling_type K = 1 \<or> fw_pooling_type K = 2) \<and>
     length (fw_knowledges e) = NumFeatureTypes \<and> length (fw_su_skip e) = NumFeatureTypes \<and>
     length (fw_align_dist e) = NumFeatureTypes \<and> length (fw_q_value_histogram e) = length (fw_q_value_buckets e) + 1 \<and>
     (\<forall>x\<in>set (fw_knowledges e). feature_fits K (m_actions (fw_base e)) x)"

text \<open>The bits of a consensus vector belong to active features.\<close>

definition vec_fits :: "('f, 'g) featurewise \<Rightarrow> bool list \<Rightarrow> bool" where
  "vec_fits e vec \<longleftrightarrow> length vec = NumFeatureTypes \<and> (\<forall>i<NumFeatureTypes. vec ! i \<longrightarrow> fw_knowledges e ! i \<noteq> None)"

section \<open>Pooled values\<close>

definition active :: "'f feature option list \<Rightarrow> 'f feature list" where
  "active xs = map the (filter (\<lambda>x. x \<noteq> None) xs)"

lemma active_simps [simp]: "active [] = []" "active (None # xs) = active xs" "active (Some f # xs) = f # active xs"
  by (simp_all add: active_def)

definition pool_step :: "'f float_ops \<Rightarrow> featurewise_knobs \<Rightarrow> 'f \<times> 'f \<Rightarrow> 'f \<Rightarrow> 'f \<times> 'f" where
  "pool_step F K qm v =
     (if fw_pooling_type K = 1 then (f_add F (fst qm) v, snd qm) else if f_leq F (snd qm) v then (v, v) else qm)"

definition pooled :: "'f float_ops \<Rightarrow> featurewise_knobs \<Rightarrow> ('f, 'g) featurewise \<Rightarrow> pythia_state \<Rightarrow> u32 \<Rightarrow> 'f" where
  "pooled F K e s a = fst (foldl (pool_step F K) (f_of_int F 0, f_of_int F (- 1000000000))
     (map (\<lambda>f. q_value F f s a) (active (fw_knowledges e))))"

lemma pool_ok:
  assumes "fw_pooling_type K = 1 \<or> fw_pooling_type K = 2" "\<forall>x\<in>set xs. feature_fits K n x" "a < n"
  shows "pool F K s a xs qm = Inr (fst (foldl (pool_step F K) qm (map (\<lambda>f. q_value F f s a) (active xs))))"
  using assms(2)
proof (induction xs arbitrary: qm)
  case Nil
  then show ?case by simp
next
  case (Cons x xs)
  show ?case
  proof (cases x)
    case None
    then show ?thesis using Cons by simp
  next
    case (Some f)
    then have "retrieveQ F s a f = Inr (q_value F f s a)"
      using Cons.prems assms(3) by (intro retrieveQ_ok) (auto simp: feature_fits_def)
    moreover have rest: "pool F K s a xs qm' = Inr (fst (foldl (pool_step F K) qm' (map (\<lambda>f. q_value F f s a) (active xs))))" for qm'
      using Cons by simp
    ultimately have "pool F K s a (x # xs) qm =
        pool F K s a xs (if fw_pooling_type K = 1 then (f_add F (fst qm) (q_value F f s a), snd qm)
          else if f_leq F (snd qm) (q_value F f s a) then (q_value F f s a, q_value F f s a) else qm)"
      using assms(1) Some by (elim disjE) (simp_all del: fst_conv snd_conv)
    then show ?thesis unfolding rest by (simp only: Some active_simps list.map foldl_Cons pool_step_def [of F K qm])
  qed
qed

lemma fw_consultQ_ok:
  "fw_ok K e \<Longrightarrow> a < m_actions (fw_base e) \<Longrightarrow> fw_consultQ F K s a e = Inr (pooled F K e s a)"
  by (simp add: fw_consultQ_def pooled_def fw_ok_def pool_ok [where n = "m_actions (fw_base e)"])

section \<open>Choices\<close>

lemma max_scan_from:
  assumes "weak_order lt"
  shows "(\<forall>j\<in>set is. \<not> lt (fst (max_scan lt v is (w, k))) (v j)) \<and> \<not> lt (fst (max_scan lt v is (w, k))) w \<and>
    (max_scan lt v is (w, k) = (w, k) \<or>
     snd (max_scan lt v is (w, k)) \<in> set is \<and> fst (max_scan lt v is (w, k)) = v (snd (max_scan lt v is (w, k))) \<and>
     lt w (fst (max_scan lt v is (w, k))))"
proof (induction "is" arbitrary: w k)
  case Nil
  have "\<not> lt w w" using assms unfolding weak_order_def by blast
  then show ?case by simp
next
  case (Cons i "is")
  have irr: "\<not> lt x x" and trans: "lt x y \<Longrightarrow> lt y z \<Longrightarrow> lt x z" and neg: "\<not> lt x y \<Longrightarrow> \<not> lt y z \<Longrightarrow> \<not> lt x z" for x y z
    using assms unfolding weak_order_def by blast+
  show ?case
  proof (cases "lt w (v i)")
    case True
    define r where "r = max_scan lt v is (v i, i)"
    have r: "\<forall>j\<in>set is. \<not> lt (fst r) (v j)" "\<not> lt (fst r) (v i)"
      "r = (v i, i) \<or> snd r \<in> set is \<and> fst r = v (snd r) \<and> lt (v i) (fst r)" using Cons.IH [of "v i" i] unfolding r_def by blast+
    have up: "lt w (fst r)" using r(3) True trans by fastforce
    have "\<not> lt (fst r) w" using up irr trans by blast
    moreover have "snd r \<in> set (i # is)" "fst r = v (snd r)" using r(3) by auto
    moreover have "max_scan lt v (i # is) (w, k) = r" using True by (simp add: r_def)
    ultimately show ?thesis using r(1,2) up by simp
  next
    case False
    define r where "r = max_scan lt v is (w, k)"
    have r: "\<forall>j\<in>set is. \<not> lt (fst r) (v j)" "\<not> lt (fst r) w"
      "r = (w, k) \<or> snd r \<in> set is \<and> fst r = v (snd r) \<and> lt w (fst r)" using Cons.IH [of w k] unfolding r_def by blast+
    have "\<not> lt (fst r) (v i)" using r(2) False neg by blast
    moreover have "max_scan lt v (i # is) (w, k) = r" using False by (simp add: r_def)
    ultimately show ?thesis using r by auto
  qed
qed

lemma consensus_ok:
  assumes "\<forall>x\<in>set xs. feature_fits K n x"
  shows "\<exists>bs. consensus F K s a xs = Inr bs \<and> length bs = length xs \<and>
    (\<forall>i<length xs. bs ! i \<longleftrightarrow> (\<exists>f. xs ! i = Some f \<and> fk_getMaxAction F (feature_knobs.truncate K) s f = Inr a))"
  using assms
proof (induction xs)
  case Nil
  then show ?case by simp
next
  case (Cons x xs)
  then obtain bs where bs: "consensus F K s a xs = Inr bs" "length bs = length xs"
    "\<forall>i<length xs. bs ! i \<longleftrightarrow> (\<exists>f. xs ! i = Some f \<and> fk_getMaxAction F (feature_knobs.truncate K) s f = Inr a)" by auto
  show ?case
  proof (cases x)
    case None
    then show ?thesis using bs by (intro exI [of _ "False # bs"]) (auto simp: nth_Cons split: nat.splits)
  next
    case (Some f)
    then have "feature_ok f" using Cons.prems by (auto simp: feature_fits_def)
    then obtain b where "fk_getMaxAction F (feature_knobs.truncate K) s f = Inr b" using fk_getMaxAction_ok by blast
    then show ?thesis using bs Some by (intro exI [of _ "(b = a) # bs"]) (auto simp: nth_Cons split: nat.splits)
  qed
qed

lemma getMaxAction_vec:
  assumes "fw_ok K e" "length vec = NumFeatureTypes" "\<forall>i<NumFeatureTypes. \<not> vec ! i"
  shows "\<exists>bs e'. action_selection_consensus F K s a vec e = Inr (bs, e') \<and> fw_ok K e' \<and>
    fw_base e' = fw_base e \<and> fw_knowledges e' = fw_knowledges e \<and> fw_dist e' = fw_dist e \<and> fw_generator e' = fw_generator e \<and>
    fw_exploit e' = fw_exploit e \<and> length bs = NumFeatureTypes \<and>
    (\<forall>i<NumFeatureTypes. bs ! i \<longleftrightarrow>
       (\<exists>f. fw_knowledges e ! i = Some f \<and> fk_getMaxAction F (feature_knobs.truncate K) s f = Inr a))"
proof -
  have len: "length (fw_knowledges e) = NumFeatureTypes" "length (fw_align_dist e) = NumFeatureTypes" using assms(1) by (simp_all add: fw_ok_def)
  obtain bs where bs: "consensus F K s a (fw_knowledges e) = Inr bs" "length bs = NumFeatureTypes"
    "\<forall>i<NumFeatureTypes. bs ! i \<longleftrightarrow> (\<exists>f. fw_knowledges e ! i = Some f \<and> fk_getMaxAction F (feature_knobs.truncate K) s f = Inr a)"
    using consensus_ok [of "fw_knowledges e" K "m_actions (fw_base e)" F s a] assms(1) len by (auto simp: fw_ok_def)
  have vec: "map2 (\<or>) vec bs = bs" using assms(2,3) bs(2) by (intro nth_equalityI) auto
  let ?e = "e\<lparr>fw_consensus_total := fw_consensus_total e + 1,
      fw_align_dist := map2 (\<lambda>n b. if b then n + 1 else n) (fw_align_dist e) bs,
      fw_align_all := (if list_all2 (\<lambda>x b. x \<noteq> None \<longrightarrow> b) (fw_knowledges e) bs then fw_align_all e + 1 else fw_align_all e)\<rparr>"
  have "action_selection_consensus F K s a vec e = Inr (bs, ?e)"
    using bs(1) len assms(2) by (simp add: action_selection_consensus_def vec Let_def)
  moreover have "fw_ok K ?e" using assms(1) bs(2) by (simp add: fw_ok_def)
  ultimately show ?thesis using bs by (intro exI [of _ bs] exI [of _ ?e]) simp
qed

lemma do_fallback_frame:
  "fw_ok K (snd (do_fallback K s e)) = fw_ok K e" "fw_base (snd (do_fallback K s e)) = fw_base e"
  "fw_knowledges (snd (do_fallback K s e)) = fw_knowledges e" "fw_dist (snd (do_fallback K s e)) = fw_dist e"
  "fw_generator (snd (do_fallback K s e)) = fw_generator e" "fw_exploit (snd (do_fallback K s e)) = fw_exploit e"
  by (simp_all add: do_fallback_def fw_ok_def)

text \<open>What makes an action the choice of the greedy policy, with and without fallback.\<close>

definition best_pooled :: "'f float_ops \<Rightarrow> featurewise_knobs \<Rightarrow> ('f, 'g) featurewise \<Rightarrow> pythia_state \<Rightarrow> u32 \<Rightarrow> bool" where
  "best_pooled F K e s a \<longleftrightarrow>
     (if fst (do_fallback K s e)
      then (a = 0 \<and> (\<forall>b<m_actions (fw_base e). \<not> f_less F (f_of_int F 0) (pooled F K e s b))) \<or>
           (f_less F (f_of_int F 0) (pooled F K e s a) \<and> (\<forall>b<m_actions (fw_base e). \<not> f_less F (pooled F K e s a) (pooled F K e s b)))
      else \<forall>b<m_actions (fw_base e). \<not> f_less F (pooled F K e s a) (pooled F K e s b))"

lemma pooled_cong: "fw_knowledges e' = fw_knowledges e \<Longrightarrow> pooled F K e' s a = pooled F K e s a"
  by (simp add: pooled_def)

lemma scan_actions:
  assumes "fw_ok K e" "i0 \<le> unat (m_actions (fw_base e))"
  shows "\<exists>m. max_scan_res (f_less F) (\<lambda>a. fw_consultQ F K s a e) [i0..<unat (m_actions (fw_base e))] (w, 0) = Inr (fst m, of_nat (snd m)) \<and>
    snd m < unat (m_actions (fw_base e)) \<and> m = max_scan (f_less F) (\<lambda>i. pooled F K e s (of_nat i)) [i0..<unat (m_actions (fw_base e))] (w, 0)"
proof -
  let ?n = "unat (m_actions (fw_base e))"
  have n: "0 < ?n" "?n < 2 ^ 32" using assms(1) u32_bound [of "m_actions (fw_base e)"] by (simp_all add: fw_ok_def base_ok_def unat_pos)
  have "fw_consultQ F K s (of_nat i) e = Inr (pooled F K e s (of_nat i))" if "i < ?n" for i
  proof -
    have "i < 2 ^ 32" using that n(2) by (rule order_less_trans)
    then have "unat (of_nat i :: u32) = i" by (simp add: unat_of_nat take_bit_nat_eq_self)
    then show ?thesis using that by (intro fw_consultQ_ok [OF assms(1)]) (simp add: word_less_nat_alt)
  qed
  then show ?thesis
    using max_scan_res_ok [of "[i0..<?n]" "\<lambda>a. fw_consultQ F K s a e" "\<lambda>i. pooled F K e s (of_nat i)" ?n 0 "f_less F" w] n by simp
qed

lemma best_of_scan:
  assumes "weak_order (f_less F)" "fw_ok K e" "m_actions (fw_base e) = n"
    and "m = max_scan (f_less F) (\<lambda>i. pooled F K e s (of_nat i))
           [(if fst (do_fallback K s e) then 0 else 1)..<unat n] (if fst (do_fallback K s e) then f_of_int F 0 else pooled F K e s 0, 0)"
  shows "best_pooled F K e s (of_nat (snd m))"
proof -
  let ?v = "\<lambda>i. pooled F K e s (of_nat i)"
  have n: "0 < unat n" using assms(2,3) by (simp add: fw_ok_def base_ok_def unat_pos)
  have word: "\<forall>b<n. \<not> f_less F x (pooled F K e s b)" if "\<forall>j<unat n. \<not> f_less F x (?v j)" for x
  proof (intro allI impI)
    fix b assume "b < n"
    then have "unat b < unat n" by (simp add: word_less_nat_alt)
    then show "\<not> f_less F x (pooled F K e s b)" using that [rule_format, of "unat b"] by simp
  qed
  show ?thesis
  proof (cases "fst (do_fallback K s e)")
    case True
    then have m: "m = max_scan (f_less F) ?v [0..<unat n] (f_of_int F 0, 0)" using assms(4) by simp
    have r: "\<forall>j<unat n. \<not> f_less F (fst m) (?v j)"
      "m = (f_of_int F 0, 0) \<or> fst m = ?v (snd m) \<and> f_less F (f_of_int F 0) (fst m)"
      using max_scan_from [OF assms(1), of "[0..<unat n]" ?v "f_of_int F 0" 0] unfolding m [symmetric] by auto
    show ?thesis
    proof (cases "m = (f_of_int F 0, 0)")
      case True
      then have "\<forall>b<n. \<not> f_less F (f_of_int F 0) (pooled F K e s b)" "of_nat (snd m) = (0::u32)" using word r(1) by simp_all
      then show ?thesis unfolding best_pooled_def assms(3) using \<open>fst (do_fallback K s e)\<close> by simp
    next
      case False
      then have "fst m = pooled F K e s (of_nat (snd m))" "f_less F (f_of_int F 0) (fst m)" using r(2) by blast+
      then show ?thesis unfolding best_pooled_def assms(3) using \<open>fst (do_fallback K s e)\<close> word [OF r(1)] by simp
    qed
  next
    case False
    then have m: "m = max_scan (f_less F) ?v [1..<unat n] (?v 0, 0)" using assms(4) by simp
    have r: "\<forall>j\<in>set [1..<unat n]. \<not> f_less F (fst m) (?v j)" "\<not> f_less F (fst m) (?v 0)" "fst m = ?v (snd m)"
      using max_scan_from [OF assms(1), of "[1..<unat n]" ?v "?v 0" 0] unfolding m [symmetric] by auto
    have "\<forall>j<unat n. \<not> f_less F (fst m) (?v j)"
    proof (intro allI impI)
      fix j assume "j < unat n"
      then show "\<not> f_less F (fst m) (?v j)" using r(1,2) by (cases "j = 0") simp_all
    qed
    then show ?thesis unfolding best_pooled_def assms(3) using False word [of "fst m"] r(3) by simp
  qed
qed

lemma fw_getMaxAction_ok:
  assumes "fw_ok K e" "length vec = NumFeatureTypes" "\<forall>i<NumFeatureTypes. \<not> vec ! i"
  shows "\<exists>a q bs e'. fw_getMaxAction F K s vec e = Inr (a, q, bs, e') \<and> a < m_actions (fw_base e) \<and> fw_ok K e' \<and>
    fw_base e' = fw_base e \<and> fw_knowledges e' = fw_knowledges e \<and> fw_exploit e' = fw_exploit e \<and> length bs = NumFeatureTypes \<and>
    (\<forall>i<NumFeatureTypes. bs ! i \<longleftrightarrow> (\<exists>f. fw_knowledges e ! i = Some f \<and> fk_getMaxAction F (feature_knobs.truncate K) s f = Inr a)) \<and>
    (weak_order (f_less F) \<longrightarrow> best_pooled F K e s a)"
proof -
  define fb where "fb = fst (do_fallback K s e)"
  define e1 where "e1 = snd (do_fallback K s e)"
  have fb: "do_fallback K s e = (fb, e1)" by (simp add: fb_def e1_def)
  have e1: "fw_ok K e1" "fw_base e1 = fw_base e" "fw_knowledges e1 = fw_knowledges e" "fw_exploit e1 = fw_exploit e"
    using assms(1) do_fallback_frame [of K s e] by (simp_all add: e1_def)
  let ?n = "unat (m_actions (fw_base e))"
  have n: "0 < ?n" "0 < m_actions (fw_base e)" using assms(1) by (simp_all add: fw_ok_def base_ok_def unat_pos)
  have v0: "fw_consultQ F K s 0 e1 = Inr (pooled F K e s 0)"
    using fw_consultQ_ok [OF e1(1), of 0 F s] n(2) e1(2) pooled_cong [OF e1(3)] by simp
  define m where "m = max_scan (f_less F) (\<lambda>i. pooled F K e s (of_nat i)) [(if fb then 0 else 1)..<?n]
      (if fb then f_of_int F 0 else pooled F K e s 0, 0)"
  have scan: "max_scan_res (f_less F) (\<lambda>a. fw_consultQ F K s a e1) [(if fb then 0 else 1)..<?n]
      (if fb then f_of_int F 0 else pooled F K e s 0, 0) = Inr (fst m, of_nat (snd m)) \<and> snd m < ?n"
  proof -
    have "(if fb then 0 else 1) \<le> ?n" using n(1) by simp
    then show ?thesis
      using scan_actions [OF e1(1), of "if fb then 0 else 1" F s "if fb then f_of_int F 0 else pooled F K e s 0"]
      unfolding e1(2) pooled_cong [OF e1(3)] m_def by blast
  qed
  define e2 where "e2 = (if fb \<and> f_leq F (fst m) (f_of_int F 0) \<and> f_leq F (f_of_int F 0) (fst m)
      then e1\<lparr>fw_fallback := fw_fallback e1 + 1\<rparr> else e1)"
  have e2: "fw_ok K e2" "fw_base e2 = fw_base e" "fw_knowledges e2 = fw_knowledges e" "fw_exploit e2 = fw_exploit e"
    using e1 by (simp_all add: e2_def fw_ok_def)
  obtain bs e' where bs: "action_selection_consensus F K s (of_nat (snd m)) vec e2 = Inr (bs, e')" "fw_ok K e'"
    "fw_base e' = fw_base e2" "fw_knowledges e' = fw_knowledges e2" "fw_exploit e' = fw_exploit e2" "length bs = NumFeatureTypes"
    "\<forall>i<NumFeatureTypes. bs ! i \<longleftrightarrow> (\<exists>f. fw_knowledges e2 ! i = Some f \<and> fk_getMaxAction F (feature_knobs.truncate K) s f = Inr (of_nat (snd m)))"
    using getMaxAction_vec [OF e2(1) assms(2,3), of F s "of_nat (snd m)"] by blast
  have "fw_getMaxAction F K s vec e = Inr (of_nat (snd m), fst m, bs, e')"
    using scan v0 bs(1) unfolding fw_getMaxAction_def fb e1(2) Let_def prod.case
    by (cases fb) (simp_all add: e2_def e1(2))
  moreover have "of_nat (snd m) < m_actions (fw_base e)"
  proof -
    have "?n < 2 ^ 32" using u32_bound [of "m_actions (fw_base e)"] by simp
    with scan have "snd m < 2 ^ 32" using order_less_trans by blast
    then have "unat (of_nat (snd m) :: u32) = snd m" by (simp add: unat_of_nat take_bit_nat_eq_self)
    then show ?thesis using scan by (simp add: word_less_nat_alt)
  qed
  moreover have "best_pooled F K e s (of_nat (snd m))" if "weak_order (f_less F)"
    by (rule best_of_scan [OF that assms(1) refl]) (simp add: m_def fb_def)
  ultimately show ?thesis using bs(2-7) e2 by (intro exI [of _ "of_nat (snd m)"] exI [of _ "fst m"] exI [of _ bs] exI [of _ e']) simp
qed

lemma fw_count_ok:
  assumes "fw_ok K e" "a < m_actions (fw_base e)" "h < 2"
  shows "\<exists>t. bump2 (unat a) h (fw_dist e) = Inr t \<and> dist_ok t"
proof -
  have "unat a < MAX_ACTIONS" using assms(1,2) by (simp add: fw_ok_def base_ok_def word_less_nat_alt)
  then show ?thesis using bump2_dist [of "fw_dist e" "unat a" h] assms by (simp add: fw_ok_def)
qed

lemma gather_stats_frame:
  "fw_ok K (gather_stats F q e) = fw_ok K e" "fw_base (gather_stats F q e) = fw_base e"
  "fw_knowledges (gather_stats F q e) = fw_knowledges e" "fw_exploit (gather_stats F q e) = fw_exploit e"
  by (simp_all add: gather_stats_def fw_ok_def split: option.split)

lemma best_pooled_cong:
  assumes "fw_knowledges e' = fw_knowledges e" "fw_base e' = fw_base e"
  shows "best_pooled F K e' s a = best_pooled F K e s a"
proof -
  have "fst (do_fallback K s e') = fst (do_fallback K s e)" by (simp add: do_fallback_def)
  then show ?thesis unfolding best_pooled_def pooled_cong [OF assms(1)] assms(2) by (simp only:)
qed

lemma fw_chooseAction_ok:
  assumes "fw_ok K e" "random_ok R"
  shows "\<exists>a vec e'. fw_chooseAction F R K s e = Inr (a, vec, e') \<and> a < m_actions (fw_base e) \<and> fw_ok K e' \<and>
    fw_base e' = fw_base e \<and> fw_knowledges e' = fw_knowledges e \<and> vec_fits e vec \<and>
    (\<not> fst (draw_explore R (fw_generator e)) \<longrightarrow> fw_exploit e' = fw_exploit e + 1 \<and>
       (\<forall>i<NumFeatureTypes. vec ! i \<longleftrightarrow> (\<exists>f. fw_knowledges e ! i = Some f \<and> fk_getMaxAction F (feature_knobs.truncate K) s f = Inr a)) \<and>
       (weak_order (f_less F) \<longrightarrow> best_pooled F K e s a))"
proof -
  let ?vec = "replicate NumFeatureTypes False"
  obtain x g where x: "draw_explore R (fw_generator e) = (x, g)" by fastforce
  let ?e = "e\<lparr>fw_called := fw_called e + 1, fw_generator := g\<rparr>"
  have b: "m_type (fw_base e) = SARSA" "m_policy (fw_base e) = EGreedy" "0 < m_actions (fw_base e)"
    using assms(1) by (simp_all add: fw_ok_def base_ok_def)
  have ok: "fw_ok K ?e" using assms(1) by (simp add: fw_ok_def)
  show ?thesis
  proof (cases x)
    case True
    obtain a g' where a: "draw_action R (m_actions (fw_base e)) g = (a, g')" by fastforce
    then have less: "a < m_actions (fw_base e)" using assms(2) b(3) unfolding random_ok_def by (metis fst_conv)
    obtain t where t: "bump2 (unat a) 0 (fw_dist e) = Inr t" "dist_ok t" using fw_count_ok [OF assms(1) less, of 0] by auto
    let ?r = "?e\<lparr>fw_generator := g', fw_explore := fw_explore e + 1, fw_dist := t\<rparr>"
    have "fw_chooseAction F R K s e = Inr (a, ?vec, ?r)" using b x True a t(1) by (simp add: fw_chooseAction_def Let_def)
    moreover have "fw_ok K ?r" using ok t(2) by (simp add: fw_ok_def)
    moreover have "vec_fits e ?vec" by (simp add: vec_fits_def)
    ultimately show ?thesis using less x True by (intro exI [of _ a] exI [of _ ?vec] exI [of _ ?r]) simp
  next
    case False
    obtain a q bs e1 where m: "fw_getMaxAction F K s ?vec ?e = Inr (a, q, bs, e1)" "a < m_actions (fw_base ?e)" "fw_ok K e1"
      "fw_base e1 = fw_base ?e" "fw_knowledges e1 = fw_knowledges ?e" "fw_exploit e1 = fw_exploit ?e" "length bs = NumFeatureTypes"
      "\<forall>i<NumFeatureTypes. bs ! i \<longleftrightarrow> (\<exists>f. fw_knowledges ?e ! i = Some f \<and> fk_getMaxAction F (feature_knobs.truncate K) s f = Inr a)"
      "weak_order (f_less F) \<longrightarrow> best_pooled F K ?e s a"
      using fw_getMaxAction_ok [OF ok, of ?vec F s] by auto
    obtain t where t: "bump2 (unat a) 1 (fw_dist e1) = Inr t" "dist_ok t" using fw_count_ok [OF m(3), of a 1] m(2,4) by auto
    let ?r = "gather_stats F q (e1\<lparr>fw_exploit := fw_exploit e1 + 1, fw_dist := t\<rparr>)"
    have "fw_chooseAction F R K s e = Inr (a, bs, ?r)" using b x False m(1) t(1) by (simp add: fw_chooseAction_def Let_def)
    moreover have "fw_ok K (e1\<lparr>fw_exploit := fw_exploit e1 + 1, fw_dist := t\<rparr>)" using m(3) t(2) by (simp add: fw_ok_def)
    moreover have "vec_fits e bs" using m(7,8) by (auto simp: vec_fits_def)
    moreover have "best_pooled F K ?e s a = best_pooled F K e s a" by (rule best_pooled_cong) simp_all
    ultimately show ?thesis using m(2,4-9)
      by (intro exI [of _ a] exI [of _ bs] exI [of _ ?r]) (simp add: gather_stats_frame)
  qed
qed

section \<open>Training\<close>

lemma updateQ_fits:
  assumes "feature_fits K n (Some f)" "a1 < n" "a2 < n"
  shows "\<exists>f'. fk_updateQ F (feature_knobs.truncate K) s1 a1 r s2 a2 f = Inr f' \<and> feature_fits K n (Some f')"
proof -
  have f: "feature_ok f" "fk_actions f = n" "traceable (feature_knobs.truncate K) f" using assms(1) by (simp_all add: feature_fits_def)
  obtain t x y z where t: "fk_updateQ F (feature_knobs.truncate K) s1 a1 r s2 a2 f =
      Inr (f\<lparr>fk_qtable := t, fk_trace_interval := x, fk_trace_timestamp := y, fk_trace_record_count := z\<rparr>)" "shape_ok f t"
    using fk_updateQ_ok [OF f(1), of a1 a2 "feature_knobs.truncate K" F s1 r s2] assms(2,3) f by auto
  have "feature_ok (f\<lparr>fk_qtable := t, fk_trace_interval := x, fk_trace_timestamp := y, fk_trace_record_count := z\<rparr>)"
    using feature_ok_table [OF f(1) t(2)] by (simp add: feature_ok_def shape_ok_def)
  then show ?thesis using t(1) f by (simp add: feature_fits_def traceable_def)
qed

text \<open>What training makes of the feature at index \<open>i\<close>.\<close>

definition trained ::
  "'f float_ops \<Rightarrow> featurewise_knobs \<Rightarrow> pythia_state \<Rightarrow> u32 \<Rightarrow> i32 \<Rightarrow> pythia_state \<Rightarrow> u32 \<Rightarrow> bool list \<Rightarrow> nat \<Rightarrow>
   'f feature option \<Rightarrow> 'f feature option" where
  "trained F K s1 a1 r s2 a2 vec i x =
     (case x of
        None \<Rightarrow> None
      | Some f \<Rightarrow>
          if fw_selective_update K \<and> \<not> vec ! i then Some f
          else Some (projr (fk_updateQ F (feature_knobs.truncate K) s1 a1 r s2 a2 f)))"

lemma learn_feature_ok:
  assumes "fw_ok K e" "a1 < m_actions (fw_base e)" "a2 < m_actions (fw_base e)" "length vec = NumFeatureTypes" "i < NumFeatureTypes"
  shows "\<exists>e'. learn_feature F K s1 a1 r s2 a2 vec i e = Inr e' \<and> fw_ok K e' \<and> fw_base e' = fw_base e \<and>
    fw_knowledges e' = (fw_knowledges e)[i := trained F K s1 a1 r s2 a2 vec i (fw_knowledges e ! i)]"
proof -
  have len: "i < length (fw_knowledges e)" "i < length (fw_su_skip e)" using assms(1,5) by (simp_all add: fw_ok_def)
  show ?thesis
  proof (cases "fw_knowledges e ! i")
    case None
    then have "(fw_knowledges e)[i := None] = fw_knowledges e" by (metis list_update_id)
    then show ?thesis using None assms(1) by (intro exI [of _ e]) (simp add: learn_feature_def trained_def)
  next
    case (Some f)
    have "fw_knowledges e ! i \<in> set (fw_knowledges e)" using len(1) by simp
    then have fits: "feature_fits K (m_actions (fw_base e)) (Some f)" using assms(1) Some by (simp add: fw_ok_def)
    show ?thesis
    proof (cases "fw_selective_update K \<and> \<not> vec ! i")
      case True
      have "(fw_knowledges e)[i := Some f] = fw_knowledges e" using Some by (metis list_update_id)
      moreover have "fw_ok K (e\<lparr>fw_su_skip := (fw_su_skip e)[i := fw_su_skip e ! i + 1]\<rparr>)" using assms(1) by (simp add: fw_ok_def)
      ultimately show ?thesis using Some True assms(4,5) len
        by (intro exI [of _ "e\<lparr>fw_su_skip := (fw_su_skip e)[i := fw_su_skip e ! i + 1]\<rparr>"])
          (simp add: learn_feature_def trained_def knob_at_def)
    next
      case False
      obtain f' where f': "fk_updateQ F (feature_knobs.truncate K) s1 a1 r s2 a2 f = Inr f'"
        "feature_fits K (m_actions (fw_base e)) (Some f')" using updateQ_fits [OF fits assms(2,3)] by blast
      have "fw_ok K (e\<lparr>fw_knowledges := (fw_knowledges e)[i := Some f']\<rparr>)"
        using assms(1) f'(2) set_update_subset_insert [of "fw_knowledges e" i "Some f'"] by (auto simp: fw_ok_def)
      moreover have "learn_feature F K s1 a1 r s2 a2 vec i e = Inr (e\<lparr>fw_knowledges := (fw_knowledges e)[i := Some f']\<rparr>)"
        using Some False f'(1) assms(4,5) by (simp add: learn_feature_def knob_at_def)
      ultimately show ?thesis using Some False f'(1)
        by (intro exI [of _ "e\<lparr>fw_knowledges := (fw_knowledges e)[i := Some f']\<rparr>"]) (auto simp: trained_def)
    qed
  qed
qed

lemma learn_features_ok:
  assumes "fw_ok K e" "a1 < m_actions (fw_base e)" "a2 < m_actions (fw_base e)" "length vec = NumFeatureTypes"
    "distinct is" "\<forall>i\<in>set is. i < NumFeatureTypes"
  shows "\<exists>e'. learn_features F K s1 a1 r s2 a2 vec is e = Inr e' \<and> fw_ok K e' \<and> fw_base e' = fw_base e \<and>
    (\<forall>i<NumFeatureTypes. fw_knowledges e' ! i =
       (if i \<in> set is then trained F K s1 a1 r s2 a2 vec i (fw_knowledges e ! i) else fw_knowledges e ! i))"
  using assms
proof (induction "is" arbitrary: e)
  case Nil
  then show ?case by simp
next
  case (Cons i "is")
  obtain e1 where e1: "learn_feature F K s1 a1 r s2 a2 vec i e = Inr e1" "fw_ok K e1" "fw_base e1 = fw_base e"
    "fw_knowledges e1 = (fw_knowledges e)[i := trained F K s1 a1 r s2 a2 vec i (fw_knowledges e ! i)]"
    using learn_feature_ok [OF Cons.prems(1-4), of i F s1 r s2] Cons.prems(6) by auto
  obtain e2 where e2: "learn_features F K s1 a1 r s2 a2 vec is e1 = Inr e2" "fw_ok K e2" "fw_base e2 = fw_base e1"
    "\<forall>j<NumFeatureTypes. fw_knowledges e2 ! j =
       (if j \<in> set is then trained F K s1 a1 r s2 a2 vec j (fw_knowledges e1 ! j) else fw_knowledges e1 ! j)"
    using Cons.IH [OF e1(2)] Cons.prems e1(3) by auto
  have "length (fw_knowledges e) = NumFeatureTypes" using Cons.prems(1) by (simp add: fw_ok_def)
  then show ?case using e1 e2 Cons.prems(5,6) by (intro exI [of _ e2]) (auto simp: nth_list_update)
qed

lemma trained_None [simp]: "trained F K s1 a1 r s2 a2 vec i x = None \<longleftrightarrow> x = None"
  by (simp add: trained_def split: option.split)

lemma weight_fits:
  "feature_fits K n (Some f) \<Longrightarrow> feature_fits K n (Some (increase_weight F f))"
  "feature_fits K n (Some f) \<Longrightarrow> feature_fits K n (Some (decrease_weight F f))"
  by (auto simp: feature_fits_def feature_ok_def shape_ok_def traceable_def increase_weight_def decrease_weight_def Let_def)

lemma adjust_weights_ok:
  assumes "\<forall>x\<in>set xs. feature_fits K n x" "length vec = length xs" "\<forall>i<length xs. vec ! i \<longrightarrow> xs ! i \<noteq> None"
  shows "\<exists>ys. adjust_weights F ty vec xs = Inr ys \<and> length ys = length xs \<and> (\<forall>y\<in>set ys. feature_fits K n y) \<and>
    (\<forall>i<length xs. (ys ! i = None) = (xs ! i = None))"
  using assms
proof (induction xs arbitrary: vec)
  case Nil
  then show ?case by simp
next
  case (Cons x xs)
  then obtain b bs where vec: "vec = b # bs" by (cases vec) auto
  have tail: "\<forall>i<length xs. bs ! i \<longrightarrow> xs ! i \<noteq> None" using Cons.prems(3) vec by fastforce
  then obtain ys where ys: "adjust_weights F ty bs xs = Inr ys" "length ys = length xs" "\<forall>y\<in>set ys. feature_fits K n y"
    "\<forall>i<length xs. (ys ! i = None) = (xs ! i = None)"
    using Cons.IH [of bs] Cons.prems(1,2) vec by auto
  have "b \<longrightarrow> x \<noteq> None" using Cons.prems(3) vec by fastforce
  then obtain y where "adjust_weight F ty b x = Inr y" "feature_fits K n y" "(y = None) = (x = None)"
    using Cons.prems(1) by (cases b; cases x) (auto simp: adjust_weight_def weight_fits)
  then show ?case using ys vec by (intro exI [of _ "y # ys"]) (auto simp: nth_Cons split: nat.splits)
qed

lemma fw_learn_ok:
  assumes "fw_ok K e" "a1 < m_actions (fw_base e)" "a2 < m_actions (fw_base e)" "vec_fits e vec"
  shows "\<exists>e'. fw_learn F K s1 a1 r s2 a2 vec ty e = Inr e' \<and> fw_ok K e' \<and> fw_base e' = fw_base e \<and>
    (\<forall>v. vec_fits e v \<longrightarrow> vec_fits e' v) \<and>
    (\<not> fw_enable_dynamic_weight K \<longrightarrow>
       (\<forall>i<NumFeatureTypes. fw_knowledges e' ! i = trained F K s1 a1 r s2 a2 vec i (fw_knowledges e ! i)))"
proof -
  let ?e = "e\<lparr>fw_learn_called := fw_learn_called e + 1\<rparr>"
  have b: "m_type (fw_base e) = SARSA" "m_policy (fw_base e) = EGreedy" using assms(1) by (simp_all add: fw_ok_def base_ok_def)
  have ok: "fw_ok K ?e" using assms(1) by (simp add: fw_ok_def)
  have len: "length vec = NumFeatureTypes" using assms(4) by (simp add: vec_fits_def)
  obtain e1 where e1: "learn_features F K s1 a1 r s2 a2 vec [0..<NumFeatureTypes] ?e = Inr e1" "fw_ok K e1" "fw_base e1 = fw_base e"
    "\<forall>i<NumFeatureTypes. fw_knowledges e1 ! i = trained F K s1 a1 r s2 a2 vec i (fw_knowledges e ! i)"
    using learn_features_ok [OF ok _ _ len, of a1 a2 "[0..<NumFeatureTypes]" F s1 r s2] assms(2,3) by auto
  have same: "fw_knowledges e1 ! i \<noteq> None \<longleftrightarrow> fw_knowledges e ! i \<noteq> None" if "i < NumFeatureTypes" for i
    using e1(4) that by simp
  then have fits: "vec_fits e v \<Longrightarrow> vec_fits e1 v" for v by (simp add: vec_fits_def)
  have learn: "fw_learn F K s1 a1 r s2 a2 vec ty e =
      (if fw_enable_dynamic_weight K then adjust_feature_weights F K vec ty e1 else Inr e1)"
    using b e1(1) by (simp add: fw_learn_def Let_def)
  show ?thesis
  proof (cases "fw_enable_dynamic_weight K \<and>
      \<not> (fw_disable_adjust_weight_all_features_align K \<and> length (filter id vec) = length (fw_active_features K))")
    case False
    then have "fw_learn F K s1 a1 r s2 a2 vec ty e = Inr e1" using learn len by (simp add: adjust_feature_weights_def)
    then show ?thesis using e1 fits by (intro exI [of _ e1]) simp
  next
    case True
    have k: "length (fw_knowledges e1) = NumFeatureTypes" "\<forall>x\<in>set (fw_knowledges e1). feature_fits K (m_actions (fw_base e1)) x"
      using e1(2) by (simp_all add: fw_ok_def)
    have "\<forall>i<length (fw_knowledges e1). vec ! i \<longrightarrow> fw_knowledges e1 ! i \<noteq> None"
      using fits [OF assms(4)] k(1) by (simp add: vec_fits_def)
    then obtain ys where ys: "adjust_weights F ty vec (fw_knowledges e1) = Inr ys" "length ys = NumFeatureTypes"
      "\<forall>y\<in>set ys. feature_fits K (m_actions (fw_base e1)) y" "\<forall>i<NumFeatureTypes. (ys ! i = None) = (fw_knowledges e1 ! i = None)"
      using adjust_weights_ok [OF k(2), of vec F ty] len k(1) by auto
    have "fw_learn F K s1 a1 r s2 a2 vec ty e = Inr (e1\<lparr>fw_knowledges := ys\<rparr>)"
      using learn True len ys(1) by (auto simp: adjust_feature_weights_def)
    moreover have "fw_ok K (e1\<lparr>fw_knowledges := ys\<rparr>)" using e1(2) ys(2,3) by (simp add: fw_ok_def)
    moreover have "vec_fits (e1\<lparr>fw_knowledges := ys\<rparr>) v" if "vec_fits e v" for v
      using fits [OF that] ys(4) by (simp add: vec_fits_def)
    ultimately show ?thesis using e1(3) True by (intro exI [of _ "e1\<lparr>fw_knowledges := ys\<rparr>"]) simp
  qed
qed

section \<open>Properties\<close>

text \<open>
  C35: The featurewise engine exploits greedily over the pooled Q-values. When the draw says exploit, the
  chosen action has the greatest pooled value of all actions, or, with the fallback, it is action 0
  because no action has a positive value; and the consensus vector marks exactly the
  active features whose own best action is the chosen one. No feature changes.
\<close>

theorem featurewise_choice_is_best:
  assumes "fw_ok K e" "random_ok R" "weak_order (f_less F)" "\<not> fst (draw_explore R (fw_generator e))"
  shows "\<exists>a vec e'. fw_chooseAction F R K s e = Inr (a, vec, e') \<and> a < m_actions (fw_base e) \<and> fw_ok K e' \<and>
    fw_knowledges e' = fw_knowledges e \<and>
    (\<forall>b<m_actions (fw_base e). \<not> f_less F (if fst (do_fallback K s e) \<and> a = 0 \<and> \<not> f_less F (f_of_int F 0) (pooled F K e s a)
       then f_of_int F 0 else pooled F K e s a) (pooled F K e s b)) \<and>
    (\<forall>i<NumFeatureTypes. vec ! i \<longleftrightarrow>
       (\<exists>f. fw_knowledges e ! i = Some f \<and> fk_getMaxAction F (feature_knobs.truncate K) s f = Inr a))"
proof -
  obtain a vec e' where c: "fw_chooseAction F R K s e = Inr (a, vec, e')" "a < m_actions (fw_base e)" "fw_ok K e'"
    "fw_knowledges e' = fw_knowledges e" "best_pooled F K e s a"
    "\<forall>i<NumFeatureTypes. vec ! i \<longleftrightarrow> (\<exists>f. fw_knowledges e ! i = Some f \<and> fk_getMaxAction F (feature_knobs.truncate K) s f = Inr a)"
    using fw_chooseAction_ok [OF assms(1,2), of F s] assms(3,4) by blast
  have "\<forall>b<m_actions (fw_base e). \<not> f_less F (if fst (do_fallback K s e) \<and> a = 0 \<and> \<not> f_less F (f_of_int F 0) (pooled F K e s a)
       then f_of_int F 0 else pooled F K e s a) (pooled F K e s b)"
  proof (cases "fst (do_fallback K s e)")
    case True
    then consider "a = 0" "\<forall>b<m_actions (fw_base e). \<not> f_less F (f_of_int F 0) (pooled F K e s b)"
      | "f_less F (f_of_int F 0) (pooled F K e s a)" "\<forall>b<m_actions (fw_base e). \<not> f_less F (pooled F K e s a) (pooled F K e s b)"
      using c(5) unfolding best_pooled_def by (simp only: if_True) blast
    then show ?thesis
    proof cases
      case 1
      then have "\<not> f_less F (f_of_int F 0) (pooled F K e s a)" using c(2) by blast
      then show ?thesis using 1 True by simp
    next
      case 2
      then show ?thesis by simp
    qed
  next
    case False
    then show ?thesis using c(5) unfolding best_pooled_def by simp
  qed
  then show ?thesis using c(1-4,6) by blast
qed

definition sample_fw_knobs :: featurewise_knobs where
  "sample_fw_knobs = feature_knobs.extend quiet_knobs
     \<lparr>fw_active_features = [1], fw_num_tilings = [1], fw_num_tiles = [2], fw_hash_types = [1], fw_enable_tiling_offset = [0],
      fw_enable_dynamic_weight = False, fw_disable_adjust_weight_all_features_align = False, fw_selective_update = True,
      fw_pooling_type = 1, fw_enable_dyn_action_fallback = False, fw_bw_acc_check_level = 0, fw_acc_thresh = 0\<rparr>"

definition sample_featurewise :: "(int, unit) featurewise" where
  "sample_featurewise =
     \<lparr>fw_base = \<lparr>m_alpha = 1, m_gamma = 2, m_epsilon = 0, m_actions = 2, m_states = 0, m_seed = 0, m_policy = EGreedy, m_type = SARSA\<rparr>,
      fw_knowledges = (replicate NumFeatureTypes None)[1 := Some sample_feature], fw_max_q_value = 0, fw_generator = (),
      fw_q_value_buckets = [], fw_q_value_histogram = [0], fw_called = 0, fw_explore = 0, fw_exploit = 0,
      fw_dist = replicate MAX_ACTIONS [0, 0], fw_fallback = 0, fw_saved_bw = 0, fw_saved_bw_acc = 0, fw_learn_called = 0,
      fw_su_skip = replicate NumFeatureTypes 0, fw_consensus_total = 0, fw_align_dist = replicate NumFeatureTypes 0, fw_align_all = 0\<rparr>"

lemma sample_fw_truncate: "feature_knobs.truncate sample_fw_knobs = quiet_knobs"
  by (simp add: sample_fw_knobs_def feature_knobs.defs quiet_knobs_def)

lemma sample_featurewise: "fw_ok sample_fw_knobs sample_featurewise"
proof -
  have "fk_actions sample_feature = 2" by (simp add: sample_feature_def)
  then have "\<forall>x\<in>set ((replicate NumFeatureTypes None)[1 := Some sample_feature]). feature_fits sample_fw_knobs 2 x"
    using sample_feature set_update_subset_insert [of "replicate NumFeatureTypes None" 1 "Some sample_feature"]
    by (auto simp: feature_fits_def sample_fw_truncate)
  then show ?thesis
    by (simp add: fw_ok_def sample_featurewise_def base_ok_def dist_ok_def MAX_ACTIONS_def sample_fw_knobs_def feature_knobs.defs)
qed

lemma sample_pooled:
  "a \<in> {0, 1} \<Longrightarrow> pooled int_floats sample_fw_knobs sample_featurewise (State_reset\<lparr>sc_offset := 4\<rparr>) a = (if a = 0 then 1 else 2)"
proof -
  assume a: "a \<in> {0, 1}"
  have "active (fw_knowledges sample_featurewise) = [sample_feature]"
    by (simp add: sample_featurewise_def NumFeatureTypes_def active_def eval_nat_numeral)
  moreover have "get_tile_index sample_feature 0 (State_reset\<lparr>sc_offset := 4\<rparr>) = Inr 0"
    by (simp add: get_tile_index_def sample_feature_def process_offset_def tile_of_def getHash_def)
  then have "tile sample_feature 0 (State_reset\<lparr>sc_offset := 4\<rparr>) = 0" by (simp add: tile_def)
  then have "cell sample_feature 0 (State_reset\<lparr>sc_offset := 4\<rparr>) a = (if a = 0 then 1 else 2)"
    using a by (auto simp: cell_def sample_feature_def)
  moreover have "fk_num_tilings sample_feature = 1" "fk_weight sample_feature = 1" by (simp_all add: sample_feature_def)
  moreover have "fw_pooling_type sample_fw_knobs = 1" by (simp add: sample_fw_knobs_def feature_knobs.defs)
  ultimately show ?thesis by (simp add: pooled_def pool_step_def q_value_def int_floats_def)
qed

theorem featurewise_choice_is_best_witness:
  "\<exists>vec e'. fw_chooseAction int_floats no_exploration sample_fw_knobs (State_reset\<lparr>sc_offset := 4\<rparr>) sample_featurewise = Inr (1, vec, e')"
proof -
  let ?s = "State_reset\<lparr>sc_offset := 4\<rparr>"
  have n: "m_actions (fw_base sample_featurewise) = 2" by (simp add: sample_featurewise_def)
  have "\<not> fst (draw_explore no_exploration (fw_generator sample_featurewise))" by (simp add: no_exploration_def)
  then obtain a vec e' where c: "fw_chooseAction int_floats no_exploration sample_fw_knobs ?s sample_featurewise = Inr (a, vec, e')" "a < 2"
    "\<forall>b<2. \<not> f_less int_floats (if fst (do_fallback sample_fw_knobs ?s sample_featurewise) \<and> a = 0 \<and>
        \<not> f_less int_floats (f_of_int int_floats 0) (pooled int_floats sample_fw_knobs sample_featurewise ?s a)
       then f_of_int int_floats 0 else pooled int_floats sample_fw_knobs sample_featurewise ?s a)
       (pooled int_floats sample_fw_knobs sample_featurewise ?s b)"
    using featurewise_choice_is_best [OF sample_featurewise sample_engine(5,4), of ?s] unfolding n by blast
  have "unat a < 2" using c(2) by (simp add: word_less_nat_alt)
  then have "unat a = unat (0::u32) \<or> unat a = unat (1::u32)" by auto
  then have "a = 0 \<or> a = 1" by (simp only: word_eq_iff_unsigned [where ?'a = nat])
  then have "a = 1" using c(3) [rule_format, of 1] sample_pooled [of 0] sample_pooled [of 1]
    by (auto simp: int_floats_def)
  then show ?thesis using c(1) by blast
qed

text \<open>
  C36: Learning trains the features that took part in the decision. With the weights fixed, a learning step leaves
  every feature that selective update excludes, and every inactive one, as it is, and gives each other feature
  the update of its own table; the engine stays well formed.
\<close>

theorem featurewise_learns_selected:
  assumes "fw_ok K e" "a1 < m_actions (fw_base e)" "a2 < m_actions (fw_base e)" "vec_fits e vec" "\<not> fw_enable_dynamic_weight K"
  shows "\<exists>e'. fw_learn F K s1 a1 r s2 a2 vec ty e = Inr e' \<and> fw_ok K e' \<and>
    (\<forall>i<NumFeatureTypes. case fw_knowledges e ! i of
       None \<Rightarrow> fw_knowledges e' ! i = None
     | Some f \<Rightarrow> if fw_selective_update K \<and> \<not> vec ! i then fw_knowledges e' ! i = Some f
         else \<exists>f'. fk_updateQ F (feature_knobs.truncate K) s1 a1 r s2 a2 f = Inr f' \<and> fw_knowledges e' ! i = Some f')"
proof -
  obtain e' where e': "fw_learn F K s1 a1 r s2 a2 vec ty e = Inr e'" "fw_ok K e'"
    "\<forall>i<NumFeatureTypes. fw_knowledges e' ! i = trained F K s1 a1 r s2 a2 vec i (fw_knowledges e ! i)"
    using fw_learn_ok [OF assms(1-4), of F s1 r s2 ty] assms(5) by blast
  have "case fw_knowledges e ! i of
       None \<Rightarrow> fw_knowledges e' ! i = None
     | Some f \<Rightarrow> if fw_selective_update K \<and> \<not> vec ! i then fw_knowledges e' ! i = Some f
         else \<exists>f'. fk_updateQ F (feature_knobs.truncate K) s1 a1 r s2 a2 f = Inr f' \<and> fw_knowledges e' ! i = Some f'"
    if "i < NumFeatureTypes" for i
  proof (cases "fw_knowledges e ! i")
    case None
    then show ?thesis using e'(3) that by simp
  next
    case (Some f)
    have "fw_knowledges e ! i \<in> set (fw_knowledges e)" using assms(1) that by (simp add: fw_ok_def)
    then have "feature_fits K (m_actions (fw_base e)) (Some f)" using assms(1) Some by (simp add: fw_ok_def)
    then obtain f' where "fk_updateQ F (feature_knobs.truncate K) s1 a1 r s2 a2 f = Inr f'"
      using updateQ_fits assms(2,3) by blast
    then show ?thesis using e'(3) that Some by (auto simp: trained_def)
  qed
  then show ?thesis using e'(1,2) by blast
qed

theorem featurewise_learns_selected_witness:
  "\<exists>e'. fw_learn int_floats sample_fw_knobs State_reset 1 5 State_reset 0 (replicate NumFeatureTypes False) correct_timely sample_featurewise = Inr e' \<and>
    fw_knowledges e' ! 1 = Some sample_feature"
proof -
  have n: "m_actions (fw_base sample_featurewise) = 2" by (simp add: sample_featurewise_def)
  have "\<not> fw_enable_dynamic_weight sample_fw_knobs" "fw_selective_update sample_fw_knobs"
    by (simp_all add: sample_fw_knobs_def feature_knobs.defs)
  moreover have "vec_fits sample_featurewise (replicate NumFeatureTypes False)" by (simp add: vec_fits_def)
  ultimately obtain e' where e': "fw_learn int_floats sample_fw_knobs State_reset 1 5 State_reset 0 (replicate NumFeatureTypes False) correct_timely sample_featurewise = Inr e'"
    "\<forall>i<NumFeatureTypes. case fw_knowledges sample_featurewise ! i of None \<Rightarrow> fw_knowledges e' ! i = None
       | Some f \<Rightarrow> if fw_selective_update sample_fw_knobs \<and> \<not> replicate NumFeatureTypes False ! i then fw_knowledges e' ! i = Some f
           else \<exists>f'. fk_updateQ int_floats (feature_knobs.truncate sample_fw_knobs) State_reset 1 5 State_reset 0 f = Inr f' \<and> fw_knowledges e' ! i = Some f'"
    using featurewise_learns_selected [OF sample_featurewise, of 1 0 "replicate NumFeatureTypes False" int_floats State_reset 5 State_reset correct_timely]
    unfolding n by auto
  moreover have "fw_knowledges sample_featurewise ! 1 = Some sample_feature" "(1::nat) < NumFeatureTypes"
    by (simp_all add: sample_featurewise_def NumFeatureTypes_def)
  ultimately show ?thesis using \<open>fw_selective_update sample_fw_knobs\<close> by (intro exI [of _ e']) (auto dest!: spec [of _ 1])
qed

end
