(* ===== verification/Engine.thy ===== *)
theory Engine
  imports Featurewise
begin

text \<open>
  The learning engine as the prefetcher uses it (\<^verbatim>\<open>predict\<close> and \<^verbatim>\<open>train\<close> of \<^verbatim>\<open>prefetcher/scooby.cc\<close>): one of
  the two engines, chosen by a knob. The engine with one table is asked about the value of the
  state, the featurewise engine about the state itself, and only the latter has a consensus vector.

  The locale states what the prefetcher relies on: a choice and a learning step succeed, a
  choice is an action, and neither changes the number of actions or the features. It is
  interpreted for each of the two engines and for the engine behind the knob.
\<close>

section \<open>The engine behind the knob\<close>

datatype ('f, 'g) brain = Basic "('f, 'g) basic_engine" | Features "('f, 'g) featurewise"

record brain_knobs =
  bk_state :: state_knobs
  bk_basic :: engine_knobs
  bk_featurewise :: featurewise_knobs

definition basic_choose ::
  "'f float_ops \<Rightarrow> 'g random_ops \<Rightarrow> brain_knobs \<Rightarrow> pythia_state \<Rightarrow> ('f, 'g) basic_engine \<Rightarrow> (u32 \<times> bool list \<times> ('f, 'g) basic_engine) res" where
  "basic_choose F R B s e =
     bind_res (state_value (bk_state B) s) (\<lambda>state_index.
       if state_index < scooby_max_states (bk_state B)
       then bind_res (le_chooseAction F R (bk_basic B) state_index e) (\<lambda>(action, e). Inr (action, [], e))
       else Inl Assert_failed)"

definition basic_learn ::
  "'f float_ops \<Rightarrow> brain_knobs \<Rightarrow> pythia_state \<Rightarrow> u32 \<Rightarrow> i32 \<Rightarrow> pythia_state \<Rightarrow> u32 \<Rightarrow> bool list \<Rightarrow> reward_type \<Rightarrow>
   ('f, 'g) basic_engine \<Rightarrow> ('f, 'g) basic_engine res" where
  "basic_learn F B s1 a1 r s2 a2 vec ty e =
     bind_res (state_value (bk_state B) s1) (\<lambda>v1. bind_res (state_value (bk_state B) s2) (\<lambda>v2.
       le_learn F (bk_basic B) v1 a1 r v2 a2 e))"

definition brain_choose ::
  "'f float_ops \<Rightarrow> 'g random_ops \<Rightarrow> brain_knobs \<Rightarrow> pythia_state \<Rightarrow> ('f, 'g) brain \<Rightarrow> (u32 \<times> bool list \<times> ('f, 'g) brain) res" where
  "brain_choose F R B s b =
     (case b of
        Features e \<Rightarrow> bind_res (fw_chooseAction F R (bk_featurewise B) s e) (\<lambda>(action, vec, e). Inr (action, vec, Features e))
      | Basic e \<Rightarrow> bind_res (basic_choose F R B s e) (\<lambda>(action, vec, e). Inr (action, vec, Basic e)))"

definition brain_learn ::
  "'f float_ops \<Rightarrow> brain_knobs \<Rightarrow> pythia_state \<Rightarrow> u32 \<Rightarrow> i32 \<Rightarrow> pythia_state \<Rightarrow> u32 \<Rightarrow> bool list \<Rightarrow> reward_type \<Rightarrow>
   ('f, 'g) brain \<Rightarrow> ('f, 'g) brain res" where
  "brain_learn F B s1 a1 r s2 a2 vec ty b =
     (case b of
        Features e \<Rightarrow> bind_res (fw_learn F (bk_featurewise B) s1 a1 r s2 a2 vec ty e) (\<lambda>e. Inr (Features e))
      | Basic e \<Rightarrow> bind_res (basic_learn F B s1 a1 r s2 a2 vec ty e) (\<lambda>e. Inr (Basic e)))"

section \<open>The interface\<close>

text \<open>
  A consensus vector that fits an engine is one it has handed out, or could have; the
  vectors stored in the prefetch tracker must still fit when they come back.
\<close>

locale learning_engine =
  fixes pick :: "pythia_state \<Rightarrow> 'e \<Rightarrow> (u32 \<times> bool list \<times> 'e) res"
    and learn :: "pythia_state \<Rightarrow> u32 \<Rightarrow> i32 \<Rightarrow> pythia_state \<Rightarrow> u32 \<Rightarrow> bool list \<Rightarrow> reward_type \<Rightarrow> 'e \<Rightarrow> 'e res"
    and ok :: "'e \<Rightarrow> bool"
    and actions :: "'e \<Rightarrow> u32"
    and fits :: "'e \<Rightarrow> bool list \<Rightarrow> bool"
  assumes pick_total: "ok e \<Longrightarrow> \<exists>a vec e'. pick s e = Inr (a, vec, e') \<and> a < actions e \<and> ok e' \<and> actions e' = actions e \<and>
      fits e' vec \<and> (\<forall>v. fits e v \<longrightarrow> fits e' v)"
    and learn_total: "ok e \<Longrightarrow> a1 < actions e \<Longrightarrow> a2 < actions e \<Longrightarrow> fits e vec \<Longrightarrow>
      \<exists>e'. learn s1 a1 r s2 a2 vec ty e = Inr e' \<and> ok e' \<and> actions e' = actions e \<and> (\<forall>v. fits e v \<longrightarrow> fits e' v)"
begin

lemma pick_fault_free: "ok e \<Longrightarrow> pick s e \<noteq> Inl x"
  using pick_total [of e s] by auto

lemma learn_fault_free: "ok e \<Longrightarrow> a1 < actions e \<Longrightarrow> a2 < actions e \<Longrightarrow> fits e vec \<Longrightarrow> learn s1 a1 r s2 a2 vec ty e \<noteq> Inl x"
  using learn_total [of e a1 a2 vec s1 r s2 ty] by auto

end

section \<open>Its implementations\<close>

text \<open>The states of the prefetcher select rows of the table.\<close>

definition state_knobs_ok :: "state_knobs \<Rightarrow> bool" where
  "state_knobs_ok K \<longleftrightarrow> 0 < scooby_max_states K \<and> unat (scooby_state_hash_type K) \<in> hash_types \<and> unat (scooby_state_type K) \<in> {1..6}"

definition basic_brain_ok :: "brain_knobs \<Rightarrow> ('f, 'g) basic_engine \<Rightarrow> bool" where
  "basic_brain_ok B e \<longleftrightarrow> basic_ok e \<and> state_knobs_ok (bk_state B) \<and> m_states (le_base e) = scooby_max_states (bk_state B)"

definition brain_ok :: "brain_knobs \<Rightarrow> ('f, 'g) brain \<Rightarrow> bool" where
  "brain_ok B b = (case b of Basic e \<Rightarrow> basic_brain_ok B e | Features e \<Rightarrow> fw_ok (bk_featurewise B) e)"

definition brain_actions :: "('f, 'g) brain \<Rightarrow> u32" where
  "brain_actions b = (case b of Basic e \<Rightarrow> m_actions (le_base e) | Features e \<Rightarrow> m_actions (fw_base e))"

definition brain_fits :: "('f, 'g) brain \<Rightarrow> bool list \<Rightarrow> bool" where
  "brain_fits b vec = (case b of Basic e \<Rightarrow> True | Features e \<Rightarrow> vec_fits e vec)"

lemma basic_choose_ok:
  assumes "basic_brain_ok B e" "random_ok R"
  shows "\<exists>a e'. basic_choose F R B s e = Inr (a, [], e') \<and> a < m_actions (le_base e) \<and> basic_brain_ok B e' \<and> le_base e' = le_base e"
proof -
  have K: "basic_ok e" "state_knobs_ok (bk_state B)" "m_states (le_base e) = scooby_max_states (bk_state B)"
    using assms(1) by (simp_all add: basic_brain_ok_def)
  obtain v where v: "state_value (bk_state B) s = Inr v" "v < scooby_max_states (bk_state B)"
    using state_value_ok K(2) unfolding state_knobs_ok_def by blast
  obtain a e' where "le_chooseAction F R (bk_basic B) v e = Inr (a, e')" "a < m_actions (le_base e)" "basic_ok e'" "le_base e' = le_base e"
    using le_chooseAction_ok [OF K(1) _ assms(2), of v F "bk_basic B"] v(2) K(3) by auto
  then show ?thesis using v K by (intro exI [of _ a] exI [of _ e']) (simp add: basic_choose_def basic_brain_ok_def)
qed

lemma basic_learn_ok:
  assumes "basic_brain_ok B e" "a1 < m_actions (le_base e)" "a2 < m_actions (le_base e)"
  shows "\<exists>e'. basic_learn F B s1 a1 r s2 a2 vec ty e = Inr e' \<and> basic_brain_ok B e' \<and> le_base e' = le_base e"
proof -
  have K: "basic_ok e" "state_knobs_ok (bk_state B)" "m_states (le_base e) = scooby_max_states (bk_state B)"
    using assms(1) by (simp_all add: basic_brain_ok_def)
  obtain v1 v2 where v: "state_value (bk_state B) s1 = Inr v1" "v1 < scooby_max_states (bk_state B)"
    "state_value (bk_state B) s2 = Inr v2" "v2 < scooby_max_states (bk_state B)"
    using state_value_ok K(2) unfolding state_knobs_ok_def by meson
  obtain e' where "le_learn F (bk_basic B) v1 a1 r v2 a2 e = Inr e'" "basic_ok e'" "le_base e' = le_base e"
    using le_learn_ok [OF K(1), of v1 v2 a1 a2 F "bk_basic B" r] assms(2,3) v K(3) by auto
  then show ?thesis using v K by (intro exI [of _ e']) (simp add: basic_learn_def basic_brain_ok_def)
qed

lemma vec_fits_cong: "fw_knowledges e' = fw_knowledges e \<Longrightarrow> vec_fits e' vec = vec_fits e vec"
  by (simp add: vec_fits_def)

text \<open>The draws are an argument of the interpretations; that they are in range belongs to the invariant.\<close>

interpretation basic_le: learning_engine
  "basic_choose F R B" "basic_learn F B" "\<lambda>e. random_ok R \<and> basic_brain_ok B e" "\<lambda>e. m_actions (le_base e)" "\<lambda>e vec. True"
  for F R B
proof (unfold_locales, goal_cases)
  case (1 e s)
  then show ?case using basic_choose_ok [of B e R F s] by force
next
  case (2 e a1 a2 vec s1 r s2 ty)
  then show ?case using basic_learn_ok [of B e a1 a2 F s1 r s2 vec ty] by force
qed

interpretation features_le: learning_engine
  "\<lambda>s. fw_chooseAction F R W s" "\<lambda>s1 a1 r s2 a2. fw_learn F W s1 a1 r s2 a2" "\<lambda>e. random_ok R \<and> fw_ok W e"
  "\<lambda>e. m_actions (fw_base e)" vec_fits
  for F R W
proof (unfold_locales, goal_cases)
  case (1 e s)
  obtain a vec e' where c: "fw_chooseAction F R W s e = Inr (a, vec, e')" "a < m_actions (fw_base e)" "fw_ok W e'" "fw_base e' = fw_base e"
    "fw_knowledges e' = fw_knowledges e" "vec_fits e vec"
    using fw_chooseAction_ok [of W e R F s] 1 by blast
  then show ?case using 1 vec_fits_cong [OF c(5)] by (intro exI [of _ a] exI [of _ vec] exI [of _ e']) simp
next
  case (2 e a1 a2 vec s1 r s2 ty)
  then obtain e' where "fw_learn F W s1 a1 r s2 a2 vec ty e = Inr e'" "fw_ok W e'" "fw_base e' = fw_base e"
    "\<forall>v. vec_fits e v \<longrightarrow> vec_fits e' v"
    using fw_learn_ok [of W e a1 a2 vec F s1 r s2 ty] by blast
  then show ?case using 2 by (intro exI [of _ e']) simp
qed

interpretation brain_le: learning_engine
  "brain_choose F R B" "brain_learn F B" "\<lambda>b. random_ok R \<and> brain_ok B b" brain_actions brain_fits
  for F R B
proof (unfold_locales, goal_cases)
  case (1 b s)
  show ?case
  proof (cases b)
    case (Basic e)
    obtain a vec e' where "basic_choose F R B s e = Inr (a, vec, e')" "a < m_actions (le_base e)" "basic_brain_ok B e'"
      "m_actions (le_base e') = m_actions (le_base e)"
      using basic_le.pick_total [where R = R and B = B and e = e and F = F and s = s] 1 Basic by (auto simp: brain_ok_def)
    then show ?thesis using 1 Basic
      by (intro exI [of _ a] exI [of _ vec] exI [of _ "Basic e'"])
        (simp add: brain_choose_def brain_ok_def brain_actions_def brain_fits_def)
  next
    case (Features e)
    obtain a vec e' where "fw_chooseAction F R (bk_featurewise B) s e = Inr (a, vec, e')" "a < m_actions (fw_base e)" "fw_ok (bk_featurewise B) e'"
      "m_actions (fw_base e') = m_actions (fw_base e)" "vec_fits e' vec" "\<forall>v. vec_fits e v \<longrightarrow> vec_fits e' v"
      using features_le.pick_total [where R = R and W = "bk_featurewise B" and e = e and F = F and s = s] 1 Features by (auto simp: brain_ok_def)
    then show ?thesis using 1 Features
      by (intro exI [of _ a] exI [of _ vec] exI [of _ "Features e'"])
        (simp add: brain_choose_def brain_ok_def brain_actions_def brain_fits_def)
  qed
next
  case (2 b a1 a2 vec s1 r s2 ty)
  show ?case
  proof (cases b)
    case (Basic e)
    then obtain e' where "basic_learn F B s1 a1 r s2 a2 vec ty e = Inr e'" "basic_brain_ok B e'" "m_actions (le_base e') = m_actions (le_base e)"
      using basic_le.learn_total [where F = F and e = e and ?a1.0 = a1 and ?a2.0 = a2 and vec = vec and ?s1.0 = s1 and ?s2.0 = s2 and r = r and ty = ty and R = R and B = B] 2 by (auto simp: brain_ok_def brain_actions_def)
    then show ?thesis using 2 Basic
      by (intro exI [of _ "Basic e'"]) (simp add: brain_learn_def brain_ok_def brain_actions_def brain_fits_def)
  next
    case (Features e)
    then obtain e' where "fw_learn F (bk_featurewise B) s1 a1 r s2 a2 vec ty e = Inr e'" "fw_ok (bk_featurewise B) e'"
      "m_actions (fw_base e') = m_actions (fw_base e)" "\<forall>v. vec_fits e v \<longrightarrow> vec_fits e' v"
      using features_le.learn_total [where F = F and e = e and ?a1.0 = a1 and ?a2.0 = a2 and vec = vec and ?s1.0 = s1 and ?s2.0 = s2 and r = r and ty = ty and R = R and W = "bk_featurewise B"] 2 by (auto simp: brain_ok_def brain_actions_def brain_fits_def)
    then show ?thesis using 2 Features
      by (intro exI [of _ "Features e'"]) (simp add: brain_learn_def brain_ok_def brain_actions_def brain_fits_def)
  qed
qed

end
