(* ===== verification/Scooby.thy ===== *)
theory Scooby
  imports Engine
begin

text \<open>
  The Pythia prefetcher (\<^verbatim>\<open>prefetcher/scooby.cc\<close>, \<^verbatim>\<open>inc/scooby.h\<close>): the signature table, the
  queue of recent decisions that are waiting for their reward, and the loop of reward,
  prediction and training around the learning engine.

  The engine is a parameter \<open>E\<close> with the two operations the code calls, and the state holds
  whatever the engine's state is; \<^verbatim>\<open>Engine\<close> says what may be plugged in. A pointer into the
  tracker is an index, or the last entry for the one that \<^verbatim>\<open>track\<close> has just
  pushed. The state of a decision is copied, where the code hands the same object to both entries that it
  makes when \<^verbatim>\<open>scooby_enable_track_multiple\<close> and \<^verbatim>\<open>scooby_enable_reward_tracker_hit\<close> are both on. Left out are
  the printed statistics and configuration and the unused \<^verbatim>\<open>target_action_state\<close>.
\<close>

section \<open>Data\<close>

record scooby_knobs = state_knobs +
  scooby_actions :: "i32 list"
  scooby_max_actions :: u32
  scooby_pt_size :: u32
  scooby_st_size :: u32
  scooby_reward_none :: i32
  scooby_reward_incorrect :: i32
  scooby_reward_correct_untimely :: i32
  scooby_reward_correct_timely :: i32
  scooby_reward_out_of_bounds :: i32
  scooby_reward_tracker_hit :: i32
  scooby_enable_reward_all :: bool
  scooby_enable_track_multiple :: bool
  scooby_enable_reward_out_of_bounds :: bool
  scooby_enable_reward_tracker_hit :: bool
  scooby_access_debug :: bool
  scooby_enable_state_action_stats :: bool
  scooby_enable_featurewise_engine :: bool
  scooby_pref_degree :: u32
  scooby_enable_dyn_degree :: bool
  scooby_num_max_to_avg_q_thresholds :: nat
  scooby_dyn_degrees :: "i32 list"
  scooby_multi_deg_select_type :: u32
  scooby_last_pref_offset_conf_thresholds :: "i32 list"
  scooby_dyn_degrees_type2 :: "i32 list"
  scooby_high_bw_thresh :: u32
  scooby_enable_hbw_reward :: bool
  scooby_reward_hbw_correct_timely :: i32
  scooby_reward_hbw_correct_untimely :: i32
  scooby_reward_hbw_incorrect :: i32
  scooby_reward_hbw_none :: i32
  scooby_reward_hbw_out_of_bounds :: i32
  scooby_reward_hbw_tracker_hit :: i32
  scooby_last_pref_offset_conf_thresholds_hbw :: "i32 list"
  scooby_dyn_degrees_type2_hbw :: "i32 list"

text \<open>Of the thresholds of type \<^verbatim>\<open>float\<close> only the number is used.\<close>

record pt_entry =
  pte_address :: u64
  pte_state :: pythia_state
  pte_action_index :: u32
  pte_is_filled :: bool
  pte_pf_cache_hit :: bool
  pte_reward :: i32
  pte_reward_type :: reward_type
  pte_has_reward :: bool
  pte_consensus_vec :: "bool list"

definition Scooby_PTEntry :: "u64 \<Rightarrow> pythia_state \<Rightarrow> u32 \<Rightarrow> pt_entry" where
  "Scooby_PTEntry ad st ac =
     \<lparr>pte_address = ad, pte_state = st, pte_action_index = ac, pte_is_filled = False, pte_pf_cache_hit = False,
      pte_reward = 0, pte_reward_type = none, pte_has_reward = False, pte_consensus_vec = []\<rparr>"

record scooby_stats =
  sbs_st_lookup :: u64
  sbs_st_hit :: u64
  sbs_st_evict :: u64
  sbs_st_insert :: u64
  sbs_predict_called :: u64
  sbs_out_of_bounds :: u64
  sbs_action_dist :: "u64 list"
  sbs_issue_dist :: "u64 list"
  sbs_pred_hit :: "u64 list"
  sbs_out_of_bounds_dist :: "u64 list"
  sbs_predicted :: u64
  sbs_multi_deg :: u64
  sbs_multi_deg_called :: u64
  sbs_multi_deg_histogram :: "u64 list"
  sbs_deg_histogram :: "u64 list"
  sbs_track_called :: u64
  sbs_track_same_address :: u64
  sbs_track_evict :: u64
  sbs_demand_called :: u64
  sbs_pt_not_found :: u64
  sbs_pt_found :: u64
  sbs_pt_found_total :: u64
  sbs_demand_has_reward :: u64
  sbs_train_reward_called :: u64
  sbs_assign_called :: u64
  sbs_compute_dist :: "u64 list list"
  sbs_correct_timely :: u64
  sbs_correct_untimely :: u64
  sbs_no_pref :: u64
  sbs_incorrect :: u64
  sbs_reward_out_of_bounds :: u64
  sbs_tracker_hit :: u64
  sbs_reward_dist :: "u64 list list"
  sbs_train_called :: u64
  sbs_train_compute_reward :: u64
  sbs_fill_called :: u64
  sbs_fill_set :: u64
  sbs_fill_set_total :: u64
  sbs_hit_called :: u64
  sbs_hit_set :: u64
  sbs_hit_set_total :: u64
  sbs_issued :: u64
  sbs_bw_epochs :: u64
  sbs_bw_histogram :: "u64 list"
  sbs_ipc_epochs :: u64
  sbs_ipc_histogram :: "u64 list"
  sbs_acc_epochs :: u64
  sbs_acc_histogram :: "u64 list"

definition MAX_REWARDS :: nat where "MAX_REWARDS = 16"
definition MAX_SCOOBY_DEGREE :: nat where "MAX_SCOOBY_DEGREE = 16"
definition SCOOBY_MAX_IPC_LEVEL :: nat where "SCOOBY_MAX_IPC_LEVEL = 4"
definition DRAM_BW_LEVELS :: nat where "DRAM_BW_LEVELS = 4"
definition SCOOBY_ACC_LEVELS :: nat where "SCOOBY_ACC_LEVELS = 10"

record 'e scooby =
  sb_actions :: "i32 list"
  sb_signature_table :: "st_entry list"
  sb_brain :: 'e
  sb_prefetch_tracker :: "pt_entry list"
  sb_last_evicted :: "pt_entry option"
  sb_bw_level :: u8
  sb_core_ipc :: u8
  sb_acc_level :: u32
  sb_recorder :: scooby_recorder
  sb_stats :: scooby_stats
  sb_state_action_dist :: "u32 \<Rightarrow> u64 list option"
  sb_state_action_dist2 :: "string \<Rightarrow> u64 list option"
  sb_action_deg_dist :: "i32 \<Rightarrow> u64 list option"

text \<open>\<^verbatim>\<open>stats.f++\<close>, and \<^verbatim>\<open>t[i]++\<close> on an array of counters.\<close>

definition count :: "((u64 \<Rightarrow> u64) \<Rightarrow> scooby_stats \<Rightarrow> scooby_stats) \<Rightarrow> 'e scooby \<Rightarrow> 'e scooby" where
  "count upd S = S\<lparr>sb_stats := upd (\<lambda>n. n + 1) (sb_stats S)\<rparr>"

definition bump1 :: "nat \<Rightarrow> u64 list \<Rightarrow> u64 list res" where
  "bump1 i t = (if i < length t then Inr (t[i := t ! i + 1]) else Inl Out_of_bounds)"

definition bump_stat ::
  "(scooby_stats \<Rightarrow> u64 list) \<Rightarrow> ((u64 list \<Rightarrow> u64 list) \<Rightarrow> scooby_stats \<Rightarrow> scooby_stats) \<Rightarrow> nat \<Rightarrow> 'e scooby \<Rightarrow> 'e scooby res" where
  "bump_stat get upd i S = bind_res (bump1 i (get (sb_stats S))) (\<lambda>t. Inr (S\<lparr>sb_stats := upd (\<lambda>_. t) (sb_stats S)\<rparr>))"

definition bump_stat2 ::
  "(scooby_stats \<Rightarrow> u64 list list) \<Rightarrow> ((u64 list list \<Rightarrow> u64 list list) \<Rightarrow> scooby_stats \<Rightarrow> scooby_stats) \<Rightarrow> nat \<Rightarrow> nat \<Rightarrow> 'e scooby \<Rightarrow> 'e scooby res" where
  "bump_stat2 get upd i j S = bind_res (bump2 i j (get (sb_stats S))) (\<lambda>t. Inr (S\<lparr>sb_stats := upd (\<lambda>_. t) (sb_stats S)\<rparr>))"

text \<open>The learning engine as the prefetcher calls it.\<close>

record 'e engine_ops =
  eng_choose :: "pythia_state \<Rightarrow> 'e \<Rightarrow> (u32 \<times> bool list \<times> 'e) res"
  eng_learn :: "pythia_state \<Rightarrow> u32 \<Rightarrow> i32 \<Rightarrow> pythia_state \<Rightarrow> u32 \<Rightarrow> bool list \<Rightarrow> reward_type \<Rightarrow> 'e \<Rightarrow> 'e res"

section \<open>Construction\<close>

text \<open>
  The knobs are checked and, for debugging, three of them overwritten. \<^verbatim>\<open>std::copy\<close> writes past
  the vector when there are more actions than \<^verbatim>\<open>scooby_max_actions\<close>.
\<close>

definition scooby_init_knobs :: "scooby_knobs \<Rightarrow> (i32 list \<times> scooby_knobs) res" where
  "scooby_init_knobs K =
     (let n = unat (scooby_max_actions K) in
      if n < length (scooby_actions K) then Inl Out_of_bounds
      else if \<not> n \<le> MAX_ACTIONS then Inl Assert_failed
      else
        let Actions = scooby_actions K @ replicate (n - length (scooby_actions K)) 0;
            K = (if scooby_access_debug K
                 then K\<lparr>scooby_max_pcs := 1024, scooby_max_offsets := 1024, scooby_max_deltas := 1024\<rparr> else K)
        in if \<not> (scooby_pref_degree K \<ge> 1 \<and> (scooby_pref_degree K = 1 \<or> \<not> scooby_enable_dyn_degree K)) then Inl Assert_failed
           else if \<not> (scooby_dyn_degrees K \<noteq> [] \<and> scooby_num_max_to_avg_q_thresholds K = length (scooby_dyn_degrees K) - 1) then Inl Assert_failed
           else if \<not> (scooby_dyn_degrees_type2 K \<noteq> [] \<and>
                length (scooby_last_pref_offset_conf_thresholds K) = length (scooby_dyn_degrees_type2 K) - 1) then Inl Assert_failed
           else Inr (Actions, K))"

definition scooby_init_stats :: "scooby_knobs \<Rightarrow> scooby_stats" where
  "scooby_init_stats K =
     (let z = replicate (unat (scooby_max_actions K)) 0 in
      \<lparr>sbs_st_lookup = 0, sbs_st_hit = 0, sbs_st_evict = 0, sbs_st_insert = 0, sbs_predict_called = 0, sbs_out_of_bounds = 0,
       sbs_action_dist = z, sbs_issue_dist = z, sbs_pred_hit = z, sbs_out_of_bounds_dist = z, sbs_predicted = 0,
       sbs_multi_deg = 0, sbs_multi_deg_called = 0, sbs_multi_deg_histogram = replicate (MAX_SCOOBY_DEGREE + 1) 0,
       sbs_deg_histogram = replicate (MAX_SCOOBY_DEGREE + 1) 0, sbs_track_called = 0, sbs_track_same_address = 0, sbs_track_evict = 0,
       sbs_demand_called = 0, sbs_pt_not_found = 0, sbs_pt_found = 0, sbs_pt_found_total = 0, sbs_demand_has_reward = 0,
       sbs_train_reward_called = 0, sbs_assign_called = 0, sbs_compute_dist = replicate MAX_REWARDS [0, 0],
       sbs_correct_timely = 0, sbs_correct_untimely = 0, sbs_no_pref = 0, sbs_incorrect = 0, sbs_reward_out_of_bounds = 0, sbs_tracker_hit = 0,
       sbs_reward_dist = replicate MAX_ACTIONS (replicate MAX_REWARDS 0), sbs_train_called = 0, sbs_train_compute_reward = 0,
       sbs_fill_called = 0, sbs_fill_set = 0, sbs_fill_set_total = 0, sbs_hit_called = 0, sbs_hit_set = 0, sbs_hit_set_total = 0,
       sbs_issued = 0, sbs_bw_epochs = 0, sbs_bw_histogram = replicate DRAM_BW_LEVELS 0, sbs_ipc_epochs = 0,
       sbs_ipc_histogram = replicate SCOOBY_MAX_IPC_LEVEL 0, sbs_acc_epochs = 0, sbs_acc_histogram = replicate SCOOBY_ACC_LEVELS 0\<rparr>)"

text \<open>
  The constructor, given the construction of the engine. \<open>raw_acc\<close> and \<open>raw\<close> are what the memory holds for
  \<^verbatim>\<open>acc_level\<close> and for the counters of the recorder, which nothing initialises.
\<close>

definition Scooby_init :: "(scooby_knobs \<Rightarrow> 'e res) \<Rightarrow> u32 \<Rightarrow> scooby_recorder \<Rightarrow> scooby_knobs \<Rightarrow> (scooby_knobs \<times> 'e scooby) res" where
  "Scooby_init mk_brain raw_acc raw K =
     bind_res (scooby_init_knobs K) (\<lambda>(Actions, K).
     bind_res (mk_brain K) (\<lambda>b.
       Inr (K, \<lparr>sb_actions = Actions, sb_signature_table = [], sb_brain = b, sb_prefetch_tracker = [], sb_last_evicted = None,
          sb_bw_level = 0, sb_core_ipc = 0, sb_acc_level = raw_acc,
          sb_recorder = raw\<lparr>rec_unique_pcs := {}, rec_unique_trigger_pcs := {}, rec_unique_pages := {}, rec_access_bitmap_dist := (\<lambda>_. None)\<rparr>,
          sb_stats = scooby_init_stats K, sb_state_action_dist = (\<lambda>_. None), sb_state_action_dist2 = (\<lambda>_. None),
          sb_action_deg_dist = (\<lambda>_. None)\<rparr>)))"

section \<open>Rewards\<close>

definition is_high_bw :: "scooby_knobs \<Rightarrow> 'e scooby \<Rightarrow> bool" where
  "is_high_bw K S \<longleftrightarrow> ucast (sb_bw_level S) \<ge> scooby_high_bw_thresh K"

definition search_pt :: "u64 \<Rightarrow> bool \<Rightarrow> pt_entry list \<Rightarrow> nat list" where
  "search_pt address search_all pt =
     (let found = filter (\<lambda>i. pte_address (pt ! i) = address) [0..<length pt] in if search_all then found else take 1 found)"

definition reward_of :: "scooby_knobs \<Rightarrow> bool \<Rightarrow> reward_type \<Rightarrow> i32" where
  "reward_of K high_bw ty =
     (case ty of
        correct_timely \<Rightarrow> if high_bw then scooby_reward_hbw_correct_timely K else scooby_reward_correct_timely K
      | correct_untimely \<Rightarrow> if high_bw then scooby_reward_hbw_correct_untimely K else scooby_reward_correct_untimely K
      | incorrect \<Rightarrow> if high_bw then scooby_reward_hbw_incorrect K else scooby_reward_incorrect K
      | none \<Rightarrow> if high_bw then scooby_reward_hbw_none K else scooby_reward_none K
      | out_of_bounds \<Rightarrow> if high_bw then scooby_reward_hbw_out_of_bounds K else scooby_reward_out_of_bounds K
      | tracker_hit \<Rightarrow> if high_bw then scooby_reward_hbw_tracker_hit K else scooby_reward_tracker_hit K)"

definition compute_reward :: "scooby_knobs \<Rightarrow> reward_type \<Rightarrow> 'e scooby \<Rightarrow> (i32 \<times> 'e scooby) res" where
  "compute_reward K ty S =
     (let high_bw = (scooby_enable_hbw_reward K \<and> is_high_bw K S) in
      bind_res (bump_stat2 sbs_compute_dist sbs_compute_dist_update (reward_code ty) (of_bool high_bw) S) (\<lambda>S.
        Inr (reward_of K high_bw ty, S)))"

definition count_reward :: "reward_type \<Rightarrow> 'e scooby \<Rightarrow> 'e scooby" where
  "count_reward ty =
     (case ty of
        correct_timely \<Rightarrow> count sbs_correct_timely_update
      | correct_untimely \<Rightarrow> count sbs_correct_untimely_update
      | incorrect \<Rightarrow> count sbs_incorrect_update
      | none \<Rightarrow> count sbs_no_pref_update
      | out_of_bounds \<Rightarrow> count sbs_reward_out_of_bounds_update
      | tracker_hit \<Rightarrow> count sbs_tracker_hit_update)"

definition assign_reward :: "scooby_knobs \<Rightarrow> reward_type \<Rightarrow> pt_entry \<Rightarrow> 'e scooby \<Rightarrow> (pt_entry \<times> 'e scooby) res" where
  "assign_reward K ty p S =
     (if pte_has_reward p then Inl Assert_failed
      else
        bind_res (compute_reward K ty S) (\<lambda>(reward, S).
          let p = p\<lparr>pte_reward := reward, pte_reward_type := ty, pte_has_reward := True\<rparr>;
              S = count_reward ty (count sbs_assign_called_update S)
          in bind_res (bump_stat2 sbs_reward_dist sbs_reward_dist_update (unat (pte_action_index p)) (reward_code ty) S) (\<lambda>S. Inr (p, S))))"

text \<open>The entries found for a demand access, in turn; the first that has its reward ends the loop.\<close>

primrec reward_entries :: "scooby_knobs \<Rightarrow> nat list \<Rightarrow> 'e scooby \<Rightarrow> 'e scooby res" where
  "reward_entries K [] S = Inr S"
| "reward_entries K (i # is) S =
     (let S = count sbs_pt_found_total_update S; p = sb_prefetch_tracker S ! i in
      if pte_has_reward p then Inr (count sbs_demand_has_reward_update S)
      else
        bind_res (assign_reward K (if pte_is_filled p then correct_timely else correct_untimely) p S) (\<lambda>(p, S).
          reward_entries K is (S\<lparr>sb_prefetch_tracker := (sb_prefetch_tracker S)[i := p\<lparr>pte_has_reward := True\<rparr>]\<rparr>)))"

definition reward_demand :: "scooby_knobs \<Rightarrow> u64 \<Rightarrow> 'e scooby \<Rightarrow> 'e scooby res" where
  "reward_demand K address S =
     (let S = count sbs_demand_called_update S;
          found = search_pt address (scooby_enable_reward_all K) (sb_prefetch_tracker S)
      in if found = [] then Inr (count sbs_pt_not_found_update S)
         else reward_entries K found (count sbs_pt_found_update S))"

text \<open>An entry that leaves the tracker without a reward: \<^verbatim>\<open>0xdeadbeef\<close> stands for no prefetch.\<close>

definition reward_evicted :: "scooby_knobs \<Rightarrow> pt_entry \<Rightarrow> 'e scooby \<Rightarrow> (pt_entry \<times> 'e scooby) res" where
  "reward_evicted K p S =
     (let S = count sbs_train_reward_called_update S in
      if pte_has_reward p then Inl Assert_failed
      else
        bind_res (assign_reward K (if pte_address p = 0xdeadbeef then none else incorrect) p S) (\<lambda>(p, S).
          Inr (p\<lparr>pte_has_reward := True\<rparr>, S)))"

section \<open>Training and tracking\<close>

definition train :: "'e engine_ops \<Rightarrow> scooby_knobs \<Rightarrow> pt_entry \<Rightarrow> pt_entry \<Rightarrow> 'e scooby \<Rightarrow> 'e scooby res" where
  "train E K curr_evicted last_evicted S =
     (let S = count sbs_train_called_update S in
      bind_res (if \<not> pte_has_reward last_evicted then reward_evicted K last_evicted (count sbs_train_compute_reward_update S)
                else Inr (last_evicted, S)) (\<lambda>(last_evicted, S).
        if \<not> pte_has_reward last_evicted then Inl Assert_failed
        else
          bind_res (eng_learn E (pte_state last_evicted) (pte_action_index last_evicted) (pte_reward last_evicted)
              (pte_state curr_evicted) (pte_action_index curr_evicted) (pte_consensus_vec last_evicted) (pte_reward_type last_evicted) (sb_brain S)) (\<lambda>b.
            Inr (S\<lparr>sb_brain := b\<rparr>))))"

definition evict_tracked :: "'e engine_ops \<Rightarrow> scooby_knobs \<Rightarrow> 'e scooby \<Rightarrow> 'e scooby res" where
  "evict_tracked E K S =
     (let S = count sbs_track_evict_update S in
      case sb_prefetch_tracker S of
        [] \<Rightarrow> Inl Out_of_bounds
      | p # ps \<Rightarrow>
          let S = S\<lparr>sb_prefetch_tracker := ps\<rparr> in
          bind_res (case sb_last_evicted S of None \<Rightarrow> Inr S | Some l \<Rightarrow> train E K p l S) (\<lambda>S.
            Inr (S\<lparr>sb_last_evicted := Some p\<rparr>)))"

text \<open>Whether the address is new, and whether an entry was pushed for it.\<close>

definition track :: "'e engine_ops \<Rightarrow> scooby_knobs \<Rightarrow> u64 \<Rightarrow> pythia_state \<Rightarrow> u32 \<Rightarrow> 'e scooby \<Rightarrow> (bool \<times> bool \<times> 'e scooby) res" where
  "track E K address st action_index S =
     (let S = count sbs_track_called_update S;
          new_addr = (search_pt address False (sb_prefetch_tracker S) = [])
      in if \<not> new_addr \<and> address \<noteq> 0xdeadbeef \<and> \<not> scooby_enable_track_multiple K
         then Inr (new_addr, False, count sbs_track_same_address_update S)
         else
           bind_res (if unat (scooby_pt_size K) \<le> length (sb_prefetch_tracker S) then evict_tracked E K S else Inr S) (\<lambda>S.
             let S = S\<lparr>sb_prefetch_tracker := sb_prefetch_tracker S @ [Scooby_PTEntry address st action_index]\<rparr> in
             if length (sb_prefetch_tracker S) \<le> unat (scooby_pt_size K) then Inr (new_addr, True, S) else Inl Assert_failed))"

text \<open>Writes through the pointer that \<^verbatim>\<open>track\<close> has set, or not.\<close>

definition set_consensus :: "bool \<Rightarrow> bool list \<Rightarrow> 'e scooby \<Rightarrow> 'e scooby res" where
  "set_consensus pushed vec S =
     (if pushed
      then Inr (S\<lparr>sb_prefetch_tracker := butlast (sb_prefetch_tracker S) @ [(last (sb_prefetch_tracker S))\<lparr>pte_consensus_vec := vec\<rparr>]\<rparr>)
      else Inl Null_pointer)"

definition reward_pushed :: "scooby_knobs \<Rightarrow> reward_type \<Rightarrow> bool \<Rightarrow> 'e scooby \<Rightarrow> 'e scooby res" where
  "reward_pushed K ty pushed S =
     (if \<not> pushed then Inl Assert_failed
      else
        bind_res (assign_reward K ty (last (sb_prefetch_tracker S)) S) (\<lambda>(p, S).
          Inr (S\<lparr>sb_prefetch_tracker := butlast (sb_prefetch_tracker S) @ [p]\<rparr>)))"

section \<open>Prediction\<close>

text \<open>The entry of a page becomes the most recent one; a full table drops its oldest entry. \<open>raw\<close> is the uninitialised counter of a new entry.\<close>

definition update_local_state ::
  "u32 \<Rightarrow> scooby_knobs \<Rightarrow> u64 \<Rightarrow> u64 \<Rightarrow> u32 \<Rightarrow> 'e scooby \<Rightarrow> (st_entry \<times> 'e scooby) res" where
  "update_local_state raw K pc page off S =
     (let S = count sbs_st_lookup_update S in
      case find (\<lambda>s. ste_page s = page) (sb_signature_table S) of
        Some s \<Rightarrow>
          let S = count sbs_st_hit_update S in
          bind_res (ste_update (state_knobs.truncate K) page pc off s) (\<lambda>s.
            Inr (s, S\<lparr>sb_signature_table := erase_first (\<lambda>s. ste_page s = page) (sb_signature_table S) @ [s]\<rparr>))
      | None \<Rightarrow>
          bind_res
            (if unat (scooby_st_size K) \<le> length (sb_signature_table S) then
               let S = count sbs_st_evict_update S in
               case sb_signature_table S of
                 [] \<Rightarrow> Inl Out_of_bounds
               | s # ss \<Rightarrow>
                   let S = S\<lparr>sb_signature_table := ss\<rparr> in
                   if scooby_access_debug K
                   then bind_res (record_access_knowledge s (sb_recorder S)) (\<lambda>r. Inr (S\<lparr>sb_recorder := r\<rparr>))
                   else Inr S
             else Inr S) (\<lambda>S.
          let S = count sbs_st_insert_update S in
          bind_res (Scooby_STEntry raw page pc off) (\<lambda>s.
            Inr (s, S\<lparr>sb_recorder := record_trigger_access pc (sb_recorder S), sb_signature_table := sb_signature_table S @ [s]\<rparr>))))"

text \<open>The degree by the confidence of the action on the page: the first threshold it does not exceed.\<close>

fun first_threshold :: "i32 \<Rightarrow> i32 list \<Rightarrow> nat \<Rightarrow> nat option" where
  "first_threshold conf [] i = None"
| "first_threshold conf (t # ts) i = (if sint conf \<le> sint t then Some i else first_threshold conf ts (i + 1))"

definition get_dyn_pref_degree :: "scooby_knobs \<Rightarrow> u64 \<Rightarrow> i32 \<Rightarrow> 'e scooby \<Rightarrow> u32 res" where
  "get_dyn_pref_degree K page action S =
     (if scooby_multi_deg_select_type K = 2 then
        case find (\<lambda>s. ste_page s = page) (sb_signature_table S) of
          None \<Rightarrow> Inr 1
        | Some s \<Rightarrow>
            let conf_thresholds = (if is_high_bw K S then scooby_last_pref_offset_conf_thresholds_hbw K else scooby_last_pref_offset_conf_thresholds K);
                deg_normal = (if is_high_bw K S then scooby_dyn_degrees_type2_hbw K else scooby_dyn_degrees_type2 K);
                (found, conf) = search_action_tracker action s
            in if found then
                 case first_threshold conf conf_thresholds 0 of
                   Some i \<Rightarrow> knob_at deg_normal i
                 | None \<Rightarrow> if deg_normal = [] then Inl Out_of_bounds else Inr (last deg_normal)
               else Inr 1
      else Inr 1)"

text \<open>The counters of actions per state.\<close>

definition update_stats_index :: "scooby_knobs \<Rightarrow> u32 \<Rightarrow> u32 \<Rightarrow> 'e scooby \<Rightarrow> 'e scooby res" where
  "update_stats_index K st action_index S =
     (let t = (case sb_state_action_dist S st of Some t \<Rightarrow> t | None \<Rightarrow> replicate (unat (scooby_max_actions K)) 0) in
      bind_res (bump1 (unat action_index) t) (\<lambda>t. Inr (S\<lparr>sb_state_action_dist := (sb_state_action_dist S)(st \<mapsto> t)\<rparr>)))"

definition state_string :: "pythia_state \<Rightarrow> string" where
  "state_string s = digits 16 (unat (sc_pc s)) @ ''|'' @ digits 10 (unat (sc_offset s)) @ ''|'' @ decimal (sc_delta s)"

definition getAction :: "u32 \<Rightarrow> 'e scooby \<Rightarrow> i32 res" where
  "getAction action_index S =
     (if unat action_index < length (sb_actions S) then Inr (sb_actions S ! unat action_index) else Inl Assert_failed)"

definition update_stats_state :: "scooby_knobs \<Rightarrow> pythia_state \<Rightarrow> u32 \<Rightarrow> u32 \<Rightarrow> 'e scooby \<Rightarrow> 'e scooby res" where
  "update_stats_state K st action_index degree S =
     (let str = state_string st; n = unat (scooby_max_actions K);
          t = (case sb_state_action_dist2 S str of Some t \<Rightarrow> t | None \<Rightarrow> replicate (n + 1) 0)
      in bind_res (bump1 (unat action_index) t) (\<lambda>t. bind_res (bump1 n t) (\<lambda>t.
         let S = S\<lparr>sb_state_action_dist2 := (sb_state_action_dist2 S)(str \<mapsto> t)\<rparr> in
         bind_res (getAction action_index S) (\<lambda>a.
           let d = (case sb_action_deg_dist S a of Some d \<Rightarrow> d | None \<Rightarrow> replicate MAX_SCOOBY_DEGREE 0) in
           bind_res (bump1 (unat degree) d) (\<lambda>d. Inr (S\<lparr>sb_action_deg_dist := (sb_action_deg_dist S)(a \<mapsto> d)\<rparr>))))))"

definition track_in_st :: "scooby_knobs \<Rightarrow> u64 \<Rightarrow> u32 \<Rightarrow> i32 \<Rightarrow> 'e scooby \<Rightarrow> 'e scooby res" where
  "track_in_st K page pred_offset pref_offset S =
     (case find (\<lambda>s. ste_page s = page) (sb_signature_table S) of
        None \<Rightarrow> Inr S
      | Some s \<Rightarrow>
          bind_res (track_prefetch (state_knobs.truncate K) pred_offset pref_offset s) (\<lambda>s.
            Inr (S\<lparr>sb_signature_table := update_first (\<lambda>s. ste_page s = page) (\<lambda>_. s) (sb_signature_table S)\<rparr>)))"

text \<open>The further lines along the action, for the degrees from 2.\<close>

primrec degree_loop :: "u64 \<Rightarrow> u32 \<Rightarrow> i32 \<Rightarrow> nat list \<Rightarrow> 'e scooby \<Rightarrow> (u64 list \<times> 'e scooby) res" where
  "degree_loop page off action [] S = Inr ([], S)"
| "degree_loop page off action (d # ds) S =
     (let predicted_offset = off + of_nat d * action in
      if in_page_offset predicted_offset then
        bind_res (bump_stat sbs_multi_deg_histogram sbs_multi_deg_histogram_update d (count sbs_multi_deg_update S)) (\<lambda>S.
        bind_res (degree_loop page off action ds S) (\<lambda>(out, S). Inr (line_address page predicted_offset # out, S)))
      else degree_loop page off action ds S)"

definition gen_multi_degree_pref :: "u64 \<Rightarrow> u32 \<Rightarrow> i32 \<Rightarrow> u32 \<Rightarrow> 'e scooby \<Rightarrow> (u64 list \<times> 'e scooby) res" where
  "gen_multi_degree_pref page off action pref_degree S =
     (let S = count sbs_multi_deg_called_update S in
      if action \<noteq> 0 then degree_loop page off action [2..<Suc (unat pref_degree)] S else Inr ([], S))"

text \<open>The engine's choice, with the degree and the statistics that depend on the kind of engine.\<close>

definition choose_action ::
  "'e engine_ops \<Rightarrow> scooby_knobs \<Rightarrow> u64 \<Rightarrow> pythia_state \<Rightarrow> 'e scooby \<Rightarrow> (u32 \<times> u32 \<times> bool list \<times> 'e scooby) res" where
  "choose_action E K page st S =
     bind_res (eng_choose E st (sb_brain S)) (\<lambda>(action_index, vec, b).
     let S = S\<lparr>sb_brain := b\<rparr> in
     if scooby_enable_featurewise_engine K then
       bind_res (if scooby_enable_dyn_degree K
                 then if unat action_index < length (sb_actions S)
                      then get_dyn_pref_degree K page (sb_actions S ! unat action_index) S else Inl Out_of_bounds
                 else Inr (scooby_pref_degree K)) (\<lambda>pref_degree.
       bind_res (if scooby_enable_state_action_stats K then update_stats_state K st action_index pref_degree S else Inr S) (\<lambda>S.
         Inr (action_index, pref_degree, vec, S)))
     else
       bind_res (if scooby_enable_state_action_stats K
                 then bind_res (state_value (state_knobs.truncate K) st) (\<lambda>state_index. update_stats_index K state_index action_index S)
                 else Inr S) (\<lambda>S.
         Inr (action_index, scooby_pref_degree K, vec, S)))"

text \<open>The prefetch of a line of the page, new or already tracked.\<close>

definition issue_prefetch ::
  "'e engine_ops \<Rightarrow> scooby_knobs \<Rightarrow> u64 \<Rightarrow> u32 \<Rightarrow> pythia_state \<Rightarrow> u32 \<Rightarrow> i32 \<Rightarrow> u32 \<Rightarrow> bool list \<Rightarrow> 'e scooby \<Rightarrow> (u64 list \<times> 'e scooby) res" where
  "issue_prefetch E K page off st action_index action pref_degree vec S =
     (let predicted_offset = off + action; addr = line_address page predicted_offset in
      bind_res (track E K addr st action_index S) (\<lambda>(new_addr, pushed, S).
        if new_addr then
          bind_res (track_in_st K page predicted_offset action S) (\<lambda>S.
          bind_res (bump_stat sbs_issue_dist sbs_issue_dist_update (unat action_index) S) (\<lambda>S.
          bind_res (if pref_degree > 1 then gen_multi_degree_pref page off action pref_degree S else Inr ([], S)) (\<lambda>(out, S).
          bind_res (bump_stat sbs_deg_histogram sbs_deg_histogram_update (unat pref_degree) S) (\<lambda>S.
          bind_res (set_consensus pushed vec S) (\<lambda>S. Inr (addr # out, S))))))
        else
          bind_res (bump_stat sbs_pred_hit sbs_pred_hit_update (unat action_index) S) (\<lambda>S.
            if scooby_enable_reward_tracker_hit K then
              bind_res (track E K 0xdeadbeef st action_index S) (\<lambda>(new_addr, pushed, S).
              bind_res (reward_pushed K tracker_hit pushed S) (\<lambda>S.
              bind_res (set_consensus pushed vec S) (\<lambda>S. Inr ([], S))))
            else Inr ([], S))))"

text \<open>What is done with the choice: a prefetch in the page, an offset out of the page, or no prefetch.\<close>

definition take_action ::
  "'e engine_ops \<Rightarrow> scooby_knobs \<Rightarrow> u64 \<Rightarrow> u32 \<Rightarrow> pythia_state \<Rightarrow> u32 \<Rightarrow> i32 \<Rightarrow> u32 \<Rightarrow> bool list \<Rightarrow> 'e scooby \<Rightarrow> (u64 list \<times> 'e scooby) res" where
  "take_action E K page off st action_index action pref_degree vec S =
     (if action \<noteq> 0 then
        if in_page_offset (off + action) then
          bind_res (issue_prefetch E K page off st action_index action pref_degree vec S) (\<lambda>(out, S).
          bind_res (bump_stat sbs_action_dist sbs_action_dist_update (unat action_index) S) (\<lambda>S. Inr (out, S)))
        else
          bind_res (bump_stat sbs_out_of_bounds_dist sbs_out_of_bounds_dist_update (unat action_index) (count sbs_out_of_bounds_update S)) (\<lambda>S.
            if scooby_enable_reward_out_of_bounds K then
              bind_res (track E K 0xdeadbeef st action_index S) (\<lambda>(new_addr, pushed, S).
              bind_res (reward_pushed K out_of_bounds pushed S) (\<lambda>S.
              bind_res (set_consensus pushed vec S) (\<lambda>S. Inr ([], S))))
            else Inr ([], S))
      else
        bind_res (track E K 0xdeadbeef st action_index S) (\<lambda>(new_addr, pushed, S).
        bind_res (bump_stat sbs_action_dist sbs_action_dist_update (unat action_index) S) (\<lambda>S.
        bind_res (set_consensus pushed vec S) (\<lambda>S. Inr ([], S)))))"

definition predict ::
  "'e engine_ops \<Rightarrow> scooby_knobs \<Rightarrow> u64 \<Rightarrow> u32 \<Rightarrow> pythia_state \<Rightarrow> 'e scooby \<Rightarrow> (u64 list \<times> 'e scooby) res" where
  "predict E K page off st S =
     bind_res (choose_action E K page st (count sbs_predict_called_update S)) (\<lambda>(action_index, pref_degree, vec, S).
     if \<not> action_index < scooby_max_actions K then Inl Assert_failed
     else if length (sb_actions S) \<le> unat action_index then Inl Out_of_bounds
     else
       bind_res (take_action E K page off st action_index (sb_actions S ! unat action_index) pref_degree vec S) (\<lambda>(out, S).
         Inr (out, S\<lparr>sb_stats := sbs_predicted_update (\<lambda>n. n + of_nat (length out)) (sb_stats S)\<rparr>)))"

definition scooby_invoke :: "'e engine_ops \<Rightarrow> u32 \<Rightarrow> scooby_knobs \<Rightarrow> 'e scooby \<Rightarrow> u64 \<Rightarrow> u64 \<Rightarrow> ('e scooby \<times> u64 list) res" where
  "scooby_invoke E raw K S pc address =
     (let page = page_of address; off = page_offset address in
      bind_res (reward_demand K address S) (\<lambda>S.
      let S = S\<lparr>sb_recorder := record_access pc page (sb_recorder S)\<rparr> in
      bind_res (update_local_state raw K pc page off S) (\<lambda>(s, S).
      let st = \<lparr>sc_pc = pc, sc_address = address, sc_page = page, sc_offset = off,
                sc_delta = (if ste_deltas s \<noteq> [] then last (ste_deltas s) else 0),
                sc_local_delta_sig = get_delta_sig s, sc_local_delta_sig2 = get_delta_sig2 s,
                sc_local_pc_sig = get_pc_sig s, sc_local_offset_sig = get_offset_sig s,
                sc_bw_level = sb_bw_level S, sc_is_high_bw = is_high_bw K S, sc_acc_level = sb_acc_level S\<rparr> in
      bind_res (predict E K page off st S) (\<lambda>(out, S).
        Inr (S\<lparr>sb_stats := sbs_issued_update (\<lambda>n. n + of_nat (length out)) (sb_stats S)\<rparr>, out)))))"

section \<open>Notifications\<close>

definition mark_entries :: "(pt_entry \<Rightarrow> pt_entry) \<Rightarrow> nat list \<Rightarrow> pt_entry list \<Rightarrow> pt_entry list" where
  "mark_entries f is pt = foldl (\<lambda>pt i. pt[i := f (pt ! i)]) pt is"

definition register_fill :: "scooby_knobs \<Rightarrow> u64 \<Rightarrow> 'e scooby \<Rightarrow> 'e scooby" where
  "register_fill K address S =
     (let S = count sbs_fill_called_update S;
          found = search_pt address (scooby_enable_reward_all K) (sb_prefetch_tracker S)
      in if found = [] then S
         else
           let S = count sbs_fill_set_update S;
               S = S\<lparr>sb_stats := sbs_fill_set_total_update (\<lambda>n. n + of_nat (length found)) (sb_stats S)\<rparr>
           in S\<lparr>sb_prefetch_tracker := mark_entries (\<lambda>p. p\<lparr>pte_is_filled := True\<rparr>) found (sb_prefetch_tracker S)\<rparr>)"

definition register_prefetch_hit :: "scooby_knobs \<Rightarrow> u64 \<Rightarrow> 'e scooby \<Rightarrow> 'e scooby" where
  "register_prefetch_hit K address S =
     (let S = count sbs_hit_called_update S;
          found = search_pt address (scooby_enable_reward_all K) (sb_prefetch_tracker S)
      in if found = [] then S
         else
           let S = count sbs_hit_set_update S;
               S = S\<lparr>sb_stats := sbs_hit_set_total_update (\<lambda>n. n + of_nat (length found)) (sb_stats S)\<rparr>
           in S\<lparr>sb_prefetch_tracker := mark_entries (\<lambda>p. p\<lparr>pte_pf_cache_hit := True\<rparr>) found (sb_prefetch_tracker S)\<rparr>)"

definition scooby_update_bw :: "u8 \<Rightarrow> 'e scooby \<Rightarrow> 'e scooby res" where
  "scooby_update_bw bw S =
     (if \<not> unat bw < DRAM_BW_LEVELS then Inl Assert_failed
      else bump_stat sbs_bw_histogram sbs_bw_histogram_update (unat bw) (count sbs_bw_epochs_update (S\<lparr>sb_bw_level := bw\<rparr>)))"

definition scooby_update_ipc :: "u8 \<Rightarrow> 'e scooby \<Rightarrow> 'e scooby res" where
  "scooby_update_ipc ipc S =
     (if \<not> unat ipc < SCOOBY_MAX_IPC_LEVEL then Inl Assert_failed
      else bump_stat sbs_ipc_histogram sbs_ipc_histogram_update (unat ipc) (count sbs_ipc_epochs_update (S\<lparr>sb_core_ipc := ipc\<rparr>)))"

definition scooby_update_acc :: "u32 \<Rightarrow> 'e scooby \<Rightarrow> 'e scooby res" where
  "scooby_update_acc acc S =
     (if \<not> unat acc < SCOOBY_ACC_LEVELS then Inl Assert_failed
      else bump_stat sbs_acc_histogram sbs_acc_histogram_update (unat acc) (count sbs_acc_epochs_update (S\<lparr>sb_acc_level := acc\<rparr>)))"

end
