(* ===== verification/ScoobyRun.thy ===== *)
theory ScoobyRun
  imports Scooby
begin

text \<open>
  What every run of the Pythia prefetcher keeps: the invariant of its tables, statistics and
  rewards, and its contract with the cache. The lemmas about single operations come first, those
  that involve the learning engine are proved in its locale, and the properties are read off
  the interpretation for the two engines of the code.
\<close>

section \<open>Well-formed tables\<close>

definition ste_ok :: "scooby_knobs \<Rightarrow> st_entry \<Rightarrow> bool" where
  "ste_ok K s \<longleftrightarrow> length (ste_pcs s) \<le> unat (scooby_max_pcs K) \<and> length (ste_deltas s) \<le> unat (scooby_max_deltas K) \<and>
     length (ste_offsets s) \<le> unat (scooby_max_offsets K) \<and> ste_offsets s \<noteq> [] \<and> (\<forall>x\<in>set (ste_offsets s). x < 64) \<and>
     length (ste_action_tracker s) \<le> unat (scooby_action_tracker_size K)"

definition st_table_ok :: "scooby_knobs \<Rightarrow> st_entry list \<Rightarrow> bool" where
  "st_table_ok K ss \<longleftrightarrow> length ss \<le> unat (scooby_st_size K) \<and> distinct (map ste_page ss) \<and> (\<forall>s\<in>set ss. ste_ok K s)"

definition stats_ok :: "scooby_knobs \<Rightarrow> scooby_stats \<Rightarrow> bool" where
  "stats_ok K t \<longleftrightarrow> length (sbs_action_dist t) = unat (scooby_max_actions K) \<and> length (sbs_issue_dist t) = unat (scooby_max_actions K) \<and>
     length (sbs_pred_hit t) = unat (scooby_max_actions K) \<and> length (sbs_out_of_bounds_dist t) = unat (scooby_max_actions K) \<and>
     length (sbs_multi_deg_histogram t) = MAX_SCOOBY_DEGREE + 1 \<and> length (sbs_deg_histogram t) = MAX_SCOOBY_DEGREE + 1 \<and>
     length (sbs_compute_dist t) = MAX_REWARDS \<and> (\<forall>r\<in>set (sbs_compute_dist t). length r = 2) \<and>
     length (sbs_reward_dist t) = MAX_ACTIONS \<and> (\<forall>r\<in>set (sbs_reward_dist t). length r = MAX_REWARDS) \<and>
     length (sbs_bw_histogram t) = DRAM_BW_LEVELS \<and> length (sbs_ipc_histogram t) = SCOOBY_MAX_IPC_LEVEL \<and>
     length (sbs_acc_histogram t) = SCOOBY_ACC_LEVELS"

definition recorder_ok :: "scooby_recorder \<Rightarrow> bool" where
  "recorder_ok r \<longleftrightarrow> length (rec_hop_delta_dist r) = MAX_HOP_COUNT + 1 \<and> (\<forall>x\<in>set (rec_hop_delta_dist r). length x = 127)"

definition maps_ok :: "scooby_knobs \<Rightarrow> 'e scooby \<Rightarrow> bool" where
  "maps_ok K S \<longleftrightarrow> (\<forall>t\<in>ran (sb_state_action_dist S). length t = unat (scooby_max_actions K)) \<and>
     (\<forall>t\<in>ran (sb_state_action_dist2 S). length t = unat (scooby_max_actions K) + 1) \<and>
     (\<forall>t\<in>ran (sb_action_deg_dist S). length t = MAX_SCOOBY_DEGREE)"

text \<open>Everything but the tracker and the engine.\<close>

definition env_ok :: "scooby_knobs \<Rightarrow> 'e scooby \<Rightarrow> bool" where
  "env_ok K S \<longleftrightarrow> length (sb_actions S) = unat (scooby_max_actions K) \<and> st_table_ok K (sb_signature_table S) \<and>
     stats_ok K (sb_stats S) \<and> recorder_ok (sb_recorder S) \<and> maps_ok K S"

text \<open>The part of the state that statistics and tables leave alone.\<close>

definition tracker_of :: "'e scooby \<Rightarrow> pt_entry list \<times> pt_entry option \<times> 'e" where
  "tracker_of S = (sb_prefetch_tracker S, sb_last_evicted S, sb_brain S)"

definition framed :: "scooby_knobs \<Rightarrow> 'e scooby \<Rightarrow> 'e scooby \<Rightarrow> bool" where
  "framed K S S' \<longleftrightarrow> env_ok K S' \<and> tracker_of S' = tracker_of S \<and> sb_actions S' = sb_actions S \<and> sb_bw_level S' = sb_bw_level S"

text \<open>The degrees stay inside the histograms, and the lists of degrees match their thresholds.\<close>

definition degree_fits :: "scooby_knobs \<Rightarrow> u32 \<Rightarrow> bool" where
  "degree_fits K d \<longleftrightarrow> unat d \<le> MAX_SCOOBY_DEGREE \<and> (scooby_enable_state_action_stats K \<longrightarrow> unat d < MAX_SCOOBY_DEGREE)"

definition degree_lists_ok :: "scooby_knobs \<Rightarrow> i32 list \<Rightarrow> i32 list \<Rightarrow> bool" where
  "degree_lists_ok K thresholds degrees \<longleftrightarrow>
     degrees \<noteq> [] \<and> length thresholds \<le> length degrees \<and> (\<forall>d\<in>set degrees. degree_fits K d)"

definition knobs_ok :: "scooby_knobs \<Rightarrow> bool" where
  "knobs_ok K \<longleftrightarrow> 0 < scooby_max_actions K \<and> unat (scooby_max_actions K) \<le> MAX_ACTIONS \<and> 0 < scooby_pt_size K \<and> 0 < scooby_st_size K \<and>
     0 < scooby_max_pcs K \<and> 0 < scooby_max_offsets K \<and> 0 < scooby_max_deltas K \<and> 0 < scooby_action_tracker_size K \<and>
     \<not> scooby_enable_track_multiple K \<and> degree_fits K (scooby_pref_degree K) \<and> state_knobs_ok (state_knobs.truncate K) \<and>
     degree_lists_ok K (scooby_last_pref_offset_conf_thresholds K) (scooby_dyn_degrees_type2 K) \<and>
     degree_lists_ok K (scooby_last_pref_offset_conf_thresholds_hbw K) (scooby_dyn_degrees_type2_hbw K)"

lemma knobs_truncate [simp]:
  "scooby_max_pcs (state_knobs.truncate K) = scooby_max_pcs K" "scooby_max_offsets (state_knobs.truncate K) = scooby_max_offsets K"
  "scooby_max_deltas (state_knobs.truncate K) = scooby_max_deltas K"
  "scooby_action_tracker_size (state_knobs.truncate K) = scooby_action_tracker_size K"
  by (simp_all add: state_knobs.defs)

section \<open>Counters\<close>

lemma framed_refl: "env_ok K S \<Longrightarrow> framed K S S"
  by (simp add: framed_def)

lemma framed_trans: "framed K S S' \<Longrightarrow> framed K S' S'' \<Longrightarrow> framed K S S''"
  by (simp add: framed_def)

lemma framed_env: "framed K S S' \<Longrightarrow> env_ok K S'"
  by (simp add: framed_def)

lemma framed_stats: "env_ok K S \<Longrightarrow> stats_ok K t \<Longrightarrow> framed K S (S\<lparr>sb_stats := t\<rparr>)"
  by (simp add: framed_def env_ok_def maps_ok_def tracker_of_def)

lemma bump1_ok: "i < length t \<Longrightarrow> \<exists>t'. bump1 i t = Inr t' \<and> length t' = length t"
  by (simp add: bump1_def)

lemma bump2_shape:
  assumes "i < length t" "\<forall>r\<in>set t. length r = n" "j < n"
  shows "\<exists>t'. bump2 i j t = Inr t' \<and> length t' = length t \<and> (\<forall>r\<in>set t'. length r = n)"
proof -
  have "length (t ! i) = n" using assms(1,2) by simp
  then have "\<forall>r\<in>set (t[i := (t ! i)[j := t ! i ! j + 1]]). length r = n"
    using assms(2) set_update_subset_insert [of t i "(t ! i)[j := t ! i ! j + 1]"] by auto
  then show ?thesis using assms \<open>length (t ! i) = n\<close> by (simp add: bump2_def)
qed

lemma count_stats: "sb_stats (count u S) = u (\<lambda>n. n + 1) (sb_stats S)"
  by (simp add: count_def)

lemma framed_count:
  "env_ok K S \<Longrightarrow> stats_ok K (u (\<lambda>n. n + 1) (sb_stats S)) \<Longrightarrow> framed K S (count u S)"
  unfolding count_def by (rule framed_stats)

lemma count_fields [simp]:
  "sb_prefetch_tracker (count u S) = sb_prefetch_tracker S" "sb_last_evicted (count u S) = sb_last_evicted S"
  "sb_brain (count u S) = sb_brain S" "sb_actions (count u S) = sb_actions S" "sb_bw_level (count u S) = sb_bw_level S"
  "sb_signature_table (count u S) = sb_signature_table S" "sb_recorder (count u S) = sb_recorder S"
  "sb_acc_level (count u S) = sb_acc_level S"
  by (simp_all add: count_def)

lemma bump_stat_ok:
  assumes "env_ok K S" "i < length (get (sb_stats S))"
    "\<And>t. length t = length (get (sb_stats S)) \<Longrightarrow> stats_ok K (upd (\<lambda>_. t) (sb_stats S))"
  shows "ends {} (framed K S) (bump_stat get upd i S)"
proof -
  obtain t where "bump1 i (get (sb_stats S)) = Inr t" "length t = length (get (sb_stats S))" using bump1_ok [OF assms(2)] by blast
  then show ?thesis using framed_stats [OF assms(1) assms(3)] by (simp add: bump_stat_def)
qed

lemma bump_stat2_ok:
  assumes "env_ok K S" "i < length (get (sb_stats S))" "\<forall>r\<in>set (get (sb_stats S)). length r = n" "j < n"
    "\<And>t. length t = length (get (sb_stats S)) \<Longrightarrow> \<forall>r\<in>set t. length r = n \<Longrightarrow> stats_ok K (upd (\<lambda>_. t) (sb_stats S))"
  shows "ends {} (framed K S) (bump_stat2 get upd i j S)"
proof -
  obtain t where "bump2 i j (get (sb_stats S)) = Inr t" "length t = length (get (sb_stats S))" "\<forall>r\<in>set t. length r = n"
    using bump2_shape [OF assms(2-4)] by blast
  then show ?thesis using framed_stats [OF assms(1) assms(5)] by (simp add: bump_stat2_def)
qed

text \<open>The counters of the prefetcher, by name.\<close>

lemma env_stats: "env_ok K S \<Longrightarrow> stats_ok K (sb_stats S)"
  by (simp add: env_ok_def)

lemma action_stats:
  assumes "env_ok K S" "a < scooby_max_actions K"
  shows "ends {} (framed K S) (bump_stat sbs_action_dist sbs_action_dist_update (unat a) S)"
    "ends {} (framed K S) (bump_stat sbs_issue_dist sbs_issue_dist_update (unat a) S)"
    "ends {} (framed K S) (bump_stat sbs_pred_hit sbs_pred_hit_update (unat a) S)"
    "ends {} (framed K S) (bump_stat sbs_out_of_bounds_dist sbs_out_of_bounds_dist_update (unat a) S)"
  using assms env_stats [OF assms(1)]
  by (auto intro!: bump_stat_ok simp: stats_ok_def word_less_nat_alt)

lemma degree_stats:
  assumes "env_ok K S" "d \<le> MAX_SCOOBY_DEGREE"
  shows "ends {} (framed K S) (bump_stat sbs_deg_histogram sbs_deg_histogram_update d S)"
    "ends {} (framed K S) (bump_stat sbs_multi_deg_histogram sbs_multi_deg_histogram_update d S)"
  using assms env_stats [OF assms(1)] by (auto intro!: bump_stat_ok simp: stats_ok_def)

lemma reward_code_less: "reward_code ty < MAX_REWARDS"
  by (cases ty) (simp_all add: reward_code_def MAX_REWARDS_def)

lemma compute_reward_ok:
  assumes "env_ok K S"
  shows "ends {} (\<lambda>(r, S'). r = reward_of K (scooby_enable_hbw_reward K \<and> is_high_bw K S) ty \<and> framed K S S') (compute_reward K ty S)"
  unfolding compute_reward_def Let_def
  by (rule ends_bind [OF bump_stat2_ok [OF assms, where n = 2]])
    (use env_stats [OF assms] reward_code_less in \<open>auto simp: stats_ok_def\<close>)

lemma count_reward_framed: "env_ok K S \<Longrightarrow> framed K S (count_reward ty S)"
  using env_stats [of K S] by (cases ty) (auto simp: count_reward_def stats_ok_def intro!: framed_count)

lemma assign_reward_ok:
  assumes "env_ok K S" "unat (pte_action_index p) < MAX_ACTIONS" "\<not> pte_has_reward p"
  shows "ends {} (\<lambda>(p', S'). framed K S S' \<and> p' = p\<lparr>pte_reward := reward_of K (scooby_enable_hbw_reward K \<and> is_high_bw K S) ty,
      pte_reward_type := ty, pte_has_reward := True\<rparr>) (assign_reward K ty p S)"
proof -
  let ?p = "p\<lparr>pte_reward := reward_of K (scooby_enable_hbw_reward K \<and> is_high_bw K S) ty, pte_reward_type := ty, pte_has_reward := True\<rparr>"
  have "ends {} (\<lambda>(p', S'). framed K S S' \<and> p' = ?p)
      (bind_res (bump_stat2 sbs_reward_dist sbs_reward_dist_update (unat (pte_action_index p)) (reward_code ty)
        (count_reward ty (count sbs_assign_called_update S1))) (\<lambda>S. Inr (?p, S)))" if S1: "framed K S S1" for S1
  proof -
    let ?S = "count_reward ty (count sbs_assign_called_update S1)"
    have "framed K S1 (count sbs_assign_called_update S1)" using framed_env [OF S1] env_stats [OF framed_env [OF S1]]
      by (auto intro!: framed_count simp: stats_ok_def)
    then have f: "framed K S1 ?S" using framed_trans count_reward_framed framed_env by blast
    have bump: "ends {} (framed K ?S) (bump_stat2 sbs_reward_dist sbs_reward_dist_update (unat (pte_action_index p)) (reward_code ty) ?S)"
      using env_stats [OF framed_env [OF f]] assms(2) reward_code_less
      by (intro bump_stat2_ok [OF framed_env [OF f], where n = MAX_REWARDS]) (auto simp: stats_ok_def)
    show ?thesis by (rule ends_bind [OF bump]) (simp add: framed_trans [OF framed_trans [OF S1 f]])
  qed
  note rest = this
  show ?thesis using assms(3) rest
    by (simp add: assign_reward_def Let_def) (rule ends_bind [OF compute_reward_ok [OF assms(1)]], auto)
qed

section \<open>The signature table\<close>

lemma page_knobs: "knobs_ok K \<Longrightarrow> 0 < scooby_max_pcs K \<and> 0 < scooby_max_offsets K \<and> 0 < scooby_max_deltas K \<and> 0 < scooby_action_tracker_size K"
  by (simp add: knobs_ok_def)

lemma ste_update_total:
  assumes "knobs_ok K" "ste_ok K s" "ste_page s = page" "off < 64"
  shows "\<exists>s'. ste_update (state_knobs.truncate K) page pc off s = Inr s' \<and> ste_ok K s' \<and> ste_page s' = page"
proof -
  note n = page_knobs [OF assms(1)]
  have l: "length (ste_pcs s) \<le> unat (scooby_max_pcs K)" "length (ste_deltas s) \<le> unat (scooby_max_deltas K)"
    "length (ste_offsets s) \<le> unat (scooby_max_offsets K)" "ste_offsets s \<noteq> []" "\<forall>x\<in>set (ste_offsets s). x < 64"
    using assms(2) by (simp_all add: ste_ok_def)
  obtain ps where ps: "push_bounded (scooby_max_pcs K) pc (ste_pcs s) = Inr ps" "length ps \<le> unat (scooby_max_pcs K)"
    using push_bounded_ok [of "scooby_max_pcs K" "ste_pcs s" pc] n l(1) by auto
  obtain ds where ds: "push_bounded (scooby_max_deltas K) (offset_delta (last (ste_offsets s)) off) (ste_deltas s) = Inr ds"
    "length ds \<le> unat (scooby_max_deltas K)"
    using push_bounded_ok [of "scooby_max_deltas K" "ste_deltas s" "offset_delta (last (ste_offsets s)) off"] n l(2) by auto
  obtain os where os: "push_bounded (scooby_max_offsets K) off (ste_offsets s) = Inr os"
    "length os \<le> unat (scooby_max_offsets K)" "set os \<subseteq> insert off (set (ste_offsets s))" "os \<noteq> []"
    using push_bounded_ok [of "scooby_max_offsets K" "ste_offsets s" off] n l(3) by auto
  have "\<forall>x\<in>set os. x < 64" using os(3) l(5) assms(4) by blast
  then show ?thesis using ps ds os l(4) assms put_bit_set(1) [OF assms(4)]
    by (simp add: ste_update_def Let_def ste_ok_def)
qed

lemma new_entry_ok:
  assumes "knobs_ok K" "off < 64"
  shows "\<exists>s. Scooby_STEntry raw page pc off = Inr s \<and> ste_ok K s \<and> ste_page s = page"
  using page_knobs [OF assms(1)] put_bit_set(1) [OF assms(2)] assms(2) unat_pos [of "scooby_max_pcs K"] unat_pos [of "scooby_max_offsets K"]
  by (simp add: Scooby_STEntry_def ste_ok_def Suc_le_eq)

lemma small_difference:
  assumes "a < (64::u32)" "b < 64"
  shows "sint (a - b) = int (unat a) - int (unat b)"
proof -
  have small: "uint a < 64" "uint b < 64" "0 \<le> uint a" "0 \<le> uint b" using assms by (simp_all add: word_less_def)
  have "sint a = uint a" "sint b = uint b"
    using in_page_offset_iff [of a] in_page_offset_iff [of b] assms small
    by (auto simp: in_page_offset_def sint_32_eq)
  moreover have "sint (a - b) = sint a - sint b"
  proof -
    have "- 64 < sint a - sint b" "sint a - sint b < 64" using small calculation by linarith+
    then have "- (2 ^ 31) \<le> sint a - sint b" "sint a - sint b < 2 ^ 31" by simp_all
    then show ?thesis by (simp add: sint_word_ariths signed_take_bit_int_eq_self)
  qed
  ultimately show ?thesis by simp
qed

lemma hop_delta_range:
  assumes "a < (64::u32)" "b < 64"
  shows "nat (sint (if sint (a - b) < 0 then (- 1) * (a - b) + 63 else a - b)) < 127"
proof -
  have small: "uint a < 64" "uint b < 64" "0 \<le> uint a" "0 \<le> uint b" using assms by (simp_all add: word_less_def)
  have ab: "sint (a - b) = uint a - uint b" using small_difference [OF assms] by simp
  have "sint (b - a) = uint b - uint a" using small_difference [OF assms(2,1)] by simp
  moreover have "sint (63::i32) = 63" by simp
  moreover have "sint ((b - a) + 63) = sint (b - a) + 63" if "- 2147483648 \<le> sint (b - a) + 63" "sint (b - a) + 63 < 2147483648"
    using that by (simp add: sint_word_ariths(1) [of "b - a"] signed_take_bit_int_eq_self)
  ultimately have "sint ((b - a) + 63) = uint b - uint a + 63" using small by linarith
  moreover have "(- 1) * (a - b) + 63 = (b - a) + 63" by simp
  moreover have "uint b - uint a + 63 < 127" "uint a - uint b < 127" using small by linarith+
  ultimately have "sint ((- 1) * (a - b) + 63) < 127" "sint (a - b) < 127" using ab by (simp_all only:)
  then show ?thesis by (auto simp: nat_less_iff simp del: mult_minus1 minus_diff_eq)
qed

lemma bump_all_ok:
  assumes "\<forall>(i, j)\<in>set xs. i < length t \<and> j < n" "\<forall>r\<in>set t. length r = n"
  shows "\<exists>t'. bump_all xs t = Inr t' \<and> length t' = length t \<and> (\<forall>r\<in>set t'. length r = n)"
  using assms
proof (induction xs arbitrary: t)
  case Nil
  then show ?case by simp
next
  case (Cons x xs)
  have x: "fst x < length t" "snd x < n" using Cons.prems(1) by (auto simp: case_prod_beta)
  obtain t1 where t1: "bump2 (fst x) (snd x) t = Inr t1" "length t1 = length t" "\<forall>r\<in>set t1. length r = n"
    using bump2_shape [OF x(1) Cons.prems(2) x(2)] by blast
  then show ?case using Cons.IH [of t1] Cons.prems(1) by auto
qed

lemma record_access_knowledge_ok:
  assumes "recorder_ok r" "ste_ok K s"
  shows "\<exists>r'. record_access_knowledge s r = Inr r' \<and> recorder_ok r'"
proof -
  have s: "ste_offsets s \<noteq> []" "\<forall>x\<in>set (ste_offsets s). x < 64" using assms(2) by (simp_all add: ste_ok_def)
  then have "unat (hd (ste_offsets s)) \<le> 64" by (auto simp: word_less_nat_alt dest: bspec [of _ _ "hd (ste_offsets s)"])
  then obtain rot where rot: "rotate_left (ste_bmp_real s) (hd (ste_offsets s)) 64 = Inr rot"
    using rotate_left_spec [of "unat (hd (ste_offsets s))" 64 "ste_bmp_real s"] by auto
  have "\<forall>(i, j)\<in>set (hop_deltas (ste_offsets s)). i < MAX_HOP_COUNT + 1 \<and> j < 127"
    using s(2) hop_delta_range by (auto simp: hop_deltas_def Let_def)
  then obtain t where "bump_all (hop_deltas (ste_offsets s)) (rec_hop_delta_dist r) = Inr t"
    "length t = MAX_HOP_COUNT + 1" "\<forall>x\<in>set t. length x = 127"
    using bump_all_ok [of "hop_deltas (ste_offsets s)" "rec_hop_delta_dist r" 127] assms(1) by (auto simp: recorder_ok_def)
  then show ?thesis using s(1) rot
    by (auto simp: record_access_knowledge_def Let_def recorder_ok_def split: option.split)
qed

lemma framed_tables:
  assumes "env_ok K S" "st_table_ok K ss" "recorder_ok r"
  shows "framed K S (S\<lparr>sb_signature_table := ss, sb_recorder := r\<rparr>)" "framed K S (S\<lparr>sb_recorder := r, sb_signature_table := ss\<rparr>)"
  using assms by (simp_all add: framed_def env_ok_def maps_ok_def tracker_of_def)

lemma framed_table: "env_ok K S \<Longrightarrow> st_table_ok K ss \<Longrightarrow> framed K S (S\<lparr>sb_signature_table := ss\<rparr>)"
  using framed_tables(1) [of K S ss "sb_recorder S"] by (simp add: env_ok_def)

lemma find_snoc_key: "find (\<lambda>s. ste_page s = page) ss = None \<Longrightarrow> find (\<lambda>s. ste_page s = page) (ss @ [s]) = (if ste_page s = page then Some s else None)"
  by (simp add: find_append_key)

lemma table_count: "env_ok K S \<Longrightarrow> framed K S (count sbs_st_lookup_update S)" "env_ok K S \<Longrightarrow> framed K S (count sbs_st_hit_update S)"
  "env_ok K S \<Longrightarrow> framed K S (count sbs_st_evict_update S)" "env_ok K S \<Longrightarrow> framed K S (count sbs_st_insert_update S)"
  by (auto intro!: framed_count simp: stats_ok_def dest: env_stats)

lemma table_hit_ok:
  assumes "knobs_ok K" "env_ok K S" "off < 64" "find (\<lambda>s. ste_page s = page) (sb_signature_table S) = Some s"
  shows "ends {} (\<lambda>(s', S'). framed K S S' \<and> ste_page s' = page)
    (bind_res (ste_update (state_knobs.truncate K) page pc off s) (\<lambda>s.
       Inr (s, S\<lparr>sb_signature_table := erase_first (\<lambda>s. ste_page s = page) (sb_signature_table S) @ [s]\<rparr>)))"
proof -
  have st: "st_table_ok K (sb_signature_table S)" using assms(2) by (simp add: env_ok_def)
  have s: "s \<in> set (sb_signature_table S)" "ste_page s = page" using find_SomeD [OF assms(4)] by simp_all
  then obtain s' where s': "ste_update (state_knobs.truncate K) page pc off s = Inr s'" "ste_ok K s'" "ste_page s' = page"
    using ste_update_total [OF assms(1) _ s(2) assms(3)] st unfolding st_table_ok_def by blast
  define ss where "ss = erase_first (\<lambda>s. ste_page s = page) (sb_signature_table S) @ [s']"
  have "length ss = length (sb_signature_table S)" using find_Some_erase_length [OF assms(4)] by (simp add: ss_def)
  moreover have "\<forall>s\<in>set ss. ste_ok K s"
    using st s'(2) set_erase_first [of "\<lambda>s. ste_page s = page" "sb_signature_table S"] unfolding st_table_ok_def ss_def by auto
  moreover have "distinct (map ste_page ss)" unfolding ss_def
    using st s'(3) by (intro distinct_move_back) (simp_all add: st_table_ok_def)
  ultimately have "st_table_ok K ss" using st by (simp add: st_table_ok_def)
  then show ?thesis using s' framed_table [OF assms(2)] by (simp add: ss_def)
qed

lemma table_evict_ok:
  assumes "knobs_ok K" "env_ok K S" "page \<notin> ste_page ` set (sb_signature_table S)"
  shows "ends {} (\<lambda>S'. framed K S S' \<and> page \<notin> ste_page ` set (sb_signature_table S') \<and> length (sb_signature_table S') < unat (scooby_st_size K))
    (if unat (scooby_st_size K) \<le> length (sb_signature_table S) then
       let S = count sbs_st_evict_update S in
       case sb_signature_table S of
         [] \<Rightarrow> Inl Out_of_bounds
       | s # ss \<Rightarrow>
           let S = S\<lparr>sb_signature_table := ss\<rparr> in
           if scooby_access_debug K
           then bind_res (record_access_knowledge s (sb_recorder S)) (\<lambda>r. Inr (S\<lparr>sb_recorder := r\<rparr>))
           else Inr S
     else Inr S)"
proof (cases "unat (scooby_st_size K) \<le> length (sb_signature_table S)")
  case False
  then show ?thesis using assms(2,3) framed_refl by simp
next
  case True
  have pos: "0 < unat (scooby_st_size K)" using assms(1) by (simp add: knobs_ok_def unat_pos)
  then obtain s ss where ss: "sb_signature_table S = s # ss" using True by (cases "sb_signature_table S") auto
  have st: "st_table_ok K (s # ss)" "recorder_ok (sb_recorder S)" using assms(2) ss by (simp_all add: env_ok_def)
  have small: "st_table_ok K ss" "length ss < unat (scooby_st_size K)" "ste_ok K s" using st(1) by (auto simp: st_table_ok_def)
  let ?S = "count sbs_st_evict_update S"
  note f = table_count(3) [OF assms(2)]
  obtain r where r: "record_access_knowledge s (sb_recorder S) = Inr r" "recorder_ok r"
    using record_access_knowledge_ok [OF st(2) small(3)] by blast
  have "framed K S (?S\<lparr>sb_signature_table := ss\<rparr>)" "framed K S (?S\<lparr>sb_signature_table := ss, sb_recorder := r\<rparr>)"
    using framed_trans [OF f framed_table [OF framed_env [OF f] small(1)]]
      framed_trans [OF f framed_tables(1) [OF framed_env [OF f] small(1) r(2)]] by simp_all
  then show ?thesis using True ss r(1) assms(3) small(2) by (auto simp: Let_def)
qed

lemma update_local_state_ok:
  assumes "knobs_ok K" "env_ok K S" "off < 64"
  shows "ends {} (\<lambda>(s, S'). framed K S S' \<and> ste_page s = page) (update_local_state raw K pc page off S)"
proof -
  let ?S = "count sbs_st_lookup_update S"
  note f = table_count(1) [OF assms(2)]
  show ?thesis
  proof (cases "find (\<lambda>s. ste_page s = page) (sb_signature_table S)")
    case (Some s)
    let ?S2 = "count sbs_st_hit_update ?S"
    have f2: "framed K S ?S2" using framed_trans [OF f table_count(2) [OF framed_env [OF f]]] .
    have "ends {} (\<lambda>(s', S'). framed K ?S2 S' \<and> ste_page s' = page) (update_local_state raw K pc page off S)"
      using table_hit_ok [OF assms(1) framed_env [OF f2] assms(3), of page s pc] Some
      by (simp add: update_local_state_def Let_def)
    then show ?thesis by (rule ends_mono) (auto intro: framed_trans [OF f2])
  next
    case None
    obtain s where s: "Scooby_STEntry raw page pc off = Inr s" "ste_ok K s" "ste_page s = page"
      using new_entry_ok [OF assms(1,3)] by blast
    have fresh: "page \<notin> ste_page ` set (sb_signature_table ?S)" using None by (simp add: find_None_key)
    have split: "update_local_state raw K pc page off S =
        bind_res
          (if unat (scooby_st_size K) \<le> length (sb_signature_table ?S) then
             let S = count sbs_st_evict_update ?S in
             case sb_signature_table S of
               [] \<Rightarrow> Inl Out_of_bounds
             | s # ss \<Rightarrow>
                 let S = S\<lparr>sb_signature_table := ss\<rparr> in
                 if scooby_access_debug K
                 then bind_res (record_access_knowledge s (sb_recorder S)) (\<lambda>r. Inr (S\<lparr>sb_recorder := r\<rparr>))
                 else Inr S
           else Inr ?S) (\<lambda>S.
          let S = count sbs_st_insert_update S in
          bind_res (Scooby_STEntry raw page pc off) (\<lambda>s.
            Inr (s, S\<lparr>sb_recorder := record_trigger_access pc (sb_recorder S), sb_signature_table := sb_signature_table S @ [s]\<rparr>)))"
      using None by (simp add: update_local_state_def Let_def)
    show ?thesis unfolding split
    proof (rule ends_bind [OF table_evict_ok [OF assms(1) framed_env [OF f] fresh]])
      fix S1
      assume S1: "framed K ?S S1 \<and> page \<notin> ste_page ` set (sb_signature_table S1) \<and> length (sb_signature_table S1) < unat (scooby_st_size K)"
      let ?S1 = "count sbs_st_insert_update S1"
      have f1: "framed K S ?S1" using S1 f framed_trans framed_env table_count(4) by blast
      have "st_table_ok K (sb_signature_table S1)" "recorder_ok (sb_recorder S1)"
        using S1 framed_env [of K ?S S1] by (simp_all add: env_ok_def)
      then have "st_table_ok K (sb_signature_table S1 @ [s])" "recorder_ok (record_trigger_access pc (sb_recorder S1))"
        using S1 s by (auto simp: st_table_ok_def recorder_ok_def record_trigger_access_def)
      then have "framed K S (?S1\<lparr>sb_recorder := record_trigger_access pc (sb_recorder S1), sb_signature_table := sb_signature_table S1 @ [s]\<rparr>)"
        using framed_trans [OF f1 framed_tables(2) [OF framed_env [OF f1]]] by blast
      then show "ends {} (\<lambda>(s, S'). framed K S S' \<and> ste_page s = page)
          (let S = ?S1 in bind_res (Scooby_STEntry raw page pc off) (\<lambda>s.
            Inr (s, S\<lparr>sb_recorder := record_trigger_access pc (sb_recorder S), sb_signature_table := sb_signature_table S @ [s]\<rparr>)))"
        using s by (simp add: Let_def)
    qed
  qed
qed

lemma track_prefetch_ok:
  assumes "knobs_ok K" "ste_ok K s" "off < 64"
  shows "ends {Invalid_iterator} (\<lambda>s'. ste_ok K s' \<and> ste_page s' = ste_page s) (track_prefetch (state_knobs.truncate K) off action s)"
proof -
  have len: "length (ste_action_tracker s) \<le> unat (scooby_action_tracker_size K)" using assms(2) by (simp add: ste_ok_def)
  obtain ts where ts: "push_bounded (scooby_action_tracker_size K) \<lparr>at_action = action, at_conf = 0\<rparr> (ste_action_tracker s) = Inr ts"
    "length ts \<le> unat (scooby_action_tracker_size K)"
    using push_bounded_ok [OF _ len, of "\<lparr>at_action = action, at_conf = 0\<rparr>"] page_knobs [OF assms(1)] by blast
  have bits: "get_bit (ste_bmp_pred s) off = Inr (bit (ste_bmp_pred s) (unat off))"
    "put_bit off True (ste_bmp_pred s) = Inr (set_bit (unat off) (ste_bmp_pred s))"
    using assms(3) by (simp_all add: get_bit_def put_bit_def)
  show ?thesis
  proof (cases "find (\<lambda>a. at_action a = action) (ste_action_tracker s)")
    case None
    then show ?thesis using assms(2) ts bits by (simp add: track_prefetch_def insert_action_tracker_def ste_ok_def)
  next
    case (Some x)
    then show ?thesis using assms(2) bits by (simp add: track_prefetch_def insert_action_tracker_def)
  qed
qed

lemma track_in_st_ok:
  assumes "knobs_ok K" "env_ok K S" "off < 64"
  shows "ends {Invalid_iterator} (framed K S) (track_in_st K page off action S)"
proof (cases "find (\<lambda>s. ste_page s = page) (sb_signature_table S)")
  case None
  then show ?thesis using assms(2) by (simp add: track_in_st_def framed_refl)
next
  case (Some s)
  have st: "st_table_ok K (sb_signature_table S)" using assms(2) by (simp add: env_ok_def)
  have s: "s \<in> set (sb_signature_table S)" "ste_page s = page" using find_SomeD [OF Some] by simp_all
  then have ok: "ste_ok K s" using st by (simp add: st_table_ok_def)
  have "framed K S (S\<lparr>sb_signature_table := update_first (\<lambda>s. ste_page s = page) (\<lambda>_. s') (sb_signature_table S)\<rparr>)"
    if "ste_ok K s'" "ste_page s' = page" for s'
  proof -
    have "map ste_page (update_first (\<lambda>s. ste_page s = page) (\<lambda>_. s') (sb_signature_table S)) = map ste_page (sb_signature_table S)"
      using that(2) by (intro map_update_first) simp
    moreover have "\<forall>x\<in>set (update_first (\<lambda>s. ste_page s = page) (\<lambda>_. s') (sb_signature_table S)). ste_ok K x"
      using st that(1) by (auto simp: st_table_ok_def dest!: set_update_first)
    ultimately show ?thesis using st by (intro framed_table [OF assms(2)]) (simp add: st_table_ok_def)
  qed
  then show ?thesis unfolding track_in_st_def using Some s(2)
    by simp (rule ends_bind [OF track_prefetch_ok [OF assms(1) ok assms(3)]], simp)
qed

section \<open>Degrees and statistics of states\<close>

lemma predict_stats:
  assumes "env_ok K S"
  shows "framed K S (count sbs_predict_called_update S)" "framed K S (count sbs_out_of_bounds_update S)"
    "framed K S (count sbs_multi_deg_update S)" "framed K S (count sbs_multi_deg_called_update S)"
    "framed K S (S\<lparr>sb_stats := sbs_predicted_update f (sb_stats S)\<rparr>)" "framed K S (S\<lparr>sb_stats := sbs_issued_update f (sb_stats S)\<rparr>)"
  using env_stats [OF assms] assms by (auto intro!: framed_count framed_stats simp: stats_ok_def)

lemma degree_loop_ok:
  assumes "env_ok K S" "\<forall>d\<in>set ds. d \<le> MAX_SCOOBY_DEGREE"
  shows "ends {} (\<lambda>(out, S'). framed K S S' \<and> list_all (good_prefetch a) out \<and> length out \<le> length ds)
    (degree_loop (page_of a) off action ds S)"
  using assms
proof (induction ds arbitrary: S)
  case Nil
  then show ?case by (simp add: framed_refl)
next
  case (Cons d ds)
  show ?case
  proof (cases "in_page_offset (off + of_nat d * action)")
    case False
    then show ?thesis using Cons.IH [OF Cons.prems(1)] Cons.prems(2) by (auto elim!: ends_mono simp: Let_def)
  next
    case True
    note f = predict_stats(3) [OF Cons.prems(1)]
    have good: "good_prefetch a (line_address (page_of a) (off + of_nat d * action))"
      using True by (simp add: page_simps)
    have "ends {} (\<lambda>(out, S'). framed K S S' \<and> list_all (good_prefetch a) out \<and> length out \<le> Suc (length ds))
        (bind_res (degree_loop (page_of a) off action ds S2) (\<lambda>(out, S). Inr (line_address (page_of a) (off + of_nat d * action) # out, S)))"
      if "framed K (count sbs_multi_deg_update S) S2" for S2
      using Cons.IH [OF framed_env [OF that]] Cons.prems(2) framed_trans [OF f that] good
      by (intro ends_bind [where P = "\<lambda>(out, S'). framed K S2 S' \<and> list_all (good_prefetch a) out \<and> length out \<le> length ds"])
        (auto intro: framed_trans)
    then show ?thesis using True Cons.prems(2) by (simp add: Let_def) (rule ends_bind [OF degree_stats(2) [OF framed_env [OF f]]], auto)
  qed
qed

lemma gen_multi_degree_ok:
  assumes "env_ok K S" "unat d \<le> MAX_SCOOBY_DEGREE"
  shows "ends {} (\<lambda>(out, S'). framed K S S' \<and> list_all (good_prefetch a) out \<and> length out \<le> unat d - 1)
    (gen_multi_degree_pref (page_of a) off action d S)"
proof -
  note f = predict_stats(4) [OF assms(1)]
  have "ends {} (\<lambda>(out, S'). framed K (count sbs_multi_deg_called_update S) S' \<and> list_all (good_prefetch a) out \<and>
      length out \<le> length [2..<Suc (unat d)])
    (degree_loop (page_of a) off action [2..<Suc (unat d)] (count sbs_multi_deg_called_update S))"
    using assms(2) by (intro degree_loop_ok [OF framed_env [OF f]]) auto
  then have "ends {} (\<lambda>(out, S'). framed K S S' \<and> list_all (good_prefetch a) out \<and> length out \<le> unat d - 1)
    (degree_loop (page_of a) off action [2..<Suc (unat d)] (count sbs_multi_deg_called_update S))"
    by (rule ends_mono) (auto intro: framed_trans [OF f] simp del: upt_Suc)
  then show ?thesis using f by (simp add: gen_multi_degree_pref_def Let_def)
qed

lemma first_threshold_index: "first_threshold c ts i = Some j \<Longrightarrow> i \<le> j \<and> j < i + length ts"
  by (induction ts arbitrary: i) (fastforce split: if_splits)+

lemma one_fits: "degree_fits K 1"
  by (simp add: degree_fits_def MAX_SCOOBY_DEGREE_def)

lemma dyn_degree_ok:
  assumes "knobs_ok K"
  shows "ends {} (degree_fits K) (get_dyn_pref_degree K page action S)"
proof -
  define ts where "ts = (if is_high_bw K S then scooby_last_pref_offset_conf_thresholds_hbw K else scooby_last_pref_offset_conf_thresholds K)"
  define ds where "ds = (if is_high_bw K S then scooby_dyn_degrees_type2_hbw K else scooby_dyn_degrees_type2 K)"
  have ds: "ds \<noteq> []" "length ts \<le> length ds" "\<forall>d\<in>set ds. degree_fits K d"
    using assms by (simp_all add: knobs_ok_def degree_lists_ok_def ts_def ds_def)
  have pick: "ends {} (degree_fits K) (case first_threshold conf ts 0 of Some i \<Rightarrow> knob_at ds i
      | None \<Rightarrow> if ds = [] then Inl Out_of_bounds else Inr (last ds))" for conf
    using ds first_threshold_index [of conf ts 0] by (auto simp: knob_at_def split: option.split)
  show ?thesis
  proof (cases "find (\<lambda>s. ste_page s = page) (sb_signature_table S)")
    case None
    then show ?thesis by (simp add: get_dyn_pref_degree_def one_fits)
  next
    case (Some s)
    obtain found conf where "search_action_tracker action s = (found, conf)" by fastforce
    then show ?thesis using pick [of conf] Some
      unfolding get_dyn_pref_degree_def ts_def [symmetric] ds_def [symmetric] Let_def
      by (simp only: option.case prod.case one_fits ends_simps split: if_split) blast
  qed
qed

lemma framed_maps:
  assumes "env_ok K S" "env_ok K S'" "tracker_of S' = tracker_of S" "sb_actions S' = sb_actions S" "sb_bw_level S' = sb_bw_level S"
  shows "framed K S S'"
  using assms by (simp add: framed_def)

lemma update_stats_index_ok:
  assumes "env_ok K S" "a < scooby_max_actions K"
  shows "ends {} (framed K S) (update_stats_index K st a S)"
proof -
  let ?t = "case sb_state_action_dist S st of Some t \<Rightarrow> t | None \<Rightarrow> replicate (unat (scooby_max_actions K)) 0"
  have "length ?t = unat (scooby_max_actions K)" using assms(1) by (auto simp: env_ok_def maps_ok_def ran_def split: option.split)
  then obtain t where t: "bump1 (unat a) ?t = Inr t" "length t = unat (scooby_max_actions K)"
    using bump1_ok [of "unat a" ?t] assms(2) by (auto simp: word_less_nat_alt)
  have "env_ok K (S\<lparr>sb_state_action_dist := (sb_state_action_dist S)(st \<mapsto> t)\<rparr>)"
    using assms(1) t(2) by (auto simp: env_ok_def maps_ok_def ran_def)
  then show ?thesis using t(1) framed_maps [OF assms(1)] by (simp add: update_stats_index_def Let_def tracker_of_def)
qed

lemma update_stats_state_ok:
  assumes "env_ok K S" "a < scooby_max_actions K" "unat d < MAX_SCOOBY_DEGREE"
  shows "ends {} (framed K S) (update_stats_state K st a d S)"
proof -
  let ?n = "unat (scooby_max_actions K)"
  let ?t = "case sb_state_action_dist2 S (state_string st) of Some t \<Rightarrow> t | None \<Rightarrow> replicate (?n + 1) 0"
  have len: "length ?t = ?n + 1" using assms(1) by (auto simp: env_ok_def maps_ok_def ran_def split: option.split)
  have a: "unat a < ?n" using assms(2) by (simp add: word_less_nat_alt)
  obtain t1 where t1: "bump1 (unat a) ?t = Inr t1" "length t1 = ?n + 1" using bump1_ok [of "unat a" ?t] len a by auto
  obtain t2 where t2: "bump1 ?n t1 = Inr t2" "length t2 = ?n + 1" using bump1_ok [of ?n t1] t1(2) by auto
  let ?S = "S\<lparr>sb_state_action_dist2 := (sb_state_action_dist2 S)(state_string st \<mapsto> t2)\<rparr>"
  have act: "getAction a ?S = Inr (sb_actions S ! unat a)" using a assms(1) by (simp add: getAction_def env_ok_def)
  let ?d = "case sb_action_deg_dist S (sb_actions S ! unat a) of Some d \<Rightarrow> d | None \<Rightarrow> replicate MAX_SCOOBY_DEGREE 0"
  have "length ?d = MAX_SCOOBY_DEGREE" using assms(1) by (auto simp: env_ok_def maps_ok_def ran_def split: option.split)
  then obtain d' where d': "bump1 (unat d) ?d = Inr d'" "length d' = MAX_SCOOBY_DEGREE" using bump1_ok [of "unat d" ?d] assms(3) by auto
  let ?S2 = "?S\<lparr>sb_action_deg_dist := (sb_action_deg_dist S)(sb_actions S ! unat a \<mapsto> d')\<rparr>"
  have "update_stats_state K st a d S = Inr ?S2" using t1(1) t2(1) act d'(1) by (simp add: update_stats_state_def Let_def)
  moreover have "env_ok K ?S2" using assms(1) t2(2) d'(2) by (auto simp: env_ok_def maps_ok_def ran_def)
  ultimately show ?thesis using framed_maps [OF assms(1)] by (simp add: tracker_of_def)
qed

section \<open>The tracker\<close>

text \<open>A decision in the tracker: an action of the engine, and a vector that the engine takes back.\<close>

definition entry_ok :: "scooby_knobs \<Rightarrow> (bool list \<Rightarrow> bool) \<Rightarrow> pt_entry \<Rightarrow> bool" where
  "entry_ok K fit p \<longleftrightarrow> pte_action_index p < scooby_max_actions K \<and> fit (pte_consensus_vec p)"

text \<open>Every prefetched address is tracked at most once.\<close>

definition tracked_once :: "pt_entry list \<Rightarrow> bool" where
  "tracked_once pt \<longleftrightarrow> distinct (filter (\<lambda>a. a \<noteq> 0xdeadbeef) (map pte_address pt))"

definition sb_ok ::
  "scooby_knobs \<Rightarrow> ('e \<Rightarrow> bool) \<Rightarrow> ('e \<Rightarrow> u32) \<Rightarrow> ('e \<Rightarrow> bool list \<Rightarrow> bool) \<Rightarrow> 'e scooby \<Rightarrow> bool" where
  "sb_ok K ok acts fit S \<longleftrightarrow> env_ok K S \<and> ok (sb_brain S) \<and> acts (sb_brain S) = scooby_max_actions K \<and>
     length (sb_prefetch_tracker S) \<le> unat (scooby_pt_size K) \<and> tracked_once (sb_prefetch_tracker S) \<and>
     (\<forall>p\<in>set (sb_prefetch_tracker S) \<union> set_option (sb_last_evicted S). entry_ok K (fit (sb_brain S)) p)"

text \<open>The same with a last entry that has no vector yet.\<close>

definition sb_open ::
  "scooby_knobs \<Rightarrow> ('e \<Rightarrow> bool) \<Rightarrow> ('e \<Rightarrow> u32) \<Rightarrow> ('e \<Rightarrow> bool list \<Rightarrow> bool) \<Rightarrow> 'e scooby \<Rightarrow> bool" where
  "sb_open K ok acts fit S \<longleftrightarrow> sb_prefetch_tracker S \<noteq> [] \<and>
     sb_ok K ok acts fit (S\<lparr>sb_prefetch_tracker := butlast (sb_prefetch_tracker S)\<rparr>) \<and>
     length (sb_prefetch_tracker S) \<le> unat (scooby_pt_size K) \<and> tracked_once (sb_prefetch_tracker S) \<and>
     pte_action_index (last (sb_prefetch_tracker S)) < scooby_max_actions K"

lemma env_tracker [simp]:
  "env_ok K (S\<lparr>sb_prefetch_tracker := pt\<rparr>) = env_ok K S" "env_ok K (S\<lparr>sb_last_evicted := l\<rparr>) = env_ok K S"
  "env_ok K (S\<lparr>sb_brain := b\<rparr>) = env_ok K S"
  by (simp_all add: env_ok_def maps_ok_def)

lemma framed_sb_ok: "framed K S S' \<Longrightarrow> sb_ok K ok acts fit S \<Longrightarrow> sb_ok K ok acts fit S'"
  by (simp add: framed_def sb_ok_def tracker_of_def)

lemma framed_sb_open: "framed K S S' \<Longrightarrow> sb_open K ok acts fit S \<Longrightarrow> sb_open K ok acts fit S'"
  by (simp add: framed_def sb_open_def sb_ok_def tracker_of_def)

lemma sb_ok_env: "sb_ok K ok acts fit S \<Longrightarrow> env_ok K S"
  by (simp add: sb_ok_def)

lemma sb_open_env: "sb_open K ok acts fit S \<Longrightarrow> env_ok K S"
  by (simp add: sb_open_def sb_ok_def)

lemma search_pt_set: "i \<in> set (search_pt a all pt) \<Longrightarrow> i < length pt \<and> pte_address (pt ! i) = a"
  by (auto simp: search_pt_def Let_def split: if_splits dest: in_set_takeD)

lemma search_pt_none: "search_pt a all pt = [] \<longleftrightarrow> a \<notin> pte_address ` set pt"
proof -
  have "search_pt a all pt = [] \<longleftrightarrow> filter (\<lambda>i. pte_address (pt ! i) = a) [0..<length pt] = []"
    by (simp add: search_pt_def Let_def)
  also have "\<dots> \<longleftrightarrow> a \<notin> pte_address ` set pt" by (auto simp: filter_empty_conv image_iff in_set_conv_nth Ball_def)
  finally show ?thesis .
qed

lemma action_index_bound: "knobs_ok K \<Longrightarrow> a < scooby_max_actions K \<Longrightarrow> unat a < MAX_ACTIONS"
  by (auto simp: knobs_ok_def word_less_nat_alt)

lemma reward_counts:
  assumes "env_ok K S"
  shows "framed K S (count sbs_demand_called_update S)" "framed K S (count sbs_pt_not_found_update S)"
    "framed K S (count sbs_pt_found_update S)" "framed K S (count sbs_pt_found_total_update S)"
    "framed K S (count sbs_demand_has_reward_update S)" "framed K S (count sbs_train_reward_called_update S)"
    "framed K S (count sbs_train_called_update S)" "framed K S (count sbs_train_compute_reward_update S)"
    "framed K S (count sbs_track_called_update S)" "framed K S (count sbs_track_same_address_update S)"
    "framed K S (count sbs_track_evict_update S)"
  using env_stats [OF assms] assms by (auto intro!: framed_count simp: stats_ok_def)

text \<open>A rewarded entry keeps its address, action and vector.\<close>

lemma sb_ok_put:
  assumes "sb_ok K ok acts fit S" "i < length (sb_prefetch_tracker S)"
    "pte_address p = pte_address (sb_prefetch_tracker S ! i)" "pte_action_index p = pte_action_index (sb_prefetch_tracker S ! i)"
    "pte_consensus_vec p = pte_consensus_vec (sb_prefetch_tracker S ! i)"
  shows "sb_ok K ok acts fit (S\<lparr>sb_prefetch_tracker := (sb_prefetch_tracker S)[i := p]\<rparr>)"
proof -
  have "map pte_address ((sb_prefetch_tracker S)[i := p]) = map pte_address (sb_prefetch_tracker S)"
    using assms(2,3) by (simp add: map_update) (metis list_update_id nth_map)
  then have once: "tracked_once ((sb_prefetch_tracker S)[i := p])" using assms(1) by (simp only: tracked_once_def sb_ok_def)
  have "sb_prefetch_tracker S ! i \<in> set (sb_prefetch_tracker S)" using assms(2) by simp
  then have "entry_ok K (fit (sb_brain S)) p" using assms(1,4,5) by (simp add: sb_ok_def entry_ok_def)
  then have "\<forall>q\<in>set ((sb_prefetch_tracker S)[i := p]). entry_ok K (fit (sb_brain S)) q"
    using assms(1) set_update_subset_insert [of "sb_prefetch_tracker S" i p] by (auto simp: sb_ok_def)
  then show ?thesis using assms(1) once by (simp add: sb_ok_def ball_Un)
qed

lemma reward_entries_ok:
  assumes "knobs_ok K" "sb_ok K ok acts fit S" "\<forall>i\<in>set is. i < length (sb_prefetch_tracker S)"
  shows "ends {} (sb_ok K ok acts fit) (reward_entries K is S)"
  using assms(2,3)
proof (induction "is" arbitrary: S)
  case Nil
  then show ?case by simp
next
  case (Cons i "is")
  let ?S = "count sbs_pt_found_total_update S" and ?p = "sb_prefetch_tracker S ! i"
  have ok1: "sb_ok K ok acts fit ?S" using framed_sb_ok [OF reward_counts(4) [OF sb_ok_env [OF Cons.prems(1)]] Cons.prems(1)] .
  show ?case
  proof (cases "pte_has_reward ?p")
    case True
    then show ?thesis using framed_sb_ok [OF reward_counts(5) [OF sb_ok_env [OF ok1]] ok1] by (simp add: Let_def)
  next
    case False
    have i: "i < length (sb_prefetch_tracker S)" using Cons.prems(2) by simp
    then have "entry_ok K (fit (sb_brain S)) ?p" using Cons.prems(1) by (simp add: sb_ok_def)
    then have a: "unat (pte_action_index ?p) < MAX_ACTIONS" using action_index_bound [OF assms(1)] by (simp add: entry_ok_def)
    let ?ty = "if pte_is_filled ?p then correct_timely else correct_untimely"
    have "ends {} (sb_ok K ok acts fit) (bind_res (assign_reward K ?ty ?p ?S) (\<lambda>(p, S).
        reward_entries K is (S\<lparr>sb_prefetch_tracker := (sb_prefetch_tracker S)[i := p\<lparr>pte_has_reward := True\<rparr>]\<rparr>)))"
    proof (rule ends_bind [OF assign_reward_ok [OF sb_ok_env [OF ok1] a False]], clarify)
      fix p' S'
      let ?p' = "?p\<lparr>pte_reward := reward_of K (scooby_enable_hbw_reward K \<and> is_high_bw K ?S) ?ty, pte_reward_type := ?ty, pte_has_reward := True\<rparr>"
      assume f: "framed K ?S S'"
      have pt: "sb_prefetch_tracker S' = sb_prefetch_tracker S" using f by (simp add: framed_def tracker_of_def)
      have "sb_ok K ok acts fit (S'\<lparr>sb_prefetch_tracker := (sb_prefetch_tracker S')[i := ?p'\<lparr>pte_has_reward := True\<rparr>]\<rparr>)"
        by (rule sb_ok_put [OF framed_sb_ok [OF f ok1]]) (use i pt in simp_all)
      then show "ends {} (sb_ok K ok acts fit)
          (reward_entries K is (S'\<lparr>sb_prefetch_tracker := (sb_prefetch_tracker S')[i := ?p'\<lparr>pte_has_reward := True\<rparr>]\<rparr>))"
        by (rule Cons.IH) (use Cons.prems(2) pt in simp)
    qed
    then show ?thesis using False by (simp add: Let_def)
  qed
qed

lemma reward_demand_ok:
  assumes "knobs_ok K" "sb_ok K ok acts fit S"
  shows "ends {} (sb_ok K ok acts fit) (reward_demand K address S)"
proof -
  let ?S = "count sbs_demand_called_update S"
  have ok1: "sb_ok K ok acts fit ?S" using framed_sb_ok [OF reward_counts(1) [OF sb_ok_env [OF assms(2)]] assms(2)] .
  show ?thesis
  proof (cases "search_pt address (scooby_enable_reward_all K) (sb_prefetch_tracker S) = []")
    case True
    then show ?thesis using framed_sb_ok [OF reward_counts(2) [OF sb_ok_env [OF ok1]] ok1] by (simp add: reward_demand_def Let_def)
  next
    case False
    have "sb_ok K ok acts fit (count sbs_pt_found_update ?S)" using framed_sb_ok [OF reward_counts(3) [OF sb_ok_env [OF ok1]] ok1] .
    then have "ends {} (sb_ok K ok acts fit) (reward_entries K (search_pt address (scooby_enable_reward_all K) (sb_prefetch_tracker S))
        (count sbs_pt_found_update ?S))"
      by (rule reward_entries_ok [OF assms(1)]) (auto dest: search_pt_set)
    then show ?thesis using False by (simp add: reward_demand_def Let_def)
  qed
qed

text \<open>What \<^verbatim>\<open>track\<close> returns.\<close>

definition tracked_res ::
  "scooby_knobs \<Rightarrow> ('e \<Rightarrow> bool) \<Rightarrow> ('e \<Rightarrow> u32) \<Rightarrow> ('e \<Rightarrow> bool list \<Rightarrow> bool) \<Rightarrow> u64 \<Rightarrow> pythia_state \<Rightarrow> u32 \<Rightarrow> 'e scooby \<Rightarrow>
   bool \<times> bool \<times> 'e scooby \<Rightarrow> bool" where
  "tracked_res K ok acts fit address st a S = (\<lambda>(new_addr, pushed, S').
     new_addr = (address \<notin> pte_address ` set (sb_prefetch_tracker S)) \<and> pushed = (new_addr \<or> address = 0xdeadbeef) \<and>
     (if pushed then sb_open K ok acts fit S' \<and> last (sb_prefetch_tracker S') = Scooby_PTEntry address st a else sb_ok K ok acts fit S') \<and>
     sb_actions S' = sb_actions S \<and> sb_bw_level S' = sb_bw_level S \<and> (\<forall>v. fit (sb_brain S) v \<longrightarrow> fit (sb_brain S') v))"

section \<open>Training\<close>

text \<open>The reward an entry is trained with: its own, or that of a prefetch nobody asked for.\<close>

definition final_reward :: "scooby_knobs \<Rightarrow> 'e scooby \<Rightarrow> pt_entry \<Rightarrow> i32 \<times> reward_type" where
  "final_reward K S p =
     (if pte_has_reward p then (pte_reward p, pte_reward_type p)
      else let ty = (if pte_address p = 0xdeadbeef then none else incorrect) in
        (reward_of K (scooby_enable_hbw_reward K \<and> is_high_bw K S) ty, ty))"

lemma is_high_bw_framed: "framed K S S' \<Longrightarrow> is_high_bw K S' = is_high_bw K S"
  by (simp add: is_high_bw_def framed_def)

lemma reward_evicted_ok:
  assumes "env_ok K S" "unat (pte_action_index p) < MAX_ACTIONS" "\<not> pte_has_reward p"
  shows "ends {} (\<lambda>(p', S'). framed K S S' \<and> p' = p\<lparr>pte_reward := fst (final_reward K S p), pte_reward_type := snd (final_reward K S p), pte_has_reward := True\<rparr>)
    (reward_evicted K p S)"
proof -
  let ?S = "count sbs_train_reward_called_update S" and ?ty = "if pte_address p = 0xdeadbeef then none else incorrect"
  note f = reward_counts(6) [OF assms(1)]
  have "ends {} (\<lambda>(p', S'). framed K S S' \<and> p' = p\<lparr>pte_reward := fst (final_reward K S p), pte_reward_type := snd (final_reward K S p), pte_has_reward := True\<rparr>)
    (bind_res (assign_reward K ?ty p ?S) (\<lambda>(p, S). Inr (p\<lparr>pte_has_reward := True\<rparr>, S)))"
    by (rule ends_bind [OF assign_reward_ok [OF framed_env [OF f] assms(2,3)]])
      (auto intro: framed_trans [OF f] simp: final_reward_def Let_def assms(3) is_high_bw_framed [OF f])
  then show ?thesis using assms(3) by (simp add: reward_evicted_def Let_def)
qed

context learning_engine
begin

lemma train_ok:
  assumes "env_ok K S" "ok (sb_brain S)" "unat (pte_action_index l) < MAX_ACTIONS" "pte_action_index l < actions (sb_brain S)"
    "pte_action_index p < actions (sb_brain S)" "fits (sb_brain S) (pte_consensus_vec l)"
  shows "ends {} (\<lambda>S'. env_ok K S' \<and> sb_prefetch_tracker S' = sb_prefetch_tracker S \<and> sb_last_evicted S' = sb_last_evicted S \<and>
      sb_actions S' = sb_actions S \<and> sb_bw_level S' = sb_bw_level S \<and> ok (sb_brain S') \<and> actions (sb_brain S') = actions (sb_brain S) \<and>
      (\<forall>v. fits (sb_brain S) v \<longrightarrow> fits (sb_brain S') v) \<and>
      learn (pte_state l) (pte_action_index l) (fst (final_reward K S l)) (pte_state p) (pte_action_index p) (pte_consensus_vec l)
        (snd (final_reward K S l)) (sb_brain S) = Inr (sb_brain S'))
    (train \<lparr>eng_choose = pick, eng_learn = learn\<rparr> K p l S)"
proof -
  let ?S = "count sbs_train_called_update S"
  let ?l = "l\<lparr>pte_reward := fst (final_reward K S l), pte_reward_type := snd (final_reward K S l), pte_has_reward := True\<rparr>"
  note f = reward_counts(7) [OF assms(1)]
  have rew: "ends {} (\<lambda>(l', S'). framed K S S' \<and> l' = ?l)
      (if \<not> pte_has_reward l then reward_evicted K l (count sbs_train_compute_reward_update ?S) else Inr (l, ?S))"
  proof (cases "pte_has_reward l")
    case True
    have "l = ?l" using True by (cases l) (simp add: final_reward_def)
    then show ?thesis using True f by simp
  next
    case False
    have g: "framed K S (count sbs_train_compute_reward_update ?S)" using framed_trans [OF f reward_counts(8) [OF framed_env [OF f]]] .
    have same: "final_reward K (count sbs_train_compute_reward_update ?S) l = final_reward K S l"
      by (simp add: final_reward_def is_high_bw_framed [OF g])
    show ?thesis using False reward_evicted_ok [OF framed_env [OF g] assms(3) False] unfolding same
      by (auto elim!: ends_mono intro: framed_trans [OF g])
  qed
  obtain b' where b': "learn (pte_state l) (pte_action_index l) (fst (final_reward K S l)) (pte_state p) (pte_action_index p)
      (pte_consensus_vec l) (snd (final_reward K S l)) (sb_brain S) = Inr b'" "ok b'" "actions b' = actions (sb_brain S)"
      "\<forall>v. fits (sb_brain S) v \<longrightarrow> fits b' v"
    using learn_total [OF assms(2,4,5,6)] by blast
  show ?thesis unfolding train_def Let_def
    by (rule ends_bind [OF rew]) (use b' in \<open>auto simp: framed_def tracker_of_def\<close>)
qed

lemma evict_tracked_ok:
  assumes "knobs_ok K" "sb_ok K ok actions fits S" "sb_prefetch_tracker S = p # ps"
  shows "ends {} (\<lambda>S'. sb_ok K ok actions fits S' \<and> sb_prefetch_tracker S' = ps \<and> sb_last_evicted S' = Some p \<and>
      sb_actions S' = sb_actions S \<and> sb_bw_level S' = sb_bw_level S \<and> (\<forall>v. fits (sb_brain S) v \<longrightarrow> fits (sb_brain S') v) \<and>
      (case sb_last_evicted S of
         None \<Rightarrow> sb_brain S' = sb_brain S
       | Some l \<Rightarrow> learn (pte_state l) (pte_action_index l) (fst (final_reward K S l)) (pte_state p) (pte_action_index p) (pte_consensus_vec l)
          (snd (final_reward K S l)) (sb_brain S) = Inr (sb_brain S')))
    (evict_tracked \<lparr>eng_choose = pick, eng_learn = learn\<rparr> K S)"
proof -
  let ?S = "count sbs_track_evict_update S"
  have s: "env_ok K S" "ok (sb_brain S)" "actions (sb_brain S) = scooby_max_actions K" "length (p # ps) \<le> unat (scooby_pt_size K)"
    "tracked_once (p # ps)" "\<forall>q\<in>set (p # ps) \<union> set_option (sb_last_evicted S). entry_ok K (fits (sb_brain S)) q"
    using assms(2,3) by (simp_all add: sb_ok_def)
  note f = reward_counts(11) [OF s(1)]
  have once: "tracked_once ps" using s(5) by (simp add: tracked_once_def split: if_splits)
  have e: "evict_tracked \<lparr>eng_choose = pick, eng_learn = learn\<rparr> K S =
      bind_res (case sb_last_evicted S of None \<Rightarrow> Inr (?S\<lparr>sb_prefetch_tracker := ps\<rparr>)
        | Some l \<Rightarrow> train \<lparr>eng_choose = pick, eng_learn = learn\<rparr> K p l (?S\<lparr>sb_prefetch_tracker := ps\<rparr>))
        (\<lambda>S. Inr (S\<lparr>sb_last_evicted := Some p\<rparr>))"
    by (simp add: evict_tracked_def Let_def assms(3))
  have p: "entry_ok K (fits (sb_brain S)) p" using s(6) by simp
  show ?thesis
  proof (cases "sb_last_evicted S")
    case None
    have "sb_ok K ok actions fits (?S\<lparr>sb_prefetch_tracker := ps, sb_last_evicted := Some p\<rparr>)"
      using s once framed_env [OF f] by (simp add: sb_ok_def)
    then show ?thesis unfolding e using None by simp
  next
    case (Some l)
    have l: "entry_ok K (fits (sb_brain S)) l" using s(6) Some by simp
    let ?T = "?S\<lparr>sb_prefetch_tracker := ps\<rparr>"
    have same: "final_reward K ?T l = final_reward K S l" by (simp add: final_reward_def is_high_bw_def)
    have "ends {} (\<lambda>S'. env_ok K S' \<and> sb_prefetch_tracker S' = sb_prefetch_tracker ?T \<and> sb_last_evicted S' = sb_last_evicted ?T \<and>
      sb_actions S' = sb_actions ?T \<and> sb_bw_level S' = sb_bw_level ?T \<and> ok (sb_brain S') \<and> actions (sb_brain S') = actions (sb_brain ?T) \<and>
      (\<forall>v. fits (sb_brain ?T) v \<longrightarrow> fits (sb_brain S') v) \<and>
      learn (pte_state l) (pte_action_index l) (fst (final_reward K ?T l)) (pte_state p) (pte_action_index p) (pte_consensus_vec l)
        (snd (final_reward K ?T l)) (sb_brain ?T) = Inr (sb_brain S'))
      (train \<lparr>eng_choose = pick, eng_learn = learn\<rparr> K p l ?T)"
      using s l p framed_env [OF f] action_index_bound [OF assms(1)] by (intro train_ok) (simp_all add: entry_ok_def)
    note tr = this [unfolded same]
    have "sb_ok K ok actions fits (S'\<lparr>sb_last_evicted := Some p\<rparr>)"
      if "env_ok K S'" "sb_prefetch_tracker S' = ps" "ok (sb_brain S')" "actions (sb_brain S') = actions (sb_brain S)"
        "\<forall>v. fits (sb_brain S) v \<longrightarrow> fits (sb_brain S') v" for S'
      using that s once p by (simp add: sb_ok_def entry_ok_def)
    then show ?thesis unfolding e Some option.case by (intro ends_bind [OF tr]) simp
  qed
qed

lemma track_ok:
  assumes "knobs_ok K" "sb_ok K ok actions fits S" "a < scooby_max_actions K"
  shows "ends {} (tracked_res K ok actions fits address st a S)
    (track \<lparr>eng_choose = pick, eng_learn = learn\<rparr> K address st a S)"
proof -
  let ?S = "count sbs_track_called_update S" and ?new = "address \<notin> pte_address ` set (sb_prefetch_tracker S)"
  have ok1: "sb_ok K ok actions fits ?S" using framed_sb_ok [OF reward_counts(9) [OF sb_ok_env [OF assms(2)]] assms(2)] .
  have mult: "\<not> scooby_enable_track_multiple K" using assms(1) by (simp add: knobs_ok_def)
  show ?thesis
  proof (cases "\<not> ?new \<and> address \<noteq> 0xdeadbeef")
    case True
    have "sb_ok K ok actions fits (count sbs_track_same_address_update ?S)"
      using framed_sb_ok [OF reward_counts(10) [OF sb_ok_env [OF ok1]] ok1] .
    then show ?thesis using True mult by (simp add: track_def Let_def search_pt_none tracked_res_def)
  next
    case False
    let ?new_addr = "search_pt address False (sb_prefetch_tracker S) = []"
    have e: "track \<lparr>eng_choose = pick, eng_learn = learn\<rparr> K address st a S =
        bind_res (if unat (scooby_pt_size K) \<le> length (sb_prefetch_tracker S)
            then evict_tracked \<lparr>eng_choose = pick, eng_learn = learn\<rparr> K ?S else Inr ?S) (\<lambda>S.
          let S = S\<lparr>sb_prefetch_tracker := sb_prefetch_tracker S @ [Scooby_PTEntry address st a]\<rparr> in
          if length (sb_prefetch_tracker S) \<le> unat (scooby_pt_size K) then Inr (?new_addr, True, S) else Inl Assert_failed)"
      using False by (simp only: track_def Let_def search_pt_none count_fields mult) auto
    have room: "ends {} (\<lambda>S'. sb_ok K ok actions fits S' \<and> length (sb_prefetch_tracker S') < unat (scooby_pt_size K) \<and>
        set (sb_prefetch_tracker S') \<subseteq> set (sb_prefetch_tracker S) \<and>
        sb_actions S' = sb_actions S \<and> sb_bw_level S' = sb_bw_level S \<and> (\<forall>v. fits (sb_brain S) v \<longrightarrow> fits (sb_brain S') v))
      (if unat (scooby_pt_size K) \<le> length (sb_prefetch_tracker S)
            then evict_tracked \<lparr>eng_choose = pick, eng_learn = learn\<rparr> K ?S else Inr ?S)"
    proof (cases "unat (scooby_pt_size K) \<le> length (sb_prefetch_tracker S)")
      case True
      moreover have "0 < unat (scooby_pt_size K)" using assms(1) by (simp add: knobs_ok_def unat_pos)
      ultimately obtain p ps where pt: "sb_prefetch_tracker ?S = p # ps" by (cases "sb_prefetch_tracker S") auto
      have len: "length ps < unat (scooby_pt_size K)" using assms(2) pt by (simp add: sb_ok_def)
      have sub: "set ps \<subseteq> set (sb_prefetch_tracker S)" using pt by auto
      show ?thesis using True by simp (rule ends_mono [OF evict_tracked_ok [OF assms(1) ok1 pt]], use len sub in auto)
    next
      case False
      then show ?thesis using ok1 by simp
    qed
    show ?thesis unfolding e
    proof (rule ends_bind [OF room])
      fix S1
      assume S1: "sb_ok K ok actions fits S1 \<and> length (sb_prefetch_tracker S1) < unat (scooby_pt_size K) \<and>
        set (sb_prefetch_tracker S1) \<subseteq> set (sb_prefetch_tracker S) \<and>
        sb_actions S1 = sb_actions S \<and> sb_bw_level S1 = sb_bw_level S \<and> (\<forall>v. fits (sb_brain S) v \<longrightarrow> fits (sb_brain S1) v)"
      let ?T = "S1\<lparr>sb_prefetch_tracker := sb_prefetch_tracker S1 @ [Scooby_PTEntry address st a]\<rparr>"
      have "address = 0xdeadbeef \<or> address \<notin> pte_address ` set (sb_prefetch_tracker S1)" using False S1 by blast
      moreover have "tracked_once (sb_prefetch_tracker S1)" using S1 by (simp add: sb_ok_def)
      ultimately have "tracked_once (sb_prefetch_tracker S1 @ [Scooby_PTEntry address st a])"
        by (auto simp: tracked_once_def Scooby_PTEntry_def)
      then have "sb_open K ok actions fits ?T" using S1 assms(3) by (simp add: sb_open_def Scooby_PTEntry_def)
      then show "ends {} (tracked_res K ok actions fits address st a S)
        (let S = ?T in if length (sb_prefetch_tracker S) \<le> unat (scooby_pt_size K) then Inr (?new_addr, True, S) else Inl Assert_failed)"
        using S1 False by (auto simp: Let_def search_pt_none tracked_res_def)
    qed
  qed
qed

end

section \<open>Predictions\<close>

lemma set_consensus_ok:
  assumes "sb_open K ok acts fit S" "fit (sb_brain S) vec"
  shows "ends {} (\<lambda>S'. sb_ok K ok acts fit S' \<and> sb_actions S' = sb_actions S \<and> sb_bw_level S' = sb_bw_level S \<and> sb_brain S' = sb_brain S) (set_consensus True vec S)"
proof -
  obtain ps p where pt: "sb_prefetch_tracker S = ps @ [p]" using assms(1) by (cases "sb_prefetch_tracker S" rule: rev_cases) (auto simp: sb_open_def)
  have "tracked_once (ps @ [p\<lparr>pte_consensus_vec := vec\<rparr>])" using assms(1) pt by (simp add: sb_open_def tracked_once_def)
  then show ?thesis using assms pt by (auto simp: set_consensus_def sb_open_def sb_ok_def entry_ok_def)
qed

lemma reward_pushed_ok:
  assumes "knobs_ok K" "sb_open K ok acts fit S" "\<not> pte_has_reward (last (sb_prefetch_tracker S))"
  shows "ends {} (\<lambda>S'. sb_open K ok acts fit S' \<and> sb_actions S' = sb_actions S \<and> sb_bw_level S' = sb_bw_level S \<and> sb_brain S' = sb_brain S)
    (reward_pushed K ty True S)"
proof -
  obtain ps p where pt: "sb_prefetch_tracker S = ps @ [p]" using assms(2) by (cases "sb_prefetch_tracker S" rule: rev_cases) (auto simp: sb_open_def)
  have a: "unat (pte_action_index p) < MAX_ACTIONS" using assms(2) pt action_index_bound [OF assms(1)] by (simp add: sb_open_def)
  have r: "\<not> pte_has_reward p" using assms(3) pt by simp
  have "ends {} (\<lambda>S'. sb_open K ok acts fit S' \<and> sb_actions S' = sb_actions S \<and> sb_bw_level S' = sb_bw_level S \<and> sb_brain S' = sb_brain S)
      (bind_res (assign_reward K ty p S) (\<lambda>(p, S). Inr (S\<lparr>sb_prefetch_tracker := butlast (sb_prefetch_tracker S) @ [p]\<rparr>)))"
  proof (rule ends_bind [OF assign_reward_ok [OF sb_open_env [OF assms(2)] a r]], clarify)
    fix p' S'
    let ?p = "p\<lparr>pte_reward := reward_of K (scooby_enable_hbw_reward K \<and> is_high_bw K S) ty, pte_reward_type := ty, pte_has_reward := True\<rparr>"
    assume f: "framed K S S'"
    have pt': "sb_prefetch_tracker S' = ps @ [p]" using f pt by (simp add: framed_def tracker_of_def)
    have f2: "sb_actions S' = sb_actions S" "sb_bw_level S' = sb_bw_level S" "sb_brain S' = sb_brain S"
      using f by (simp_all add: framed_def tracker_of_def)
    have "sb_open K ok acts fit S'" using framed_sb_open [OF f assms(2)] .
    then have "sb_open K ok acts fit (S'\<lparr>sb_prefetch_tracker := ps @ [?p]\<rparr>)" using pt' by (simp add: sb_open_def tracked_once_def)
    then show "ends {} (\<lambda>S'. sb_open K ok acts fit S' \<and> sb_actions S' = sb_actions S \<and> sb_bw_level S' = sb_bw_level S \<and> sb_brain S' = sb_brain S)
        (Inr (S'\<lparr>sb_prefetch_tracker := butlast (sb_prefetch_tracker S') @ [?p]\<rparr>))"
      using f2 by (simp add: pt')
  qed
  then show ?thesis using pt by (simp add: reward_pushed_def)
qed

text \<open>The number of prefetches of an access.\<close>

definition prefetch_bound :: "scooby_knobs \<Rightarrow> nat" where
  "prefetch_bound K = (if scooby_enable_featurewise_engine K \<and> scooby_enable_dyn_degree K then MAX_SCOOBY_DEGREE
     else max 1 (unat (scooby_pref_degree K)))"

context learning_engine
begin

lemma choose_action_ok:
  assumes "knobs_ok K" "sb_ok K ok actions fits S"
  shows "ends {} (\<lambda>(a, d, vec, S'). a < scooby_max_actions K \<and> unat d \<le> MAX_SCOOBY_DEGREE \<and> unat d \<le> prefetch_bound K \<and>
      fits (sb_brain S') vec \<and> sb_ok K ok actions fits S' \<and> sb_actions S' = sb_actions S \<and> sb_bw_level S' = sb_bw_level S)
    (choose_action \<lparr>eng_choose = pick, eng_learn = learn\<rparr> K page st S)"
proof -
  obtain a vec b where c: "pick st (sb_brain S) = Inr (a, vec, b)" "a < actions (sb_brain S)" "ok b" "actions b = actions (sb_brain S)"
    "fits b vec" "\<forall>v. fits (sb_brain S) v \<longrightarrow> fits b v"
    using pick_total [of "sb_brain S" st] assms(2) unfolding sb_ok_def by blast
  let ?S = "S\<lparr>sb_brain := b\<rparr>"
  have a: "a < scooby_max_actions K" using c(2) assms(2) by (simp add: sb_ok_def)
  have ok1: "sb_ok K ok actions fits ?S" using assms(2) c(3,4,6) by (auto simp: sb_ok_def entry_ok_def)
  note env = sb_ok_env [OF ok1]
  have in_range: "unat a < length (sb_actions ?S)" using env a by (simp add: env_ok_def word_less_nat_alt)
  have done_ok: "a < scooby_max_actions K \<and> fits (sb_brain S') vec \<and> sb_ok K ok actions fits S' \<and> sb_actions S' = sb_actions S \<and> sb_bw_level S' = sb_bw_level S"
    if "framed K ?S S'" for S'
    using a c(5) framed_sb_ok [OF that ok1] that by (simp add: framed_def tracker_of_def)
  show ?thesis
  proof (cases "scooby_enable_featurewise_engine K")
    case True
    have deg: "ends {} (\<lambda>d. degree_fits K d \<and> unat d \<le> prefetch_bound K)
       (if scooby_enable_dyn_degree K
                 then if unat a < length (sb_actions ?S)
                      then get_dyn_pref_degree K page (sb_actions ?S ! unat a) ?S else Inl Out_of_bounds
                 else Inr (scooby_pref_degree K))"
    proof (cases "scooby_enable_dyn_degree K")
      case dyn: True
      have "ends {} (degree_fits K) (get_dyn_pref_degree K page (sb_actions ?S ! unat a) ?S)" by (rule dyn_degree_ok [OF assms(1)])
      then have "ends {} (\<lambda>d. degree_fits K d \<and> unat d \<le> prefetch_bound K) (get_dyn_pref_degree K page (sb_actions ?S ! unat a) ?S)"
        by (rule ends_mono) (simp_all add: prefetch_bound_def True dyn degree_fits_def)
      then show ?thesis using dyn in_range by simp
    next
      case False
      then show ?thesis using assms(1) by (simp add: prefetch_bound_def knobs_ok_def)
    qed
    have st: "ends {} (framed K ?S) (if scooby_enable_state_action_stats K then update_stats_state K st a d ?S else Inr ?S)"
      if "degree_fits K d" for d
      using that update_stats_state_ok [OF env a] framed_refl [OF env] by (simp add: degree_fits_def)
    have "ends {} (\<lambda>(a, d, vec, S'). a < scooby_max_actions K \<and> unat d \<le> MAX_SCOOBY_DEGREE \<and> unat d \<le> prefetch_bound K \<and>
        fits (sb_brain S') vec \<and> sb_ok K ok actions fits S' \<and> sb_actions S' = sb_actions S \<and> sb_bw_level S' = sb_bw_level S)
      (bind_res (if scooby_enable_state_action_stats K then update_stats_state K st a d ?S else Inr ?S) (\<lambda>S. Inr (a, d, vec, S)))"
      if "degree_fits K d \<and> unat d \<le> prefetch_bound K" for d
      using that done_ok by (intro ends_bind [OF st]) (auto simp: degree_fits_def)
    note rest = this
    have e: "choose_action \<lparr>eng_choose = pick, eng_learn = learn\<rparr> K page st S =
      bind_res (if scooby_enable_dyn_degree K
                 then if unat a < length (sb_actions ?S)
                      then get_dyn_pref_degree K page (sb_actions ?S ! unat a) ?S else Inl Out_of_bounds
                 else Inr (scooby_pref_degree K)) (\<lambda>d.
        bind_res (if scooby_enable_state_action_stats K then update_stats_state K st a d ?S else Inr ?S) (\<lambda>S. Inr (a, d, vec, S)))"
      using True c(1) by (simp add: choose_action_def Let_def)
    show ?thesis unfolding e by (rule ends_bind [OF deg rest])
  next
    case False
    have "state_knobs_ok (state_knobs.truncate K)" using assms(1) by (simp add: knobs_ok_def)
    then obtain v where "state_value (state_knobs.truncate K) st = Inr v" using state_value_ok unfolding state_knobs_ok_def by blast
    then have st: "ends {} (framed K ?S) (if scooby_enable_state_action_stats K
                 then bind_res (state_value (state_knobs.truncate K) st) (\<lambda>state_index. update_stats_index K state_index a ?S)
                 else Inr ?S)"
      using update_stats_index_ok [OF env a] framed_refl [OF env] by simp
    have d: "unat (scooby_pref_degree K) \<le> MAX_SCOOBY_DEGREE" "unat (scooby_pref_degree K) \<le> prefetch_bound K"
      using assms(1) False by (simp_all add: knobs_ok_def degree_fits_def prefetch_bound_def)
    have e: "choose_action \<lparr>eng_choose = pick, eng_learn = learn\<rparr> K page st S =
      bind_res (if scooby_enable_state_action_stats K
                 then bind_res (state_value (state_knobs.truncate K) st) (\<lambda>state_index. update_stats_index K state_index a ?S)
                 else Inr ?S) (\<lambda>S. Inr (a, scooby_pref_degree K, vec, S))"
      using False c(1) by (simp add: choose_action_def Let_def)
    show ?thesis unfolding e by (rule ends_bind [OF st]) (use done_ok d in simp)
  qed
qed

text \<open>The entry that \<^verbatim>\<open>track\<close> pushed is given its vector, and a reward first where the code does so.\<close>

lemma finish_ok:
  assumes "sb_open K ok actions fits S" "fits (sb_brain S) vec" "sb_actions S = as" "sb_bw_level S = bw"
  shows "ends A (\<lambda>(out, S'). sb_ok K ok actions fits S' \<and> sb_actions S' = as \<and> sb_bw_level S' = bw \<and> out = xs)
    (bind_res (set_consensus True vec S) (\<lambda>S. Inr (xs, S)))"
  by (rule ends_mono [OF ends_bind [OF set_consensus_ok [OF assms(1,2)]], of "\<lambda>(out, S'). sb_ok K ok actions fits S' \<and> sb_actions S' = as \<and> sb_bw_level S' = bw \<and> out = xs"])
    (use assms(3,4) in auto)

lemma track_reward_ok:
  assumes "knobs_ok K" "sb_ok K ok actions fits S" "a < scooby_max_actions K" "fits (sb_brain S) vec"
  shows "ends {} (\<lambda>(out, S'). sb_ok K ok actions fits S' \<and> sb_actions S' = sb_actions S \<and> sb_bw_level S' = sb_bw_level S \<and> out = [])
    (bind_res (track \<lparr>eng_choose = pick, eng_learn = learn\<rparr> K 0xdeadbeef st a S) (\<lambda>(new_addr, pushed, S).
       bind_res (reward_pushed K ty pushed S) (\<lambda>S. bind_res (set_consensus pushed vec S) (\<lambda>S. Inr ([], S)))))"
proof (rule ends_bind [OF track_ok [OF assms(1-3), of "0xdeadbeef" st]])
  fix x assume x: "tracked_res K ok actions fits 0xdeadbeef st a S x"
  obtain n p S1 where x1: "x = (n, p, S1)" by (cases x)
  have p: "p = True" using x unfolding tracked_res_def x1 by simp
  have S1: "sb_open K ok actions fits S1" "\<not> pte_has_reward (last (sb_prefetch_tracker S1))" "sb_actions S1 = sb_actions S"
    "sb_bw_level S1 = sb_bw_level S" "fits (sb_brain S1) vec"
    using x assms(4) unfolding tracked_res_def x1 p by (simp_all add: Scooby_PTEntry_def)
  show "ends {} (\<lambda>(out, S'). sb_ok K ok actions fits S' \<and> sb_actions S' = sb_actions S \<and> sb_bw_level S' = sb_bw_level S \<and> out = [])
    (case x of (new_addr, pushed, S) \<Rightarrow> bind_res (reward_pushed K ty pushed S) (\<lambda>S. bind_res (set_consensus pushed vec S) (\<lambda>S. Inr ([], S))))"
    unfolding x1 p prod.case
    by (rule ends_bind [OF reward_pushed_ok [OF assms(1) S1(1,2)]], rule finish_ok) (use S1 in auto)
qed

lemma issue_prefetch_ok:
  assumes "knobs_ok K" "sb_ok K ok actions fits S" "a < scooby_max_actions K" "fits (sb_brain S) vec"
    "in_page_offset (off + action)" "unat d \<le> MAX_SCOOBY_DEGREE" "unat d \<le> prefetch_bound K"
  shows "ends {Invalid_iterator} (\<lambda>(out, S'). sb_ok K ok actions fits S' \<and> sb_actions S' = sb_actions S \<and> sb_bw_level S' = sb_bw_level S \<and>
      list_all (good_prefetch addr) out \<and> length out \<le> prefetch_bound K)
    (issue_prefetch \<lparr>eng_choose = pick, eng_learn = learn\<rparr> K (page_of addr) off st a action d vec S)"
proof -
  let ?line = "line_address (page_of addr) (off + action)"
  let ?Q = "\<lambda>(out, S'). sb_ok K ok actions fits S' \<and> sb_actions S' = sb_actions S \<and> sb_bw_level S' = sb_bw_level S \<and>
      list_all (good_prefetch addr) out \<and> length out \<le> prefetch_bound K"
  have in_page: "off + action < 64" using assms(5) by (simp add: in_page_offset_iff)
  then have good: "good_prefetch addr ?line" by (rule good_prefetch_line_address)
  have aligned: "?line \<noteq> 0xdeadbeef"
  proof
    assume "?line = 0xdeadbeef"
    then have "line_aligned (0xdeadbeef :: u64)" using good by (simp add: good_prefetch_def)
    then show False by (simp add: line_aligned_def)
  qed
  have pos: "1 \<le> prefetch_bound K" by (simp add: prefetch_bound_def MAX_SCOOBY_DEGREE_def)
  have hit: "ends {Invalid_iterator} ?Q
      (bind_res (bump_stat sbs_pred_hit sbs_pred_hit_update (unat a) S1) (\<lambda>S.
         if scooby_enable_reward_tracker_hit K then
           bind_res (track \<lparr>eng_choose = pick, eng_learn = learn\<rparr> K 0xdeadbeef st a S) (\<lambda>(new_addr, pushed, S).
           bind_res (reward_pushed K tracker_hit pushed S) (\<lambda>S. bind_res (set_consensus pushed vec S) (\<lambda>S. Inr ([], S))))
         else Inr ([], S)))"
    if S1: "sb_ok K ok actions fits S1" "sb_actions S1 = sb_actions S" "sb_bw_level S1 = sb_bw_level S" "fits (sb_brain S1) vec" for S1
  proof (rule ends_bind_total [OF action_stats(3) [OF sb_ok_env [OF S1(1)] assms(3)]])
    fix S2
    assume f: "framed K S1 S2"
    have ok2: "sb_ok K ok actions fits S2" "sb_actions S2 = sb_actions S" "sb_bw_level S2 = sb_bw_level S" "fits (sb_brain S2) vec"
      using framed_sb_ok [OF f S1(1)] f S1(2-4) by (simp_all add: framed_def tracker_of_def)
    show "ends {Invalid_iterator} ?Q
      (if scooby_enable_reward_tracker_hit K then
           bind_res (track \<lparr>eng_choose = pick, eng_learn = learn\<rparr> K 0xdeadbeef st a S2) (\<lambda>(new_addr, pushed, S).
           bind_res (reward_pushed K tracker_hit pushed S) (\<lambda>S. bind_res (set_consensus pushed vec S) (\<lambda>S. Inr ([], S))))
         else Inr ([], S2))"
    proof (cases "scooby_enable_reward_tracker_hit K")
      case True
      show ?thesis using True by simp (rule ends_mono [OF track_reward_ok [OF assms(1) ok2(1) assms(3) ok2(4)]], use ok2 in auto)
    next
      case False
      then show ?thesis using ok2 by simp
    qed
  qed
  have fresh: "ends {Invalid_iterator} ?Q
      (bind_res (track_in_st K (page_of addr) (off + action) action S1) (\<lambda>S.
       bind_res (bump_stat sbs_issue_dist sbs_issue_dist_update (unat a) S) (\<lambda>S.
       bind_res (if d > 1 then gen_multi_degree_pref (page_of addr) off action d S else Inr ([], S)) (\<lambda>(out, S).
       bind_res (bump_stat sbs_deg_histogram sbs_deg_histogram_update (unat d) S) (\<lambda>S.
       bind_res (set_consensus True vec S) (\<lambda>S. Inr (?line # out, S)))))))"
    if S1: "sb_open K ok actions fits S1" "sb_actions S1 = sb_actions S" "sb_bw_level S1 = sb_bw_level S" "fits (sb_brain S1) vec" for S1
  proof (rule ends_bind [OF track_in_st_ok [OF assms(1) sb_open_env [OF S1(1)] in_page]])
    fix S2
    assume f2: "framed K S1 S2"
    show "ends {Invalid_iterator} ?Q
       (bind_res (bump_stat sbs_issue_dist sbs_issue_dist_update (unat a) S2) (\<lambda>S.
       bind_res (if d > 1 then gen_multi_degree_pref (page_of addr) off action d S else Inr ([], S)) (\<lambda>(out, S).
       bind_res (bump_stat sbs_deg_histogram sbs_deg_histogram_update (unat d) S) (\<lambda>S.
       bind_res (set_consensus True vec S) (\<lambda>S. Inr (?line # out, S))))))"
    proof (rule ends_bind_total [OF action_stats(2) [OF framed_env [OF f2] assms(3)]])
      fix S3
      assume f3: "framed K S2 S3"
      have many: "ends {} (\<lambda>(out, S'). framed K S3 S' \<and> list_all (good_prefetch addr) out \<and> length out \<le> unat d - 1)
          (if d > 1 then gen_multi_degree_pref (page_of addr) off action d S3 else Inr ([], S3))"
        using gen_multi_degree_ok [OF framed_env [OF f3] assms(6)] framed_refl [OF framed_env [OF f3]] by simp
      show "ends {Invalid_iterator} ?Q
        (bind_res (if d > 1 then gen_multi_degree_pref (page_of addr) off action d S3 else Inr ([], S3)) (\<lambda>(out, S).
         bind_res (bump_stat sbs_deg_histogram sbs_deg_histogram_update (unat d) S) (\<lambda>S.
         bind_res (set_consensus True vec S) (\<lambda>S. Inr (?line # out, S)))))"
      proof (rule ends_bind_total [OF many], clarify)
        fix out S4
        assume f4: "framed K S3 S4" and out: "list_all (good_prefetch addr) out" "length out \<le> unat d - 1"
        have g4: "framed K S1 S4" using f2 f3 f4 framed_trans by blast
        show "ends {Invalid_iterator} ?Q
          (bind_res (bump_stat sbs_deg_histogram sbs_deg_histogram_update (unat d) S4) (\<lambda>S.
           bind_res (set_consensus True vec S) (\<lambda>S. Inr (?line # out, S))))"
        proof (rule ends_bind_total [OF degree_stats(1) [OF framed_env [OF g4] assms(6)]])
          fix S5
          assume "framed K S4 S5"
          then have g5: "framed K S1 S5" using g4 framed_trans by blast
          have S5: "sb_open K ok actions fits S5" "fits (sb_brain S5) vec" "sb_actions S5 = sb_actions S" "sb_bw_level S5 = sb_bw_level S"
            using framed_sb_open [OF g5 S1(1)] g5 S1(2-4) by (simp_all add: framed_def tracker_of_def)
          have "length (?line # out) \<le> prefetch_bound K" using out(2) assms(7) pos by simp
          then show "ends {Invalid_iterator} ?Q (bind_res (set_consensus True vec S5) (\<lambda>S. Inr (?line # out, S)))"
            using good out(1) by (intro ends_mono [OF finish_ok [OF S5, where A = "{}"]]) auto
        qed
      qed
    qed
  qed
  show ?thesis unfolding issue_prefetch_def Let_def
  proof (rule ends_bind_total [OF track_ok [OF assms(1-3), of ?line st]])
    fix x assume x: "tracked_res K ok actions fits ?line st a S x"
    obtain n p S1 where x1: "x = (n, p, S1)" by (cases x)
    have a1: "if p then sb_open K ok actions fits S1 else sb_ok K ok actions fits S1" "n = (?line \<notin> pte_address ` set (sb_prefetch_tracker S))"
      "p = (n \<or> ?line = 0xdeadbeef)" and a3: "sb_actions S1 = sb_actions S" "sb_bw_level S1 = sb_bw_level S" "fits (sb_brain S1) vec"
      using x assms(4) unfolding tracked_res_def x1 by (auto split: if_splits)
    show "ends {Invalid_iterator} ?Q (case x of (new_addr, pushed, S) \<Rightarrow>
        if new_addr then
          bind_res (track_in_st K (page_of addr) (off + action) action S) (\<lambda>S.
          bind_res (bump_stat sbs_issue_dist sbs_issue_dist_update (unat a) S) (\<lambda>S.
          bind_res (if 1 < d then gen_multi_degree_pref (page_of addr) off action d S else Inr ([], S)) (\<lambda>(out, S).
          bind_res (bump_stat sbs_deg_histogram sbs_deg_histogram_update (unat d) S) (\<lambda>S.
          bind_res (set_consensus pushed vec S) (\<lambda>S. Inr (?line # out, S))))))
        else
          bind_res (bump_stat sbs_pred_hit sbs_pred_hit_update (unat a) S) (\<lambda>S.
            if scooby_enable_reward_tracker_hit K then
              bind_res (track \<lparr>eng_choose = pick, eng_learn = learn\<rparr> K 0xdeadbeef st a S) (\<lambda>(new_addr, pushed, S).
              bind_res (reward_pushed K tracker_hit pushed S) (\<lambda>S.
              bind_res (set_consensus pushed vec S) (\<lambda>S. Inr ([], S))))
            else Inr ([], S)))"
      unfolding x1 prod.case
    proof (cases n)
      case True
      then have p: "p = True" using a1(3) by simp
      have "sb_open K ok actions fits S1" using a1(1) p by simp
      then show "ends {Invalid_iterator} ?Q (if n then
          bind_res (track_in_st K (page_of addr) (off + action) action S1) (\<lambda>S.
          bind_res (bump_stat sbs_issue_dist sbs_issue_dist_update (unat a) S) (\<lambda>S.
          bind_res (if 1 < d then gen_multi_degree_pref (page_of addr) off action d S else Inr ([], S)) (\<lambda>(out, S).
          bind_res (bump_stat sbs_deg_histogram sbs_deg_histogram_update (unat d) S) (\<lambda>S.
          bind_res (set_consensus p vec S) (\<lambda>S. Inr (?line # out, S))))))
        else
          bind_res (bump_stat sbs_pred_hit sbs_pred_hit_update (unat a) S1) (\<lambda>S.
            if scooby_enable_reward_tracker_hit K then
              bind_res (track \<lparr>eng_choose = pick, eng_learn = learn\<rparr> K 0xdeadbeef st a S) (\<lambda>(new_addr, pushed, S).
              bind_res (reward_pushed K tracker_hit pushed S) (\<lambda>S.
              bind_res (set_consensus pushed vec S) (\<lambda>S. Inr ([], S))))
            else Inr ([], S)))"
        using fresh [OF _ a3] True unfolding p by (simp only: if_True)
    next
      case False
      then have "\<not> p" using a1(2,3) aligned by simp
      then have "sb_ok K ok actions fits S1" using a1(1) by simp
      then show "ends {Invalid_iterator} ?Q (if n then
          bind_res (track_in_st K (page_of addr) (off + action) action S1) (\<lambda>S.
          bind_res (bump_stat sbs_issue_dist sbs_issue_dist_update (unat a) S) (\<lambda>S.
          bind_res (if 1 < d then gen_multi_degree_pref (page_of addr) off action d S else Inr ([], S)) (\<lambda>(out, S).
          bind_res (bump_stat sbs_deg_histogram sbs_deg_histogram_update (unat d) S) (\<lambda>S.
          bind_res (set_consensus p vec S) (\<lambda>S. Inr (?line # out, S))))))
        else
          bind_res (bump_stat sbs_pred_hit sbs_pred_hit_update (unat a) S1) (\<lambda>S.
            if scooby_enable_reward_tracker_hit K then
              bind_res (track \<lparr>eng_choose = pick, eng_learn = learn\<rparr> K 0xdeadbeef st a S) (\<lambda>(new_addr, pushed, S).
              bind_res (reward_pushed K tracker_hit pushed S) (\<lambda>S.
              bind_res (set_consensus pushed vec S) (\<lambda>S. Inr ([], S))))
            else Inr ([], S)))"
        using hit [OF _ a3] False by (simp only: if_False)
    qed
  qed
qed

end

end
