(* ===== verification/BrainInit.thy ===== *)
theory BrainInit
  imports ScoobyRun
begin

text \<open>
  The construction of the learning engine by the constructor of the prefetcher
  (\<^verbatim>\<open>prefetcher/scooby.cc\<close>): the knob selects one of the two engines, and with usable
  knobs the engine it builds satisfies the invariant that \<^verbatim>\<open>Engine\<close> asks for.
\<close>

record 'f brain_params =
  scooby_alpha :: 'f
  scooby_gamma :: 'f
  scooby_epsilon :: 'f
  scooby_seed :: u32
  scooby_policy :: string
  scooby_learning_type :: string
  scooby_brain_zero_init :: bool
  scooby_early_exploration_window :: u64
  scooby_features :: "'f featurewise_floats"

definition brain_init ::
  "'f float_ops \<Rightarrow> (u64 \<Rightarrow> 'g) \<Rightarrow> featurewise_knobs \<Rightarrow> 'f brain_params \<Rightarrow> scooby_knobs \<Rightarrow> ('f, 'g) brain res" where
  "brain_init F seed_gen W P K =
     (if scooby_enable_featurewise_engine K
      then bind_res (LearningEngineFeaturewise_init F (scooby_features P) W seed_gen (scooby_alpha P) (scooby_gamma P) (scooby_epsilon P)
             (scooby_max_actions K) (ucast (scooby_seed P)) (scooby_policy P) (scooby_learning_type P) (scooby_brain_zero_init P))
           (\<lambda>e. Inr (Features e))
      else bind_res (LearningEngineBasic_init F seed_gen (scooby_alpha P) (scooby_gamma P) (scooby_epsilon P)
             (scooby_max_actions K) (scooby_max_states K) (ucast (scooby_seed P)) (scooby_policy P) (scooby_learning_type P)
             (scooby_brain_zero_init P) (scooby_early_exploration_window P))
           (\<lambda>e. Inr (Basic e)))"

text \<open>What the lists of the featurewise engine have to hold for its constructor: an entry for each active feature.\<close>

definition feature_config_ok :: "'f featurewise_floats \<Rightarrow> featurewise_knobs \<Rightarrow> nat \<Rightarrow> bool" where
  "feature_config_ok X W i \<longleftrightarrow>
     i < length (fw_active_features W) \<and> i < length (fw_feature_weights X) \<and> i < length (fw_num_tilings W) \<and>
     i < length (fw_num_tiles W) \<and> i < length (fw_hash_types W) \<and> i < length (fw_enable_tiling_offset W) \<and>
     unat (fw_active_features W ! i) < NumFeatureTypes \<and> unat (fw_num_tilings W ! i) \<le> FK_MAX_TILINGS \<and>
     (fw_num_tilings W ! i = 1 \<or> fw_enable_tiling_offset W ! i \<noteq> 0) \<and> 0 < fw_num_tiles W ! i \<and> good_hash (fw_hash_types W ! i)"

definition featurewise_config_ok :: "'f featurewise_floats \<Rightarrow> featurewise_knobs \<Rightarrow> bool" where
  "featurewise_config_ok X W \<longleftrightarrow> (fw_pooling_type W = 1 \<or> fw_pooling_type W = 2) \<and> \<not> fk_enable_trace W \<and>
     (\<forall>i<length (fw_active_features W). feature_config_ok X W i)"

lemma no_trace: "\<not> fk_enable_trace W \<Longrightarrow> traceable (feature_knobs.truncate W) f"
  by (simp add: traceable_def feature_knobs.defs)

lemma FeatureKnowledge_init_ok:
  assumes "unat tilings \<le> FK_MAX_TILINGS" "tilings = 1 \<or> use_offset" "0 < tiles" "good_hash h" "0 < actions"
  shows "\<exists>f. FeatureKnowledge_init F ty al ga actions w g tilings tiles z h use_offset = Inr f \<and> feature_ok f \<and> fk_actions f = actions"
  using assms by (simp add: FeatureKnowledge_init_def Let_def feature_ok_def shape_ok_def)

lemma init_feature_ok:
  assumes "feature_config_ok X W i" "\<not> fk_enable_trace W" "0 < actions" "length fs = NumFeatureTypes" "\<forall>x\<in>set fs. feature_fits W actions x"
  shows "\<exists>fs'. init_feature F X W al ga actions z i fs = Inr fs' \<and> length fs' = NumFeatureTypes \<and> (\<forall>x\<in>set fs'. feature_fits W actions x)"
proof -
  obtain f where f: "FeatureKnowledge_init F (feature_types ! unat (fw_active_features W ! i)) al ga actions (fw_feature_weights X ! i)
      (fw_weight_gradient X) (fw_num_tilings W ! i) (fw_num_tiles W ! i) z (fw_hash_types W ! i) (fw_enable_tiling_offset W ! i \<noteq> 0) = Inr f"
    "feature_ok f" "fk_actions f = actions"
    using FeatureKnowledge_init_ok [of "fw_num_tilings W ! i" "fw_enable_tiling_offset W ! i \<noteq> 0" "fw_num_tiles W ! i" "fw_hash_types W ! i" actions
        F "feature_types ! unat (fw_active_features W ! i)" al ga "fw_feature_weights X ! i" "fw_weight_gradient X" z]
      assms(1,3) unfolding feature_config_ok_def by auto
  let ?fs = "fs[unat (fw_active_features W ! i) := Some f]"
  have "init_feature F X W al ga actions z i fs = Inr ?fs"
    using assms(1) f(1) by (simp add: init_feature_def knob_at_def feature_config_ok_def)
  moreover have "feature_fits W actions (Some f)" using f(2,3) no_trace [OF assms(2)] by (simp add: feature_fits_def)
  then have "\<forall>x\<in>set ?fs. feature_fits W actions x"
    using assms(5) set_update_subset_insert [of fs "unat (fw_active_features W ! i)" "Some f"] by blast
  ultimately show ?thesis using assms(4) by simp
qed

lemma init_features_ok:
  assumes "\<forall>i\<in>set is. feature_config_ok X W i" "\<not> fk_enable_trace W" "0 < actions" "length fs = NumFeatureTypes" "\<forall>x\<in>set fs. feature_fits W actions x"
  shows "\<exists>fs'. init_features F X W al ga actions z is fs = Inr fs' \<and> length fs' = NumFeatureTypes \<and> (\<forall>x\<in>set fs'. feature_fits W actions x)"
  using assms
proof (induction "is" arbitrary: fs)
  case Nil
  then show ?case by simp
next
  case (Cons i "is")
  obtain fs1 where "init_feature F X W al ga actions z i fs = Inr fs1" "length fs1 = NumFeatureTypes" "\<forall>x\<in>set fs1. feature_fits W actions x"
    using init_feature_ok [OF _ Cons.prems(2-5), of X i F al ga z] Cons.prems(1) by auto
  then show ?case using Cons.IH [of fs1] Cons.prems by simp
qed

lemma LearningEngineFeaturewise_init_ok:
  assumes "featurewise_config_ok X W" "0 < actions" "unat actions \<le> MAX_ACTIONS"
  shows "\<exists>e. LearningEngineFeaturewise_init F X W sg al ga ep actions seed ''EGreedy'' ''SARSA'' z = Inr e \<and> fw_ok W e \<and> m_actions (fw_base e) = actions"
proof -
  have "\<forall>x\<in>set (replicate NumFeatureTypes None). feature_fits W actions x" by (simp add: feature_fits_def)
  moreover have "\<forall>i\<in>set [0..<length (fw_active_features W)]. feature_config_ok X W i" using assms(1) by (simp add: featurewise_config_ok_def)
  ultimately obtain fs where "init_features F X W al ga actions z [0..<length (fw_active_features W)] (replicate NumFeatureTypes None) = Inr fs"
    "length fs = NumFeatureTypes" "\<forall>x\<in>set fs. feature_fits W actions x"
    using init_features_ok [of "[0..<length (fw_active_features W)]" X W actions "replicate NumFeatureTypes None" F al ga z] assms
    by (auto simp: featurewise_config_ok_def)
  then show ?thesis using assms
    by (simp add: LearningEngineFeaturewise_init_def LearningEngineBase_init_def parsePolicy_def parseLearningType_def Let_def
        fw_ok_def base_ok_def dist_ok_def featurewise_config_ok_def)
qed

definition brain_config_ok :: "featurewise_knobs \<Rightarrow> 'f brain_params \<Rightarrow> scooby_knobs \<Rightarrow> bool" where
  "brain_config_ok W P K \<longleftrightarrow> scooby_policy P = ''EGreedy'' \<and> scooby_learning_type P = ''SARSA'' \<and>
     (scooby_enable_featurewise_engine K \<longrightarrow> featurewise_config_ok (scooby_features P) W)"

lemma brain_init_ok:
  assumes "knobs_ok K" "brain_config_ok W P K" "bk_state B = state_knobs.truncate K" "bk_featurewise B = W"
  shows "\<exists>b. brain_init F sg W P K = Inr b \<and> brain_ok B b \<and> brain_actions b = scooby_max_actions K"
proof -
  have n: "0 < scooby_max_actions K" "unat (scooby_max_actions K) \<le> MAX_ACTIONS" "state_knobs_ok (state_knobs.truncate K)"
    "scooby_max_states (state_knobs.truncate K) = scooby_max_states K"
    using assms(1) by (simp_all add: knobs_ok_def state_knobs.defs)
  show ?thesis
  proof (cases "scooby_enable_featurewise_engine K")
    case True
    then have "featurewise_config_ok (scooby_features P) W" using assms(2) by (simp add: brain_config_ok_def)
    then obtain e where "LearningEngineFeaturewise_init F (scooby_features P) W sg (scooby_alpha P) (scooby_gamma P) (scooby_epsilon P)
        (scooby_max_actions K) (ucast (scooby_seed P)) ''EGreedy'' ''SARSA'' (scooby_brain_zero_init P) = Inr e"
      "fw_ok W e" "m_actions (fw_base e) = scooby_max_actions K"
      using LearningEngineFeaturewise_init_ok [OF _ n(1,2), of "scooby_features P" W F sg "scooby_alpha P" "scooby_gamma P" "scooby_epsilon P"
          "ucast (scooby_seed P)" "scooby_brain_zero_init P"] by auto
    then show ?thesis using True assms(2,4) by (simp add: brain_init_def brain_config_ok_def brain_ok_def brain_actions_def)
  next
    case False
    obtain e where "LearningEngineBasic_init F sg (scooby_alpha P) (scooby_gamma P) (scooby_epsilon P)
        (scooby_max_actions K) (scooby_max_states K) (ucast (scooby_seed P)) ''EGreedy'' ''SARSA'' (scooby_brain_zero_init P)
        (scooby_early_exploration_window P) = Inr e"
      "basic_ok e" "m_actions (le_base e) = scooby_max_actions K" "m_states (le_base e) = scooby_max_states K"
      using LearningEngineBasic_init_ok [OF n(1,2), of F sg "scooby_alpha P" "scooby_gamma P" "scooby_epsilon P" "scooby_max_states K"
          "ucast (scooby_seed P)" "scooby_brain_zero_init P" "scooby_early_exploration_window P"] by auto
    then show ?thesis using False assms(2,3) n(3,4)
      by (simp add: brain_init_def brain_config_ok_def brain_ok_def brain_actions_def basic_brain_ok_def)
  qed
qed

end
