(* ===== verification/ScoobyEvents.thy ===== *)
theory ScoobyEvents
  imports BrainInit
begin

text \<open>
  The prefetcher under the calls of the cache: demand accesses, fills, prefetch hits and the
  updates of bandwidth, instruction rate and accuracy, in any order. A run from the constructor keeps
  the invariant of \<^verbatim>\<open>ScoobyRun\<close>, and its only fault is the iterator that \<^verbatim>\<open>insert_action_tracker\<close>
  uses after erasing it.
\<close>

section \<open>One access\<close>

abbreviation access_res where
  "access_res K ok acts fit S addr \<equiv> \<lambda>(out, S'). sb_ok K ok acts fit S' \<and> sb_actions S' = sb_actions S \<and>
     sb_bw_level S' = sb_bw_level S \<and> list_all (good_prefetch addr) out \<and> length out \<le> prefetch_bound K"

lemma bound_pos: "0 < prefetch_bound K"
  by (auto simp: prefetch_bound_def MAX_SCOOBY_DEGREE_def max_def)

lemma framed_same: "framed K S S' \<Longrightarrow> sb_actions S' = sb_actions S \<and> sb_bw_level S' = sb_bw_level S \<and> sb_brain S' = sb_brain S"
  by (simp add: framed_def tracker_of_def)

context learning_engine
begin

abbreviation ops where "ops \<equiv> \<lparr>eng_choose = pick, eng_learn = learn\<rparr>"

lemma out_of_page_ok:
  assumes "knobs_ok K" "sb_ok K ok actions fits S" "a < scooby_max_actions K" "fits (sb_brain S) vec"
  shows "ends {Invalid_iterator} (access_res K ok actions fits S addr)
    (bind_res (bump_stat sbs_out_of_bounds_dist sbs_out_of_bounds_dist_update (unat a) (count sbs_out_of_bounds_update S)) (\<lambda>S.
       if scooby_enable_reward_out_of_bounds K then
         bind_res (track ops K 0xdeadbeef st a S) (\<lambda>(new_addr, pushed, S).
         bind_res (reward_pushed K out_of_bounds pushed S) (\<lambda>S.
         bind_res (set_consensus pushed vec S) (\<lambda>S. Inr ([], S))))
       else Inr ([], S)))"
proof -
  note f = predict_stats(2) [OF sb_ok_env [OF assms(2)]]
  show ?thesis
  proof (rule ends_bind_total [OF action_stats(4) [OF framed_env [OF f] assms(3)]])
    fix S2
    assume "framed K (count sbs_out_of_bounds_update S) S2"
    then have f2: "framed K S S2" using framed_trans [OF f] by blast
    have ok2: "sb_ok K ok actions fits S2" "sb_actions S2 = sb_actions S" "sb_bw_level S2 = sb_bw_level S" "fits (sb_brain S2) vec"
      using framed_sb_ok [OF f2 assms(2)] framed_same [OF f2] assms(4) by simp_all
    show "ends {Invalid_iterator} (access_res K ok actions fits S addr)
      (if scooby_enable_reward_out_of_bounds K then
         bind_res (track ops K 0xdeadbeef st a S2) (\<lambda>(new_addr, pushed, S).
         bind_res (reward_pushed K out_of_bounds pushed S) (\<lambda>S.
         bind_res (set_consensus pushed vec S) (\<lambda>S. Inr ([], S))))
       else Inr ([], S2))"
    proof (cases "scooby_enable_reward_out_of_bounds K")
      case True
      show ?thesis using True by simp (rule ends_mono [OF track_reward_ok [OF assms(1) ok2(1) assms(3) ok2(4)]], use ok2 in auto)
    next
      case False
      then show ?thesis using ok2 by simp
    qed
  qed
qed

lemma no_prefetch_ok:
  assumes "knobs_ok K" "sb_ok K ok actions fits S" "a < scooby_max_actions K" "fits (sb_brain S) vec"
  shows "ends {Invalid_iterator} (access_res K ok actions fits S addr)
    (bind_res (track ops K 0xdeadbeef st a S) (\<lambda>(new_addr, pushed, S).
       bind_res (bump_stat sbs_action_dist sbs_action_dist_update (unat a) S) (\<lambda>S.
       bind_res (set_consensus pushed vec S) (\<lambda>S. Inr ([], S)))))"
proof (rule ends_bind_total [OF track_ok [OF assms(1-3), of "0xdeadbeef" st]])
  fix x assume x: "tracked_res K ok actions fits 0xdeadbeef st a S x"
  obtain n p S1 where x1: "x = (n, p, S1)" by (cases x)
  have p: "p = True" using x unfolding tracked_res_def x1 by simp
  have S1: "sb_open K ok actions fits S1" "sb_actions S1 = sb_actions S" "sb_bw_level S1 = sb_bw_level S" "fits (sb_brain S1) vec"
    using x assms(4) unfolding tracked_res_def x1 p by simp_all
  show "ends {Invalid_iterator} (access_res K ok actions fits S addr) (case x of (new_addr, pushed, S) \<Rightarrow>
      bind_res (bump_stat sbs_action_dist sbs_action_dist_update (unat a) S) (\<lambda>S. bind_res (set_consensus pushed vec S) (\<lambda>S. Inr ([], S))))"
    unfolding x1 p prod.case
  proof (rule ends_bind_total [OF action_stats(1) [OF sb_open_env [OF S1(1)] assms(3)]])
    fix S2
    assume f: "framed K S1 S2"
    have S2: "sb_open K ok actions fits S2" "fits (sb_brain S2) vec" "sb_actions S2 = sb_actions S" "sb_bw_level S2 = sb_bw_level S"
      using framed_sb_open [OF f S1(1)] framed_same [OF f] S1 by simp_all
    show "ends {Invalid_iterator} (access_res K ok actions fits S addr) (bind_res (set_consensus True vec S2) (\<lambda>S. Inr ([], S)))"
      by (rule ends_mono [OF finish_ok [OF S2, where A = "{}" and xs = "[]"]]) auto
  qed
qed

lemma predicted_ok:
  assumes "ends A (access_res K ok actions fits S addr) m"
  shows "ends A (access_res K ok actions fits S addr)
    (bind_res m (\<lambda>(out, S). Inr (out, S\<lparr>sb_stats := sbs_predicted_update (\<lambda>n. n + of_nat (length out)) (sb_stats S)\<rparr>)))"
proof (rule ends_bind [OF assms])
  fix x assume x: "access_res K ok actions fits S addr x"
  obtain out S1 where x1: "x = (out, S1)" by (cases x)
  have ok1: "sb_ok K ok actions fits S1" using x by (simp add: x1)
  note f = predict_stats(5) [OF sb_ok_env [OF ok1]]
  show "ends A (access_res K ok actions fits S addr)
      (case x of (out, S) \<Rightarrow> Inr (out, S\<lparr>sb_stats := sbs_predicted_update (\<lambda>n. n + of_nat (length out)) (sb_stats S)\<rparr>))"
    using x framed_sb_ok [OF f ok1] by (simp add: x1)
qed

lemma take_action_ok:
  assumes "knobs_ok K" "sb_ok K ok actions fits S" "a < scooby_max_actions K" "fits (sb_brain S) vec"
    "unat d \<le> MAX_SCOOBY_DEGREE" "unat d \<le> prefetch_bound K"
  shows "ends {Invalid_iterator} (access_res K ok actions fits S addr) (take_action ops K (page_of addr) off st a action d vec S)"
proof -
  have issue: "ends {Invalid_iterator} (access_res K ok actions fits S addr)
    (bind_res (issue_prefetch ops K (page_of addr) off st a action d vec S) (\<lambda>(out, S).
      bind_res (bump_stat sbs_action_dist sbs_action_dist_update (unat a) S) (\<lambda>S. Inr (out, S))))" if "in_page_offset (off + action)"
  proof (rule ends_bind [OF issue_prefetch_ok [OF assms(1-4) that assms(5,6), of addr st]])
    fix y assume y: "access_res K ok actions fits S addr y"
    obtain out S2 where y1: "y = (out, S2)" by (cases y)
    have ok2: "sb_ok K ok actions fits S2" using y by (simp add: y1)
    show "ends {Invalid_iterator} (access_res K ok actions fits S addr)
        (case y of (out, S) \<Rightarrow> bind_res (bump_stat sbs_action_dist sbs_action_dist_update (unat a) S) (\<lambda>S. Inr (out, S)))"
      unfolding y1 prod.case
    proof (rule ends_bind_total [OF action_stats(1) [OF sb_ok_env [OF ok2] assms(3)]])
      fix S3 assume g: "framed K S2 S3"
      show "ends {Invalid_iterator} (access_res K ok actions fits S addr) (Inr (out, S3))"
        using framed_sb_ok [OF g ok2] framed_same [OF g] y by (simp add: y1)
    qed
  qed
  show ?thesis unfolding take_action_def
    using issue out_of_page_ok [OF assms(1-4), of addr st] no_prefetch_ok [OF assms(1-4), of addr st]
    by (simp only: split: if_split) blast
qed

lemma predict_ok:
  assumes "knobs_ok K" "sb_ok K ok actions fits S"
  shows "ends {Invalid_iterator} (access_res K ok actions fits S addr) (predict ops K (page_of addr) off st S)"
proof -
  let ?S = "count sbs_predict_called_update S"
  note f = predict_stats(1) [OF sb_ok_env [OF assms(2)]]
  have ok1: "sb_ok K ok actions fits ?S" using framed_sb_ok [OF f assms(2)] .
  show ?thesis unfolding predict_def
  proof (rule ends_bind_total [OF choose_action_ok [OF assms(1) ok1]])
    fix x :: "u32 \<times> u32 \<times> bool list \<times> 'e scooby"
    assume x: "(\<lambda>(a, d, vec, S'). a < scooby_max_actions K \<and> unat d \<le> MAX_SCOOBY_DEGREE \<and> unat d \<le> prefetch_bound K \<and>
      fits (sb_brain S') vec \<and> sb_ok K ok actions fits S' \<and> sb_actions S' = sb_actions ?S \<and> sb_bw_level S' = sb_bw_level ?S) x"
    obtain a d vec S1 where x1: "x = (a, d, vec, S1)" by (cases x)
    have a: "a < scooby_max_actions K" "fits (sb_brain S1) vec" "unat d \<le> MAX_SCOOBY_DEGREE" "unat d \<le> prefetch_bound K"
      and S1: "sb_ok K ok actions fits S1" "sb_actions S1 = sb_actions S" "sb_bw_level S1 = sb_bw_level S"
      using x unfolding x1 by simp_all
    have len: "\<not> length (sb_actions S1) \<le> unat a" using sb_ok_env [OF S1(1)] a(1) by (simp add: env_ok_def word_less_nat_alt)
    have same: "access_res K ok actions fits S1 addr = access_res K ok actions fits S addr" using S1(2,3) by simp
    note final = predicted_ok [OF take_action_ok [OF assms(1) S1(1) a, of addr off st "sb_actions S1 ! unat a"], unfolded same]
    show "ends {Invalid_iterator} (access_res K ok actions fits S addr) (case x of (action_index, pref_degree, vec, S) \<Rightarrow>
     if \<not> action_index < scooby_max_actions K then Inl Assert_failed
     else if length (sb_actions S) \<le> unat action_index then Inl Out_of_bounds
     else
       bind_res (take_action ops K (page_of addr) off st action_index (sb_actions S ! unat action_index) pref_degree vec S)
         (\<lambda>(out, S). Inr (out, S\<lparr>sb_stats := sbs_predicted_update (\<lambda>n. n + of_nat (length out)) (sb_stats S)\<rparr>)))"
      unfolding x1 prod.case using final a(1) len by (simp only: not_True_eq_False if_False)
  qed
qed

lemma scooby_invoke_ok:
  assumes "knobs_ok K" "sb_ok K ok actions fits S"
  shows "ends {Invalid_iterator} (\<lambda>(S', out). sb_ok K ok actions fits S' \<and> list_all (good_prefetch address) out \<and> length out \<le> prefetch_bound K)
    (scooby_invoke ops raw K S pc address)"
  unfolding scooby_invoke_def Let_def
proof (rule ends_bind_total [OF reward_demand_ok [OF assms]])
  fix S1 assume S1: "sb_ok K ok actions fits S1"
  let ?S = "S1\<lparr>sb_recorder := record_access pc (page_of address) (sb_recorder S1)\<rparr>"
  have "framed K S1 ?S" using sb_ok_env [OF S1]
    by (simp add: framed_def env_ok_def maps_ok_def tracker_of_def recorder_ok_def record_access_def)
  then have ok2: "sb_ok K ok actions fits ?S" using framed_sb_ok S1 by blast
  have off: "page_offset address < 64" by (rule page_offset_less)
  show "ends {Invalid_iterator} (\<lambda>(S', out). sb_ok K ok actions fits S' \<and> list_all (good_prefetch address) out \<and> length out \<le> prefetch_bound K)
     (bind_res (update_local_state raw K pc (page_of address) (page_offset address) ?S) (\<lambda>(s, S).
      bind_res (predict ops K (page_of address) (page_offset address)
             \<lparr>sc_pc = pc, sc_address = address, sc_page = page_of address, sc_offset = page_offset address,
                sc_delta = (if ste_deltas s \<noteq> [] then last (ste_deltas s) else 0),
                sc_local_delta_sig = get_delta_sig s, sc_local_delta_sig2 = get_delta_sig2 s,
                sc_local_pc_sig = get_pc_sig s, sc_local_offset_sig = get_offset_sig s,
                sc_bw_level = sb_bw_level S, sc_is_high_bw = is_high_bw K S, sc_acc_level = sb_acc_level S\<rparr> S) (\<lambda>(out, S).
        Inr (S\<lparr>sb_stats := sbs_issued_update (\<lambda>n. n + of_nat (length out)) (sb_stats S)\<rparr>, out))))"
  proof (rule ends_bind_total [OF update_local_state_ok [OF assms(1) sb_ok_env [OF ok2] off]], unfold case_prod_beta, rule ends_bind [OF predict_ok [OF assms(1)]])
    fix x :: "st_entry \<times> 'e scooby" assume x: "framed K ?S (snd x) \<and> ste_page (fst x) = page_of address"
    show ok3: "sb_ok K ok actions fits (snd x)" using framed_sb_ok ok2 x by blast
    fix y assume y: "access_res K ok actions fits (snd x) address y"
    obtain out S4 where y1: "y = (out, S4)" by (cases y)
    have ok4: "sb_ok K ok actions fits S4" using y by (simp add: y1)
    show "ends {Invalid_iterator} (\<lambda>p. sb_ok K ok actions fits (fst p) \<and> list_all (good_prefetch address) (snd p) \<and> length (snd p) \<le> prefetch_bound K)
      (Inr ((snd y)\<lparr>sb_stats := sbs_issued_update (\<lambda>n. n + of_nat (length (fst y))) (sb_stats (snd y))\<rparr>, fst y))"
      using framed_sb_ok [OF predict_stats(6) [OF sb_ok_env [OF ok4]] ok4] y by (simp add: y1)
  qed
qed

end

section \<open>Notifications\<close>

lemma register_counts:
  assumes "env_ok K S"
  shows "framed K S (count sbs_fill_called_update S)" "framed K S (count sbs_hit_called_update S)"
    "framed K S (count sbs_fill_set_update S)" "framed K S (count sbs_hit_set_update S)"
    "framed K S (S\<lparr>sb_stats := sbs_fill_set_total_update f (sb_stats S)\<rparr>)" "framed K S (S\<lparr>sb_stats := sbs_hit_set_total_update f (sb_stats S)\<rparr>)"
  using env_stats [OF assms] assms by (auto intro!: framed_count framed_stats simp: stats_ok_def)

lemma mark_entries_ok:
  assumes "sb_ok K ok acts fit S" "\<forall>i\<in>set is. i < length (sb_prefetch_tracker S)"
    "\<And>p. pte_address (f p) = pte_address p" "\<And>p. pte_action_index (f p) = pte_action_index p"
    "\<And>p. pte_consensus_vec (f p) = pte_consensus_vec p"
  shows "sb_ok K ok acts fit (S\<lparr>sb_prefetch_tracker := mark_entries f is (sb_prefetch_tracker S)\<rparr>)"
  using assms(1,2)
proof (induction "is" arbitrary: S)
  case Nil
  then show ?case by (simp add: mark_entries_def)
next
  case (Cons i "is")
  let ?S = "S\<lparr>sb_prefetch_tracker := (sb_prefetch_tracker S)[i := f (sb_prefetch_tracker S ! i)]\<rparr>"
  have "sb_ok K ok acts fit ?S" using Cons.prems by (intro sb_ok_put) (simp_all add: assms(3-5))
  then have "sb_ok K ok acts fit (?S\<lparr>sb_prefetch_tracker := mark_entries f is (sb_prefetch_tracker ?S)\<rparr>)"
    by (rule Cons.IH) (use Cons.prems(2) in simp)
  then show ?case by (simp add: mark_entries_def)
qed

lemma register_fill_ok:
  assumes "sb_ok K ok acts fit S"
  shows "sb_ok K ok acts fit (register_fill K address S)"
proof -
  let ?S = "count sbs_fill_called_update S" and ?found = "search_pt address (scooby_enable_reward_all K) (sb_prefetch_tracker S)"
  note f = register_counts(1) [OF sb_ok_env [OF assms]]
  note g = framed_trans [OF f register_counts(3) [OF framed_env [OF f]]]
  note h = framed_trans [OF g register_counts(5) [OF framed_env [OF g], where f = "\<lambda>n. n + of_nat (length ?found)"]]
  show ?thesis using mark_entries_ok [OF framed_sb_ok [OF h assms], of ?found "\<lambda>p. p\<lparr>pte_is_filled := True\<rparr>"] framed_sb_ok [OF f assms]
    by (auto simp: register_fill_def Let_def dest: search_pt_set)
qed

lemma register_prefetch_hit_ok:
  assumes "sb_ok K ok acts fit S"
  shows "sb_ok K ok acts fit (register_prefetch_hit K address S)"
proof -
  let ?S = "count sbs_hit_called_update S" and ?found = "search_pt address (scooby_enable_reward_all K) (sb_prefetch_tracker S)"
  note f = register_counts(2) [OF sb_ok_env [OF assms]]
  note g = framed_trans [OF f register_counts(4) [OF framed_env [OF f]]]
  note h = framed_trans [OF g register_counts(6) [OF framed_env [OF g], where f = "\<lambda>n. n + of_nat (length ?found)"]]
  show ?thesis using mark_entries_ok [OF framed_sb_ok [OF h assms], of ?found "\<lambda>p. p\<lparr>pte_pf_cache_hit := True\<rparr>"] framed_sb_ok [OF f assms]
    by (auto simp: register_prefetch_hit_def Let_def dest: search_pt_set)
qed

lemma level_ok:
  assumes "sb_ok K ok acts fit S" "env_ok K T = env_ok K S" "tracker_of T = tracker_of S"
  shows "sb_ok K ok acts fit T"
  using assms by (simp add: sb_ok_def tracker_of_def)

lemma level_sb_ok:
  assumes "sb_ok K ok acts fit S"
  shows "sb_ok K ok acts fit (S\<lparr>sb_bw_level := l\<rparr>)" "sb_ok K ok acts fit (S\<lparr>sb_core_ipc := l\<rparr>)" "sb_ok K ok acts fit (S\<lparr>sb_acc_level := m\<rparr>)"
  by (rule level_ok [OF assms]; simp add: env_ok_def maps_ok_def tracker_of_def)+

lemma level_bump_ok:
  fixes S :: "'e scooby"
  assumes "sb_ok K ok acts fit S" "env_ok K S \<Longrightarrow> framed K S (count u S)"
    "\<And>T :: 'e scooby. env_ok K T \<Longrightarrow> ends {} (framed K T) (bump_stat get upd i T)"
  shows "ends {} (sb_ok K ok acts fit) (bump_stat get upd i (count u S))"
proof -
  note f = assms(2) [OF sb_ok_env [OF assms(1)]]
  show ?thesis by (rule ends_mono [OF assms(3) [OF framed_env [OF f]]]) (use framed_sb_ok framed_trans [OF f] assms(1) in blast)+
qed

lemma update_levels_ok:
  assumes "sb_ok K ok acts fit S"
  shows "unat bw < DRAM_BW_LEVELS \<Longrightarrow> ends {} (sb_ok K ok acts fit) (scooby_update_bw bw S)"
    "unat ipc < SCOOBY_MAX_IPC_LEVEL \<Longrightarrow> ends {} (sb_ok K ok acts fit) (scooby_update_ipc ipc S)"
    "unat acc < SCOOBY_ACC_LEVELS \<Longrightarrow> ends {} (sb_ok K ok acts fit) (scooby_update_acc acc S)"
  unfolding scooby_update_bw_def scooby_update_ipc_def scooby_update_acc_def
  by (simp_all, (intro level_bump_ok level_sb_ok assms framed_count bump_stat_ok; force simp: stats_ok_def dest!: env_stats)+)

section \<open>Runs\<close>

text \<open>A demand access carries what the memory holds for the counter of a new table entry.\<close>

datatype scooby_event =
    Demand u32 u64 u64
  | Filled u64
  | Prefetch_hit u64
  | Bandwidth u8
  | Ipc u8
  | Accuracy u32

definition scooby_step :: "'e engine_ops \<Rightarrow> scooby_knobs \<Rightarrow> 'e scooby \<Rightarrow> scooby_event \<Rightarrow> ('e scooby \<times> u64 list) res" where
  "scooby_step E K S ev =
     (case ev of
        Demand raw pc address \<Rightarrow> scooby_invoke E raw K S pc address
      | Filled address \<Rightarrow> Inr (register_fill K address S, [])
      | Prefetch_hit address \<Rightarrow> Inr (register_prefetch_hit K address S, [])
      | Bandwidth bw \<Rightarrow> bind_res (scooby_update_bw bw S) (\<lambda>S. Inr (S, []))
      | Ipc ipc \<Rightarrow> bind_res (scooby_update_ipc ipc S) (\<lambda>S. Inr (S, []))
      | Accuracy acc \<Rightarrow> bind_res (scooby_update_acc acc S) (\<lambda>S. Inr (S, [])))"

primrec scooby_run :: "'e engine_ops \<Rightarrow> scooby_knobs \<Rightarrow> scooby_event list \<Rightarrow> 'e scooby \<Rightarrow> ('e scooby \<times> u64 list list) res" where
  "scooby_run E K [] S = Inr (S, [])"
| "scooby_run E K (ev # evs) S =
     bind_res (scooby_step E K S ev) (\<lambda>(S, out). bind_res (scooby_run E K evs S) (\<lambda>(S, outs). Inr (S, out # outs)))"

text \<open>The levels that the assertions admit, and the prefetches an event may issue.\<close>

definition legal_event :: "scooby_event \<Rightarrow> bool" where
  "legal_event ev =
     (case ev of Bandwidth bw \<Rightarrow> unat bw < DRAM_BW_LEVELS | Ipc ipc \<Rightarrow> unat ipc < SCOOBY_MAX_IPC_LEVEL
      | Accuracy acc \<Rightarrow> unat acc < SCOOBY_ACC_LEVELS | _ \<Rightarrow> True)"

definition event_output :: "scooby_knobs \<Rightarrow> scooby_event \<Rightarrow> u64 list \<Rightarrow> bool" where
  "event_output K ev out =
     (case ev of Demand raw pc address \<Rightarrow> list_all (good_prefetch address) out \<and> length out \<le> prefetch_bound K | _ \<Rightarrow> out = [])"

context learning_engine
begin

lemma scooby_step_ok:
  assumes "knobs_ok K" "sb_ok K ok actions fits S" "legal_event ev"
  shows "ends {Invalid_iterator} (\<lambda>(S', out). sb_ok K ok actions fits S' \<and> event_output K ev out) (scooby_step ops K S ev)"
proof (cases ev)
  case (Demand raw pc address)
  show ?thesis unfolding scooby_step_def Demand scooby_event.case event_output_def
    by (rule ends_mono [OF scooby_invoke_ok [OF assms(1,2)]]) auto
next
  case (Filled address)
  then show ?thesis using register_fill_ok [OF assms(2)] by (simp add: scooby_step_def event_output_def)
next
  case (Prefetch_hit address)
  then show ?thesis using register_prefetch_hit_ok [OF assms(2)] by (simp add: scooby_step_def event_output_def)
next
  case (Bandwidth bw)
  then have "unat bw < DRAM_BW_LEVELS" using assms(3) by (simp add: legal_event_def)
  then show ?thesis unfolding scooby_step_def Bandwidth scooby_event.case event_output_def
    by (intro ends_bind_total [OF update_levels_ok(1) [OF assms(2)]]) simp_all
next
  case (Ipc ipc)
  then have "unat ipc < SCOOBY_MAX_IPC_LEVEL" using assms(3) by (simp add: legal_event_def)
  then show ?thesis unfolding scooby_step_def Ipc scooby_event.case event_output_def
    by (intro ends_bind_total [OF update_levels_ok(2) [OF assms(2)]]) simp_all
next
  case (Accuracy acc)
  then have "unat acc < SCOOBY_ACC_LEVELS" using assms(3) by (simp add: legal_event_def)
  then show ?thesis unfolding scooby_step_def Accuracy scooby_event.case event_output_def
    by (intro ends_bind_total [OF update_levels_ok(3) [OF assms(2)]]) simp_all
qed

lemma scooby_run_ok:
  assumes "knobs_ok K" "sb_ok K ok actions fits S" "\<forall>ev\<in>set evs. legal_event ev"
  shows "ends {Invalid_iterator} (\<lambda>(S', outs). sb_ok K ok actions fits S' \<and> list_all2 (event_output K) evs outs) (scooby_run ops K evs S)"
  using assms(2,3)
proof (induction evs arbitrary: S)
  case Nil
  then show ?case by simp
next
  case (Cons ev evs)
  have legal: "legal_event ev" "\<forall>ev\<in>set evs. legal_event ev" using Cons.prems(2) by simp_all
  show ?case unfolding scooby_run.simps
  proof (rule ends_bind [OF scooby_step_ok [OF assms(1) Cons.prems(1) legal(1)]])
    fix x assume x: "(\<lambda>(S', out). sb_ok K ok actions fits S' \<and> event_output K ev out) x"
    obtain S1 out where x1: "x = (S1, out)" by (cases x)
    have S1: "sb_ok K ok actions fits S1" "event_output K ev out" using x by (simp_all add: x1)
    show "ends {Invalid_iterator} (\<lambda>(S', outs). sb_ok K ok actions fits S' \<and> list_all2 (event_output K) (ev # evs) outs)
        (case x of (S, out) \<Rightarrow> bind_res (scooby_run ops K evs S) (\<lambda>(S, outs). Inr (S, out # outs)))"
      unfolding x1 prod.case by (rule ends_bind [OF Cons.IH [OF S1(1) legal(2)]]) (use S1(2) in auto)
  qed
qed

end

end
