(* ===== verification/Pythia.thy ===== *)
theory Pythia
  imports ScoobyEvents
begin

text \<open>
  The properties of the Pythia prefetcher with the learning engines of the code: what a run
  guarantees, how decisions are rewarded and in which order they are learnt.
\<close>

definition brain_ops :: "'f float_ops \<Rightarrow> 'g random_ops \<Rightarrow> brain_knobs \<Rightarrow> ('f, 'g) brain engine_ops" where
  "brain_ops F R B = \<lparr>eng_choose = brain_choose F R B, eng_learn = brain_learn F B\<rparr>"

definition pythia_ok :: "scooby_knobs \<Rightarrow> 'g random_ops \<Rightarrow> brain_knobs \<Rightarrow> ('f, 'g) brain scooby \<Rightarrow> bool" where
  "pythia_ok K R B S = sb_ok K (\<lambda>b. random_ok R \<and> brain_ok B b) brain_actions brain_fits S"

section \<open>Construction\<close>

lemma init_knobs_ok:
  assumes "scooby_init_knobs K0 = Inr (A, K)"
  shows "length A = unat (scooby_max_actions K)"
  using assms by (auto simp: scooby_init_knobs_def Let_def split: if_splits)

lemma init_stats_ok: "stats_ok K (scooby_init_stats K)"
  by (simp add: stats_ok_def scooby_init_stats_def Let_def)

lemma Scooby_init_ok:
  assumes "scooby_init_knobs K0 = Inr (A, K)" "mk_brain K = Inr b" "ok b" "acts b = scooby_max_actions K" "recorder_ok raw"
  shows "\<exists>S. Scooby_init mk_brain raw_acc raw K0 = Inr (K, S) \<and> sb_ok K ok acts fit S"
  using assms init_knobs_ok [OF assms(1)] init_stats_ok [of K]
  by (simp add: Scooby_init_def sb_ok_def env_ok_def st_table_ok_def recorder_ok_def maps_ok_def tracked_once_def)

text \<open>
  C29: Pythia runs safely. With usable knobs the constructor succeeds, and any sequence of demand accesses, fills, prefetch
  hits and level updates then keeps the invariant of the tables, the tracker and the engine: no
  assertion fails, no index leaves its array and no null pointer is used. Each access issues a bounded number
  of prefetches, all of them lines of its page. The one fault a run can end with is the erased iterator of
  \<^verbatim>\<open>insert_action_tracker\<close>.
\<close>

theorem scooby_run_safe:
  assumes "scooby_init_knobs K0 = Inr (A, K)" "knobs_ok K" "brain_config_ok W P K"
    "bk_state B = state_knobs.truncate K" "bk_featurewise B = W" "random_ok R" "recorder_ok raw" "\<forall>ev\<in>set evs. legal_event ev"
  shows "\<exists>S. Scooby_init (brain_init F sg W P) raw_acc raw K0 = Inr (K, S) \<and>
    (case scooby_run (brain_ops F R B) K evs S of
       Inl fault \<Rightarrow> fault = Invalid_iterator
     | Inr (S', outs) \<Rightarrow> pythia_ok K R B S' \<and> list_all2 (event_output K) evs outs)"
proof -
  obtain b where b: "brain_init F sg W P K = Inr b" "brain_ok B b" "brain_actions b = scooby_max_actions K"
    using brain_init_ok [OF assms(2-5)] by blast
  have ok: "random_ok R \<and> brain_ok B b" using b(2) assms(6) by simp
  obtain S where S: "Scooby_init (brain_init F sg W P) raw_acc raw K0 = Inr (K, S)"
    "sb_ok K (\<lambda>b. random_ok R \<and> brain_ok B b) brain_actions brain_fits S"
    using Scooby_init_ok [where ok = "\<lambda>b. random_ok R \<and> brain_ok B b" and mk_brain = "brain_init F sg W P" and acts = brain_actions, OF assms(1) b(1) ok b(3) assms(7)] by blast
  have "ends {Invalid_iterator} (\<lambda>(S', outs). pythia_ok K R B S' \<and> list_all2 (event_output K) evs outs) (scooby_run (brain_ops F R B) K evs S)"
    unfolding brain_ops_def pythia_ok_def by (rule brain_le.scooby_run_ok [OF assms(2) S(2) assms(8)])
  then show ?thesis using S(1) by (intro exI [of _ S]) (auto simp: ends_def split: sum.splits)
qed


text \<open>Two actions, one of them no prefetch, a tracker of two decisions and exact arithmetic.\<close>

definition sample_scooby_knobs :: scooby_knobs where
  "sample_scooby_knobs = state_knobs.extend sample_state_knobs
     \<lparr>scooby_actions = [1, 0], scooby_max_actions = 2, scooby_pt_size = 2, scooby_st_size = 2, scooby_reward_none = - 4,
      scooby_reward_incorrect = - 8, scooby_reward_correct_untimely = 12, scooby_reward_correct_timely = 20,
      scooby_reward_out_of_bounds = - 12, scooby_reward_tracker_hit = - 2, scooby_enable_reward_all = False,
      scooby_enable_track_multiple = False, scooby_enable_reward_out_of_bounds = True, scooby_enable_reward_tracker_hit = False,
      scooby_access_debug = False, scooby_enable_state_action_stats = False, scooby_enable_featurewise_engine = False,
      scooby_pref_degree = 1, scooby_enable_dyn_degree = True, scooby_num_max_to_avg_q_thresholds = 0, scooby_dyn_degrees = [1],
      scooby_multi_deg_select_type = 2, scooby_last_pref_offset_conf_thresholds = [], scooby_dyn_degrees_type2 = [1],
      scooby_high_bw_thresh = 4, scooby_enable_hbw_reward = False, scooby_reward_hbw_correct_timely = 0,
      scooby_reward_hbw_correct_untimely = 0, scooby_reward_hbw_incorrect = 0, scooby_reward_hbw_none = 0,
      scooby_reward_hbw_out_of_bounds = 0, scooby_reward_hbw_tracker_hit = 0,
      scooby_last_pref_offset_conf_thresholds_hbw = [], scooby_dyn_degrees_type2_hbw = [1]\<rparr>"

definition sample_params :: "int brain_params" where
  "sample_params = \<lparr>scooby_alpha = 1, scooby_gamma = 0, scooby_epsilon = 0, scooby_seed = 200, scooby_policy = ''EGreedy'',
     scooby_learning_type = ''SARSA'', scooby_brain_zero_init = True, scooby_early_exploration_window = 0,
     scooby_features = \<lparr>fw_feature_weights = [], fw_weight_gradient = 0\<rparr>\<rparr>"

definition sample_brain_knobs :: brain_knobs where
  "sample_brain_knobs = \<lparr>bk_state = sample_state_knobs, bk_basic = quiet_engine, bk_featurewise = sample_fw_knobs\<rparr>"

definition sample_recorder :: scooby_recorder where
  "sample_recorder = \<lparr>rec_unique_pcs = {}, rec_unique_trigger_pcs = {}, rec_unique_pages = {}, rec_access_bitmap_dist = (\<lambda>_. None), rec_hop_delta_dist = replicate (MAX_HOP_COUNT + 1) (replicate 127 0), rec_total_bitmaps_seen = 0, rec_unique_bitmaps_seen = 0\<rparr>"

definition sample_events where "sample_events = [Demand 0 400 0x10000, Filled 0x10040, Demand 0 400 0x20000, Bandwidth 1, Demand 0 400 0x30000, Demand 0 400 0x40000]"

definition sample_run :: "fault + u64 list list" where
  "sample_run = bind_res (Scooby_init (brain_init int_floats (\<lambda>_. ()) sample_fw_knobs sample_params) 0 sample_recorder sample_scooby_knobs) (\<lambda>(K, S).
     bind_res (scooby_run (brain_ops int_floats no_exploration sample_brain_knobs) K sample_events S) (\<lambda>(S', outs). Inr outs))"

lemma sample_run: "sample_run = Inr [[0x10040], [], [0x20040], [], [0x30040], [0x40040]]"
  by code_simp

lemma sample_knobs_ok: "knobs_ok sample_scooby_knobs" "scooby_init_knobs sample_scooby_knobs = Inr ([1, 0], sample_scooby_knobs)"
  "brain_config_ok sample_fw_knobs sample_params sample_scooby_knobs"
  "state_knobs.truncate sample_scooby_knobs = sample_state_knobs" "recorder_ok sample_recorder"
  by (simp_all add: knobs_ok_def sample_scooby_knobs_def sample_state_knobs_def state_knobs.defs MAX_ACTIONS_def degree_fits_def
      MAX_SCOOBY_DEGREE_def degree_lists_ok_def state_knobs_ok_def hash_types_def scooby_init_knobs_def brain_config_ok_def sample_params_def
      recorder_ok_def sample_recorder_def)

theorem scooby_run_safe_witness:
  "\<exists>S S' outs. Scooby_init (brain_init int_floats (\<lambda>_. ()) sample_fw_knobs sample_params) 0 sample_recorder sample_scooby_knobs = Inr (sample_scooby_knobs, S) \<and>
    scooby_run (brain_ops int_floats no_exploration sample_brain_knobs) sample_scooby_knobs sample_events S = Inr (S', outs) \<and>
    pythia_ok sample_scooby_knobs no_exploration sample_brain_knobs S' \<and> outs = [[0x10040], [], [0x20040], [], [0x30040], [0x40040]]"
proof -
  have "\<forall>ev\<in>set sample_events. legal_event ev" by (simp add: sample_events_def legal_event_def DRAM_BW_LEVELS_def)
  moreover have "bk_state sample_brain_knobs = state_knobs.truncate sample_scooby_knobs" "bk_featurewise sample_brain_knobs = sample_fw_knobs"
    by (simp_all add: sample_brain_knobs_def sample_knobs_ok)
  ultimately obtain S where S: "Scooby_init (brain_init int_floats (\<lambda>_. ()) sample_fw_knobs sample_params) 0 sample_recorder sample_scooby_knobs = Inr (sample_scooby_knobs, S)"
    "case scooby_run (brain_ops int_floats no_exploration sample_brain_knobs) sample_scooby_knobs sample_events S of
       Inl fault \<Rightarrow> fault = Invalid_iterator
     | Inr (S', outs) \<Rightarrow> pythia_ok sample_scooby_knobs no_exploration sample_brain_knobs S' \<and> list_all2 (event_output sample_scooby_knobs) sample_events outs"
    using scooby_run_safe [OF sample_knobs_ok(2,1,3) _ _ sample_engine(5) sample_knobs_ok(5), of sample_brain_knobs sample_events int_floats "\<lambda>_. ()" 0]
    by blast
  then show ?thesis using sample_run
    by (auto simp: sample_run_def bind_res_Inr_iff split: sum.splits prod.splits)
qed

section \<open>Rewards and learning\<close>

lemma tracked_once_eq:
  assumes "tracked_once pt" "i < length pt" "j < length pt" "pte_address (pt ! i) = a" "pte_address (pt ! j) = a" "a \<noteq> 0xdeadbeef"
  shows "i = j"
  using assms(1-5)
proof (induction pt arbitrary: i j)
  case Nil
  then show ?case by simp
next
  case (Cons p pt)
  have rest: "tracked_once pt" using Cons.prems(1) by (simp add: tracked_once_def split: if_splits)
  have head: "pte_address (pt ! k) \<noteq> a" if "pte_address p = a" "k < length pt" for k
  proof -
    have "pte_address (pt ! k) \<in> pte_address ` set pt" using that(2) by simp
    moreover have "a \<notin> pte_address ` set pt" using Cons.prems(1) that(1) assms(6) by (auto simp: tracked_once_def)
    ultimately show ?thesis by blast
  qed
  show ?case using Cons.prems(2-5) Cons.IH [OF rest] head by (cases i; cases j) auto
qed

lemma search_pt_unique:
  assumes "tracked_once pt" "a \<noteq> 0xdeadbeef" "i < length pt" "pte_address (pt ! i) = a"
  shows "search_pt a all pt = [i]"
proof -
  have "filter (\<lambda>k. pte_address (pt ! k) = a) [0..<length pt] = filter (\<lambda>k. k = i) [0..<length pt]"
    using tracked_once_eq [OF assms(1) _ assms(3) _ assms(4,2)] assms(4) by (intro filter_cong) auto
  also have "\<dots> = [i]"
  proof -
    have "[0..<length pt] = [0..<i] @ i # [Suc i..<length pt]" using assms(3) upt_add_eq_append [of 0 i "length pt - i"] by (simp add: upt_conv_Cons)
    moreover have "filter (\<lambda>k. k = i) [0..<i] = []" "filter (\<lambda>k. k = i) [Suc i..<length pt] = []" by (auto simp: filter_empty_conv)
    ultimately show ?thesis by simp
  qed
  finally show ?thesis by (simp add: search_pt_def Let_def)
qed

definition rewarded :: "scooby_knobs \<Rightarrow> bool \<Rightarrow> pt_entry \<Rightarrow> pt_entry" where
  "rewarded K high_bw p =
     (let ty = (if pte_is_filled p then correct_timely else correct_untimely)
      in p\<lparr>pte_reward := reward_of K high_bw ty, pte_reward_type := ty, pte_has_reward := True\<rparr>)"

lemma reward_found:
  assumes "knobs_ok K" "sb_ok K ok acts fit S" "i < length (sb_prefetch_tracker S)" "\<not> pte_has_reward (sb_prefetch_tracker S ! i)"
  shows "\<exists>S'. reward_entries K [i] S = Inr S' \<and> sb_brain S' = sb_brain S \<and> sb_last_evicted S' = sb_last_evicted S \<and>
    sb_prefetch_tracker S' = (sb_prefetch_tracker S)[i := rewarded K (scooby_enable_hbw_reward K \<and> is_high_bw K S) (sb_prefetch_tracker S ! i)]"
proof -
  let ?S = "count sbs_pt_found_total_update S" and ?p = "sb_prefetch_tracker S ! i"
  let ?ty = "if pte_is_filled ?p then correct_timely else correct_untimely"
  note env = framed_env [OF reward_counts(4) [OF sb_ok_env [OF assms(2)]]]
  have "entry_ok K (fit (sb_brain S)) ?p" using assms(2,3) by (simp add: sb_ok_def)
  then have a: "unat (pte_action_index ?p) < MAX_ACTIONS" using action_index_bound [OF assms(1)] by (simp add: entry_ok_def)
  obtain p' S' where r: "assign_reward K ?ty ?p ?S = Inr (p', S')" "framed K ?S S'" "p' = rewarded K (scooby_enable_hbw_reward K \<and> is_high_bw K ?S) ?p"
    using assign_reward_ok [OF env a assms(4), of ?ty] unfolding ends_total by (auto simp: rewarded_def Let_def)
  have "is_high_bw K ?S = is_high_bw K S" by (simp add: is_high_bw_def)
  moreover have "p'\<lparr>pte_has_reward := True\<rparr> = p'" using r(3) by (simp add: rewarded_def Let_def)
  ultimately show ?thesis using assms(4) r by (simp add: Let_def framed_def tracker_of_def)
qed

lemma reward_demand_tracker:
  assumes "knobs_ok K" "sb_ok K ok acts fit S" "address \<noteq> 0xdeadbeef"
  shows "\<exists>S'. reward_demand K address S = Inr S' \<and> sb_brain S' = sb_brain S \<and> sb_last_evicted S' = sb_last_evicted S \<and>
    sb_prefetch_tracker S' = map (\<lambda>p. if pte_address p = address \<and> \<not> pte_has_reward p
       then rewarded K (scooby_enable_hbw_reward K \<and> is_high_bw K S) p else p) (sb_prefetch_tracker S)"
proof (cases "address \<in> pte_address ` set (sb_prefetch_tracker S)")
  case False
  then have "map (\<lambda>p. if pte_address p = address \<and> \<not> pte_has_reward p
      then rewarded K (scooby_enable_hbw_reward K \<and> is_high_bw K S) p else p) (sb_prefetch_tracker S) = sb_prefetch_tracker S"
    by (intro map_idI) auto
  then show ?thesis using False by (simp add: reward_demand_def Let_def search_pt_none)
next
  case True
  let ?pt = "sb_prefetch_tracker S" and ?S = "count sbs_pt_found_update (count sbs_demand_called_update S)"
  let ?f = "\<lambda>p. if pte_address p = address \<and> \<not> pte_has_reward p then rewarded K (scooby_enable_hbw_reward K \<and> is_high_bw K S) p else p"
  obtain i where i: "i < length ?pt" "pte_address (?pt ! i) = address" using True by (auto simp: in_set_conv_nth)
  have once: "tracked_once ?pt" using assms(2) by (simp add: sb_ok_def)
  have m: "map ?f ?pt = ?pt[i := ?f (?pt ! i)]"
  proof (rule nth_equalityI)
    fix j assume "j < length (map ?f ?pt)"
    then show "map ?f ?pt ! j = ?pt[i := ?f (?pt ! i)] ! j"
      using tracked_once_eq [OF once _ i(1) _ i(2) assms(3), of j] by (cases "j = i") auto
  qed simp
  have run: "reward_demand K address S = reward_entries K [i] ?S"
    using search_pt_unique [OF once assms(3) i] by (simp add: reward_demand_def Let_def)
  note f = reward_counts(1) [OF sb_ok_env [OF assms(2)]]
  note g = framed_trans [OF f reward_counts(3) [OF framed_env [OF f]]]
  have ok: "sb_ok K ok acts fit ?S" using framed_sb_ok [OF g assms(2)] .
  show ?thesis
  proof (cases "pte_has_reward (?pt ! i)")
    case True
    then show ?thesis unfolding run m by (simp add: Let_def)
  next
    case False
    have "is_high_bw K ?S = is_high_bw K S" by (simp add: is_high_bw_def)
    then show ?thesis using reward_found [OF assms(1) ok, of i] i False unfolding run m by simp
  qed
qed

text \<open>
  C31: A demand access rewards the prefetch it needed, once. The tracked decision whose prefetch address is demanded, and that
  has no reward yet, gets the reward of a timely prefetch if its line has been filled and of an untimely one
  otherwise, at the current bandwidth; every other decision, the evicted one and the engine stay as they are.
\<close>

theorem demand_rewards_prefetch:
  assumes "knobs_ok K" "pythia_ok K R B S" "address \<noteq> 0xdeadbeef"
  shows "\<exists>S'. reward_demand K address S = Inr S' \<and> sb_brain S' = sb_brain S \<and> sb_last_evicted S' = sb_last_evicted S \<and>
    sb_prefetch_tracker S' = map (\<lambda>p. if pte_address p = address \<and> \<not> pte_has_reward p
       then rewarded K (scooby_enable_hbw_reward K \<and> is_high_bw K S) p else p) (sb_prefetch_tracker S)"
  using reward_demand_tracker [OF assms(1) _ assms(3)] assms(2) unfolding pythia_ok_def by blast


definition tracked :: "u64 \<Rightarrow> u32 \<Rightarrow> bool \<Rightarrow> pt_entry" where
  "tracked address action filled =
     (Scooby_PTEntry address State_reset action)\<lparr>pte_is_filled := filled, pte_consensus_vec := replicate NumFeatureTypes False\<rparr>"

definition sample_scooby :: "(int, unit) brain scooby" where
  "sample_scooby =
     \<lparr>sb_actions = [1, 0], sb_signature_table = [], sb_brain = Features sample_featurewise,
      sb_prefetch_tracker = [tracked 0x10040 0 True, tracked 0x30040 0 False], sb_last_evicted = Some (tracked 0x20040 1 False),
      sb_bw_level = 0, sb_core_ipc = 0, sb_acc_level = 0, sb_recorder = sample_recorder,
      sb_stats = scooby_init_stats sample_scooby_knobs, sb_state_action_dist = (\<lambda>_. None), sb_state_action_dist2 = (\<lambda>_. None),
      sb_action_deg_dist = (\<lambda>_. None)\<rparr>"

lemma sample_scooby: "pythia_ok sample_scooby_knobs no_exploration sample_brain_knobs sample_scooby"
proof -
  have acts: "scooby_max_actions sample_scooby_knobs = 2" "scooby_pt_size sample_scooby_knobs = 2" "scooby_st_size sample_scooby_knobs = 2"
    by (simp_all add: sample_scooby_knobs_def state_knobs.defs)
  have "brain_ok sample_brain_knobs (Features sample_featurewise)" using sample_featurewise by (simp add: brain_ok_def sample_brain_knobs_def)
  moreover have "brain_actions (Features sample_featurewise) = 2" by (simp add: brain_actions_def sample_featurewise_def)
  moreover have "brain_fits (Features sample_featurewise) (replicate NumFeatureTypes False)" by (simp add: brain_fits_def vec_fits_def)
  ultimately show ?thesis using acts sample_engine(5) init_stats_ok [of sample_scooby_knobs] sample_knobs_ok(5)
    by (simp add: pythia_ok_def sb_ok_def env_ok_def sample_scooby_def st_table_ok_def maps_ok_def tracked_once_def tracked_def
        Scooby_PTEntry_def entry_ok_def)
qed

theorem demand_rewards_prefetch_witness:
  "\<exists>S'. reward_demand sample_scooby_knobs 0x10040 sample_scooby = Inr S' \<and> map pte_reward (sb_prefetch_tracker S') = [20, 0] \<and>
    map pte_reward_type (sb_prefetch_tracker S') = [correct_timely, none]"
  using demand_rewards_prefetch [OF sample_knobs_ok(1) sample_scooby, where address = "0x10040"]
  by (auto simp: sample_scooby_def tracked_def Scooby_PTEntry_def rewarded_def reward_of_def sample_scooby_knobs_def state_knobs.defs is_high_bw_def)


context learning_engine
begin

lemma track_full:
  assumes "knobs_ok K" "sb_ok K ok actions fits S" "sb_prefetch_tracker S = p # ps" "length (p # ps) = unat (scooby_pt_size K)"
    "sb_last_evicted S = Some l" "address \<notin> pte_address ` set (p # ps) \<or> address = 0xdeadbeef"
  shows "\<exists>S'. track ops K address st a S = Inr (address \<notin> pte_address ` set (p # ps), True, S') \<and>
    sb_prefetch_tracker S' = ps @ [Scooby_PTEntry address st a] \<and> sb_last_evicted S' = Some p \<and>
    learn (pte_state l) (pte_action_index l) (fst (final_reward K S l)) (pte_state p) (pte_action_index p) (pte_consensus_vec l)
      (snd (final_reward K S l)) (sb_brain S) = Inr (sb_brain S')"
proof -
  let ?S = "count sbs_track_called_update S"
  have ok1: "sb_ok K ok actions fits ?S" using framed_sb_ok [OF reward_counts(9) [OF sb_ok_env [OF assms(2)]] assms(2)] .
  have "final_reward K ?S l = final_reward K S l" by (simp add: final_reward_def is_high_bw_def)
  then obtain S1 where S1: "evict_tracked ops K ?S = Inr S1" "sb_prefetch_tracker S1 = ps" "sb_last_evicted S1 = Some p"
    "learn (pte_state l) (pte_action_index l) (fst (final_reward K S l)) (pte_state p) (pte_action_index p) (pte_consensus_vec l)
      (snd (final_reward K S l)) (sb_brain S) = Inr (sb_brain S1)"
    using evict_tracked_ok [OF assms(1) ok1, of p ps] assms(3,5) unfolding ends_total by auto
  have "track ops K address st a S = Inr (address \<notin> pte_address ` set (p # ps), True,
      S1\<lparr>sb_prefetch_tracker := ps @ [Scooby_PTEntry address st a]\<rparr>)"
    unfolding track_def Let_def search_pt_none count_fields
    using assms(3,4,6) S1(1,2) by auto
  then show ?thesis using S1 by simp
qed

end

text \<open>
  C30: Decisions are learnt in the order they were made. When a new prefetch enters a full tracker, the oldest
  decision leaves it and becomes the last evicted one, and the engine makes exactly one SARSA step: for the decision
  evicted before, with its final reward, followed by the one evicted now. The final reward is the one
  the decision was given, or that of a useless prefetch, or of no prefetch, if it was given none.
\<close>

theorem decisions_learnt_in_order:
  assumes "knobs_ok K" "pythia_ok K R B S" "sb_prefetch_tracker S = p # ps" "length (p # ps) = unat (scooby_pt_size K)"
    "sb_last_evicted S = Some l" "address \<notin> pte_address ` set (p # ps) \<or> address = 0xdeadbeef"
  shows "\<exists>S'. track (brain_ops F R B) K address st a S = Inr (address \<notin> pte_address ` set (p # ps), True, S') \<and>
    sb_prefetch_tracker S' = ps @ [Scooby_PTEntry address st a] \<and> sb_last_evicted S' = Some p \<and>
    brain_learn F B (pte_state l) (pte_action_index l) (fst (final_reward K S l)) (pte_state p) (pte_action_index p) (pte_consensus_vec l)
      (snd (final_reward K S l)) (sb_brain S) = Inr (sb_brain S')"
  unfolding brain_ops_def by (rule brain_le.track_full [OF assms(1) assms(2) [unfolded pythia_ok_def] assms(3-6)])

theorem decisions_learnt_in_order_witness:
  "\<exists>S'. track (brain_ops int_floats no_exploration sample_brain_knobs) sample_scooby_knobs 0x50040 State_reset 0 sample_scooby = Inr (True, True, S') \<and>
    map pte_address (sb_prefetch_tracker S') = [0x30040, 0x50040] \<and>
    brain_learn int_floats sample_brain_knobs State_reset 1 (- 8) State_reset 0 (replicate NumFeatureTypes False) incorrect
      (Features sample_featurewise) = Inr (sb_brain S')"
proof -
  have size: "scooby_pt_size sample_scooby_knobs = 2" by (simp add: sample_scooby_knobs_def state_knobs.defs)
  have fields: "sb_prefetch_tracker sample_scooby = tracked 0x10040 0 True # [tracked 0x30040 0 False]"
    "sb_last_evicted sample_scooby = Some (tracked 0x20040 1 False)" "sb_brain sample_scooby = Features sample_featurewise"
    by (simp_all add: sample_scooby_def)
  have "final_reward sample_scooby_knobs sample_scooby (tracked 0x20040 1 False) = (- 8, incorrect)"
    by (simp add: final_reward_def tracked_def Scooby_PTEntry_def reward_of_def sample_scooby_knobs_def state_knobs.defs is_high_bw_def)
  then show ?thesis
    using decisions_learnt_in_order [OF sample_knobs_ok(1) sample_scooby fields(1) _ fields(2), of "0x50040" int_floats State_reset 0] size fields(3)
    by (auto simp: tracked_def Scooby_PTEntry_def)
qed

text \<open>
  C32: The largest degree overflows a statistic. With state and action statistics enabled, a prefetch of degree 16, which the
  other histograms admit, counts past the end of the 16 counters per action.
\<close>

theorem degree_sixteen_overflows:
  assumes "env_ok K S" "a < scooby_max_actions K"
  shows "update_stats_state K st a 16 S = Inl Out_of_bounds"
proof -
  let ?n = "unat (scooby_max_actions K)"
  let ?t = "case sb_state_action_dist2 S (state_string st) of Some t \<Rightarrow> t | None \<Rightarrow> replicate (?n + 1) 0"
  have len: "length ?t = ?n + 1" using assms(1) by (auto simp: env_ok_def maps_ok_def ran_def split: option.split)
  have a: "unat a < ?n" using assms(2) by (simp add: word_less_nat_alt)
  obtain t1 where t1: "bump1 (unat a) ?t = Inr t1" "length t1 = ?n + 1" using bump1_ok [of "unat a" ?t] len a by auto
  obtain t2 where t2: "bump1 ?n t1 = Inr t2" using bump1_ok [of ?n t1] t1(2) by auto
  have act: "getAction a (S\<lparr>sb_state_action_dist2 := m\<rparr>) = Inr (sb_actions S ! unat a)" for m
    using a assms(1) by (simp add: getAction_def env_ok_def)
  let ?d = "case sb_action_deg_dist S (sb_actions S ! unat a) of Some d \<Rightarrow> d | None \<Rightarrow> replicate MAX_SCOOBY_DEGREE 0"
  have "length ?d = 16" using assms(1) by (auto simp: env_ok_def maps_ok_def ran_def MAX_SCOOBY_DEGREE_def split: option.split)
  then have "bump1 16 ?d = Inl Out_of_bounds" by (simp add: bump1_def)
  then show ?thesis using t1(1) t2(1) act by (simp add: update_stats_state_def Let_def)
qed

theorem degree_sixteen_overflows_witness:
  "update_stats_state sample_scooby_knobs State_reset 1 16 sample_scooby = Inl Out_of_bounds"
proof -
  have "env_ok sample_scooby_knobs sample_scooby" using sample_scooby by (simp add: pythia_ok_def sb_ok_def)
  then show ?thesis using degree_sixteen_overflows [of sample_scooby_knobs sample_scooby 1 State_reset]
    by (simp add: sample_scooby_knobs_def state_knobs.defs)
qed

end
