(* ===== verification/Core.thy ===== *)
theory Core
  imports Bimodal Cache
begin

text \<open>
  The state of the out-of-order core (\<^verbatim>\<open>inc/ooo_cpu.h\<close>, \<^verbatim>\<open>inc/instruction.h\<close>, \<^verbatim>\<open>inc/block.h\<close>): the reorder
  buffer, the load and store queues, and the arrays of ready instructions, loads and stores.

  An index is a natural number, and \<^verbatim>\<open>ROB_SIZE\<close>, \<^verbatim>\<open>LQ_SIZE\<close>, \<^verbatim>\<open>SQ_SIZE\<close> are the \<^verbatim>\<open>SIZE\<close> fields that
  the constructors set to them. The values 0, \<^verbatim>\<open>INFLIGHT\<close> and \<^verbatim>\<open>COMPLETED\<close> of the progress fields keep
  one type; flags that are only ever 0 or 1 are Booleans. Fields that no code reads or writes
  after construction are left out. Caches, TLBs and the page tables behind them are reached through the
  operations of \<open>core_ports\<close>, on a type \<open>'w\<close> of their states; the trace file is the list of its records.
\<close>

section \<open>Instructions\<close>

definition NUM_INSTR_DESTINATIONS :: nat where "NUM_INSTR_DESTINATIONS = 2"
definition NUM_INSTR_DESTINATIONS_SPARC :: nat where "NUM_INSTR_DESTINATIONS_SPARC = 4"
definition NUM_INSTR_SOURCES :: nat where "NUM_INSTR_SOURCES = 4"
definition UINT32_MAX :: u32 where "UINT32_MAX = - 1"
definition UINT64_MAX :: u64 where "UINT64_MAX = - 1"

text \<open>A record of a trace; only the records of \<^verbatim>\<open>cloudsuite\<close> traces have address spaces.\<close>

record input_instr =
  tr_ip :: u64
  tr_is_branch :: u8
  tr_branch_taken :: u8
  tr_destination_registers :: "u8 list"
  tr_source_registers :: "u8 list"
  tr_destination_memory :: "u64 list"
  tr_source_memory :: "u64 list"
  tr_asid0 :: u8
  tr_asid1 :: u8

record ooo_instr =
  oi_instr_id :: u64
  oi_ip :: u64
  oi_producer_id :: u64
  oi_event_cycle :: u64
  oi_is_branch :: u8
  oi_is_memory :: bool
  oi_branch_taken :: u8
  oi_branch_mispredicted :: bool
  oi_translated :: u8
  oi_source_added :: "bool list"
  oi_destination_added :: "bool list"
  oi_is_producer :: bool
  oi_reg_RAW_producer :: bool
  oi_reg_ready :: bool
  oi_asid0 :: u8
  oi_asid1 :: u8
  oi_reg_RAW_checked :: "bool list"
  oi_fetched :: u8
  oi_scheduled :: u8
  oi_num_reg_ops :: int
  oi_num_mem_ops :: int
  oi_num_reg_dependent :: int
  oi_executed :: u8
  oi_destination_registers :: "u8 list"
  oi_source_registers :: "u8 list"
  oi_registers_instrs_depend_on_me :: fastset
  oi_registers_index_depend_on_me :: "fastset list"
  oi_instruction_pa :: u64
  oi_destination_memory :: "u64 list"
  oi_source_memory :: "u64 list"
  oi_destination_virtual_address :: "u64 list"
  oi_source_virtual_address :: "u64 list"
  oi_memory_instrs_depend_on_me :: fastset
  oi_lq_index :: "u32 list"
  oi_sq_index :: "u32 list"

definition ooo_instr_init :: ooo_instr where
  "ooo_instr_init =
     \<lparr>oi_instr_id = 0, oi_ip = 0, oi_producer_id = 0, oi_event_cycle = 0, oi_is_branch = 0, oi_is_memory = False,
      oi_branch_taken = 0, oi_branch_mispredicted = False, oi_translated = 0,
      oi_source_added = replicate NUM_INSTR_SOURCES False, oi_destination_added = replicate NUM_INSTR_DESTINATIONS_SPARC False,
      oi_is_producer = False, oi_reg_RAW_producer = False, oi_reg_ready = False, oi_asid0 = 255, oi_asid1 = 255,
      oi_reg_RAW_checked = replicate NUM_INSTR_SOURCES False, oi_fetched = 0, oi_scheduled = 0,
      oi_num_reg_ops = 0, oi_num_mem_ops = 0, oi_num_reg_dependent = 0, oi_executed = 0,
      oi_destination_registers = replicate NUM_INSTR_DESTINATIONS_SPARC 0, oi_source_registers = replicate NUM_INSTR_SOURCES 0,
      oi_registers_instrs_depend_on_me = fastset_init,
      oi_registers_index_depend_on_me = replicate NUM_INSTR_SOURCES fastset_init, oi_instruction_pa = 0,
      oi_destination_memory = replicate NUM_INSTR_DESTINATIONS_SPARC 0, oi_source_memory = replicate NUM_INSTR_SOURCES 0,
      oi_destination_virtual_address = replicate NUM_INSTR_DESTINATIONS_SPARC 0,
      oi_source_virtual_address = replicate NUM_INSTR_SOURCES 0, oi_memory_instrs_depend_on_me = fastset_init,
      oi_lq_index = replicate NUM_INSTR_SOURCES UINT32_MAX, oi_sq_index = replicate NUM_INSTR_DESTINATIONS_SPARC UINT32_MAX\<rparr>"

section \<open>Buffers\<close>

record core_buffer =
  rb_SIZE :: nat
  rb_head :: nat
  rb_tail :: nat
  rb_occupancy :: nat
  rb_last_read :: nat
  rb_last_fetch :: nat
  rb_next_fetch1 :: nat
  rb_next_schedule :: nat
  rb_entry :: "ooo_instr list"

definition CORE_BUFFER_init :: "nat \<Rightarrow> core_buffer" where
  "CORE_BUFFER_init n =
     \<lparr>rb_SIZE = n, rb_head = 0, rb_tail = 0, rb_occupancy = 0, rb_last_read = n - 1, rb_last_fetch = n - 1,
      rb_next_fetch1 = 0, rb_next_schedule = 0, rb_entry = replicate n ooo_instr_init\<rparr>"

record lsq_entry =
  lse_instr_id :: u64
  lse_producer_id :: u64
  lse_virtual_address :: u64
  lse_physical_address :: u64
  lse_ip :: u64
  lse_event_cycle :: u64
  lse_rob_index :: nat
  lse_data_index :: nat
  lse_translated :: u8
  lse_fetched :: u8
  lse_asid0 :: u8
  lse_asid1 :: u8

definition LSQ_ENTRY_init :: lsq_entry where
  "LSQ_ENTRY_init =
     \<lparr>lse_instr_id = 0, lse_producer_id = UINT64_MAX, lse_virtual_address = 0, lse_physical_address = 0, lse_ip = 0,
      lse_event_cycle = 0, lse_rob_index = 0, lse_data_index = 0, lse_translated = 0, lse_fetched = 0, lse_asid0 = 255, lse_asid1 = 255\<rparr>"

record lsq =
  lsq_SIZE :: nat
  lsq_occupancy :: nat
  lsq_head :: nat
  lsq_tail :: nat
  lsq_entries :: "lsq_entry list"

text \<open>The decrement of the \<^verbatim>\<open>uint32_t\<close> occupancy of a queue.\<close>

definition one_less :: "nat \<Rightarrow> nat" where
  "one_less n = (if n = 0 then 2 ^ 32 - 1 else n - 1)"

definition LOAD_STORE_QUEUE_init :: "nat \<Rightarrow> lsq" where
  "LOAD_STORE_QUEUE_init n = \<lparr>lsq_SIZE = n, lsq_occupancy = 0, lsq_head = 0, lsq_tail = 0, lsq_entries = replicate n LSQ_ENTRY_init\<rparr>"

text \<open>The arrays \<^verbatim>\<open>RTE0\<close>, \<^verbatim>\<open>RTE1\<close>, \<^verbatim>\<open>RTL0\<close>, \<^verbatim>\<open>RTL1\<close>, \<^verbatim>\<open>RTS0\<close> and \<^verbatim>\<open>RTS1\<close>: rings in which the size stands for no index.\<close>

record ready =
  rq_array :: "nat list"
  rq_head :: nat
  rq_tail :: nat

definition ready_init :: "nat \<Rightarrow> ready" where
  "ready_init n = \<lparr>rq_array = replicate n n, rq_head = 0, rq_tail = 0\<rparr>"

definition wrap_next :: "nat \<Rightarrow> nat \<Rightarrow> nat" where
  "wrap_next n i = (if i + 1 = n then 0 else i + 1)"

definition ready_push :: "nat \<Rightarrow> ready \<Rightarrow> ready res" where
  "ready_push x r =
     (if rq_tail r < length (rq_array r)
      then Inr (r\<lparr>rq_array := (rq_array r)[rq_tail r := x], rq_tail := wrap_next (length (rq_array r)) (rq_tail r)\<rparr>)
      else Inl Out_of_bounds)"

text \<open>With the sanity check of \<^verbatim>\<open>RTE0\<close> and \<^verbatim>\<open>RTE1\<close> that the slot is free.\<close>

definition ready_push_checked :: "nat \<Rightarrow> ready \<Rightarrow> ready res" where
  "ready_push_checked x r =
     (if rq_tail r < length (rq_array r) \<and> rq_array r ! rq_tail r < length (rq_array r) then Inl Assert_failed else ready_push x r)"

definition ready_pop :: "ready \<Rightarrow> ready" where
  "ready_pop r =
     r\<lparr>rq_array := (rq_array r)[rq_head r := length (rq_array r)], rq_head := wrap_next (length (rq_array r)) (rq_head r)\<rparr>"

text \<open>The index at the head, if there is one.\<close>

definition ready_front :: "ready \<Rightarrow> nat option" where
  "ready_front r = (let x = rq_array r ! rq_head r in if x < length (rq_array r) then Some x else None)"

section \<open>The core\<close>

record o3_cpu =
  cpu_trace_pos :: nat
  cpu_branch_table :: "int list"
  cpu_instr_unique_id :: u64
  cpu_completed_executions :: u64
  cpu_num_retired :: u64
  cpu_instrs_to_read_this_cycle :: nat
  cpu_inflight_reg_executions :: u32
  cpu_inflight_mem_executions :: u32
  cpu_num_searched :: nat
  cpu_ROB :: core_buffer
  cpu_LQ :: lsq
  cpu_SQ :: lsq
  cpu_STA :: "u64 list"
  cpu_STA_head :: nat
  cpu_STA_tail :: nat
  cpu_RTE0 :: ready
  cpu_RTE1 :: ready
  cpu_RTL0 :: ready
  cpu_RTL1 :: ready
  cpu_RTS0 :: ready
  cpu_RTS1 :: ready
  cpu_fetch_stall :: bool
  cpu_fetch_resume_cycle :: u64
  cpu_num_branch :: u64
  cpu_branch_mispredictions :: u64
  cpu_total_rob_occupancy_at_branch_mispredict :: u64
  cpu_unique_ppages :: "u64 set"

definition O3_CPU_init :: "nat \<Rightarrow> nat \<Rightarrow> nat \<Rightarrow> u64 \<Rightarrow> o3_cpu" where
  "O3_CPU_init rob lq sq raw =
     \<lparr>cpu_trace_pos = 0, cpu_branch_table = initialize_branch_predictor, cpu_instr_unique_id = 0,
      cpu_completed_executions = 0, cpu_num_retired = 0, cpu_instrs_to_read_this_cycle = 0,
      cpu_inflight_reg_executions = 0, cpu_inflight_mem_executions = 0, cpu_num_searched = 0,
      cpu_ROB = CORE_BUFFER_init rob, cpu_LQ = LOAD_STORE_QUEUE_init lq, cpu_SQ = LOAD_STORE_QUEUE_init sq,
      cpu_STA = replicate (rob * NUM_INSTR_DESTINATIONS_SPARC) UINT64_MAX, cpu_STA_head = 0, cpu_STA_tail = 0,
      cpu_RTE0 = ready_init rob, cpu_RTE1 = ready_init rob, cpu_RTL0 = ready_init lq, cpu_RTL1 = ready_init lq,
      cpu_RTS0 = ready_init sq, cpu_RTS1 = ready_init sq, cpu_fetch_stall = False, cpu_fetch_resume_cycle = 0,
      cpu_num_branch = 0, cpu_branch_mispredictions = 0, cpu_total_rob_occupancy_at_branch_mispredict = raw,
      cpu_unique_ppages = {}\<rparr>"

text \<open>Access by index, as in \<^verbatim>\<open>ROB.entry[i].f\<close>.\<close>

definition rob_at :: "o3_cpu \<Rightarrow> nat \<Rightarrow> ooo_instr" where
  "rob_at S i = rb_entry (cpu_ROB S) ! i"

definition upd_rob :: "nat \<Rightarrow> (ooo_instr \<Rightarrow> ooo_instr) \<Rightarrow> o3_cpu \<Rightarrow> o3_cpu" where
  "upd_rob i f S = S\<lparr>cpu_ROB := (cpu_ROB S)\<lparr>rb_entry := (rb_entry (cpu_ROB S))[i := f (rob_at S i)]\<rparr>\<rparr>"

definition lq_at :: "o3_cpu \<Rightarrow> nat \<Rightarrow> lsq_entry" where
  "lq_at S i = lsq_entries (cpu_LQ S) ! i"

definition upd_lq :: "nat \<Rightarrow> (lsq_entry \<Rightarrow> lsq_entry) \<Rightarrow> o3_cpu \<Rightarrow> o3_cpu" where
  "upd_lq i f S = S\<lparr>cpu_LQ := (cpu_LQ S)\<lparr>lsq_entries := (lsq_entries (cpu_LQ S))[i := f (lq_at S i)]\<rparr>\<rparr>"

definition sq_at :: "o3_cpu \<Rightarrow> nat \<Rightarrow> lsq_entry" where
  "sq_at S i = lsq_entries (cpu_SQ S) ! i"

definition upd_sq :: "nat \<Rightarrow> (lsq_entry \<Rightarrow> lsq_entry) \<Rightarrow> o3_cpu \<Rightarrow> o3_cpu" where
  "upd_sq i f S = S\<lparr>cpu_SQ := (cpu_SQ S)\<lparr>lsq_entries := (lsq_entries (cpu_SQ S))[i := f (sq_at S i)]\<rparr>\<rparr>"

definition in_rob :: "o3_cpu \<Rightarrow> nat \<Rightarrow> bool" where
  "in_rob S i \<longleftrightarrow> i < length (rb_entry (cpu_ROB S))"

definition in_lq :: "o3_cpu \<Rightarrow> nat \<Rightarrow> bool" where
  "in_lq S i \<longleftrightarrow> i < length (lsq_entries (cpu_LQ S))"

definition in_sq :: "o3_cpu \<Rightarrow> nat \<Rightarrow> bool" where
  "in_sq S i \<longleftrightarrow> i < length (lsq_entries (cpu_SQ S))"

text \<open>The indices of the occupied entries, oldest first, as the loops over the buffer visit them.\<close>

definition rob_span :: "core_buffer \<Rightarrow> nat \<Rightarrow> nat list" where
  "rob_span r limit = (if rb_head r < limit then [rb_head r..<limit] else [rb_head r..<rb_SIZE r] @ [0..<limit])"

definition rob_empty :: "o3_cpu \<Rightarrow> bool" where
  "rob_empty S \<longleftrightarrow> rb_head (cpu_ROB S) = rb_tail (cpu_ROB S) \<and> rb_occupancy (cpu_ROB S) = 0"

section \<open>What the core is connected to\<close>

record 'w core_ports =
  cp_now :: u64
  cp_blank :: packet
  cp_trace :: "input_instr list"
  cp_cloudsuite :: bool
  cp_scheduling_latency :: u64
  cp_exec_latency :: u64
  itlb_add_rq :: "packet \<Rightarrow> 'w \<Rightarrow> (int \<times> 'w) res"
  l1i_add_rq :: "packet \<Rightarrow> 'w \<Rightarrow> (int \<times> 'w) res"
  dtlb_add_rq :: "packet \<Rightarrow> 'w \<Rightarrow> (int \<times> 'w) res"
  l1d_add_rq :: "packet \<Rightarrow> 'w \<Rightarrow> (int \<times> 'w) res"
  l1d_add_wq :: "packet \<Rightarrow> 'w \<Rightarrow> (int \<times> 'w) res"
  l1d_wq_occupancy :: "'w \<Rightarrow> nat"
  l1d_wq_SIZE :: "'w \<Rightarrow> nat"
  l1d_count_wq_full :: "'w \<Rightarrow> 'w"
  itlb_processed :: "'w \<Rightarrow> packet_queue"
  l1i_processed :: "'w \<Rightarrow> packet_queue"
  dtlb_processed :: "'w \<Rightarrow> packet_queue"
  l1d_processed :: "'w \<Rightarrow> packet_queue"
  put_itlb_processed :: "packet_queue \<Rightarrow> 'w \<Rightarrow> 'w"
  put_l1i_processed :: "packet_queue \<Rightarrow> 'w \<Rightarrow> 'w"
  put_dtlb_processed :: "packet_queue \<Rightarrow> 'w \<Rightarrow> 'w"
  put_l1d_processed :: "packet_queue \<Rightarrow> 'w \<Rightarrow> 'w"
  operate_caches :: "'w \<Rightarrow> 'w res"

text \<open>The variable \<^verbatim>\<open>MAX_INSTR_DESTINATIONS\<close>, which \<^verbatim>\<open>main.cc\<close> sets by the kind of trace.\<close>

definition MAX_INSTR_DESTINATIONS :: "'w core_ports \<Rightarrow> nat" where
  "MAX_INSTR_DESTINATIONS E = (if cp_cloudsuite E then NUM_INSTR_DESTINATIONS_SPARC else NUM_INSTR_DESTINATIONS)"

end
