(* ===== verification/CoreFetch.thy ===== *)
theory CoreFetch
  imports Core
begin

text \<open>
  The front end of the core (\<^verbatim>\<open>src/ooo_cpu.cc\<close>): reading the trace into the reorder buffer with branch prediction
  (\<^verbatim>\<open>handle_branch\<close>), translation and fetch of the instructions (\<^verbatim>\<open>fetch_instruction\<close>) and their completion.

  \<^verbatim>\<open>TraceReader\<close> is the position in the list of records: \<^verbatim>\<open>read\<close> fails at its end, \<^verbatim>\<open>rewind\<close> goes back to its
  start. The loop of \<^verbatim>\<open>handle_branch\<close> need not end, so its value is an option: \<open>None\<close> if it does not.
\<close>

definition FETCH_WIDTH :: nat where "FETCH_WIDTH = 12"
definition FILL_L1 :: i32 where "FILL_L1 = 1"

section \<open>Reading an instruction\<close>

text \<open>The store array remembers the order of the instructions that write memory.\<close>

definition push_STA :: "u64 \<Rightarrow> o3_cpu \<Rightarrow> o3_cpu res" where
  "push_STA instr_id S =
     (if \<not> cpu_STA_tail S < length (cpu_STA S) then Inl Out_of_bounds
      else if cpu_STA S ! cpu_STA_tail S < UINT64_MAX \<and> cpu_STA_head S \<noteq> cpu_STA_tail S then Inl Assert_failed
      else Inr (S\<lparr>cpu_STA := (cpu_STA S)[cpu_STA_tail S := instr_id], cpu_STA_tail := wrap_next (length (cpu_STA S)) (cpu_STA_tail S)\<rparr>))"

definition copy_destination :: "input_instr \<Rightarrow> nat \<Rightarrow> ooo_instr \<times> o3_cpu \<Rightarrow> (ooo_instr \<times> o3_cpu) res" where
  "copy_destination t i aS =
     (let (a, S) = aS in
      if \<not> (i < length (tr_destination_registers t) \<and> i < length (tr_destination_memory t)) then Inl Out_of_bounds
      else
        let r = tr_destination_registers t ! i; m = tr_destination_memory t ! i;
            a = a\<lparr>oi_num_reg_ops := oi_num_reg_ops a + of_bool (r \<noteq> 0), oi_num_mem_ops := oi_num_mem_ops a + of_bool (m \<noteq> 0),
                   oi_destination_registers := (oi_destination_registers a)[i := r],
                   oi_destination_memory := (oi_destination_memory a)[i := m],
                   oi_destination_virtual_address := (oi_destination_virtual_address a)[i := m]\<rparr>
        in if m \<noteq> 0 then bind_res (push_STA (cpu_instr_unique_id S) S) (\<lambda>S. Inr (a, S)) else Inr (a, S))"

primrec copy_destinations :: "input_instr \<Rightarrow> nat list \<Rightarrow> ooo_instr \<times> o3_cpu \<Rightarrow> (ooo_instr \<times> o3_cpu) res" where
  "copy_destinations t [] aS = Inr aS"
| "copy_destinations t (i # is) aS = bind_res (copy_destination t i aS) (copy_destinations t is)"

primrec copy_sources :: "input_instr \<Rightarrow> nat list \<Rightarrow> ooo_instr \<Rightarrow> ooo_instr res" where
  "copy_sources t [] a = Inr a"
| "copy_sources t (i # is) a =
     (if \<not> (i < length (tr_source_registers t) \<and> i < length (tr_source_memory t)) then Inl Out_of_bounds
      else
        let r = tr_source_registers t ! i; m = tr_source_memory t ! i in
        copy_sources t is
          (a\<lparr>oi_num_reg_ops := oi_num_reg_ops a + of_bool (r \<noteq> 0), oi_num_mem_ops := oi_num_mem_ops a + of_bool (m \<noteq> 0),
              oi_source_registers := (oi_source_registers a)[i := r], oi_source_memory := (oi_source_memory a)[i := m],
              oi_source_virtual_address := (oi_source_virtual_address a)[i := m]\<rparr>))"

definition build_instr :: "'w core_ports \<Rightarrow> input_instr \<Rightarrow> o3_cpu \<Rightarrow> (ooo_instr \<times> o3_cpu) res" where
  "build_instr E t S =
     (let a = ooo_instr_init\<lparr>oi_instr_id := cpu_instr_unique_id S, oi_ip := tr_ip t, oi_is_branch := tr_is_branch t,
                oi_branch_taken := tr_branch_taken t, oi_asid0 := (if cp_cloudsuite E then tr_asid0 t else 0),
                oi_asid1 := (if cp_cloudsuite E then tr_asid1 t else 0)\<rparr>
      in bind_res (copy_destinations t [0..<MAX_INSTR_DESTINATIONS E] (a, S)) (\<lambda>(a, S).
         bind_res (copy_sources t [0..<NUM_INSTR_SOURCES] a) (\<lambda>a.
           Inr (if oi_num_mem_ops a > 0 then a\<lparr>oi_is_memory := True\<rparr> else a, S))))"

definition add_to_rob :: "'w core_ports \<Rightarrow> ooo_instr \<Rightarrow> o3_cpu \<Rightarrow> (nat \<times> o3_cpu) res" where
  "add_to_rob E arch_instr S =
     (let index = rb_tail (cpu_ROB S) in
      if \<not> in_rob S index then Inl Out_of_bounds
      else if oi_instr_id (rob_at S index) \<noteq> 0 then Inl Assert_failed
      else
        let S = upd_rob index (\<lambda>_. arch_instr\<lparr>oi_event_cycle := cp_now E\<rparr>) S;
            tail = index + 1;
            r = (cpu_ROB S)\<lparr>rb_occupancy := rb_occupancy (cpu_ROB S) + 1, rb_tail := (if tail \<ge> rb_SIZE (cpu_ROB S) then 0 else tail)\<rparr>;
            S = S\<lparr>cpu_ROB := r\<rparr>
        in if oi_ip (rob_at S index) = 0 then Inl Assert_failed else Inr (index, S))"

definition predict_instr :: "nat \<Rightarrow> ooo_instr \<Rightarrow> o3_cpu \<Rightarrow> o3_cpu res" where
  "predict_instr rob_index arch_instr S =
     (let S = S\<lparr>cpu_num_branch := cpu_num_branch S + 1\<rparr> in
      bind_res (predict_branch (cpu_branch_table S) (oi_ip arch_instr)) (\<lambda>branch_prediction.
        let S = (if oi_branch_taken arch_instr \<noteq> branch_prediction then
                   upd_rob rob_index (\<lambda>i. i\<lparr>oi_branch_mispredicted := True\<rparr>)
                     (S\<lparr>cpu_branch_mispredictions := cpu_branch_mispredictions S + 1,
                         cpu_total_rob_occupancy_at_branch_mispredict :=
                           cpu_total_rob_occupancy_at_branch_mispredict S + of_nat (rb_occupancy (cpu_ROB S)),
                         cpu_instrs_to_read_this_cycle := 0, cpu_fetch_stall := True\<rparr>)
                 else if branch_prediction = 1 then S\<lparr>cpu_instrs_to_read_this_cycle := 0\<rparr> else S)
        in bind_res (last_branch_result (oi_ip arch_instr) (oi_branch_taken arch_instr) (cpu_branch_table S)) (\<lambda>tab.
             Inr (S\<lparr>cpu_branch_table := tab\<rparr>))))"

text \<open>
  An instruction is read into a buffer that has room for it, and is otherwise dropped. The results are whether the
  loop continues, \<^verbatim>\<open>num_reads\<close>, and the core.
\<close>

definition admit_instr :: "'w core_ports \<Rightarrow> ooo_instr \<Rightarrow> nat \<Rightarrow> o3_cpu \<Rightarrow> (bool \<times> nat \<times> o3_cpu) res" where
  "admit_instr E arch_instr num_reads S =
     (if rb_occupancy (cpu_ROB S) < rb_SIZE (cpu_ROB S) then
        bind_res (add_to_rob E arch_instr S) (\<lambda>(rob_index, S).
        bind_res (if oi_is_branch arch_instr \<noteq> 0 then predict_instr rob_index arch_instr S else Inr S) (\<lambda>S.
          Inr (\<not> (cpu_instrs_to_read_this_cycle S \<le> num_reads + 1 \<or> rb_occupancy (cpu_ROB S) = rb_SIZE (cpu_ROB S)), num_reads + 1, S)))
      else Inr (True, num_reads, S))"

definition read_record :: "'w core_ports \<Rightarrow> nat \<times> o3_cpu \<Rightarrow> (bool \<times> nat \<times> o3_cpu) res" where
  "read_record E nS =
     (let (num_reads, S) = nS in
      if \<not> cpu_trace_pos S < length (cp_trace E) then Inr (True, num_reads, S\<lparr>cpu_trace_pos := 0\<rparr>)
      else
        bind_res (build_instr E (cp_trace E ! cpu_trace_pos S) (S\<lparr>cpu_trace_pos := cpu_trace_pos S + 1\<rparr>)) (\<lambda>(arch_instr, S).
        bind_res (admit_instr E arch_instr num_reads S) (\<lambda>(continue_reading, num_reads, S).
          Inr (continue_reading, num_reads, S\<lparr>cpu_instr_unique_id := cpu_instr_unique_id S + 1\<rparr>))))"

partial_function (option) read_records :: "'w core_ports \<Rightarrow> nat \<times> o3_cpu \<Rightarrow> o3_cpu res option" where
  "read_records E nS =
     (case read_record E nS of
        Inl fault \<Rightarrow> Some (Inl fault)
      | Inr (continue_reading, nS) \<Rightarrow> if continue_reading then read_records E nS else Some (Inr (snd nS)))"

definition handle_branch :: "'w core_ports \<Rightarrow> o3_cpu \<Rightarrow> o3_cpu res option" where
  "handle_branch E S = read_records E (0, S\<lparr>cpu_instrs_to_read_this_cycle := FETCH_WIDTH\<rparr>)"

section \<open>Looking up an instruction\<close>

definition check_rob :: "u64 \<Rightarrow> o3_cpu \<Rightarrow> nat res" where
  "check_rob instr_id S =
     (if rob_empty S then Inr (rb_SIZE (cpu_ROB S))
      else
        case find (\<lambda>i. oi_instr_id (rob_at S i) = instr_id) (rob_span (cpu_ROB S) (rb_tail (cpu_ROB S))) of
          Some i \<Rightarrow> Inr i
        | None \<Rightarrow> Inl Assert_failed)"

section \<open>Fetching\<close>

definition itlb_packet :: "'w core_ports \<Rightarrow> nat \<Rightarrow> ooo_instr \<Rightarrow> packet" where
  "itlb_packet E i e =
     (PACKET_init (cp_blank E))\<lparr>p_instruction := 1, p_tlb_access := 1, p_fill_level := FILL_L1, p_rob_index := of_nat i,
        p_producer := 0, p_asid0 := oi_asid0 e, p_asid1 := oi_asid1 e, p_type := ucast LOAD, p_cpu := 0,
        p_address := (if cp_cloudsuite E then push_bit 9 (drop_bit 12 (oi_ip e)) OR (256 + ucast (oi_asid0 e)) else drop_bit 12 (oi_ip e)),
        p_full_addr := oi_ip e, p_instr_id := oi_instr_id e, p_ip := oi_ip e, p_event_cycle := cp_now E\<rparr>"

definition l1i_packet :: "'w core_ports \<Rightarrow> nat \<Rightarrow> ooo_instr \<Rightarrow> packet" where
  "l1i_packet E i e =
     (PACKET_init (cp_blank E))\<lparr>p_instruction := 1, p_fill_level := FILL_L1, p_rob_index := of_nat i, p_producer := 0,
        p_asid0 := oi_asid0 e, p_asid1 := oi_asid1 e, p_type := ucast LOAD, p_cpu := 0, p_address := drop_bit 6 (oi_instruction_pa e),
        p_full_addr := oi_instruction_pa e, p_instruction_pa := oi_instruction_pa e, p_instr_id := oi_instr_id e, p_ip := oi_ip e,
        p_event_cycle := cp_now E\<rparr>"

primrec translate_loop :: "'w core_ports \<Rightarrow> nat \<Rightarrow> nat \<Rightarrow> o3_cpu \<times> 'w \<Rightarrow> (o3_cpu \<times> 'w) res" where
  "translate_loop E 0 read_index Sw = Inr Sw"
| "translate_loop E (Suc n) read_index Sw =
     (let (S, w) = Sw; e = rob_at S read_index in
      if \<not> in_rob S read_index then Inl Out_of_bounds
      else if oi_ip e = 0 then Inr Sw
      else if oi_translated e \<noteq> 0 then if read_index = rb_head (cpu_ROB S) then Inr Sw else Inl Assert_failed
      else
        bind_res (itlb_add_rq E (itlb_packet E read_index e) w) (\<lambda>(rq_index, w).
          if rq_index = - 2 then Inr (S, w)
          else translate_loop E n (wrap_next (rb_SIZE (cpu_ROB S)) read_index) (S\<lparr>cpu_ROB := (cpu_ROB S)\<lparr>rb_last_read := read_index\<rparr>\<rparr>, w)))"

primrec fetch_loop :: "'w core_ports \<Rightarrow> nat \<Rightarrow> nat \<Rightarrow> o3_cpu \<times> 'w \<Rightarrow> (o3_cpu \<times> 'w) res" where
  "fetch_loop E 0 fetch_index Sw = Inr Sw"
| "fetch_loop E (Suc n) fetch_index Sw =
     (let (S, w) = Sw; e = rob_at S fetch_index in
      if \<not> in_rob S fetch_index then Inl Out_of_bounds
      else if oi_translated e \<noteq> COMPLETED \<or> oi_event_cycle e > cp_now E then Inr Sw
      else if oi_fetched e \<noteq> 0 then if fetch_index = rb_head (cpu_ROB S) then Inr Sw else Inl Assert_failed
      else
        bind_res (l1i_add_rq E (l1i_packet E fetch_index e) w) (\<lambda>(rq_index, w).
          if rq_index = - 2 then Inr (S, w)
          else
            let S = upd_rob fetch_index (\<lambda>i. i\<lparr>oi_fetched := INFLIGHT\<rparr>) S in
            fetch_loop E n (wrap_next (rb_SIZE (cpu_ROB S)) fetch_index) (S\<lparr>cpu_ROB := (cpu_ROB S)\<lparr>rb_last_fetch := fetch_index\<rparr>\<rparr>, w)))"

definition fetch_instruction :: "'w core_ports \<Rightarrow> o3_cpu \<times> 'w \<Rightarrow> (o3_cpu \<times> 'w) res" where
  "fetch_instruction E Sw =
     (let (S, w) = Sw;
          S = (if cpu_fetch_stall S \<and> cp_now E \<ge> cpu_fetch_resume_cycle S \<and> cpu_fetch_resume_cycle S \<noteq> 0
               then S\<lparr>cpu_fetch_stall := False, cpu_fetch_resume_cycle := 0\<rparr> else S)
      in bind_res (translate_loop E FETCH_WIDTH (wrap_next (rb_SIZE (cpu_ROB S)) (rb_last_read (cpu_ROB S))) (S, w)) (\<lambda>(S, w).
           fetch_loop E FETCH_WIDTH (wrap_next (rb_SIZE (cpu_ROB S)) (rb_last_fetch (cpu_ROB S))) (S, w)))"

section \<open>Completion of translation and fetch\<close>

definition instr_arrived :: "packet \<Rightarrow> bool \<Rightarrow> u64 \<Rightarrow> ooo_instr \<Rightarrow> ooo_instr" where
  "instr_arrived p is_it_tlb cycle e =
     (if is_it_tlb
      then e\<lparr>oi_event_cycle := cycle, oi_translated := COMPLETED,
              oi_instruction_pa := push_bit 12 (p_instruction_pa p) OR (oi_ip e AND (push_bit 12 1 - 1))\<rparr>
      else e\<lparr>oi_event_cycle := cycle, oi_fetched := COMPLETED\<rparr>)"

primrec instr_merged :: "'w core_ports \<Rightarrow> packet \<Rightarrow> bool \<Rightarrow> u16 list \<Rightarrow> nat \<Rightarrow> o3_cpu \<Rightarrow> o3_cpu res" where
  "instr_merged E p is_it_tlb [] num_fetched S = Inr S"
| "instr_merged E p is_it_tlb (i # is) num_fetched S =
     (if \<not> in_rob S (unat i) then Inl Out_of_bounds
      else instr_merged E p is_it_tlb is (num_fetched + 1)
             (upd_rob (unat i) (instr_arrived p is_it_tlb (cp_now E + of_nat (num_fetched div FETCH_WIDTH))) S))"

definition complete_instr_fetch :: "'w core_ports \<Rightarrow> packet_queue \<Rightarrow> bool \<Rightarrow> o3_cpu \<Rightarrow> (packet_queue \<times> o3_cpu) res" where
  "complete_instr_fetch E queue is_it_tlb S =
     (let index = unat (q_head queue); p = q_entry queue ! index; rob_index = unat (p_rob_index p) in
      if \<not> index < length (q_entry queue) then Inl Out_of_bounds
      else
        bind_res (check_rob (p_instr_id p) S) (\<lambda>i.
        if rob_index \<noteq> i then Inl Assert_failed
        else if \<not> in_rob S rob_index then Inl Out_of_bounds
        else
          let S = upd_rob rob_index (instr_arrived p is_it_tlb (cp_now E)) S in
          bind_res (if p_instr_merged p \<noteq> 0
                    then bind_res (fastset_expand (rb_SIZE (cpu_ROB S)) (p_rob_index_depend_on_me p)) (\<lambda>merged.
                           instr_merged E p is_it_tlb merged 1 S)
                    else Inr S) (\<lambda>S.
          bind_res (remove_queue (cp_blank E) index queue) (\<lambda>queue. Inr (queue, S)))))"

end
