(* ===== verification/CoreSchedule.thy ===== *)
theory CoreSchedule
  imports CoreFetch
begin

text \<open>
  Scheduling and execution in the core (\<^verbatim>\<open>src/ooo_cpu.cc\<close>): register dependencies through the reorder buffer, the
  arrays of instructions that are ready to execute, and the release of dependents on completion.
\<close>

definition SCHEDULER_SIZE :: nat where "SCHEDULER_SIZE = 204"
definition EXEC_WIDTH :: nat where "EXEC_WIDTH = 8"
definition BRANCH_MISPREDICT_PENALTY :: u64 where "BRANCH_MISPREDICT_PENALTY = 17"

section \<open>Register dependencies\<close>

text \<open>A write of a producer that the \<open>j\<close>-th source of the current instruction reads.\<close>

definition writes_register :: "'w core_ports \<Rightarrow> ooo_instr \<Rightarrow> u8 \<Rightarrow> bool" where
  "writes_register E p r \<longleftrightarrow>
     (\<exists>i\<in>set [0..<MAX_INSTR_DESTINATIONS E]. oi_destination_registers p ! i \<noteq> 0 \<and> oi_destination_registers p ! i = r)"

definition reg_RAW_dependency :: "'w core_ports \<Rightarrow> nat \<Rightarrow> nat \<Rightarrow> nat \<Rightarrow> o3_cpu \<Rightarrow> o3_cpu res" where
  "reg_RAW_dependency E prior current source_index S =
     (let p = rob_at S prior in
      if writes_register E p (oi_source_registers (rob_at S current) ! source_index) then
        bind_res (fastset_insert (of_nat current) (oi_registers_instrs_depend_on_me p)) (\<lambda>deps.
        bind_res (fastset_insert (of_nat current) (oi_registers_index_depend_on_me p ! source_index)) (\<lambda>index_deps.
          let S = upd_rob prior (\<lambda>p. p\<lparr>oi_reg_RAW_producer := True, oi_registers_instrs_depend_on_me := deps,
                    oi_registers_index_depend_on_me := (oi_registers_index_depend_on_me p)[source_index := index_deps]\<rparr>) S
          in Inr (upd_rob current (\<lambda>c. c\<lparr>oi_producer_id := oi_instr_id p, oi_reg_ready := False,
                    oi_reg_RAW_checked := (oi_reg_RAW_checked c)[source_index := True],
                    oi_num_reg_dependent := oi_num_reg_dependent c + 1\<rparr>) S)))
      else Inr S)"

primrec check_sources :: "'w core_ports \<Rightarrow> nat \<Rightarrow> nat \<Rightarrow> nat list \<Rightarrow> o3_cpu \<Rightarrow> o3_cpu res" where
  "check_sources E prior current [] S = Inr S"
| "check_sources E prior current (j # js) S =
     bind_res (if oi_source_registers (rob_at S current) ! j \<noteq> 0 \<and> \<not> oi_reg_RAW_checked (rob_at S current) ! j
               then reg_RAW_dependency E prior current j S else Inr S) (check_sources E prior current js)"

primrec check_priors :: "'w core_ports \<Rightarrow> nat \<Rightarrow> nat list \<Rightarrow> o3_cpu \<Rightarrow> o3_cpu res" where
  "check_priors E current [] S = Inr S"
| "check_priors E current (i # is) S =
     bind_res (if oi_executed (rob_at S i) \<noteq> COMPLETED then check_sources E i current [0..<NUM_INSTR_SOURCES] S else Inr S)
       (check_priors E current is)"

text \<open>The older entries of the buffer, youngest first.\<close>

definition priors :: "core_buffer \<Rightarrow> nat \<Rightarrow> nat list" where
  "priors r rob_index =
     (let prior = (if rob_index = 0 then rb_SIZE r - 1 else rob_index - 1) in
      if rob_index = rb_head r then []
      else if rb_head r \<le> prior then rev [rb_head r..<Suc prior]
      else rev [0..<Suc prior] @ rev [rb_head r..<rb_SIZE r])"

definition reg_dependency :: "'w core_ports \<Rightarrow> nat \<Rightarrow> o3_cpu \<Rightarrow> o3_cpu res" where
  "reg_dependency E rob_index S = check_priors E rob_index (priors (cpu_ROB S) rob_index) S"

section \<open>Scheduling\<close>

definition advance_event :: "u64 \<Rightarrow> u64 \<Rightarrow> ooo_instr \<Rightarrow> ooo_instr" where
  "advance_event cycle latency e =
     e\<lparr>oi_event_cycle := (if oi_event_cycle e < cycle then cycle + latency else oi_event_cycle e + latency)\<rparr>"

definition do_scheduling :: "'w core_ports \<Rightarrow> nat \<Rightarrow> o3_cpu \<Rightarrow> o3_cpu res" where
  "do_scheduling E rob_index S =
     bind_res (reg_dependency E rob_index (upd_rob rob_index (\<lambda>e. e\<lparr>oi_reg_ready := True\<rparr>) S)) (\<lambda>S.
       let S = S\<lparr>cpu_ROB := (cpu_ROB S)\<lparr>rb_next_schedule := (if rob_index = rb_SIZE (cpu_ROB S) - 1 then 0 else rob_index + 1)\<rparr>\<rparr> in
       if oi_is_memory (rob_at S rob_index) then Inr (upd_rob rob_index (\<lambda>e. e\<lparr>oi_scheduled := INFLIGHT\<rparr>) S)
       else
         let S = upd_rob rob_index (\<lambda>e. advance_event (cp_now E) (cp_scheduling_latency E) (e\<lparr>oi_scheduled := COMPLETED\<rparr>)) S in
         if oi_reg_ready (rob_at S rob_index)
         then bind_res (ready_push_checked rob_index (cpu_RTE1 S)) (\<lambda>r. Inr (S\<lparr>cpu_RTE1 := r\<rparr>))
         else Inr S)"

text \<open>The loops return at the first entry that is not fetched, or when the scheduler is full.\<close>

primrec schedule_scan :: "'w core_ports \<Rightarrow> nat list \<Rightarrow> o3_cpu \<Rightarrow> o3_cpu res" where
  "schedule_scan E [] S = Inr S"
| "schedule_scan E (i # is) S =
     (if \<not> in_rob S i then Inl Out_of_bounds
      else if oi_fetched (rob_at S i) \<noteq> COMPLETED \<or> oi_event_cycle (rob_at S i) > cp_now E \<or> cpu_num_searched S \<ge> SCHEDULER_SIZE
      then Inr S
      else bind_res (if oi_scheduled (rob_at S i) = 0 then do_scheduling E i S else Inr S) (\<lambda>S.
             schedule_scan E is (S\<lparr>cpu_num_searched := cpu_num_searched S + 1\<rparr>)))"

definition schedule_instruction :: "'w core_ports \<Rightarrow> o3_cpu \<Rightarrow> o3_cpu res" where
  "schedule_instruction E S =
     (if rob_empty S then Inr S
      else schedule_scan E (rob_span (cpu_ROB S) (rb_next_fetch1 (cpu_ROB S))) (S\<lparr>cpu_num_searched := 0\<rparr>))"

section \<open>Execution\<close>

definition do_execution :: "'w core_ports \<Rightarrow> nat \<Rightarrow> o3_cpu \<Rightarrow> o3_cpu res" where
  "do_execution E rob_index S =
     (if in_rob S rob_index then
        Inr ((upd_rob rob_index (\<lambda>e. advance_event (cp_now E) (cp_exec_latency E) (e\<lparr>oi_executed := INFLIGHT\<rparr>)) S)
               \<lparr>cpu_inflight_reg_executions := cpu_inflight_reg_executions S + 1\<rparr>)
      else Inl Out_of_bounds)"

text \<open>
  A loop over one of the two arrays. The number of rounds is the bound \<^verbatim>\<open>ROB_SIZE - 1\<close> on \<^verbatim>\<open>num_iteration\<close>, so that
  the buffer must have two entries at least.
\<close>

primrec execute_loop ::
  "'w core_ports \<Rightarrow> (o3_cpu \<Rightarrow> ready) \<Rightarrow> ((ready \<Rightarrow> ready) \<Rightarrow> o3_cpu \<Rightarrow> o3_cpu) \<Rightarrow> nat \<Rightarrow> nat \<times> o3_cpu \<Rightarrow> (nat \<times> o3_cpu) res" where
  "execute_loop E get upd 0 nS = Inr nS"
| "execute_loop E get upd (Suc n) nS =
     (let (exec_issued, S) = nS in
      if \<not> exec_issued < EXEC_WIDTH then Inr nS
      else
        case ready_front (get S) of
          None \<Rightarrow> Inr nS
        | Some exec_index \<Rightarrow>
            if \<not> in_rob S exec_index then Inl Out_of_bounds
            else if oi_event_cycle (rob_at S exec_index) \<le> cp_now E then
              bind_res (do_execution E exec_index S) (\<lambda>S. execute_loop E get upd n (exec_issued + 1, upd ready_pop S))
            else execute_loop E get upd n nS)"

definition execute_instruction :: "'w core_ports \<Rightarrow> o3_cpu \<Rightarrow> o3_cpu res" where
  "execute_instruction E S =
     (if rob_empty S then Inr S
      else
        bind_res (execute_loop E cpu_RTE0 cpu_RTE0_update (rb_SIZE (cpu_ROB S) - 1) (0, S)) (\<lambda>(exec_issued, S).
        bind_res (execute_loop E cpu_RTE1 cpu_RTE1_update (rb_SIZE (cpu_ROB S) - 1) (exec_issued, S)) (\<lambda>(exec_issued, S). Inr S)))"

section \<open>Completion\<close>

definition release_source :: "nat \<Rightarrow> o3_cpu \<Rightarrow> o3_cpu res" where
  "release_source i S =
     (let S = upd_rob i (\<lambda>e. e\<lparr>oi_num_reg_dependent := oi_num_reg_dependent e - 1\<rparr>) S in
      if oi_num_reg_dependent (rob_at S i) = 0 then
        let S = upd_rob i (\<lambda>e. e\<lparr>oi_reg_ready := True\<rparr>) S in
        if oi_is_memory (rob_at S i) then Inr (upd_rob i (\<lambda>e. e\<lparr>oi_scheduled := INFLIGHT\<rparr>) S)
        else
          let S = upd_rob i (\<lambda>e. e\<lparr>oi_scheduled := COMPLETED\<rparr>) S in
          bind_res (ready_push_checked i (cpu_RTE0 S)) (\<lambda>r. Inr (S\<lparr>cpu_RTE0 := r\<rparr>))
      else Inr S)"

primrec release_sources :: "nat \<Rightarrow> nat \<Rightarrow> nat list \<Rightarrow> o3_cpu \<Rightarrow> o3_cpu res" where
  "release_sources rob_index i [] S = Inr S"
| "release_sources rob_index i (j # js) S =
     bind_res (fastset_search (of_nat i) (oi_registers_index_depend_on_me (rob_at S rob_index) ! j)) (\<lambda>found.
     bind_res (if found then release_source i S else Inr S) (release_sources rob_index i js))"

primrec release_dependents :: "nat \<Rightarrow> u16 list \<Rightarrow> o3_cpu \<Rightarrow> o3_cpu res" where
  "release_dependents rob_index [] S = Inr S"
| "release_dependents rob_index (i # is) S =
     (if \<not> in_rob S (unat i) then Inl Out_of_bounds
      else bind_res (release_sources rob_index (unat i) [0..<NUM_INSTR_SOURCES] S) (release_dependents rob_index is))"

definition reg_RAW_release :: "nat \<Rightarrow> o3_cpu \<Rightarrow> o3_cpu res" where
  "reg_RAW_release rob_index S =
     bind_res (fastset_expand (rb_SIZE (cpu_ROB S)) (oi_registers_instrs_depend_on_me (rob_at S rob_index))) (\<lambda>deps.
       release_dependents rob_index deps S)"

definition complete_execution :: "'w core_ports \<Rightarrow> nat \<Rightarrow> o3_cpu \<Rightarrow> o3_cpu res" where
  "complete_execution E rob_index S =
     (let e = rob_at S rob_index in
      if \<not> in_rob S rob_index then Inl Out_of_bounds
      else if (\<not> oi_is_memory e \<or> oi_num_mem_ops e = 0) \<and> oi_executed e = INFLIGHT \<and> oi_event_cycle e \<le> cp_now E then
        let S = upd_rob rob_index (\<lambda>e. e\<lparr>oi_executed := COMPLETED\<rparr>) S;
            S = (if oi_is_memory e then S\<lparr>cpu_inflight_mem_executions := cpu_inflight_mem_executions S - 1\<rparr>
                 else S\<lparr>cpu_inflight_reg_executions := cpu_inflight_reg_executions S - 1\<rparr>);
            S = S\<lparr>cpu_completed_executions := cpu_completed_executions S + 1\<rparr>
        in bind_res (if oi_reg_RAW_producer e then reg_RAW_release rob_index S else Inr S) (\<lambda>S.
             Inr (if oi_branch_mispredicted (rob_at S rob_index)
                  then S\<lparr>cpu_fetch_resume_cycle := cp_now E + BRANCH_MISPREDICT_PENALTY\<rparr> else S))
      else Inr S)"

end
