(* ===== verification/CoreLsq.thy ===== *)
theory CoreLsq
  imports CoreSchedule
begin

text \<open>
  Loads and stores in the core (\<^verbatim>\<open>src/ooo_cpu.cc\<close>): the load and store queues, store-to-load forwarding, and the
  requests to the data TLB and the L1 data cache with their completion.
\<close>

definition SQ_WIDTH :: nat where "SQ_WIDTH = 2"
definition LQ_WIDTH :: nat where "LQ_WIDTH = 3"

section \<open>Completing memory operations\<close>

text \<open>
  When a load is done its entry is marked as fetched and then released, which resets it; only the
  release is modelled.
\<close>

definition release_load_queue :: "nat \<Rightarrow> o3_cpu \<Rightarrow> o3_cpu" where
  "release_load_queue lq_index S =
     (let S = upd_lq lq_index (\<lambda>_. LSQ_ENTRY_init) S
      in S\<lparr>cpu_LQ := (cpu_LQ S)\<lparr>lsq_occupancy := one_less (lsq_occupancy (cpu_LQ S))\<rparr>\<rparr>)"

text \<open>\<^verbatim>\<open>num_mem_ops--\<close> with its check, at the given cycle.\<close>

definition mem_op_done :: "nat \<Rightarrow> u64 \<Rightarrow> o3_cpu \<Rightarrow> o3_cpu res" where
  "mem_op_done rob_index cycle S =
     (if \<not> in_rob S rob_index then Inl Out_of_bounds
      else
        let S = upd_rob rob_index (\<lambda>e. e\<lparr>oi_event_cycle := cycle, oi_num_mem_ops := oi_num_mem_ops e - 1\<rparr>) S;
            n = oi_num_mem_ops (rob_at S rob_index)
        in if n < 0 then Inl Assert_failed
           else Inr (if n = 0 then S\<lparr>cpu_inflight_mem_executions := cpu_inflight_mem_executions S + 1\<rparr> else S))"

text \<open>The physical address of a load: the line of the store and the offset of the load.\<close>

definition forwarded_address :: "lsq_entry \<Rightarrow> lsq_entry \<Rightarrow> u64" where
  "forwarded_address st ld =
     (lse_physical_address st AND NOT (push_bit 6 1 - 1)) OR (lse_virtual_address ld AND (push_bit 6 1 - 1))"

section \<open>Adding loads and stores\<close>

definition mem_RAW_dependency :: "'w core_ports \<Rightarrow> nat \<Rightarrow> nat \<Rightarrow> nat \<Rightarrow> nat \<Rightarrow> o3_cpu \<Rightarrow> o3_cpu res" where
  "mem_RAW_dependency E prior current data_index lq_index S =
     (let p = rob_at S prior; address = oi_source_memory (rob_at S current) ! data_index in
      if \<exists>i\<in>set [0..<MAX_INSTR_DESTINATIONS E]. oi_destination_memory p ! i \<noteq> 0 \<and> oi_destination_memory p ! i = address then
        bind_res (fastset_insert (of_nat current) (oi_memory_instrs_depend_on_me p)) (\<lambda>deps.
          let S = upd_rob prior (\<lambda>p. p\<lparr>oi_is_producer := True, oi_memory_instrs_depend_on_me := deps\<rparr>) S
          in Inr (upd_lq lq_index (\<lambda>l. l\<lparr>lse_producer_id := oi_instr_id p, lse_translated := INFLIGHT\<rparr>) S))
      else Inr S)"

text \<open>The walk to the older entries ends with the first producer.\<close>

primrec find_producer :: "'w core_ports \<Rightarrow> nat \<Rightarrow> nat \<Rightarrow> nat \<Rightarrow> nat list \<Rightarrow> o3_cpu \<Rightarrow> o3_cpu res" where
  "find_producer E current data_index lq_index [] S = Inr S"
| "find_producer E current data_index lq_index (i # is) S =
     (if lse_producer_id (lq_at S lq_index) \<noteq> UINT64_MAX then Inr S
      else bind_res (mem_RAW_dependency E i current data_index lq_index S) (find_producer E current data_index lq_index is))"

text \<open>
  The search of the store queue: the store that forwards, or none. A younger store to the same address that is
  already in the queue resets the load (write after read).
\<close>

primrec find_forwarding :: "nat \<Rightarrow> nat \<Rightarrow> nat list \<Rightarrow> o3_cpu \<Rightarrow> nat option \<times> o3_cpu" where
  "find_forwarding rob_index lq_index [] S = (None, S)"
| "find_forwarding rob_index lq_index (i # is) S =
     (let s = sq_at S i; l = lq_at S lq_index in
      if lse_virtual_address s = 0 \<or> lse_virtual_address s \<noteq> lse_virtual_address l then find_forwarding rob_index lq_index is S
      else if rob_index \<noteq> rb_head (cpu_ROB S) \<and> lse_producer_id l = lse_instr_id s then (Some i, S)
      else find_forwarding rob_index lq_index is
        (if lse_producer_id l = UINT64_MAX \<and> lse_instr_id l \<le> lse_instr_id s
         then upd_lq lq_index (\<lambda>l. l\<lparr>lse_physical_address := 0, lse_translated := 0, lse_fetched := 0\<rparr>) S else S))"

text \<open>A store that has executed completes the load at once; otherwise \<^verbatim>\<open>execute_store\<close> will.\<close>

definition forward_load :: "'w core_ports \<Rightarrow> nat \<Rightarrow> nat \<Rightarrow> o3_cpu \<Rightarrow> o3_cpu res" where
  "forward_load E sq_index lq_index S =
     (let s = sq_at S sq_index in
      if lse_fetched s = COMPLETED \<and> lse_event_cycle s \<le> cp_now E then
        let S = upd_lq lq_index (\<lambda>l. l\<lparr>lse_physical_address := forwarded_address s l, lse_translated := COMPLETED, lse_fetched := COMPLETED\<rparr>) S
        in bind_res (mem_op_done (lse_rob_index (lq_at S lq_index)) (cp_now E) S) (\<lambda>S. Inr (release_load_queue lq_index S))
      else Inr S)"

definition add_load_queue :: "'w core_ports \<Rightarrow> nat \<Rightarrow> nat \<Rightarrow> o3_cpu \<Rightarrow> o3_cpu res" where
  "add_load_queue E rob_index data_index S =
     (case find (\<lambda>i. lse_virtual_address (lq_at S i) = 0) [0..<lsq_SIZE (cpu_LQ S)] of
        None \<Rightarrow> Inl Assert_failed
      | Some lq_index \<Rightarrow>
          let e = rob_at S rob_index;
              S = upd_rob rob_index (\<lambda>e. e\<lparr>oi_lq_index := (oi_lq_index e)[data_index := of_nat lq_index]\<rparr>) S;
              S = upd_lq lq_index (\<lambda>l. l\<lparr>lse_instr_id := oi_instr_id e, lse_virtual_address := oi_source_memory e ! data_index,
                    lse_ip := oi_ip e, lse_event_cycle := cp_now E + cp_scheduling_latency E, lse_rob_index := rob_index,
                    lse_data_index := data_index, lse_asid0 := oi_asid0 e, lse_asid1 := oi_asid1 e\<rparr>) S;
              S = S\<lparr>cpu_LQ := (cpu_LQ S)\<lparr>lsq_occupancy := lsq_occupancy (cpu_LQ S) + 1\<rparr>\<rparr>
          in bind_res (find_producer E rob_index data_index lq_index (priors (cpu_ROB S) rob_index) S) (\<lambda>S.
             let (forwarding_index, S) = find_forwarding rob_index lq_index [0..<lsq_SIZE (cpu_SQ S)] S in
             bind_res (case forwarding_index of Some i \<Rightarrow> forward_load E i lq_index S | None \<Rightarrow> Inr S) (\<lambda>S.
             let S = upd_rob rob_index (\<lambda>e. e\<lparr>oi_source_added := (oi_source_added e)[data_index := True]\<rparr>) S in
             if lse_virtual_address (lq_at S lq_index) \<noteq> 0 \<and> lse_producer_id (lq_at S lq_index) = UINT64_MAX
             then bind_res (ready_push lq_index (cpu_RTL0 S)) (\<lambda>r. Inr (S\<lparr>cpu_RTL0 := r\<rparr>))
             else Inr S)))"

definition add_store_queue :: "'w core_ports \<Rightarrow> nat \<Rightarrow> nat \<Rightarrow> o3_cpu \<Rightarrow> o3_cpu res" where
  "add_store_queue E rob_index data_index S =
     (let sq_index = lsq_tail (cpu_SQ S); e = rob_at S rob_index in
      if \<not> in_sq S sq_index then Inl Out_of_bounds
      else if lse_virtual_address (sq_at S sq_index) \<noteq> 0 then Inl Assert_failed
      else
        let S = upd_rob rob_index (\<lambda>e. e\<lparr>oi_sq_index := (oi_sq_index e)[data_index := of_nat sq_index]\<rparr>) S;
            S = upd_sq sq_index (\<lambda>s. s\<lparr>lse_instr_id := oi_instr_id e, lse_virtual_address := oi_destination_memory e ! data_index,
                  lse_ip := oi_ip e, lse_event_cycle := cp_now E + cp_scheduling_latency E, lse_rob_index := rob_index,
                  lse_data_index := data_index, lse_asid0 := oi_asid0 e, lse_asid1 := oi_asid1 e\<rparr>) S;
            S = S\<lparr>cpu_SQ := (cpu_SQ S)\<lparr>lsq_occupancy := lsq_occupancy (cpu_SQ S) + 1, lsq_tail := wrap_next (lsq_SIZE (cpu_SQ S)) sq_index\<rparr>\<rparr>;
            S = upd_rob rob_index (\<lambda>e. e\<lparr>oi_destination_added := (oi_destination_added e)[data_index := True]\<rparr>) S;
            S = S\<lparr>cpu_STA := (cpu_STA S)[cpu_STA_head S := UINT64_MAX], cpu_STA_head := wrap_next (length (cpu_STA S)) (cpu_STA_head S)\<rparr>
        in bind_res (ready_push sq_index (cpu_RTS0 S)) (\<lambda>r. Inr (S\<lparr>cpu_RTS0 := r\<rparr>)))"

text \<open>The loops return \<^verbatim>\<open>num_mem_ops\<close> and \<^verbatim>\<open>num_added\<close>. Stores are added in the order of the store array.\<close>

primrec add_loads :: "'w core_ports \<Rightarrow> nat \<Rightarrow> nat list \<Rightarrow> nat \<times> nat \<times> o3_cpu \<Rightarrow> (nat \<times> nat \<times> o3_cpu) res" where
  "add_loads E rob_index [] x = Inr x"
| "add_loads E rob_index (i # is) x =
     (let (num_mem_ops, num_added, S) = x in
      if oi_source_memory (rob_at S rob_index) ! i = 0 then add_loads E rob_index is x
      else if oi_source_added (rob_at S rob_index) ! i then add_loads E rob_index is (num_mem_ops + 1, num_added + 1, S)
      else if lsq_occupancy (cpu_LQ S) < lsq_SIZE (cpu_LQ S) then
        bind_res (add_load_queue E rob_index i S) (\<lambda>S. add_loads E rob_index is (num_mem_ops + 1, num_added + 1, S))
      else add_loads E rob_index is (num_mem_ops + 1, num_added, S))"

primrec add_stores :: "'w core_ports \<Rightarrow> nat \<Rightarrow> nat list \<Rightarrow> nat \<times> nat \<times> o3_cpu \<Rightarrow> (nat \<times> nat \<times> o3_cpu) res" where
  "add_stores E rob_index [] x = Inr x"
| "add_stores E rob_index (i # is) x =
     (let (num_mem_ops, num_added, S) = x in
      if oi_destination_memory (rob_at S rob_index) ! i = 0 then add_stores E rob_index is x
      else if oi_destination_added (rob_at S rob_index) ! i then add_stores E rob_index is (num_mem_ops + 1, num_added + 1, S)
      else if lsq_occupancy (cpu_SQ S) < lsq_SIZE (cpu_SQ S) \<and> cpu_STA S ! cpu_STA_head S = oi_instr_id (rob_at S rob_index) then
        bind_res (add_store_queue E rob_index i S) (\<lambda>S. add_stores E rob_index is (num_mem_ops + 1, num_added + 1, S))
      else add_stores E rob_index is (num_mem_ops + 1, num_added, S))"

definition check_and_add_lsq :: "'w core_ports \<Rightarrow> nat \<Rightarrow> o3_cpu \<Rightarrow> (nat \<times> o3_cpu) res" where
  "check_and_add_lsq E rob_index S =
     bind_res (add_loads E rob_index [0..<NUM_INSTR_SOURCES] (0, 0, S)) (\<lambda>x.
     bind_res (add_stores E rob_index [0..<MAX_INSTR_DESTINATIONS E] x) (\<lambda>(num_mem_ops, num_added, S).
       if num_added = num_mem_ops then Inr (0, S)
       else if num_mem_ops < num_added then Inl Assert_failed else Inr (num_mem_ops - num_added, S)))"

definition do_memory_scheduling :: "'w core_ports \<Rightarrow> nat \<Rightarrow> o3_cpu \<Rightarrow> o3_cpu res" where
  "do_memory_scheduling E rob_index S =
     bind_res (check_and_add_lsq E rob_index S) (\<lambda>(not_available, S).
       let S = (if not_available = 0
                then upd_rob rob_index (\<lambda>e. e\<lparr>oi_scheduled := COMPLETED, oi_executed := (if oi_executed e = 0 then INFLIGHT else oi_executed e)\<rparr>) S
                else S)
       in Inr (S\<lparr>cpu_num_searched := cpu_num_searched S + 1\<rparr>))"

text \<open>
  A scan over memory instructions ends with the first one that is not fetched. The break of the
  first of the two loops over a wrapped buffer does not keep the second from running.
\<close>

primrec memory_scan :: "'w core_ports \<Rightarrow> nat list \<Rightarrow> o3_cpu \<Rightarrow> o3_cpu res" where
  "memory_scan E [] S = Inr S"
| "memory_scan E (i # is) S =
     (if \<not> in_rob S i then Inl Out_of_bounds
      else if \<not> oi_is_memory (rob_at S i) then memory_scan E is S
      else if oi_fetched (rob_at S i) \<noteq> COMPLETED \<or> oi_event_cycle (rob_at S i) > cp_now E \<or> cpu_num_searched S \<ge> SCHEDULER_SIZE
      then Inr S
      else bind_res (if oi_reg_ready (rob_at S i) \<and> oi_scheduled (rob_at S i) = INFLIGHT then do_memory_scheduling E i S else Inr S)
             (memory_scan E is))"

definition schedule_memory_instruction :: "'w core_ports \<Rightarrow> o3_cpu \<Rightarrow> o3_cpu res" where
  "schedule_memory_instruction E S =
     (if rob_empty S then Inr S
      else
        let limit = rb_next_schedule (cpu_ROB S); head = rb_head (cpu_ROB S); S = S\<lparr>cpu_num_searched := 0\<rparr> in
        if head < limit then memory_scan E [head..<limit] S
        else bind_res (memory_scan E [head..<rb_SIZE (cpu_ROB S)] S) (memory_scan E [0..<limit]))"

section \<open>Issuing requests\<close>

definition dtlb_address :: "'w core_ports \<Rightarrow> lsq_entry \<Rightarrow> u64" where
  "dtlb_address E l =
     (if cp_cloudsuite E then push_bit 9 (drop_bit 12 (lse_virtual_address l)) OR ucast (lse_asid1 l) else drop_bit 12 (lse_virtual_address l))"

definition dtlb_store_packet :: "'w core_ports \<Rightarrow> nat \<Rightarrow> lsq_entry \<Rightarrow> packet" where
  "dtlb_store_packet E sq_index s =
     (PACKET_init (cp_blank E))\<lparr>p_tlb_access := 1, p_fill_level := FILL_L1, p_rob_index := of_nat (lse_rob_index s),
        p_asid0 := lse_asid0 s, p_asid1 := lse_asid1 s, p_type := ucast RFO, p_cpu := 0, p_data_index := of_nat (lse_data_index s),
        p_sq_index := of_nat sq_index, p_address := dtlb_address E s, p_full_addr := lse_virtual_address s,
        p_instr_id := lse_instr_id s, p_ip := lse_ip s, p_event_cycle := lse_event_cycle s\<rparr>"

definition dtlb_load_packet :: "'w core_ports \<Rightarrow> nat \<Rightarrow> lsq_entry \<Rightarrow> packet" where
  "dtlb_load_packet E lq_index l =
     (PACKET_init (cp_blank E))\<lparr>p_fill_level := FILL_L1, p_rob_index := of_nat (lse_rob_index l), p_asid0 := lse_asid0 l,
        p_asid1 := lse_asid1 l, p_type := ucast LOAD, p_cpu := 0, p_data_index := of_nat (lse_data_index l),
        p_lq_index := of_nat lq_index, p_address := dtlb_address E l, p_full_addr := lse_virtual_address l,
        p_instr_id := lse_instr_id l, p_ip := lse_ip l, p_event_cycle := lse_event_cycle l\<rparr>"

definition l1d_load_packet :: "'w core_ports \<Rightarrow> nat \<Rightarrow> lsq_entry \<Rightarrow> packet" where
  "l1d_load_packet E lq_index l =
     (PACKET_init (cp_blank E))\<lparr>p_fill_level := FILL_L1, p_rob_index := of_nat (lse_rob_index l), p_asid0 := lse_asid0 l,
        p_asid1 := lse_asid1 l, p_type := ucast LOAD, p_cpu := 0, p_data_index := of_nat (lse_data_index l),
        p_lq_index := of_nat lq_index, p_address := drop_bit 6 (lse_physical_address l), p_full_addr := lse_physical_address l,
        p_instr_id := lse_instr_id l, p_ip := lse_ip l, p_event_cycle := lse_event_cycle l\<rparr>"

definition execute_load :: "'w core_ports \<Rightarrow> nat \<Rightarrow> o3_cpu \<times> 'w \<Rightarrow> (int \<times> o3_cpu \<times> 'w) res" where
  "execute_load E lq_index Sw =
     (let (S, w) = Sw; l = lq_at S lq_index in
      bind_res (l1d_add_rq E (l1d_load_packet E lq_index l) w) (\<lambda>(rq_index, w).
        let S = S\<lparr>cpu_unique_ppages := insert (drop_bit 12 (lse_physical_address l)) (cpu_unique_ppages S)\<rparr>
        in Inr (rq_index, if rq_index = - 2 then S else upd_lq lq_index (\<lambda>l. l\<lparr>lse_fetched := INFLIGHT\<rparr>) S, w)))"

text \<open>The dependent loads of a store that are in the load queue are completed with its address.\<close>

definition resolve_load :: "'w core_ports \<Rightarrow> nat \<Rightarrow> nat \<Rightarrow> nat \<Rightarrow> nat \<Rightarrow> o3_cpu \<Rightarrow> o3_cpu res" where
  "resolve_load E rob_index sq_index dependent j S =
     (let d = rob_at S dependent; s = sq_at S sq_index in
      if oi_source_memory d ! j \<noteq> 0 \<and> oi_source_added d ! j \<and> oi_source_memory d ! j = lse_virtual_address s then
        let lq_index = unat (oi_lq_index d ! j) in
        if \<not> in_lq S lq_index then Inl Assert_failed
        else if lse_producer_id (lq_at S lq_index) \<noteq> lse_instr_id s then Inl Assert_failed
        else
          let S = upd_lq lq_index (\<lambda>l. l\<lparr>lse_physical_address := forwarded_address s l, lse_event_cycle := cp_now E,
                    lse_translated := COMPLETED, lse_fetched := COMPLETED\<rparr>) S
          in bind_res (mem_op_done (lse_rob_index (lq_at S lq_index)) (cp_now E) S) (\<lambda>S.
             let S = release_load_queue lq_index S in
             if j = NUM_INSTR_SOURCES - 1 then
               bind_res (fastset_insert (of_nat dependent) (oi_memory_instrs_depend_on_me (rob_at S rob_index))) (\<lambda>deps.
                 Inr (upd_rob rob_index (\<lambda>e. e\<lparr>oi_memory_instrs_depend_on_me := deps\<rparr>) S))
             else Inr S)
      else Inr S)"

primrec resolve_sources :: "'w core_ports \<Rightarrow> nat \<Rightarrow> nat \<Rightarrow> nat \<Rightarrow> nat list \<Rightarrow> o3_cpu \<Rightarrow> o3_cpu res" where
  "resolve_sources E rob_index sq_index dependent [] S = Inr S"
| "resolve_sources E rob_index sq_index dependent (j # js) S =
     bind_res (resolve_load E rob_index sq_index dependent j S) (resolve_sources E rob_index sq_index dependent js)"

primrec resolve_dependents :: "'w core_ports \<Rightarrow> nat \<Rightarrow> nat \<Rightarrow> u16 list \<Rightarrow> o3_cpu \<Rightarrow> o3_cpu res" where
  "resolve_dependents E rob_index sq_index [] S = Inr S"
| "resolve_dependents E rob_index sq_index (i # is) S =
     (if \<not> in_rob S (unat i) then Inl Out_of_bounds
      else bind_res (resolve_sources E rob_index sq_index (unat i) [0..<NUM_INSTR_SOURCES] S) (resolve_dependents E rob_index sq_index is))"

definition execute_store :: "'w core_ports \<Rightarrow> nat \<Rightarrow> nat \<Rightarrow> o3_cpu \<Rightarrow> o3_cpu res" where
  "execute_store E rob_index sq_index S =
     (let S = upd_sq sq_index (\<lambda>s. s\<lparr>lse_event_cycle := cp_now E, lse_fetched := COMPLETED\<rparr>) S in
      bind_res (mem_op_done rob_index (cp_now E) S) (\<lambda>S.
        if oi_is_producer (rob_at S rob_index)
        then bind_res (fastset_expand (rb_SIZE (cpu_ROB S)) (oi_memory_instrs_depend_on_me (rob_at S rob_index))) (\<lambda>deps.
               resolve_dependents E rob_index sq_index deps S)
        else Inr S))"

text \<open>The four loops of \<^verbatim>\<open>operate_lsq\<close>, each of at most \<^verbatim>\<open>SIZE - 1\<close> rounds; the count of issued requests is passed on.\<close>

primrec store_translate_loop :: "'w core_ports \<Rightarrow> nat \<Rightarrow> nat \<times> o3_cpu \<times> 'w \<Rightarrow> (nat \<times> o3_cpu \<times> 'w) res" where
  "store_translate_loop E 0 x = Inr x"
| "store_translate_loop E (Suc n) x =
     (let (store_issued, S, w) = x in
      if \<not> store_issued < SQ_WIDTH then Inr x
      else
        case ready_front (cpu_RTS0 S) of
          None \<Rightarrow> Inr x
        | Some sq_index \<Rightarrow>
            if \<not> in_sq S sq_index then Inl Out_of_bounds
            else if lse_event_cycle (sq_at S sq_index) \<le> cp_now E then
              bind_res (dtlb_add_rq E (dtlb_store_packet E sq_index (sq_at S sq_index)) w) (\<lambda>(rq_index, w).
                if rq_index = - 2 then Inr (store_issued, S, w)
                else store_translate_loop E n (store_issued + 1, cpu_RTS0_update ready_pop (upd_sq sq_index (\<lambda>s. s\<lparr>lse_translated := INFLIGHT\<rparr>) S), w))
            else store_translate_loop E n x)"

primrec store_execute_loop :: "'w core_ports \<Rightarrow> nat \<Rightarrow> nat \<times> o3_cpu \<Rightarrow> (nat \<times> o3_cpu) res" where
  "store_execute_loop E 0 x = Inr x"
| "store_execute_loop E (Suc n) x =
     (let (store_issued, S) = x in
      if \<not> store_issued < SQ_WIDTH then Inr x
      else
        case ready_front (cpu_RTS1 S) of
          None \<Rightarrow> Inr x
        | Some sq_index \<Rightarrow>
            if \<not> in_sq S sq_index then Inl Out_of_bounds
            else if lse_event_cycle (sq_at S sq_index) \<le> cp_now E then
              bind_res (execute_store E (lse_rob_index (sq_at S sq_index)) sq_index S) (\<lambda>S.
                store_execute_loop E n (store_issued + 1, cpu_RTS1_update ready_pop S))
            else store_execute_loop E n x)"

primrec load_translate_loop :: "'w core_ports \<Rightarrow> nat \<Rightarrow> nat \<times> o3_cpu \<times> 'w \<Rightarrow> (nat \<times> o3_cpu \<times> 'w) res" where
  "load_translate_loop E 0 x = Inr x"
| "load_translate_loop E (Suc n) x =
     (let (load_issued, S, w) = x in
      if \<not> load_issued < LQ_WIDTH then Inr x
      else
        case ready_front (cpu_RTL0 S) of
          None \<Rightarrow> Inr x
        | Some lq_index \<Rightarrow>
            if \<not> in_lq S lq_index then Inl Out_of_bounds
            else if lse_event_cycle (lq_at S lq_index) \<le> cp_now E then
              bind_res (dtlb_add_rq E (dtlb_load_packet E lq_index (lq_at S lq_index)) w) (\<lambda>(rq_index, w).
                if rq_index = - 2 then Inr (load_issued, S, w)
                else load_translate_loop E n (load_issued + 1, cpu_RTL0_update ready_pop (upd_lq lq_index (\<lambda>l. l\<lparr>lse_translated := INFLIGHT\<rparr>) S), w))
            else load_translate_loop E n x)"

primrec load_execute_loop :: "'w core_ports \<Rightarrow> nat \<Rightarrow> nat \<times> o3_cpu \<times> 'w \<Rightarrow> (nat \<times> o3_cpu \<times> 'w) res" where
  "load_execute_loop E 0 x = Inr x"
| "load_execute_loop E (Suc n) x =
     (let (load_issued, S, w) = x in
      if \<not> load_issued < LQ_WIDTH then Inr x
      else
        case ready_front (cpu_RTL1 S) of
          None \<Rightarrow> Inr x
        | Some lq_index \<Rightarrow>
            if \<not> in_lq S lq_index then Inl Out_of_bounds
            else if lse_event_cycle (lq_at S lq_index) \<le> cp_now E then
              bind_res (execute_load E lq_index (S, w)) (\<lambda>(rq_index, S, w).
                if rq_index = - 2 then load_execute_loop E n (load_issued, S, w)
                else load_execute_loop E n (load_issued + 1, cpu_RTL1_update ready_pop S, w))
            else load_execute_loop E n x)"

definition operate_lsq :: "'w core_ports \<Rightarrow> o3_cpu \<times> 'w \<Rightarrow> (o3_cpu \<times> 'w) res" where
  "operate_lsq E Sw =
     (let (S, w) = Sw in
      bind_res (store_translate_loop E (lsq_SIZE (cpu_SQ S) - 1) (0, S, w)) (\<lambda>(store_issued, S, w).
      bind_res (store_execute_loop E (lsq_SIZE (cpu_SQ S) - 1) (store_issued, S)) (\<lambda>(store_issued, S).
      bind_res (load_translate_loop E (lsq_SIZE (cpu_LQ S) - 1) (0, S, w)) (\<lambda>(load_issued, S, w).
      bind_res (load_execute_loop E (lsq_SIZE (cpu_LQ S) - 1) (load_issued, S, w)) (\<lambda>(load_issued, S, w). Inr (S, w))))))"

definition execute_memory_instruction :: "'w core_ports \<Rightarrow> o3_cpu \<times> 'w \<Rightarrow> (o3_cpu \<times> 'w) res" where
  "execute_memory_instruction E Sw =
     bind_res (operate_lsq E Sw) (\<lambda>(S, w). bind_res (operate_caches E w) (\<lambda>w. Inr (S, w)))"

section \<open>Completion of data requests\<close>

definition data_translated :: "packet \<Rightarrow> lsq_entry \<Rightarrow> lsq_entry" where
  "data_translated p s =
     s\<lparr>lse_physical_address := push_bit 12 (p_data_pa p) OR (lse_virtual_address s AND (push_bit 12 1 - 1)), lse_translated := COMPLETED\<rparr>"

definition store_translated :: "(lsq_entry \<Rightarrow> lsq_entry) \<Rightarrow> nat \<Rightarrow> o3_cpu \<Rightarrow> o3_cpu res" where
  "store_translated f sq_index S =
     (if \<not> in_sq S sq_index then Inl Out_of_bounds
      else bind_res (ready_push sq_index (cpu_RTS1 S)) (\<lambda>r. Inr ((upd_sq sq_index f S)\<lparr>cpu_RTS1 := r\<rparr>)))"

definition load_translated :: "(lsq_entry \<Rightarrow> lsq_entry) \<Rightarrow> nat \<Rightarrow> o3_cpu \<Rightarrow> o3_cpu res" where
  "load_translated f lq_index S =
     (if \<not> in_lq S lq_index then Inl Out_of_bounds
      else bind_res (ready_push lq_index (cpu_RTL1 S)) (\<lambda>r. Inr ((upd_lq lq_index f S)\<lparr>cpu_RTL1 := r\<rparr>)))"

primrec each_index :: "(nat \<Rightarrow> o3_cpu \<Rightarrow> o3_cpu res) \<Rightarrow> u16 list \<Rightarrow> o3_cpu \<Rightarrow> o3_cpu res" where
  "each_index f [] S = Inr S"
| "each_index f (i # is) S = bind_res (f (unat i) S) (each_index f is)"

definition translated_now :: "'w core_ports \<Rightarrow> packet \<Rightarrow> lsq_entry \<Rightarrow> lsq_entry" where
  "translated_now E p l = (data_translated p l)\<lparr>lse_event_cycle := cp_now E\<rparr>"

definition handle_merged_translation :: "'w core_ports \<Rightarrow> packet \<Rightarrow> o3_cpu \<Rightarrow> o3_cpu res" where
  "handle_merged_translation E p S =
     bind_res (if p_store_merged p \<noteq> 0
               then bind_res (fastset_expand (lsq_SIZE (cpu_SQ S)) (p_sq_index_depend_on_me p)) (\<lambda>ms.
                      each_index (store_translated (translated_now E p)) ms S)
               else Inr S) (\<lambda>S.
       if p_load_merged p \<noteq> 0
       then bind_res (fastset_expand (lsq_SIZE (cpu_LQ S)) (p_lq_index_depend_on_me p)) (\<lambda>ms.
              each_index (load_translated (translated_now E p)) ms S)
       else Inr S)"

definition merged_load_done :: "'w core_ports \<Rightarrow> nat \<Rightarrow> o3_cpu \<Rightarrow> o3_cpu res" where
  "merged_load_done E merged S =
     (if \<not> in_lq S merged then Inl Out_of_bounds
      else
        let rob_index = lse_rob_index (lq_at S merged) in
        bind_res (mem_op_done rob_index (cp_now E) S) (\<lambda>S. Inr (release_load_queue merged S)))"

definition handle_merged_load :: "'w core_ports \<Rightarrow> packet \<Rightarrow> o3_cpu \<Rightarrow> o3_cpu res" where
  "handle_merged_load E p S =
     bind_res (fastset_expand (lsq_SIZE (cpu_LQ S)) (p_lq_index_depend_on_me p)) (\<lambda>ms. each_index (merged_load_done E) ms S)"

text \<open>A load is done: the event cycle of its instruction is that of the packet.\<close>

definition load_done :: "'w core_ports \<Rightarrow> packet \<Rightarrow> o3_cpu \<Rightarrow> o3_cpu res" where
  "load_done E p S =
     (let lq_index = unat (p_lq_index p) in
      if p_store_merged p \<noteq> 0 then Inl Assert_failed
      else if \<not> in_lq S lq_index then Inl Out_of_bounds
      else
        bind_res (mem_op_done (unat (p_rob_index p)) (p_event_cycle p) S) (\<lambda>S.
          handle_merged_load E p (release_load_queue lq_index S)))"

definition complete_data_fetch :: "'w core_ports \<Rightarrow> packet_queue \<Rightarrow> bool \<Rightarrow> o3_cpu \<Rightarrow> (packet_queue \<times> o3_cpu) res" where
  "complete_data_fetch E queue is_it_tlb S =
     (let index = unat (q_head queue); p = q_entry queue ! index; rob_index = unat (p_rob_index p) in
      if \<not> index < length (q_entry queue) then Inl Out_of_bounds
      else
        bind_res (if ucast (p_type p) \<noteq> RFO then bind_res (check_rob (p_instr_id p) S) (\<lambda>i. if rob_index \<noteq> i then Inl Assert_failed else Inr ())
                  else Inr ()) (\<lambda>_.
        bind_res
          (if is_it_tlb then
             bind_res (if ucast (p_type p) = RFO then store_translated (translated_now E p) (unat (p_sq_index p)) S
                       else load_translated (translated_now E p) (unat (p_lq_index p)) S) (\<lambda>S.
             bind_res (handle_merged_translation E p S) (\<lambda>S.
               if in_rob S rob_index then Inr (upd_rob rob_index (\<lambda>e. e\<lparr>oi_event_cycle := p_event_cycle p\<rparr>) S) else Inl Out_of_bounds))
           else if ucast (p_type p) = RFO then handle_merged_load E p S
           else load_done E p S) (\<lambda>S.
        bind_res (remove_queue (cp_blank E) index queue) (\<lambda>queue. Inr (queue, S)))))"

text \<open>The same for a packet that a cache hands over directly.\<close>

definition handle_o3_fetch :: "'w core_ports \<Rightarrow> packet \<Rightarrow> u32 \<Rightarrow> o3_cpu \<Rightarrow> o3_cpu res" where
  "handle_o3_fetch E p cache_type S =
     (let rob_index = unat (p_rob_index p) in
      bind_res (if cache_type = 0 \<or> ucast (p_type p) \<noteq> RFO
                then bind_res (check_rob (p_instr_id p) S) (\<lambda>i. if rob_index \<noteq> i then Inl Assert_failed else Inr ())
                else Inr ()) (\<lambda>_.
        if cache_type = 0 then
          bind_res (if ucast (p_type p) = RFO then store_translated (data_translated p) (unat (p_sq_index p)) S
                    else load_translated (data_translated p) (unat (p_lq_index p)) S) (\<lambda>S.
          bind_res (handle_merged_translation E p S) (\<lambda>S.
            if in_rob S rob_index then Inr (upd_rob rob_index (\<lambda>e. e\<lparr>oi_event_cycle := p_event_cycle p\<rparr>) S) else Inl Out_of_bounds))
        else if ucast (p_type p) = RFO then handle_merged_load E p S
        else
          bind_res (load_done E p S) (\<lambda>S.
            Inr (upd_rob rob_index (\<lambda>e. e\<lparr>oi_event_cycle := p_event_cycle p\<rparr>) S))))"

end
