(* ===== verification/CoreCycle.thy ===== *)
theory CoreCycle
  imports CoreLsq
begin

text \<open>
  Retirement, the collection of what the caches have processed (\<^verbatim>\<open>retire_rob\<close> and \<^verbatim>\<open>update_rob\<close> of
  \<^verbatim>\<open>src/ooo_cpu.cc\<close>), and the cycle of a core in the simulation loop of \<^verbatim>\<open>src/main.cc\<close>.
\<close>

definition RETIRE_WIDTH :: nat where "RETIRE_WIDTH = 12"

section \<open>Completion\<close>

definition head_ready :: "u64 \<Rightarrow> packet_queue \<Rightarrow> bool" where
  "head_ready cycle q \<longleftrightarrow> q_occupancy q \<noteq> 0 \<and> p_event_cycle (q_entry q ! unat (q_head q)) \<le> cycle"

definition collect ::
  "'w core_ports \<Rightarrow> ('w \<Rightarrow> packet_queue) \<Rightarrow> (packet_queue \<Rightarrow> 'w \<Rightarrow> 'w) \<Rightarrow>
   (packet_queue \<Rightarrow> o3_cpu \<Rightarrow> (packet_queue \<times> o3_cpu) res) \<Rightarrow> o3_cpu \<times> 'w \<Rightarrow> (o3_cpu \<times> 'w) res" where
  "collect E get put complete Sw =
     (let (S, w) = Sw in
      if head_ready (cp_now E) (get w)
      then bind_res (complete (get w) S) (\<lambda>(q, S). Inr (S, put q w)) else Inr Sw)"

primrec complete_executions :: "'w core_ports \<Rightarrow> nat list \<Rightarrow> o3_cpu \<Rightarrow> o3_cpu res" where
  "complete_executions E [] S = Inr S"
| "complete_executions E (i # is) S = bind_res (complete_execution E i S) (complete_executions E is)"

definition update_rob :: "'w core_ports \<Rightarrow> o3_cpu \<times> 'w \<Rightarrow> (o3_cpu \<times> 'w) res" where
  "update_rob E Sw =
     bind_res (collect E (itlb_processed E) (put_itlb_processed E) (\<lambda>q. complete_instr_fetch E q True) Sw) (\<lambda>Sw.
     bind_res (collect E (l1i_processed E) (put_l1i_processed E) (\<lambda>q. complete_instr_fetch E q False) Sw) (\<lambda>Sw.
     bind_res (collect E (dtlb_processed E) (put_dtlb_processed E) (\<lambda>q. complete_data_fetch E q True) Sw) (\<lambda>Sw.
     bind_res (collect E (l1d_processed E) (put_l1d_processed E) (\<lambda>q. complete_data_fetch E q False) Sw) (\<lambda>(S, w).
       if cpu_inflight_reg_executions S > 0 \<or> cpu_inflight_mem_executions S > 0
       then bind_res (complete_executions E (rob_span (cpu_ROB S) (rb_tail (cpu_ROB S))) S) (\<lambda>S. Inr (S, w))
       else Inr (S, w)))))"

section \<open>Retirement\<close>

definition rfo_packet :: "'w core_ports \<Rightarrow> nat \<Rightarrow> lsq_entry \<Rightarrow> packet" where
  "rfo_packet E sq_index s =
     (PACKET_init (cp_blank E))\<lparr>p_fill_level := FILL_L1, p_rob_index := of_nat (lse_rob_index s), p_asid0 := lse_asid0 s,
        p_asid1 := lse_asid1 s, p_type := ucast RFO, p_cpu := 0, p_data_index := of_nat (lse_data_index s),
        p_sq_index := of_nat sq_index, p_address := drop_bit 6 (lse_physical_address s), p_full_addr := lse_physical_address s,
        p_instr_id := lse_instr_id s, p_ip := lse_ip s, p_event_cycle := cp_now E\<rparr>"

definition stores_of :: "'w core_ports \<Rightarrow> ooo_instr \<Rightarrow> nat list" where
  "stores_of E e = filter (\<lambda>i. oi_destination_memory e ! i \<noteq> 0) [0..<MAX_INSTR_DESTINATIONS E]"

primrec write_stores :: "'w core_ports \<Rightarrow> nat list \<Rightarrow> o3_cpu \<times> 'w \<Rightarrow> 'w res" where
  "write_stores E [] Sw = Inr (snd Sw)"
| "write_stores E (i # is) Sw =
     (let (S, w) = Sw; sq_index = unat (oi_sq_index (rob_at S (rb_head (cpu_ROB S))) ! i) in
      if \<not> in_sq S sq_index then Inl Out_of_bounds
      else bind_res (l1d_add_wq E (rfo_packet E sq_index (sq_at S sq_index)) w) (\<lambda>(r, w). write_stores E is (S, w)))"

primrec release_stores :: "nat list \<Rightarrow> o3_cpu \<Rightarrow> o3_cpu res" where
  "release_stores [] S = Inr S"
| "release_stores (i # is) S =
     (let sq_index = oi_sq_index (rob_at S (rb_head (cpu_ROB S))) ! i in
      if sq_index = UINT32_MAX then release_stores is S
      else if \<not> in_sq S (unat sq_index) then Inl Out_of_bounds
      else
        let S = upd_sq (unat sq_index) (\<lambda>_. LSQ_ENTRY_init) S in
        release_stores is (S\<lparr>cpu_SQ := (cpu_SQ S)\<lparr>lsq_occupancy := one_less (lsq_occupancy (cpu_SQ S)),
                             lsq_head := wrap_next (lsq_SIZE (cpu_SQ S)) (lsq_head (cpu_SQ S))\<rparr>\<rparr>))"

definition release_head :: "o3_cpu \<Rightarrow> o3_cpu" where
  "release_head S =
     (let S = upd_rob (rb_head (cpu_ROB S)) (\<lambda>_. ooo_instr_init) S;
          r = (cpu_ROB S)\<lparr>rb_head := wrap_next (rb_SIZE (cpu_ROB S)) (rb_head (cpu_ROB S)), rb_occupancy := rb_occupancy (cpu_ROB S) - 1\<rparr>
      in S\<lparr>cpu_completed_executions := cpu_completed_executions S - 1, cpu_num_retired := cpu_num_retired S + 1, cpu_ROB := r\<rparr>)"

text \<open>One round, and whether it has retired the entry at the head or returned.\<close>

definition retire_one :: "'w core_ports \<Rightarrow> o3_cpu \<times> 'w \<Rightarrow> (bool \<times> o3_cpu \<times> 'w) res" where
  "retire_one E Sw =
     (let (S, w) = Sw; e = rob_at S (rb_head (cpu_ROB S)); n = length (stores_of E e) in
      if \<not> in_rob S (rb_head (cpu_ROB S)) then Inl Out_of_bounds
      else if oi_ip e = 0 \<or> oi_executed e \<noteq> COMPLETED then Inr (False, S, w)
      else if n \<noteq> 0 \<and> \<not> l1d_wq_occupancy E w + n \<le> l1d_wq_SIZE E w then Inr (False, S, l1d_count_wq_full E w)
      else
        bind_res (write_stores E (stores_of E e) (S, w)) (\<lambda>w.
        bind_res (release_stores [0..<MAX_INSTR_DESTINATIONS E] S) (\<lambda>S. Inr (True, release_head S, w))))"

primrec retire_loop :: "'w core_ports \<Rightarrow> nat \<Rightarrow> o3_cpu \<times> 'w \<Rightarrow> (o3_cpu \<times> 'w) res" where
  "retire_loop E 0 Sw = Inr Sw"
| "retire_loop E (Suc n) Sw =
     bind_res (retire_one E Sw) (\<lambda>(retired, Sw). if retired then retire_loop E n Sw else Inr Sw)"

definition retire_rob :: "'w core_ports \<Rightarrow> o3_cpu \<times> 'w \<Rightarrow> (o3_cpu \<times> 'w) res" where
  "retire_rob E Sw = retire_loop E RETIRE_WIDTH Sw"

section \<open>A cycle\<close>

text \<open>
  The body of the simulation loop for a core that is not stalled by a page fault. \<open>None\<close> is a cycle that does
  not end.
\<close>

definition core_cycle :: "'w core_ports \<Rightarrow> o3_cpu \<times> 'w \<Rightarrow> (o3_cpu \<times> 'w) res option" where
  "core_cycle E Sw =
     (let (S, w) = Sw;
          read = (if rb_occupancy (cpu_ROB S) < rb_SIZE (cpu_ROB S) \<and> \<not> cpu_fetch_stall S then handle_branch E S else Some (Inr S))
      in case read of
           None \<Rightarrow> None
         | Some m \<Rightarrow> Some (
             bind_res m (\<lambda>S.
             bind_res (fetch_instruction E (S, w)) (\<lambda>(S, w).
             bind_res (let e = rob_at S (rb_next_schedule (cpu_ROB S)) in
                       if oi_scheduled e = 0 \<and> oi_event_cycle e \<le> cp_now E then schedule_instruction E S else Inr S) (\<lambda>S.
             bind_res (execute_instruction E S) (\<lambda>S.
             bind_res (schedule_memory_instruction E S) (\<lambda>S.
             bind_res (execute_memory_instruction E (S, w)) (\<lambda>Sw.
             bind_res (update_rob E Sw) (\<lambda>(S, w).
               let e = rob_at S (rb_head (cpu_ROB S)) in
               if oi_executed e = COMPLETED \<and> oi_event_cycle e \<le> cp_now E then retire_rob E (S, w) else Inr (S, w))))))))))"

end
