(* ===== verification/CoreOrder.thy ===== *)
theory CoreOrder
  imports CoreCycle
begin

text \<open>
  What the operations of the core keep. The skeleton of a core is what program order depends on: the geometry of
  the reorder buffer, the number and the address of the instruction in every entry, and the counters of
  reading and retirement. Reading appends to it and retirement takes from its front; every other operation
  leaves it alone.
\<close>

definition ident :: "ooo_instr \<Rightarrow> u64 \<times> u64" where
  "ident e = (oi_instr_id e, oi_ip e)"

definition skeleton :: "o3_cpu \<Rightarrow> (nat \<times> nat \<times> nat \<times> nat \<times> nat) \<times> (u64 \<times> u64) list \<times> u64 \<times> u64 \<times> nat" where
  "skeleton S =
     ((rb_SIZE (cpu_ROB S), rb_head (cpu_ROB S), rb_tail (cpu_ROB S), rb_occupancy (cpu_ROB S), rb_next_fetch1 (cpu_ROB S)),
      map ident (rb_entry (cpu_ROB S)), cpu_num_retired S, cpu_instr_unique_id S, cpu_trace_pos S)"

definition keeps :: "((nat \<times> nat \<times> nat \<times> nat \<times> nat) \<times> (u64 \<times> u64) list \<times> u64 \<times> u64 \<times> nat) \<Rightarrow> ('a \<Rightarrow> o3_cpu) \<Rightarrow> 'a res \<Rightarrow> bool" where
  "keeps s core m \<longleftrightarrow> ends UNIV (\<lambda>x. skeleton (core x) = s) m"

lemma keeps_simps [simp]: "keeps s core (Inl f)" "keeps s core (Inr x) \<longleftrightarrow> skeleton (core x) = s"
  by (simp_all add: keeps_def)

lemma keeps_bind: "keeps s c m \<Longrightarrow> (\<And>x. skeleton (c x) = s \<Longrightarrow> keeps s d (f x)) \<Longrightarrow> keeps s d (bind_res m f)"
  by (cases m) simp_all

lemma keeps_bind_other: "(\<And>x. keeps s d (f x)) \<Longrightarrow> keeps s d (bind_res m f)"
  by (cases m) simp_all

lemma keepsD: "keeps s c m \<Longrightarrow> m = Inr x \<Longrightarrow> skeleton (c x) = s"
  by (simp add: keeps_def)

section \<open>Updates\<close>

lemma skeleton_upd_rob [simp]: "(\<And>e. ident (f e) = ident e) \<Longrightarrow> skeleton (upd_rob i f S) = skeleton S"
  by (cases "i < length (rb_entry (cpu_ROB S))")
     (simp_all add: skeleton_def upd_rob_def rob_at_def map_update list_update_beyond nth_map [symmetric, of _ _ ident] del: nth_map)

lemma skeleton_upd_queues [simp]: "skeleton (upd_lq i g S) = skeleton S" "skeleton (upd_sq i g S) = skeleton S"
  by (simp_all add: skeleton_def upd_lq_def upd_sq_def)

lemma skeleton_simps [simp]:
  "skeleton (S\<lparr>cpu_branch_table := a\<rparr>) = skeleton S"
  "skeleton (S\<lparr>cpu_completed_executions := b\<rparr>) = skeleton S"
  "skeleton (S\<lparr>cpu_instrs_to_read_this_cycle := n\<rparr>) = skeleton S"
  "skeleton (S\<lparr>cpu_inflight_reg_executions := u\<rparr>) = skeleton S"
  "skeleton (S\<lparr>cpu_inflight_mem_executions := u\<rparr>) = skeleton S"
  "skeleton (S\<lparr>cpu_num_searched := n\<rparr>) = skeleton S"
  "skeleton (S\<lparr>cpu_LQ := q\<rparr>) = skeleton S"
  "skeleton (S\<lparr>cpu_SQ := q\<rparr>) = skeleton S"
  "skeleton (S\<lparr>cpu_STA := sta\<rparr>) = skeleton S"
  "skeleton (S\<lparr>cpu_STA_head := n\<rparr>) = skeleton S"
  "skeleton (S\<lparr>cpu_STA_tail := n\<rparr>) = skeleton S"
  "skeleton (S\<lparr>cpu_RTE0 := r\<rparr>) = skeleton S"
  "skeleton (S\<lparr>cpu_RTE1 := r\<rparr>) = skeleton S"
  "skeleton (S\<lparr>cpu_RTL0 := r\<rparr>) = skeleton S"
  "skeleton (S\<lparr>cpu_RTL1 := r\<rparr>) = skeleton S"
  "skeleton (S\<lparr>cpu_RTS0 := r\<rparr>) = skeleton S"
  "skeleton (S\<lparr>cpu_RTS1 := r\<rparr>) = skeleton S"
  "skeleton (S\<lparr>cpu_fetch_stall := x\<rparr>) = skeleton S"
  "skeleton (S\<lparr>cpu_fetch_resume_cycle := b\<rparr>) = skeleton S"
  "skeleton (S\<lparr>cpu_num_branch := b\<rparr>) = skeleton S"
  "skeleton (S\<lparr>cpu_branch_mispredictions := b\<rparr>) = skeleton S"
  "skeleton (S\<lparr>cpu_total_rob_occupancy_at_branch_mispredict := b\<rparr>) = skeleton S"
  "skeleton (S\<lparr>cpu_unique_ppages := pp\<rparr>) = skeleton S"
  "skeleton (S\<lparr>cpu_ROB := (cpu_ROB S)\<lparr>rb_last_read := n\<rparr>\<rparr>) = skeleton S"
  "skeleton (S\<lparr>cpu_ROB := (cpu_ROB S)\<lparr>rb_last_fetch := n\<rparr>\<rparr>) = skeleton S"
  "skeleton (S\<lparr>cpu_ROB := (cpu_ROB S)\<lparr>rb_next_schedule := n\<rparr>\<rparr>) = skeleton S"
  "skeleton (cpu_RTE0_update g S) = skeleton S"
  "skeleton (cpu_RTE1_update g S) = skeleton S"
  "skeleton (cpu_RTL0_update g S) = skeleton S"
  "skeleton (cpu_RTL1_update g S) = skeleton S"
  "skeleton (cpu_RTS0_update g S) = skeleton S"
  "skeleton (cpu_RTS1_update g S) = skeleton S"
  by (simp_all add: skeleton_def)

lemma ident_simps [simp]: "ident (advance_event t l e) = ident e" "ident (instr_arrived p b t e) = ident e"
  by (simp_all add: ident_def advance_event_def instr_arrived_def)

section \<open>Fetch\<close>

lemma keeps_predict: "skeleton S = s \<Longrightarrow> keeps s id (predict_instr i a S)"
  unfolding predict_instr_def by (auto simp: Let_def ident_def intro!: keeps_bind_other)

lemma keeps_push_STA: "skeleton S = s \<Longrightarrow> keeps s id (push_STA i S)"
  unfolding push_STA_def by simp

lemma keeps_copy_destination: "skeleton (snd aS) = s \<Longrightarrow> keeps s snd (copy_destination t i aS)"
  by (cases aS) (auto simp: copy_destination_def Let_def intro!: keeps_bind [OF keeps_push_STA])

lemma keeps_copy_destinations: "skeleton (snd aS) = s \<Longrightarrow> keeps s snd (copy_destinations t is aS)"
  by (induction "is" arbitrary: aS) (auto intro!: keeps_bind [OF keeps_copy_destination])

lemma keeps_build: "skeleton S = s \<Longrightarrow> keeps s snd (build_instr E t S)"
  unfolding build_instr_def
  by (auto simp: Let_def split_beta intro!: keeps_bind [OF keeps_copy_destinations] keeps_bind_other [where m = "copy_sources t is a" for "is" a])

lemma keeps_translate: "skeleton (fst Sw) = s \<Longrightarrow> keeps s fst (translate_loop E n i Sw)"
  by (induction n arbitrary: i Sw) (auto simp: Let_def split_beta intro!: keeps_bind_other)

lemma keeps_fetch: "skeleton (fst Sw) = s \<Longrightarrow> keeps s fst (fetch_loop E n i Sw)"
  by (induction n arbitrary: i Sw) (auto simp: Let_def split_beta ident_def intro!: keeps_bind_other)

lemma keeps_fetch_instruction: "skeleton (fst Sw) = s \<Longrightarrow> keeps s fst (fetch_instruction E Sw)"
  unfolding fetch_instruction_def
  by (auto simp: Let_def split_beta intro!: keeps_bind [OF keeps_translate] keeps_fetch)

lemma keeps_instr_merged: "skeleton S = s \<Longrightarrow> keeps s id (instr_merged E p b is n S)"
  by (induction "is" arbitrary: n S) simp_all

lemma keeps_complete_instr: "skeleton S = s \<Longrightarrow> keeps s snd (complete_instr_fetch E q b S)"
  unfolding complete_instr_fetch_def
  by (auto simp: Let_def intro!: keeps_bind_other [where m = "check_rob i T" for i T] keeps_bind_other [where m = "remove_queue b i q" for b i q]
        keeps_bind_other [where m = "fastset_expand n f" for n f] keeps_bind [where c = id] keeps_instr_merged)

section \<open>Scheduling and execution\<close>

lemma keeps_reg_RAW_dependency: "skeleton S = s \<Longrightarrow> keeps s id (reg_RAW_dependency E p c j S)"
  unfolding reg_RAW_dependency_def by (auto simp: Let_def ident_def intro!: keeps_bind_other)

lemma keeps_check_sources: "skeleton S = s \<Longrightarrow> keeps s id (check_sources E p c js S)"
  by (induction js arbitrary: S) (auto intro!: keeps_bind [where c = id] keeps_reg_RAW_dependency)

lemma keeps_check_priors: "skeleton S = s \<Longrightarrow> keeps s id (check_priors E c is S)"
  by (induction "is" arbitrary: S) (auto intro!: keeps_bind [where c = id] keeps_check_sources)

lemma keeps_reg_dependency: "skeleton S = s \<Longrightarrow> keeps s id (reg_dependency E i S)"
  unfolding reg_dependency_def by (rule keeps_check_priors)

lemma keeps_do_scheduling: "skeleton S = s \<Longrightarrow> keeps s id (do_scheduling E i S)"
  unfolding do_scheduling_def
  by (rule keeps_bind [OF keeps_reg_dependency]) (auto simp: Let_def ident_def advance_event_def intro!: keeps_bind_other)

lemma keeps_schedule_scan: "skeleton S = s \<Longrightarrow> keeps s id (schedule_scan E is S)"
  by (induction "is" arbitrary: S) (auto intro!: keeps_bind [where c = id] keeps_do_scheduling)

lemma keeps_schedule_instruction: "skeleton S = s \<Longrightarrow> keeps s id (schedule_instruction E S)"
  unfolding schedule_instruction_def by (auto intro!: keeps_schedule_scan)

lemma keeps_do_execution: "skeleton S = s \<Longrightarrow> keeps s id (do_execution E i S)"
  unfolding do_execution_def by (simp add: ident_def advance_event_def)

lemma keeps_execute_loop:
  assumes "\<And>T. skeleton (upd ready_pop T) = skeleton T"
  shows "skeleton (snd x) = s \<Longrightarrow> keeps s snd (execute_loop E get upd n x)"
  by (induction n arbitrary: x)
     (auto simp: Let_def split_beta assms split: option.split intro!: keeps_bind [OF keeps_do_execution])

lemma keeps_execute_instruction: "skeleton S = s \<Longrightarrow> keeps s id (execute_instruction E S)"
  unfolding execute_instruction_def
  by (auto simp: split_beta intro!: keeps_bind [where c = snd] keeps_execute_loop)

lemma keeps_release_source: "skeleton S = s \<Longrightarrow> keeps s id (release_source i S)"
  unfolding release_source_def by (auto simp: Let_def ident_def intro!: keeps_bind_other)

lemma keeps_release_sources: "skeleton S = s \<Longrightarrow> keeps s id (release_sources r i js S)"
  by (induction js arbitrary: S)
     (auto intro!: keeps_bind_other [where m = "fastset_search i f" for i f] keeps_bind [where c = id] keeps_release_source)

lemma keeps_release_dependents: "skeleton S = s \<Longrightarrow> keeps s id (release_dependents r is S)"
  by (induction "is" arbitrary: S) (auto intro!: keeps_bind [where c = id] keeps_release_sources)

lemma keeps_reg_RAW_release: "skeleton S = s \<Longrightarrow> keeps s id (reg_RAW_release r S)"
  unfolding reg_RAW_release_def by (rule keeps_bind_other) (rule keeps_release_dependents)

lemma keeps_complete_execution: "skeleton S = s \<Longrightarrow> keeps s id (complete_execution E r S)"
  unfolding complete_execution_def
  by (auto simp: Let_def ident_def intro!: keeps_bind [where c = id] keeps_reg_RAW_release)

lemma keeps_complete_executions: "skeleton S = s \<Longrightarrow> keeps s id (complete_executions E is S)"
  by (induction "is" arbitrary: S) (auto intro!: keeps_bind [OF keeps_complete_execution])

section \<open>Loads and stores\<close>

lemma keeps_mem_op_done: "skeleton S = s \<Longrightarrow> keeps s id (mem_op_done i t S)"
  unfolding mem_op_done_def by (simp add: Let_def ident_def)

lemma skeleton_release_load [simp]: "skeleton (release_load_queue l S) = skeleton S"
  unfolding release_load_queue_def by (simp add: Let_def)

lemma keeps_mem_RAW_dependency: "skeleton S = s \<Longrightarrow> keeps s id (mem_RAW_dependency E p c d l S)"
  unfolding mem_RAW_dependency_def by (auto simp: Let_def ident_def intro!: keeps_bind_other)

lemma keeps_find_producer: "skeleton S = s \<Longrightarrow> keeps s id (find_producer E c d l is S)"
  by (induction "is" arbitrary: S) (auto intro!: keeps_bind [OF keeps_mem_RAW_dependency])

lemma skeleton_find_forwarding: "skeleton (snd (find_forwarding r l is S)) = skeleton S"
  by (induction "is" arbitrary: S) (auto simp: Let_def)

lemma keeps_forward_load: "skeleton S = s \<Longrightarrow> keeps s id (forward_load E q l S)"
  unfolding forward_load_def by (auto simp: Let_def intro!: keeps_bind [OF keeps_mem_op_done])

lemma keeps_add_load_queue: "skeleton S = s \<Longrightarrow> keeps s id (add_load_queue E r d S)"
  unfolding add_load_queue_def
  apply (auto simp: Let_def split_beta ident_def skeleton_find_forwarding split: option.split intro!: keeps_bind [OF keeps_find_producer])
  apply (auto simp: Let_def split_beta ident_def skeleton_find_forwarding split: option.split intro!: keeps_bind [OF keeps_forward_load] keeps_bind_other [where m = "ready_push i q" for i q])
  done

lemma keeps_add_store_queue: "skeleton S = s \<Longrightarrow> keeps s id (add_store_queue E r d S)"
  unfolding add_store_queue_def by (auto simp: Let_def ident_def intro!: keeps_bind_other)

lemma keeps_add_loads: "skeleton (snd (snd x)) = s \<Longrightarrow> keeps s (snd \<circ> snd) (add_loads E r is x)"
  by (induction "is" arbitrary: x) (auto simp: Let_def split_beta intro!: keeps_bind [OF keeps_add_load_queue])

lemma keeps_add_stores: "skeleton (snd (snd x)) = s \<Longrightarrow> keeps s (snd \<circ> snd) (add_stores E r is x)"
  by (induction "is" arbitrary: x) (auto simp: Let_def split_beta intro!: keeps_bind [OF keeps_add_store_queue])

lemma keeps_check_and_add_lsq: "skeleton S = s \<Longrightarrow> keeps s snd (check_and_add_lsq E r S)"
  unfolding check_and_add_lsq_def
  by (auto simp: split_beta intro!: keeps_bind [OF keeps_add_loads] keeps_bind [OF keeps_add_stores])

lemma keeps_do_memory_scheduling: "skeleton S = s \<Longrightarrow> keeps s id (do_memory_scheduling E r S)"
  unfolding do_memory_scheduling_def
  by (auto simp: Let_def split_beta ident_def intro!: keeps_bind [OF keeps_check_and_add_lsq])

lemma keeps_memory_scan: "skeleton S = s \<Longrightarrow> keeps s id (memory_scan E is S)"
  by (induction "is" arbitrary: S) (auto intro!: keeps_bind [where c = id] keeps_do_memory_scheduling)

lemma keeps_schedule_memory: "skeleton S = s \<Longrightarrow> keeps s id (schedule_memory_instruction E S)"
  unfolding schedule_memory_instruction_def
  by (auto simp: Let_def intro!: keeps_memory_scan keeps_bind [OF keeps_memory_scan])

lemma keeps_execute_load: "skeleton (fst Sw) = s \<Longrightarrow> keeps s (fst \<circ> snd) (execute_load E l Sw)"
  unfolding execute_load_def by (auto simp: Let_def split_beta intro!: keeps_bind_other)

lemma keeps_resolve_load: "skeleton S = s \<Longrightarrow> keeps s id (resolve_load E r q d j S)"
  unfolding resolve_load_def
  by (auto simp: Let_def ident_def intro!: keeps_bind [OF keeps_mem_op_done] keeps_bind_other [where m = "fastset_insert i f" for i f])

lemma keeps_resolve_sources: "skeleton S = s \<Longrightarrow> keeps s id (resolve_sources E r q d js S)"
  by (induction js arbitrary: S) (auto intro!: keeps_bind [OF keeps_resolve_load])

lemma keeps_resolve_dependents: "skeleton S = s \<Longrightarrow> keeps s id (resolve_dependents E r q is S)"
  by (induction "is" arbitrary: S) (auto intro!: keeps_bind [OF keeps_resolve_sources])

lemma keeps_execute_store: "skeleton S = s \<Longrightarrow> keeps s id (execute_store E r q S)"
  unfolding execute_store_def Let_def
  by (rule keeps_bind [OF keeps_mem_op_done]) (auto intro!: keeps_bind_other keeps_resolve_dependents)

lemma keeps_store_translate: "skeleton (fst (snd x)) = s \<Longrightarrow> keeps s (fst \<circ> snd) (store_translate_loop E n x)"
  by (induction n arbitrary: x) (auto simp: Let_def split_beta split: option.split intro!: keeps_bind_other)

lemma keeps_store_execute: "skeleton (snd x) = s \<Longrightarrow> keeps s snd (store_execute_loop E n x)"
  by (induction n arbitrary: x) (auto simp: Let_def split_beta split: option.split intro!: keeps_bind [OF keeps_execute_store])

lemma keeps_load_translate: "skeleton (fst (snd x)) = s \<Longrightarrow> keeps s (fst \<circ> snd) (load_translate_loop E n x)"
  by (induction n arbitrary: x) (auto simp: Let_def split_beta split: option.split intro!: keeps_bind_other)

lemma keeps_load_execute: "skeleton (fst (snd x)) = s \<Longrightarrow> keeps s (fst \<circ> snd) (load_execute_loop E n x)"
  by (induction n arbitrary: x) (auto simp: Let_def split_beta split: option.split intro!: keeps_bind [OF keeps_execute_load])

lemma keeps_operate_lsq: "skeleton (fst Sw) = s \<Longrightarrow> keeps s fst (operate_lsq E Sw)"
  unfolding operate_lsq_def
  by (auto simp: Let_def split_beta intro!: keeps_bind [OF keeps_store_translate] keeps_bind [OF keeps_store_execute]
        keeps_bind [OF keeps_load_translate] keeps_bind [OF keeps_load_execute])

lemma keeps_execute_memory: "skeleton (fst Sw) = s \<Longrightarrow> keeps s fst (execute_memory_instruction E Sw)"
  unfolding execute_memory_instruction_def
  by (rule keeps_bind [OF keeps_operate_lsq]) (auto simp: split_beta intro!: keeps_bind_other)

section \<open>Completion of data requests\<close>

lemma keeps_translated: "skeleton S = s \<Longrightarrow> keeps s id (store_translated f q S)" "skeleton S = s \<Longrightarrow> keeps s id (load_translated f l S)"
  unfolding store_translated_def load_translated_def by (auto intro!: keeps_bind_other)

lemma keeps_each_index: "(\<And>i T. skeleton T = s \<Longrightarrow> keeps s id (f i T)) \<Longrightarrow> skeleton S = s \<Longrightarrow> keeps s id (each_index f is S)"
  by (induction "is" arbitrary: S) (auto intro!: keeps_bind [where c = id])

lemma keeps_merged_translation: "skeleton S = s \<Longrightarrow> keeps s id (handle_merged_translation E p S)"
  unfolding handle_merged_translation_def
  by (rule keeps_bind [where c = id]) (auto intro!: keeps_bind_other keeps_each_index keeps_translated)

lemma keeps_merged_load: "skeleton S = s \<Longrightarrow> keeps s id (handle_merged_load E p S)"
  unfolding handle_merged_load_def
  by (auto simp: merged_load_done_def Let_def intro!: keeps_bind_other [where m = "fastset_expand n f" for n f] keeps_each_index keeps_bind [OF keeps_mem_op_done])

lemma keeps_load_done: "skeleton S = s \<Longrightarrow> keeps s id (load_done E p S)"
  unfolding load_done_def by (auto simp: Let_def intro!: keeps_bind [OF keeps_mem_op_done] keeps_merged_load)

lemma keeps_complete_data: "skeleton S = s \<Longrightarrow> keeps s snd (complete_data_fetch E q b S)"
  unfolding complete_data_fetch_def Let_def
  apply (auto intro!: keeps_bind_other [where m = "remove_queue b i q" for b i q] keeps_bind_other [where m = "check_rob i T" for i T] keeps_bind_other [where m = "(m :: unit res)" for m]
      keeps_bind [where c = id] keeps_translated keeps_merged_translation keeps_merged_load keeps_load_done simp: ident_def)
  done

section \<open>Collection\<close>

lemma keeps_collect:
  "(\<And>q T. skeleton T = s \<Longrightarrow> keeps s snd (complete q T)) \<Longrightarrow> skeleton (fst Sw) = s \<Longrightarrow> keeps s fst (collect E get put complete Sw)"
  unfolding collect_def by (auto simp: Let_def split_beta intro!: keeps_bind [where c = snd])

lemma keeps_update_rob: "skeleton (fst Sw) = s \<Longrightarrow> keeps s fst (update_rob E Sw)"
  unfolding update_rob_def
  by (auto simp: split_beta intro!: keeps_bind [where c = fst] keeps_collect keeps_complete_instr keeps_complete_data
        keeps_bind [where c = id] keeps_complete_executions)

end
