(* ===== verification/CoreProgram.thy ===== *)
theory CoreProgram
  imports CoreOrder
begin

text \<open>
  Program order in the core: at the end of every cycle the reorder buffer holds, from its head on, consecutive
  instructions of the trace, numbered from the count of those that have retired.
\<close>

section \<open>The buffer as a ring\<close>

lemma ring_index: "h < sz \<Longrightarrow> k \<le> sz \<Longrightarrow> (h + k) mod sz = (if h + k < sz then h + k else h + k - (sz :: nat))"
  by (simp add: le_mod_geq)

lemma ring_inj: "h < sz \<Longrightarrow> j < sz \<Longrightarrow> k < sz \<Longrightarrow> (h + j) mod sz = (h + k) mod sz \<longleftrightarrow> j = (k :: nat)"
  by (auto simp: ring_index split: if_splits)

lemma ring_next: "h < sz \<Longrightarrow> k < sz \<Longrightarrow> wrap_next sz ((h + k) mod sz) = (h + Suc k) mod sz"
  using ring_index [of h sz k] ring_index [of h sz "Suc k"] by (auto simp: wrap_next_def split: if_splits)

lemma ring_shift: "h < sz \<Longrightarrow> Suc k \<le> sz \<Longrightarrow> (wrap_next sz h + k) mod sz = (h + Suc k) mod sz"
  using ring_next [of h sz 0] by (simp add: mod_simps)

text \<open>The instruction that is read as the \<open>i\<close>-th one: its number and the address of its record.\<close>

definition instr_no :: "'w core_ports \<Rightarrow> nat \<Rightarrow> u64 \<times> u64" where
  "instr_no E i = (of_nat i, tr_ip (cp_trace E ! (i mod length (cp_trace E))))"

text \<open>Program order of a skeleton after \<open>n\<close> retired instructions.\<close>

fun order_ok ::
  "'w core_ports \<Rightarrow> nat \<Rightarrow> (nat \<times> nat \<times> nat \<times> nat \<times> nat) \<times> (u64 \<times> u64) list \<times> u64 \<times> u64 \<times> nat \<Rightarrow> bool" where
  "order_ok E n ((sz, h, t, occ, nf), ids, ret, uid, pos) \<longleftrightarrow>
     h < sz \<and> length ids = sz \<and> occ \<le> sz \<and> t = (h + occ) mod sz \<and> nf = 0 \<and>
     ret = of_nat n \<and> uid = of_nat (n + occ) \<and> pos \<le> length (cp_trace E) \<and>
     pos mod length (cp_trace E) = (n + occ) mod length (cp_trace E) \<and>
     (\<forall>k < sz. ids ! ((h + k) mod sz) = (if k < occ then instr_no E (n + k) else (0, 0)))"

definition in_order :: "'w core_ports \<Rightarrow> nat \<Rightarrow> o3_cpu \<Rightarrow> bool" where
  "in_order E n S \<longleftrightarrow> order_ok E n (skeleton S)"

text \<open>The numbers and addresses in the buffer, oldest first.\<close>

definition window :: "o3_cpu \<Rightarrow> (u64 \<times> u64) list" where
  "window S =
     (let r = cpu_ROB S in map (\<lambda>k. ident (rb_entry r ! ((rb_head r + k) mod rb_SIZE r))) [0..<rb_occupancy r])"

lemma window_in_order:
  assumes "in_order E n S"
  shows "window S = map (instr_no E) [n..<n + rb_occupancy (cpu_ROB S)]"
proof -
  let ?r = "cpu_ROB S"
  have ok: "rb_head ?r < rb_SIZE ?r" "length (rb_entry ?r) = rb_SIZE ?r" "rb_occupancy ?r \<le> rb_SIZE ?r"
    and ids: "\<And>k. k < rb_SIZE ?r \<Longrightarrow>
      map ident (rb_entry ?r) ! ((rb_head ?r + k) mod rb_SIZE ?r) = (if k < rb_occupancy ?r then instr_no E (n + k) else (0, 0))"
    subgoal using assms by (simp add: in_order_def skeleton_def)
    subgoal using assms by (simp add: in_order_def skeleton_def)
    subgoal using assms by (simp add: in_order_def skeleton_def)
    subgoal using assms unfolding in_order_def skeleton_def order_ok.simps by blast
    done
  have "ident (rb_entry ?r ! ((rb_head ?r + k) mod rb_SIZE ?r)) = instr_no E (n + k)" if k: "k < rb_occupancy ?r" for k
  proof -
    have "(rb_head ?r + k) mod rb_SIZE ?r < rb_SIZE ?r" using ok(1) by simp
    then show ?thesis using ids [of k] k ok by simp
  qed
  then show ?thesis by (simp add: window_def Let_def list_eq_iff_nth_eq)
qed

lemma order_init: "0 < rob \<Longrightarrow> in_order E 0 (O3_CPU_init rob lq sq raw)"
  by (simp add: in_order_def skeleton_def O3_CPU_init_def CORE_BUFFER_init_def ident_def ooo_instr_init_def)

lemma order_push:
  assumes ok: "order_ok E n ((sz, h, t, occ, nf), ids, ret, uid, pos)" and room: "occ < sz" and more: "pos < length (cp_trace E)"
  shows "order_ok E n ((sz, h, (if t + 1 \<ge> sz then 0 else t + 1), occ + 1, nf),
           ids[t := (uid, tr_ip (cp_trace E ! pos))], ret, uid + 1, pos + 1)"
proof -
  have h: "h < sz" and t: "t = (h + occ) mod sz" using ok by simp_all
  have t': "(if t + 1 \<ge> sz then 0 else t + 1) = (h + (occ + 1)) mod sz"
    using ring_next [OF h room] mod_less_divisor [of sz "h + Suc occ", OF le_less_trans [OF le0 h]] by (auto simp: t wrap_next_def split: if_splits)
  have new: "instr_no E (n + occ) = (uid, tr_ip (cp_trace E ! pos))"
    using ok more by (simp add: instr_no_def)
  have "ids[t := (uid, tr_ip (cp_trace E ! pos))] ! ((h + k) mod sz) = (if k < occ + 1 then instr_no E (n + k) else (0, 0))"
    if k: "k < sz" for k
    using ok ring_inj [OF h k room] h k new by (auto simp: nth_list_update t)
  moreover have "Suc pos mod length (cp_trace E) = Suc (n + occ) mod length (cp_trace E)"
    using ok by (metis mod_Suc_eq order_ok.simps)
  ultimately show ?thesis using ok room more t' [unfolded t] by (simp split: if_splits)
qed

lemma order_pop:
  assumes ok: "order_ok E n ((sz, h, t, occ, nf), ids, ret, uid, pos)" and some: "0 < occ"
  shows "order_ok E (Suc n) ((sz, wrap_next sz h, t, occ - 1, nf), ids[h := (0, 0)], ret + 1, uid, pos)"
proof -
  have h: "h < sz" and occ: "occ \<le> sz" using ok by simp_all
  have shift: "(wrap_next sz h + k) mod sz = (h + Suc k) mod sz" if "k < sz" for k
    using ring_shift [OF h] that by simp
  have "ids[h := (0, 0)] ! ((wrap_next sz h + k) mod sz) = (if k < occ - 1 then instr_no E (Suc n + k) else (0, 0))"
    if k: "k < sz" for k
  proof (cases "Suc k = sz")
    case True
    then have "(h + Suc k) mod sz = h" using h by simp
    moreover have "\<not> k < occ - 1" using True occ some by arith
    ultimately show ?thesis using ok h by (simp add: shift [OF k])
  next
    case False
    then have k': "Suc k < sz" using k by simp
    have "ids ! ((h + Suc k) mod sz) = (if Suc k < occ then instr_no E (n + Suc k) else (0, 0))"
      using ok k' unfolding order_ok.simps by blast
    moreover have "(h + Suc k) mod sz \<noteq> h" using ring_inj [OF h k', of 0] h by simp
    ultimately show ?thesis by (simp add: shift [OF k] less_diff_conv)
  qed
  moreover have "wrap_next sz h < sz" using h by (simp add: wrap_next_def)
  moreover have "occ - 1 < sz" using h occ some by arith
  ultimately show ?thesis
    using ok some shift [of "occ - 1"] by simp
qed

section \<open>Reading\<close>

text \<open>What the copying of a record keeps besides the skeleton.\<close>

lemma copy_destination_keeps:
  "ends UNIV (\<lambda>x. ident (fst x) = ident (fst aS) \<and> cpu_instrs_to_read_this_cycle (snd x) = cpu_instrs_to_read_this_cycle (snd aS) \<and>
     cpu_ROB (snd x) = cpu_ROB (snd aS)) (copy_destination t i aS)"
  by (cases aS) (simp add: copy_destination_def push_STA_def Let_def ident_def)

lemma copy_destinations_keeps:
  "ends UNIV (\<lambda>x. ident (fst x) = ident (fst aS) \<and> cpu_instrs_to_read_this_cycle (snd x) = cpu_instrs_to_read_this_cycle (snd aS) \<and>
     cpu_ROB (snd x) = cpu_ROB (snd aS)) (copy_destinations t is aS)"
proof (induction "is" arbitrary: aS)
  case (Cons i "is")
  show ?case
    unfolding copy_destinations.simps by (rule ends_bind [OF copy_destination_keeps]) (rule ends_mono [OF Cons.IH]; simp)
qed simp

lemma copy_sources_keeps: "ends UNIV (\<lambda>x. ident x = ident a) (copy_sources t is a)"
proof (induction "is" arbitrary: a)
  case (Cons i "is")
  show ?case by (auto simp: Let_def ident_def intro!: ends_mono [OF Cons.IH])
qed simp

lemma build_instr_ident:
  "ends UNIV (\<lambda>(a, T). ident a = (cpu_instr_unique_id S, tr_ip t) \<and> cpu_ROB T = cpu_ROB S \<and> skeleton T = skeleton S \<and>
     cpu_instrs_to_read_this_cycle T = cpu_instrs_to_read_this_cycle S) (build_instr E t S)"
proof -
  have "ends UNIV (\<lambda>(a, T). ident a = (cpu_instr_unique_id S, tr_ip t) \<and> cpu_ROB T = cpu_ROB S \<and>
     cpu_instrs_to_read_this_cycle T = cpu_instrs_to_read_this_cycle S) (build_instr E t S)"
    unfolding build_instr_def Let_def
    apply (rule ends_bind [OF copy_destinations_keeps])
    apply (simp add: split_beta)
    apply (rule ends_bind [OF copy_sources_keeps])
    apply (auto simp: ident_def)
    done
  moreover have "ends UNIV (\<lambda>x. skeleton (snd x) = skeleton S) (build_instr E t S)"
    using keeps_build [OF refl, of S E t] by (simp add: keeps_def)
  ultimately show ?thesis by (rule ends_mono [OF ends_conj]) auto
qed

lemma add_to_rob_skeleton:
  assumes "ident a = (u, ip)"
  shows "ends UNIV (\<lambda>(i, T). i = rb_tail (cpu_ROB S) \<and> cpu_instrs_to_read_this_cycle T = cpu_instrs_to_read_this_cycle S \<and>
    skeleton T = (case skeleton S of ((sz, h, t, occ, nf), ids, rest) \<Rightarrow>
      ((sz, h, (if t + 1 \<ge> sz then 0 else t + 1), occ + 1, nf), ids[t := (u, ip)], rest))) (add_to_rob E a S)"
  using assms by (auto simp: add_to_rob_def Let_def skeleton_def upd_rob_def map_update ident_def)

lemma predict_keeps:
  "ends UNIV (\<lambda>T. skeleton T = skeleton S \<and> cpu_instrs_to_read_this_cycle T \<le> cpu_instrs_to_read_this_cycle S)
     (predict_instr i a S)"
proof -
  have "ends UNIV (\<lambda>T. skeleton T = skeleton S) (predict_instr i a S)"
    using keeps_predict [OF refl, of S i a] by (simp add: keeps_def)
  moreover have "ends UNIV (\<lambda>T. cpu_instrs_to_read_this_cycle T \<le> cpu_instrs_to_read_this_cycle S) (predict_instr i a S)"
    unfolding predict_instr_def Let_def
    by (rule ends_bind [where P = "\<lambda>_. True"], simp add: ends_def split: sum.split,
        rule ends_bind [where P = "\<lambda>_. True"], simp add: ends_def split: sum.split, simp add: upd_rob_def)
  ultimately show ?thesis by (rule ends_conj)
qed

text \<open>A round of the loop reads the next record, or goes back to the start of the trace.\<close>

lemma read_rewinds:
  "\<not> cpu_trace_pos S < length (cp_trace E) \<Longrightarrow> read_record E (m, S) = Inr (True, m, S\<lparr>cpu_trace_pos := 0\<rparr>)"
  by (simp add: read_record_def)

lemma admit_in_order:
  assumes a: "ident a = (u, ip)" and room: "rb_occupancy (cpu_ROB S) < rb_SIZE (cpu_ROB S)"
    and sk: "skeleton S = ((sz, h, t, occ, nf), ids, rest)"
  shows "ends UNIV (\<lambda>(c, m', T).
      skeleton T = ((sz, h, (if t + 1 \<ge> sz then 0 else t + 1), occ + 1, nf), ids[t := (u, ip)], rest) \<and>
      cpu_instrs_to_read_this_cycle T \<le> cpu_instrs_to_read_this_cycle S \<and> m' = m + 1 \<and>
      (c \<longrightarrow> m' < cpu_instrs_to_read_this_cycle T \<and> rb_occupancy (cpu_ROB T) \<noteq> rb_SIZE (cpu_ROB T))) (admit_instr E a m S)"
    (is "ends UNIV ?Q _")
  unfolding admit_instr_def if_P [OF room]
proof (rule ends_bind [OF add_to_rob_skeleton [OF a]], clarify)
  let ?P = "\<lambda>T. skeleton T = ((sz, h, (if t + 1 \<ge> sz then 0 else t + 1), occ + 1, nf), ids[t := (u, ip)], rest) \<and>
      cpu_instrs_to_read_this_cycle T \<le> cpu_instrs_to_read_this_cycle S"
  fix i S2
  assume "cpu_instrs_to_read_this_cycle S2 = cpu_instrs_to_read_this_cycle S"
    and "skeleton S2 = (case skeleton S of ((sz, h, t, occ, nf), ids, rest) \<Rightarrow>
      ((sz, h, (if t + 1 \<ge> sz then 0 else t + 1), occ + 1, nf), ids[t := (u, ip)], rest))"
  then have S2: "?P S2" using sk by simp
  show "ends UNIV ?Q (bind_res (if oi_is_branch a \<noteq> 0 then predict_instr i a S2 else Inr S2) (\<lambda>S.
      Inr (\<not> (cpu_instrs_to_read_this_cycle S \<le> m + 1 \<or> rb_occupancy (cpu_ROB S) = rb_SIZE (cpu_ROB S)), m + 1, S)))"
  proof (rule ends_bind [where P = ?P])
    show "ends UNIV ?P (if oi_is_branch a \<noteq> 0 then predict_instr i a S2 else Inr S2)"
      using S2 ends_mono [OF predict_keeps [of S2 i a], of ?P UNIV] by fastforce
  qed auto
qed

lemma read_record_in_order:
  assumes ok: "in_order E n S" and room: "rb_occupancy (cpu_ROB S) < rb_SIZE (cpu_ROB S)"
    and more: "cpu_trace_pos S < length (cp_trace E)"
  shows "ends UNIV (\<lambda>(c, m', T). in_order E n T \<and> m' = m + 1 \<and> rb_occupancy (cpu_ROB T) = rb_occupancy (cpu_ROB S) + 1 \<and>
      rb_SIZE (cpu_ROB T) = rb_SIZE (cpu_ROB S) \<and>
      cpu_instrs_to_read_this_cycle T \<le> cpu_instrs_to_read_this_cycle S \<and>
      (c \<longrightarrow> m' < cpu_instrs_to_read_this_cycle T \<and> rb_occupancy (cpu_ROB T) < rb_SIZE (cpu_ROB T))) (read_record E (m, S))"
    (is "ends UNIV ?Q _")
proof -
  obtain sz h t occ nf ids ret uid pos where sk: "skeleton S = ((sz, h, t, occ, nf), ids, ret, uid, pos)"
    by (metis prod.exhaust)
  then have f: "rb_SIZE (cpu_ROB S) = sz" "rb_occupancy (cpu_ROB S) = occ" "cpu_trace_pos S = pos" "cpu_instr_unique_id S = uid"
    by (simp_all add: skeleton_def)
  let ?r = "cp_trace E ! pos"
  let ?S0 = "S\<lparr>cpu_trace_pos := cpu_trace_pos S + 1\<rparr>"
  have sk0: "skeleton ?S0 = ((sz, h, t, occ, nf), ids, ret, uid, pos + 1)"
    using sk by (simp add: skeleton_def)
  have pushed: "order_ok E n ((sz, h, (if t + 1 \<ge> sz then 0 else t + 1), occ + 1, nf), ids[t := (uid, tr_ip ?r)], ret, uid + 1, pos + 1)"
    using order_push ok room more unfolding in_order_def sk f by blast
  have "ends UNIV ?Q (bind_res (build_instr E ?r ?S0) (\<lambda>(a, S). bind_res (admit_instr E a m S) (\<lambda>(c, m, S).
      Inr (c, m, S\<lparr>cpu_instr_unique_id := cpu_instr_unique_id S + 1\<rparr>))))"
  proof (rule ends_bind [OF build_instr_ident], clarify)
    fix a S1
    assume "ident a = (cpu_instr_unique_id ?S0, tr_ip ?r)" and S1: "cpu_ROB S1 = cpu_ROB ?S0" "skeleton S1 = skeleton ?S0"
      "cpu_instrs_to_read_this_cycle S1 = cpu_instrs_to_read_this_cycle ?S0"
    then have a: "ident a = (uid, tr_ip ?r)" and room1: "rb_occupancy (cpu_ROB S1) < rb_SIZE (cpu_ROB S1)" using f room by simp_all
    show "ends UNIV ?Q (bind_res (admit_instr E a m S1) (\<lambda>(c, m, S). Inr (c, m, S\<lparr>cpu_instr_unique_id := cpu_instr_unique_id S + 1\<rparr>)))"
    proof (rule ends_bind [OF admit_in_order [OF a room1 S1(2) [unfolded sk0]]], clarify)
      fix c m' T
      assume T: "skeleton T = ((sz, h, (if t + 1 \<ge> sz then 0 else t + 1), occ + 1, nf), ids[t := (uid, tr_ip ?r)], ret, uid, pos + 1)"
        and "cpu_instrs_to_read_this_cycle T \<le> cpu_instrs_to_read_this_cycle S1"
          "c \<longrightarrow> m + 1 < cpu_instrs_to_read_this_cycle T \<and> rb_occupancy (cpu_ROB T) \<noteq> rb_SIZE (cpu_ROB T)"
      moreover have "rb_occupancy (cpu_ROB T) = occ + 1" "rb_SIZE (cpu_ROB T) = sz"
        using T by (simp_all add: skeleton_def)
      moreover have sk1: "skeleton (T\<lparr>cpu_instr_unique_id := cpu_instr_unique_id T + 1\<rparr>) =
          ((sz, h, (if t + 1 \<ge> sz then 0 else t + 1), occ + 1, nf), ids[t := (uid, tr_ip ?r)], ret, uid + 1, pos + 1)"
        using T by (simp add: skeleton_def)
      moreover have "in_order E n (T\<lparr>cpu_instr_unique_id := cpu_instr_unique_id T + 1\<rparr>)"
        unfolding in_order_def sk1 by (rule pushed)
      ultimately show "ends UNIV ?Q (Inr (c, m + 1, T\<lparr>cpu_instr_unique_id := cpu_instr_unique_id T + 1\<rparr>))"
        using f room S1 by auto
    qed
  qed
  then show ?thesis using more by (simp add: read_record_def f)
qed

section \<open>Reading ends\<close>

text \<open>
  Each round reads an instruction or goes back to the start of a trace that is not empty, so the loop
  ends after \<^verbatim>\<open>FETCH_WIDTH\<close> instructions at the latest.
\<close>

lemma read_records_end:
  assumes "cp_trace E \<noteq> []" "in_order E n S" "rb_occupancy (cpu_ROB S) < rb_SIZE (cpu_ROB S)"
    "m < w" "cpu_instrs_to_read_this_cycle S \<le> w"
  shows "\<exists>r. read_records E (m, S) = Some r \<and>
    ends UNIV (\<lambda>T. in_order E n T \<and> rb_occupancy (cpu_ROB S) < rb_occupancy (cpu_ROB T) \<and>
      rb_occupancy (cpu_ROB T) + m \<le> rb_occupancy (cpu_ROB S) + w) r"
  using assms
proof (induction "2 * (w - m) + of_bool (\<not> cpu_trace_pos S < length (cp_trace E))" arbitrary: m S rule: less_induct)
  case less
  show ?case
  proof (cases "cpu_trace_pos S < length (cp_trace E)")
    case False
    let ?S = "S\<lparr>cpu_trace_pos := 0\<rparr>"
    have "in_order E n ?S"
      using less.prems(1, 2) False by (auto simp: in_order_def skeleton_def)
    then have "\<exists>r. read_records E (m, ?S) = Some r \<and>
      ends UNIV (\<lambda>T. in_order E n T \<and> rb_occupancy (cpu_ROB ?S) < rb_occupancy (cpu_ROB T) \<and>
        rb_occupancy (cpu_ROB T) + m \<le> rb_occupancy (cpu_ROB ?S) + w) r"
      using less.prems False by (intro less.hyps) auto
    then show ?thesis
      using False by (subst read_records.simps) (simp add: read_rewinds)
  next
    case True
    have step: "ends UNIV (\<lambda>(c, m', T). in_order E n T \<and> m' = m + 1 \<and> rb_occupancy (cpu_ROB T) = rb_occupancy (cpu_ROB S) + 1 \<and>
      rb_SIZE (cpu_ROB T) = rb_SIZE (cpu_ROB S) \<and> cpu_instrs_to_read_this_cycle T \<le> cpu_instrs_to_read_this_cycle S \<and>
      (c \<longrightarrow> m' < cpu_instrs_to_read_this_cycle T \<and> rb_occupancy (cpu_ROB T) < rb_SIZE (cpu_ROB T))) (read_record E (m, S))"
      by (rule read_record_in_order [OF less.prems(2, 3) True])
    show ?thesis
    proof (cases "read_record E (m, S)")
      case (Inl f)
      then show ?thesis by (subst read_records.simps) simp
    next
      case (Inr x)
      obtain c m' T where x: "x = (c, m', T)" by (cases x)
      have T: "in_order E n T" "m' = m + 1" "rb_occupancy (cpu_ROB T) = rb_occupancy (cpu_ROB S) + 1"
        "cpu_instrs_to_read_this_cycle T \<le> w"
        and c: "c \<Longrightarrow> m' < w \<and> rb_occupancy (cpu_ROB T) < rb_SIZE (cpu_ROB T)"
        using step less.prems(5) unfolding Inr x by auto
      show ?thesis
      proof (cases c)
        case False
        then show ?thesis using T less.prems(4) by (subst read_records.simps) (simp add: Inr x)
      next
        case True
        then have "\<exists>r. read_records E (m', T) = Some r \<and>
          ends UNIV (\<lambda>U. in_order E n U \<and> rb_occupancy (cpu_ROB T) < rb_occupancy (cpu_ROB U) \<and>
            rb_occupancy (cpu_ROB U) + m' \<le> rb_occupancy (cpu_ROB T) + w) r"
          using c T less.prems(1, 4) by (intro less.hyps) auto
        then obtain r where r: "read_records E (m', T) = Some r"
          "ends UNIV (\<lambda>U. in_order E n U \<and> rb_occupancy (cpu_ROB T) < rb_occupancy (cpu_ROB U) \<and>
            rb_occupancy (cpu_ROB U) + m' \<le> rb_occupancy (cpu_ROB T) + w) r" by blast
        have "read_records E (m, S) = Some r"
          using True r(1) by (subst read_records.simps) (simp add: Inr x)
        moreover have "ends UNIV (\<lambda>T. in_order E n T \<and> rb_occupancy (cpu_ROB S) < rb_occupancy (cpu_ROB T) \<and>
            rb_occupancy (cpu_ROB T) + m \<le> rb_occupancy (cpu_ROB S) + w) r"
          by (rule ends_mono [OF r(2)]) (use T in auto)
        ultimately show ?thesis by blast
      qed
    qed
  qed
qed

lemma handle_branch_ends:
  assumes "cp_trace E \<noteq> []" "in_order E n S" "rb_occupancy (cpu_ROB S) < rb_SIZE (cpu_ROB S)"
  shows "\<exists>r. handle_branch E S = Some r \<and>
    ends UNIV (\<lambda>T. in_order E n T \<and> rb_occupancy (cpu_ROB S) < rb_occupancy (cpu_ROB T) \<and>
      rb_occupancy (cpu_ROB T) \<le> rb_occupancy (cpu_ROB S) + FETCH_WIDTH) r"
proof -
  let ?S = "S\<lparr>cpu_instrs_to_read_this_cycle := FETCH_WIDTH\<rparr>"
  have "in_order E n ?S" using assms(2) by (simp add: in_order_def)
  then show ?thesis
    using read_records_end [of E n ?S 0 FETCH_WIDTH] assms unfolding handle_branch_def by (simp add: FETCH_WIDTH_def)
qed

text \<open>With no record at all the loop of the trace reader goes round for ever.\<close>

lemma read_records_empty: "cp_trace (E :: 'w core_ports) = [] \<Longrightarrow> read_records E nS = None"
proof (rule ccontr)
  assume E: "cp_trace E = []" and "read_records E nS \<noteq> None"
  then obtain r where r: "read_records E nS = Some r" by blast
  have "cp_trace E \<noteq> []"
  proof (rule read_records.raw_induct [where P = "\<lambda>E nS r. cp_trace E \<noteq> []", OF _ r])
    fix f and E :: "'w core_ports" and nS :: "nat \<times> o3_cpu" and r
    assume "\<And>E nS r. f E nS = Some r \<Longrightarrow> cp_trace (E :: 'w core_ports) \<noteq> []"
      and "(case read_record E nS of Inl fault \<Rightarrow> Some (Inl fault)
         | Inr (continue_reading, nS) \<Rightarrow> if continue_reading then f E nS else Some (Inr (snd nS))) = Some r"
    then show "cp_trace E \<noteq> []" by (cases nS) (auto simp: read_rewinds)
  qed
  with E show False by simp
qed

section \<open>Retirement\<close>

lemma release_stores_keeps:
  "ends UNIV (\<lambda>T. cpu_ROB T = cpu_ROB S \<and> skeleton T = skeleton S) (release_stores is S)"
proof (induction "is" arbitrary: S)
  case (Cons i "is")
  then show ?case by (auto simp: Let_def upd_sq_def intro!: ends_mono [OF Cons.IH])
qed simp

lemma release_head_skeleton:
  "skeleton S = ((sz, h, t, occ, nf), ids, ret, uid, pos) \<Longrightarrow>
     skeleton (release_head S) = ((sz, wrap_next sz h, t, occ - 1, nf), ids[h := (0, 0)], ret + 1, uid, pos)"
  by (auto simp: release_head_def Let_def skeleton_def upd_rob_def map_update ident_def ooo_instr_init_def)

lemma release_head_keeps: "0 < k \<Longrightarrow> rb_head (cpu_ROB S) < rb_SIZE (cpu_ROB S) \<Longrightarrow> k < rb_SIZE (cpu_ROB S) \<Longrightarrow>
    rb_entry (cpu_ROB (release_head S)) ! ((rb_head (cpu_ROB S) + k) mod rb_SIZE (cpu_ROB S)) =
    rb_entry (cpu_ROB S) ! ((rb_head (cpu_ROB S) + k) mod rb_SIZE (cpu_ROB S))"
  using ring_inj [of "rb_head (cpu_ROB S)" "rb_SIZE (cpu_ROB S)" k 0]
  by (simp add: release_head_def Let_def upd_rob_def)

text \<open>The \<open>k\<close>-th oldest instruction.\<close>

definition nth_oldest :: "o3_cpu \<Rightarrow> nat \<Rightarrow> ooo_instr" where
  "nth_oldest S k = rb_entry (cpu_ROB S) ! ((rb_head (cpu_ROB S) + k) mod rb_SIZE (cpu_ROB S))"

lemma retire_one_in_order:
  assumes ok: "in_order E n S"
  shows "ends UNIV (\<lambda>(c, T, w'). if c
      then in_order E (Suc n) T \<and> oi_executed (nth_oldest S 0) = COMPLETED \<and> Suc (rb_occupancy (cpu_ROB T)) = rb_occupancy (cpu_ROB S) \<and>
        rb_SIZE (cpu_ROB T) = rb_SIZE (cpu_ROB S) \<and> (\<forall>k. Suc k < rb_SIZE (cpu_ROB S) \<longrightarrow> nth_oldest T k = nth_oldest S (Suc k))
      else T = S) (retire_one E (S, w))"
proof -
  obtain sz h t occ nf ids ret uid pos where sk: "skeleton S = ((sz, h, t, occ, nf), ids, ret, uid, pos)"
    by (metis prod.exhaust)
  then have f: "rb_SIZE (cpu_ROB S) = sz" "rb_occupancy (cpu_ROB S) = occ" "rb_head (cpu_ROB S) = h"
    "map ident (rb_entry (cpu_ROB S)) = ids"
    by (simp_all add: skeleton_def)
  have ord: "order_ok E n ((sz, h, t, occ, nf), ids, ret, uid, pos)" using ok by (simp add: in_order_def sk)
  then have h: "h < sz" "length ids = sz" by simp_all
  have head0: "ids ! h = (if 0 < occ then instr_no E n else (0, 0))"
    using ord h(1) unfolding order_ok.simps by (auto dest: spec [where x = 0])
  let ?e = "rob_at S h"
  show ?thesis
  proof (cases "in_rob S h \<and> oi_ip ?e \<noteq> 0 \<and> oi_executed ?e = COMPLETED")
    case False
    then show ?thesis by (auto simp: retire_one_def Let_def f)
  next
    case True
    have "ident ?e = ids ! h" using h f(4) by (auto simp: rob_at_def)
    then have occ: "0 < occ" using head0 True by (auto simp: ident_def split: if_splits)
    have pop: "in_order E (Suc n) (release_head T) \<and> Suc (rb_occupancy (cpu_ROB (release_head T))) = occ \<and>
        rb_SIZE (cpu_ROB (release_head T)) = sz \<and> (\<forall>k. Suc k < sz \<longrightarrow> nth_oldest (release_head T) k = nth_oldest S (Suc k))"
      if T: "cpu_ROB T = cpu_ROB S" "skeleton T = skeleton S" for T
    proof -
      note skT = release_head_skeleton [OF T(2) [unfolded sk]]
      have 1: "in_order E (Suc n) (release_head T)"
        unfolding in_order_def skT by (rule order_pop [OF ord occ])
      have 2: "Suc (rb_occupancy (cpu_ROB (release_head T))) = occ" "rb_SIZE (cpu_ROB (release_head T)) = sz"
        "rb_head (cpu_ROB (release_head T)) = wrap_next sz h"
        using skT occ by (simp_all add: skeleton_def)
      have "nth_oldest (release_head T) k = nth_oldest S (Suc k)" if k: "Suc k < sz" for k
        using release_head_keeps [of "Suc k" T] ring_shift [OF h(1), of k] k h(1)
        unfolding nth_oldest_def 2 T(1) f by simp
      then show ?thesis using 1 2 by blast
    qed
    show ?thesis
    proof (cases "length (stores_of E ?e) \<noteq> 0 \<and> \<not> l1d_wq_occupancy E w + length (stores_of E ?e) \<le> l1d_wq_SIZE E w")
      case True
      then show ?thesis using \<open>in_rob S h \<and> _\<close> by (simp add: retire_one_def Let_def f)
    next
      case room: False
      have eq: "retire_one E (S, w) = bind_res (write_stores E (stores_of E ?e) (S, w)) (\<lambda>w.
        bind_res (release_stores [0..<MAX_INSTR_DESTINATIONS E] S) (\<lambda>S. Inr (True, release_head S, w)))"
        using True room by (auto simp: retire_one_def Let_def f)
      have old: "nth_oldest S 0 = ?e" using h by (simp add: nth_oldest_def rob_at_def f)
      have main: "ends UNIV (\<lambda>(c, T, w'). if c
          then in_order E (Suc n) T \<and> Suc (rb_occupancy (cpu_ROB T)) = occ \<and>
            rb_SIZE (cpu_ROB T) = sz \<and> (\<forall>k. Suc k < sz \<longrightarrow> nth_oldest T k = nth_oldest S (Suc k))
          else T = S) (bind_res (write_stores E (stores_of E ?e) (S, w)) (\<lambda>w.
        bind_res (release_stores [0..<MAX_INSTR_DESTINATIONS E] S) (\<lambda>S. Inr (True, release_head S, w))))"
        by (rule ends_bind [where P = "\<lambda>_. True"], simp add: ends_def split: sum.split)
           (rule ends_bind [OF release_stores_keeps]; use pop in simp)
      show ?thesis unfolding eq by (rule ends_mono [OF main]) (use True f old in auto)
    qed
  qed
qed

lemma retire_loop_in_order:
  "in_order E n S \<Longrightarrow> ends UNIV (\<lambda>(T, w'). \<exists>k\<le>m. in_order E (n + k) T \<and> rb_occupancy (cpu_ROB T) + k = rb_occupancy (cpu_ROB S) \<and>
      rb_SIZE (cpu_ROB T) = rb_SIZE (cpu_ROB S) \<and> (\<forall>i<k. oi_executed (nth_oldest S i) = COMPLETED)) (retire_loop E m (S, w))"
proof (induction m arbitrary: n S w)
  case 0
  then show ?case by simp
next
  case (Suc m)
  have occ: "rb_occupancy (cpu_ROB S) \<le> rb_SIZE (cpu_ROB S)" using Suc.prems by (simp add: in_order_def skeleton_def)
  show ?case
    unfolding retire_loop.simps
  proof (rule ends_bind [OF retire_one_in_order [OF Suc.prems]], clarify)
    fix c T w'
    assume c: "if c then in_order E (Suc n) T \<and> oi_executed (nth_oldest S 0) = COMPLETED \<and>
        Suc (rb_occupancy (cpu_ROB T)) = rb_occupancy (cpu_ROB S) \<and>
        rb_SIZE (cpu_ROB T) = rb_SIZE (cpu_ROB S) \<and> (\<forall>k. Suc k < rb_SIZE (cpu_ROB S) \<longrightarrow> nth_oldest T k = nth_oldest S (Suc k))
      else T = S"
    show "ends UNIV (\<lambda>(T, w'). \<exists>k\<le>Suc m. in_order E (n + k) T \<and> rb_occupancy (cpu_ROB T) + k = rb_occupancy (cpu_ROB S) \<and>
      rb_SIZE (cpu_ROB T) = rb_SIZE (cpu_ROB S) \<and> (\<forall>i<k. oi_executed (nth_oldest S i) = COMPLETED))
      (if c then retire_loop E m (T, w') else Inr (T, w'))"
    proof (cases c)
      case False
      then show ?thesis using c Suc.prems by (auto intro!: exI [where x = 0])
    next
      case True
      with c have T: "in_order E (Suc n) T" "oi_executed (nth_oldest S 0) = COMPLETED"
        "Suc (rb_occupancy (cpu_ROB T)) = rb_occupancy (cpu_ROB S)" "rb_SIZE (cpu_ROB T) = rb_SIZE (cpu_ROB S)"
        "\<And>k. Suc k < rb_SIZE (cpu_ROB S) \<Longrightarrow> nth_oldest T k = nth_oldest S (Suc k)" by auto
      have "ends UNIV (\<lambda>(U, w'). \<exists>k\<le>Suc m. in_order E (n + k) U \<and> rb_occupancy (cpu_ROB U) + k = rb_occupancy (cpu_ROB S) \<and>
        rb_SIZE (cpu_ROB U) = rb_SIZE (cpu_ROB S) \<and> (\<forall>i<k. oi_executed (nth_oldest S i) = COMPLETED)) (retire_loop E m (T, w'))"
      proof (rule ends_mono [OF Suc.IH [OF T(1)]], clarify)
        fix U k assume k: "k \<le> m" "in_order E (Suc n + k) U" "rb_occupancy (cpu_ROB U) + k = rb_occupancy (cpu_ROB T)"
          "rb_SIZE (cpu_ROB U) = rb_SIZE (cpu_ROB T)" "\<forall>i<k. oi_executed (nth_oldest T i) = COMPLETED"
        have "oi_executed (nth_oldest S i) = COMPLETED" if "i < Suc k" for i
        proof (cases i)
          case (Suc j)
          then have "Suc j < rb_SIZE (cpu_ROB S)" "j < k" using that k(3) T(3) occ by auto
          then show ?thesis using T(5) [of j, symmetric] k(5) Suc by simp
        qed (simp add: T(2))
        then show "\<exists>k\<le>Suc m. in_order E (n + k) U \<and> rb_occupancy (cpu_ROB U) + k = rb_occupancy (cpu_ROB S) \<and>
          rb_SIZE (cpu_ROB U) = rb_SIZE (cpu_ROB S) \<and> (\<forall>i<k. oi_executed (nth_oldest S i) = COMPLETED)"
          using k T(3, 4) by (intro exI [where x = "Suc k"]) simp
      qed simp
      then show ?thesis using True by simp
    qed
  qed
qed

section \<open>Cycles\<close>

lemma in_order_now: "in_order (E\<lparr>cp_now := t\<rparr>) n S = in_order E n S"
  unfolding in_order_def by (cases "skeleton S") (auto simp: instr_no_def split: prod.splits)

lemma in_order_keeps: "in_order E n S \<Longrightarrow> keeps (skeleton S) c m \<Longrightarrow> ends UNIV (\<lambda>x. in_order E n (c x) \<and> skeleton (c x) = skeleton S) m"
  unfolding keeps_def in_order_def by (erule ends_mono) simp_all

lemma back_end_in_order:
  assumes "in_order E n S"
  shows "ends UNIV (\<lambda>(T, w'). \<exists>k\<le>RETIRE_WIDTH. in_order E (n + k) T \<and> rb_occupancy (cpu_ROB T) + k = rb_occupancy (cpu_ROB S))
    (bind_res (fetch_instruction E (S, w)) (\<lambda>(S, w).
     bind_res (let e = rob_at S (rb_next_schedule (cpu_ROB S)) in
               if oi_scheduled e = 0 \<and> oi_event_cycle e \<le> cp_now E then schedule_instruction E S else Inr S) (\<lambda>S.
     bind_res (execute_instruction E S) (\<lambda>S.
     bind_res (schedule_memory_instruction E S) (\<lambda>S.
     bind_res (execute_memory_instruction E (S, w)) (\<lambda>Sw.
     bind_res (update_rob E Sw) (\<lambda>(S, w).
       let e = rob_at S (rb_head (cpu_ROB S)) in
       if oi_executed e = COMPLETED \<and> oi_event_cycle e \<le> cp_now E then retire_rob E (S, w) else Inr (S, w))))))))"
proof -
  let ?Q = "\<lambda>(T, w'). \<exists>k\<le>RETIRE_WIDTH. in_order E (n + k) T \<and> rb_occupancy (cpu_ROB T) + k = rb_occupancy (cpu_ROB S)"
  have last: "ends UNIV ?Q (let e = rob_at T (rb_head (cpu_ROB T)) in
       if oi_executed e = COMPLETED \<and> oi_event_cycle e \<le> cp_now E then retire_rob E (T, w) else Inr (T, w))"
    if T: "skeleton T = skeleton S" for T w
  proof -
    have ok: "in_order E n T" using T assms by (simp add: in_order_def)
    have occ: "rb_occupancy (cpu_ROB T) = rb_occupancy (cpu_ROB S)" using T by (simp add: skeleton_def)
    have "ends UNIV ?Q (retire_rob E (T, w))"
      unfolding retire_rob_def by (rule ends_mono [OF retire_loop_in_order [OF ok]]) (use occ in auto)
    then show ?thesis using ok occ by (auto simp: Let_def intro!: exI [where x = 0])
  qed
  show ?thesis
    by (rule ends_bind [OF keeps_fetch_instruction [of "(S, w)" "skeleton S" E, unfolded keeps_def]], simp, clarify,
        rule ends_bind [where P = "\<lambda>T. skeleton T = skeleton S"],
        use keeps_schedule_instruction [of _ "skeleton S" E] in \<open>force simp: Let_def keeps_def\<close>,
        rule ends_bind [OF keeps_execute_instruction [of _ "skeleton S" E, unfolded keeps_def]], simp,
        rule ends_bind [OF keeps_schedule_memory [of _ "skeleton S" E, unfolded keeps_def]], simp,
        rule ends_bind [OF keeps_execute_memory [of _ "skeleton S" E, unfolded keeps_def]], simp,
        rule ends_bind [OF keeps_update_rob [of _ "skeleton S" E, unfolded keeps_def]], simp, clarify, rule last, simp)
qed

lemma cycle_in_order:
  assumes ok: "in_order E n S" and run: "core_cycle E (S, w) = Some (Inr (S', w'))"
  shows "\<exists>k\<le>RETIRE_WIDTH. in_order E (n + k) S' \<and> rb_occupancy (cpu_ROB S) \<le> rb_occupancy (cpu_ROB S') + k \<and>
    rb_occupancy (cpu_ROB S') + k \<le> rb_occupancy (cpu_ROB S) + FETCH_WIDTH"
proof -
  let ?read = "if rb_occupancy (cpu_ROB S) < rb_SIZE (cpu_ROB S) \<and> \<not> cpu_fetch_stall S then handle_branch E S else Some (Inr S)"
  obtain m where m: "?read = Some m" using run by (auto simp: core_cycle_def Let_def split: option.splits)
  have "ends UNIV (\<lambda>T. in_order E n T \<and> rb_occupancy (cpu_ROB S) \<le> rb_occupancy (cpu_ROB T) \<and>
      rb_occupancy (cpu_ROB T) \<le> rb_occupancy (cpu_ROB S) + FETCH_WIDTH) m"
  proof (cases "rb_occupancy (cpu_ROB S) < rb_SIZE (cpu_ROB S) \<and> \<not> cpu_fetch_stall S")
    case True
    then have h: "handle_branch E S = Some m" using m by simp
    then have "cp_trace E \<noteq> []" unfolding handle_branch_def by (auto simp: read_records_empty)
    from handle_branch_ends [OF this ok] True h show ?thesis
      by (auto elim!: ends_mono)
  next
    case False
    then show ?thesis using m ok by auto
  qed
  moreover obtain T where T: "m = Inr T"
    using run m by (cases m) (auto simp: core_cycle_def Let_def split: option.splits)
  ultimately have "in_order E n T" and occ: "rb_occupancy (cpu_ROB S) \<le> rb_occupancy (cpu_ROB T)"
      "rb_occupancy (cpu_ROB T) \<le> rb_occupancy (cpu_ROB S) + FETCH_WIDTH" by simp_all
  from back_end_in_order [OF this(1), of w] show ?thesis
    using run occ unfolding core_cycle_def Let_def prod.case m T option.case bind_res_simps by auto
qed

text \<open>The states of a core between cycles, whatever the caches do in between.\<close>

inductive core_reachable :: "'w core_ports \<Rightarrow> o3_cpu \<Rightarrow> bool" for E :: "'w core_ports" where
  start: "0 < rob \<Longrightarrow> core_reachable E (O3_CPU_init rob lq sq raw)"
| cycle: "core_reachable E S \<Longrightarrow> core_cycle (E\<lparr>cp_now := t\<rparr>) (S, w) = Some (Inr (S', w')) \<Longrightarrow> core_reachable E S'"

lemma reachable_in_order: "core_reachable E S \<Longrightarrow> \<exists>n. in_order E n S"
proof (induction rule: core_reachable.induct)
  case (start rob lq sq raw)
  then show ?case using order_init by blast
next
  case (cycle S t w S' w')
  then show ?case using cycle_in_order [of "E\<lparr>cp_now := t\<rparr>"] unfolding in_order_now by blast
qed

end
