(* ===== verification/CoreDeps.thy ===== *)
theory CoreDeps
  imports CoreProgram
begin

text \<open>
  Register dependencies: what scheduling an instruction records in the reorder buffer, and what the completion
  of a producer releases.
\<close>

section \<open>Access by index\<close>

lemma rob_at_upd_rob: "rob_at (upd_rob i f S) k = (if k = i \<and> in_rob S i then f (rob_at S i) else rob_at S k)"
  by (auto simp: rob_at_def upd_rob_def in_rob_def nth_list_update list_update_beyond)

lemma in_rob_upd [simp]: "in_rob (upd_rob i f S) k = in_rob S k"
  by (simp add: in_rob_def upd_rob_def)

lemma rob_at_others [simp]:
  "rob_at (S\<lparr>cpu_RTE0 := r\<rparr>) i = rob_at S i" "rob_at (S\<lparr>cpu_RTE1 := r\<rparr>) i = rob_at S i"
  "rob_at (S\<lparr>cpu_num_searched := n\<rparr>) i = rob_at S i"
  "rob_at (S\<lparr>cpu_ROB := (cpu_ROB S)\<lparr>rb_next_schedule := n\<rparr>\<rparr>) i = rob_at S i"
  by (simp_all add: rob_at_def)

lemma in_rob_others [simp]:
  "in_rob (S\<lparr>cpu_RTE0 := r\<rparr>) i = in_rob S i" "in_rob (S\<lparr>cpu_RTE1 := r\<rparr>) i = in_rob S i"
  "in_rob (S\<lparr>cpu_num_searched := n\<rparr>) i = in_rob S i"
  "in_rob (S\<lparr>cpu_ROB := (cpu_ROB S)\<lparr>rb_next_schedule := n\<rparr>\<rparr>) i = in_rob S i"
  by (simp_all add: in_rob_def)

section \<open>The entries before an instruction\<close>

lemma length_upd_rob [simp]: "length (rb_entry (cpu_ROB (upd_rob i f S))) = length (rb_entry (cpu_ROB S))"
  by (simp add: upd_rob_def)

lemma priors_older: "rb_head r < rb_SIZE r \<Longrightarrow> cur \<notin> set (priors r cur)"
  by (auto simp: priors_def Let_def)

lemma priors_in: "rb_head r < rb_SIZE r \<Longrightarrow> cur < rb_SIZE r \<Longrightarrow> i \<in> set (priors r cur) \<Longrightarrow> i < rb_SIZE r"
  by (auto simp: priors_def Let_def split: if_splits)

lemma distinct_priors: "cur < rb_SIZE r \<Longrightarrow> distinct (priors r cur)"
  by (auto simp: priors_def Let_def)

section \<open>Recording dependencies\<close>

text \<open>The sets of dependents of every entry are sets of \<^verbatim>\<open>set.h\<close>, one per source.\<close>

definition deps_wf :: "o3_cpu \<Rightarrow> bool" where
  "deps_wf S \<longleftrightarrow> (\<forall>e\<in>set (rb_entry (cpu_ROB S)).
     fs_wf (oi_registers_instrs_depend_on_me e) \<and> length (oi_registers_index_depend_on_me e) = NUM_INSTR_SOURCES \<and>
     length (oi_reg_RAW_checked e) = NUM_INSTR_SOURCES \<and> (\<forall>s\<in>set (oi_registers_index_depend_on_me e). fs_wf s))"

definition depends_on :: "o3_cpu \<Rightarrow> nat \<Rightarrow> nat \<Rightarrow> nat \<Rightarrow> bool" where
  "depends_on S cur i j \<longleftrightarrow> of_nat cur \<in> fs_set (oi_registers_index_depend_on_me (rob_at S i) ! j)"

definition dependent :: "o3_cpu \<Rightarrow> nat \<Rightarrow> nat \<Rightarrow> bool" where
  "dependent S cur i \<longleftrightarrow> of_nat cur \<in> fs_set (oi_registers_instrs_depend_on_me (rob_at S i))"

text \<open>
  \<open>T\<close> is \<open>S\<close> with the edges \<open>A\<close> from producers to the sources of \<open>cur\<close>, and nothing else that concerns
  dependencies has changed.
\<close>

definition linked :: "nat \<Rightarrow> o3_cpu \<Rightarrow> (nat \<times> nat) set \<Rightarrow> o3_cpu \<Rightarrow> bool" where
  "linked cur S A T \<longleftrightarrow> deps_wf T \<and> length (rb_entry (cpu_ROB T)) = length (rb_entry (cpu_ROB S)) \<and>
     (\<forall>j<NUM_INSTR_SOURCES. oi_reg_RAW_checked (rob_at T cur) ! j \<longleftrightarrow> oi_reg_RAW_checked (rob_at S cur) ! j \<or> j \<in> snd ` A) \<and>
     oi_num_reg_dependent (rob_at T cur) = oi_num_reg_dependent (rob_at S cur) + int (card A) \<and>
     (oi_reg_ready (rob_at T cur) \<longleftrightarrow> oi_reg_ready (rob_at S cur) \<and> A = {}) \<and>
     (\<forall>i. i \<noteq> cur \<longrightarrow> in_rob S i \<longrightarrow>
        (\<forall>j<NUM_INSTR_SOURCES. depends_on T cur i j \<longleftrightarrow> depends_on S cur i j \<or> (i, j) \<in> A) \<and>
        (dependent T cur i \<longleftrightarrow> dependent S cur i \<or> i \<in> fst ` A) \<and>
        (oi_reg_RAW_producer (rob_at T i) \<longleftrightarrow> oi_reg_RAW_producer (rob_at S i) \<or> i \<in> fst ` A)) \<and>
     (\<forall>i. oi_executed (rob_at T i) = oi_executed (rob_at S i) \<and>
        oi_source_registers (rob_at T i) = oi_source_registers (rob_at S i) \<and>
        oi_destination_registers (rob_at T i) = oi_destination_registers (rob_at S i) \<and>
        oi_scheduled (rob_at T i) = oi_scheduled (rob_at S i))"

lemma linked_refl: "deps_wf S \<Longrightarrow> linked cur S {} S"
  by (simp add: linked_def)

lemma deps_wf_at: "deps_wf S \<Longrightarrow> in_rob S i \<Longrightarrow> fs_wf (oi_registers_instrs_depend_on_me (rob_at S i)) \<and>
    length (oi_registers_index_depend_on_me (rob_at S i)) = NUM_INSTR_SOURCES \<and> length (oi_reg_RAW_checked (rob_at S i)) = NUM_INSTR_SOURCES \<and>
    (\<forall>s\<in>set (oi_registers_index_depend_on_me (rob_at S i)). fs_wf s)"
  unfolding deps_wf_def in_rob_def rob_at_def using nth_mem by blast

lemma deps_wf_upd: "deps_wf S \<Longrightarrow> (in_rob S i \<Longrightarrow> fs_wf (oi_registers_instrs_depend_on_me (f (rob_at S i))) \<and>
    length (oi_registers_index_depend_on_me (f (rob_at S i))) = NUM_INSTR_SOURCES \<and> length (oi_reg_RAW_checked (f (rob_at S i))) = NUM_INSTR_SOURCES \<and>
    (\<forall>s\<in>set (oi_registers_index_depend_on_me (f (rob_at S i))). fs_wf s)) \<Longrightarrow> deps_wf (upd_rob i f S)"
  unfolding deps_wf_def in_rob_def upd_rob_def
  by (cases "i < length (rb_entry (cpu_ROB S))") (auto simp: list_update_beyond dest!: set_update_subset_insert [THEN subsetD])

lemma writes_register_linked: "linked cur S A T \<Longrightarrow> writes_register E (rob_at T i) r = writes_register E (rob_at S i) r"
  by (simp add: linked_def writes_register_def)

lemma reg_RAW_dependency_linked:
  assumes T: "linked cur S A T" and i: "in_rob S i" "i \<noteq> cur" "in_rob S cur" and j: "j < NUM_INSTR_SOURCES" and cur: "cur < MAX_SIZE"
    and new: "(i, j) \<notin> A" and fin: "finite A"
  shows "ends {} (linked cur S (if writes_register E (rob_at S i) (oi_source_registers (rob_at S cur) ! j) then insert (i, j) A else A))
    (reg_RAW_dependency E i cur j T)"
proof -
  have wf: "deps_wf T" and src: "oi_source_registers (rob_at T cur) = oi_source_registers (rob_at S cur)"
    and len: "length (rb_entry (cpu_ROB T)) = length (rb_entry (cpu_ROB S))"
    using T by (simp_all add: linked_def)
  have iT: "in_rob T i" "in_rob T cur" using i len by (simp_all add: in_rob_def)
  note wfi = deps_wf_at [OF wf iT(1)] and wfc = deps_wf_at [OF wf iT(2)]
  have small: "(of_nat cur :: u16) < 2048"
    using cur by (simp add: MAX_SIZE_def word_less_nat_alt unat_of_nat)
  obtain deps where deps: "fastset_insert (of_nat cur) (oi_registers_instrs_depend_on_me (rob_at T i)) = Inr deps" "fs_wf deps"
    "fs_set deps = insert (of_nat cur) (fs_set (oi_registers_instrs_depend_on_me (rob_at T i)))"
    using insert_spec [OF conjunct1 [OF wfi] small] by blast
  have "fs_wf (oi_registers_index_depend_on_me (rob_at T i) ! j)" using wfi j by simp
  from insert_spec [OF this small] obtain ideps where ideps:
    "fastset_insert (of_nat cur) (oi_registers_index_depend_on_me (rob_at T i) ! j) = Inr ideps" "fs_wf ideps"
    "fs_set ideps = insert (of_nat cur) (fs_set (oi_registers_index_depend_on_me (rob_at T i) ! j))"
    by blast
  show ?thesis
  proof (cases "writes_register E (rob_at S i) (oi_source_registers (rob_at S cur) ! j)")
    case False
    then show ?thesis using T by (simp add: reg_RAW_dependency_def src writes_register_linked [OF T])
  next
    case True
    let ?p = "\<lambda>p. p\<lparr>oi_reg_RAW_producer := True, oi_registers_instrs_depend_on_me := deps,
                    oi_registers_index_depend_on_me := (oi_registers_index_depend_on_me p)[j := ideps]\<rparr>"
    let ?c = "\<lambda>c. c\<lparr>oi_producer_id := oi_instr_id (rob_at T i), oi_reg_ready := False,
                    oi_reg_RAW_checked := (oi_reg_RAW_checked c)[j := True],
                    oi_num_reg_dependent := oi_num_reg_dependent c + 1\<rparr>"
    let ?T = "upd_rob cur ?c (upd_rob i ?p T)"
    have step: "reg_RAW_dependency E i cur j T = Inr ?T"
      using True by (simp add: reg_RAW_dependency_def src writes_register_linked [OF T] deps(1) ideps(1) Let_def)
    have wf1: "deps_wf (upd_rob i ?p T)"
      by (rule deps_wf_upd [OF wf]) (use wfi deps(2) ideps(2) set_update_subset_insert in fastforce)
    have wfT: "deps_wf ?T"
      by (rule deps_wf_upd [OF wf1]) (use i(2) wfc in \<open>simp add: rob_at_upd_rob\<close>)
    have at: "rob_at ?T k = (if k = cur then ?c (rob_at T cur) else if k = i then ?p (rob_at T i) else rob_at T k)" for k
      using i(2) iT by (simp add: rob_at_upd_rob)
    have card: "card (insert (i, j) A) = Suc (card A)" using new fin by simp
    have "linked cur S (insert (i, j) A) ?T"
      unfolding linked_def
    proof (intro conjI wfT allI impI)
      fix k assume "k < NUM_INSTR_SOURCES"
      then show "oi_reg_RAW_checked (rob_at ?T cur) ! k \<longleftrightarrow> oi_reg_RAW_checked (rob_at S cur) ! k \<or> k \<in> snd ` insert (i, j) A"
        using T wfc j unfolding at linked_def by (auto simp: nth_list_update)
    next
      fix k k' assume k: "k \<noteq> cur" "in_rob S k" "k' < NUM_INSTR_SOURCES"
      show "depends_on ?T cur k k' \<longleftrightarrow> depends_on S cur k k' \<or> (k, k') \<in> insert (i, j) A"
        using T k wfi j unfolding at depends_on_def linked_def by (auto simp: nth_list_update ideps(3))
    next
      fix k assume k: "k \<noteq> cur" "in_rob S k"
      show "dependent ?T cur k \<longleftrightarrow> dependent S cur k \<or> k \<in> fst ` insert (i, j) A"
        using T k unfolding at dependent_def linked_def by (auto simp: deps(3))
      show "oi_reg_RAW_producer (rob_at ?T k) \<longleftrightarrow> oi_reg_RAW_producer (rob_at S k) \<or> k \<in> fst ` insert (i, j) A"
        using T k unfolding at linked_def by auto
    qed (use T card in \<open>simp_all add: at linked_def\<close>)
    then show ?thesis using True step by simp
  qed
qed

text \<open>The youngest older instruction that is not completed and writes the register of a source that waits for nothing yet.\<close>

definition producer :: "'w core_ports \<Rightarrow> o3_cpu \<Rightarrow> nat \<Rightarrow> nat list \<Rightarrow> nat \<Rightarrow> nat option" where
  "producer E S cur ps j =
     (if oi_source_registers (rob_at S cur) ! j \<noteq> 0 \<and> \<not> oi_reg_RAW_checked (rob_at S cur) ! j
      then find (\<lambda>i. oi_executed (rob_at S i) \<noteq> COMPLETED \<and> writes_register E (rob_at S i) (oi_source_registers (rob_at S cur) ! j)) ps
      else None)"

definition edges :: "'w core_ports \<Rightarrow> o3_cpu \<Rightarrow> nat \<Rightarrow> nat list \<Rightarrow> (nat \<times> nat) set" where
  "edges E S cur ps = {(i, j). j < NUM_INSTR_SOURCES \<and> producer E S cur ps j = Some i}"

lemma find_snoc: "find P (xs @ [x]) = (case find P xs of None \<Rightarrow> if P x then Some x else None | Some y \<Rightarrow> Some y)"
  by (induction xs) auto

lemma finite_edges [simp]: "finite (edges E S cur ps)"
proof -
  have "edges E S cur ps \<subseteq> (\<lambda>j. (the (producer E S cur ps j), j)) ` {..<NUM_INSTR_SOURCES}"
    by (force simp: edges_def)
  then show ?thesis by (rule finite_subset) simp
qed

lemma edges_priors: "(i, j) \<in> edges E S cur ps \<Longrightarrow> i \<in> set ps"
  by (auto simp: edges_def producer_def find_Some_iff split: if_splits)

lemma edges_snoc:
  "edges E S cur (ps @ [i]) = edges E S cur ps \<union>
     (if oi_executed (rob_at S i) \<noteq> COMPLETED
      then {(i, j) |j. j < NUM_INSTR_SOURCES \<and> oi_source_registers (rob_at S cur) ! j \<noteq> 0 \<and> \<not> oi_reg_RAW_checked (rob_at S cur) ! j \<and>
              j \<notin> snd ` edges E S cur ps \<and> writes_register E (rob_at S i) (oi_source_registers (rob_at S cur) ! j)}
      else {})"
proof -
  have snoc: "producer E S cur (ps @ [i]) j = (case producer E S cur ps j of Some x \<Rightarrow> Some x
      | None \<Rightarrow> if oi_source_registers (rob_at S cur) ! j \<noteq> 0 \<and> \<not> oi_reg_RAW_checked (rob_at S cur) ! j \<and>
          oi_executed (rob_at S i) \<noteq> COMPLETED \<and> writes_register E (rob_at S i) (oi_source_registers (rob_at S cur) ! j) then Some i else None)" for j
    by (simp add: producer_def find_snoc split: option.split)
  have waiting: "j \<notin> snd ` edges E S cur ps \<longleftrightarrow> producer E S cur ps j = None" if "j < NUM_INSTR_SOURCES" for j
    using that by (auto simp: edges_def image_def)
  have mem: "(k, j) \<in> edges E S cur qs \<longleftrightarrow> j < NUM_INSTR_SOURCES \<and> producer E S cur qs j = Some k" for k j qs
    by (simp add: edges_def)
  show ?thesis
  proof (rule set_eqI, clarify)
    fix k j
    show "(k, j) \<in> edges E S cur (ps @ [i]) \<longleftrightarrow> (k, j) \<in> edges E S cur ps \<union>
       (if oi_executed (rob_at S i) \<noteq> COMPLETED
        then {(i, j) |j. j < NUM_INSTR_SOURCES \<and> oi_source_registers (rob_at S cur) ! j \<noteq> 0 \<and> \<not> oi_reg_RAW_checked (rob_at S cur) ! j \<and>
                j \<notin> snd ` edges E S cur ps \<and> writes_register E (rob_at S i) (oi_source_registers (rob_at S cur) ! j)}
        else {})"
      using waiting [of j] by (auto simp: mem snoc split: option.splits)
  qed
qed

lemma check_sources_linked:
  assumes "linked cur S A T" "in_rob S i" "i \<noteq> cur" "in_rob S cur" "cur < MAX_SIZE" "finite A"
    "distinct js" "\<forall>j\<in>set js. j < NUM_INSTR_SOURCES \<and> (i, j) \<notin> A"
  shows "ends {} (linked cur S (A \<union> {(i, j) |j. j \<in> set js \<and> oi_source_registers (rob_at S cur) ! j \<noteq> 0 \<and>
      \<not> oi_reg_RAW_checked (rob_at S cur) ! j \<and> j \<notin> snd ` A \<and> writes_register E (rob_at S i) (oi_source_registers (rob_at S cur) ! j)}))
    (check_sources E i cur js T)"
  using assms
proof (induction js arbitrary: A T)
  case Nil
  then show ?case by simp
next
  case (Cons j js)
  let ?src = "oi_source_registers (rob_at S cur)"
  let ?new = "\<lambda>A js. {(i, j) |j. j \<in> set js \<and> ?src ! j \<noteq> 0 \<and> \<not> oi_reg_RAW_checked (rob_at S cur) ! j \<and> j \<notin> snd ` A \<and>
      writes_register E (rob_at S i) (?src ! j)}"
  let ?go = "?src ! j \<noteq> 0 \<and> \<not> oi_reg_RAW_checked (rob_at S cur) ! j \<and> j \<notin> snd ` A"
  let ?A = "if ?go \<and> writes_register E (rob_at S i) (?src ! j) then insert (i, j) A else A"
  have j: "j < NUM_INSTR_SOURCES" "(i, j) \<notin> A" using Cons.prems(8) by simp_all
  have go: "(oi_source_registers (rob_at T cur) ! j \<noteq> 0 \<and> \<not> oi_reg_RAW_checked (rob_at T cur) ! j) = ?go"
    using Cons.prems(1) j(1) by (auto simp: linked_def)
  have step: "ends {} (linked cur S ?A)
      (if oi_source_registers (rob_at T cur) ! j \<noteq> 0 \<and> \<not> oi_reg_RAW_checked (rob_at T cur) ! j then reg_RAW_dependency E i cur j T else Inr T)"
    using reg_RAW_dependency_linked [OF Cons.prems(1-4) j(1) Cons.prems(5) j(2) Cons.prems(6), of E] Cons.prems(1)
    unfolding go by (cases ?go) auto
  have eq: "?A \<union> ?new ?A js = A \<union> ?new A (j # js)"
    using Cons.prems(7) by (auto simp: image_iff)
  show ?case
    unfolding check_sources.simps eq [symmetric]
  proof (rule ends_bind [OF step])
    fix U assume "linked cur S ?A U"
    then show "ends {} (linked cur S (?A \<union> ?new ?A js)) (check_sources E i cur js U)"
      using Cons.prems by (intro Cons.IH) auto
  qed
qed

lemma check_priors_linked:
  assumes "linked cur S (edges E S cur old) T" "in_rob S cur" "cur < MAX_SIZE" "\<forall>i\<in>set ps. in_rob S i \<and> i \<noteq> cur \<and> i \<notin> set old" "distinct ps"
  shows "ends {} (linked cur S (edges E S cur (old @ ps))) (check_priors E cur ps T)"
  using assms
proof (induction ps arbitrary: old T)
  case Nil
  then show ?case by simp
next
  case (Cons i ps)
  have ex: "oi_executed (rob_at T i) = oi_executed (rob_at S i)" using Cons.prems(1) by (simp add: linked_def)
  have out: "\<forall>j\<in>set [0..<NUM_INSTR_SOURCES]. j < NUM_INSTR_SOURCES \<and> (i, j) \<notin> edges E S cur old"
    using Cons.prems(4) edges_priors by fastforce
  have step: "ends {} (linked cur S (edges E S cur (old @ [i])))
      (if oi_executed (rob_at T i) \<noteq> COMPLETED then check_sources E i cur [0..<NUM_INSTR_SOURCES] T else Inr T)"
  proof (cases "oi_executed (rob_at S i) = COMPLETED")
    case True
    then show ?thesis using Cons.prems(1) by (simp add: ex edges_snoc)
  next
    case False
    then show ?thesis
      using check_sources_linked [OF Cons.prems(1) _ _ Cons.prems(2, 3) finite_edges distinct_upt out, of E] Cons.prems(4)
      by (simp add: ex edges_snoc)
  qed
  show ?case
    unfolding check_priors.simps
  proof (rule ends_bind [OF step])
    fix U assume "linked cur S (edges E S cur (old @ [i])) U"
    then show "ends {} (linked cur S (edges E S cur (old @ i # ps))) (check_priors E cur ps U)"
      using Cons.IH [of "old @ [i]" U] Cons.prems by auto
  qed
qed

lemma reg_dependency_linked:
  assumes "deps_wf S" "rb_head (cpu_ROB S) < rb_SIZE (cpu_ROB S)" "length (rb_entry (cpu_ROB S)) = rb_SIZE (cpu_ROB S)"
    "cur < rb_SIZE (cpu_ROB S)" "cur < MAX_SIZE"
  shows "\<exists>T. reg_dependency E cur S = Inr T \<and> linked cur S (edges E S cur (priors (cpu_ROB S) cur)) T"
proof -
  have none: "edges E S cur [] = {}" by (auto simp: edges_def producer_def)
  have "\<forall>i\<in>set (priors (cpu_ROB S) cur). in_rob S i \<and> i \<noteq> cur \<and> i \<notin> set []"
    using priors_in [OF assms(2, 4)] priors_older [OF assms(2)] assms(3) by (auto simp: in_rob_def)
  then have "ends {} (linked cur S (edges E S cur ([] @ priors (cpu_ROB S) cur))) (check_priors E cur (priors (cpu_ROB S) cur) S)"
    using linked_refl [OF assms(1)] assms distinct_priors [OF assms(4)]
    by (intro check_priors_linked) (simp_all add: none in_rob_def)
  then show ?thesis by (simp add: reg_dependency_def ends_total)
qed

section \<open>Releasing dependents\<close>

text \<open>The entry of a dependent after \<open>w\<close> of its sources have been released.\<close>

definition released :: "nat \<Rightarrow> ooo_instr \<Rightarrow> ooo_instr" where
  "released w e =
     (let wakes = 0 < w \<and> oi_num_reg_dependent e = int w in
      e\<lparr>oi_reg_ready := oi_reg_ready e \<or> wakes,
        oi_scheduled := (if wakes then if oi_is_memory e then INFLIGHT else COMPLETED else oi_scheduled e),
        oi_num_reg_dependent := oi_num_reg_dependent e - int w\<rparr>)"

primrec push_all :: "nat list \<Rightarrow> ready \<Rightarrow> ready res" where
  "push_all [] r = Inr r"
| "push_all (i # is) r = bind_res (ready_push_checked i r) (push_all is)"

definition woken :: "nat \<Rightarrow> ooo_instr \<Rightarrow> bool" where
  "woken w e \<longleftrightarrow> 0 < w \<and> oi_num_reg_dependent e = int w \<and> \<not> oi_is_memory e"

lemma released_0 [simp]: "released 0 e = e"
  by (simp add: released_def Let_def)

lemma released_Suc: "int (Suc w) \<le> oi_num_reg_dependent e \<Longrightarrow> released w (released 1 e) = released (Suc w) e"
  by (cases w) (auto simp: released_def Let_def)

lemma woken_Suc: "int (Suc w) \<le> oi_num_reg_dependent e \<Longrightarrow> woken w (released 1 e) \<or> w = 0 \<and> woken 1 e \<longleftrightarrow> woken (Suc w) e"
  by (auto simp: woken_def released_def Let_def)

lemma push_all_snoc: "push_all (is @ [i]) r = bind_res (push_all is r) (ready_push_checked i)"
  by (induction "is" arbitrary: r) (auto simp: bind_res_def split: sum.split)

lemma push_all_append: "push_all (is @ js) r = bind_res (push_all is r) (push_all js)"
  by (induction "is" arbitrary: r) (auto simp: bind_res_def split: sum.split)

lemma release_source_effect:
  assumes "in_rob S i"
  shows "ends UNIV (\<lambda>T. rob_at T i = released 1 (rob_at S i) \<and> (\<forall>k. k \<noteq> i \<longrightarrow> rob_at T k = rob_at S k) \<and>
     length (rb_entry (cpu_ROB T)) = length (rb_entry (cpu_ROB S)) \<and>
     push_all (if woken 1 (rob_at S i) then [i] else []) (cpu_RTE0 S) = Inr (cpu_RTE0 T)) (release_source i S)"
proof -
  have fields: "cpu_RTE0 (upd_rob i f S) = cpu_RTE0 S" for f S by (simp add: upd_rob_def)
  have [simp]: "oi_num_reg_dependent (rob_at S i) - 1 = 0 \<longleftrightarrow> oi_num_reg_dependent (rob_at S i) = 1" by arith
  show ?thesis
  proof (cases "ready_push_checked i (cpu_RTE0 S)")
    case (Inl f)
    then show ?thesis using assms
      by (simp add: release_source_def Let_def rob_at_upd_rob released_def woken_def fields)
  next
    case (Inr r)
    then show ?thesis using assms
      by (simp add: release_source_def Let_def rob_at_upd_rob released_def woken_def fields)
  qed
qed

text \<open>The number of sources of \<open>d\<close> that wait for \<open>i\<close>.\<close>

definition waits :: "o3_cpu \<Rightarrow> nat \<Rightarrow> nat \<Rightarrow> nat list \<Rightarrow> nat" where
  "waits S i d js = length (filter (depends_on S d i) js)"

lemma deps_wf_released:
  assumes wf: "deps_wf S" and len: "length (rb_entry (cpu_ROB T)) = length (rb_entry (cpu_ROB S))"
    and at: "\<And>k. rob_at T k = rob_at S k \<or> (\<exists>w. rob_at T k = released w (rob_at S k))"
  shows "deps_wf T"
  unfolding deps_wf_def
proof
  fix e assume "e \<in> set (rb_entry (cpu_ROB T))"
  then obtain k where k: "k < length (rb_entry (cpu_ROB S))" "e = rob_at T k" using len by (auto simp: in_set_conv_nth rob_at_def)
  then have "e = rob_at S k \<or> (\<exists>w. e = released w (rob_at S k))" using at [of k] by simp
  then show "fs_wf (oi_registers_instrs_depend_on_me e) \<and> length (oi_registers_index_depend_on_me e) = NUM_INSTR_SOURCES \<and>
    length (oi_reg_RAW_checked e) = NUM_INSTR_SOURCES \<and> (\<forall>s\<in>set (oi_registers_index_depend_on_me e). fs_wf s)"
    using deps_wf_at [OF wf, of k] k by (auto simp: in_rob_def released_def Let_def)
qed

lemma release_sources_effect:
  assumes "deps_wf S" "in_rob S r" "in_rob S i" "i \<noteq> r" "i < MAX_SIZE" "set js \<subseteq> {..<NUM_INSTR_SOURCES}"
    "int (waits S r i js) \<le> oi_num_reg_dependent (rob_at S i)"
  shows "ends UNIV (\<lambda>T. rob_at T i = released (waits S r i js) (rob_at S i) \<and> (\<forall>k. k \<noteq> i \<longrightarrow> rob_at T k = rob_at S k) \<and>
     length (rb_entry (cpu_ROB T)) = length (rb_entry (cpu_ROB S)) \<and>
     push_all (if woken (waits S r i js) (rob_at S i) then [i] else []) (cpu_RTE0 S) = Inr (cpu_RTE0 T)) (release_sources r i js S)"
  using assms
proof (induction js arbitrary: S)
  case Nil
  then show ?case by (simp add: waits_def woken_def)
next
  case (Cons j js)
  have small: "(of_nat i :: u16) < 2048"
    using Cons.prems(5) by (simp add: MAX_SIZE_def word_less_nat_alt unat_of_nat)
  have "fs_wf (oi_registers_index_depend_on_me (rob_at S r) ! j)"
    using deps_wf_at [OF Cons.prems(1, 2)] Cons.prems(6) by simp
  then have search: "fastset_search (of_nat i) (oi_registers_index_depend_on_me (rob_at S r) ! j) = Inr (depends_on S i r j)"
    using search_spec [OF _ small] by (simp add: depends_on_def)
  show ?case
  proof (cases "depends_on S i r j")
    case False
    then have "waits S r i (j # js) = waits S r i js" by (simp add: waits_def)
    then show ?thesis using Cons.IH [of S] Cons.prems False by (simp add: search)
  next
    case True
    let ?w = "waits S r i js"
    have w: "waits S r i (j # js) = Suc ?w" using True by (simp add: waits_def)
    have num: "int (Suc ?w) \<le> oi_num_reg_dependent (rob_at S i)" using Cons.prems(7) w by simp
    show ?thesis
      unfolding release_sources.simps search bind_res_simps if_P [OF True] w
    proof (rule ends_bind [OF release_source_effect [OF Cons.prems(3)]], elim conjE)
      fix T
      assume T: "rob_at T i = released 1 (rob_at S i)" "\<forall>k. k \<noteq> i \<longrightarrow> rob_at T k = rob_at S k"
        "length (rb_entry (cpu_ROB T)) = length (rb_entry (cpu_ROB S))"
        "push_all (if woken 1 (rob_at S i) then [i] else []) (cpu_RTE0 S) = Inr (cpu_RTE0 T)"
      have "depends_on T i r = depends_on S i r" using T(2) Cons.prems(4) by (simp add: depends_on_def fun_eq_iff)
      then have same: "waits T r i js = ?w" by (simp add: waits_def)
      have inT: "in_rob T r" "in_rob T i" using T(3) Cons.prems(2, 3) by (simp_all add: in_rob_def)
      have wfT: "deps_wf T"
        using T(1, 2) by (intro deps_wf_released [OF Cons.prems(1) T(3)]) metis
      have numT: "int (waits T r i js) \<le> oi_num_reg_dependent (rob_at T i)"
        using num T(1) by (simp add: same released_def Let_def)
      have "push_all (if woken (Suc ?w) (rob_at S i) then [i] else []) (cpu_RTE0 S) = Inr R"
        if "push_all (if woken ?w (released 1 (rob_at S i)) then [i] else []) (cpu_RTE0 T) = Inr R" for R
        using woken_Suc [OF num] num that T(4) by (auto simp: woken_def released_def Let_def split: if_splits)
      then show "ends UNIV (\<lambda>U. rob_at U i = released (Suc ?w) (rob_at S i) \<and> (\<forall>k. k \<noteq> i \<longrightarrow> rob_at U k = rob_at S k) \<and>
          length (rb_entry (cpu_ROB U)) = length (rb_entry (cpu_ROB S)) \<and>
          push_all (if woken (Suc ?w) (rob_at S i) then [i] else []) (cpu_RTE0 S) = Inr (cpu_RTE0 U)) (release_sources r i js T)"
        using T(1-3) released_Suc [OF num]
        by (intro ends_mono [OF Cons.IH [OF wfT inT Cons.prems(4, 5) _ numT]]) (use Cons.prems(6) same in auto)
    qed
  qed
qed

text \<open>Every dependent, once: its count drops by the sources that wait, and it wakes up when none is left.\<close>

definition releases :: "o3_cpu \<Rightarrow> nat \<Rightarrow> nat set \<Rightarrow> nat list \<Rightarrow> o3_cpu \<Rightarrow> bool" where
  "releases S r D ws T \<longleftrightarrow>
     length (rb_entry (cpu_ROB T)) = length (rb_entry (cpu_ROB S)) \<and>
     (\<forall>d. rob_at T d = (if d \<in> D then released (waits S r d [0..<NUM_INSTR_SOURCES]) (rob_at S d) else rob_at S d)) \<and>
     push_all ws (cpu_RTE0 S) = Inr (cpu_RTE0 T)"

abbreviation wakes :: "o3_cpu \<Rightarrow> nat \<Rightarrow> nat \<Rightarrow> bool" where
  "wakes S r d \<equiv> woken (waits S r d [0..<NUM_INSTR_SOURCES]) (rob_at S d)"

lemma release_dependents_effect:
  assumes S: "deps_wf S" "in_rob S r" and T: "releases S r (unat ` set old) (filter (wakes S r) (map unat old)) T"
    and new: "distinct (old @ ds)" "\<forall>d\<in>set ds. unat d \<noteq> r \<and> unat d < MAX_SIZE \<and>
      int (waits S r (unat d) [0..<NUM_INSTR_SOURCES]) \<le> oi_num_reg_dependent (rob_at S (unat d))" "r \<notin> unat ` set old"
  shows "ends UNIV (releases S r (unat ` set (old @ ds)) (filter (wakes S r) (map unat (old @ ds)))) (release_dependents r ds T)"
  using T new
proof (induction ds arbitrary: old T)
  case Nil
  then show ?case by simp
next
  case (Cons d ds)
  let ?d = "unat d"
  have T: "length (rb_entry (cpu_ROB T)) = length (rb_entry (cpu_ROB S))"
    "\<And>k. rob_at T k = (if k \<in> unat ` set old then released (waits S r k [0..<NUM_INSTR_SOURCES]) (rob_at S k) else rob_at S k)"
    "push_all (filter (wakes S r) (map unat old)) (cpu_RTE0 S) = Inr (cpu_RTE0 T)"
    using Cons.prems(1) by (simp_all add: releases_def)
  have fresh: "?d \<notin> unat ` set old" using Cons.prems(2) by (auto dest!: unsigned_word_eqI)
  have at: "rob_at T ?d = rob_at S ?d" "rob_at T r = rob_at S r" using T(2) fresh Cons.prems(4) by simp_all
  have "depends_on T k r = depends_on S k r" for k using at(2) by (simp add: depends_on_def fun_eq_iff)
  then have w: "waits T r k js = waits S r k js" for k js by (simp add: waits_def)
  have wf: "deps_wf T" using T(2) by (intro deps_wf_released [OF S(1) T(1)]) (metis (full_types))
  show ?case
  proof (cases "in_rob T ?d")
    case False
    then show ?thesis by simp
  next
    case True
    have r: "in_rob T r" using S(2) T(1) by (simp add: in_rob_def)
    have prems: "?d \<noteq> r" "?d < MAX_SIZE" "set [0..<NUM_INSTR_SOURCES] \<subseteq> {..<NUM_INSTR_SOURCES}"
      "int (waits T r ?d [0..<NUM_INSTR_SOURCES]) \<le> oi_num_reg_dependent (rob_at T ?d)"
      using Cons.prems(3) by (auto simp: w at)
    have "ends UNIV (releases S r (unat ` set ((old @ [d]) @ ds)) (filter (wakes S r) (map unat ((old @ [d]) @ ds))))
      (bind_res (release_sources r ?d [0..<NUM_INSTR_SOURCES] T) (release_dependents r ds))"
    proof (rule ends_bind [OF release_sources_effect [OF wf r True prems]], elim conjE, unfold w at)
      fix U
      assume U: "rob_at U ?d = released (waits S r ?d [0..<NUM_INSTR_SOURCES]) (rob_at S ?d)" "\<forall>k. k \<noteq> ?d \<longrightarrow> rob_at U k = rob_at T k"
        "length (rb_entry (cpu_ROB U)) = length (rb_entry (cpu_ROB T))"
        "push_all (if wakes S r ?d then [?d] else []) (cpu_RTE0 T) = Inr (cpu_RTE0 U)"
      have "releases S r (unat ` set (old @ [d])) (filter (wakes S r) (map unat (old @ [d]))) U"
        unfolding releases_def
      proof (intro conjI allI)
        fix k
        show "rob_at U k = (if k \<in> unat ` set (old @ [d]) then released (waits S r k [0..<NUM_INSTR_SOURCES]) (rob_at S k) else rob_at S k)"
          using U(1, 2) T(2) [of k] by (cases "k = ?d") auto
      qed (use U(3, 4) T(1, 3) in \<open>simp_all add: push_all_append split: if_splits\<close>)
      then show "ends UNIV (releases S r (unat ` set ((old @ [d]) @ ds)) (filter (wakes S r) (map unat ((old @ [d]) @ ds)))) (release_dependents r ds U)"
        using Cons.prems prems(1) by (intro Cons.IH) auto
    qed
    then show ?thesis using True by simp
  qed
qed

lemma reg_RAW_release_effect:
  assumes "deps_wf S" "in_rob S r" "rb_SIZE (cpu_ROB S) \<le> MAX_SIZE" "\<not> dependent S r r"
    "\<forall>x\<in>fs_set (oi_registers_instrs_depend_on_me (rob_at S r)). unat x < rb_SIZE (cpu_ROB S)"
    "\<forall>d. dependent S d r \<longrightarrow> d < MAX_SIZE \<longrightarrow> int (waits S r d [0..<NUM_INSTR_SOURCES]) \<le> oi_num_reg_dependent (rob_at S d)"
  shows "ends UNIV (\<lambda>T. \<exists>ds. distinct ds \<and> set ds = {d. d < rb_SIZE (cpu_ROB S) \<and> dependent S d r} \<and>
     releases S r (set ds) (filter (wakes S r) ds) T) (reg_RAW_release r S)"
proof -
  let ?deps = "oi_registers_instrs_depend_on_me (rob_at S r)"
  have "fs_wf ?deps" using deps_wf_at [OF assms(1, 2)] by simp
  then obtain v where v: "fastset_expand (rb_SIZE (cpu_ROB S)) ?deps = Inr v" "sorted_wrt (<) v" "set v = fs_set ?deps"
    using expand_spec [of ?deps "rb_SIZE (cpu_ROB S)"] assms(3, 5) by (auto simp: MAX_SIZE_def)
  then have dist: "distinct v" by (simp add: strict_sorted_iff)
  have mem: "dependent S (unat x) r \<longleftrightarrow> x \<in> set v" for x
    using v(3) by (simp add: dependent_def)
  have range: "set (map unat v) = {d. d < rb_SIZE (cpu_ROB S) \<and> dependent S d r}"
  proof (intro set_eqI iffI)
    fix d assume "d \<in> set (map unat v)"
    then show "d \<in> {d. d < rb_SIZE (cpu_ROB S) \<and> dependent S d r}" using v(3) assms(5) mem by auto
  next
    fix d assume "d \<in> {d. d < rb_SIZE (cpu_ROB S) \<and> dependent S d r}"
    then have "d < 2048" "(of_nat d :: u16) \<in> set v" using assms(3) v(3) by (auto simp: dependent_def MAX_SIZE_def)
    then show "d \<in> set (map unat v)" by (auto simp: image_iff unat_of_nat_u16 intro!: bexI [of _ "of_nat d"])
  qed
  have ok: "\<forall>d\<in>set v. unat d \<noteq> r \<and> unat d < MAX_SIZE \<and>
      int (waits S r (unat d) [0..<NUM_INSTR_SOURCES]) \<le> oi_num_reg_dependent (rob_at S (unat d))"
  proof
    fix d assume "d \<in> set v"
    then have d: "unat d < rb_SIZE (cpu_ROB S)" "dependent S (unat d) r" using v(3) assms(5) mem by auto
    then have "unat d < MAX_SIZE" "unat d \<noteq> r" using assms(3, 4) by auto
    then show "unat d \<noteq> r \<and> unat d < MAX_SIZE \<and>
      int (waits S r (unat d) [0..<NUM_INSTR_SOURCES]) \<le> oi_num_reg_dependent (rob_at S (unat d))"
      using assms(6) d(2) by blast
  qed
  have start: "releases S r (unat ` set []) (filter (wakes S r) (map unat [])) S" by (simp add: releases_def)
  have "ends UNIV (releases S r (unat ` set ([] @ v)) (filter (wakes S r) (map unat ([] @ v)))) (release_dependents r v S)"
    by (rule release_dependents_effect [OF assms(1, 2) start]) (use dist ok in auto)
  then show ?thesis
    unfolding reg_RAW_release_def v(1) bind_res_simps
  proof (rule ends_mono)
    fix T assume T: "releases S r (unat ` set ([] @ v)) (filter (wakes S r) (map unat ([] @ v))) T"
    have "distinct (map unat v)" using dist by (auto simp: distinct_map inj_on_def dest!: unsigned_word_eqI)
    then show "\<exists>ds. distinct ds \<and> set ds = {d. d < rb_SIZE (cpu_ROB S) \<and> dependent S d r} \<and>
       releases S r (set ds) (filter (wakes S r) ds) T"
      using T range by (intro exI [of _ "map unat v"]) simp
  qed simp
qed

end
