(* ===== verification/CoreIssue.thy ===== *)
theory CoreIssue
  imports CoreDeps
begin

text \<open>
  What a cycle schedules, issues and forwards: the scan of the scheduler, the issue of ready instructions, and the
  store that a load waits for.
\<close>

section \<open>Scheduling\<close>

definition same_scheduled :: "nat set \<Rightarrow> o3_cpu \<Rightarrow> o3_cpu \<Rightarrow> bool" where
  "same_scheduled K S T \<longleftrightarrow> (\<forall>k\<in>K. oi_scheduled (rob_at T k) = oi_scheduled (rob_at S k))"

lemma same_scheduled_trans: "same_scheduled K S T \<Longrightarrow> same_scheduled K T U \<Longrightarrow> same_scheduled K S U"
  by (simp add: same_scheduled_def)

lemma same_scheduled_refl [simp]: "same_scheduled K S S"
  by (simp add: same_scheduled_def)

lemma reg_RAW_dependency_scheduled: "ends UNIV (same_scheduled K S) (reg_RAW_dependency E p c j S)"
  unfolding reg_RAW_dependency_def Let_def
  by (auto simp: same_scheduled_def rob_at_upd_rob intro!: ends_bind [where P = "\<lambda>_. True"] split: if_splits) (simp_all add: ends_def split: sum.split)

lemma scheduled_bind: "ends UNIV (same_scheduled K S) m \<Longrightarrow> (\<And>T. ends UNIV (same_scheduled K T) (f T)) \<Longrightarrow> ends UNIV (same_scheduled K S) (bind_res m f)"
  by (rule ends_bind, assumption) (blast intro: ends_mono same_scheduled_trans)

lemma check_sources_scheduled: "ends UNIV (same_scheduled K S) (check_sources E p c js S)"
  by (induction js arbitrary: S) (auto intro!: scheduled_bind reg_RAW_dependency_scheduled)

lemma check_priors_scheduled: "ends UNIV (same_scheduled K S) (check_priors E c is S)"
  by (induction "is" arbitrary: S) (auto intro!: scheduled_bind check_sources_scheduled)

lemma same_scheduled_upd: "i \<notin> K \<Longrightarrow> same_scheduled K S (upd_rob i f T) = same_scheduled K S T"
  by (auto simp: same_scheduled_def rob_at_upd_rob split: if_splits)

lemma same_scheduled_other: "same_scheduled K S (T\<lparr>cpu_RTE1 := r\<rparr>) = same_scheduled K S T"
  "same_scheduled K S (T\<lparr>cpu_num_searched := n\<rparr>) = same_scheduled K S T"
  "same_scheduled K S (T\<lparr>cpu_ROB := (cpu_ROB T)\<lparr>rb_next_schedule := n\<rparr>\<rparr>) = same_scheduled K S T"
  by (simp_all add: same_scheduled_def)

lemma do_scheduling_others:
  assumes i: "i \<notin> K"
  shows "ends UNIV (same_scheduled K S) (do_scheduling E i S)"
proof -
  have "same_scheduled K S (upd_rob i f S)" for f by (simp add: same_scheduled_upd i)
  then have dep: "ends UNIV (same_scheduled K S) (reg_dependency E i (upd_rob i f S))" for f
    unfolding reg_dependency_def
    by (rule_tac ends_mono [OF check_priors_scheduled]) (blast intro: same_scheduled_trans, simp)
  have later: "ends UNIV P (bind_res m f)" if "\<And>r. ends UNIV P (f r)" for P m and f :: "ready \<Rightarrow> o3_cpu res"
    using that by (cases m) simp_all
  show ?thesis
    unfolding do_scheduling_def Let_def
  proof (rule ends_bind [OF dep])
    fix T assume T: "same_scheduled K S T"
    obtain n where n: "(if i = rb_SIZE (cpu_ROB T) - 1 then 0 else i + 1) = n" by blast
    show "ends UNIV (same_scheduled K S) (if oi_is_memory (rob_at (T\<lparr>cpu_ROB := (cpu_ROB T)\<lparr>rb_next_schedule :=
        if i = rb_SIZE (cpu_ROB T) - 1 then 0 else i + 1\<rparr>\<rparr>) i)
      then Inr (upd_rob i (\<lambda>e. e\<lparr>oi_scheduled := INFLIGHT\<rparr>) (T\<lparr>cpu_ROB := (cpu_ROB T)\<lparr>rb_next_schedule :=
        if i = rb_SIZE (cpu_ROB T) - 1 then 0 else i + 1\<rparr>\<rparr>))
      else if oi_reg_ready (rob_at (upd_rob i (\<lambda>e. advance_event (cp_now E) (cp_scheduling_latency E) (e\<lparr>oi_scheduled := COMPLETED\<rparr>))
          (T\<lparr>cpu_ROB := (cpu_ROB T)\<lparr>rb_next_schedule := if i = rb_SIZE (cpu_ROB T) - 1 then 0 else i + 1\<rparr>\<rparr>)) i)
      then bind_res (ready_push_checked i (cpu_RTE1 (upd_rob i (\<lambda>e. advance_event (cp_now E) (cp_scheduling_latency E) (e\<lparr>oi_scheduled := COMPLETED\<rparr>))
          (T\<lparr>cpu_ROB := (cpu_ROB T)\<lparr>rb_next_schedule := if i = rb_SIZE (cpu_ROB T) - 1 then 0 else i + 1\<rparr>\<rparr>))))
        (\<lambda>r. Inr ((upd_rob i (\<lambda>e. advance_event (cp_now E) (cp_scheduling_latency E) (e\<lparr>oi_scheduled := COMPLETED\<rparr>))
          (T\<lparr>cpu_ROB := (cpu_ROB T)\<lparr>rb_next_schedule := if i = rb_SIZE (cpu_ROB T) - 1 then 0 else i + 1\<rparr>\<rparr>))\<lparr>cpu_RTE1 := r\<rparr>))
      else Inr (upd_rob i (\<lambda>e. advance_event (cp_now E) (cp_scheduling_latency E) (e\<lparr>oi_scheduled := COMPLETED\<rparr>))
          (T\<lparr>cpu_ROB := (cpu_ROB T)\<lparr>rb_next_schedule := if i = rb_SIZE (cpu_ROB T) - 1 then 0 else i + 1\<rparr>\<rparr>)))"
      unfolding n using T i by (simp add: later same_scheduled_other same_scheduled_upd)
  qed
qed

lemma schedule_scan_others: "set is \<inter> K = {} \<Longrightarrow> ends UNIV (same_scheduled K S) (schedule_scan E is S)"
proof (induction "is" arbitrary: S)
  case (Cons i "is")
  have K: "set is \<inter> K = {}" "i \<notin> K" using Cons.prems by auto
  have rest: "ends UNIV (same_scheduled K T) (schedule_scan E is (T\<lparr>cpu_num_searched := cpu_num_searched T + 1\<rparr>))" for T
    by (rule ends_mono [OF Cons.IH [OF K(1)]]) (simp_all add: same_scheduled_def)
  have step: "ends UNIV (same_scheduled K S) (if oi_scheduled (rob_at S i) = 0 then do_scheduling E i S else Inr S)"
    by (simp add: do_scheduling_others [OF K(2)])
  show ?case
    using scheduled_bind [OF step rest] by simp
qed simp

section \<open>Issue\<close>

text \<open>The entries \<open>is\<close> start to execute, and no other entry changes.\<close>

definition issues :: "o3_cpu \<Rightarrow> nat list \<Rightarrow> o3_cpu \<Rightarrow> bool" where
  "issues S is T \<longleftrightarrow> cpu_inflight_reg_executions T = cpu_inflight_reg_executions S + of_nat (length is) \<and>
     length (rb_entry (cpu_ROB T)) = length (rb_entry (cpu_ROB S)) \<and> rb_SIZE (cpu_ROB T) = rb_SIZE (cpu_ROB S) \<and>
     (\<forall>i\<in>set is. in_rob S i \<and> oi_executed (rob_at T i) = INFLIGHT) \<and> (\<forall>i. i \<notin> set is \<longrightarrow> rob_at T i = rob_at S i)"

lemma do_execution_issues: "in_rob S i \<Longrightarrow> issues S is U \<Longrightarrow> in_rob U i \<Longrightarrow> do_execution E i U = Inr T \<Longrightarrow> issues S (is @ [i]) T"
  by (auto simp: issues_def do_execution_def rob_at_upd_rob advance_event_def upd_rob_def rob_at_def in_rob_def nth_list_update split: if_splits)

lemma execute_loop_issues:
  assumes "\<And>T. cpu_ROB (upd ready_pop T) = cpu_ROB T \<and> cpu_inflight_reg_executions (upd ready_pop T) = cpu_inflight_reg_executions T"
  shows "issues S is T \<Longrightarrow> length is \<le> EXEC_WIDTH \<Longrightarrow>
    ends UNIV (\<lambda>(k, U). \<exists>js. issues S js U \<and> k = length js \<and> length js \<le> EXEC_WIDTH) (execute_loop E get upd n (length is, T))"
proof (induction n arbitrary: T "is")
  case 0
  then show ?case by auto
next
  case (Suc n)
  show ?case
  proof (cases "length is < EXEC_WIDTH")
    case False
    then show ?thesis using Suc.prems by auto
  next
    case True
    show ?thesis
    proof (cases "ready_front (get T)")
      case None
      then show ?thesis using Suc.prems True by auto
    next
      case (Some i)
      show ?thesis
      proof (cases "in_rob T i \<and> oi_event_cycle (rob_at T i) \<le> cp_now E")
        case False
        then show ?thesis using Suc.prems Suc.IH [OF Suc.prems] True Some by (auto simp: Let_def)
      next
        case ready: True
        have "in_rob S i" using ready Suc.prems(1) by (simp add: in_rob_def issues_def)
        obtain U where U: "do_execution E i T = Inr U" using ready by (simp add: do_execution_def)
        have "issues S (is @ [i]) U"
          by (rule do_execution_issues [OF \<open>in_rob S i\<close> Suc.prems(1) conjunct1 [OF ready] U])
        then have "issues S (is @ [i]) (upd ready_pop U)" using assms [of U] by (simp add: issues_def rob_at_def)
        from Suc.IH [OF this] True
        have "ends UNIV (\<lambda>(k, U). \<exists>js. issues S js U \<and> k = length js \<and> length js \<le> EXEC_WIDTH)
            (execute_loop E get upd n (length is + 1, upd ready_pop U))" by simp
        then show ?thesis using True Some ready U by (simp add: Let_def)
      qed
    qed
  qed
qed

lemma execute_instruction_issues:
  "ends UNIV (\<lambda>T. \<exists>is. length is \<le> EXEC_WIDTH \<and> issues S is T) (execute_instruction E S)"
proof (cases "rob_empty S")
  case True
  then show ?thesis by (auto simp: execute_instruction_def issues_def intro!: exI [of _ "[]"])
next
  case False
  have 0: "issues S [] S" by (simp add: issues_def)
  have loop: "ends UNIV (\<lambda>(k, U). \<exists>js. issues S js U \<and> k = length js \<and> length js \<le> EXEC_WIDTH) (execute_loop E cpu_RTE0 cpu_RTE0_update n (length js, T))"
    "ends UNIV (\<lambda>(k, U). \<exists>js. issues S js U \<and> k = length js \<and> length js \<le> EXEC_WIDTH) (execute_loop E cpu_RTE1 cpu_RTE1_update n (length js, T))"
    if "issues S js T" "length js \<le> EXEC_WIDTH" for n js T
    by (rule execute_loop_issues [OF _ that]; simp)+
  show ?thesis
    unfolding execute_instruction_def if_not_P [OF False]
  proof (rule ends_bind [OF loop(1) [OF 0, simplified]], clarify)
    fix U js assume "issues S js U" "length js \<le> EXEC_WIDTH"
    then show "ends UNIV (\<lambda>T. \<exists>is. length is \<le> EXEC_WIDTH \<and> issues S is T)
      (bind_res (execute_loop E cpu_RTE1 cpu_RTE1_update (rb_SIZE (cpu_ROB U) - 1) (length js, U)) (\<lambda>(exec_issued, S). Inr S))"
      by (rule ends_bind [OF loop(2)]) auto
  qed
qed

section \<open>The producer of a load\<close>

definition stores_to :: "'w core_ports \<Rightarrow> ooo_instr \<Rightarrow> u64 \<Rightarrow> bool" where
  "stores_to E p a \<longleftrightarrow>
     (\<exists>i\<in>set [0..<MAX_INSTR_DESTINATIONS E]. oi_destination_memory p ! i \<noteq> 0 \<and> oi_destination_memory p ! i = a)"

lemma lq_at_upd_rob [simp]: "lq_at (upd_rob i f S) l = lq_at S l"
  by (simp add: lq_at_def upd_rob_def)

lemma rob_at_upd_lq [simp]: "rob_at (upd_lq l f S) i = rob_at S i"
  by (simp add: rob_at_def upd_lq_def)

lemma lq_at_upd_lq: "lq_at (upd_lq l f S) k = (if k = l \<and> in_lq S l then f (lq_at S l) else lq_at S k)"
  by (auto simp: lq_at_def upd_lq_def in_lq_def nth_list_update list_update_beyond)

lemma find_producer_finds:
  assumes "lse_producer_id (lq_at S l) = UINT64_MAX" "in_lq S l" "\<forall>i\<in>set ps. in_rob S i \<and> i \<noteq> cur \<and> oi_instr_id (rob_at S i) \<noteq> UINT64_MAX"
    "\<forall>i\<in>set ps. fs_wf (oi_memory_instrs_depend_on_me (rob_at S i))" "cur < MAX_SIZE"
  shows "case find (\<lambda>i. stores_to E (rob_at S i) (oi_source_memory (rob_at S cur) ! j)) ps of
      None \<Rightarrow> find_producer E cur j l ps S = Inr S
    | Some p \<Rightarrow> \<exists>T deps. find_producer E cur j l ps S = Inr T \<and> fs_set deps = insert (of_nat cur) (fs_set (oi_memory_instrs_depend_on_me (rob_at S p))) \<and>
        rob_at T p = (rob_at S p)\<lparr>oi_is_producer := True, oi_memory_instrs_depend_on_me := deps\<rparr> \<and> (\<forall>i. i \<noteq> p \<longrightarrow> rob_at T i = rob_at S i) \<and>
        lq_at T l = (lq_at S l)\<lparr>lse_producer_id := oi_instr_id (rob_at S p), lse_translated := INFLIGHT\<rparr> \<and>
        (\<forall>k. k \<noteq> l \<longrightarrow> lq_at T k = lq_at S k)"
  using assms
proof (induction ps)
  case Nil
  then show ?case by simp
next
  case (Cons p ps)
  show ?case
  proof (cases "stores_to E (rob_at S p) (oi_source_memory (rob_at S cur) ! j)")
    case False
    then have "mem_RAW_dependency E p cur j l S = Inr S" by (auto simp: mem_RAW_dependency_def stores_to_def Let_def)
    then have skip: "find_producer E cur j l (p # ps) S = find_producer E cur j l ps S" using Cons.prems(1) by simp
    have "find (\<lambda>i. stores_to E (rob_at S i) (oi_source_memory (rob_at S cur) ! j)) (p # ps) =
        find (\<lambda>i. stores_to E (rob_at S i) (oi_source_memory (rob_at S cur) ! j)) ps" using False by simp
    then show ?thesis unfolding skip using Cons.IH Cons.prems by simp
  next
    case True
    have small: "(of_nat cur :: u16) < 2048"
      using Cons.prems(5) by (simp add: MAX_SIZE_def word_less_nat_alt unat_of_nat)
    obtain deps where deps: "fastset_insert (of_nat cur) (oi_memory_instrs_depend_on_me (rob_at S p)) = Inr deps"
      "fs_set deps = insert (of_nat cur) (fs_set (oi_memory_instrs_depend_on_me (rob_at S p)))"
      using insert_spec [OF _ small, of "oi_memory_instrs_depend_on_me (rob_at S p)"] Cons.prems(4) by auto
    let ?T = "upd_lq l (\<lambda>l. l\<lparr>lse_producer_id := oi_instr_id (rob_at S p), lse_translated := INFLIGHT\<rparr>)
      (upd_rob p (\<lambda>p. p\<lparr>oi_is_producer := True, oi_memory_instrs_depend_on_me := deps\<rparr>) S)"
    have step: "mem_RAW_dependency E p cur j l S = Inr ?T"
      using True deps(1) by (auto simp: mem_RAW_dependency_def stores_to_def Let_def)
    have lq: "in_lq (upd_rob p f S) l" for f using Cons.prems(2) by (simp add: in_lq_def upd_rob_def)
    have set: "lse_producer_id (lq_at ?T l) \<noteq> UINT64_MAX"
      using Cons.prems(3) lq by (simp add: lq_at_upd_lq)
    have stop: "find_producer E cur j l ps ?T = Inr ?T" using set by (cases ps) simp_all
    have "find_producer E cur j l (p # ps) S = Inr ?T" using step stop Cons.prems(1) by simp
    moreover have "rob_at ?T i = (if i = p then (rob_at S p)\<lparr>oi_is_producer := True, oi_memory_instrs_depend_on_me := deps\<rparr> else rob_at S i)" for i
      using Cons.prems(3) by (simp add: rob_at_upd_rob)
    moreover have "lq_at ?T k = (if k = l then (lq_at S l)\<lparr>lse_producer_id := oi_instr_id (rob_at S p), lse_translated := INFLIGHT\<rparr> else lq_at S k)" for k
      using lq by (simp add: lq_at_upd_lq)
    ultimately show ?thesis using True deps(2) by (simp del: find_producer.simps) (rule exI [of _ deps], simp)
  qed
qed

end
