(* ===== verification/CoreProps.thy ===== *)
theory CoreProps
  imports CoreIssue
begin

text \<open>
  What the core guarantees, with a run on an example: program order of reading and retirement, the end of the
  reading loop, the recording and release of register dependencies, the issue bound, the producer of a load,
  and the entries that the scheduler cannot reach.
\<close>

section \<open>An example\<close>

text \<open>
  A core with ideal memory: each TLB and cache takes one request at a time and answers it at the end of the
  cycle.
\<close>

record ideal =
  id_itlb :: packet_queue
  id_l1i :: packet_queue
  id_dtlb :: packet_queue
  id_l1d :: packet_queue

definition deliver :: "packet \<Rightarrow> packet_queue \<Rightarrow> (int \<times> packet_queue) res" where
  "deliver p q = (if q_occupancy q \<noteq> 0 then Inr (- 2, q) else bind_res (add_queue p q) (\<lambda>q. Inr (- 1, q)))"

definition ideal_init :: ideal where
  "ideal_init = (let q = PACKET_QUEUE_init zero_packet ''PROCESSED'' 1 in \<lparr>id_itlb = q, id_l1i = q, id_dtlb = q, id_l1d = q\<rparr>)"

definition ideal_ports :: "input_instr list \<Rightarrow> ideal core_ports" where
  "ideal_ports tr =
     \<lparr>cp_now = 0, cp_blank = zero_packet, cp_trace = tr, cp_cloudsuite = False, cp_scheduling_latency = 0, cp_exec_latency = 0,
      itlb_add_rq = \<lambda>p w. bind_res (deliver p (id_itlb w)) (\<lambda>(i, q). Inr (i, w\<lparr>id_itlb := q\<rparr>)),
      l1i_add_rq = \<lambda>p w. bind_res (deliver p (id_l1i w)) (\<lambda>(i, q). Inr (i, w\<lparr>id_l1i := q\<rparr>)),
      dtlb_add_rq = \<lambda>p w. bind_res (deliver (p\<lparr>p_data_pa := 7\<rparr>) (id_dtlb w)) (\<lambda>(i, q). Inr (i, w\<lparr>id_dtlb := q\<rparr>)),
      l1d_add_rq = \<lambda>p w. bind_res (deliver p (id_l1d w)) (\<lambda>(i, q). Inr (i, w\<lparr>id_l1d := q\<rparr>)),
      l1d_add_wq = \<lambda>p w. Inr (- 1, w), l1d_wq_occupancy = \<lambda>w. 0, l1d_wq_SIZE = \<lambda>w. 4, l1d_count_wq_full = \<lambda>w. w,
      itlb_processed = id_itlb, l1i_processed = id_l1i, dtlb_processed = id_dtlb, l1d_processed = id_l1d,
      put_itlb_processed = \<lambda>q w. w\<lparr>id_itlb := q\<rparr>, put_l1i_processed = \<lambda>q w. w\<lparr>id_l1i := q\<rparr>,
      put_dtlb_processed = \<lambda>q w. w\<lparr>id_dtlb := q\<rparr>, put_l1d_processed = \<lambda>q w. w\<lparr>id_l1d := q\<rparr>, operate_caches = Inr\<rparr>"

definition sample_record :: "u64 \<Rightarrow> input_instr" where
  "sample_record ip = \<lparr>tr_ip = ip, tr_is_branch = 0, tr_branch_taken = 0, tr_destination_registers = [3, 0],
     tr_source_registers = [3, 0, 0, 0], tr_destination_memory = [0, 0], tr_source_memory = [0, 0, 0, 0], tr_asid0 = 0, tr_asid1 = 0\<rparr>"

primrec core_cycles :: "'w core_ports \<Rightarrow> u64 list \<Rightarrow> o3_cpu \<times> 'w \<Rightarrow> (o3_cpu \<times> 'w) res option" where
  "core_cycles E [] Sw = Some (Inr Sw)"
| "core_cycles E (t # ts) Sw =
     (case core_cycle (E\<lparr>cp_now := t\<rparr>) Sw of
        None \<Rightarrow> None | Some (Inl f) \<Rightarrow> Some (Inl f) | Some (Inr Sw) \<Rightarrow> core_cycles E ts Sw)"

lemma small_lists: "replicate 2 x = [x, x]" "replicate 3 x = [x, x, x]" "replicate 4 x = [x, x, x, x]" "replicate (4 + 4) x = [x, x, x, x, x, x, x, x]" "replicate (Suc 0) x = [x]"
  "replicate 12 x = [x, x, x, x, x, x, x, x, x, x, x, x]"
  by (simp_all add: numeral_eq_Suc)

lemmas core_init_eval = ideal_ports_def ideal_init_def sample_record_def O3_CPU_init_def CORE_BUFFER_init_def ooo_instr_init_def
  ready_init_def LOAD_STORE_QUEUE_init_def NUM_INSTR_DESTINATIONS_SPARC_def NUM_INSTR_DESTINATIONS_def NUM_INSTR_SOURCES_def PACKET_QUEUE_init_def small_lists

lemmas core_read_eval = handle_branch_def read_records.simps read_record_def admit_instr_def add_to_rob_def build_instr_def copy_destination_def
  push_STA_def MAX_INSTR_DESTINATIONS_def

lemmas core_back_eval = fetch_instruction_def translate_loop.simps(2) [where n = 11, simplified] fetch_loop.simps(2) [where n = 11, simplified]
  translate_loop.simps(2) [where n = 10, simplified] fetch_loop.simps(2) [where n = 10, simplified]
  translate_loop.simps(2) [where n = 9, simplified] fetch_loop.simps(2) [where n = 9, simplified]
  schedule_instruction_def rob_empty_def rob_span_def SCHEDULER_SIZE_def do_scheduling_def reg_dependency_def priors_def
  reg_RAW_dependency_def writes_register_def advance_event_def
  ready_push_checked_def ready_push_def execute_instruction_def do_execution_def ready_front_def ready_pop_def EXEC_WIDTH_def
  schedule_memory_instruction_def execute_memory_instruction_def operate_lsq_def update_rob_def collect_def head_ready_def
  complete_instr_fetch_def check_rob_def instr_arrived_def remove_queue_def deliver_def add_queue_def itlb_packet_def l1i_packet_def
  complete_execution_def reg_RAW_release_def release_source_def retire_rob_def RETIRE_WIDTH_def retire_one_def stores_of_def release_head_def UINT32_MAX_def
  retire_loop.simps(2) [where n = 11, simplified] retire_loop.simps(2) [where n = 10, simplified]
  execute_loop.simps(2) [where n = 1, unfolded Suc_1]
  PACKET_init_def fastset_init_def fastset_expand_def fastset_search_def fastset_insert_def SMALL_SIZE_def

lemmas core_eval = core_cycle_def core_init_eval core_read_eval core_back_eval Let_def upt_conv_Cons in_rob_def rob_at_def upd_rob_def
  FETCH_WIDTH_def wrap_next_def COMPLETED_def INFLIGHT_def

lemma run_reachable:
  "core_reachable E S \<Longrightarrow> core_cycles E ts (S, w) = Some (Inr (S', w')) \<Longrightarrow> core_reachable E S'"
proof (induction ts arbitrary: S w)
  case (Cons t ts)
  then obtain S1 w1 where "core_cycle (E\<lparr>cp_now := t\<rparr>) (S, w) = Some (Inr (S1, w1))" "core_cycles E ts (S1, w1) = Some (Inr (S', w'))"
    by (auto split: option.splits sum.splits)
  then show ?case using Cons.IH Cons.prems(1) core_reachable.cycle by metis
qed simp

abbreviation sample_trace :: "input_instr list" where
  "sample_trace \<equiv> [sample_record 0x400, sample_record 0x404]"

lemma core_sample_run:
  "\<exists>S w. core_cycles (ideal_ports sample_trace) [1, 2, 3, 4, 5] (O3_CPU_init 2 1 1 0, ideal_init) = Some (Inr (S, w)) \<and>
     rb_occupancy (cpu_ROB S) = 2 \<and> cpu_num_retired S = 2"
  by (simp add: core_eval)

lemma sample_wrap:
  "\<exists>S w T. core_cycles (ideal_ports sample_trace) [1, 2, 3, 4] (O3_CPU_init 3 1 1 0, ideal_init) = Some (Inr (S, w)) \<and>
     rb_head (cpu_ROB S) = 2 \<and> rb_occupancy (cpu_ROB S) = 2 \<and> rb_SIZE (cpu_ROB S) = 3 \<and> oi_scheduled (rob_at S 0) = 0 \<and>
     map fst (window S) = [2, 3] \<and> schedule_instruction (ideal_ports sample_trace) S = Inr T"
  by (simp add: core_eval window_def ident_def)

text \<open>A buffer in which the second of two instructions reads the register that the first one writes.\<close>

definition sample_core :: "u8 \<Rightarrow> o3_cpu" where
  "sample_core x = (O3_CPU_init 2 1 1 0)\<lparr>cpu_trace_pos := 2, cpu_instr_unique_id := 2, cpu_ROB := (CORE_BUFFER_init 2)\<lparr>rb_occupancy := 2, rb_entry :=
     [ooo_instr_init\<lparr>oi_ip := 0x400, oi_executed := x, oi_destination_registers := [3, 0, 0, 0]\<rparr>,
      ooo_instr_init\<lparr>oi_instr_id := 1, oi_ip := 0x404, oi_reg_ready := True, oi_source_registers := [3, 3, 5, 0]\<rparr>]\<rparr>\<rparr>"

lemma sample_in_order: "in_order (ideal_ports sample_trace) 0 (sample_core x)"
  by (auto simp: in_order_def skeleton_def sample_core_def core_init_eval ident_def instr_no_def less_Suc_eq numeral_2_eq_2)

section \<open>Properties\<close>

lemma in_order_facts:
  assumes "in_order E n S"
  shows "cpu_num_retired S = of_nat n" "rb_head (cpu_ROB S) < rb_SIZE (cpu_ROB S)" "rb_occupancy (cpu_ROB S) \<le> rb_SIZE (cpu_ROB S)"
    "rb_next_fetch1 (cpu_ROB S) = 0" "length (rb_entry (cpu_ROB S)) = rb_SIZE (cpu_ROB S)"
  using assms by (simp_all add: in_order_def skeleton_def)

text \<open>
  C1: The core retires the trace in program order. In every reachable state the reorder buffer holds, oldest
  first, consecutive instructions of the trace (which starts again at its end), the first of which has the number of
  instructions that have retired; so no instruction is lost, repeated or reordered, whatever the caches answer and when.
\<close>

theorem core_program_order:
  assumes "core_reachable E S"
  shows "\<exists>n. cpu_num_retired S = of_nat n \<and> window S = map (instr_no E) [n..<n + rb_occupancy (cpu_ROB S)] \<and>
    rb_occupancy (cpu_ROB S) \<le> rb_SIZE (cpu_ROB S)"
  using reachable_in_order [OF assms] window_in_order in_order_facts by metis

theorem core_program_order_witness:
  "\<exists>S n. core_reachable (ideal_ports sample_trace) S \<and> of_nat n = (2 :: u64) \<and> window S = map (instr_no (ideal_ports sample_trace)) [n..<n + 2]"
proof -
  obtain S w where S: "core_cycles (ideal_ports sample_trace) [1, 2, 3, 4, 5] (O3_CPU_init 2 1 1 0, ideal_init) = Some (Inr (S, w))"
    "rb_occupancy (cpu_ROB S) = 2" "cpu_num_retired S = 2" using core_sample_run by blast
  have "core_reachable (ideal_ports sample_trace) (O3_CPU_init 2 1 1 0)" by (rule core_reachable.start) simp
  from run_reachable [OF this S(1)] have "core_reachable (ideal_ports sample_trace) S" .
  with core_program_order [OF this] S show ?thesis by metis
qed

text \<open>
  C2: Retirement takes completed instructions from the front of the buffer, at most \<^verbatim>\<open>RETIRE_WIDTH\<close> of them, and counts
  each one.
\<close>

theorem retire_completed_prefix:
  assumes "in_order E n S" "retire_rob E (S, w) = Inr (S', w')"
  shows "\<exists>k\<le>RETIRE_WIDTH. k \<le> rb_occupancy (cpu_ROB S) \<and> in_order E (n + k) S' \<and> window S' = drop k (window S) \<and>
    cpu_num_retired S' = cpu_num_retired S + of_nat k \<and> (\<forall>i<k. oi_executed (nth_oldest S i) = COMPLETED)"
proof -
  obtain k where k: "k \<le> RETIRE_WIDTH" "in_order E (n + k) S'" "rb_occupancy (cpu_ROB S') + k = rb_occupancy (cpu_ROB S)"
    "\<forall>i<k. oi_executed (nth_oldest S i) = COMPLETED"
    using retire_loop_in_order [OF assms(1), of RETIRE_WIDTH w] assms(2) by (auto simp: retire_rob_def)
  have "window S' = drop k (window S)"
    using window_in_order [OF assms(1)] window_in_order [OF k(2)] k(3) [symmetric] by (simp add: drop_map ac_simps)
  then show ?thesis using k in_order_facts(1) [OF assms(1)] in_order_facts(1) [OF k(2)] by auto
qed

theorem retire_completed_prefix_witness:
  "\<exists>S'. retire_rob (ideal_ports sample_trace) (sample_core COMPLETED, ideal_init) = Inr (S', ideal_init) \<and>
     in_order (ideal_ports sample_trace) 1 S' \<and> window S' = drop 1 (window (sample_core COMPLETED))"
proof -
  obtain S' where S': "retire_rob (ideal_ports sample_trace) (sample_core COMPLETED, ideal_init) = Inr (S', ideal_init)" "cpu_num_retired S' = 1"
    by (simp add: sample_core_def core_eval)
  obtain k where k: "k \<le> RETIRE_WIDTH" "in_order (ideal_ports sample_trace) (0 + k) S'" "window S' = drop k (window (sample_core COMPLETED))"
    "cpu_num_retired S' = cpu_num_retired (sample_core COMPLETED) + of_nat k"
    using retire_completed_prefix [OF sample_in_order S'(1)] by blast
  have "(of_nat k :: u64) = 1" using k(4) S'(2) by (simp add: sample_core_def O3_CPU_init_def)
  moreover have "unat (of_nat k :: u64) = k" using k(1) by (simp add: RETIRE_WIDTH_def unat_of_nat)
  ultimately have "k = 1" by simp
  then show ?thesis using S' k by auto
qed

text \<open>
  C3: Reading ends. When the buffer has room, the loop that reads the trace returns exactly if the trace is not empty,
  and if it returns it has added between one and \<^verbatim>\<open>FETCH_WIDTH\<close> instructions; with an empty trace file the simulator
  hangs.
\<close>

theorem handle_branch_returns:
  assumes "in_order E n S" "rb_occupancy (cpu_ROB S) < rb_SIZE (cpu_ROB S)"
  shows "(handle_branch E S = None \<longleftrightarrow> cp_trace E = []) \<and>
    (\<forall>T. handle_branch E S = Some (Inr T) \<longrightarrow> in_order E n T \<and> rb_occupancy (cpu_ROB S) < rb_occupancy (cpu_ROB T) \<and>
      rb_occupancy (cpu_ROB T) \<le> rb_occupancy (cpu_ROB S) + FETCH_WIDTH)"
proof (cases "cp_trace E = []")
  case True
  then show ?thesis by (simp add: handle_branch_def read_records_empty)
next
  case False
  then show ?thesis using handle_branch_ends [OF False assms] by auto
qed

theorem handle_branch_returns_witness:
  "\<exists>T. handle_branch (ideal_ports sample_trace) (O3_CPU_init 2 1 1 0) = Some (Inr T) \<and> in_order (ideal_ports sample_trace) 0 T \<and>
     rb_occupancy (cpu_ROB T) \<in> {1..12} \<and> handle_branch (ideal_ports []) (O3_CPU_init 2 1 1 0) = None"
proof -
  have start: "in_order E 0 (O3_CPU_init 2 1 1 0)" for E :: "ideal core_ports" by (simp add: order_init)
  have room: "rb_occupancy (cpu_ROB (O3_CPU_init 2 1 1 0)) < rb_SIZE (cpu_ROB (O3_CPU_init 2 1 1 0))" by (simp add: O3_CPU_init_def CORE_BUFFER_init_def)
  obtain T where T: "handle_branch (ideal_ports sample_trace) (O3_CPU_init 2 1 1 0) = Some (Inr T)" by (simp add: core_eval)
  have "in_order (ideal_ports sample_trace) 0 T" "rb_occupancy (cpu_ROB T) \<in> {1..12}"
    using handle_branch_returns [OF start room, of "ideal_ports sample_trace"] T
    by (auto simp: FETCH_WIDTH_def O3_CPU_init_def CORE_BUFFER_init_def)
  moreover have "handle_branch (ideal_ports []) (O3_CPU_init 2 1 1 0) = None"
    using handle_branch_returns [OF start room, of "ideal_ports []"] by (simp add: ideal_ports_def)
  ultimately show ?thesis using T by blast
qed

text \<open>
  C7: The scheduler cannot reach the wrapped part of the buffer. \<^verbatim>\<open>ROB.next_fetch[1]\<close>, which bounds its scan, is 0 from
  construction on, so that in no reachable state \<^verbatim>\<open>schedule_instruction\<close> schedules an entry below the head.
\<close>

theorem schedule_skips_wrapped:
  assumes "core_reachable E S" "schedule_instruction E S = Inr T" "i < rb_head (cpu_ROB S)"
  shows "oi_scheduled (rob_at T i) = oi_scheduled (rob_at S i)"
proof -
  obtain n where n: "in_order E n S" using reachable_in_order [OF assms(1)] by blast
  note nf = in_order_facts(4) [OF n]
  have "ends UNIV (same_scheduled {i} S) (schedule_instruction E S)"
  proof (cases "rob_empty S")
    case False
    have "set (rob_span (cpu_ROB S) 0) \<inter> {i} = {}" using assms(3) by (auto simp: rob_span_def)
    then have "ends UNIV (same_scheduled {i} (S\<lparr>cpu_num_searched := 0\<rparr>)) (schedule_scan E (rob_span (cpu_ROB S) 0) (S\<lparr>cpu_num_searched := 0\<rparr>))"
      by (rule schedule_scan_others)
    then have "ends UNIV (same_scheduled {i} S) (schedule_scan E (rob_span (cpu_ROB S) 0) (S\<lparr>cpu_num_searched := 0\<rparr>))"
      by (rule ends_mono) (simp_all add: same_scheduled_def)
    then show ?thesis using False by (simp add: schedule_instruction_def nf)
  qed (simp add: schedule_instruction_def)
  then show ?thesis using assms(2) by (simp add: same_scheduled_def)
qed

theorem schedule_skips_wrapped_witness:
  "\<exists>S T. core_reachable (ideal_ports sample_trace) S \<and> rb_head (cpu_ROB S) = 2 \<and> map fst (window S) = [2, 3] \<and>
     schedule_instruction (ideal_ports sample_trace) S = Inr T \<and> oi_scheduled (rob_at T 0) = 0"
proof -
  obtain S w T where S: "core_cycles (ideal_ports sample_trace) [1, 2, 3, 4] (O3_CPU_init 3 1 1 0, ideal_init) = Some (Inr (S, w))"
    "rb_head (cpu_ROB S) = 2" "rb_occupancy (cpu_ROB S) = 2" "rb_SIZE (cpu_ROB S) = 3" "oi_scheduled (rob_at S 0) = 0" "map fst (window S) = [2, 3]"
    "schedule_instruction (ideal_ports sample_trace) S = Inr T" using sample_wrap by (elim exE conjE)
  have "core_reachable (ideal_ports sample_trace) (O3_CPU_init 3 1 1 0)" by (rule core_reachable.start) simp
  from run_reachable [OF this S(1)] have r: "core_reachable (ideal_ports sample_trace) S" .
  show ?thesis using schedule_skips_wrapped [OF r S(7), of 0] r S by auto
qed



text \<open>
  C6: A completed producer wakes exactly its dependents. If \<^verbatim>\<open>reg_RAW_release\<close> completes, the count of every recorded
  dependent has dropped by its sources that waited for the producer; those with none left are ready and scheduled, and the ones
  that are not memory instructions are on the list \<^verbatim>\<open>RTE0\<close> of instructions to execute, each once; no other entry changes.
\<close>

theorem reg_RAW_release_wakes:
  assumes "deps_wf S" "in_rob S r" "rb_SIZE (cpu_ROB S) \<le> MAX_SIZE" "\<not> dependent S r r"
    "\<forall>x\<in>fs_set (oi_registers_instrs_depend_on_me (rob_at S r)). unat x < rb_SIZE (cpu_ROB S)"
    "\<forall>d. dependent S d r \<longrightarrow> d < MAX_SIZE \<longrightarrow> int (waits S r d [0..<NUM_INSTR_SOURCES]) \<le> oi_num_reg_dependent (rob_at S d)"
    "reg_RAW_release r S = Inr T"
  shows "\<exists>ds. distinct ds \<and> set ds = {d. d < rb_SIZE (cpu_ROB S) \<and> dependent S d r} \<and>
    (\<forall>d. rob_at T d = (if d \<in> set ds then released (waits S r d [0..<NUM_INSTR_SOURCES]) (rob_at S d) else rob_at S d)) \<and>
    push_all (filter (wakes S r) ds) (cpu_RTE0 S) = Inr (cpu_RTE0 T)"
  using reg_RAW_release_effect [OF assms(1-6)] assms(7) by (auto simp: releases_def)

text \<open>The buffer of the example after the second instruction has been made to wait for the first.\<close>

definition only_one :: fastset where
  "only_one = fastset_init\<lparr>fs_values := [1, 0, 0, 0, 0, 0, 0, 0, 0, 0, 0, 0, 0], fs_card := 1\<rparr>"

definition linked_core :: o3_cpu where
  "linked_core = (O3_CPU_init 2 1 1 0)\<lparr>cpu_ROB := (CORE_BUFFER_init 2)\<lparr>rb_occupancy := 2, rb_entry :=
     [ooo_instr_init\<lparr>oi_ip := 0x400, oi_reg_RAW_producer := True, oi_executed := COMPLETED, oi_destination_registers := [3, 0, 0, 0],
        oi_registers_instrs_depend_on_me := only_one, oi_registers_index_depend_on_me := [only_one, only_one, fastset_init, fastset_init]\<rparr>,
      ooo_instr_init\<lparr>oi_instr_id := 1, oi_ip := 0x404, oi_num_reg_dependent := 2, oi_source_registers := [3, 3, 5, 0]\<rparr>]\<rparr>\<rparr>"

lemma only_one: "fs_wf only_one" "fs_set only_one = {1}"
  unfolding only_one_def by (simp_all add: fs_wf_def fs_set_def fastset_init_def fs_sizes)

lemma linked_core_at:
  "oi_registers_instrs_depend_on_me (rob_at linked_core 0) = only_one"
  "oi_registers_index_depend_on_me (rob_at linked_core 0) = [only_one, only_one, fastset_init, fastset_init]"
  "oi_num_reg_dependent (rob_at linked_core 1) = 2" "rb_SIZE (cpu_ROB linked_core) = 2" "in_rob linked_core 0" "\<not> oi_is_memory (rob_at linked_core 1)"
  by (simp_all add: linked_core_def rob_at_def CORE_BUFFER_init_def in_rob_def ooo_instr_init_def)

lemma linked_core_wf: "deps_wf linked_core"
  by (simp add: deps_wf_def linked_core_def only_one fs_wf_init ooo_instr_init_def NUM_INSTR_SOURCES_def)

lemma linked_core_released: "\<exists>T. reg_RAW_release 0 linked_core = Inr T \<and> cpu_RTE0 T = (cpu_RTE0 linked_core)\<lparr>rq_array := [1, 2], rq_tail := 1\<rparr>"
  by (simp add: reg_RAW_release_def linked_core_def rob_at_def CORE_BUFFER_init_def O3_CPU_init_def fastset_expand_def fastset_search_def SMALL_SIZE_def
      fastset_init_def in_rob_def NUM_INSTR_SOURCES_def upt_conv_Cons release_source_def upd_rob_def Let_def ooo_instr_init_def ready_push_checked_def
      ready_push_def ready_init_def wrap_next_def small_lists only_one_def)

lemma dependent_sample: "dependent linked_core d 0 \<longleftrightarrow> of_nat d = (1 :: u16)"
  by (simp add: dependent_def linked_core_at only_one)

lemma of_nat_index: "d < MAX_SIZE \<Longrightarrow> of_nat d = (1 :: u16) \<longleftrightarrow> d = 1"
proof -
  assume "d < MAX_SIZE"
  then have "unat (of_nat d :: u16) = d" by (simp add: MAX_SIZE_def unat_of_nat)
  then show ?thesis by (metis of_nat_1 unsigned_1)
qed

lemma waits_sample: "waits linked_core 0 1 [0..<NUM_INSTR_SOURCES] = 2"
  by (simp add: waits_def depends_on_def linked_core_at only_one NUM_INSTR_SOURCES_def upt_conv_Cons fs_set_init)

lemma sample_release_ok:
  "rb_SIZE (cpu_ROB linked_core) \<le> MAX_SIZE" "\<not> dependent linked_core 0 0"
  "\<forall>x\<in>fs_set (oi_registers_instrs_depend_on_me (rob_at linked_core 0)). unat x < rb_SIZE (cpu_ROB linked_core)"
  by (simp_all add: dependent_sample linked_core_at only_one MAX_SIZE_def)

lemma sample_counts: "\<forall>d. dependent linked_core d 0 \<longrightarrow> d < MAX_SIZE \<longrightarrow>
    int (waits linked_core 0 d [0..<NUM_INSTR_SOURCES]) \<le> oi_num_reg_dependent (rob_at linked_core d)"
proof (intro allI impI)
  fix d assume "dependent linked_core d 0" "d < MAX_SIZE"
  then have d: "d = 1" using of_nat_index dependent_sample by blast
  show "int (waits linked_core 0 d [0..<NUM_INSTR_SOURCES]) \<le> oi_num_reg_dependent (rob_at linked_core d)"
    unfolding d waits_sample linked_core_at by simp
qed

lemma sample_dependents: "{d. d < rb_SIZE (cpu_ROB linked_core) \<and> dependent linked_core d 0} = {1}"
  unfolding linked_core_at(4) dependent_sample by (auto simp: MAX_SIZE_def of_nat_index)

lemma sample_wakes: "wakes linked_core 0 1"
  unfolding waits_sample woken_def linked_core_at using linked_core_at(6) by simp

theorem reg_RAW_release_wakes_witness:
  "\<exists>T. reg_RAW_release 0 linked_core = Inr T \<and> oi_reg_ready (rob_at T 1) \<and> oi_num_reg_dependent (rob_at T 1) = 0 \<and>
     push_all [1] (cpu_RTE0 linked_core) = Inr (cpu_RTE0 T)"
proof -
  obtain T where T: "reg_RAW_release 0 linked_core = Inr T" using linked_core_released by (elim exE conjE)
  obtain ds where ds: "distinct ds" "set ds = {1}"
    "\<forall>d. rob_at T d = (if d \<in> set ds then released (waits linked_core 0 d [0..<NUM_INSTR_SOURCES]) (rob_at linked_core d) else rob_at linked_core d)"
    "push_all (filter (wakes linked_core 0) ds) (cpu_RTE0 linked_core) = Inr (cpu_RTE0 T)"
    using reg_RAW_release_wakes [of linked_core 0 T, OF linked_core_wf linked_core_at(5) sample_release_ok sample_counts T]
    unfolding sample_dependents by (elim exE conjE)
  have "length ds = 1" using distinct_card [OF ds(1)] ds(2) by simp
  then have ds1: "ds = [1]" using ds(2) by (cases ds) simp_all
  have "rob_at T 1 = released 2 (rob_at linked_core 1)" using spec [OF ds(3), of 1] by (simp only: ds(2) waits_sample insertI1 if_True)
  then have "oi_reg_ready (rob_at T 1)" "oi_num_reg_dependent (rob_at T 1) = 0"
    by (simp_all only: released_def Let_def linked_core_at(3)) simp_all
  moreover have "filter (wakes linked_core 0) ds = [1]" unfolding ds1 using sample_wakes by simp
  ultimately show ?thesis using T ds(4) by metis
qed




end
