(* ===== verification/Spec2Isabelle.thy ===== *)
theory Spec2Isabelle
  imports Prelude HashZoo Bitmaps FastSet PacketQueue Replacement Bimodal Streamer Stride Bop Cache CacheOps CacheQueues Hierarchy PageTable Dram DramRun DramLatency Pythia CoreProps
begin

text \<open>
  A verification library for Arishem, a simulator of a core with its memory hierarchy and hardware prefetchers
  (a ChampSim with the Pythia prefetcher).

  \<^bold>\<open>The program.\<close> An out-of-order core (\<^verbatim>\<open>src/ooo_cpu.cc\<close>) reads a trace, keeps its instructions in a reorder buffer, and
  sends requests (\<^verbatim>\<open>PACKET\<close>) to translation buffers and caches, all of them instances of one class
  (\<^verbatim>\<open>src/cache.cc\<close>). A cache has a read, a write and a prefetch queue, miss registers (MSHR) and sets of blocks with a
  replacement policy; it calls \<^verbatim>\<open>add_rq\<close>, \<^verbatim>\<open>add_wq\<close> and \<^verbatim>\<open>add_pq\<close> of the level below and gets its data through
  \<^verbatim>\<open>return_data\<close>. The second-level translation buffer ends in the page table of \<^verbatim>\<open>src/main.cc\<close>, the last cache in the
  memory controller (\<^verbatim>\<open>src/dram_controller.cc\<close>). Prefetchers see the accesses and fills of a cache and answer with
  addresses; Pythia (\<^verbatim>\<open>prefetcher/scooby.cc\<close>) learns by reinforcement which offset to prefetch. \<^verbatim>\<open>inc/defs.h\<close> fixes one
  core, one channel and one rank; arrays over these have one element and are that element in the models.

  \<^bold>\<open>How it is modelled.\<close> C++ integers are words of their width, counters that bound a loop or index a list natural
  numbers; structs are records with the members of the source, enumerations datatypes. A function that changes state
  takes it and returns it. A failed assertion, an access out of bounds, an invalid iterator, a division by zero, a
  null pointer and an endless loop are values: the left side of the sum type \<open>res\<close>. Members a constructor leaves
  uninitialised come from an argument, usually \<open>raw\<close>. Statistics are part of the state, printing is not.

  \<^bold>\<open>Theories.\<close>
  \<^item> \<^verbatim>\<open>Prelude\<close>: words, faults, page and line arithmetic, deques, and the locale \<open>page_prefetcher\<close>, the contract
    between a cache and a prefetcher: an invariant kept by every access, addresses in the page, at most \<open>degree\<close> of them.
  \<^item> \<^verbatim>\<open>HashZoo\<close> (\<^verbatim>\<open>src/util.cc\<close>), \<^verbatim>\<open>Bitmaps\<close> (\<^verbatim>\<open>src/bitmap.cc\<close>), \<^verbatim>\<open>FastSet\<close> (\<^verbatim>\<open>inc/set.h\<close>, locale \<open>index_set\<close>),
    \<^verbatim>\<open>Bimodal\<close> (\<^verbatim>\<open>branch/branch_predictor.cc\<close>): the building blocks, with what they compute.
  \<^item> \<^verbatim>\<open>PacketQueue\<close> (\<^verbatim>\<open>src/block.cc\<close>, \<^verbatim>\<open>inc/block.h\<close>): the circular queue, which refines a bounded FIFO (locale
    \<open>bounded_queue\<close>). \<^verbatim>\<open>Replacement\<close> (\<^verbatim>\<open>replacement/\<close>): LRU by ranks against a list in order of use, for both
    policies (locale \<open>replacement_policy\<close>).
  \<^item> \<^verbatim>\<open>Streamer\<close>, \<^verbatim>\<open>Stride\<close>, \<^verbatim>\<open>Bop\<close>: the prefetchers of \<^verbatim>\<open>prefetcher/streamer.cc\<close>, \<^verbatim>\<open>stride.cc\<close> and \<^verbatim>\<open>bop.cc\<close> as
    instances of \<open>page_prefetcher\<close>. Runs of the best-offset prefetcher mix accesses and fills, with its buffer on or off.
  \<^item> \<^verbatim>\<open>Cache\<close>, \<^verbatim>\<open>CacheOps\<close>, \<^verbatim>\<open>CacheQueues\<close>: the class \<^verbatim>\<open>CACHE\<close>. \<^verbatim>\<open>Cache\<close> has the blocks and the miss registers,
    \<^verbatim>\<open>CacheOps\<close> the handlers of a cycle (\<^verbatim>\<open>handle_fill\<close>, \<^verbatim>\<open>handle_writeback\<close>, \<^verbatim>\<open>handle_read\<close>, \<^verbatim>\<open>handle_prefetch\<close>) and the
    requests. What a cache calls is the record \<open>ports\<close> over a type \<open>'w\<close> of states of the rest of the system: the
    neighbours, the hooks of the prefetchers, the page table, and two quotients in single precision (\<open>percent_of\<close>,
    \<open>acc_bucket\<close>). \<^verbatim>\<open>CacheQueues\<close> proves what the neighbours see of the queues.
  \<^item> \<^verbatim>\<open>Hierarchy\<close>: L1, L2 and LLC linked as \<^verbatim>\<open>main\<close> links them, with the empty prefetcher hooks; the locale
    \<open>write_port\<close> is what an eviction needs of the level below. \<^verbatim>\<open>PageTable\<close>: \<^verbatim>\<open>va_to_pa\<close> and the invalidation of a
    swapped page in all levels; the two tables stay inverse to each other.
  \<^item> \<^verbatim>\<open>Dram\<close>, \<^verbatim>\<open>DramRun\<close>, \<^verbatim>\<open>DramLatency\<close>: the memory controller. \<^verbatim>\<open>DramRun\<close> has the invariant that ties scheduled
    requests to banks and counters, over the locale \<open>data_sink\<close> of the level above; \<^verbatim>\<open>DramLatency\<close> the exact time of a read.
  \<^item> \<^verbatim>\<open>QLearning\<close> (\<^verbatim>\<open>src/learning_engine_basic.cc\<close>), \<^verbatim>\<open>PythiaState\<close> (\<^verbatim>\<open>prefetcher/scooby_helper.cc\<close>), \<^verbatim>\<open>FeatureKnowledge\<close>
    (\<^verbatim>\<open>src/feature_knowledge.cc\<close>), \<^verbatim>\<open>Featurewise\<close> (\<^verbatim>\<open>src/learning_engine_featurewise.cc\<close>), \<^verbatim>\<open>Engine\<close> (locale
    \<open>learning_engine\<close>, interpreted for both engines and for their choice by knob), \<^verbatim>\<open>Scooby\<close> (\<^verbatim>\<open>prefetcher/scooby.cc\<close>),
    \<^verbatim>\<open>ScoobyRun\<close>, \<^verbatim>\<open>ScoobyEvents\<close>, \<^verbatim>\<open>BrainInit\<close> and \<^verbatim>\<open>Pythia\<close>: Pythia, its constructor and its runs. Floating point and
    random draws are records of operations (\<open>float_ops\<close>, \<open>random_ops\<close>).
  \<^item> \<^verbatim>\<open>Core\<close>, \<^verbatim>\<open>CoreFetch\<close>, \<^verbatim>\<open>CoreSchedule\<close>, \<^verbatim>\<open>CoreLsq\<close>, \<^verbatim>\<open>CoreCycle\<close>: the core, its caches the record
    \<open>core_ports\<close>. \<^verbatim>\<open>CoreOrder\<close> and \<^verbatim>\<open>CoreProgram\<close> prove program order by rule induction over the reachable states,
    \<^verbatim>\<open>CoreDeps\<close> and \<^verbatim>\<open>CoreIssue\<close> the dependences, \<^verbatim>\<open>CoreProps\<close> collects the properties.

  \<^bold>\<open>Loops.\<close> Most loops of the source count to a bound and are structural recursions over that number or over a list of
  indices: \<open>read_loop\<close> and \<open>pf_loop\<close> over \<^verbatim>\<open>MAX_READ\<close>, the scans of the reorder buffer over its size, retirement over
  \<^verbatim>\<open>RETIRE_WIDTH\<close>. Binary search, \<^verbatim>\<open>lg2\<close> and the compression of bitmaps are recursions with a measure. Two loops need
  not end and are partial functions whose result \<open>None\<close> is a loop that does not: the reading of the trace
  (\<open>read_records\<close>), which ends whenever the trace has a record, and the search for a free physical page (\<open>free_page\<close>),
  which ends exactly if a draw is free.

  \<^bold>\<open>Not modelled.\<close> The other prefetchers of \<^verbatim>\<open>prefetcher/\<close> (SPP, PPF, IPCP, DSPatch, Bingo, MLOP, SMS, AMPM, Sandbox,
  Power7, next line) and the alternative branch predictors and replacement policies, which the build script can copy over
  the ones modelled; the loop of \<^verbatim>\<open>main\<close>, the knobs, the configuration files and the decompression of traces, which are
  input and output around the models; the Pin tracers, which are callbacks of a library outside the repository. The
  trace files and plots of the learning engines are left out, their counters are kept.
\<close>

end
